(* ===== verification/Prelude.thy ===== *)
theory Prelude
  imports Main "HOL-Library.Word"
begin

text \<open>
  Shared vocabulary of the development: the machine-integer types of the C++ sources, byte
  buffers with \<open>memcpy\<close>-style reads and writes, little-endian integer images, NUL-terminated
  strings, and the error/result type in which every \<open>throw\<close> is a value.
  The lemma collections \<open>mem_simps\<close> (reads over writes) and \<open>res_simps\<close> (the result
  type) carry most component proofs; \<open>eval_simps\<close> unfolds recursion on numerals when a
  closed term is evaluated.
\<close>

named_theorems mem_simps
named_theorems res_simps
named_theorems eval_simps

section \<open>Machine types\<close>

type_synonym u8 = "8 word"
type_synonym u16 = "16 word"
type_synonym u32 = "32 word"
type_synonym u64 = "64 word"
type_synonym bytes = "u8 list"

lemma unat_eq_unat [simp]: "unat (a :: 'w::len word) = unat b \<longleftrightarrow> a = b"
  by (rule iffI) (erule unsigned_word_eqI, simp)

lemma unat_of_nat_small: "n < 2 ^ LENGTH('w) \<Longrightarrow> unat (of_nat n :: 'w::len word) = n"
  by (simp add: unat_of_nat)

section \<open>Errors as values\<close>

text \<open>
  \<open>std::runtime_error\<close> with its message; \<open>'a res\<close> is a computation that either throws or
  returns.
\<close>

datatype error = RuntimeError string

type_synonym 'a res = "error + 'a"

definition rbind :: "'e + 'a \<Rightarrow> ('a \<Rightarrow> 'e + 'b) \<Rightarrow> 'e + 'b" where
  "rbind m f = (case m of Inl e \<Rightarrow> Inl e | Inr x \<Rightarrow> f x)"

definition throw_if :: "bool \<Rightarrow> 'e \<Rightarrow> 'e + unit" where
  "throw_if b e = (if b then Inl e else Inr ())"

lemma rbind_simps [simp, res_simps]:
  "rbind (Inl e) f = Inl e"
  "rbind (Inr x) f = f x"
  by (simp_all add: rbind_def)

lemma rbind_eq_Inr [res_simps]: "rbind m f = Inr y \<longleftrightarrow> (\<exists>x. m = Inr x \<and> f x = Inr y)"
  by (cases m) auto

lemma rbind_eq_Inl [res_simps]:
  "rbind m f = Inl e \<longleftrightarrow> m = Inl e \<or> (\<exists>x. m = Inr x \<and> f x = Inl e)"
  by (cases m) auto

lemma throw_if_simps [simp, res_simps]:
  "throw_if b e = Inr u \<longleftrightarrow> \<not> b"
  "throw_if b e = Inl e' \<longleftrightarrow> b \<and> e' = e"
  by (auto simp: throw_if_def)

lemma throw_if_eval [simp]: "throw_if True e = Inl e" "throw_if False e = Inr ()"
  by (simp_all add: throw_if_def)

section \<open>Byte storage\<close>

text \<open>
  \<open>read_bytes off n\<close> and \<open>write_bytes off vs\<close> are \<open>memcpy\<close> from and into a byte array
  at a fixed offset. A write that fits keeps the length of the storage; that is how bounds
  are stated throughout.
\<close>

definition read_bytes :: "nat \<Rightarrow> nat \<Rightarrow> 'a list \<Rightarrow> 'a list" where
  "read_bytes off n bs = take n (drop off bs)"

definition write_bytes :: "nat \<Rightarrow> 'a list \<Rightarrow> 'a list \<Rightarrow> 'a list" where
  "write_bytes off vs bs = take off bs @ vs @ drop (off + length vs) bs"

lemma length_read_bytes [simp, mem_simps]:
  "off + n \<le> length bs \<Longrightarrow> length (read_bytes off n bs) = n"
  by (simp add: read_bytes_def)

lemma length_write_bytes [simp, mem_simps]:
  "off + length vs \<le> length bs \<Longrightarrow> length (write_bytes off vs bs) = length bs"
  by (simp add: write_bytes_def)

lemma write_bytes_Nil [simp]: "write_bytes off [] bs = bs"
  by (simp add: write_bytes_def)

lemma nth_write_bytes:
  assumes "off + length vs \<le> length bs" and "i < length bs"
  shows "write_bytes off vs bs ! i
    = (if off \<le> i \<and> i < off + length vs then vs ! (i - off) else bs ! i)"
  using assms by (auto simp: write_bytes_def nth_append not_less min_def)

lemma nth_read_bytes:
  "off + n \<le> length bs \<Longrightarrow> i < n \<Longrightarrow> read_bytes off n bs ! i = bs ! (off + i)"
  by (simp add: read_bytes_def)

lemma read_write_same [simp, mem_simps]:
  "off \<le> length bs \<Longrightarrow> read_bytes off (length vs) (write_bytes off vs bs) = vs"
  by (simp add: read_bytes_def write_bytes_def)

lemma read_write_same':
  "off \<le> length bs \<Longrightarrow> n = length vs \<Longrightarrow> read_bytes off n (write_bytes off vs bs) = vs"
  by simp

lemma read_write_disjoint [mem_simps]:
  assumes "off + length vs \<le> length bs" and "off' + n \<le> length bs"
    and "off' + n \<le> off \<or> off + length vs \<le> off'"
  shows "read_bytes off' n (write_bytes off vs bs) = read_bytes off' n bs"
proof (rule nth_equalityI)
  show "length (read_bytes off' n (write_bytes off vs bs)) = length (read_bytes off' n bs)"
    using assms by simp
next
  fix i assume "i < length (read_bytes off' n (write_bytes off vs bs))"
  then have i: "i < n" using assms by simp
  then have "write_bytes off vs bs ! (off' + i) = bs ! (off' + i)"
    using assms by (subst nth_write_bytes) auto
  then show "read_bytes off' n (write_bytes off vs bs) ! i = read_bytes off' n bs ! i"
    using assms i by (simp add: nth_read_bytes)
qed

lemma write_read_same: "off + n \<le> length bs \<Longrightarrow> write_bytes off (read_bytes off n bs) bs = bs"
  by (simp add: write_bytes_def read_bytes_def flip: append_assoc take_add)

lemma read_bytes_take: "off + n \<le> k \<Longrightarrow> read_bytes off n (take k bs) = read_bytes off n bs"
  by (simp add: read_bytes_def drop_take min_def)

lemma read_bytes_all: "length bs = n \<Longrightarrow> read_bytes 0 n bs = bs"
  by (simp add: read_bytes_def)

lemma write_write_same:
  "off + length vs \<le> length bs \<Longrightarrow> length ws = length vs \<Longrightarrow>
   write_bytes off ws (write_bytes off vs bs) = write_bytes off ws bs"
  by (cases "off = length bs") (auto simp: write_bytes_def min_def)

text \<open>Two writes to disjoint ranges commute.\<close>

lemma write_write_comm:
  assumes "a + length u \<le> length bs" "b + length v \<le> length bs"
    and "a + length u \<le> b \<or> b + length v \<le> a"
  shows "write_bytes a u (write_bytes b v bs) = write_bytes b v (write_bytes a u bs)"
  by (rule nth_equalityI) (use assms in \<open>auto simp: nth_write_bytes\<close>)

section \<open>Little-endian images of integers\<close>

text \<open>
  The sources pin little-endian hosts (\<open>static_assert\<close> in \<open>frame.hpp\<close>), so copying an
  integer of \<open>n\<close> bytes into a buffer stores its base-256 digits, lowest first.
\<close>

fun le_bytes :: "nat \<Rightarrow> nat \<Rightarrow> bytes" where
  "le_bytes 0 v = []"
| "le_bytes (Suc n) v = of_nat (v mod 256) # le_bytes n (v div 256)"

fun le_val :: "bytes \<Rightarrow> nat" where
  "le_val [] = 0"
| "le_val (b # bs) = unat b + 256 * le_val bs"

lemma length_le_bytes [simp, mem_simps]: "length (le_bytes n v) = n"
  by (induction n arbitrary: v) auto

lemma unat_u8_bound [simp]: "unat (b :: u8) < 256"
  using unsigned_less [of b] by simp

lemma le_val_bound: "le_val bs < 256 ^ length bs"
proof (induction bs)
  case (Cons b bs)
  have "unat b < 256" by simp
  with Cons have "unat b + 256 * le_val bs < 256 * Suc (le_val bs)" by simp
  also have "\<dots> \<le> 256 * 256 ^ length bs"
    using Cons by (intro mult_le_mono) auto
  finally show ?case by simp
qed simp

lemma unat_of_nat_u8: "unat (of_nat (v mod 256) :: u8) = v mod 256"
  by (simp add: unat_of_nat)

lemma le_val_le_bytes [simp]: "le_val (le_bytes n v) = v mod 256 ^ n"
proof (induction n arbitrary: v)
  case (Suc n)
  show ?case
    by (simp add: Suc unat_of_nat_u8 mod_mult2_eq)
qed simp

lemma le_bytes_le_val [simp]: "le_bytes (length bs) (le_val bs) = bs"
proof (induction bs)
  case (Cons b bs)
  have "(unat b + 256 * le_val bs) mod 256 = unat b"
    by (simp add: mod_less)
  moreover have "(unat b + 256 * le_val bs) div 256 = le_val bs"
    by (simp add: div_less)
  ultimately show ?case using Cons by simp
qed simp

lemma le_val_inj: "length bs = length cs \<Longrightarrow> le_val bs = le_val cs \<longleftrightarrow> bs = cs"
  by (metis le_bytes_le_val)

lemma le_bytes_zero: "le_bytes n 0 = replicate n 0"
  by (induction n) auto

lemma le_bytes_numeral [eval_simps]:
  "le_bytes (numeral k) v = of_nat (v mod 256) # le_bytes (pred_numeral k) (v div 256)"
  by (simp only: numeral_eq_Suc [of k] le_bytes.simps)

lemma replicate_numeral' [eval_simps]: "replicate (numeral k) x = x # replicate (pred_numeral k) x"
  by (simp only: numeral_eq_Suc [of k] replicate.simps)

section \<open>Strings\<close>

text \<open>
  \<open>c_str s\<close> is what a \<open>const char*\<close> to \<open>s\<close> denotes: the characters before the first
  NUL. \<open>std::strcmp(a, b) == 0\<close> compares exactly these.
\<close>

abbreviation NUL :: char where "NUL \<equiv> CHR 0x00"

definition c_str :: "string \<Rightarrow> string" where
  "c_str s = takeWhile (\<lambda>c. c \<noteq> NUL) s"

definition strcmp_eq :: "string \<Rightarrow> string \<Rightarrow> bool" where
  "strcmp_eq a b \<longleftrightarrow> c_str a = c_str b"

lemma c_str_id: "NUL \<notin> set s \<Longrightarrow> c_str s = s"
  by (auto simp: c_str_def takeWhile_eq_all_conv)

lemma strcmp_eq_id: "NUL \<notin> set a \<Longrightarrow> NUL \<notin> set b \<Longrightarrow> strcmp_eq a b \<longleftrightarrow> a = b"
  by (simp add: strcmp_eq_def c_str_id)

lemma c_str_idem [simp]: "c_str (c_str s) = c_str s"
proof -
  have "NUL \<notin> set (c_str s)"
    by (auto simp: c_str_def dest: set_takeWhileD)
  then show ?thesis by (rule c_str_id)
qed

lemma strcmp_eq_c_str [simp]: "strcmp_eq (c_str a) b = strcmp_eq a b" "strcmp_eq a (c_str b) = strcmp_eq a b"
  by (simp_all add: strcmp_eq_def)

definition byte_of_char :: "char \<Rightarrow> u8" where
  "byte_of_char c = of_nat (of_char c)"

definition char_of_byte :: "u8 \<Rightarrow> char" where
  "char_of_byte b = char_of (unat b)"

lemma char_of_byte_of_char [simp]: "char_of_byte (byte_of_char c) = c"
proof -
  have "(of_char c :: nat) < 256" by (rule nat_of_char_less_256)
  then show ?thesis by (simp add: byte_of_char_def char_of_byte_def unat_of_nat)
qed

lemma byte_of_char_of_byte [simp]: "byte_of_char (char_of_byte b) = b"
  by (simp add: byte_of_char_def char_of_byte_def)

lemma byte_of_char_eq_0 [simp]: "byte_of_char c = 0 \<longleftrightarrow> c = NUL"
proof -
  have "byte_of_char c = byte_of_char NUL \<longleftrightarrow> c = NUL"
    by (metis char_of_byte_of_char)
  moreover have "byte_of_char NUL = 0" by (simp add: byte_of_char_def)
  ultimately show ?thesis by simp
qed

text \<open>\<open>std::to_string\<close> of an unsigned integer: decimal digits without leading zeros.\<close>

fun to_string_nat :: "nat \<Rightarrow> string" where
  "to_string_nat n = (if n < 10 then [char_of (48 + n)]
     else to_string_nat (n div 10) @ [char_of (48 + n mod 10)])"

declare to_string_nat.simps [simp del]

section \<open>List lookups\<close>

lemma find_Some_in: "find P xs = Some x \<Longrightarrow> x \<in> set xs \<and> P x"
  by (auto simp: find_Some_iff)

lemma find_unique:
  "distinct (map f xs) \<Longrightarrow> x \<in> set xs \<Longrightarrow> find (\<lambda>y. f y = f x) xs = Some x"
  by (induction xs) auto

lemma sum_list_update_Suc:
  "i < length xs \<Longrightarrow> sum_list (xs[i := xs ! i + (1::nat)]) = sum_list xs + 1"
  by (induction xs arbitrary: i) (auto split: nat.splits)

end
