(* ===== verification/Frame.thy ===== *)
theory Frame
  imports Prelude
begin

text \<open>
  \<open>ipc/src/router/frame.hpp\<close> and \<open>ipc/src/ipc/buffer.hpp\<close>: the 64-byte wire frame
  \<open>RouterFrame\<close> with its \<open>memcpy\<close>-based accessors, and the non-owning \<open>Buffer\<close> view
  over caller storage.
  The locale \<open>frame_field\<close> is the contract every accessor pair meets (a getter reads what
  its setter wrote, neither touches bytes outside the field's span); it is interpreted for the
  seven scalar fields, and independence of any two fields is proved once from it.
\<close>

unbundle bit_operations_syntax

section \<open>Buffer\<close>

record Buffer =
  data :: bytes
  buf_size :: nat
  capacity :: nat

text \<open>Views of storage \<open>d\<close>: the factory functions of the C++ struct.\<close>

definition Buffer_writable :: "bytes \<Rightarrow> Buffer" where
  "Buffer_writable d = \<lparr>data = d, buf_size = 0, capacity = length d\<rparr>"

definition Buffer_read_only :: "bytes \<Rightarrow> Buffer" where
  "Buffer_read_only d = \<lparr>data = d, buf_size = length d, capacity = length d\<rparr>"

text \<open>The bytes a consumer of the view sees.\<close>

definition buffer_bytes :: "Buffer \<Rightarrow> bytes" where
  "buffer_bytes b = take (buf_size b) (data b)"

text \<open>The storage behind a view is at least as long as the view claims.\<close>

definition buffer_ok :: "Buffer \<Rightarrow> bool" where
  "buffer_ok b \<longleftrightarrow> buf_size b \<le> length (data b) \<and> capacity b \<le> length (data b)"

lemma buffer_ok_views [simp]: "buffer_ok (Buffer_read_only d)" "buffer_ok (Buffer_writable d)"
  by (simp_all add: buffer_ok_def Buffer_read_only_def Buffer_writable_def)

lemma buffer_bytes_read_only [simp]: "buffer_bytes (Buffer_read_only d) = d"
  by (simp add: buffer_bytes_def Buffer_read_only_def)

lemma size_read_only [simp]: "buf_size (Buffer_read_only d) = length d"
  by (simp add: Buffer_read_only_def)

section \<open>Layout constants\<close>

definition kRouterFrameSize :: nat where "kRouterFrameSize = 64"

definition kRouterSourceOffset :: nat where "kRouterSourceOffset = 0"
definition kRouterFlagsOffset :: nat where "kRouterFlagsOffset = 1"
definition kRouterTopicIdOffset :: nat where "kRouterTopicIdOffset = 2"
definition kRouterSeqOffset :: nat where "kRouterSeqOffset = 4"
definition kRouterTimestampOffset :: nat where "kRouterTimestampOffset = 8"
definition kRouterSidebandIdxOffset :: nat where "kRouterSidebandIdxOffset = 16"
definition kRouterSidebandLenOffset :: nat where "kRouterSidebandLenOffset = 18"
definition kRouterSidebandLenSize :: nat where "kRouterSidebandLenSize = 6"
definition kRouterSidebandSeqOffset :: nat where "kRouterSidebandSeqOffset = 24"
definition kRouterPayloadOffset :: nat where "kRouterPayloadOffset = 32"
definition kRouterPayloadSize :: nat where "kRouterPayloadSize = 32"

definition kSidebandIdxNone :: u16 where "kSidebandIdxNone = 0xFFFF"
definition kRouterSidebandLenMask :: u64 where "kRouterSidebandLenMask = 0xFFFFFFFFFFFF"

definition kFlagHasSideband :: u8 where "kFlagHasSideband = 1"
definition kFlagKeyframe :: u8 where "kFlagKeyframe = 2"
definition kFlagIsAck :: u8 where "kFlagIsAck = 4"
definition kFlagEos :: u8 where "kFlagEos = 8"
definition kFlagPriorityMask :: u8 where "kFlagPriorityMask = 0x70"
definition kFlagPriorityShift :: nat where "kFlagPriorityShift = 4"
definition kFlagReservedMask :: u8 where "kFlagReservedMask = 0x80"

definition kEndpointInvalid :: u8 where "kEndpointInvalid = 0"
definition kEndpointServer :: u8 where "kEndpointServer = 255"

lemmas layout_defs =
  kRouterFrameSize_def kRouterSourceOffset_def kRouterFlagsOffset_def
  kRouterTopicIdOffset_def kRouterSeqOffset_def kRouterTimestampOffset_def
  kRouterSidebandIdxOffset_def kRouterSidebandLenOffset_def kRouterSidebandLenSize_def
  kRouterSidebandSeqOffset_def kRouterPayloadOffset_def kRouterPayloadSize_def

lemmas flag_defs =
  kFlagHasSideband_def kFlagKeyframe_def kFlagIsAck_def kFlagEos_def
  kFlagPriorityMask_def kFlagPriorityShift_def kFlagReservedMask_def

section \<open>RouterFrame and its accessors\<close>

record RouterFrame =
  bytes :: "u8 list"

text \<open>A value-initialised frame is 64 zero bytes.\<close>

definition RouterFrame_default :: RouterFrame where
  "RouterFrame_default = \<lparr>bytes = replicate kRouterFrameSize 0\<rparr>"

definition wf_frame :: "RouterFrame \<Rightarrow> bool" where
  "wf_frame f \<longleftrightarrow> length (bytes f) = kRouterFrameSize"

definition source :: "RouterFrame \<Rightarrow> u8" where
  "source f = bytes f ! kRouterSourceOffset"

definition set_source :: "u8 \<Rightarrow> RouterFrame \<Rightarrow> RouterFrame" where
  "set_source i f = f\<lparr>bytes := (bytes f)[kRouterSourceOffset := i]\<rparr>"

definition flags :: "RouterFrame \<Rightarrow> u8" where
  "flags f = bytes f ! kRouterFlagsOffset"

definition set_flags :: "u8 \<Rightarrow> RouterFrame \<Rightarrow> RouterFrame" where
  "set_flags v f = f\<lparr>bytes := (bytes f)[kRouterFlagsOffset := v]\<rparr>"

definition topic_id :: "RouterFrame \<Rightarrow> u16" where
  "topic_id f = of_nat (le_val (read_bytes kRouterTopicIdOffset 2 (bytes f)))"

definition set_topic_id :: "u16 \<Rightarrow> RouterFrame \<Rightarrow> RouterFrame" where
  "set_topic_id v f = f\<lparr>bytes := write_bytes kRouterTopicIdOffset (le_bytes 2 (unat v)) (bytes f)\<rparr>"

definition seq :: "RouterFrame \<Rightarrow> u32" where
  "seq f = of_nat (le_val (read_bytes kRouterSeqOffset 4 (bytes f)))"

definition set_seq :: "u32 \<Rightarrow> RouterFrame \<Rightarrow> RouterFrame" where
  "set_seq v f = f\<lparr>bytes := write_bytes kRouterSeqOffset (le_bytes 4 (unat v)) (bytes f)\<rparr>"

definition timestamp_ns :: "RouterFrame \<Rightarrow> u64" where
  "timestamp_ns f = of_nat (le_val (read_bytes kRouterTimestampOffset 8 (bytes f)))"

definition set_timestamp_ns :: "u64 \<Rightarrow> RouterFrame \<Rightarrow> RouterFrame" where
  "set_timestamp_ns v f =
     f\<lparr>bytes := write_bytes kRouterTimestampOffset (le_bytes 8 (unat v)) (bytes f)\<rparr>"

definition sideband_idx :: "RouterFrame \<Rightarrow> u16" where
  "sideband_idx f = of_nat (le_val (read_bytes kRouterSidebandIdxOffset 2 (bytes f)))"

definition set_sideband_idx :: "u16 \<Rightarrow> RouterFrame \<Rightarrow> RouterFrame" where
  "set_sideband_idx v f =
     f\<lparr>bytes := write_bytes kRouterSidebandIdxOffset (le_bytes 2 (unat v)) (bytes f)\<rparr>"

text \<open>
  Six bytes are copied into (the low bytes of) a zeroed 64-bit variable, then masked; the
  setter masks and copies the low six bytes of the image out.
\<close>

definition sideband_len :: "RouterFrame \<Rightarrow> u64" where
  "sideband_len f =
     (of_nat (le_val (read_bytes kRouterSidebandLenOffset kRouterSidebandLenSize (bytes f))) :: u64)
       AND kRouterSidebandLenMask"

definition set_sideband_len :: "u64 \<Rightarrow> RouterFrame \<Rightarrow> RouterFrame" where
  "set_sideband_len v f =
     (let masked = v AND kRouterSidebandLenMask
      in f\<lparr>bytes := write_bytes kRouterSidebandLenOffset
             (take kRouterSidebandLenSize (le_bytes 8 (unat masked))) (bytes f)\<rparr>)"

definition sideband_seq :: "RouterFrame \<Rightarrow> u64" where
  "sideband_seq f = of_nat (le_val (read_bytes kRouterSidebandSeqOffset 8 (bytes f)))"

definition set_sideband_seq :: "u64 \<Rightarrow> RouterFrame \<Rightarrow> RouterFrame" where
  "set_sideband_seq v f =
     f\<lparr>bytes := write_bytes kRouterSidebandSeqOffset (le_bytes 8 (unat v)) (bytes f)\<rparr>"

definition init :: "u8 \<Rightarrow> RouterFrame \<Rightarrow> RouterFrame" where
  "init source_id f =
     set_sideband_idx kSidebandIdxNone
       (set_source source_id (f\<lparr>bytes := replicate kRouterFrameSize 0\<rparr>))"

definition has_sideband :: "RouterFrame \<Rightarrow> bool" where
  "has_sideband f \<longleftrightarrow> flags f AND kFlagHasSideband \<noteq> 0"

definition is_keyframe :: "RouterFrame \<Rightarrow> bool" where
  "is_keyframe f \<longleftrightarrow> flags f AND kFlagKeyframe \<noteq> 0"

definition is_ack :: "RouterFrame \<Rightarrow> bool" where
  "is_ack f \<longleftrightarrow> flags f AND kFlagIsAck \<noteq> 0"

definition is_eos :: "RouterFrame \<Rightarrow> bool" where
  "is_eos f \<longleftrightarrow> flags f AND kFlagEos \<noteq> 0"

text \<open>The 3-bit priority of a flags byte, as \<open>priority()\<close> and the router link extract it.\<close>

definition priority_of_flags :: "u8 \<Rightarrow> u8" where
  "priority_of_flags fl = drop_bit kFlagPriorityShift (fl AND kFlagPriorityMask)"

definition priority :: "RouterFrame \<Rightarrow> u8" where
  "priority f = priority_of_flags (flags f)"

text \<open>
  \<open>set_payload(data, len)\<close>: \<open>d\<close> is the readable input of \<open>len\<close> bytes. The frame is
  untouched when the call throws.
\<close>

definition set_payload :: "bytes \<Rightarrow> RouterFrame \<Rightarrow> RouterFrame res" where
  "set_payload d f =
     (if length d > kRouterPayloadSize then Inl (RuntimeError ''router payload too large'')
      else let cleared = write_bytes kRouterPayloadOffset (replicate kRouterPayloadSize 0) (bytes f)
           in Inr (f\<lparr>bytes := (if length d > 0 then write_bytes kRouterPayloadOffset d cleared
                              else cleared)\<rparr>))"

definition set_payload_str :: "string \<Rightarrow> RouterFrame \<Rightarrow> RouterFrame res" where
  "set_payload_str s f = set_payload (map byte_of_char s) f"

text \<open>The loop of \<open>payload()\<close>: shorten \<open>len\<close> while the last byte is NUL.\<close>

fun payload_len :: "bytes \<Rightarrow> nat \<Rightarrow> nat" where
  "payload_len p 0 = 0"
| "payload_len p (Suc n) = (if p ! n = 0 then payload_len p n else Suc n)"

definition payload :: "RouterFrame \<Rightarrow> string" where
  "payload f =
     (let p = read_bytes kRouterPayloadOffset kRouterPayloadSize (bytes f)
      in map char_of_byte (take (payload_len p kRouterPayloadSize) p))"

definition describe :: "string \<Rightarrow> RouterFrame \<Rightarrow> string" where
  "describe source_name f =
     ''source='' @ c_str source_name
     @ '' topic='' @ to_string_nat (unat (topic_id f))
     @ '' seq='' @ to_string_nat (unat (seq f))
     @ '' ts='' @ to_string_nat (unat (timestamp_ns f))
     @ '' payload='' @ payload f"

definition frame_writable :: "RouterFrame \<Rightarrow> Buffer" where
  "frame_writable f = Buffer_writable (bytes f)"

definition frame_read_only :: "RouterFrame \<Rightarrow> Buffer" where
  "frame_read_only f = Buffer_read_only (bytes f)"

text \<open>The frame that results from filling its storage through a \<open>writable\<close> view.\<close>

definition frame_of_buffer :: "Buffer \<Rightarrow> RouterFrame" where
  "frame_of_buffer b = \<lparr>bytes = data b\<rparr>"

lemmas accessor_defs =
  source_def set_source_def flags_def set_flags_def topic_id_def set_topic_id_def
  seq_def set_seq_def timestamp_ns_def set_timestamp_ns_def sideband_idx_def
  set_sideband_idx_def sideband_len_def set_sideband_len_def sideband_seq_def
  set_sideband_seq_def

section \<open>The accessor contract\<close>

locale frame_field =
  fixes get :: "RouterFrame \<Rightarrow> 'v"
    and put :: "'v \<Rightarrow> RouterFrame \<Rightarrow> RouterFrame"
    and lo hi :: nat
    and norm :: "'v \<Rightarrow> 'v"
  assumes span: "lo < hi" "hi \<le> kRouterFrameSize"
    and get_put: "wf_frame f \<Longrightarrow> get (put v f) = norm v"
    and wf_put: "wf_frame f \<Longrightarrow> wf_frame (put v f)"
    and put_outside: "wf_frame f \<Longrightarrow> i < kRouterFrameSize \<Longrightarrow> \<not> (lo \<le> i \<and> i < hi) \<Longrightarrow>
      bytes (put v f) ! i = bytes f ! i"
    and get_inside: "wf_frame f \<Longrightarrow> wf_frame g \<Longrightarrow>
      (\<forall>i. lo \<le> i \<and> i < hi \<longrightarrow> bytes f ! i = bytes g ! i) \<Longrightarrow> get f = get g"
begin

lemma put_put: "wf_frame f \<Longrightarrow> get (put v (put w f)) = norm v"
  by (simp add: get_put wf_put)

lemma put_commutes_outside:
  assumes "wf_frame f" "wf_frame g" "i < kRouterFrameSize" "\<not> (lo \<le> i \<and> i < hi)"
    and "bytes f ! i = bytes g ! i"
  shows "bytes (put v f) ! i = bytes (put v g) ! i"
  using assms by (simp add: put_outside)

end

text \<open>Two fields with disjoint spans do not interfere.\<close>

lemma frame_field_indep:
  assumes "frame_field get1 put1 lo1 hi1 norm1" and "frame_field get2 put2 lo2 hi2 norm2"
    and "hi1 \<le> lo2 \<or> hi2 \<le> lo1" and "wf_frame f"
  shows "get1 (put2 v f) = get1 f"
proof (rule frame_field.get_inside [OF assms(1)])
  show "wf_frame (put2 v f)" by (rule frame_field.wf_put [OF assms(2,4)])
  show "wf_frame f" by (rule assms(4))
  show "\<forall>i. lo1 \<le> i \<and> i < hi1 \<longrightarrow> bytes (put2 v f) ! i = bytes f ! i"
  proof (intro allI impI)
    fix i assume i: "lo1 \<le> i \<and> i < hi1"
    then have "i < kRouterFrameSize" using frame_field.span(2) [OF assms(1)] by linarith
    moreover have "\<not> (lo2 \<le> i \<and> i < hi2)" using i assms(3) by auto
    ultimately show "bytes (put2 v f) ! i = bytes f ! i"
      by (rule frame_field.put_outside [OF assms(2,4)])
  qed
qed

text \<open>An integer of \<open>n\<close> bytes survives being copied in and out.\<close>

lemma le_roundtrip_word:
  fixes v :: "'w::len word"
  assumes "256 ^ n = (2::nat) ^ LENGTH('w)" and "off + n \<le> length bs"
  shows "of_nat (le_val (read_bytes off n (write_bytes off (le_bytes n (unat v)) bs))) = v"
proof -
  have "unat v < 256 ^ n" using assms(1) unsigned_less [of v] by simp
  then show ?thesis using assms(2) by (simp add: read_write_same')
qed

lemma read_bytes_cong:
  assumes "length bs = length cs" "off + n \<le> length bs"
    and "\<And>i. off \<le> i \<Longrightarrow> i < off + n \<Longrightarrow> bs ! i = cs ! i"
  shows "read_bytes off n bs = read_bytes off n cs"
  by (rule nth_equalityI) (use assms in \<open>auto simp: nth_read_bytes\<close>)

lemma write_outside:
  "off + length vs \<le> length bs \<Longrightarrow> i < length bs \<Longrightarrow> \<not> (off \<le> i \<and> i < off + length vs) \<Longrightarrow>
   write_bytes off vs bs ! i = bs ! i"
  by (auto simp: nth_write_bytes)

interpretation source_field: frame_field source set_source 0 1 "\<lambda>v. v"
  by unfold_locales (auto simp: wf_frame_def layout_defs source_def set_source_def)

interpretation flags_field: frame_field flags set_flags 1 2 "\<lambda>v. v"
  by unfold_locales (auto simp: wf_frame_def layout_defs flags_def set_flags_def)

lemmas scalar_field_simps =
  wf_frame_def layout_defs le_roundtrip_word write_outside length_write_bytes

interpretation topic_id_field: frame_field topic_id set_topic_id 2 4 "\<lambda>v. v"
  by unfold_locales
    (auto simp: scalar_field_simps topic_id_def set_topic_id_def
      intro!: arg_cong [where f = le_val] arg_cong [where f = of_nat] read_bytes_cong)

interpretation seq_field: frame_field seq set_seq 4 8 "\<lambda>v. v"
  by unfold_locales
    (auto simp: scalar_field_simps seq_def set_seq_def
      intro!: arg_cong [where f = le_val] arg_cong [where f = of_nat] read_bytes_cong)

interpretation timestamp_field: frame_field timestamp_ns set_timestamp_ns 8 16 "\<lambda>v. v"
  by unfold_locales
    (auto simp: scalar_field_simps timestamp_ns_def set_timestamp_ns_def
      intro!: arg_cong [where f = le_val] arg_cong [where f = of_nat] read_bytes_cong)

interpretation sideband_idx_field: frame_field sideband_idx set_sideband_idx 16 18 "\<lambda>v. v"
  by unfold_locales
    (auto simp: scalar_field_simps sideband_idx_def set_sideband_idx_def
      intro!: arg_cong [where f = le_val] arg_cong [where f = of_nat] read_bytes_cong)

interpretation sideband_seq_field: frame_field sideband_seq set_sideband_seq 24 32 "\<lambda>v. v"
  by unfold_locales
    (auto simp: scalar_field_simps sideband_seq_def set_sideband_seq_def
      intro!: arg_cong [where f = le_val] arg_cong [where f = of_nat] read_bytes_cong)

text \<open>The 48-bit length is kept modulo \<open>2 ^ 48\<close>.\<close>

lemma mask48: "(v :: u64) AND kRouterSidebandLenMask = take_bit 48 v"
  by (simp add: kRouterSidebandLenMask_def take_bit_eq_mask mask_eq_exp_minus_1)

lemma take_le_bytes: "k \<le> n \<Longrightarrow> take k (le_bytes n v) = le_bytes k v"
proof (induction n arbitrary: k v)
  case (Suc n)
  then show ?case by (cases k) auto
qed simp

lemma unat_take_bit48: "unat (take_bit 48 (v :: u64)) < 256 ^ 6"
proof -
  have "unat (take_bit 48 v) = take_bit 48 (unat v)" by (simp add: unsigned_take_bit_eq)
  also have "\<dots> < 2 ^ 48" by (rule take_bit_nat_less_exp)
  finally show ?thesis by simp
qed

interpretation sideband_len_field:
  frame_field sideband_len set_sideband_len 18 24 "\<lambda>v. v AND kRouterSidebandLenMask"
proof unfold_locales
  fix f :: RouterFrame and v :: u64 assume "wf_frame f"
  moreover have "unat (take_bit 48 v) mod 256 ^ 6 = unat (take_bit 48 v)"
    by (rule mod_less [OF unat_take_bit48])
  ultimately show "sideband_len (set_sideband_len v f) = v AND kRouterSidebandLenMask"
    by (simp add: sideband_len_def set_sideband_len_def mask48 take_le_bytes layout_defs
        wf_frame_def read_write_same' Let_def)
qed (auto simp: wf_frame_def layout_defs sideband_len_def set_sideband_len_def take_le_bytes
      write_outside Let_def
      intro!: arg_cong2 [where f = "(AND)"] arg_cong [where f = le_val]
        arg_cong [where f = of_nat] read_bytes_cong)

lemmas frame_fields =
  source_field.frame_field_axioms flags_field.frame_field_axioms
  topic_id_field.frame_field_axioms seq_field.frame_field_axioms
  timestamp_field.frame_field_axioms sideband_idx_field.frame_field_axioms
  sideband_len_field.frame_field_axioms sideband_seq_field.frame_field_axioms

lemmas frame_get_put [simp] =
  source_field.get_put flags_field.get_put topic_id_field.get_put seq_field.get_put
  timestamp_field.get_put sideband_idx_field.get_put sideband_len_field.get_put
  sideband_seq_field.get_put

lemmas frame_wf_put [simp] =
  source_field.wf_put flags_field.wf_put topic_id_field.wf_put seq_field.wf_put
  timestamp_field.wf_put sideband_idx_field.wf_put sideband_len_field.wf_put
  sideband_seq_field.wf_put

section \<open>Independence of the fields\<close>

lemmas field_indep = frame_fields [THEN frame_field_indep]

lemma indep_set_source [simp]:
  assumes "wf_frame f"
  shows "flags (set_source v f) = flags f" "topic_id (set_source v f) = topic_id f"
    "seq (set_source v f) = seq f" "timestamp_ns (set_source v f) = timestamp_ns f"
    "sideband_idx (set_source v f) = sideband_idx f"
    "sideband_len (set_source v f) = sideband_len f"
    "sideband_seq (set_source v f) = sideband_seq f"
  by (rule field_indep [OF source_field.frame_field_axioms _ assms]; simp)+

lemma indep_set_flags [simp]:
  assumes "wf_frame f"
  shows "source (set_flags v f) = source f" "topic_id (set_flags v f) = topic_id f"
    "seq (set_flags v f) = seq f" "timestamp_ns (set_flags v f) = timestamp_ns f"
    "sideband_idx (set_flags v f) = sideband_idx f"
    "sideband_len (set_flags v f) = sideband_len f"
    "sideband_seq (set_flags v f) = sideband_seq f"
  by (rule field_indep [OF flags_field.frame_field_axioms _ assms]; simp)+

lemma indep_set_topic_id [simp]:
  assumes "wf_frame f"
  shows "source (set_topic_id v f) = source f" "flags (set_topic_id v f) = flags f"
    "seq (set_topic_id v f) = seq f" "timestamp_ns (set_topic_id v f) = timestamp_ns f"
    "sideband_idx (set_topic_id v f) = sideband_idx f"
    "sideband_len (set_topic_id v f) = sideband_len f"
    "sideband_seq (set_topic_id v f) = sideband_seq f"
  by (rule field_indep [OF topic_id_field.frame_field_axioms _ assms]; simp)+

lemma indep_set_seq [simp]:
  assumes "wf_frame f"
  shows "source (set_seq v f) = source f" "flags (set_seq v f) = flags f"
    "topic_id (set_seq v f) = topic_id f" "timestamp_ns (set_seq v f) = timestamp_ns f"
    "sideband_idx (set_seq v f) = sideband_idx f"
    "sideband_len (set_seq v f) = sideband_len f"
    "sideband_seq (set_seq v f) = sideband_seq f"
  by (rule field_indep [OF seq_field.frame_field_axioms _ assms]; simp)+

lemma indep_set_timestamp_ns [simp]:
  assumes "wf_frame f"
  shows "source (set_timestamp_ns v f) = source f" "flags (set_timestamp_ns v f) = flags f"
    "topic_id (set_timestamp_ns v f) = topic_id f" "seq (set_timestamp_ns v f) = seq f"
    "sideband_idx (set_timestamp_ns v f) = sideband_idx f"
    "sideband_len (set_timestamp_ns v f) = sideband_len f"
    "sideband_seq (set_timestamp_ns v f) = sideband_seq f"
  by (rule field_indep [OF timestamp_field.frame_field_axioms _ assms]; simp)+

lemma indep_set_sideband_idx [simp]:
  assumes "wf_frame f"
  shows "source (set_sideband_idx v f) = source f" "flags (set_sideband_idx v f) = flags f"
    "topic_id (set_sideband_idx v f) = topic_id f" "seq (set_sideband_idx v f) = seq f"
    "timestamp_ns (set_sideband_idx v f) = timestamp_ns f"
    "sideband_len (set_sideband_idx v f) = sideband_len f"
    "sideband_seq (set_sideband_idx v f) = sideband_seq f"
  by (rule field_indep [OF sideband_idx_field.frame_field_axioms _ assms]; simp)+

lemma indep_set_sideband_len [simp]:
  assumes "wf_frame f"
  shows "source (set_sideband_len v f) = source f" "flags (set_sideband_len v f) = flags f"
    "topic_id (set_sideband_len v f) = topic_id f" "seq (set_sideband_len v f) = seq f"
    "timestamp_ns (set_sideband_len v f) = timestamp_ns f"
    "sideband_idx (set_sideband_len v f) = sideband_idx f"
    "sideband_seq (set_sideband_len v f) = sideband_seq f"
  by (rule field_indep [OF sideband_len_field.frame_field_axioms _ assms]; simp)+

lemma indep_set_sideband_seq [simp]:
  assumes "wf_frame f"
  shows "source (set_sideband_seq v f) = source f" "flags (set_sideband_seq v f) = flags f"
    "topic_id (set_sideband_seq v f) = topic_id f" "seq (set_sideband_seq v f) = seq f"
    "timestamp_ns (set_sideband_seq v f) = timestamp_ns f"
    "sideband_idx (set_sideband_seq v f) = sideband_idx f"
    "sideband_len (set_sideband_seq v f) = sideband_len f"
  by (rule field_indep [OF sideband_seq_field.frame_field_axioms _ assms]; simp)+

text \<open>No scalar setter reaches the payload area.\<close>

definition payload_area :: "RouterFrame \<Rightarrow> bytes" where
  "payload_area f = read_bytes kRouterPayloadOffset kRouterPayloadSize (bytes f)"

lemma payload_area_put:
  assumes "frame_field get put lo hi norm" "hi \<le> kRouterPayloadOffset" "wf_frame f"
  shows "payload_area (put v f) = payload_area f"
  unfolding payload_area_def
  by (rule read_bytes_cong)
    (use assms frame_field.wf_put [OF assms(1,3), of v] frame_field.put_outside [OF assms(1,3)]
      in \<open>auto simp: wf_frame_def layout_defs\<close>)

lemma payload_area_simps [simp]:
  assumes "wf_frame f"
  shows "payload_area (set_source b f) = payload_area f"
    "payload_area (set_flags b f) = payload_area f"
    "payload_area (set_topic_id t f) = payload_area f"
    "payload_area (set_seq q f) = payload_area f"
    "payload_area (set_timestamp_ns n f) = payload_area f"
    "payload_area (set_sideband_idx t f) = payload_area f"
    "payload_area (set_sideband_len n f) = payload_area f"
    "payload_area (set_sideband_seq n f) = payload_area f"
  by (rule payload_area_put [OF _ _ assms], rule frame_fields, simp add: layout_defs)+

section \<open>Payload\<close>

text \<open>What \<open>payload()\<close> keeps of a string: everything up to its last non-NUL character.\<close>

definition strip_nuls :: "string \<Rightarrow> string" where
  "strip_nuls s = rev (dropWhile (\<lambda>c. c = NUL) (rev s))"

lemma payload_len_strip:
  "n \<le> length p \<Longrightarrow> take (payload_len p n) p = rev (dropWhile (\<lambda>b. b = 0) (rev (take n p)))"
proof (induction n)
  case (Suc n)
  then have "take (Suc n) p = take n p @ [p ! n]" by (simp add: take_Suc_conv_app_nth)
  with Suc show ?case by simp
qed simp

lemma payload_area_length [simp]: "wf_frame f \<Longrightarrow> length (payload_area f) = kRouterPayloadSize"
  by (simp add: payload_area_def wf_frame_def layout_defs)

lemma payload_eq_strip:
  "wf_frame f \<Longrightarrow>
   payload f = map char_of_byte (rev (dropWhile (\<lambda>b. b = 0) (rev (payload_area f))))"
  by (simp add: payload_def Let_def payload_len_strip flip: payload_area_def)

lemma dropWhile_zeros: "dropWhile (\<lambda>b. b = 0) (replicate k 0 @ xs) = dropWhile (\<lambda>b. b = 0) xs"
  by (induction k) auto

lemma map_dropWhile: "map h (dropWhile (\<lambda>x. Q (h x)) xs) = dropWhile Q (map h xs)"
  by (induction xs) auto

lemma strip_bytes:
  "map char_of_byte (rev (dropWhile (\<lambda>b. b = 0) (rev (map byte_of_char s @ replicate k 0))))
   = strip_nuls s"
proof -
  have eq: "(\<lambda>b. b = 0) = (\<lambda>b. char_of_byte b = NUL)"
    by (rule ext) (metis byte_of_char_eq_0 byte_of_char_of_byte)
  have "map char_of_byte (dropWhile (\<lambda>b. b = 0) (rev (map byte_of_char s)))
      = dropWhile (\<lambda>c. c = NUL) (map char_of_byte (rev (map byte_of_char s)))"
    unfolding eq by (rule map_dropWhile)
  also have "\<dots> = dropWhile (\<lambda>c. c = NUL) (rev s)" by (simp add: rev_map comp_def)
  finally show ?thesis
    by (simp add: strip_nuls_def dropWhile_zeros flip: rev_map)
qed

lemma set_payload_bytes:
  assumes "wf_frame f" "length d \<le> kRouterPayloadSize"
  obtains g where "set_payload d f = Inr g" "wf_frame g"
    "payload_area g = d @ replicate (kRouterPayloadSize - length d) 0"
    "\<And>i. i < kRouterPayloadOffset \<Longrightarrow> bytes g ! i = bytes f ! i"
proof -
  define z where "z = write_bytes kRouterPayloadOffset (replicate kRouterPayloadSize 0) (bytes f)"
  define g where "g = f\<lparr>bytes := write_bytes kRouterPayloadOffset d z\<rparr>"
  have len: "length (bytes f) = 64" "length z = 64"
    using assms by (auto simp: z_def wf_frame_def layout_defs)
  have "set_payload d f = Inr g"
    using assms len by (auto simp: set_payload_def g_def z_def Let_def)
  moreover have "wf_frame g"
    using assms len by (simp add: g_def wf_frame_def layout_defs)
  moreover have "payload_area g = d @ replicate (kRouterPayloadSize - length d) 0"
    using assms len
    by (auto simp: payload_area_def g_def z_def wf_frame_def layout_defs read_bytes_def
        write_bytes_def min_def)
  moreover have "bytes g ! i = bytes f ! i" if "i < kRouterPayloadOffset" for i
    using that assms len
    by (auto simp: g_def z_def nth_write_bytes layout_defs)
  ultimately show ?thesis by (rule that)
qed

section \<open>Wire image\<close>

text \<open>The frame as the layout table of \<open>frame.hpp\<close> gives it, field by field.\<close>

definition wire_image :: "RouterFrame \<Rightarrow> bytes" where
  "wire_image f =
     [source f, flags f]
     @ le_bytes 2 (unat (topic_id f)) @ le_bytes 4 (unat (seq f))
     @ le_bytes 8 (unat (timestamp_ns f)) @ le_bytes 2 (unat (sideband_idx f))
     @ le_bytes 6 (unat (sideband_len f)) @ le_bytes 8 (unat (sideband_seq f))
     @ payload_area f"

lemma le_bytes_of_read:
  fixes bs :: bytes
  assumes "256 ^ n \<le> (2::nat) ^ LENGTH('w::len)" "off + n \<le> length bs"
  shows "le_bytes n (unat (of_nat (le_val (read_bytes off n bs)) :: 'w word)) = read_bytes off n bs"
proof -
  let ?r = "read_bytes off n bs"
  have len: "length ?r = n" using assms(2) by simp
  then have "le_val ?r < 2 ^ LENGTH('w)"
    using le_val_bound [of ?r] assms(1) by simp
  then have "unat (of_nat (le_val ?r) :: 'w word) = le_val ?r"
    by (simp add: unat_of_nat)
  then show ?thesis using le_bytes_le_val [of ?r] len by simp
qed

lemma le_bytes_sideband_len:
  assumes "wf_frame f"
  shows "le_bytes 6 (unat (sideband_len f)) = read_bytes 18 6 (bytes f)"
proof -
  let ?r = "read_bytes 18 6 (bytes f)"
  have len: "length ?r = 6" using assms by (simp add: wf_frame_def layout_defs)
  then have b: "le_val ?r < 2 ^ 48" using le_val_bound [of ?r] by simp
  then have "unat (of_nat (le_val ?r) :: u64) = le_val ?r" by (simp add: unat_of_nat)
  then have "unat (take_bit 48 (of_nat (le_val ?r) :: u64)) = le_val ?r"
    using b by (simp add: unsigned_take_bit_eq take_bit_nat_eq_self)
  then have "unat (sideband_len f) = le_val ?r"
    by (simp add: sideband_len_def mask48 layout_defs)
  then show ?thesis using le_bytes_le_val [of ?r] len by simp
qed

lemma two_reads: "read_bytes a m bs @ read_bytes (a + m) n bs = read_bytes a (m + n) bs"
  by (simp add: read_bytes_def take_add add.commute)

lemma two_reads' [simp]:
  "b = a + m \<Longrightarrow> read_bytes a m bs @ read_bytes b n bs @ xs = read_bytes a (m + n) bs @ xs"
  by (simp add: two_reads flip: append_assoc)

lemma wire_image_bytes: "wf_frame f \<Longrightarrow> wire_image f = bytes f"
proof -
  assume wf: "wf_frame f"
  then have len: "length (bytes f) = 64" by (simp add: wf_frame_def layout_defs)
  have head: "[source f, flags f] = read_bytes 0 2 (bytes f)"
    using len by (cases "bytes f"; cases "tl (bytes f)")
      (auto simp: source_def flags_def layout_defs read_bytes_def)
  have "wire_image f = read_bytes 0 2 (bytes f)
     @ read_bytes 2 2 (bytes f) @ read_bytes 4 4 (bytes f) @ read_bytes 8 8 (bytes f)
     @ read_bytes 16 2 (bytes f) @ read_bytes 18 6 (bytes f) @ read_bytes 24 8 (bytes f)
     @ read_bytes 32 32 (bytes f)"
    unfolding wire_image_def head [symmetric]
    by (simp add: topic_id_def seq_def timestamp_ns_def sideband_idx_def sideband_seq_def
        payload_area_def le_bytes_sideband_len [OF wf] le_bytes_of_read len layout_defs)
  also have "\<dots> = bytes f"
    using len two_reads [of 0 32 "bytes f" 32] by (simp add: read_bytes_all)
  finally show ?thesis .
qed

section \<open>Properties of the frame\<close>

text \<open>A frame as the values of its fields.\<close>

record FrameFields =
  ff_source :: u8
  ff_flags :: u8
  ff_topic_id :: u16
  ff_seq :: u32
  ff_timestamp_ns :: u64
  ff_sideband_idx :: u16
  ff_sideband_len :: u64
  ff_sideband_seq :: u64
  ff_payload :: bytes

definition fields_of :: "RouterFrame \<Rightarrow> FrameFields" where
  "fields_of f = \<lparr>ff_source = source f, ff_flags = flags f, ff_topic_id = topic_id f, ff_seq = seq f,
     ff_timestamp_ns = timestamp_ns f, ff_sideband_idx = sideband_idx f, ff_sideband_len = sideband_len f,
     ff_sideband_seq = sideband_seq f, ff_payload = payload_area f\<rparr>"

text \<open>
  C32: every setter is the update of one field. Of all nine fields of a frame, as the getters read
  them, a setter replaces its own by the value given (the 48-bit sideband length by that value
  modulo \<open>2 ^ 48\<close>) and leaves the other eight as they are.
\<close>

theorem frame_fields_roundtrip:
  assumes "wf_frame f"
  shows "fields_of (set_source b f) = (fields_of f)\<lparr>ff_source := b\<rparr>
    \<and> fields_of (set_flags b f) = (fields_of f)\<lparr>ff_flags := b\<rparr>
    \<and> fields_of (set_topic_id t f) = (fields_of f)\<lparr>ff_topic_id := t\<rparr>
    \<and> fields_of (set_seq q f) = (fields_of f)\<lparr>ff_seq := q\<rparr>
    \<and> fields_of (set_timestamp_ns n f) = (fields_of f)\<lparr>ff_timestamp_ns := n\<rparr>
    \<and> fields_of (set_sideband_idx t f) = (fields_of f)\<lparr>ff_sideband_idx := t\<rparr>
    \<and> fields_of (set_sideband_len n f) = (fields_of f)\<lparr>ff_sideband_len := of_nat (unat n mod 2 ^ 48)\<rparr>
    \<and> fields_of (set_sideband_seq n f) = (fields_of f)\<lparr>ff_sideband_seq := n\<rparr>"
proof -
  have "unat (n AND kRouterSidebandLenMask) = unat n mod 2 ^ 48"
    by (simp only: mask48 unsigned_take_bit_eq) (simp only: take_bit_eq_mod)
  then have "of_nat (unat (n AND kRouterSidebandLenMask)) = (of_nat (unat n mod 2 ^ 48) :: u64)" by (rule arg_cong)
  with assms show ?thesis by (simp add: fields_of_def)
qed

theorem frame_fields_roundtrip_witness:
  "wf_frame RouterFrame_default
   \<and> fields_of (set_seq 4294967295 RouterFrame_default) = (fields_of RouterFrame_default)\<lparr>ff_seq := 4294967295\<rparr>
   \<and> fields_of (set_sideband_len 0x1000000000007 RouterFrame_default) = (fields_of RouterFrame_default)\<lparr>ff_sideband_len := 7\<rparr>"
proof -
  have wf: "wf_frame RouterFrame_default" by (simp add: wf_frame_def RouterFrame_default_def)
  show ?thesis
    using wf frame_fields_roundtrip [OF wf, of 0 0 "4294967295" "0x1000000000007"] by simp
qed

text \<open>The bytes of a word, lowest first, and bytes written one by one.\<close>

lemma byte_of_nat: "of_nat (unat (n :: 'a::len word) div 2 ^ k mod 256) = (ucast (drop_bit k n) :: u8)"
proof -
  have "unat n div 2 ^ k = unat (drop_bit k n)" by (simp only: unat_drop_bit_eq) (simp add: drop_bit_eq_div)
  moreover have "of_nat (a mod 256) = (of_nat a :: u8)" for a :: nat
    by (simp add: word_of_nat_eq_iff take_bit_eq_mod)
  ultimately show ?thesis by (simp only: of_nat_unat)
qed

lemma write_cons: "off < length bs \<Longrightarrow> write_bytes off (v # vs) bs = write_bytes (Suc off) vs (bs[off := v])"
  by (simp add: write_bytes_def take_Suc_conv_app_nth)

lemma write_nil: "write_bytes off [] bs = bs" by (simp add: write_bytes_def)

lemma le_bytes_step: "le_bytes (Suc k) (m div 2 ^ j) = of_nat (m div 2 ^ j mod 256) # le_bytes k (m div 2 ^ (j + 8))"
  by (simp add: power_add div_mult2_eq)

lemma le_bytes_word:
  "le_bytes 2 (unat (t :: u16)) = [ucast t, ucast (drop_bit 8 t)]"
  "le_bytes 4 (unat (q :: u32)) = [ucast q, ucast (drop_bit 8 q), ucast (drop_bit 16 q), ucast (drop_bit 24 q)]"
  "le_bytes 8 (unat (n :: u64)) = [ucast n, ucast (drop_bit 8 n), ucast (drop_bit 16 n), ucast (drop_bit 24 n),
     ucast (drop_bit 32 n), ucast (drop_bit 40 n), ucast (drop_bit 48 n), ucast (drop_bit 56 n)]"
proof -
  have suc: "le_bytes 2 m = le_bytes (Suc (Suc 0)) (m div 2 ^ 0)" "le_bytes 4 m = le_bytes (Suc (Suc (Suc (Suc 0)))) (m div 2 ^ 0)"
    "le_bytes 8 m = le_bytes (Suc (Suc (Suc (Suc (Suc (Suc (Suc (Suc 0)))))))) (m div 2 ^ 0)" for m
    by (simp_all only: eval_nat_numeral BitM.simps power_0 div_by_1)
  have d: "drop_bit 0 (x :: 'a::len word) = x" for x by simp
  show "le_bytes 2 (unat (t :: u16)) = [ucast t, ucast (drop_bit 8 t)]"
    "le_bytes 4 (unat (q :: u32)) = [ucast q, ucast (drop_bit 8 q), ucast (drop_bit 16 q), ucast (drop_bit 24 q)]"
    "le_bytes 8 (unat (n :: u64)) = [ucast n, ucast (drop_bit 8 n), ucast (drop_bit 16 n), ucast (drop_bit 24 n),
       ucast (drop_bit 32 n), ucast (drop_bit 40 n), ucast (drop_bit 48 n), ucast (drop_bit 56 n)]"
    unfolding suc le_bytes_step byte_of_nat d le_bytes.simps(1) by (simp_all only: add_0 numeral_plus_numeral add_num_simps d)
qed

lemma len_bytes: "take 6 (le_bytes 8 (unat (n AND kRouterSidebandLenMask))) =
    [ucast n, ucast (drop_bit 8 n), ucast (drop_bit 16 n), ucast (drop_bit 24 n), ucast (drop_bit 32 n), ucast (drop_bit 40 n)]"
proof -
  have "ucast (drop_bit k (take_bit 48 n)) = (ucast (drop_bit k n) :: u8)" if "k + 8 \<le> 48" for k
    using that by (intro bit_word_eqI) (auto simp: bit_simps)
  from this [of 0] this [of 8] this [of 16] this [of 24] this [of 32] this [of 40] show ?thesis
    by (simp add: le_bytes_word mask48 del: unsigned_take_bit_eq)
qed

text \<open>
  C33: the layout is exact. On a well-formed frame every setter writes the bytes at the offsets of
  the layout table of \<open>frame.hpp\<close>, lowest byte first, and no others; \<open>set_payload\<close> fills bytes 32 to 63
  and pads them with zeros, or refuses more than 32 bytes. And the 64 bytes are what the getters
  read, field after field, with no gaps and no overlaps.
\<close>

theorem frame_wire_layout:
  assumes "wf_frame f"
  shows "bytes (set_source b f) = (bytes f)[0 := b]
    \<and> bytes (set_flags b f) = (bytes f)[1 := b]
    \<and> bytes (set_topic_id t f) = (bytes f)[2 := ucast t, 3 := ucast (drop_bit 8 t)]
    \<and> bytes (set_seq q f) = (bytes f)[4 := ucast q, 5 := ucast (drop_bit 8 q), 6 := ucast (drop_bit 16 q), 7 := ucast (drop_bit 24 q)]
    \<and> bytes (set_timestamp_ns n f) = (bytes f)[8 := ucast n, 9 := ucast (drop_bit 8 n), 10 := ucast (drop_bit 16 n),
        11 := ucast (drop_bit 24 n), 12 := ucast (drop_bit 32 n), 13 := ucast (drop_bit 40 n), 14 := ucast (drop_bit 48 n),
        15 := ucast (drop_bit 56 n)]
    \<and> bytes (set_sideband_idx t f) = (bytes f)[16 := ucast t, 17 := ucast (drop_bit 8 t)]
    \<and> bytes (set_sideband_len n f) = (bytes f)[18 := ucast n, 19 := ucast (drop_bit 8 n), 20 := ucast (drop_bit 16 n),
        21 := ucast (drop_bit 24 n), 22 := ucast (drop_bit 32 n), 23 := ucast (drop_bit 40 n)]
    \<and> bytes (set_sideband_seq n f) = (bytes f)[24 := ucast n, 25 := ucast (drop_bit 8 n), 26 := ucast (drop_bit 16 n),
        27 := ucast (drop_bit 24 n), 28 := ucast (drop_bit 32 n), 29 := ucast (drop_bit 40 n), 30 := ucast (drop_bit 48 n),
        31 := ucast (drop_bit 56 n)]
    \<and> set_payload xs f = (if length xs \<le> 32 then Inr \<lparr>bytes = take 32 (bytes f) @ xs @ replicate (32 - length xs) 0\<rparr>
        else Inl (RuntimeError ''router payload too large''))
    \<and> bytes f = wire_image f \<and> length (bytes f) = 64"
proof -
  have len: "length (bytes f) = 64" using assms by (simp add: wf_frame_def kRouterFrameSize_def)
  note put = layout_defs le_bytes_word len_bytes write_cons write_nil len
  have scalar: "bytes (set_source b f) = (bytes f)[0 := b]" "bytes (set_flags b f) = (bytes f)[1 := b]"
    "bytes (set_topic_id t f) = (bytes f)[2 := ucast t, 3 := ucast (drop_bit 8 t)]"
    "bytes (set_seq q f) = (bytes f)[4 := ucast q, 5 := ucast (drop_bit 8 q), 6 := ucast (drop_bit 16 q), 7 := ucast (drop_bit 24 q)]"
    "bytes (set_sideband_idx t f) = (bytes f)[16 := ucast t, 17 := ucast (drop_bit 8 t)]"
    by (simp_all only: set_source_def set_flags_def set_topic_id_def set_seq_def set_sideband_idx_def) (simp_all add: put)
  have wide: "bytes (set_timestamp_ns n f) = (bytes f)[8 := ucast n, 9 := ucast (drop_bit 8 n), 10 := ucast (drop_bit 16 n),
        11 := ucast (drop_bit 24 n), 12 := ucast (drop_bit 32 n), 13 := ucast (drop_bit 40 n), 14 := ucast (drop_bit 48 n),
        15 := ucast (drop_bit 56 n)]"
    "bytes (set_sideband_len n f) = (bytes f)[18 := ucast n, 19 := ucast (drop_bit 8 n), 20 := ucast (drop_bit 16 n),
        21 := ucast (drop_bit 24 n), 22 := ucast (drop_bit 32 n), 23 := ucast (drop_bit 40 n)]"
    "bytes (set_sideband_seq n f) = (bytes f)[24 := ucast n, 25 := ucast (drop_bit 8 n), 26 := ucast (drop_bit 16 n),
        27 := ucast (drop_bit 24 n), 28 := ucast (drop_bit 32 n), 29 := ucast (drop_bit 40 n), 30 := ucast (drop_bit 48 n),
        31 := ucast (drop_bit 56 n)]"
    by (simp_all only: set_timestamp_ns_def set_sideband_len_def set_sideband_seq_def Let_def layout_defs len_bytes) (simp_all add: put)
  have "set_payload xs f = (if length xs \<le> 32 then Inr \<lparr>bytes = take 32 (bytes f) @ xs @ replicate (32 - length xs) 0\<rparr>
        else Inl (RuntimeError ''router payload too large''))"
    using len by (cases f) (auto simp: set_payload_def layout_defs write_bytes_def Let_def min_def)
  then show ?thesis using scalar wide len wire_image_bytes [OF assms] by simp
qed

theorem frame_wire_layout_witness:
  "let f = set_timestamp_ns 258 (set_topic_id 513 (init 7 RouterFrame_default))
   in wf_frame f \<and> bytes f = wire_image f \<and> take 12 (bytes f) = [7, 0, 1, 2, 0, 0, 0, 0, 2, 1, 0, 0]"
proof -
  let ?f = "set_timestamp_ns 258 (set_topic_id 513 (init 7 RouterFrame_default))"
  have wf: "wf_frame ?f"
    by (simp add: init_def wf_frame_def layout_defs set_timestamp_ns_def set_topic_id_def
        set_source_def set_sideband_idx_def)
  have "take 12 (bytes ?f) = [7, 0, 1, 2, 0, 0, 0, 0, 2, 1, 0, 0]"
    by (simp add: init_def layout_defs set_timestamp_ns_def set_topic_id_def
        set_source_def set_sideband_idx_def kSidebandIdxNone_def write_bytes_def eval_simps)
  with wf show ?thesis using frame_wire_layout [OF wf] by (simp add: Let_def)
qed

text \<open>
  Stamping is local. The two fields the router rewrites on forward (\<open>source\<close> and
  \<open>timestamp_ns\<close>) change nothing else of the frame: flags, topic, sequence number, the three
  sideband fields and the payload are those of the sender.
\<close>

lemma frame_stamp_preserves_rest:
  assumes "wf_frame f" and "g = set_timestamp_ns n (set_source b f)"
  shows "wf_frame g \<and> source g = b \<and> timestamp_ns g = n
    \<and> flags g = flags f \<and> topic_id g = topic_id f \<and> seq g = seq f
    \<and> sideband_idx g = sideband_idx f \<and> sideband_len g = sideband_len f
    \<and> sideband_seq g = sideband_seq f \<and> payload_area g = payload_area f
    \<and> payload g = payload f"
  using assms by (simp add: payload_eq_strip)

lemma frame_stamp_preserves_rest_witness:
  "let f = set_topic_id 100 RouterFrame_default; g = set_timestamp_ns 5 (set_source 9 f)
   in wf_frame f \<and> source g = 9 \<and> timestamp_ns g = 5 \<and> topic_id g = 100"
proof -
  have wf: "wf_frame RouterFrame_default" by (simp add: wf_frame_def RouterFrame_default_def)
  then have "wf_frame (set_topic_id 100 RouterFrame_default)" by simp
  from frame_stamp_preserves_rest [OF this refl, of 5 9] wf this show ?thesis by (simp add: Let_def)
qed

text \<open>
  The payload round trip. A payload of at most 32 bytes is stored and read back up to its
  trailing NULs, every other field is untouched and the rest of the area is zero-padded; a
  longer one is refused with the documented error.
\<close>

lemma payload_roundtrip:
  assumes "wf_frame f"
  shows "(length s \<le> kRouterPayloadSize \<longrightarrow>
      (\<exists>g. set_payload_str s f = Inr g \<and> wf_frame g \<and> payload g = strip_nuls s
        \<and> payload_area g = map byte_of_char s @ replicate (kRouterPayloadSize - length s) 0
        \<and> (\<forall>i<kRouterPayloadOffset. bytes g ! i = bytes f ! i)))
    \<and> (length s > kRouterPayloadSize \<longrightarrow>
      set_payload_str s f = Inl (RuntimeError ''router payload too large''))"
proof (intro conjI impI)
  assume "length s \<le> kRouterPayloadSize"
  then have "length (map byte_of_char s) \<le> kRouterPayloadSize" by simp
  from set_payload_bytes [OF assms this] obtain g where g:
    "set_payload (map byte_of_char s) f = Inr g" "wf_frame g"
    "payload_area g = map byte_of_char s @ replicate (kRouterPayloadSize - length s) 0"
    "\<And>i. i < kRouterPayloadOffset \<Longrightarrow> bytes g ! i = bytes f ! i"
    by auto
  moreover have "payload g = strip_nuls s"
    using g strip_bytes by (simp add: payload_eq_strip)
  ultimately show "\<exists>g. set_payload_str s f = Inr g \<and> wf_frame g \<and> payload g = strip_nuls s
        \<and> payload_area g = map byte_of_char s @ replicate (kRouterPayloadSize - length s) 0
        \<and> (\<forall>i<kRouterPayloadOffset. bytes g ! i = bytes f ! i)"
    by (auto simp: set_payload_str_def)
next
  assume "length s > kRouterPayloadSize"
  then show "set_payload_str s f = Inl (RuntimeError ''router payload too large'')"
    by (simp add: set_payload_str_def set_payload_def)
qed

lemma payload_roundtrip_witness:
  "wf_frame RouterFrame_default
   \<and> (\<exists>g. set_payload_str ''imu'' RouterFrame_default = Inr g \<and> payload g = ''imu'')
   \<and> set_payload_str (replicate 33 CHR ''x'') RouterFrame_default
      = Inl (RuntimeError ''router payload too large'')"
proof -
  have wf: "wf_frame RouterFrame_default" by (simp add: wf_frame_def RouterFrame_default_def)
  show ?thesis
    using wf payload_roundtrip [OF wf, of "''imu''"]
      payload_roundtrip [OF wf, of "replicate 33 CHR ''x''"]
    by (auto simp: layout_defs strip_nuls_def)
qed

lemma bytes_init_outside:
  "i < kRouterFrameSize \<Longrightarrow> i \<notin> {0, 16, 17} \<Longrightarrow> bytes (init b f) ! i = 0"
  by (auto simp: init_def set_source_def set_sideband_idx_def layout_defs nth_write_bytes)

lemma wf_init [simp]: "wf_frame (init b f)"
  by (simp add: init_def wf_frame_def set_source_def set_sideband_idx_def layout_defs)

lemma read_init_zero:
  assumes "off + n \<le> kRouterFrameSize" "\<And>i. off \<le> i \<Longrightarrow> i < off + n \<Longrightarrow> i \<notin> {0, 16, 17}"
  shows "read_bytes off n (bytes (init b f)) = replicate n 0"
proof (rule nth_equalityI)
  have len: "length (bytes (init b f)) = kRouterFrameSize" using wf_init by (simp add: wf_frame_def)
  then show "length (read_bytes off n (bytes (init b f))) = length (replicate n (0::u8))"
    using assms(1) by simp
  fix i assume "i < length (read_bytes off n (bytes (init b f)))"
  then have "i < n" using len assms(1) by simp
  then show "read_bytes off n (bytes (init b f)) ! i = replicate n 0 ! i"
    using assms len by (simp add: nth_read_bytes bytes_init_outside)
qed

lemma le_val_zeros [simp]: "le_val (replicate n 0) = 0"
  by (induction n) auto

text \<open>
  \<open>init\<close> yields a well-formed frame whatever the storage held before: only the source is
  set, the sideband index is the ``none'' sentinel, every other field is zero and the payload is
  empty; the flag queries are all false.
\<close>

lemma init_frame:
  "wf_frame (init b f) \<and> source (init b f) = b \<and> flags (init b f) = 0
   \<and> topic_id (init b f) = 0 \<and> seq (init b f) = 0 \<and> timestamp_ns (init b f) = 0
   \<and> sideband_idx (init b f) = kSidebandIdxNone \<and> sideband_len (init b f) = 0
   \<and> sideband_seq (init b f) = 0 \<and> payload (init b f) = []
   \<and> \<not> has_sideband (init b f) \<and> \<not> is_keyframe (init b f) \<and> \<not> is_ack (init b f)
   \<and> \<not> is_eos (init b f) \<and> priority (init b f) = 0"
proof -
  let ?z = "f\<lparr>bytes := replicate kRouterFrameSize 0\<rparr>"
  have wfz: "wf_frame ?z" by (simp add: wf_frame_def)
  have "source (init b f) = b" "sideband_idx (init b f) = kSidebandIdxNone"
    using wfz by (simp_all add: init_def)
  moreover have "flags (init b f) = 0"
    by (simp add: flags_def bytes_init_outside layout_defs)
  moreover have "topic_id (init b f) = 0" "seq (init b f) = 0" "timestamp_ns (init b f) = 0"
    "sideband_len (init b f) = 0" "sideband_seq (init b f) = 0"
    by (simp_all add: topic_id_def seq_def timestamp_ns_def sideband_len_def sideband_seq_def
        read_init_zero layout_defs)
  moreover have "payload (init b f) = []"
    using strip_bytes [of "[]" 32]
    by (simp add: payload_eq_strip payload_area_def read_init_zero layout_defs strip_nuls_def)
  ultimately show ?thesis
    by (simp add: has_sideband_def is_keyframe_def is_ack_def is_eos_def priority_def
        priority_of_flags_def flag_defs)
qed

lemma priority_bits: "unat (priority_of_flags fl) = (unat fl div 16) mod 8"
proof -
  have "priority_of_flags fl = take_bit 3 (drop_bit 4 fl)"
  proof -
    have "drop_bit 4 (0x70 :: u8) = mask 3" by (simp add: mask_eq_exp_minus_1)
    then show ?thesis
      by (simp only: priority_of_flags_def flag_defs drop_bit_and take_bit_eq_mask)
  qed
  moreover have "take_bit 8 (unat fl) = unat fl"
    by (rule take_bit_nat_eq_self) simp
  ultimately have "unat (priority_of_flags fl) = take_bit 3 (drop_bit 4 (unat fl))"
    by (simp add: unsigned_take_bit_eq unsigned_drop_bit_eq)
  then show ?thesis
    by (simp only: take_bit_eq_mod drop_bit_eq_div) simp
qed

text \<open>
  The priority of any flags byte is a number below 8, namely its bits 4 to 6; the
  reserved bit 7 and the four boolean flags have no influence on it.
\<close>

lemma priority_bound:
  "unat (priority f) = (unat (flags f) div 16) mod 8 \<and> unat (priority f) < 8"
  by (simp add: priority_def priority_bits)

end
