(* ===== verification/LastValueCache.thy ===== *)
theory LastValueCache
  imports Frame
begin

text \<open>
  \<open>ipc/src/router/last_value_cache.hpp\<close>: the subscriber-side cache of the most recent frame
  per source. The template parameter \<open>N\<close> is the length of the slot array.
  The locale \<open>latest_store\<close> is what a subscriber relies on, an update-and-lookup store keyed by
  source; the cache is an instance of it, and the ``last update wins'' law for whole histories is
  proved from the contract.
\<close>

record LvcSlot =
  slot_frame :: RouterFrame
  valid :: bool

record LastValueCache =
  slots :: "LvcSlot list"

definition LvcSlot_default :: LvcSlot where
  "LvcSlot_default = \<lparr>slot_frame = RouterFrame_default, valid = False\<rparr>"

definition LastValueCache_new :: "nat \<Rightarrow> LastValueCache" where
  "LastValueCache_new N = \<lparr>slots = replicate N LvcSlot_default\<rparr>"

definition lvc_update :: "u8 \<Rightarrow> RouterFrame \<Rightarrow> LastValueCache \<Rightarrow> LastValueCache" where
  "lvc_update src f c =
     (if unat src \<ge> length (slots c) then c
      else c\<lparr>slots := (slots c)[unat src := \<lparr>slot_frame = f, valid = True\<rparr>]\<rparr>)"

definition lvc_has :: "LastValueCache \<Rightarrow> u8 \<Rightarrow> bool" where
  "lvc_has c src = (if unat src \<ge> length (slots c) then False else valid (slots c ! unat src))"

text \<open>\<open>latest\<close> returns the flag and the new value of its output parameter.\<close>

definition lvc_latest :: "LastValueCache \<Rightarrow> u8 \<Rightarrow> RouterFrame \<Rightarrow> bool \<times> RouterFrame" where
  "lvc_latest c src out =
     (if unat src \<ge> length (slots c) \<or> \<not> valid (slots c ! unat src) then (False, out)
      else (True, slot_frame (slots c ! unat src)))"

fun lvc_count_valid :: "LvcSlot list \<Rightarrow> nat" where
  "lvc_count_valid [] = 0"
| "lvc_count_valid (s # ss) = (if valid s then Suc (lvc_count_valid ss) else lvc_count_valid ss)"

definition lvc_size :: "LastValueCache \<Rightarrow> nat" where
  "lvc_size c = lvc_count_valid (slots c)"

definition lvc_clear :: "LastValueCache \<Rightarrow> LastValueCache" where
  "lvc_clear c = c\<lparr>slots := map (\<lambda>s. s\<lparr>valid := False\<rparr>) (slots c)\<rparr>"

section \<open>The store contract\<close>

locale latest_store =
  fixes keys :: "'s \<Rightarrow> 'k set"
    and look :: "'s \<Rightarrow> 'k \<Rightarrow> 'v option"
    and upd :: "'k \<Rightarrow> 'v \<Rightarrow> 's \<Rightarrow> 's"
    and reset :: "'s \<Rightarrow> 's"
  assumes look_upd: "look (upd k v s) = (if k \<in> keys s then (look s)(k \<mapsto> v) else look s)"
    and keys_upd: "keys (upd k v s) = keys s"
    and look_reset: "look (reset s) = Map.empty"
    and keys_reset: "keys (reset s) = keys s"
begin

definition play :: "('k \<times> 'v) list \<Rightarrow> 's \<Rightarrow> 's" where
  "play h s = fold (\<lambda>(k, v). upd k v) h s"

lemma keys_play [simp]: "keys (play h s) = keys s"
  by (induction h arbitrary: s) (auto simp: play_def keys_upd)

lemma look_play:
  "look (play h s) k =
     (if k \<in> keys s then (case map_of (rev h) k of Some v \<Rightarrow> Some v | None \<Rightarrow> look s k)
      else look s k)"
proof (induction h rule: rev_induct)
  case Nil
  then show ?case by (simp add: play_def)
next
  case (snoc e h)
  obtain k' v' where e: "e = (k', v')" by (cases e)
  have "play (h @ [e]) s = upd k' v' (play h s)" by (simp add: play_def e)
  then show ?case using snoc by (auto simp: look_upd e split: option.splits)
qed

lemma look_play_reset:
  "look (play h (reset s)) k = (if k \<in> keys s then map_of (rev h) k else None)"
  by (simp add: look_play look_reset keys_reset split: option.splits)

lemma dom_play_reset: "dom (look (play h (reset s))) = fst ` set h \<inter> keys s"
proof -
  have "dom (map_of (rev h)) = fst ` set h" by (simp add: dom_map_of_conv_image_fst)
  then show ?thesis
    by (auto simp: look_play_reset dom_def split: if_splits)
qed

end

definition lvc_keys :: "LastValueCache \<Rightarrow> u8 set" where
  "lvc_keys c = {k. unat k < length (slots c)}"

definition lvc_look :: "LastValueCache \<Rightarrow> u8 \<Rightarrow> RouterFrame option" where
  "lvc_look c k = (if lvc_has c k then Some (slot_frame (slots c ! unat k)) else None)"

interpretation lvc: latest_store lvc_keys lvc_look lvc_update lvc_clear
proof unfold_locales
  fix k v c
  show "lvc_look (lvc_update k v c) =
      (if k \<in> lvc_keys c then (lvc_look c)(k \<mapsto> v) else lvc_look c)"
    by (rule ext) (auto simp: lvc_look_def lvc_update_def lvc_keys_def lvc_has_def nth_list_update)
qed (auto simp: lvc_keys_def lvc_update_def lvc_clear_def lvc_look_def lvc_has_def)

lemma lvc_latest_look:
  "lvc_latest c k out = (case lvc_look c k of None \<Rightarrow> (False, out) | Some f \<Rightarrow> (True, f))"
  by (auto simp: lvc_latest_def lvc_look_def lvc_has_def)

lemma lvc_count_valid_filter: "lvc_count_valid ss = length (filter valid ss)"
  by (induction ss) auto

lemma lvc_size_card:
  assumes "length (slots c) \<le> 256"
  shows "lvc_size c = card (dom (lvc_look c))"
proof -
  have "lvc_size c = card {i. i < length (slots c) \<and> valid (slots c ! i)}"
    by (simp add: lvc_size_def lvc_count_valid_filter length_filter_conv_card)
  also have "{i. i < length (slots c) \<and> valid (slots c ! i)} = unat ` dom (lvc_look c)"
  proof (intro set_eqI iffI)
    fix i assume "i \<in> {i. i < length (slots c) \<and> valid (slots c ! i)}"
    moreover from this have "i < 256" using assms by simp
    then have "unat (of_nat i :: u8) = i" by (simp add: unat_of_nat)
    ultimately show "i \<in> unat ` dom (lvc_look c)"
      by (intro image_eqI [of _ _ "of_nat i"]) (auto simp: lvc_look_def lvc_has_def)
  qed (auto simp: lvc_look_def lvc_has_def split: if_splits)
  also have "card (unat ` dom (lvc_look c)) = card (dom (lvc_look c))"
    by (rule card_image) (simp add: inj_on_def)
  finally show ?thesis .
qed

section \<open>Properties of the cache\<close>

text \<open>
  C28: last value wins. After any history of updates since construction or \<open>clear\<close>, for every
  source below \<open>N\<close> the cache returns the frame of the last update of that source, and reports
  absence, leaving the output untouched, for a source with no update or outside the array;
  \<open>size\<close> is the number of distinct in-range sources of the history.
\<close>

theorem lvc_last_update_wins:
  assumes "length (slots c) \<le> 256"
  shows "lvc_latest (fold (\<lambda>(k, v). lvc_update k v) h (lvc_clear c)) src out =
      (case (if unat src < length (slots c) then map_of (rev h) src else None) of
        Some f \<Rightarrow> (True, f) | None \<Rightarrow> (False, out))
    \<and> lvc_size (fold (\<lambda>(k, v). lvc_update k v) h (lvc_clear c))
      = card {s \<in> fst ` set h. unat s < length (slots c)}"
proof -
  let ?c = "fold (\<lambda>(k, v). lvc_update k v) h (lvc_clear c)"
  have play: "?c = lvc.play h (lvc_clear c)" by (simp add: lvc.play_def)
  have len: "length (slots ?c) = length (slots c)"
    by (induction h rule: rev_induct) (auto simp: lvc_clear_def lvc_update_def)
  have "lvc_look ?c src = (if unat src < length (slots c) then map_of (rev h) src else None)"
    unfolding play by (simp add: lvc.look_play_reset lvc_keys_def)
  moreover have "dom (lvc_look ?c) = {s \<in> fst ` set h. unat s < length (slots c)}"
    unfolding play lvc.dom_play_reset by (auto simp: lvc_keys_def)
  ultimately show ?thesis
    using lvc_size_card [of ?c] len assms by (simp add: lvc_latest_look)
qed

theorem lvc_last_update_wins_witness:
  "let f = set_seq 1 RouterFrame_default; g = set_seq 2 RouterFrame_default;
       c = lvc_update 3 g (lvc_update 200 f (lvc_update 3 f (lvc_clear (LastValueCache_new 16))))
   in lvc_latest c 3 RouterFrame_default = (True, g)
      \<and> lvc_latest c 200 RouterFrame_default = (False, RouterFrame_default) \<and> lvc_size c = 1"
proof -
  let ?f = "set_seq 1 RouterFrame_default" and ?g = "set_seq 2 RouterFrame_default"
  have len: "length (slots (LastValueCache_new 16)) = 16" by (simp add: LastValueCache_new_def)
  then have le: "length (slots (LastValueCache_new 16)) \<le> 256" by simp
  have "{s :: u8. (s = 3 \<or> s = 200 \<or> s = 3) \<and> unat s < 16} = {3}" by auto
  then show ?thesis
    using lvc_last_update_wins [OF le, of "[(3, ?f), (200, ?f), (3, ?g)]" 3 RouterFrame_default]
      lvc_last_update_wins [OF le, of "[(3, ?f), (200, ?f), (3, ?g)]" 200 RouterFrame_default]
    by (simp add: len Let_def)
qed

end
