(* ===== verification/SourceSeqTracker.thy ===== *)
theory SourceSeqTracker
  imports Frame
begin

text \<open>
  \<open>ipc/src/router/source_seq_tracker.hpp\<close>: per-source sequence tracking with 32-bit modular
  arithmetic. Sequence numbers are \<open>32 word\<close>, counters \<open>64 word\<close>; subtraction and increments
  wrap as in the source. The template parameter \<open>N\<close> is the length of the slot array.
\<close>

datatype Observation = First | InOrder | Gap | Duplicate | OutOfOrder

record TrackSlot =
  slot_last_seq :: u32
  slot_valid :: bool
  samples :: u64
  gaps :: u64
  duplicates :: u64
  out_of_order :: u64

record SourceSeqTracker =
  track_slots :: "TrackSlot list"

definition kForwardWindow :: u32 where "kForwardWindow = 0x80000000"

definition TrackSlot_default :: TrackSlot where
  "TrackSlot_default = \<lparr>slot_last_seq = 0, slot_valid = False, samples = 0, gaps = 0,
     duplicates = 0, out_of_order = 0\<rparr>"

definition SourceSeqTracker_new :: "nat \<Rightarrow> SourceSeqTracker" where
  "SourceSeqTracker_new N = \<lparr>track_slots = replicate N TrackSlot_default\<rparr>"

text \<open>The slot update of \<open>observe\<close>, branch by branch.\<close>

definition observe_slot :: "u32 \<Rightarrow> TrackSlot \<Rightarrow> Observation \<times> TrackSlot" where
  "observe_slot q slot0 =
     (let slot = slot0\<lparr>samples := samples slot0 + 1\<rparr> in
      if \<not> slot_valid slot then (First, slot\<lparr>slot_valid := True, slot_last_seq := q\<rparr>)
      else let delta = q - slot_last_seq slot in
        if delta = 0 then (Duplicate, slot\<lparr>duplicates := duplicates slot + 1\<rparr>)
        else if delta < kForwardWindow then
          (if delta > 1 then
             (Gap, slot\<lparr>gaps := gaps slot + ucast (delta - 1), slot_last_seq := q\<rparr>)
           else (InOrder, slot\<lparr>slot_last_seq := q\<rparr>))
        else (OutOfOrder, slot\<lparr>out_of_order := out_of_order slot + 1\<rparr>))"

definition observe :: "u8 \<Rightarrow> u32 \<Rightarrow> SourceSeqTracker \<Rightarrow> Observation \<times> SourceSeqTracker" where
  "observe src q t =
     (if unat src \<ge> length (track_slots t) then (First, t)
      else let (o1, slot) = observe_slot q (track_slots t ! unat src)
           in (o1, t\<lparr>track_slots := (track_slots t)[unat src := slot]\<rparr>))"

definition tracker_has :: "SourceSeqTracker \<Rightarrow> u8 \<Rightarrow> bool" where
  "tracker_has t src \<longleftrightarrow> unat src < length (track_slots t) \<and> slot_valid (track_slots t ! unat src)"

definition last_seq :: "SourceSeqTracker \<Rightarrow> u8 \<Rightarrow> u32" where
  "last_seq t src = (if unat src < length (track_slots t) then slot_last_seq (track_slots t ! unat src) else 0)"

definition gap_count :: "SourceSeqTracker \<Rightarrow> u8 \<Rightarrow> u64" where
  "gap_count t src = (if unat src < length (track_slots t) then gaps (track_slots t ! unat src) else 0)"

definition duplicate_count :: "SourceSeqTracker \<Rightarrow> u8 \<Rightarrow> u64" where
  "duplicate_count t src = (if unat src < length (track_slots t) then duplicates (track_slots t ! unat src) else 0)"

definition out_of_order_count :: "SourceSeqTracker \<Rightarrow> u8 \<Rightarrow> u64" where
  "out_of_order_count t src =
     (if unat src < length (track_slots t) then out_of_order (track_slots t ! unat src) else 0)"

definition sample_count :: "SourceSeqTracker \<Rightarrow> u8 \<Rightarrow> u64" where
  "sample_count t src = (if unat src < length (track_slots t) then samples (track_slots t ! unat src) else 0)"

definition tracker_reset :: "u8 \<Rightarrow> SourceSeqTracker \<Rightarrow> SourceSeqTracker" where
  "tracker_reset src t =
     (if unat src < length (track_slots t)
      then t\<lparr>track_slots := (track_slots t)[unat src := TrackSlot_default]\<rparr> else t)"

definition tracker_clear :: "SourceSeqTracker \<Rightarrow> SourceSeqTracker" where
  "tracker_clear t = t\<lparr>track_slots := map (\<lambda>_. TrackSlot_default) (track_slots t)\<rparr>"

lemmas counter_defs = tracker_has_def last_seq_def gap_count_def duplicate_count_def
  out_of_order_count_def sample_count_def

section \<open>Histories\<close>

text \<open>Feeding a list of sequence numbers of one source.\<close>

fun observe_all :: "u8 \<Rightarrow> u32 list \<Rightarrow> SourceSeqTracker \<Rightarrow> SourceSeqTracker" where
  "observe_all src [] t = t"
| "observe_all src (q # qs) t = observe_all src qs (snd (observe src q t))"

text \<open>The sequence numbers a publisher emits from \<open>s\<close> on when it (or the network) advances by
  the steps \<open>ds\<close>: a step of 1 is the next frame, a step of \<open>d\<close> means \<open>d - 1\<close> frames were lost.\<close>

fun stream_from :: "u32 \<Rightarrow> nat list \<Rightarrow> u32 list" where
  "stream_from s [] = []"
| "stream_from s (d # ds) = (s + of_nat d) # stream_from (s + of_nat d) ds"

lemma length_observe [simp]: "length (track_slots (snd (observe src q t))) = length (track_slots t)"
  by (simp add: observe_def Let_def split: prod.splits)

lemma observe_other:
  "src' \<noteq> src \<Longrightarrow> track_slots (snd (observe src q t)) ! unat src' = track_slots t ! unat src'"
  by (auto simp: observe_def Let_def split: prod.splits)

lemma observe_same:
  "unat src < length (track_slots t) \<Longrightarrow>
   track_slots (snd (observe src q t)) ! unat src = snd (observe_slot q (track_slots t ! unat src))"
  by (auto simp: observe_def Let_def split: prod.splits)

lemma observe_all_slot:
  "unat src < length (track_slots t) \<Longrightarrow>
   length (track_slots (observe_all src qs t)) = length (track_slots t)
   \<and> track_slots (observe_all src qs t) ! unat src
     = fold (\<lambda>q s. snd (observe_slot q s)) qs (track_slots t ! unat src)"
  by (induction qs arbitrary: t) (auto simp: observe_same)

lemma observe_all_other:
  "src' \<noteq> src \<Longrightarrow>
   track_slots (observe_all src qs t) ! unat src' = track_slots t ! unat src'"
  by (induction qs arbitrary: t) (auto simp: observe_other)

text \<open>One forward step of \<open>d\<close> on a valid slot.\<close>

lemma observe_slot_forward:
  assumes "slot_valid s" "1 \<le> d" "d < 2 ^ 31"
  shows "snd (observe_slot (slot_last_seq s + of_nat d) s) =
    s\<lparr>samples := samples s + 1, gaps := gaps s + of_nat (d - 1),
      slot_last_seq := slot_last_seq s + of_nat d\<rparr>"
proof -
  let ?w = "of_nat d :: u32"
  have u: "unat ?w = d" using assms by (simp add: unat_of_nat)
  have nz: "?w \<noteq> 0" using u assms(2) by auto
  have lt: "?w < kForwardWindow"
    using u assms(3) by (simp add: kForwardWindow_def word_less_nat_alt)
  have one: "?w > 1 \<longleftrightarrow> d > 1" using u by (simp add: word_less_nat_alt)
  have "unat (?w - 1) = d - 1"
    using u assms by (simp add: unat_sub_if')
  then have sub: "(ucast (?w - 1) :: u64) = of_nat (d - 1)"
    by (metis of_nat_unat)
  show ?thesis
    using assms nz lt one sub by (auto simp: observe_slot_def Let_def)
qed

lemma fold_forward:
  assumes "slot_valid s" "\<forall>d\<in>set ds. 1 \<le> d \<and> d < 2 ^ 31"
  shows "fold (\<lambda>q s. snd (observe_slot q s)) (stream_from (slot_last_seq s) ds) s =
    s\<lparr>samples := samples s + of_nat (length ds),
      gaps := gaps s + of_nat (sum_list (map (\<lambda>d. d - 1) ds)),
      slot_last_seq := slot_last_seq s + of_nat (sum_list ds)\<rparr>"
  using assms
proof (induction ds arbitrary: s)
  case (Cons d ds)
  let ?s = "s\<lparr>samples := samples s + 1, gaps := gaps s + of_nat (d - 1),
      slot_last_seq := slot_last_seq s + of_nat d\<rparr>"
  have "snd (observe_slot (slot_last_seq s + of_nat d) s) = ?s"
    by (rule observe_slot_forward) (use Cons.prems in auto)
  moreover have "slot_valid ?s" using Cons.prems by simp
  ultimately show ?case using Cons.IH [of ?s] Cons.prems by (simp add: algebra_simps)
qed simp

section \<open>Properties of the tracker\<close>

text \<open>
  C27: loss accounting is exact on a stream that only moves forward, across 32-bit
  wrap-around. After a first frame \<open>s\<close> and then steps \<open>ds\<close> of between 1 and
  \<open>2 ^ 31 - 1\<close>, the tracker has counted every frame, the number of skipped positions and the
  last sequence number, nothing as duplicate or out of order, and frames plus losses make up the
  positions the publisher went through. Other sources are unaffected.
\<close>

theorem tracker_counts_losses:
  assumes "unat src < length (track_slots t)"
    and "\<forall>d\<in>set ds. 1 \<le> d \<and> d < 2 ^ 31" and "1 + sum_list ds < 2 ^ 64"
    and t'_def: "t' = observe_all src (s # stream_from s ds) (tracker_reset src t)"
  shows "last_seq t' src = s + of_nat (sum_list ds)
    \<and> unat (sample_count t' src) = 1 + length ds
    \<and> unat (gap_count t' src) = sum_list (map (\<lambda>d. d - 1) ds)
    \<and> unat (sample_count t' src) + unat (gap_count t' src) = 1 + sum_list ds
    \<and> duplicate_count t' src = 0 \<and> out_of_order_count t' src = 0 \<and> tracker_has t' src
    \<and> (\<forall>src'. src' \<noteq> src \<longrightarrow> gap_count t' src' = gap_count t src'
         \<and> last_seq t' src' = last_seq t src')"
proof -
  let ?t0 = "tracker_reset src t"
  have t0: "unat src < length (track_slots ?t0)" "track_slots ?t0 ! unat src = TrackSlot_default"
    "length (track_slots ?t0) = length (track_slots t)"
    using assms(1) by (auto simp: tracker_reset_def)
  let ?s1 = "TrackSlot_default\<lparr>samples := 1, slot_valid := True, slot_last_seq := s\<rparr>"
  have first: "snd (observe_slot s TrackSlot_default) = ?s1"
    by (simp add: observe_slot_def TrackSlot_default_def Let_def)
  have slot: "track_slots t' ! unat src = ?s1\<lparr>samples := 1 + of_nat (length ds),
      gaps := of_nat (sum_list (map (\<lambda>d. d - 1) ds)), slot_last_seq := s + of_nat (sum_list ds)\<rparr>"
    using observe_all_slot [OF t0(1), of "s # stream_from s ds"] fold_forward [of ?s1 ds] assms(2)
    by (simp add: t'_def t0 first) (simp add: TrackSlot_default_def)
  have len: "length (track_slots t') = length (track_slots t)"
    using observe_all_slot [OF t0(1)] t0(3) by (simp add: t'_def del: observe_all.simps)
  have sums: "length ds + sum_list (map (\<lambda>d. d - 1) ds) = sum_list ds"
    using assms(2) by (induction ds) auto
  have "unat (1 + of_nat (length ds) :: u64) = 1 + length ds"
    "unat (of_nat (sum_list (map (\<lambda>d. d - 1) ds)) :: u64) = sum_list (map (\<lambda>d. d - 1) ds)"
    using sums assms(3) unat_of_nat_small [of "Suc (length ds)", where 'w = 64]
    by (auto simp: unat_of_nat_small)
  moreover have "track_slots t' ! unat src' = track_slots t ! unat src'"
    if "src' \<noteq> src" for src'
    using that observe_all_other [OF that] by (auto simp: t'_def tracker_reset_def simp del: observe_all.simps)
  ultimately show ?thesis
    using slot sums assms(1) len
    by (simp add: counter_defs TrackSlot_default_def)
qed

theorem tracker_counts_losses_witness:
  "let t = observe_all 5 [4294967294, 4294967295, 2] (tracker_reset 5 (SourceSeqTracker_new 8))
   in last_seq t 5 = 2 \<and> sample_count t 5 = 3 \<and> gap_count t 5 = 2"
proof -
  let ?t = "SourceSeqTracker_new 8"
  have h: "unat (5 :: u8) < length (track_slots ?t)" by (simp add: SourceSeqTracker_new_def)
  have ds: "\<forall>d\<in>set [1, 3 :: nat]. 1 \<le> d \<and> d < 2 ^ 31" by simp
  have b: "1 + sum_list [1, 3 :: nat] < 2 ^ 64" by simp
  have s: "stream_from 4294967294 [1, 3] = [4294967295, 2]" by simp
  show ?thesis
    using tracker_counts_losses [OF h ds b refl, of 4294967294]
    unfolding s by (auto simp: Let_def word_unat_eq_iff simp del: observe_all.simps unat_eq_unat)
qed

text \<open>
  The classification of a single observation: on a tracked source the result and the
  counters depend only on the modular distance from the last accepted sequence number; a
  duplicate or a stale frame (distance \<open>2 ^ 31\<close> or more) never moves the last sequence number
  and never changes the gap count, and an untracked source changes nothing.
\<close>

lemma observe_classifies:
  assumes "tracker_has t src"
  shows "(let d = unat (q - last_seq t src); r = observe src q t; t' = snd r in
      fst r = (if d = 0 then Duplicate else if d = 1 then InOrder
               else if d < 2 ^ 31 then Gap else OutOfOrder)
    \<and> last_seq t' src = (if 0 < d \<and> d < 2 ^ 31 then q else last_seq t src)
    \<and> gap_count t' src = gap_count t src + (if 1 < d \<and> d < 2 ^ 31 then of_nat (d - 1) else 0)
    \<and> duplicate_count t' src = duplicate_count t src + (if d = 0 then 1 else 0)
    \<and> out_of_order_count t' src = out_of_order_count t src + (if d < 2 ^ 31 then 0 else 1)
    \<and> sample_count t' src = sample_count t src + 1 \<and> tracker_has t' src)
    \<and> (\<forall>x. unat x \<ge> length (track_slots t) \<longrightarrow> observe x q t = (First, t))"
proof -
  let ?s = "track_slots t ! unat src"
  let ?w = "q - slot_last_seq ?s"
  define d where "d = unat ?w"
  have len: "unat src < length (track_slots t)" and v: "slot_valid ?s"
    using assms by (auto simp: tracker_has_def)
  have z: "?w = 0 \<longleftrightarrow> d = 0" and g: "?w > 1 \<longleftrightarrow> d > 1"
    and lt: "?w < kForwardWindow \<longleftrightarrow> d < 2 ^ 31"
    by (simp_all add: d_def kForwardWindow_def word_less_nat_alt unat_eq_0)
  have sub: "(ucast (?w - 1) :: u64) = of_nat (d - 1)" if "d > 1"
  proof -
    from that z have "?w \<noteq> 0" by simp
    then have "unat (?w - 1) = d - 1" by (simp add: unat_minus_one d_def)
    then show ?thesis by (metis of_nat_unat)
  qed
  have "fst (observe_slot q ?s) = (if d = 0 then Duplicate else if d = 1 then InOrder
               else if d < 2 ^ 31 then Gap else OutOfOrder)"
    using v z g lt by (auto simp: observe_slot_def Let_def)
  moreover have "snd (observe_slot q ?s) = ?s\<lparr>samples := samples ?s + 1,
      slot_last_seq := (if 0 < d \<and> d < 2 ^ 31 then q else slot_last_seq ?s),
      gaps := gaps ?s + (if 1 < d \<and> d < 2 ^ 31 then of_nat (d - 1) else 0),
      duplicates := duplicates ?s + (if d = 0 then 1 else 0),
      out_of_order := out_of_order ?s + (if d < 2 ^ 31 then 0 else 1)\<rparr>"
    using v z g lt sub by (auto simp: observe_slot_def Let_def)
  ultimately show ?thesis
    using len v by (simp add: observe_def counter_defs Let_def case_prod_unfold flip: d_def)
qed

lemma observe_classifies_witness:
  "let t = snd (observe 1 10 (SourceSeqTracker_new 4)) in tracker_has t 1
   \<and> fst (observe 1 10 t) = Duplicate \<and> fst (observe 1 11 t) = InOrder
   \<and> fst (observe 1 20 t) = Gap \<and> fst (observe 1 3000000000 t) = OutOfOrder"
proof -
  let ?t = "snd (observe 1 10 (SourceSeqTracker_new 4))"
  have h: "tracker_has ?t 1" and l: "last_seq ?t 1 = 10"
    by (simp_all add: SourceSeqTracker_new_def observe_def observe_slot_def TrackSlot_default_def
        tracker_has_def last_seq_def Let_def)
  show ?thesis
    using h observe_classifies [OF h, of 10] observe_classifies [OF h, of 11]
      observe_classifies [OF h, of 20] observe_classifies [OF h, of 3000000000]
    by (simp add: l Let_def)
qed

text \<open>
  A publisher restart is not counted as loss. When a source last seen at one billion starts
  again at 0, the observation is \<open>OutOfOrder\<close> and the gap count stays 0; the header comment
  announces about three billion missed frames instead.
\<close>

lemma tracker_restart_not_counted:
  "let t = snd (observe 1 1000000000 (SourceSeqTracker_new 256)); r = observe 1 0 t
   in tracker_has t 1 \<and> last_seq t 1 = 1000000000
      \<and> fst r = OutOfOrder \<and> gap_count (snd r) 1 = 0 \<and> last_seq (snd r) 1 = 1000000000"
  by (simp add: SourceSeqTracker_new_def observe_def observe_slot_def TrackSlot_default_def
      counter_defs Let_def kForwardWindow_def)

end
