(* ===== verification/ShmSpsc.thy ===== *)
theory ShmSpsc
  imports Frame
begin

text \<open>
  \<open>ipc/src/ipc/shm_spsc.hpp\<close>: the shared-memory transport, two single-producer
  single-consumer rings in one mapped region, at the level of the bytes of the mapping.
  \<open>ShmRegion\<close> holds byte offsets where the C++ struct holds pointers; the mapping itself is an
  object of \<open>ShmWorld\<close>, the POSIX namespace of shared-memory objects, so that two endpoints that
  bind the same name alias the same bytes. Head and tail are 64-bit words and wrap.
  The locale \<open>bounded_fifo\<close> is the contract of a lossless bounded queue; both directions of a
  region implement it.
\<close>

section \<open>Shared memory objects\<close>

record ShmWorld =
  ns :: "string \<Rightarrow> nat option"
  objs :: "nat \<Rightarrow> bytes"
  next_obj :: nat

text \<open>What the kernel answers to the three calls of \<open>bind\<close> (resource limits, permissions).\<close>

record ShmOs =
  shm_open_ok :: bool
  ftruncate_ok :: bool
  mmap_ok :: bool

definition load_u64 :: "nat \<Rightarrow> bytes \<Rightarrow> u64" where
  "load_u64 a m = of_nat (le_val (read_bytes a 8 m))"

definition store_u64 :: "nat \<Rightarrow> u64 \<Rightarrow> bytes \<Rightarrow> bytes" where
  "store_u64 a v m = write_bytes a (le_bytes 8 (unat v)) m"

definition load_u32 :: "nat \<Rightarrow> bytes \<Rightarrow> u32" where
  "load_u32 a m = of_nat (le_val (read_bytes a 4 m))"

definition store_u32 :: "nat \<Rightarrow> u32 \<Rightarrow> bytes \<Rightarrow> bytes" where
  "store_u32 a v m = write_bytes a (le_bytes 4 (unat v)) m"

section \<open>Data\<close>

datatype ShmSendResult = Ok | Full

record ShmBindParams =
  bp_name :: string
  bp_create :: bool
  bp_slot_count :: nat
  bp_max_payload :: nat

definition ShmBindParams_default :: ShmBindParams where
  "ShmBindParams_default = \<lparr>bp_name = [], bp_create = False, bp_slot_count = 256, bp_max_payload = 1024\<rparr>"

text \<open>
  \<open>obj\<close> stands for \<open>mapping\<close>: the object that the region maps. The field \<open>fd\<close> of the struct is left out:
  after \<open>bind\<close> nothing reads it except the destructor, and the descriptors that a process has open on
  shared-memory objects are not part of \<open>ShmWorld\<close>.
\<close>

record ShmRegion =
  is_creator :: bool
  name :: string
  slot_count :: nat
  max_payload :: nat
  obj :: nat
  mapping_size :: nat
  req_head :: nat
  req_tail :: nat
  rep_head :: nat
  rep_tail :: nat
  req_slots :: nat
  rep_slots :: nat
  slot_stride :: nat
  is_server_role :: bool

text \<open>\<open>size_t\<close> arithmetic wraps at 64 bits.\<close>

definition size_t :: "nat \<Rightarrow> nat" where
  "size_t n = n mod 2 ^ 64"

definition shm_slot_stride :: "nat \<Rightarrow> nat" where
  "shm_slot_stride mp = size_t (4 + mp)"

definition shm_region_size :: "nat \<Rightarrow> nat \<Rightarrow> nat" where
  "shm_region_size sc mp = (let stride = shm_slot_stride mp in size_t (64 + 2 * sc * stride))"

definition shm_init_control :: "ShmRegion \<Rightarrow> bytes \<Rightarrow> bytes" where
  "shm_init_control r m =
     store_u64 (rep_tail r) 0 (store_u64 (rep_head r) 0
       (store_u64 (req_tail r) 0 (store_u64 (req_head r) 0 m)))"

definition shm_map_layout :: "ShmRegion \<Rightarrow> ShmRegion" where
  "shm_map_layout r =
     (let stride = shm_slot_stride (max_payload r)
      in r\<lparr>req_head := 0, req_tail := 8, rep_head := 16, rep_tail := 24,
           slot_stride := stride, req_slots := 64,
           rep_slots := 64 + size_t (slot_count r * stride)\<rparr>)"

text \<open>\<open>ftruncate\<close>: cut or zero-extend.\<close>

definition ftruncate :: "nat \<Rightarrow> bytes \<Rightarrow> bytes" where
  "ftruncate n m = take n m @ replicate (n - length m) 0"

text \<open>
  \<open>ShmSpsc::bind\<close>. The result is the region or the exception, and the world afterwards (an
  object created before a later call failed stays). A region that does not create maps whatever
  object has the name; its size is not compared with the object's.
\<close>

definition shm_bind :: "ShmOs \<Rightarrow> ShmBindParams \<Rightarrow> ShmWorld \<Rightarrow> ShmRegion res \<times> ShmWorld" where
  "shm_bind os p w =
     (let r0 = \<lparr>is_creator = bp_create p, name = bp_name p, slot_count = bp_slot_count p,
                max_payload = bp_max_payload p, obj = 0, mapping_size = 0,
                req_head = 0, req_tail = 0, rep_head = 0, rep_tail = 0, req_slots = 0,
                rep_slots = 0, slot_stride = 0, is_server_role = bp_create p\<rparr>;
          sz = shm_region_size (slot_count r0) (max_payload r0);
          r1 = r0\<lparr>mapping_size := sz\<rparr>;
          opened = (if \<not> shm_open_ok os then None
                    else case ns w (bp_name p) of
                      Some k \<Rightarrow> Some (k, w)
                    | None \<Rightarrow> if bp_create p
                        then Some (next_obj w,
                               w\<lparr>ns := (ns w)(bp_name p := Some (next_obj w)),
                                 objs := (objs w)(next_obj w := []),
                                 next_obj := Suc (next_obj w)\<rparr>)
                        else None)
      in case opened of
           None \<Rightarrow> (Inl (RuntimeError ''shm_open failed''), w)
         | Some (k, w1) \<Rightarrow>
             if bp_create p \<and> \<not> ftruncate_ok os
             then (Inl (RuntimeError ''ftruncate failed''), w1)
             else let w2 = (if bp_create p
                            then w1\<lparr>objs := (objs w1)(k := ftruncate sz (objs w1 k))\<rparr> else w1)
                  in if \<not> mmap_ok os then (Inl (RuntimeError ''mmap failed''), w2)
                     else let r = shm_map_layout (r1\<lparr>obj := k\<rparr>);
                              w3 = (if bp_create p
                                    then w2\<lparr>objs := (objs w2)
                                           (k := shm_init_control r (replicate sz 0))\<rparr>
                                    else w2)
                          in (Inr r, w3))"

text \<open>
  \<open>~ShmRegion\<close>, as far as it concerns the namespace: the creator unlinks the name, and the object
  stays for those who have mapped it. The \<open>munmap\<close> of its own mapping and the \<open>close\<close> of its descriptor
  change neither objects nor names and are left out, with the descriptor itself; no theorem speaks
  of them.
\<close>

definition shm_destroy :: "ShmRegion \<Rightarrow> ShmWorld \<Rightarrow> ShmWorld" where
  "shm_destroy r w = (if is_creator r then w\<lparr>ns := (ns w)(name r := None)\<rparr> else w)"

section \<open>Ring operations\<close>

text \<open>
  The six arguments that every slot function takes: offsets of \<open>head\<close>, \<open>tail\<close> and \<open>slots\<close>,
  and the geometry.
\<close>

record Ring =
  head :: nat
  tail :: nat
  ring_slots :: nat
  ring_count :: nat
  ring_stride :: nat
  ring_max :: nat

definition req_ring :: "ShmRegion \<Rightarrow> Ring" where
  "req_ring r = \<lparr>head = req_head r, tail = req_tail r, ring_slots = req_slots r,
     ring_count = slot_count r, ring_stride = slot_stride r, ring_max = max_payload r\<rparr>"

definition rep_ring :: "ShmRegion \<Rightarrow> Ring" where
  "rep_ring r = \<lparr>head = rep_head r, tail = rep_tail r, ring_slots = rep_slots r,
     ring_count = slot_count r, ring_stride = slot_stride r, ring_max = max_payload r\<rparr>"

definition slot_addr :: "Ring \<Rightarrow> nat \<Rightarrow> nat" where
  "slot_addr R i = ring_slots R + i * ring_stride R"

definition shm_try_push_slot :: "Ring \<Rightarrow> Buffer \<Rightarrow> bytes \<Rightarrow> bool \<times> bytes" where
  "shm_try_push_slot R pl m =
     (let h = load_u64 (head R) m; t = load_u64 (tail R) m
      in if unat (h - t) \<ge> ring_count R then (False, m)
         else let index = unat h mod ring_count R;
                  slot = slot_addr R index;
                  n = (if buf_size pl < ring_max R then buf_size pl else ring_max R);
                  m1 = write_bytes (slot + 4) (take n (data pl)) m;
                  m2 = store_u32 slot (of_nat n) m1
              in (True, store_u64 (head R) (h + 1) m2))"

definition shm_try_pop_slot :: "Ring \<Rightarrow> Buffer \<Rightarrow> bytes \<Rightarrow> (bool \<times> Buffer \<times> bytes) res" where
  "shm_try_pop_slot R buf m =
     (let t = load_u64 (tail R) m; h = load_u64 (head R) m
      in if t \<ge> h then Inr (False, buf, m)
         else let index = unat t mod ring_count R;
                  slot = slot_addr R index;
                  n = load_u32 slot m;
                  copy = (if unat n < ring_max R then unat n else ring_max R)
              in if copy > capacity buf
                 then Inl (RuntimeError ''shm recv buffer too small'')
                 else Inr (True,
                   buf\<lparr>data := write_bytes 0 (read_bytes (slot + 4) copy m) (data buf),
                       buf_size := copy\<rparr>,
                   store_u64 (tail R) (t + 1) m))"

text \<open>
  The blocking variants spin. Between two attempts the other side may run: \<open>env k\<close> is what it
  does to the shared bytes after the \<open>k\<close>-th failed attempt. \<open>None\<close> is spinning forever.
\<close>

partial_function (option) shm_push_slot ::
    "(nat \<Rightarrow> bytes \<Rightarrow> bytes) \<Rightarrow> nat \<Rightarrow> Ring \<Rightarrow> Buffer \<Rightarrow> bytes \<Rightarrow> bytes option" where
  "shm_push_slot env k R pl m =
     (case shm_try_push_slot R pl m of
        (ok, m') \<Rightarrow> if ok then Some m' else shm_push_slot env (Suc k) R pl (env k m'))"

partial_function (option) shm_pop_slot ::
    "(nat \<Rightarrow> bytes \<Rightarrow> bytes) \<Rightarrow> nat \<Rightarrow> Ring \<Rightarrow> Buffer \<Rightarrow> bytes \<Rightarrow> (Buffer \<times> bytes) res option" where
  "shm_pop_slot env k R buf m =
     (case shm_try_pop_slot R buf m of
        Inl e \<Rightarrow> Some (Inl e)
      | Inr (ok, buf', m') \<Rightarrow> if ok then Some (Inr (buf', m'))
                              else shm_pop_slot env (Suc k) R buf' (env k m'))"

section \<open>Endpoint operations\<close>

text \<open>A handle is a bound region or null; \<open>m\<close> is the memory of the region's object.\<close>

definition tx_ring :: "ShmRegion \<Rightarrow> Ring" where
  "tx_ring r = (if is_server_role r then rep_ring r else req_ring r)"

definition rx_ring :: "ShmRegion \<Rightarrow> Ring" where
  "rx_ring r = (if is_server_role r then req_ring r else rep_ring r)"

definition ShmSpsc_send ::
    "(nat \<Rightarrow> bytes \<Rightarrow> bytes) \<Rightarrow> ShmRegion option \<Rightarrow> Buffer \<Rightarrow> bytes \<Rightarrow> bytes res option" where
  "ShmSpsc_send env handle pl m =
     (case handle of None \<Rightarrow> Some (Inl (RuntimeError ''shm handle not bound''))
      | Some r \<Rightarrow> map_option Inr (shm_push_slot env 0 (tx_ring r) pl m))"

definition ShmSpsc_try_send ::
    "ShmRegion option \<Rightarrow> Buffer \<Rightarrow> bytes \<Rightarrow> (ShmSendResult \<times> bytes) res" where
  "ShmSpsc_try_send handle pl m =
     (case handle of None \<Rightarrow> Inl (RuntimeError ''shm handle not bound'')
      | Some r \<Rightarrow> let (ok, m') = shm_try_push_slot (tx_ring r) pl m
                  in Inr (if ok then Ok else Full, m'))"

definition ShmSpsc_try_recv ::
    "ShmRegion option \<Rightarrow> Buffer \<Rightarrow> bytes \<Rightarrow> (bool \<times> Buffer \<times> bytes) res" where
  "ShmSpsc_try_recv handle buf m =
     (case handle of None \<Rightarrow> Inl (RuntimeError ''shm handle not bound'')
      | Some r \<Rightarrow> shm_try_pop_slot (rx_ring r) buf m)"

partial_function (option) recv_loop ::
    "(nat \<Rightarrow> bytes \<Rightarrow> bytes) \<Rightarrow> nat \<Rightarrow> ShmRegion option \<Rightarrow> Buffer \<Rightarrow> bytes \<Rightarrow>
     (Buffer \<times> bytes) res option" where
  "recv_loop env k handle buf m =
     (case ShmSpsc_try_recv handle buf m of
        Inl e \<Rightarrow> Some (Inl e)
      | Inr (ok, buf', m') \<Rightarrow> if ok then Some (Inr (buf', m'))
                              else recv_loop env (Suc k) handle buf' (env k m'))"

definition ShmSpsc_recv ::
    "(nat \<Rightarrow> bytes \<Rightarrow> bytes) \<Rightarrow> ShmRegion option \<Rightarrow> Buffer \<Rightarrow> bytes \<Rightarrow> (Buffer \<times> bytes) res option" where
  "ShmSpsc_recv env handle buf m = recv_loop env 0 handle buf m"

definition ShmSpsc_recv_from ::
    "(nat \<Rightarrow> bytes \<Rightarrow> bytes) \<Rightarrow> ShmRegion option \<Rightarrow> Buffer \<Rightarrow> bytes \<Rightarrow> (Buffer \<times> bytes) res option" where
  "ShmSpsc_recv_from env handle buf m = ShmSpsc_recv env handle buf m"

definition ShmSpsc_connect_or_send ::
    "(nat \<Rightarrow> bytes \<Rightarrow> bytes) \<Rightarrow> ShmRegion option \<Rightarrow> Buffer \<Rightarrow> bytes \<Rightarrow> bytes res option" where
  "ShmSpsc_connect_or_send env handle pl m = ShmSpsc_send env handle pl m"

definition ShmSpsc_echo ::
    "(nat \<Rightarrow> bytes \<Rightarrow> bytes) \<Rightarrow> ShmRegion option \<Rightarrow> Buffer \<Rightarrow> bytes \<Rightarrow> bytes res option" where
  "ShmSpsc_echo env handle pl m = ShmSpsc_send env handle pl m"

section \<open>Atomic cells in memory\<close>

lemma length_store [simp, mem_simps]:
  "a + 8 \<le> length m \<Longrightarrow> length (store_u64 a v m) = length m"
  "a + 4 \<le> length m \<Longrightarrow> length (store_u32 a w m) = length m"
  by (simp_all add: store_u64_def store_u32_def)

lemma load_store_same [simp, mem_simps]:
  "a + 8 \<le> length m \<Longrightarrow> load_u64 a (store_u64 a v m) = v"
  "a + 4 \<le> length m \<Longrightarrow> load_u32 a (store_u32 a w m) = w"
  by (simp_all add: store_u64_def load_u64_def store_u32_def load_u32_def le_roundtrip_word)

lemma load_write_disjoint [mem_simps]:
  "off + length vs \<le> length m \<Longrightarrow> a + 8 \<le> length m \<Longrightarrow> a + 8 \<le> off \<or> off + length vs \<le> a \<Longrightarrow>
   load_u64 a (write_bytes off vs m) = load_u64 a m"
  "off + length vs \<le> length m \<Longrightarrow> a + 4 \<le> length m \<Longrightarrow> a + 4 \<le> off \<or> off + length vs \<le> a \<Longrightarrow>
   load_u32 a (write_bytes off vs m) = load_u32 a m"
  by (simp_all add: load_u64_def load_u32_def read_write_disjoint)

lemma read_store_disjoint [mem_simps]:
  "a + 8 \<le> length m \<Longrightarrow> off + n \<le> length m \<Longrightarrow> off + n \<le> a \<or> a + 8 \<le> off \<Longrightarrow>
   read_bytes off n (store_u64 a v m) = read_bytes off n m"
  "a + 4 \<le> length m \<Longrightarrow> off + n \<le> length m \<Longrightarrow> off + n \<le> a \<or> a + 4 \<le> off \<Longrightarrow>
   read_bytes off n (store_u32 a w m) = read_bytes off n m"
  by (simp_all add: store_u64_def store_u32_def read_write_disjoint)

lemma load_store_disjoint [mem_simps]:
  "a + 8 \<le> length m \<Longrightarrow> b + 8 \<le> length m \<Longrightarrow> b + 8 \<le> a \<or> a + 8 \<le> b \<Longrightarrow>
   load_u64 b (store_u64 a v m) = load_u64 b m"
  "a + 4 \<le> length m \<Longrightarrow> b + 8 \<le> length m \<Longrightarrow> b + 8 \<le> a \<or> a + 4 \<le> b \<Longrightarrow>
   load_u64 b (store_u32 a w m) = load_u64 b m"
  "a + 8 \<le> length m \<Longrightarrow> b + 4 \<le> length m \<Longrightarrow> b + 4 \<le> a \<or> a + 8 \<le> b \<Longrightarrow>
   load_u32 b (store_u64 a v m) = load_u32 b m"
  by (simp_all add: store_u64_def store_u32_def load_write_disjoint)

section \<open>Geometry of a ring\<close>

definition ring_geom :: "Ring \<Rightarrow> bytes \<Rightarrow> bool" where
  "ring_geom R m \<longleftrightarrow>
     0 < ring_count R \<and> ring_count R < 2 ^ 64 \<and> ring_stride R = 4 + ring_max R
     \<and> ring_max R < 2 ^ 32 \<and> head R + 8 \<le> ring_slots R \<and> tail R + 8 \<le> ring_slots R
     \<and> (head R + 8 \<le> tail R \<or> tail R + 8 \<le> head R)
     \<and> ring_slots R + ring_count R * ring_stride R \<le> length m"

abbreviation ring_end :: "Ring \<Rightarrow> nat" where
  "ring_end R \<equiv> ring_slots R + ring_count R * ring_stride R"

lemma ring_geom_length: "length m' = length m \<Longrightarrow> ring_geom R m' = ring_geom R m"
  by (simp add: ring_geom_def)

lemma slot_bounds:
  assumes "i < ring_count R"
  shows "ring_slots R \<le> slot_addr R i" "slot_addr R i + ring_stride R \<le> ring_end R"
proof -
  have "Suc i * ring_stride R \<le> ring_count R * ring_stride R"
    using assms by (intro mult_le_mono1) simp
  then show "slot_addr R i + ring_stride R \<le> ring_end R"
    by (simp add: slot_addr_def)
qed (simp add: slot_addr_def)

lemma slot_disjoint:
  assumes "i \<noteq> j"
  shows "slot_addr R i + ring_stride R \<le> slot_addr R j \<or> slot_addr R j + ring_stride R \<le> slot_addr R i"
proof (cases "i < j")
  case True
  then have "Suc i * ring_stride R \<le> j * ring_stride R" by (intro mult_le_mono1) simp
  then show ?thesis by (simp add: slot_addr_def)
next
  case False
  then have "Suc j * ring_stride R \<le> i * ring_stride R" using assms by (intro mult_le_mono1) simp
  then show ?thesis by (simp add: slot_addr_def)
qed

text \<open>The message stored in a slot: length prefix (capped at the maximum) and bytes.\<close>

definition slot_val :: "Ring \<Rightarrow> bytes \<Rightarrow> nat \<Rightarrow> bytes" where
  "slot_val R m i =
     (let a = slot_addr R i; n = unat (load_u32 a m)
      in read_bytes (a + 4) (if n < ring_max R then n else ring_max R) m)"

lemma slot_val_cong:
  assumes "ring_stride R = 4 + ring_max R"
    and "read_bytes (slot_addr R i) (ring_stride R) m' = read_bytes (slot_addr R i) (ring_stride R) m"
  shows "slot_val R m' i = slot_val R m i"
proof -
  let ?a = "slot_addr R i"
  have four: "read_bytes ?a 4 x = take 4 (read_bytes ?a (ring_stride R) x)" for x :: bytes
    using assms(1) by (simp add: read_bytes_def)
  have rest: "read_bytes (?a + 4) n x = take n (drop 4 (read_bytes ?a (ring_stride R) x))"
    if "n \<le> ring_max R" for n and x :: bytes
    using assms(1) that by (simp add: read_bytes_def drop_take min_def add.commute)
  have "load_u32 ?a m' = load_u32 ?a m"
    using assms(2) by (simp add: load_u32_def four)
  then show ?thesis
    using assms(2) by (simp add: slot_val_def Let_def rest)
qed

text \<open>Counters as natural numbers, and the queue a ring stands for.\<close>

definition hd_pos :: "Ring \<Rightarrow> bytes \<Rightarrow> nat" where
  "hd_pos R m = unat (load_u64 (head R) m)"

definition tl_pos :: "Ring \<Rightarrow> bytes \<Rightarrow> nat" where
  "tl_pos R m = unat (load_u64 (tail R) m)"

definition ring_items :: "Ring \<Rightarrow> bytes \<Rightarrow> bytes list" where
  "ring_items R m = map (\<lambda>p. slot_val R m (p mod ring_count R)) [tl_pos R m..<hd_pos R m]"

definition ring_inv :: "Ring \<Rightarrow> bytes \<Rightarrow> bool" where
  "ring_inv R m \<longleftrightarrow> ring_geom R m \<and> tl_pos R m \<le> hd_pos R m
     \<and> hd_pos R m - tl_pos R m \<le> ring_count R"

lemma length_ring_items [simp]: "length (ring_items R m) = hd_pos R m - tl_pos R m"
  by (simp add: ring_items_def)

lemma mod_window_distinct:
  assumes "p < (q::nat)" "q - p < n"
  shows "p mod n \<noteq> q mod n"
proof
  assume "p mod n = q mod n"
  then have "n dvd q - p" using assms(1) by (metis mod_eq_dvd_iff_nat order.strict_implies_order)
  then show False using assms by (auto dest: dvd_imp_le)
qed

text \<open>\<open>h - t\<close> on 64-bit words is the fill level as long as the tail has not passed the head.\<close>

lemma fill_level:
  "tl_pos R m \<le> hd_pos R m \<Longrightarrow>
   unat (load_u64 (head R) m - load_u64 (tail R) m) = hd_pos R m - tl_pos R m"
  by (simp add: hd_pos_def tl_pos_def unat_sub word_le_nat_alt)

section \<open>Effect of writes\<close>

text \<open>A write inside slot \<open>i\<close> leaves the counters and every other slot alone.\<close>

lemma write_slot:
  assumes "ring_geom R m" "i < ring_count R" "off + length vs \<le> ring_stride R"
  defines "m' \<equiv> write_bytes (slot_addr R i + off) vs m"
  shows "length m' = length m" "load_u64 (head R) m' = load_u64 (head R) m"
    "load_u64 (tail R) m' = load_u64 (tail R) m"
    "j < ring_count R \<Longrightarrow> j \<noteq> i \<Longrightarrow>
      read_bytes (slot_addr R j) (ring_stride R) m' = read_bytes (slot_addr R j) (ring_stride R) m"
    "j < ring_count R \<Longrightarrow> j \<noteq> i \<Longrightarrow> slot_val R m' j = slot_val R m j"
    "a + n \<le> length m \<Longrightarrow> a + n \<le> ring_slots R \<or> ring_end R \<le> a \<Longrightarrow>
      read_bytes a n m' = read_bytes a n m"
proof -
  note b = slot_bounds [OF assms(2)]
  have g: "ring_end R \<le> length m" "head R + 8 \<le> ring_slots R" "tail R + 8 \<le> ring_slots R"
    "ring_stride R = 4 + ring_max R"
    using assms(1) by (auto simp: ring_geom_def)
  have fit: "slot_addr R i + off + length vs \<le> ring_end R" using b assms(3) by linarith
  show "length m' = length m"
    unfolding m'_def by (rule length_write_bytes) (use fit g in linarith)
  show "load_u64 (head R) m' = load_u64 (head R) m" "load_u64 (tail R) m' = load_u64 (tail R) m"
    unfolding m'_def by (rule load_write_disjoint; use fit g b in linarith)+
  show "read_bytes a n m' = read_bytes a n m"
    if "a + n \<le> length m" "a + n \<le> ring_slots R \<or> ring_end R \<le> a"
    unfolding m'_def by (rule read_write_disjoint; use fit g b that in linarith)
  assume j: "j < ring_count R" "j \<noteq> i"
  show rd: "read_bytes (slot_addr R j) (ring_stride R) m' = read_bytes (slot_addr R j) (ring_stride R) m"
    unfolding m'_def
    by (rule read_write_disjoint;
        use fit b g slot_bounds [OF j(1)] slot_disjoint [OF j(2), of R] assms(3) in linarith)
  show "slot_val R m' j = slot_val R m j"
    by (rule slot_val_cong [OF g(4) rd])
qed

text \<open>Storing a counter leaves the slots alone.\<close>

lemma store_counter:
  assumes "ring_geom R m" "c + 8 \<le> ring_slots R"
  shows "length (store_u64 c v m) = length m"
    "j < ring_count R \<Longrightarrow> slot_val R (store_u64 c v m) j = slot_val R m j"
    "a + n \<le> length m \<Longrightarrow> a + n \<le> c \<or> c + 8 \<le> a \<Longrightarrow>
      read_bytes a n (store_u64 c v m) = read_bytes a n m"
proof -
  have g: "ring_end R \<le> length m" "ring_stride R = 4 + ring_max R"
    using assms(1) by (auto simp: ring_geom_def)
  show "length (store_u64 c v m) = length m"
    "a + n \<le> length m \<Longrightarrow> a + n \<le> c \<or> c + 8 \<le> a \<Longrightarrow>
      read_bytes a n (store_u64 c v m) = read_bytes a n m"
    using g assms(2) by (auto simp: mem_simps)
  assume j: "j < ring_count R"
  show "slot_val R (store_u64 c v m) j = slot_val R m j"
    by (rule slot_val_cong [OF g(2)])
      (use g assms(2) slot_bounds [OF j] in \<open>auto simp: read_store_disjoint\<close>)
qed

lemma hd_tl_store:
  assumes "ring_geom R m"
  shows "hd_pos R (store_u64 (head R) v m) = unat v" "tl_pos R (store_u64 (head R) v m) = tl_pos R m"
    "tl_pos R (store_u64 (tail R) v m) = unat v" "hd_pos R (store_u64 (tail R) v m) = hd_pos R m"
  using assms by (auto simp: ring_geom_def hd_pos_def tl_pos_def mem_simps)

text \<open>Filling slot \<open>i\<close> with a message: payload bytes first, then the length prefix.\<close>

definition fill_slot :: "Ring \<Rightarrow> nat \<Rightarrow> bytes \<Rightarrow> bytes \<Rightarrow> bytes" where
  "fill_slot R i vs m =
     store_u32 (slot_addr R i) (of_nat (length vs)) (write_bytes (slot_addr R i + 4) vs m)"

lemma fill_slot_effect:
  assumes "ring_geom R m" "i < ring_count R" "length vs \<le> ring_max R"
  shows "length (fill_slot R i vs m) = length m"
    "hd_pos R (fill_slot R i vs m) = hd_pos R m" "tl_pos R (fill_slot R i vs m) = tl_pos R m"
    "slot_val R (fill_slot R i vs m) i = vs"
    "j < ring_count R \<Longrightarrow> j \<noteq> i \<Longrightarrow> slot_val R (fill_slot R i vs m) j = slot_val R m j"
    "a + n \<le> length m \<Longrightarrow> a + n \<le> ring_slots R \<or> ring_end R \<le> a \<Longrightarrow>
      read_bytes a n (fill_slot R i vs m) = read_bytes a n m"
proof -
  let ?a = "slot_addr R i"
  let ?m1 = "write_bytes (?a + 4) vs m"
  let ?l = "le_bytes 4 (unat (of_nat (length vs) :: u32))"
  have g: "ring_stride R = 4 + ring_max R" "ring_max R < 2 ^ 32" "ring_end R \<le> length m"
    using assms(1) by (auto simp: ring_geom_def)
  note b = slot_bounds [OF assms(2)]
  note w1 = write_slot [OF assms(1,2), of 4 vs]
  have ok: "4 + length vs \<le> ring_stride R" "0 + length ?l \<le> ring_stride R"
    using assms(3) g(1) by simp_all
  have geom1: "ring_geom R ?m1"
    using assms(1) ring_geom_length [OF w1(1) [OF ok(1)]] by simp
  have eq: "fill_slot R i vs m = write_bytes (?a + 0) ?l ?m1"
    by (simp add: fill_slot_def store_u32_def)
  note w2 = write_slot [OF geom1 assms(2) ok(2)]
  note w1 = w1 [OF ok(1)]
  show "length (fill_slot R i vs m) = length m"
    unfolding eq using w1(1) w2(1) by (rule trans [rotated])
  show "hd_pos R (fill_slot R i vs m) = hd_pos R m" "tl_pos R (fill_slot R i vs m) = tl_pos R m"
    unfolding eq hd_pos_def tl_pos_def w2(2,3) w1(2,3) by (rule refl)+
  show "slot_val R (fill_slot R i vs m) j = slot_val R m j" if "j < ring_count R" "j \<noteq> i"
    unfolding eq w2(5) [OF that] w1(5) [OF that] by (rule refl)
  show "read_bytes a n (fill_slot R i vs m) = read_bytes a n m"
    if "a + n \<le> length m" "a + n \<le> ring_slots R \<or> ring_end R \<le> a"
    unfolding eq using w1(6) [OF that] w2(6) [OF _ that(2)] w1(1) that(1) by simp
  have "unat (of_nat (length vs) :: u32) = length vs"
    using assms(3) g(2) by (intro unat_of_nat_small) simp
  moreover have "load_u32 ?a (fill_slot R i vs m) = of_nat (length vs)"
    unfolding fill_slot_def by (rule load_store_same) (use b g w1(1) in linarith)
  moreover have "read_bytes (?a + 4) (length vs) (fill_slot R i vs m) = vs"
  proof -
    have "read_bytes (?a + 4) (length vs) (fill_slot R i vs m) = read_bytes (?a + 4) (length vs) ?m1"
      unfolding fill_slot_def by (rule read_store_disjoint; use b g w1(1) assms(3) in linarith)
    also have "\<dots> = vs" by (rule read_write_same) (use b g in linarith)
    finally show ?thesis .
  qed
  ultimately show "slot_val R (fill_slot R i vs m) i = vs"
    using assms(3) by (auto simp: slot_val_def Let_def)
qed

section \<open>Push and pop as queue operations\<close>

text \<open>What a producer hands over: the first \<open>max_payload\<close> bytes of its buffer.\<close>

definition clip :: "Ring \<Rightarrow> Buffer \<Rightarrow> bytes" where
  "clip R b = take (ring_max R) (buffer_bytes b)"

lemma push_unfold:
  assumes "buffer_ok pl" "unat (load_u64 (head R) m - load_u64 (tail R) m) < ring_count R"
  shows "shm_try_push_slot R pl m =
    (True, store_u64 (head R) (load_u64 (head R) m + 1)
       (fill_slot R (hd_pos R m mod ring_count R) (clip R pl) m))"
proof -
  let ?n = "if buf_size pl < ring_max R then buf_size pl else ring_max R"
  have "take ?n (data pl) = clip R pl" "?n = length (clip R pl)"
    using assms(1) by (auto simp: clip_def buffer_bytes_def buffer_ok_def min_def)
  with assms(2) show ?thesis
    by (simp add: shm_try_push_slot_def fill_slot_def hd_pos_def Let_def not_le)
qed

lemma ring_items_cong:
  assumes "ring_count R > 0" "tl_pos R m' = t" "hd_pos R m' = h"
    "\<And>p. t \<le> p \<Longrightarrow> p < h \<Longrightarrow> slot_val R m' (p mod ring_count R) = f p"
  shows "ring_items R m' = map f [t..<h]"
  using assms by (simp add: ring_items_def)

lemma push_accepts:
  assumes "ring_inv R m" "buffer_ok pl" "length (ring_items R m) < ring_count R"
    "hd_pos R m + 1 < 2 ^ 64"
  obtains m' where "shm_try_push_slot R pl m = (True, m')" "length m' = length m" "ring_inv R m'"
    "ring_items R m' = ring_items R m @ [clip R pl]" "hd_pos R m' = hd_pos R m + 1"
    "\<And>a n. a + n \<le> length m \<Longrightarrow> a + n \<le> ring_slots R \<or> ring_end R \<le> a \<Longrightarrow>
       a + n \<le> head R \<or> head R + 8 \<le> a \<Longrightarrow> read_bytes a n m' = read_bytes a n m"
proof -
  let ?h = "hd_pos R m" and ?t = "tl_pos R m" and ?c = "ring_count R"
  let ?i = "?h mod ?c"
  define m1 where "m1 = fill_slot R ?i (clip R pl) m"
  define m' where "m' = store_u64 (head R) (load_u64 (head R) m + 1) m1"
  have g: "ring_geom R m" "?t \<le> ?h" "?h - ?t < ?c" using assms by (auto simp: ring_inv_def)
  have c: "?c > 0" using g(3) by simp
  have i: "?i < ?c" using c by simp
  have cl: "length (clip R pl) \<le> ring_max R" by (simp add: clip_def)
  note f = fill_slot_effect [OF g(1) i cl, folded m1_def]
  have g1: "ring_geom R m1" using g(1) ring_geom_length [OF f(1)] by simp
  have hb: "head R + 8 \<le> ring_slots R" using g(1) by (simp add: ring_geom_def)
  note st = store_counter [OF g1 hb, where v = "load_u64 (head R) m + 1", folded m'_def]
  have "shm_try_push_slot R pl m = (True, m')"
    using push_unfold [OF assms(2)] fill_level [OF g(2)] g(3) by (simp add: m'_def m1_def)
  moreover have len: "length m' = length m" using st(1) f(1) by simp
  moreover have pos: "hd_pos R m' = ?h + 1" "tl_pos R m' = ?t"
  proof -
    have "unat (load_u64 (head R) m + 1) = ?h + 1"
      using assms(4) by (simp add: hd_pos_def unat_add_lem [THEN iffD1])
    then show "hd_pos R m' = ?h + 1" "tl_pos R m' = ?t"
      using hd_tl_store(1,2) [OF g1] f(3) by (simp_all add: m'_def)
  qed
  moreover have "ring_inv R m'"
    using g pos ring_geom_length [OF len] by (simp add: ring_inv_def)
  moreover have "ring_items R m' = ring_items R m @ [clip R pl]"
  proof -
    have "ring_items R m' = map (\<lambda>p. if p = ?h then clip R pl else slot_val R m (p mod ?c)) [?t..<Suc ?h]"
    proof (rule ring_items_cong)
      fix p assume p: "?t \<le> p" "p < Suc ?h"
      have "slot_val R m' (p mod ?c) = slot_val R m1 (p mod ?c)" using c by (intro st(2)) simp
      also have "\<dots> = (if p = ?h then clip R pl else slot_val R m (p mod ?c))"
      proof (cases "p = ?h")
        case False
        then have "p mod ?c \<noteq> ?i" using p g(3) by (intro mod_window_distinct) auto
        then show ?thesis using False f(5) c by simp
      qed (simp add: f(4))
      finally show "slot_val R m' (p mod ?c) = (if p = ?h then clip R pl else slot_val R m (p mod ?c))" .
    qed (use c pos in auto)
    then show ?thesis using g(2) by (simp add: ring_items_def)
  qed
  moreover have "read_bytes a n m' = read_bytes a n m"
    if "a + n \<le> length m" "a + n \<le> ring_slots R \<or> ring_end R \<le> a"
      "a + n \<le> head R \<or> head R + 8 \<le> a" for a n
    using that st(3) [of a n] f(1) f(6) [of a n] by simp
  ultimately show ?thesis using that by blast
qed

lemma push_rejects:
  assumes "ring_inv R m" "length (ring_items R m) = ring_count R"
  shows "shm_try_push_slot R pl m = (False, m)"
  using assms fill_level [of R m] by (simp add: shm_try_push_slot_def ring_inv_def)

lemma pop_empty:
  assumes "ring_inv R m" "ring_items R m = []"
  shows "shm_try_pop_slot R buf m = Inr (False, buf, m)"
proof -
  have "length (ring_items R m) = 0" using assms(2) by simp
  then show ?thesis
    using assms(1) by (simp add: shm_try_pop_slot_def ring_inv_def word_le_nat_alt hd_pos_def tl_pos_def)
qed

lemma slot_val_length:
  assumes "ring_geom R m" "i < ring_count R"
  shows "length (slot_val R m i) = (let n = unat (load_u32 (slot_addr R i) m)
    in if n < ring_max R then n else ring_max R)"
  using slot_bounds [OF assms(2)] assms(1)
  by (auto simp: slot_val_def Let_def ring_geom_def)

lemma pop_unfold:
  assumes "ring_inv R m" "ring_items R m = x # xs"
  shows "x = slot_val R m (tl_pos R m mod ring_count R)"
    "shm_try_pop_slot R buf m =
      (if length x > capacity buf then Inl (RuntimeError ''shm recv buffer too small'')
       else Inr (True, buf\<lparr>data := write_bytes 0 x (data buf), buf_size := length x\<rparr>,
                 store_u64 (tail R) (load_u64 (tail R) m + 1) m))"
proof -
  let ?c = "ring_count R" and ?t = "tl_pos R m" and ?h = "hd_pos R m"
  have lt: "?t < ?h" using arg_cong [OF assms(2), of length] by simp
  then show x: "x = slot_val R m (?t mod ?c)"
    using assms(2) by (simp add: ring_items_def upt_conv_Cons)
  have "ring_geom R m" "?c > 0" using assms(1) by (auto simp: ring_inv_def ring_geom_def)
  then have len: "length x = (let n = unat (load_u32 (slot_addr R (?t mod ?c)) m)
    in if n < ring_max R then n else ring_max R)"
    using x slot_val_length [of R m "?t mod ?c"] by simp
  show "shm_try_pop_slot R buf m =
      (if length x > capacity buf then Inl (RuntimeError ''shm recv buffer too small'')
       else Inr (True, buf\<lparr>data := write_bytes 0 x (data buf), buf_size := length x\<rparr>,
                 store_u64 (tail R) (load_u64 (tail R) m + 1) m))"
    using lt len x
    by (simp add: shm_try_pop_slot_def slot_val_def Let_def hd_pos_def tl_pos_def word_le_nat_alt)
qed

lemma pop_delivers:
  assumes "ring_inv R m" "ring_items R m = x # xs" "buffer_ok buf" "length x \<le> capacity buf"
  obtains buf' m' where "shm_try_pop_slot R buf m = Inr (True, buf', m')" "length m' = length m"
    "ring_inv R m'" "ring_items R m' = xs" "hd_pos R m' = hd_pos R m"
    "buffer_bytes buf' = x" "buf_size buf' = length x" "buffer_ok buf'"
    "capacity buf' = capacity buf" "data buf' = x @ drop (length x) (data buf)"
    "\<And>a n. a + n \<le> length m \<Longrightarrow> a + n \<le> tail R \<or> tail R + 8 \<le> a \<Longrightarrow>
       read_bytes a n m' = read_bytes a n m"
proof -
  let ?c = "ring_count R" and ?t = "tl_pos R m" and ?h = "hd_pos R m"
  define m' where "m' = store_u64 (tail R) (load_u64 (tail R) m + 1) m"
  let ?buf' = "buf\<lparr>data := write_bytes 0 x (data buf), buf_size := length x\<rparr>"
  have lt: "?t < ?h" using arg_cong [OF assms(2), of length] by simp
  have g: "ring_geom R m" "?h - ?t \<le> ?c" "?c > 0"
    using assms(1) by (auto simp: ring_inv_def ring_geom_def)
  have tb: "tail R + 8 \<le> ring_slots R" using g(1) by (simp add: ring_geom_def)
  note st = store_counter [OF g(1) tb, where v = "load_u64 (tail R) m + 1", folded m'_def]
  have "shm_try_pop_slot R buf m = Inr (True, ?buf', m')"
    using pop_unfold(2) [OF assms(1,2), of buf] assms(4) by (simp add: m'_def)
  moreover have pos: "tl_pos R m' = Suc ?t" "hd_pos R m' = ?h"
  proof -
    have "?h < 2 ^ 64" unfolding hd_pos_def using unsigned_less [of "load_u64 (head R) m"] by simp
    then have "unat (load_u64 (tail R) m + 1) = Suc ?t"
      using lt by (simp add: tl_pos_def unat_add_lem [THEN iffD1])
    then show "tl_pos R m' = Suc ?t" "hd_pos R m' = ?h"
      using hd_tl_store(3,4) [OF g(1)] by (simp_all add: m'_def)
  qed
  moreover have "ring_inv R m'"
    using g lt pos ring_geom_length [OF st(1)] by (simp add: ring_inv_def)
  moreover have "ring_items R m' = xs"
  proof -
    have "ring_items R m' = map (\<lambda>p. slot_val R m (p mod ?c)) [Suc ?t..<?h]"
      by (rule ring_items_cong) (use g pos st(2) in auto)
    then show ?thesis using assms(2) lt by (simp add: ring_items_def upt_conv_Cons)
  qed
  moreover have "length x \<le> length (data buf)" using assms(3,4) by (simp add: buffer_ok_def)
  then have "buffer_bytes ?buf' = x" "buffer_ok ?buf'" "data ?buf' = x @ drop (length x) (data buf)"
    using assms(3) by (simp_all add: buffer_bytes_def buffer_ok_def write_bytes_def)
  ultimately show ?thesis using that [of ?buf' m'] st(1,3) by simp
qed

section \<open>The bounded queue contract\<close>

datatype 'a qop = Push 'a | Pop

text \<open>Play a sequence of operations; collect what was accepted and what was delivered.\<close>

fun run_ops :: "('a \<Rightarrow> 's \<Rightarrow> bool \<times> 's) \<Rightarrow> ('s \<Rightarrow> 'a option \<times> 's) \<Rightarrow> 'a qop list \<Rightarrow> 's \<Rightarrow>
    'a list \<times> 'a list \<times> 's" where
  "run_ops push pop [] s = ([], [], s)"
| "run_ops push pop (Push x # ops) s =
     (let (ok, s1) = push x s; (acc, del, s') = run_ops push pop ops s1
      in (if ok then x # acc else acc, del, s'))"
| "run_ops push pop (Pop # ops) s =
     (let (y, s1) = pop s; (acc, del, s') = run_ops push pop ops s1
      in (acc, (case y of None \<Rightarrow> del | Some v \<Rightarrow> v # del), s'))"

locale bounded_fifo =
  fixes inv :: "'s \<Rightarrow> bool"
    and items :: "'s \<Rightarrow> 'a list"
    and cap :: "'s \<Rightarrow> nat"
    and budget :: "'s \<Rightarrow> nat"
    and stored :: "'s \<Rightarrow> 'a \<Rightarrow> 'a"
    and push :: "'a \<Rightarrow> 's \<Rightarrow> bool \<times> 's"
    and pop :: "'s \<Rightarrow> 'a option \<times> 's"
  assumes within_cap: "inv s \<Longrightarrow> length (items s) \<le> cap s"
    and push_room: "inv s \<Longrightarrow> length (items s) < cap s \<Longrightarrow> 0 < budget s \<Longrightarrow>
      \<exists>s'. push x s = (True, s') \<and> inv s' \<and> items s' = items s @ [stored s x]
        \<and> cap s' = cap s \<and> budget s' = budget s - 1 \<and> stored s' = stored s"
    and push_full: "inv s \<Longrightarrow> length (items s) = cap s \<Longrightarrow> push x s = (False, s)"
    and pop_none: "inv s \<Longrightarrow> items s = [] \<Longrightarrow> pop s = (None, s)"
    and pop_some: "inv s \<Longrightarrow> items s = y # ys \<Longrightarrow>
      \<exists>s'. pop s = (Some y, s') \<and> inv s' \<and> items s' = ys
        \<and> cap s' = cap s \<and> budget s' = budget s \<and> stored s' = stored s"
begin

lemma push_cases:
  assumes "inv s" "0 < budget s"
  obtains (room) s' where "push x s = (True, s')" "inv s'" "items s' = items s @ [stored s x]"
      "cap s' = cap s" "budget s' = budget s - 1" "stored s' = stored s"
  | (full) "push x s = (False, s)"
  using push_room [OF assms(1) _ assms(2)] push_full [OF assms(1)] within_cap [OF assms(1)]
  by (metis le_neq_implies_less)

lemma pop_cases:
  assumes "inv s"
  obtains (none) "pop s = (None, s)" "items s = []"
  | (some) y s' where "pop s = (Some y, s')" "inv s'" "items s = y # items s'"
      "cap s' = cap s" "budget s' = budget s" "stored s' = stored s"
  using pop_none [OF assms] pop_some [OF assms] by (cases "items s") auto

text \<open>Nothing is lost, duplicated or reordered over any sequence of operations.\<close>

lemma fifo:
  assumes "inv s" "length ops \<le> budget s" "run_ops push pop ops s = (acc, del, s')"
  shows "inv s' \<and> items s @ map (stored s) acc = del @ items s'
    \<and> length (items s') \<le> cap s \<and> cap s' = cap s"
  using assms
proof (induction ops arbitrary: s acc del)
  case Nil
  then show ?case using within_cap by simp
next
  case (Cons op ops)
  have b: "0 < budget s" "length ops \<le> budget s - 1" using Cons.prems(2) by simp_all
  show ?case
  proof (cases op)
    case op: (Push x)
    from Cons.prems(1) b(1) show ?thesis
    proof (cases rule: push_cases [of s x])
      case (room s1)
      obtain acc1 where r: "run_ops push pop ops s1 = (acc1, del, s')" "acc = x # acc1"
        using Cons.prems(3) room(1) by (auto simp: op split: prod.splits)
      from Cons.IH [OF room(2) _ r(1)] b(2) room r(2) show ?thesis by simp
    next
      case full
      then have "run_ops push pop ops s = (acc, del, s')"
        using Cons.prems(3) by (auto simp: op split: prod.splits)
      from Cons.IH [OF Cons.prems(1) _ this] b(2) show ?thesis by simp
    qed
  next
    case op: Pop
    from Cons.prems(1) show ?thesis
    proof (cases rule: pop_cases)
      case none
      then have "run_ops push pop ops s = (acc, del, s')"
        using Cons.prems(3) by (auto simp: op split: prod.splits)
      from Cons.IH [OF Cons.prems(1) _ this] b(2) show ?thesis by simp
    next
      case (some y s1)
      obtain del1 where r: "run_ops push pop ops s1 = (acc, del1, s')" "del = y # del1"
        using Cons.prems(3) some(1) by (auto simp: op split: prod.splits)
      from Cons.IH [OF some(2) _ r(1)] b(2) some r(2) show ?thesis by simp
    qed
  qed
qed

end

section \<open>The two directions of a region\<close>

abbreviation as_client :: "ShmRegion \<Rightarrow> ShmRegion" where
  "as_client r \<equiv> r\<lparr>is_server_role := False\<rparr>"

abbreviation as_server :: "ShmRegion \<Rightarrow> ShmRegion" where
  "as_server r \<equiv> r\<lparr>is_server_role := True\<rparr>"

text \<open>A region whose offsets are those of the layout and whose mapping has the computed size.\<close>

definition region_geom :: "ShmRegion \<Rightarrow> bytes \<Rightarrow> bool" where
  "region_geom r m \<longleftrightarrow> shm_map_layout r = r \<and> 0 < slot_count r \<and> max_payload r < 2 ^ 32
     \<and> 64 + 2 * slot_count r * (4 + max_payload r) < 2 ^ 64
     \<and> length m = 64 + 2 * slot_count r * (4 + max_payload r)"

definition region_inv :: "ShmRegion \<Rightarrow> bytes \<Rightarrow> bool" where
  "region_inv r m \<longleftrightarrow> region_geom r m \<and> ring_inv (req_ring r) m \<and> ring_inv (rep_ring r) m"

lemma map_layout_fields:
  assumes "shm_map_layout r = r"
  shows "req_head r = 0" "req_tail r = 8" "rep_head r = 16" "rep_tail r = 24" "req_slots r = 64"
    "slot_stride r = size_t (4 + max_payload r)"
    "rep_slots r = 64 + size_t (slot_count r * slot_stride r)"
  using arg_cong [OF assms, of req_head] arg_cong [OF assms, of req_tail]
    arg_cong [OF assms, of rep_head] arg_cong [OF assms, of rep_tail]
    arg_cong [OF assms, of req_slots] arg_cong [OF assms, of slot_stride]
    arg_cong [OF assms, of rep_slots]
  by (simp_all add: shm_map_layout_def shm_slot_stride_def Let_def)

lemma region_layout:
  assumes "region_geom r m"
  shows "req_ring r = \<lparr>head = 0, tail = 8, ring_slots = 64, ring_count = slot_count r,
      ring_stride = 4 + max_payload r, ring_max = max_payload r\<rparr>"
    "rep_ring r = \<lparr>head = 16, tail = 24, ring_slots = 64 + slot_count r * (4 + max_payload r),
      ring_count = slot_count r, ring_stride = 4 + max_payload r, ring_max = max_payload r\<rparr>"
    "length m = 64 + 2 * (slot_count r * (4 + max_payload r))"
proof -
  have g: "shm_map_layout r = r" "max_payload r < 2 ^ 32"
    "64 + 2 * slot_count r * (4 + max_payload r) < 2 ^ 64"
    "length m = 64 + 2 * slot_count r * (4 + max_payload r)"
    using assms by (auto simp: region_geom_def)
  have "size_t (4 + max_payload r) = 4 + max_payload r"
    using g(2) by (simp add: size_t_def)
  moreover have "slot_count r * (4 + max_payload r) < 2 ^ 64" using g(3) by linarith
  then have "size_t (slot_count r * (4 + max_payload r)) = slot_count r * (4 + max_payload r)"
    unfolding size_t_def by (rule mod_less)
  ultimately show "req_ring r = \<lparr>head = 0, tail = 8, ring_slots = 64, ring_count = slot_count r,
      ring_stride = 4 + max_payload r, ring_max = max_payload r\<rparr>"
    "rep_ring r = \<lparr>head = 16, tail = 24, ring_slots = 64 + slot_count r * (4 + max_payload r),
      ring_count = slot_count r, ring_stride = 4 + max_payload r, ring_max = max_payload r\<rparr>"
    using map_layout_fields [OF g(1)] by (simp_all add: req_ring_def rep_ring_def)
  show "length m = 64 + 2 * (slot_count r * (4 + max_payload r))"
    using g(4) by simp
qed

text \<open>A memory change that misses the counters and slots of a ring does not affect it.\<close>

lemma ring_frame:
  assumes "ring_geom Q m" "length m' = length m"
    and "\<And>a n. a + n \<le> length m \<Longrightarrow>
      (a = head Q \<and> n = 8) \<or> (a = tail Q \<and> n = 8) \<or> (ring_slots Q \<le> a \<and> a + n \<le> ring_end Q) \<Longrightarrow>
      read_bytes a n m' = read_bytes a n m"
  shows "ring_inv Q m' = ring_inv Q m" "ring_items Q m' = ring_items Q m"
    "hd_pos Q m' = hd_pos Q m" "tl_pos Q m' = tl_pos Q m"
proof -
  have g: "head Q + 8 \<le> length m" "tail Q + 8 \<le> length m" "ring_end Q \<le> length m"
    "ring_stride Q = 4 + ring_max Q" "ring_count Q > 0"
    using assms(1) by (auto simp: ring_geom_def)
  show pos: "hd_pos Q m' = hd_pos Q m" "tl_pos Q m' = tl_pos Q m"
    using assms(3) g(1,2) by (simp_all add: hd_pos_def tl_pos_def load_u64_def)
  have "slot_val Q m' i = slot_val Q m i" if "i < ring_count Q" for i
    by (rule slot_val_cong [OF g(4)], rule assms(3))
      (use slot_bounds [OF that] g(3) in linarith)+
  then show "ring_items Q m' = ring_items Q m" using g(5) pos by (simp add: ring_items_def)
  show "ring_inv Q m' = ring_inv Q m"
    using pos ring_geom_length [OF assms(2)] by (simp add: ring_inv_def)
qed

lemma region_rings:
  assumes "region_geom r m"
  shows "ring_geom (req_ring r) m" "ring_geom (rep_ring r) m"
proof -
  have "0 < slot_count r" "max_payload r < 2 ^ 32"
    "64 + 2 * slot_count r * (4 + max_payload r) < 2 ^ 64"
    using assms by (auto simp: region_geom_def)
  moreover from this(3) have "slot_count r < 2 ^ 64"
    using mult_le_mono2 [of 1 "4 + max_payload r" "slot_count r"] by linarith
  ultimately show "ring_geom (req_ring r) m" "ring_geom (rep_ring r) m"
    by (simp_all add: ring_geom_def region_layout [OF assms])
qed

definition opposite :: "ShmRegion \<Rightarrow> Ring \<Rightarrow> Ring \<Rightarrow> bool" where
  "opposite r R Q \<longleftrightarrow> (R = req_ring r \<and> Q = rep_ring r) \<or> (R = rep_ring r \<and> Q = req_ring r)"

lemma opposite_geom:
  assumes "region_geom r m" "opposite r R Q"
  shows "ring_geom R m" "ring_geom Q m" "ring_count R = slot_count r" "ring_max R = max_payload r"
  using assms region_rings [OF assms(1)] by (auto simp: opposite_def req_ring_def rep_ring_def)

lemma region_inv_opposite:
  "opposite r R Q \<Longrightarrow> region_inv r m \<longleftrightarrow> region_geom r m \<and> ring_inv R m \<and> ring_inv Q m"
  by (auto simp: region_inv_def opposite_def)

text \<open>The counters and slots of one direction are disjoint from what the other one writes.\<close>

lemma opposite_apart:
  assumes "region_geom r m" "opposite r R Q"
    and "(a = head Q \<and> n = 8) \<or> (a = tail Q \<and> n = 8) \<or> (ring_slots Q \<le> a \<and> a + n \<le> ring_end Q)"
  shows "a + n \<le> ring_slots R \<or> ring_end R \<le> a"
    "a + n \<le> head R \<or> head R + 8 \<le> a" "a + n \<le> tail R \<or> tail R + 8 \<le> a"
proof -
  have "(a + n \<le> ring_slots R \<or> ring_end R \<le> a) \<and> (a + n \<le> head R \<or> head R + 8 \<le> a)
    \<and> (a + n \<le> tail R \<or> tail R + 8 \<le> a)"
    using assms(2)
  proof (unfold opposite_def, elim disjE conjE)
    assume "R = req_ring r" "Q = rep_ring r"
    then show ?thesis using assms(3) by (auto simp: region_layout [OF assms(1)])
  next
    assume "R = rep_ring r" "Q = req_ring r"
    then show ?thesis using assms(3) by (auto simp: region_layout [OF assms(1)])
  qed
  then show "a + n \<le> ring_slots R \<or> ring_end R \<le> a"
    "a + n \<le> head R \<or> head R + 8 \<le> a" "a + n \<le> tail R \<or> tail R + 8 \<le> a" by auto
qed

lemma region_geom_length: "length m' = length m \<Longrightarrow> region_geom r m' = region_geom r m"
  by (simp add: region_geom_def)

lemma region_push:
  assumes "region_inv r m" "opposite r R Q" "buffer_ok pl"
    "length (ring_items R m) < slot_count r" "hd_pos R m + 1 < 2 ^ 64"
  obtains m' where "shm_try_push_slot R pl m = (True, m')" "length m' = length m" "region_inv r m'"
    "ring_items R m' = ring_items R m @ [clip R pl]" "hd_pos R m' = hd_pos R m + 1"
    "ring_items Q m' = ring_items Q m" "hd_pos Q m' = hd_pos Q m" "tl_pos Q m' = tl_pos Q m"
proof -
  have g: "region_geom r m" "ring_inv R m" "ring_inv Q m"
    using assms(1) region_inv_opposite [OF assms(2)] by auto
  note geo = opposite_geom [OF g(1) assms(2)]
  from push_accepts [OF g(2) assms(3) _ assms(5)] geo(3) assms(4)
  obtain m' where m': "shm_try_push_slot R pl m = (True, m')" "length m' = length m"
    "ring_inv R m'" "ring_items R m' = ring_items R m @ [clip R pl]" "hd_pos R m' = hd_pos R m + 1"
    and fr: "\<And>a n. a + n \<le> length m \<Longrightarrow> a + n \<le> ring_slots R \<or> ring_end R \<le> a \<Longrightarrow>
       a + n \<le> head R \<or> head R + 8 \<le> a \<Longrightarrow> read_bytes a n m' = read_bytes a n m"
    by auto
  note other = ring_frame [OF geo(2) m'(2) fr [OF _ opposite_apart(1,2) [OF g(1) assms(2)]]]
  have "region_inv r m'"
    using m'(3) other(1) g region_inv_opposite [OF assms(2)] region_geom_length [OF m'(2)] by simp
  with m' other(2-4) show ?thesis using that by simp
qed

lemma region_pop:
  assumes "region_inv r m" "opposite r R Q" "ring_items R m = x # xs" "buffer_ok buf"
    "length x \<le> capacity buf"
  obtains buf' m' where "shm_try_pop_slot R buf m = Inr (True, buf', m')" "length m' = length m"
    "region_inv r m'" "ring_items R m' = xs" "hd_pos R m' = hd_pos R m"
    "buffer_bytes buf' = x" "buf_size buf' = length x"
    "data buf' = x @ drop (length x) (data buf)"
    "ring_items Q m' = ring_items Q m" "hd_pos Q m' = hd_pos Q m" "tl_pos Q m' = tl_pos Q m"
proof -
  have g: "region_geom r m" "ring_inv R m" "ring_inv Q m"
    using assms(1) region_inv_opposite [OF assms(2)] by auto
  note geo = opposite_geom [OF g(1) assms(2)]
  from pop_delivers [OF g(2) assms(3,4,5)]
  obtain buf' m' where m': "shm_try_pop_slot R buf m = Inr (True, buf', m')" "length m' = length m"
    "ring_inv R m'" "ring_items R m' = xs" "hd_pos R m' = hd_pos R m"
    "buffer_bytes buf' = x" "buf_size buf' = length x"
    "data buf' = x @ drop (length x) (data buf)"
    and fr: "\<And>a n. a + n \<le> length m \<Longrightarrow> a + n \<le> tail R \<or> tail R + 8 \<le> a \<Longrightarrow>
       read_bytes a n m' = read_bytes a n m"
    by metis
  note other = ring_frame [OF geo(2) m'(2) fr [OF _ opposite_apart(3) [OF g(1) assms(2)]]]
  have "region_inv r m'"
    using m'(3) other(1) g region_inv_opposite [OF assms(2)] region_geom_length [OF m'(2)] by simp
  with m' other(2-4) show ?thesis using that by simp
qed

lemma item_length:
  assumes "ring_inv R m" "x \<in> set (ring_items R m)"
  shows "length x \<le> ring_max R"
proof -
  have "ring_geom R m" "ring_count R > 0" using assms(1) by (auto simp: ring_inv_def ring_geom_def)
  then show ?thesis
    using assms(2) slot_val_length [of R m] by (auto simp: ring_items_def Let_def)
qed

section \<open>Message interface of a region\<close>

text \<open>
  One direction of a bound region, as its two ends use it: \<open>side\<close> is true for messages from the
  server to the client. The receiver offers a buffer of \<open>max_payload\<close> bytes.
\<close>

type_synonym shm_state = "ShmRegion \<times> bytes"

definition dir_ring :: "bool \<Rightarrow> ShmRegion \<Rightarrow> Ring" where
  "dir_ring side r = (if side then rep_ring r else req_ring r)"

definition send_msg :: "bool \<Rightarrow> bytes \<Rightarrow> shm_state \<Rightarrow> bool \<times> shm_state" where
  "send_msg side x = (\<lambda>(r, m).
     case ShmSpsc_try_send (Some (r\<lparr>is_server_role := side\<rparr>)) (Buffer_read_only x) m of
       Inl _ \<Rightarrow> (False, (r, m))
     | Inr (res, m') \<Rightarrow> (res = Ok, (r, m')))"

definition recv_msg :: "bool \<Rightarrow> shm_state \<Rightarrow> bytes option \<times> shm_state" where
  "recv_msg side = (\<lambda>(r, m).
     case ShmSpsc_try_recv (Some (r\<lparr>is_server_role := \<not> side\<rparr>))
            (Buffer_writable (replicate (max_payload r) 0)) m of
       Inl _ \<Rightarrow> (None, (r, m))
     | Inr (ok, b, m') \<Rightarrow> (if ok then Some (buffer_bytes b) else None, (r, m')))"

lemma ring_of_role [simp]:
  "tx_ring (r\<lparr>is_server_role := side\<rparr>) = dir_ring side r"
  "rx_ring (r\<lparr>is_server_role := \<not> side\<rparr>) = dir_ring side r"
  by (simp_all add: tx_ring_def rx_ring_def dir_ring_def req_ring_def rep_ring_def)

lemma opposite_dir [simp]: "opposite r (dir_ring side r) (dir_ring (\<not> side) r)"
  by (simp add: opposite_def dir_ring_def)

lemma dir_ring_simps [simp]:
  "ring_count (dir_ring side r) = slot_count r" "ring_max (dir_ring side r) = max_payload r"
  by (simp_all add: dir_ring_def req_ring_def rep_ring_def)

lemma region_inv_dir: "region_inv r m \<Longrightarrow> ring_inv (dir_ring side r) m"
  by (simp add: region_inv_def dir_ring_def)

lemma send_msg_eq:
  "send_msg side x (r, m) =
     (let (ok, m') = shm_try_push_slot (dir_ring side r) (Buffer_read_only x) m in (ok, (r, m')))"
  by (simp add: send_msg_def ShmSpsc_try_send_def split: prod.splits)

lemma recv_msg_eq:
  "recv_msg side (r, m) =
     (case shm_try_pop_slot (dir_ring side r) (Buffer_writable (replicate (max_payload r) 0)) m of
       Inl _ \<Rightarrow> (None, (r, m))
     | Inr (ok, b, m') \<Rightarrow> (if ok then Some (buffer_bytes b) else None, (r, m')))"
  by (simp add: recv_msg_def ShmSpsc_try_recv_def)

interpretation shm_dir: bounded_fifo
  "\<lambda>(r, m). region_inv r m" "\<lambda>(r, m). ring_items (dir_ring side r) m" "\<lambda>(r, m). slot_count r"
  "\<lambda>(r, m). 2 ^ 64 - 1 - hd_pos (dir_ring side r) m" "\<lambda>(r, m). take (max_payload r)"
  "send_msg side" "recv_msg side" for side
proof (unfold_locales, goal_cases)
  case (1 s)
  then show ?case using region_inv_dir by (fastforce simp: ring_inv_def split: prod.splits)
next
  case (2 s x)
  obtain r m where s: "s = (r, m)" by (cases s)
  have inv: "region_inv r m" and room: "length (ring_items (dir_ring side r) m) < slot_count r"
    and b: "hd_pos (dir_ring side r) m + 1 < 2 ^ 64"
    using 2 by (simp_all add: s)
  from region_push [OF inv opposite_dir buffer_ok_views(1) room b, of x]
  obtain m' where "shm_try_push_slot (dir_ring side r) (Buffer_read_only x) m = (True, m')"
    "region_inv r m'" "hd_pos (dir_ring side r) m' = hd_pos (dir_ring side r) m + 1"
    "ring_items (dir_ring side r) m' = ring_items (dir_ring side r) m @ [clip (dir_ring side r) (Buffer_read_only x)]"
    by metis
  then show ?case by (intro exI [of _ "(r, m')"]) (simp add: s send_msg_eq clip_def)
next
  case (3 s x)
  obtain r m where s: "s = (r, m)" by (cases s)
  have "shm_try_push_slot (dir_ring side r) (Buffer_read_only x) m = (False, m)"
    by (rule push_rejects) (use 3 region_inv_dir in \<open>auto simp: s\<close>)
  then show ?case by (simp add: s send_msg_eq)
next
  case (4 s)
  obtain r m where s: "s = (r, m)" by (cases s)
  have "ring_inv (dir_ring side r) m" "ring_items (dir_ring side r) m = []"
    using 4 region_inv_dir by (auto simp: s)
  from pop_empty [OF this] show ?case by (simp add: s recv_msg_eq)
next
  case (5 s y ys)
  obtain r m where s: "s = (r, m)" by (cases s)
  let ?buf = "Buffer_writable (replicate (max_payload r) 0)"
  have inv: "region_inv r m" and it: "ring_items (dir_ring side r) m = y # ys" using 5 by (simp_all add: s)
  have fits: "length y \<le> capacity ?buf"
    using item_length [OF region_inv_dir [OF inv], of y side] it by (simp add: Buffer_writable_def)
  from region_pop [OF inv opposite_dir it buffer_ok_views(2) fits]
  obtain b m' where "shm_try_pop_slot (dir_ring side r) ?buf m = Inr (True, b, m')"
    "region_inv r m'" "ring_items (dir_ring side r) m' = ys" "buffer_bytes b = y"
    "hd_pos (dir_ring side r) m' = hd_pos (dir_ring side r) m"
    by metis
  then show ?case by (intro exI [of _ "(r, m')"]) (simp add: s recv_msg_eq)
qed

lemma run_ops_region:
  "run_ops (send_msg side) (recv_msg side) ops (r, m) = (acc, del, (r', m')) \<Longrightarrow> r' = r"
proof (induction ops arbitrary: m acc del)
  case (Cons op ops)
  then show ?case
    by (cases op) (auto simp: send_msg_eq recv_msg_eq split: prod.splits sum.splits)
qed simp

section \<open>Binding\<close>

lemma zero_region_inv:
  assumes "shm_map_layout r = r" "0 < slot_count r" "max_payload r < 2 ^ 32"
    "64 + 2 * slot_count r * (4 + max_payload r) < 2 ^ 64"
    "m = replicate (64 + 2 * slot_count r * (4 + max_payload r)) 0"
  shows "region_inv r m" "ring_items (dir_ring side r) m = []" "hd_pos (dir_ring side r) m = 0"
proof -
  have g: "region_geom r m" using assms by (simp add: region_geom_def)
  have z: "load_u64 a m = 0" if "a + 8 \<le> length m" for a
  proof -
    have "read_bytes a 8 m = replicate 8 0" using that assms(5) by (simp add: read_bytes_def)
    then show ?thesis by (simp add: load_u64_def)
  qed
  have "hd_pos R m = 0 \<and> tl_pos R m = 0" if "R = req_ring r \<or> R = rep_ring r" for R
    using that z region_rings [OF g] by (auto simp: hd_pos_def tl_pos_def ring_geom_def)
  then show "region_inv r m" "ring_items (dir_ring side r) m = []" "hd_pos (dir_ring side r) m = 0"
    using g region_rings [OF g] by (auto simp: region_inv_def ring_inv_def ring_items_def dir_ring_def)
qed

lemma map_layout_idem: "shm_map_layout (shm_map_layout r) = shm_map_layout r"
  by (simp add: shm_map_layout_def Let_def)

lemma init_control_zero:
  assumes "shm_map_layout r = r" "64 \<le> n"
  shows "shm_init_control r (replicate n 0) = replicate n 0"
proof -
  have "store_u64 a 0 (replicate n 0) = replicate n 0" if "a + 8 \<le> n" for a
  proof -
    have "le_bytes 8 0 = read_bytes a 8 (replicate n (0::u8))"
      using that by (simp add: le_bytes_zero read_bytes_def)
    then show ?thesis using that write_read_same [of a 8 "replicate n (0::u8)"]
      by (simp add: store_u64_def)
  qed
  then show ?thesis
    using assms map_layout_fields [OF assms(1)] by (simp add: shm_init_control_def)
qed

definition bind_ok :: "ShmBindParams \<Rightarrow> bool" where
  "bind_ok p \<longleftrightarrow> 0 < bp_slot_count p \<and> bp_max_payload p < 2 ^ 32
     \<and> 64 + 2 * bp_slot_count p * (4 + bp_max_payload p) < 2 ^ 64"

lemma region_size_nowrap:
  assumes "bind_ok p"
  shows "shm_region_size (bp_slot_count p) (bp_max_payload p)
    = 64 + 2 * bp_slot_count p * (4 + bp_max_payload p)"
proof -
  have "shm_slot_stride (bp_max_payload p) = 4 + bp_max_payload p"
    using assms by (simp add: bind_ok_def shm_slot_stride_def size_t_def)
  then show ?thesis
    using assms mod_less by (simp add: shm_region_size_def size_t_def bind_ok_def)
qed

abbreviation shm_os_ok :: "ShmOs \<Rightarrow> bool" where
  "shm_os_ok os \<equiv> shm_open_ok os \<and> ftruncate_ok os \<and> mmap_ok os"

lemma bind_create:
  assumes "shm_os_ok os" "bp_create p" "bind_ok p"
  obtains r w' where "shm_bind os p w = (Inr r, w')" "shm_map_layout r = r"
    "name r = bp_name p" "slot_count r = bp_slot_count p" "max_payload r = bp_max_payload p"
    "is_server_role r" "is_creator r" "ns w' (bp_name p) = Some (obj r)"
    "objs w' (obj r) = replicate (64 + 2 * slot_count r * (4 + max_payload r)) 0"
    "mapping_size r = 64 + 2 * slot_count r * (4 + max_payload r)"
    "\<And>k. k \<noteq> obj r \<Longrightarrow> objs w' k = objs w k"
    "\<And>n. n \<noteq> bp_name p \<Longrightarrow> ns w' n = ns w n"
    "obj r = (case ns w (bp_name p) of Some k \<Rightarrow> k | None \<Rightarrow> next_obj w)"
proof -
  let ?sz = "shm_region_size (bp_slot_count p) (bp_max_payload p)"
  define k where "k = (case ns w (bp_name p) of Some k \<Rightarrow> k | None \<Rightarrow> next_obj w)"
  define r where "r = shm_map_layout \<lparr>is_creator = True, name = bp_name p,
     slot_count = bp_slot_count p, max_payload = bp_max_payload p, obj = k, mapping_size = ?sz,
     req_head = 0, req_tail = 0, rep_head = 0, rep_tail = 0, req_slots = 0, rep_slots = 0,
     slot_stride = 0, is_server_role = True\<rparr>"
  define w' where "w' = (case ns w (bp_name p) of
      Some _ \<Rightarrow> w\<lparr>objs := (objs w)(k := shm_init_control r (replicate ?sz 0))\<rparr>
    | None \<Rightarrow> w\<lparr>ns := (ns w)(bp_name p := Some k), next_obj := Suc (next_obj w),
        objs := (objs w)(k := shm_init_control r (replicate ?sz 0))\<rparr>)"
  have lay: "shm_map_layout r = r" by (simp add: r_def map_layout_idem)
  have f: "name r = bp_name p" "slot_count r = bp_slot_count p" "max_payload r = bp_max_payload p"
    "is_server_role r" "is_creator r" "obj r = k" "mapping_size r = ?sz"
    by (simp_all add: r_def shm_map_layout_def Let_def)
  have sz: "?sz = 64 + 2 * slot_count r * (4 + max_payload r)"
    using region_size_nowrap [OF assms(3)] f by simp
  have bound: "shm_bind os p w = (Inr r, w')"
    using assms(1,2)
    by (auto simp: shm_bind_def w'_def r_def k_def Let_def split: option.splits)
  have zero: "shm_init_control r (replicate ?sz 0) = replicate ?sz 0"
    by (rule init_control_zero [OF lay]) (simp add: sz)
  show ?thesis
    by (rule that [OF bound lay]) (use f sz zero in \<open>auto simp: w'_def k_def split: option.splits\<close>)
qed

lemma bind_join:
  assumes "shm_os_ok os" "\<not> bp_create p" "ns w (bp_name p) = Some k"
  obtains c where "shm_bind os p w = (Inr c, w)" "shm_map_layout c = c" "obj c = k"
    "name c = bp_name p" "slot_count c = bp_slot_count p" "max_payload c = bp_max_payload p"
    "\<not> is_server_role c" "\<not> is_creator c"
  using assms by (intro that) (auto simp: shm_bind_def shm_map_layout_def Let_def)

section \<open>Properties of the shared-memory transport\<close>

text \<open>
  C31: the two ends of a fresh ring meet. When the kernel calls succeed and the size does not
  overflow, the creating side gets a region over the object registered under the name, every byte
  of which is zero whatever it held before, of the size that two rings of the given geometry and
  the control block take, with both queues empty; a side that then joins the name with the same
  geometry maps the same object, sees the same queues and changes nothing. No other object or name
  is touched, and an object that had the name already is kept.
\<close>

theorem shm_bind_pair:
  assumes "shm_os_ok os" "bp_create p" "bind_ok p" "q = p\<lparr>bp_create := False\<rparr>"
  shows "\<exists>r c w'. shm_bind os p w = (Inr r, w') \<and> shm_bind os q w' = (Inr c, w')
    \<and> obj c = obj r \<and> ns w' (bp_name p) = Some (obj r)
    \<and> objs w' (obj r) = replicate (64 + 2 * bp_slot_count p * (4 + bp_max_payload p)) 0
    \<and> (\<forall>k. ns w (bp_name p) = Some k \<longrightarrow> obj r = k)
    \<and> is_server_role r \<and> \<not> is_server_role c
    \<and> region_inv r (objs w' (obj r)) \<and> region_inv c (objs w' (obj c))
    \<and> dir_ring side c = dir_ring side r \<and> ring_items (dir_ring side r) (objs w' (obj r)) = []
    \<and> (\<forall>k. k \<noteq> obj r \<longrightarrow> objs w' k = objs w k) \<and> (\<forall>n. n \<noteq> bp_name p \<longrightarrow> ns w' n = ns w n)"
proof -
  from bind_create [OF assms(1-3), of w] obtain r w' where r:
    "shm_bind os p w = (Inr r, w')" "shm_map_layout r = r" "slot_count r = bp_slot_count p"
    "max_payload r = bp_max_payload p" "is_server_role r" "ns w' (bp_name p) = Some (obj r)"
    "objs w' (obj r) = replicate (64 + 2 * slot_count r * (4 + max_payload r)) 0"
    "\<And>k. k \<noteq> obj r \<Longrightarrow> objs w' k = objs w k" "\<And>n. n \<noteq> bp_name p \<Longrightarrow> ns w' n = ns w n"
    "obj r = (case ns w (bp_name p) of Some k \<Rightarrow> k | None \<Rightarrow> next_obj w)"
    by metis
  have zero: "objs w' (obj r) = replicate (64 + 2 * bp_slot_count p * (4 + bp_max_payload p)) 0"
    and kept: "\<forall>k. ns w (bp_name p) = Some k \<longrightarrow> obj r = k"
    using r(3,4,7,10) by simp_all
  have "ns w' (bp_name q) = Some (obj r)" using r(6) assms(4) by simp
  from bind_join [OF assms(1) _ this] assms(4) obtain c where c:
    "shm_bind os q w' = (Inr c, w')" "shm_map_layout c = c" "obj c = obj r"
    "slot_count c = slot_count r" "max_payload c = max_payload r" "\<not> is_server_role c"
    using r(3,4) by auto
  have "region_inv r (objs w' (obj r))" "ring_items (dir_ring side r) (objs w' (obj r)) = []"
    using zero_region_inv [OF r(2) _ _ _ r(7)] assms(3) r(3,4) by (auto simp: bind_ok_def)
  moreover have "region_inv c (objs w' (obj c))"
    using zero_region_inv(1) [OF c(2), of "objs w' (obj r)"] assms(3) r(3,4,7) c(3,4,5)
    by (simp add: bind_ok_def)
  moreover have "dir_ring side c = dir_ring side r"
    using map_layout_fields [OF c(2)] map_layout_fields [OF r(2)] c(4,5)
    by (simp add: dir_ring_def req_ring_def rep_ring_def)
  ultimately show ?thesis using r(1,5,6,8,9) c(1,3,6) zero kept by blast
qed

definition empty_world :: ShmWorld where
  "empty_world = \<lparr>ns = (\<lambda>_. None), objs = (\<lambda>_. []), next_obj = 0\<rparr>"

definition demo_params :: ShmBindParams where
  "demo_params = ShmBindParams_default\<lparr>bp_name := ''/rim_router_sensor'', bp_create := True\<rparr>"

lemma demo_params_ok: "bp_create demo_params" "bind_ok demo_params"
  by (simp_all add: demo_params_def ShmBindParams_default_def bind_ok_def)

theorem shm_bind_pair_witness:
  "\<exists>r c w'. shm_bind \<lparr>shm_open_ok = True, ftruncate_ok = True, mmap_ok = True\<rparr> demo_params empty_world
       = (Inr r, w')
     \<and> shm_bind \<lparr>shm_open_ok = True, ftruncate_ok = True, mmap_ok = True\<rparr>
         (demo_params\<lparr>bp_create := False\<rparr>) w' = (Inr c, w')
     \<and> obj c = obj r \<and> region_inv r (objs w' (obj r))"
proof -
  have "shm_os_ok \<lparr>shm_open_ok = True, ftruncate_ok = True, mmap_ok = True\<rparr>"
    by simp
  from shm_bind_pair [OF this demo_params_ok refl, of empty_world True]
  show ?thesis by blast
qed

text \<open>
  C18: one direction of a region is a lossless bounded queue. Over any sequence of non-blocking
  sends and receives, the messages waiting at the start followed by the accepted ones (each cut
  to \<open>max_payload\<close> bytes) are exactly the delivered ones followed by those still waiting, in
  order; never more than \<open>slot_count\<close> wait, and the region stays well formed. The head counter
  must not reach the end of its 64-bit range.
\<close>

theorem shm_fifo:
  assumes "region_inv r m" "hd_pos (dir_ring side r) m + length ops < 2 ^ 64"
    "run_ops (send_msg side) (recv_msg side) ops (r, m) = (acc, del, (r', m'))"
  shows "r' = r \<and> region_inv r m'
    \<and> ring_items (dir_ring side r) m @ map (take (max_payload r)) acc
        = del @ ring_items (dir_ring side r) m'
    \<and> length (ring_items (dir_ring side r) m') \<le> slot_count r"
proof -
  have "r' = r" by (rule run_ops_region [OF assms(3)])
  moreover have "length ops \<le> 2 ^ 64 - 1 - hd_pos (dir_ring side r) m" using assms(2) by simp
  ultimately show ?thesis
    using shm_dir.fifo [of "(r, m)" ops side acc del "(r', m')"] assms by simp
qed

text \<open>A region with two slots of eight bytes, zeroed.\<close>

definition demo_region :: ShmRegion where
  "demo_region = shm_map_layout \<lparr>is_creator = True, name = ''/d'', slot_count = 2, max_payload = 8,
     obj = 0, mapping_size = 112, req_head = 0, req_tail = 0, rep_head = 0, rep_tail = 0,
     req_slots = 0, rep_slots = 0, slot_stride = 0, is_server_role = True\<rparr>"

definition demo_mem :: bytes where
  "demo_mem = replicate 112 0"

lemma demo_region_ok:
  "region_inv demo_region demo_mem" "ring_items (dir_ring side demo_region) demo_mem = []"
  "hd_pos (dir_ring side demo_region) demo_mem = 0"
proof -
  have lay: "shm_map_layout demo_region = demo_region" by (simp add: demo_region_def map_layout_idem)
  have dims: "slot_count demo_region = 2" "max_payload demo_region = 8"
    by (simp_all add: demo_region_def shm_map_layout_def Let_def)
  show "region_inv demo_region demo_mem" "ring_items (dir_ring side demo_region) demo_mem = []"
    "hd_pos (dir_ring side demo_region) demo_mem = 0"
    using zero_region_inv [OF lay, of demo_mem] dims by (simp_all add: demo_mem_def)
qed

theorem shm_fifo_witness:
  "\<exists>acc del m'. run_ops (send_msg True) (recv_msg True) [Push [1, 2], Push [3], Push [4], Pop, Pop, Pop]
      (demo_region, demo_mem) = (acc, del, (demo_region, m'))
    \<and> map (take (max_payload demo_region)) acc = del @ ring_items (dir_ring True demo_region) m'"
proof -
  let ?ops = "[Push [1, 2], Push [3], Push [4], Pop, Pop, Pop] :: bytes qop list"
  obtain acc del r' m' where run: "run_ops (send_msg True) (recv_msg True) ?ops (demo_region, demo_mem)
      = (acc, del, (r', m'))"
    by (rule prod_cases3) (metis surj_pair)
  have "hd_pos (dir_ring True demo_region) demo_mem + length ?ops < 2 ^ 64"
    by (simp add: demo_region_ok)
  from shm_fifo [OF demo_region_ok(1) this run] show ?thesis
    unfolding demo_region_ok(2) append_Nil using run by blast
qed

lemma run_ops_Cons:
  assumes "run_ops push pop [op] s = (acc1, del1, s1)" "run_ops push pop (op # ops) s = (acc, del, s')"
  obtains acc2 del2 where "run_ops push pop ops s1 = (acc2, del2, s')"
  using assms by (cases op) (auto split: prod.splits)

lemma shm_op_isolated:
  assumes "region_inv r m" "hd_pos (dir_ring side r) m + 1 < 2 ^ 64"
    "run_ops (send_msg side) (recv_msg side) [op] (r, m) = (acc, del, (r', m'))"
  shows "region_inv r m' \<and> hd_pos (dir_ring side r) m' \<le> hd_pos (dir_ring side r) m + 1
    \<and> ring_items (dir_ring (\<not> side) r) m' = ring_items (dir_ring (\<not> side) r) m
    \<and> hd_pos (dir_ring (\<not> side) r) m' = hd_pos (dir_ring (\<not> side) r) m
    \<and> tl_pos (dir_ring (\<not> side) r) m' = tl_pos (dir_ring (\<not> side) r) m
    \<and> length m' = length m"
proof (cases op)
  case op: (Push x)
  note inv = region_inv_dir [OF assms(1), of side]
  show ?thesis
  proof (cases "length (ring_items (dir_ring side r) m) < slot_count r")
    case True
    let ?R = "dir_ring side r" and ?Q = "dir_ring (\<not> side) r"
    from region_push [OF assms(1) opposite_dir buffer_ok_views(1) True assms(2), of x]
    obtain m1 where m1: "shm_try_push_slot ?R (Buffer_read_only x) m = (True, m1)"
      "length m1 = length m" "region_inv r m1" "hd_pos ?R m1 = hd_pos ?R m + 1"
      "ring_items ?Q m1 = ring_items ?Q m" "hd_pos ?Q m1 = hd_pos ?Q m" "tl_pos ?Q m1 = tl_pos ?Q m"
      by metis
    have "m' = m1" using assms(3) m1(1) by (simp add: op send_msg_eq)
    with m1 show ?thesis by simp
  next
    case False
    then have "length (ring_items (dir_ring side r) m) = ring_count (dir_ring side r)"
      using inv by (simp add: ring_inv_def)
    from push_rejects [OF inv this, of "Buffer_read_only x"] assms(1,3)
    show ?thesis by (simp add: op send_msg_eq)
  qed
next
  case op: Pop
  note inv = region_inv_dir [OF assms(1), of side]
  let ?buf = "Buffer_writable (replicate (max_payload r) 0)"
  let ?R = "dir_ring side r" and ?Q = "dir_ring (\<not> side) r"
  show ?thesis
  proof (cases "ring_items (dir_ring side r) m")
    case Nil
    from pop_empty [OF inv this, of ?buf] assms(1,3) show ?thesis by (simp add: op recv_msg_eq)
  next
    case (Cons y ys)
    have "length y \<le> capacity ?buf"
      using item_length [OF inv, of y] Cons by (simp add: Buffer_writable_def)
    from region_pop [OF assms(1) opposite_dir Cons buffer_ok_views(2) this]
    obtain b m1 where m1: "shm_try_pop_slot ?R ?buf m = Inr (True, b, m1)"
      "length m1 = length m" "region_inv r m1" "hd_pos ?R m1 = hd_pos ?R m"
      "ring_items ?Q m1 = ring_items ?Q m" "hd_pos ?Q m1 = hd_pos ?Q m" "tl_pos ?Q m1 = tl_pos ?Q m"
      by metis
    have "m' = m1" using assms(3) m1(1) by (simp add: op recv_msg_eq)
    with m1 show ?thesis by simp
  qed
qed

text \<open>
  The two directions of a region do not interfere. No sequence of sends and receives in one
  direction changes the messages waiting in the other or its counters, and the size of the mapped
  memory never changes: no operation writes past the mapping.
\<close>

lemma shm_directions_isolated:
  assumes "region_inv r m" "hd_pos (dir_ring side r) m + length ops < 2 ^ 64"
    "run_ops (send_msg side) (recv_msg side) ops (r, m) = (acc, del, (r', m'))"
  shows "ring_items (dir_ring (\<not> side) r) m' = ring_items (dir_ring (\<not> side) r) m
    \<and> hd_pos (dir_ring (\<not> side) r) m' = hd_pos (dir_ring (\<not> side) r) m
    \<and> tl_pos (dir_ring (\<not> side) r) m' = tl_pos (dir_ring (\<not> side) r) m
    \<and> length m' = length m"
  using assms
proof (induction ops arbitrary: m acc del)
  case (Cons op ops)
  obtain acc1 del1 r1 m1 where one: "run_ops (send_msg side) (recv_msg side) [op] (r, m) = (acc1, del1, (r1, m1))"
    by (rule prod_cases3) (metis surj_pair)
  have "r1 = r" by (rule run_ops_region [OF one])
  note one = one [unfolded this]
  obtain acc2 del2 where rest: "run_ops (send_msg side) (recv_msg side) ops (r, m1) = (acc2, del2, (r', m'))"
    by (rule run_ops_Cons [OF one Cons.prems(3)])
  have b: "hd_pos (dir_ring side r) m + 1 < 2 ^ 64" using Cons.prems(2) by simp
  note iso = shm_op_isolated [OF Cons.prems(1) b one]
  have "hd_pos (dir_ring side r) m1 + length ops < 2 ^ 64" using iso Cons.prems(2) by simp
  from Cons.IH [OF _ this rest] iso show ?case by simp
qed simp

lemma shm_directions_isolated_witness:
  "\<exists>acc del r' m'. run_ops (send_msg True) (recv_msg True) [Push [1], Pop] (demo_region, demo_mem)
      = (acc, del, (r', m')) \<and> ring_items (dir_ring False demo_region) m' = []"
proof -
  obtain acc del r' m' where run: "run_ops (send_msg True) (recv_msg True) [Push [1], Pop]
      (demo_region, demo_mem) = (acc, del, (r', m'))"
    by (rule prod_cases3) (metis surj_pair)
  have "hd_pos (dir_ring True demo_region) demo_mem + length [Push [1 :: u8], Pop] < 2 ^ 64"
    by (simp add: demo_region_ok)
  from shm_directions_isolated [OF demo_region_ok(1) this run]
  have "ring_items (dir_ring False demo_region) m' = []" by (simp add: demo_region_ok)
  with run show ?thesis by blast
qed

section \<open>Blocking operations\<close>

text \<open>The memory before attempt \<open>j + k\<close> of a loop whose attempts so far changed nothing.\<close>

fun spin :: "(nat \<Rightarrow> bytes \<Rightarrow> bytes) \<Rightarrow> nat \<Rightarrow> nat \<Rightarrow> bytes \<Rightarrow> bytes" where
  "spin env j 0 m = m"
| "spin env j (Suc k) m = spin env (Suc j) k (env j m)"

lemma try_push_fails: "shm_try_push_slot R pl m = (False, m') \<Longrightarrow> m' = m"
  by (auto simp: shm_try_push_slot_def Let_def split: if_splits)

lemma push_slot_returns:
  "\<lbrakk>\<And>i. i < k \<Longrightarrow> \<not> fst (shm_try_push_slot R pl (spin env j i m));
    shm_try_push_slot R pl (spin env j k m) = (True, m')\<rbrakk> \<Longrightarrow>
   shm_push_slot env j R pl m = Some m'"
proof (induction k arbitrary: j m)
  case 0
  then show ?case by (simp add: shm_push_slot.simps)
next
  case (Suc k)
  obtain b n where att: "shm_try_push_slot R pl m = (b, n)" by fastforce
  with Suc.prems(1) [of 0] have "\<not> b" by simp
  with att have n: "n = m" "\<not> b" by (auto dest: try_push_fails)
  have "\<not> fst (shm_try_push_slot R pl (spin env (Suc j) i (env j m)))" if "i < k" for i
    using Suc.prems(1) [of "Suc i"] that by simp
  then have "shm_push_slot env (Suc j) R pl (env j m) = Some m'"
    using Suc.prems(2) by (intro Suc.IH) simp_all
  then show ?case using att n by (subst shm_push_slot.simps) simp
qed

lemma push_slot_returned:
  "shm_push_slot env j R pl m = Some m' \<Longrightarrow>
   \<exists>k. (\<forall>i<k. \<not> fst (shm_try_push_slot R pl (spin env j i m)))
     \<and> shm_try_push_slot R pl (spin env j k m) = (True, m')"
proof (induction rule: shm_push_slot.raw_induct [rotated, consumes 1, case_names step])
  case (step push env j R pl m m')
  obtain b n where att: "shm_try_push_slot R pl m = (b, n)" by fastforce
  show ?case
  proof (cases b)
    case True
    then show ?thesis using step(2) att by (intro exI [of _ 0]) simp
  next
    case False
    then have n: "n = m" using att by (auto dest: try_push_fails)
    then obtain k where k: "\<forall>i<k. \<not> fst (shm_try_push_slot R pl (spin env (Suc j) i (env j m)))"
      "shm_try_push_slot R pl (spin env (Suc j) k (env j m)) = (True, m')"
      using step(1) [of env "Suc j" R pl "env j n" m'] step(2) att False by (simp add: Let_def) blast
    have "\<not> fst (shm_try_push_slot R pl (spin env j i m))" if "i < Suc k" for i
      using that k(1) att False by (cases i) simp_all
    then show ?thesis using k(2) by (intro exI [of _ "Suc k"]) simp
  qed
qed

text \<open>What the other processes may do to a region while a producer spins: anything that keeps it well formed and its head.\<close>

definition spares_head :: "bool \<Rightarrow> ShmRegion \<Rightarrow> (nat \<Rightarrow> bytes \<Rightarrow> bytes) \<Rightarrow> bool" where
  "spares_head side r env \<longleftrightarrow> (\<forall>i m. region_inv r m \<longrightarrow> region_inv r (env i m)
     \<and> hd_pos (dir_ring side r) (env i m) = hd_pos (dir_ring side r) m)"

lemma spin_spares:
  "spares_head side r env \<Longrightarrow> region_inv r m \<Longrightarrow>
   region_inv r (spin env j k m) \<and> hd_pos (dir_ring side r) (spin env j k m) = hd_pos (dir_ring side r) m"
  by (induction k arbitrary: j m) (simp_all add: spares_head_def)

lemma try_push_iff_room:
  assumes "region_inv r m" "buffer_ok pl" "hd_pos (dir_ring side r) m + 1 < 2 ^ 64"
  shows "fst (shm_try_push_slot (dir_ring side r) pl m) \<longleftrightarrow> length (ring_items (dir_ring side r) m) < slot_count r"
proof (cases "length (ring_items (dir_ring side r) m) < slot_count r")
  case True
  from region_push [OF assms(1) opposite_dir assms(2) True assms(3)] show ?thesis using True by (metis fst_conv)
next
  case False
  note inv = region_inv_dir [OF assms(1), of side]
  have "length (ring_items (dir_ring side r) m) = ring_count (dir_ring side r)"
    using False inv by (simp add: ring_inv_def)
  from push_rejects [OF inv this, of pl] False show ?thesis by simp
qed

text \<open>
  C30: \<open>ShmSpsc::send\<close> waits for room. While other processes consume, or do anything else to a
  bound region that leaves it well formed and its head to the producer, the call returns exactly if
  before some attempt fewer than \<open>slot_count\<close> messages wait in the ring of the sender's direction; if
  that is full at every attempt (a stalled consumer) it never returns. When it returns, the message
  (cut to \<open>max_payload\<close>) has been appended behind those that waited at the first such attempt, and the
  other direction is as it was then.
\<close>

theorem send_returns_iff_room:
  assumes "region_inv r m" "side = is_server_role r" "spares_head side r env" "buffer_ok pl"
    "hd_pos (dir_ring side r) m + 1 < 2 ^ 64"
  shows "((\<exists>m'. ShmSpsc_send env (Some r) pl m = Some (Inr m'))
        \<longleftrightarrow> (\<exists>k. length (ring_items (dir_ring side r) (spin env 0 k m)) < slot_count r))
    \<and> (\<forall>m'. ShmSpsc_send env (Some r) pl m = Some (Inr m') \<longrightarrow>
        (\<exists>k. (\<forall>i<k. length (ring_items (dir_ring side r) (spin env 0 i m)) = slot_count r)
          \<and> ring_items (dir_ring side r) m'
              = ring_items (dir_ring side r) (spin env 0 k m) @ [take (max_payload r) (buffer_bytes pl)]
          \<and> ring_items (dir_ring (\<not> side) r) m' = ring_items (dir_ring (\<not> side) r) (spin env 0 k m)
          \<and> region_inv r m'))"
proof -
  let ?R = "dir_ring side r" and ?s = "\<lambda>k. spin env 0 k m"
  have tx: "tx_ring r = ?R" by (simp add: tx_ring_def dir_ring_def assms(2))
  have at: "region_inv r (?s k)" "hd_pos ?R (?s k) + 1 < 2 ^ 64" for k
    using spin_spares [OF assms(3,1), of 0 k] assms(5) by simp_all
  note room = try_push_iff_room [OF at(1) assms(4) at(2)]
  have full: "length (ring_items ?R (?s k)) = slot_count r" if "\<not> length (ring_items ?R (?s k)) < slot_count r" for k
    using that region_inv_dir [OF at(1) [of k], of side] by (simp add: ring_inv_def)
  have sent: "ShmSpsc_send env (Some r) pl m = Some (Inr m') \<longleftrightarrow>
      (\<exists>k. (\<forall>i<k. \<not> fst (shm_try_push_slot ?R pl (?s i))) \<and> shm_try_push_slot ?R pl (?s k) = (True, m'))" for m'
    using push_slot_returns [of _ ?R pl env 0 m m'] push_slot_returned [of env 0 ?R pl m m']
    by (auto simp: ShmSpsc_send_def tx)
  have push: "length (ring_items ?R (?s k)) < slot_count r \<and> ring_items ?R m' = ring_items ?R (?s k) @ [take (max_payload r) (buffer_bytes pl)]
      \<and> ring_items (dir_ring (\<not> side) r) m' = ring_items (dir_ring (\<not> side) r) (?s k) \<and> region_inv r m'"
    if put: "shm_try_push_slot ?R pl (?s k) = (True, m')" for k m'
  proof -
    have free: "length (ring_items ?R (?s k)) < slot_count r" using room [of k] put by simp
    from region_push [OF at(1) opposite_dir assms(4) free at(2)] put free show ?thesis
      by (metis Pair_inject clip_def dir_ring_simps(2))
  qed
  have "\<exists>m'. ShmSpsc_send env (Some r) pl m = Some (Inr m')" if "length (ring_items ?R (?s k)) < slot_count r" for k
  proof -
    let ?P = "\<lambda>k. length (ring_items ?R (?s k)) < slot_count r"
    define n where "n = (LEAST k. ?P k)"
    have "?P n" unfolding n_def by (rule LeastI [where P = ?P, OF that])
    then have "fst (shm_try_push_slot ?R pl (?s n))" by (simp only: room)
    then obtain m' where "shm_try_push_slot ?R pl (?s n) = (True, m')" by (cases "shm_try_push_slot ?R pl (?s n)") simp
    moreover have "\<not> fst (shm_try_push_slot ?R pl (?s i))" if "i < n" for i
      unfolding room by (rule not_less_Least [where P = ?P]) (use that n_def in simp)
    ultimately show ?thesis unfolding sent by blast
  qed
  moreover have "length (ring_items ?R (?s k)) < slot_count r" if "shm_try_push_slot ?R pl (?s k) = (True, m')" for k m'
    using push [OF that] by (rule conjunct1)
  moreover have "\<forall>i<k. length (ring_items ?R (?s i)) = slot_count r" if "\<forall>i<k. \<not> fst (shm_try_push_slot ?R pl (?s i))" for k
    using that full unfolding room by simp
  ultimately show ?thesis unfolding sent using push by (intro conjI iffI allI impI) meson+
qed

text \<open>A consumer that takes one message after each failed attempt.\<close>

definition take_one :: "bool \<Rightarrow> ShmRegion \<Rightarrow> nat \<Rightarrow> bytes \<Rightarrow> bytes" where
  "take_one side r i m = (case shm_try_pop_slot (dir_ring side r) (Buffer_writable (replicate (max_payload r) 0)) m of
     Inl _ \<Rightarrow> m | Inr (_, _, m') \<Rightarrow> m')"

lemma take_one_effect:
  assumes "region_inv r m"
  shows "region_inv r (take_one side r i m) \<and> hd_pos (dir_ring side r) (take_one side r i m) = hd_pos (dir_ring side r) m
    \<and> ring_items (dir_ring side r) (take_one side r i m) = tl (ring_items (dir_ring side r) m)"
proof (cases "ring_items (dir_ring side r) m")
  case Nil
  from pop_empty [OF region_inv_dir [OF assms] Nil] assms Nil show ?thesis by (simp add: take_one_def)
next
  case (Cons x xs)
  have "length x \<le> capacity (Buffer_writable (replicate (max_payload r) 0))"
    using item_length [OF region_inv_dir [OF assms, of side], of x] Cons by (simp add: Buffer_writable_def)
  from region_pop [OF assms opposite_dir Cons buffer_ok_views(2) this]
  obtain b m' where "shm_try_pop_slot (dir_ring side r) (Buffer_writable (replicate (max_payload r) 0)) m = Inr (True, b, m')"
    "region_inv r m'" "ring_items (dir_ring side r) m' = xs" "hd_pos (dir_ring side r) m' = hd_pos (dir_ring side r) m"
    by metis
  then show ?thesis by (simp add: take_one_def Cons)
qed

theorem send_returns_iff_room_witness:
  "\<exists>m m'. ring_items (dir_ring True demo_region) m = [[1], [2]]
    \<and> ShmSpsc_send (\<lambda>_ m. m) (Some demo_region) (Buffer_read_only [3]) m = None
    \<and> ShmSpsc_send (take_one True demo_region) (Some demo_region) (Buffer_read_only [3]) m = Some (Inr m')"
proof -
  let ?R = "dir_ring True demo_region"
  have dims: "slot_count demo_region = 2" "max_payload demo_region = 8" "is_server_role demo_region"
    by (simp_all add: demo_region_def shm_map_layout_def Let_def)
  obtain m1 where m1: "region_inv demo_region m1" "ring_items ?R m1 = [[1]]" "hd_pos ?R m1 = 1"
    by (rule region_push [OF demo_region_ok(1) opposite_dir buffer_ok_views(1), of True "[1]"])
      (use dims that in \<open>simp_all add: demo_region_ok clip_def\<close>)
  obtain m where m: "region_inv demo_region m" "ring_items ?R m = [[1], [2]]" "hd_pos ?R m = 2"
    by (rule region_push [OF m1(1) opposite_dir buffer_ok_views(1), of True "[2]"])
      (use dims that m1(2,3) in \<open>simp_all add: clip_def\<close>)
  have env: "spares_head True demo_region (\<lambda>_ m. m)" "spares_head True demo_region (take_one True demo_region)"
    using take_one_effect by (simp_all add: spares_head_def)
  have role: "True = is_server_role demo_region" and pos: "hd_pos ?R m + 1 < 2 ^ 64" using dims m(3) by simp_all
  have "spin (\<lambda>_ m. m) j k m = m" for j k by (induction k arbitrary: j) simp_all
  with send_returns_iff_room [OF m(1) role env(1) buffer_ok_views(1) pos, of "[3]"]
  have "\<not> (\<exists>m'. ShmSpsc_send (\<lambda>_ m. m) (Some demo_region) (Buffer_read_only [3]) m = Some (Inr m'))"
    using m(2) dims(1) by simp
  then have "ShmSpsc_send (\<lambda>_ m. m) (Some demo_region) (Buffer_read_only [3]) m = None"
    by (cases "shm_push_slot (\<lambda>_ m. m) 0 (tx_ring demo_region) (Buffer_read_only [3]) m") (simp_all add: ShmSpsc_send_def)
  moreover have "length (ring_items ?R (spin (take_one True demo_region) 0 1 m)) < slot_count demo_region"
    using take_one_effect [OF m(1), of True 0] m(2) dims(1) by simp
  with send_returns_iff_room [OF m(1) role env(2) buffer_ok_views(1) pos, of "[3]"]
  have "\<exists>m'. ShmSpsc_send (take_one True demo_region) (Some demo_region) (Buffer_read_only [3]) m = Some (Inr m')" by blast
  ultimately show ?thesis using m(2) by blast
qed

section \<open>A message the receiver cannot take\<close>

definition push_all :: "Ring \<Rightarrow> Buffer list \<Rightarrow> bytes \<Rightarrow> bytes" where
  "push_all R bs m = foldl (\<lambda>m b. snd (shm_try_push_slot R b m)) m bs"

lemma push_keeps_prefix:
  assumes "ring_inv R m" "buffer_ok b" "hd_pos R m + 1 < 2 ^ 64"
  shows "ring_inv R (snd (shm_try_push_slot R b m))
    \<and> (\<exists>ys. ring_items R (snd (shm_try_push_slot R b m)) = ring_items R m @ ys)
    \<and> hd_pos R (snd (shm_try_push_slot R b m)) \<le> hd_pos R m + 1"
proof (cases "length (ring_items R m) < ring_count R")
  case True
  from push_accepts [OF assms(1,2) True assms(3)] obtain m' where
    "shm_try_push_slot R b m = (True, m')" "ring_inv R m'"
    "ring_items R m' = ring_items R m @ [clip R b]" "hd_pos R m' = hd_pos R m + 1"
    by metis
  then show ?thesis by simp
next
  case False
  then have "length (ring_items R m) = ring_count R" using assms(1) by (simp add: ring_inv_def)
  from push_rejects [OF assms(1) this, of b] show ?thesis using assms(1) by simp
qed

lemma push_all_prefix:
  assumes "ring_inv R m" "\<forall>b\<in>set bs. buffer_ok b" "hd_pos R m + length bs < 2 ^ 64"
  shows "ring_inv R (push_all R bs m) \<and> (\<exists>ys. ring_items R (push_all R bs m) = ring_items R m @ ys)"
  using assms
proof (induction bs arbitrary: m)
  case (Cons b bs)
  let ?m = "snd (shm_try_push_slot R b m)"
  have p: "ring_inv R ?m" "\<exists>ys. ring_items R ?m = ring_items R m @ ys" "hd_pos R ?m \<le> hd_pos R m + 1"
    using push_keeps_prefix [OF Cons.prems(1), of b] Cons.prems(2,3) by auto
  have "hd_pos R ?m + length bs < 2 ^ 64" using p(3) Cons.prems(3) by simp
  from Cons.IH [OF p(1) _ this] Cons.prems(2) p(2) show ?case
    by (auto simp: push_all_def)
qed (simp add: push_all_def)

text \<open>
  C34: a message longer than the receiver's buffer blocks its direction for good. Receiving it
  raises and leaves it at the front; whatever the producer sends afterwards, every later receive
  with a buffer of that capacity raises again, and the messages behind it stay out of reach.
\<close>

theorem oversized_message_blocks:
  assumes "ring_inv R m" "ring_items R m = x # xs" "capacity buf < length x"
    "\<forall>b\<in>set bs. buffer_ok b" "hd_pos R m + length bs < 2 ^ 64"
  shows "shm_try_pop_slot R buf (push_all R bs m) = Inl (RuntimeError ''shm recv buffer too small'')"
proof -
  from push_all_prefix [OF assms(1,4,5)] obtain ys where
    "ring_inv R (push_all R bs m)" "ring_items R (push_all R bs m) = x # (xs @ ys)"
    using assms(2) by auto
  from pop_unfold(2) [OF this, of buf] assms(3) show ?thesis by simp
qed

theorem oversized_message_blocks_witness:
  "\<exists>m. shm_try_pop_slot (dir_ring False demo_region) (Buffer_writable [0])
     (push_all (dir_ring False demo_region) [Buffer_read_only [1]] m)
     = Inl (RuntimeError ''shm recv buffer too small'')"
proof -
  let ?R = "dir_ring False demo_region"
  have room: "length (ring_items ?R demo_mem) < slot_count demo_region" "hd_pos ?R demo_mem + 1 < 2 ^ 64"
    by (simp_all add: demo_region_ok) (simp add: demo_region_def shm_map_layout_def Let_def)
  from region_push [OF demo_region_ok(1) opposite_dir buffer_ok_views(1) room, of "[1, 2]"]
  obtain m where m: "region_inv demo_region m" "hd_pos ?R m = hd_pos ?R demo_mem + 1"
    "ring_items ?R m = ring_items ?R demo_mem @ [clip ?R (Buffer_read_only [1, 2])]"
    by metis
  have items: "ring_items ?R m = [[1, 2]]"
    using m(3) by (simp add: demo_region_ok clip_def) (simp add: demo_region_def shm_map_layout_def Let_def)
  have "capacity (Buffer_writable [0]) < length [1, 2 :: u8]" by (simp add: Buffer_writable_def)
  moreover have "hd_pos ?R m + length [Buffer_read_only [1]] < 2 ^ 64" using m(2) by (simp add: demo_region_ok)
  ultimately show ?thesis
    using oversized_message_blocks [OF region_inv_dir [OF m(1)] items,
        of "Buffer_writable [0]" "[Buffer_read_only [1]]"] buffer_ok_views(1)
    by auto
qed

section \<open>Corner cases of the layout\<close>

text \<open>
  The fill level is computed modulo \<open>2 ^ 64\<close> but emptiness is tested with \<open>t >= h\<close>: when the
  head has wrapped and the tail has not, a waiting message is not seen.
\<close>

lemma pop_blind_at_wrap:
  assumes "load_u64 (tail R) m = -1" "load_u64 (head R) m = 0"
  shows "unat (load_u64 (head R) m - load_u64 (tail R) m) = 1"
    "shm_try_pop_slot R buf m = Inr (False, buf, m)"
  using assms by (simp_all add: shm_try_pop_slot_def)

text \<open>
  The length prefix is an \<open>atomic<uint32_t>\<close>. The mapping starts on a page, so every prefix is
  aligned exactly when the maximal payload is a multiple of four.
\<close>

lemma slot_prefix_aligned_iff:
  assumes "region_geom r m" "2 \<le> slot_count r"
  shows "(\<forall>i < slot_count r. 4 dvd slot_addr (req_ring r) i) \<longleftrightarrow> 4 dvd max_payload r"
proof
  assume "\<forall>i < slot_count r. 4 dvd slot_addr (req_ring r) i"
  then have "4 dvd slot_addr (req_ring r) 1" using assms(2) by simp
  then have "4 dvd 68 + max_payload r"
    by (simp add: slot_addr_def region_layout [OF assms(1)])
  then show "4 dvd max_payload r" by presburger
next
  assume "4 dvd max_payload r"
  then show "\<forall>i < slot_count r. 4 dvd slot_addr (req_ring r) i"
    by (simp add: slot_addr_def region_layout [OF assms(1)])
qed

end
