(* ===== verification/ShmConc.thy ===== *)
theory ShmConc
  imports ShmSpsc
begin

text \<open>
  The ring of \<open>ipc/src/ipc/shm_spsc.hpp\<close> with its two processes running at the same time.
  \<open>shm_try_push_slot\<close> and \<open>shm_try_pop_slot\<close> are cut into their accesses to shared memory: each
  load and store of an atomic cell is one step, and \<open>memcpy\<close> is one step per byte. The points
  between the steps are constructors that carry the local variables. The steps of producer and
  consumer interleave arbitrarily on one memory.
\<close>

section \<open>The steps of a push\<close>

datatype producer = PStart Buffer | PHead Buffer u64 | PCopy Buffer u64 nat | PPublish Buffer u64 | PDone bool

abbreviation push_len :: "Ring \<Rightarrow> Buffer \<Rightarrow> nat" where
  "push_len R pl \<equiv> if buf_size pl < ring_max R then buf_size pl else ring_max R"

abbreviation slot_at :: "Ring \<Rightarrow> u64 \<Rightarrow> nat" where
  "slot_at R p \<equiv> slot_addr R (unat p mod ring_count R)"

fun push_step :: "Ring \<Rightarrow> producer \<Rightarrow> bytes \<Rightarrow> producer \<times> bytes" where
  "push_step R (PStart pl) m = (PHead pl (load_u64 (head R) m), m)"
| "push_step R (PHead pl h) m =
     (let t = load_u64 (tail R) m
      in if unat (h - t) \<ge> ring_count R then (PDone False, m) else (PCopy pl h 0, m))"
| "push_step R (PCopy pl h i) m =
     (if i < push_len R pl then (PCopy pl h (Suc i), write_bytes (slot_at R h + 4 + i) [data pl ! i] m)
      else (PPublish pl h, store_u32 (slot_at R h) (of_nat (push_len R pl)) m))"
| "push_step R (PPublish pl h) m = (PDone True, store_u64 (head R) (h + 1) m)"
| "push_step R (PDone ok) m = (PDone ok, m)"

section \<open>The steps of a pop\<close>

datatype consumer = CStart Buffer | CTail Buffer u64 | CLen Buffer u64 | CCopy Buffer u64 nat nat
  | CDone "(bool \<times> Buffer) res"

fun pop_step :: "Ring \<Rightarrow> consumer \<Rightarrow> bytes \<Rightarrow> consumer \<times> bytes" where
  "pop_step R (CStart buf) m = (CTail buf (load_u64 (tail R) m), m)"
| "pop_step R (CTail buf t) m =
     (let h = load_u64 (head R) m in if t \<ge> h then (CDone (Inr (False, buf)), m) else (CLen buf t, m))"
| "pop_step R (CLen buf t) m =
     (let n = load_u32 (slot_at R t) m;
          copy = (if unat n < ring_max R then unat n else ring_max R)
      in if copy > capacity buf then (CDone (Inl (RuntimeError ''shm recv buffer too small'')), m)
         else (CCopy buf t copy 0, m))"
| "pop_step R (CCopy buf t copy i) m =
     (if i < copy
      then (CCopy (buf\<lparr>data := write_bytes i [m ! (slot_at R t + 4 + i)] (data buf)\<rparr>) t copy (Suc i), m)
      else (CDone (Inr (True, buf\<lparr>buf_size := copy\<rparr>)), store_u64 (tail R) (t + 1) m))"
| "pop_step R (CDone r) m = (CDone r, m)"

fun push_done :: "producer \<Rightarrow> bool" where
  "push_done (PDone _) = True"
| "push_done _ = False"

fun pop_done :: "consumer \<Rightarrow> bool" where
  "pop_done (CDone _) = True"
| "pop_done _ = False"

section \<open>Uninterrupted steps are the calls\<close>

definition push_run :: "Ring \<Rightarrow> nat \<Rightarrow> producer \<times> bytes \<Rightarrow> producer \<times> bytes" where
  "push_run R n = (\<lambda>(p, m). push_step R p m) ^^ n"

definition pop_run :: "Ring \<Rightarrow> nat \<Rightarrow> consumer \<times> bytes \<Rightarrow> consumer \<times> bytes" where
  "pop_run R n = (\<lambda>(c, m). pop_step R c m) ^^ n"

lemma run_Suc:
  "push_run R (Suc n) (p, m) = push_run R n (push_step R p m)"
  "pop_run R (Suc n) (c, m) = pop_run R n (pop_step R c m)"
  "push_run R 0 (p, m) = (p, m)" "pop_run R 0 (c, m) = (c, m)"
  by (simp_all add: push_run_def pop_run_def funpow_Suc_right del: funpow.simps(2))

lemma write_bytes_snoc:
  "a + length xs < length m \<Longrightarrow>
   write_bytes (a + length xs) [x] (write_bytes a xs m) = write_bytes a (xs @ [x]) m"
  by (rule nth_equalityI) (auto simp: nth_write_bytes nth_append)

lemma take_Suc_nth: "i < length xs \<Longrightarrow> take (Suc i) xs = take i xs @ [xs ! i]"
  by (rule take_Suc_conv_app_nth)

lemma push_copy_run:
  assumes "i + j = push_len R pl" "buf_size pl \<le> length (data pl)" "slot_at R h + 4 + push_len R pl \<le> length m"
  shows "push_run R (Suc j) (PCopy pl h i, write_bytes (slot_at R h + 4) (take i (data pl)) m)
    = (PPublish pl h, store_u32 (slot_at R h) (of_nat (push_len R pl))
         (write_bytes (slot_at R h + 4) (take (push_len R pl) (data pl)) m))"
  using assms(1)
proof (induction j arbitrary: i)
  case 0
  then show ?case by (simp add: run_Suc)
next
  case (Suc j)
  have i: "i < push_len R pl" "i < length (data pl)" using Suc.prems assms(2) by (auto split: if_splits)
  have "write_bytes (slot_at R h + 4 + i) [data pl ! i] (write_bytes (slot_at R h + 4) (take i (data pl)) m)
      = write_bytes (slot_at R h + 4) (take (Suc i) (data pl)) m"
    using write_bytes_snoc [of "slot_at R h + 4" "take i (data pl)" m "data pl ! i"] i assms(3)
    by (simp add: take_Suc_nth)
  then have "push_run R (Suc (Suc j)) (PCopy pl h i, write_bytes (slot_at R h + 4) (take i (data pl)) m)
      = push_run R (Suc j) (PCopy pl h (Suc i), write_bytes (slot_at R h + 4) (take (Suc i) (data pl)) m)"
    using i(1) by (simp add: run_Suc(1) [of R "Suc j"])
  then show ?case using Suc.IH [of "Suc i"] Suc.prems by simp
qed

lemma push_run_is_call:
  assumes "ring_geom R m" "buffer_ok pl"
  shows "\<exists>n \<le> ring_max R + 4. push_run R n (PStart pl, m)
    = (case shm_try_push_slot R pl m of (ok, m') \<Rightarrow> (PDone ok, m'))"
proof -
  let ?h = "load_u64 (head R) m"
  have first: "push_run R (Suc (Suc n)) (PStart pl, m) = push_run R n (push_step R (PHead pl ?h) m)" for n
    by (simp add: run_Suc)
  show ?thesis
  proof (cases "unat (?h - load_u64 (tail R) m) \<ge> ring_count R")
    case True
    then show ?thesis
      using first [of 0] by (intro exI [of _ 2]) (simp add: shm_try_push_slot_def run_Suc numeral_2_eq_2)
  next
    case False
    have g: "ring_stride R = 4 + ring_max R" "ring_end R \<le> length m" "0 < ring_count R"
      using assms(1) by (auto simp: ring_geom_def)
    have fit: "slot_at R ?h + 4 + push_len R pl \<le> length m"
      using slot_bounds(2) [of "unat ?h mod ring_count R" R] g by auto
    have pl: "buf_size pl \<le> length (data pl)" using assms(2) by (simp add: buffer_ok_def)
    have add: "push_run R (a + b) x = push_run R b (push_run R a x)" for a b x
      by (simp add: push_run_def funpow_add add.commute [of a b])
    have "push_run R (Suc (Suc (Suc (push_len R pl) + 1))) (PStart pl, m)
        = push_run R (Suc (push_len R pl) + 1) (PCopy pl ?h 0, m)"
      using False by (simp only: first) (simp add: Let_def)
    also have "\<dots> = push_run R 1 (push_run R (Suc (push_len R pl)) (PCopy pl ?h 0, m))"
      by (rule add)
    also have "\<dots> = (case shm_try_push_slot R pl m of (ok, m') \<Rightarrow> (PDone ok, m'))"
      using push_copy_run [where i = 0 and j = "push_len R pl" and R = R and pl = pl and h = ?h and m = m] fit pl False
      by (simp add: shm_try_push_slot_def Let_def run_Suc)
    finally show ?thesis
      by (intro exI [of _ "Suc (Suc (Suc (push_len R pl) + 1))"]) simp
  qed
qed

text \<open>What the consumer has copied after \<open>i\<close> bytes.\<close>

definition copied :: "Ring \<Rightarrow> u64 \<Rightarrow> nat \<Rightarrow> bytes \<Rightarrow> Buffer \<Rightarrow> Buffer" where
  "copied R t i m buf = buf\<lparr>data := write_bytes 0 (read_bytes (slot_at R t + 4) i m) (data buf)\<rparr>"

lemma copied_0 [simp]: "copied R t 0 m buf = buf"
  by (simp add: copied_def read_bytes_def)

lemma read_bytes_Suc: "a + i < length m \<Longrightarrow> read_bytes a (Suc i) m = read_bytes a i m @ [m ! (a + i)]"
  by (simp add: read_bytes_def take_Suc_conv_app_nth)

lemma copied_Suc:
  assumes "i < length (data buf)" "slot_at R t + 4 + i < length m"
  shows "(copied R t i m buf)\<lparr>data := write_bytes i [m ! (slot_at R t + 4 + i)] (data (copied R t i m buf))\<rparr>
    = copied R t (Suc i) m buf"
proof -
  have "length (read_bytes (slot_at R t + 4) i m) = i" using assms(2) by (simp add: read_bytes_def)
  then show ?thesis
    using write_bytes_snoc [of 0 "read_bytes (slot_at R t + 4) i m" "data buf" "m ! (slot_at R t + 4 + i)"] assms
    by (simp add: copied_def read_bytes_Suc)
qed

lemma pop_copy_run:
  assumes "i + j = n" "n \<le> length (data buf)" "slot_at R t + 4 + n \<le> length m"
  shows "pop_run R (Suc j) (CCopy (copied R t i m buf) t n i, m)
    = (CDone (Inr (True, (copied R t n m buf)\<lparr>buf_size := n\<rparr>)), store_u64 (tail R) (t + 1) m)"
  using assms(1)
proof (induction j arbitrary: i)
  case 0
  then show ?case by (simp add: run_Suc)
next
  case (Suc j)
  have "pop_run R (Suc (Suc j)) (CCopy (copied R t i m buf) t n i, m)
      = pop_run R (Suc j) (CCopy (copied R t (Suc i) m buf) t n (Suc i), m)"
    using copied_Suc [of i buf R t m] Suc.prems assms(2,3) by (simp add: run_Suc(2) [of R "Suc j"])
  then show ?case using Suc.IH [of "Suc i"] Suc.prems by simp
qed

lemma pop_run_is_call:
  assumes "ring_geom R m" "buffer_ok buf"
  shows "\<exists>n \<le> ring_max R + 4. pop_run R n (CStart buf, m)
    = (case shm_try_pop_slot R buf m of
         Inl e \<Rightarrow> (CDone (Inl e), m) | Inr (ok, buf', m') \<Rightarrow> (CDone (Inr (ok, buf')), m'))"
proof -
  let ?t = "load_u64 (tail R) m" and ?h = "load_u64 (head R) m"
  let ?n = "load_u32 (slot_at R ?t) m"
  let ?copy = "if unat ?n < ring_max R then unat ?n else ring_max R"
  have first: "pop_run R (Suc (Suc n)) (CStart buf, m) = pop_run R n (pop_step R (CTail buf ?t) m)" for n
    by (simp add: run_Suc)
  show ?thesis
  proof (cases "?t \<ge> ?h")
    case True
    then show ?thesis
      using first [of 0] by (intro exI [of _ 2]) (simp add: shm_try_pop_slot_def run_Suc numeral_2_eq_2)
  next
    case False
    then have second: "pop_run R (Suc (Suc (Suc n))) (CStart buf, m) = pop_run R n (pop_step R (CLen buf ?t) m)" for n
      by (simp add: first run_Suc)
    show ?thesis
    proof (cases "?copy > capacity buf")
      case True
      then show ?thesis
        using second [of 0] False by (intro exI [of _ 3]) (simp add: shm_try_pop_slot_def run_Suc numeral_3_eq_3 Let_def)
    next
      case fits: False
      have g: "ring_stride R = 4 + ring_max R" "ring_end R \<le> length m" "0 < ring_count R"
        using assms(1) by (auto simp: ring_geom_def)
      have fit: "slot_at R ?t + 4 + ?copy \<le> length m"
        using slot_bounds(2) [of "unat ?t mod ring_count R" R] g by auto
      have "?copy \<le> length (data buf)" using fits assms(2) by (auto simp: buffer_ok_def)
      from pop_copy_run [where i = 0 and j = ?copy, OF _ this fit]
      have "pop_run R (Suc ?copy) (CCopy buf ?t ?copy 0, m)
        = (CDone (Inr (True, (copied R ?t ?copy m buf)\<lparr>buf_size := ?copy\<rparr>)), store_u64 (tail R) (?t + 1) m)" by simp
      then have "pop_run R (Suc (Suc (Suc (Suc ?copy)))) (CStart buf, m)
        = (CDone (Inr (True, (copied R ?t ?copy m buf)\<lparr>buf_size := ?copy\<rparr>)), store_u64 (tail R) (?t + 1) m)"
        using fits by (simp only: second) (simp add: Let_def)
      then show ?thesis
        using False fits by (intro exI [of _ "Suc (Suc (Suc (Suc ?copy)))"])
          (simp add: shm_try_pop_slot_def Let_def copied_def)
    qed
  qed
qed

section \<open>Every call ends, whatever the other side does\<close>

text \<open>How many steps of its own a call still has.\<close>

fun push_left :: "Ring \<Rightarrow> producer \<Rightarrow> nat" where
  "push_left R (PStart pl) = push_len R pl + 4"
| "push_left R (PHead pl h) = push_len R pl + 3"
| "push_left R (PCopy pl h i) = push_len R pl - i + 2"
| "push_left R (PPublish pl h) = 1"
| "push_left R (PDone ok) = 0"

fun pop_left :: "Ring \<Rightarrow> consumer \<Rightarrow> nat" where
  "pop_left R (CStart buf) = ring_max R + 4"
| "pop_left R (CTail buf t) = ring_max R + 3"
| "pop_left R (CLen buf t) = ring_max R + 2"
| "pop_left R (CCopy buf t n i) = n - i + 1"
| "pop_left R (CDone r) = 0"

lemma push_progress: "\<not> push_done p \<Longrightarrow> push_left R (fst (push_step R p m)) < push_left R p"
  by (cases p) (auto simp: Let_def)

lemma pop_progress: "\<not> pop_done c \<Longrightarrow> pop_left R (fst (pop_step R c m)) < pop_left R c"
  by (cases c) (auto simp: Let_def)

text \<open>The \<open>k\<close>-th step sees whatever the other side has made of the memory.\<close>

fun push_under :: "Ring \<Rightarrow> (nat \<Rightarrow> bytes \<Rightarrow> bytes) \<Rightarrow> nat \<Rightarrow> nat \<Rightarrow> producer \<Rightarrow> bytes \<Rightarrow> producer" where
  "push_under R env k 0 p m = p"
| "push_under R env k (Suc n) p m =
     (case push_step R p (env k m) of (p', m') \<Rightarrow> push_under R env (Suc k) n p' m')"

fun pop_under :: "Ring \<Rightarrow> (nat \<Rightarrow> bytes \<Rightarrow> bytes) \<Rightarrow> nat \<Rightarrow> nat \<Rightarrow> consumer \<Rightarrow> bytes \<Rightarrow> consumer" where
  "pop_under R env k 0 c m = c"
| "pop_under R env k (Suc n) c m =
     (case pop_step R c (env k m) of (c', m') \<Rightarrow> pop_under R env (Suc k) n c' m')"

lemma push_under_ends: "push_left R p \<le> n \<Longrightarrow> push_done (push_under R env k n p m)"
proof (induction n arbitrary: k p m)
  case 0
  then show ?case by (cases p) auto
next
  case (Suc n)
  obtain p' m' where st: "push_step R p (env k m) = (p', m')" by fastforce
  have "push_left R p' \<le> n"
    using push_progress [of p R "env k m"] Suc.prems st by (cases "push_done p"; cases p) auto
  then show ?case using Suc.IH st by simp
qed

lemma pop_under_ends: "pop_left R c \<le> n \<Longrightarrow> pop_done (pop_under R env k n c m)"
proof (induction n arbitrary: k c m)
  case 0
  then show ?case by (cases c) auto
next
  case (Suc n)
  obtain c' m' where st: "pop_step R c (env k m) = (c', m')" by fastforce
  have "pop_left R c' \<le> n"
    using pop_progress [of c R "env k m"] Suc.prems st by (cases "pop_done c"; cases c) auto
  then show ?case using Suc.IH st by simp
qed

section \<open>Both sides at once\<close>

text \<open>
  \<open>sent\<close> and \<open>got\<close> record the messages published and the messages returned so far. A process that
  is between two calls starts the next one with a buffer of its choice.
\<close>

record Conc =
  cmem :: bytes
  prod :: producer
  cons :: consumer
  sent :: "bytes list"
  got :: "bytes list"

fun published :: "Ring \<Rightarrow> producer \<Rightarrow> bytes list" where
  "published R (PPublish pl h) = [clip R pl]"
| "published R _ = []"

fun taken :: "consumer \<Rightarrow> bytes list" where
  "taken (CCopy buf t n i) = (if i < n then [] else [buffer_bytes (buf\<lparr>buf_size := n\<rparr>)])"
| "taken _ = []"

inductive conc_step :: "Ring \<Rightarrow> Conc \<Rightarrow> Conc \<Rightarrow> bool" for R where
  call_push: "push_done (prod s) \<Longrightarrow> buffer_ok pl \<Longrightarrow> conc_step R s (s\<lparr>prod := PStart pl\<rparr>)"
| run_push: "\<not> push_done (prod s) \<Longrightarrow> push_step R (prod s) (cmem s) = (p', m') \<Longrightarrow>
    conc_step R s (s\<lparr>cmem := m', prod := p', sent := sent s @ published R (prod s)\<rparr>)"
| call_pop: "pop_done (cons s) \<Longrightarrow> buffer_ok buf \<Longrightarrow> conc_step R s (s\<lparr>cons := CStart buf\<rparr>)"
| run_pop: "\<not> pop_done (cons s) \<Longrightarrow> pop_step R (cons s) (cmem s) = (c', m') \<Longrightarrow>
    conc_step R s (s\<lparr>cmem := m', cons := c', got := got s @ taken (cons s)\<rparr>)"

inductive_cases conc_stepE: "conc_step R s s'"

fun_cases push_doneE: "push_done p"
  and pop_doneE: "pop_done c"

definition conc_start :: "bytes \<Rightarrow> Conc" where
  "conc_start m = \<lparr>cmem = m, prod = PDone False, cons = CDone (Inr (False, Buffer_read_only [])), sent = [], got = []\<rparr>"

text \<open>What each side knows of the memory at each of its points.\<close>

definition free_at :: "Ring \<Rightarrow> bytes \<Rightarrow> u64 \<Rightarrow> bool" where
  "free_at R m h \<longleftrightarrow> load_u64 (head R) m = h \<and> hd_pos R m - tl_pos R m < ring_count R"

definition full_at :: "Ring \<Rightarrow> bytes \<Rightarrow> u64 \<Rightarrow> bool" where
  "full_at R m t \<longleftrightarrow> load_u64 (tail R) m = t \<and> tl_pos R m < hd_pos R m"

fun prod_inv :: "Ring \<Rightarrow> bytes \<Rightarrow> producer \<Rightarrow> bool" where
  "prod_inv R m (PStart pl) \<longleftrightarrow> buffer_ok pl"
| "prod_inv R m (PHead pl h) \<longleftrightarrow> buffer_ok pl \<and> load_u64 (head R) m = h"
| "prod_inv R m (PCopy pl h i) \<longleftrightarrow> buffer_ok pl \<and> free_at R m h \<and> i \<le> push_len R pl
     \<and> read_bytes (slot_at R h + 4) i m = take i (data pl)"
| "prod_inv R m (PPublish pl h) \<longleftrightarrow> buffer_ok pl \<and> free_at R m h
     \<and> slot_val R m (unat h mod ring_count R) = clip R pl"
| "prod_inv R m (PDone ok) \<longleftrightarrow> True"

fun cons_inv :: "Ring \<Rightarrow> bytes \<Rightarrow> consumer \<Rightarrow> bool" where
  "cons_inv R m (CStart buf) \<longleftrightarrow> buffer_ok buf"
| "cons_inv R m (CTail buf t) \<longleftrightarrow> buffer_ok buf \<and> load_u64 (tail R) m = t"
| "cons_inv R m (CLen buf t) \<longleftrightarrow> buffer_ok buf \<and> full_at R m t"
| "cons_inv R m (CCopy buf t n i) \<longleftrightarrow> full_at R m t \<and> i \<le> n \<and> n \<le> length (data buf)
     \<and> n = length (slot_val R m (unat t mod ring_count R)) \<and> take i (data buf) = take i (slot_val R m (unat t mod ring_count R))"
| "cons_inv R m (CDone r) \<longleftrightarrow> True"

definition conc_inv :: "Ring \<Rightarrow> Conc \<Rightarrow> bool" where
  "conc_inv R s \<longleftrightarrow> ring_inv R (cmem s) \<and> hd_pos R (cmem s) = length (sent s) \<and> tl_pos R (cmem s) = length (got s)
     \<and> got s @ ring_items R (cmem s) = sent s \<and> prod_inv R (cmem s) (prod s) \<and> cons_inv R (cmem s) (cons s)"

text \<open>A write into the free slot at the head: nobody else sees it.\<close>

lemma free_write:
  assumes "ring_inv R m" "free_at R m h" "off + length vs \<le> ring_stride R"
  defines "m' \<equiv> write_bytes (slot_at R h + off) vs m"
  shows "length m' = length m" "ring_inv R m'" "hd_pos R m' = hd_pos R m" "tl_pos R m' = tl_pos R m" "free_at R m' h"
    "ring_items R m' = ring_items R m" "cons_inv R m c \<Longrightarrow> cons_inv R m' c"
proof -
  have g: "ring_geom R m" "tl_pos R m \<le> hd_pos R m" "0 < ring_count R"
    using assms(1) by (auto simp: ring_inv_def ring_geom_def)
  have h: "unat h = hd_pos R m" "hd_pos R m - tl_pos R m < ring_count R"
    using assms(2) by (auto simp: free_at_def hd_pos_def)
  have i: "unat h mod ring_count R < ring_count R" using g(3) by simp
  note w = write_slot [OF g(1) i assms(3), folded m'_def]
  show len: "length m' = length m" by (rule w(1))
  show pos: "hd_pos R m' = hd_pos R m" "tl_pos R m' = tl_pos R m"
    using w(2,3) by (simp_all add: hd_pos_def tl_pos_def)
  show "ring_inv R m'" using assms(1) pos ring_geom_length [OF len] by (simp add: ring_inv_def)
  show "free_at R m' h" using assms(2) w(2) pos by (simp add: free_at_def)
  have same: "slot_val R m' (p mod ring_count R) = slot_val R m (p mod ring_count R)"
    if "tl_pos R m \<le> p" "p < hd_pos R m" for p
  proof (rule w(5))
    show "p mod ring_count R \<noteq> unat h mod ring_count R"
      unfolding h(1) using that h(2) by (intro mod_window_distinct) auto
  qed (use g(3) in simp)
  then show "ring_items R m' = ring_items R m" by (simp add: ring_items_def pos)
  have full: "full_at R m' t = full_at R m t" for t using w(3) pos by (simp add: full_at_def)
  have slot: "slot_val R m' (unat t mod ring_count R) = slot_val R m (unat t mod ring_count R)" if "full_at R m t" for t
    using same [of "tl_pos R m"] that by (auto simp: full_at_def tl_pos_def)
  show "cons_inv R m c \<Longrightarrow> cons_inv R m' c"
    using w(3) slot by (cases c) (auto simp: full)
qed

lemma free_slot_bounds:
  assumes "ring_inv R m"
  shows "slot_at R h + ring_stride R \<le> length m" "ring_stride R = 4 + ring_max R" "ring_slots R \<le> slot_at R h"
    "unat h mod ring_count R < ring_count R" "push_len R pl \<le> ring_max R"
proof -
  have g: "0 < ring_count R" "ring_end R \<le> length m" "ring_stride R = 4 + ring_max R"
    using assms by (auto simp: ring_inv_def ring_geom_def)
  then show i: "unat h mod ring_count R < ring_count R" by simp
  show "slot_at R h + ring_stride R \<le> length m" "ring_slots R \<le> slot_at R h"
    using slot_bounds [OF i] g(2) by linarith+
qed (use assms in \<open>auto simp: ring_inv_def ring_geom_def\<close>)

lemma copy_step_inv:
  assumes "ring_inv R m" "prod_inv R m (PCopy pl h i)" "i < push_len R pl"
  defines "m' \<equiv> write_bytes (slot_at R h + 4 + i) [data pl ! i] m"
  shows "prod_inv R m' (PCopy pl h (Suc i))"
proof -
  note b = free_slot_bounds(1) [OF assms(1), of h] free_slot_bounds(2) [OF assms(1)]
    free_slot_bounds(3) [OF assms(1), of h]
  note n = free_slot_bounds(5) [OF assms(1), of pl]
  have pl: "buffer_ok pl" "free_at R m h" "read_bytes (slot_at R h + 4) i m = take i (data pl)"
    using assms(2) by simp_all
  have i: "i < length (data pl)" using assms(3) pl(1) by (auto simp: buffer_ok_def split: if_splits)
  have fit: "slot_at R h + 4 + i < length m" using b(1,2) n assms(3) by linarith
  have off: "(4 + i) + length [data pl ! i] \<le> ring_stride R" using b(2) n assms(3) by simp
  have eq: "m' = write_bytes (slot_at R h + (4 + i)) [data pl ! i] m" by (simp add: m'_def add.assoc)
  have len: "length m' = length m" using fit by (simp add: m'_def)
  have "read_bytes (slot_at R h + 4) (Suc i) m' = read_bytes (slot_at R h + 4) i m' @ [m' ! (slot_at R h + 4 + i)]"
    using fit len by (intro read_bytes_Suc) simp
  also have "read_bytes (slot_at R h + 4) i m' = read_bytes (slot_at R h + 4) i m"
    unfolding m'_def by (rule read_write_disjoint) (use fit in simp_all)
  also have "m' ! (slot_at R h + 4 + i) = data pl ! i"
    using fit by (simp add: m'_def nth_write_bytes)
  finally have "read_bytes (slot_at R h + 4) (Suc i) m' = take (Suc i) (data pl)"
    using pl(3) i by (simp add: take_Suc_nth)
  moreover have "free_at R m' h" unfolding eq by (rule free_write(5) [OF assms(1) pl(2) off])
  ultimately show ?thesis using pl(1) assms(3) by simp
qed

lemma length_step_inv:
  assumes "ring_inv R m" "prod_inv R m (PCopy pl h (push_len R pl))"
  defines "m' \<equiv> store_u32 (slot_at R h) (of_nat (push_len R pl)) m"
  shows "prod_inv R m' (PPublish pl h)"
proof -
  let ?n = "push_len R pl"
  note b = free_slot_bounds(1) [OF assms(1), of h] free_slot_bounds(2) [OF assms(1)]
    free_slot_bounds(3) [OF assms(1), of h]
  note n = free_slot_bounds(5) [OF assms(1), of pl]
  have pl: "buffer_ok pl" "free_at R m h" "read_bytes (slot_at R h + 4) ?n m = take ?n (data pl)"
    using assms(2) by simp_all
  have off: "0 + length (le_bytes 4 (unat (of_nat ?n :: u32))) \<le> ring_stride R" using b(2) by simp
  have eq: "m' = write_bytes (slot_at R h + 0) (le_bytes 4 (unat (of_nat ?n :: u32))) m"
    by (simp add: m'_def store_u32_def)
  have "unat (of_nat ?n :: u32) = ?n"
    using n assms(1) by (intro unat_of_nat_small) (auto simp: ring_inv_def ring_geom_def)
  moreover have "load_u32 (slot_at R h) m' = of_nat ?n"
    unfolding m'_def by (rule load_store_same) (use b in linarith)
  moreover have "read_bytes (slot_at R h + 4) ?n m' = read_bytes (slot_at R h + 4) ?n m"
    unfolding m'_def by (rule read_store_disjoint; use b n in linarith)
  moreover have "take ?n (data pl) = clip R pl"
    using pl(1) by (auto simp: clip_def buffer_bytes_def buffer_ok_def min_def)
  ultimately have "slot_val R m' (unat h mod ring_count R) = clip R pl"
    using pl(3) by (auto simp: slot_val_def Let_def)
  moreover have "free_at R m' h" unfolding eq by (rule free_write(5) [OF assms(1) pl(2) off])
  ultimately show ?thesis using pl(1) by simp
qed

text \<open>Publishing: the message becomes the last of the queue.\<close>

lemma publish_step:
  assumes "ring_inv R m" "prod_inv R m (PPublish pl h)" "hd_pos R m + 1 < 2 ^ 64"
  defines "m' \<equiv> store_u64 (head R) (h + 1) m"
  shows "ring_inv R m'" "hd_pos R m' = hd_pos R m + 1" "tl_pos R m' = tl_pos R m"
    "ring_items R m' = ring_items R m @ [clip R pl]" "cons_inv R m c \<Longrightarrow> cons_inv R m' c"
proof -
  have g: "ring_geom R m" "tl_pos R m \<le> hd_pos R m" "0 < ring_count R" "head R + 8 \<le> ring_slots R"
    using assms(1) by (auto simp: ring_inv_def ring_geom_def)
  have h: "load_u64 (head R) m = h" "unat h = hd_pos R m" "hd_pos R m - tl_pos R m < ring_count R"
    "slot_val R m (hd_pos R m mod ring_count R) = clip R pl"
    using assms(2) by (auto simp: free_at_def hd_pos_def)
  note st = store_counter [OF g(1,4), where v = "h + 1", folded m'_def]
  have "unat (h + 1) = hd_pos R m + 1" using h(2) assms(3) by (simp add: unat_add_lem [THEN iffD1])
  then show pos: "hd_pos R m' = hd_pos R m + 1" "tl_pos R m' = tl_pos R m"
    using hd_tl_store(1,2) [OF g(1)] by (simp_all add: m'_def)
  show "ring_inv R m'" using g h(3) pos ring_geom_length [OF st(1)] by (simp add: ring_inv_def)
  have slot: "slot_val R m' (p mod ring_count R) = slot_val R m (p mod ring_count R)" for p
    using g(3) by (intro st(2)) simp
  then show "ring_items R m' = ring_items R m @ [clip R pl]"
    using g(2) h(4) by (simp add: ring_items_def pos)
  have tail: "load_u64 (tail R) m' = load_u64 (tail R) m"
    unfolding m'_def using g(1) by (auto simp: ring_geom_def mem_simps)
  then have full: "full_at R m t \<Longrightarrow> full_at R m' t" for t by (simp add: full_at_def pos)
  show "cons_inv R m c \<Longrightarrow> cons_inv R m' c"
    using tail full slot by (cases c) auto
qed

text \<open>Releasing: the first message leaves the queue and its slot becomes free.\<close>

lemma release_step:
  assumes "ring_inv R m" "cons_inv R m (CCopy buf t n n)"
  defines "m' \<equiv> store_u64 (tail R) (t + 1) m"
  shows "ring_inv R m'" "hd_pos R m' = hd_pos R m" "tl_pos R m' = tl_pos R m + 1"
    "ring_items R m = buffer_bytes (buf\<lparr>buf_size := n\<rparr>) # ring_items R m'" "prod_inv R m p \<Longrightarrow> prod_inv R m' p"
proof -
  have g: "ring_geom R m" "hd_pos R m - tl_pos R m \<le> ring_count R" "0 < ring_count R" "tail R + 8 \<le> ring_slots R"
    using assms(1) by (auto simp: ring_inv_def ring_geom_def)
  have t: "load_u64 (tail R) m = t" "unat t = tl_pos R m" "tl_pos R m < hd_pos R m" "n \<le> length (data buf)"
    "n = length (slot_val R m (tl_pos R m mod ring_count R))"
    "take n (data buf) = take n (slot_val R m (tl_pos R m mod ring_count R))"
    using assms(2) by (auto simp: full_at_def tl_pos_def)
  note st = store_counter [OF g(1,4), where v = "t + 1", folded m'_def]
  have "hd_pos R m < 2 ^ 64" unfolding hd_pos_def using unsigned_less [of "load_u64 (head R) m"] by simp
  then have "unat (t + 1) = tl_pos R m + 1" using t(2,3) by (simp add: unat_add_lem [THEN iffD1])
  then show pos: "hd_pos R m' = hd_pos R m" "tl_pos R m' = tl_pos R m + 1"
    using hd_tl_store(3,4) [OF g(1)] by (simp_all add: m'_def)
  show "ring_inv R m'" using g t(3) pos ring_geom_length [OF st(1)] by (simp add: ring_inv_def)
  have slot: "slot_val R m' (p mod ring_count R) = slot_val R m (p mod ring_count R)" for p
    using g(3) by (intro st(2)) simp
  have "buffer_bytes (buf\<lparr>buf_size := n\<rparr>) = slot_val R m (tl_pos R m mod ring_count R)"
    using t(5,6) by (simp add: buffer_bytes_def)
  then show "ring_items R m = buffer_bytes (buf\<lparr>buf_size := n\<rparr>) # ring_items R m'"
    using t(3) slot by (simp add: ring_items_def pos upt_conv_Cons)
  have hd: "load_u64 (head R) m' = load_u64 (head R) m"
    unfolding m'_def using g(1) by (auto simp: ring_geom_def mem_simps)
  then have free: "free_at R m h \<Longrightarrow> free_at R m' h" for h using t(3) by (auto simp: free_at_def pos)
  have rd: "read_bytes (slot_at R h + 4) i m' = read_bytes (slot_at R h + 4) i m" if "i \<le> push_len R pl" for h i pl
    by (rule st(3); use free_slot_bounds(1,3) [OF assms(1), of h] free_slot_bounds(2) [OF assms(1)]
        free_slot_bounds(5) [OF assms(1), of pl] that g(4) in linarith)
  show "prod_inv R m p \<Longrightarrow> prod_inv R m' p"
    using hd free rd slot by (cases p) auto
qed

text \<open>Every step of either side keeps the invariant.\<close>

lemma push_step_inv:
  assumes "conc_inv R s" "push_step R (prod s) (cmem s) = (p', m')" "length (sent s @ published R (prod s)) < 2 ^ 64"
  shows "conc_inv R (s\<lparr>cmem := m', prod := p', sent := sent s @ published R (prod s)\<rparr>)"
proof -
  let ?m = "cmem s"
  have inv: "ring_inv R ?m" "hd_pos R ?m = length (sent s)" "tl_pos R ?m = length (got s)"
    "got s @ ring_items R ?m = sent s" "prod_inv R ?m (prod s)" "cons_inv R ?m (cons s)"
    using assms(1) by (simp_all add: conc_inv_def)
  show ?thesis
  proof (cases "prod s")
    case (PHead pl h)
    have "unat (h - load_u64 (tail R) ?m) = hd_pos R ?m - tl_pos R ?m"
      using fill_level [of R ?m] inv(1,5) PHead by (simp add: ring_inv_def)
    then show ?thesis
      using inv assms(2) PHead by (auto simp: conc_inv_def free_at_def Let_def read_bytes_def split: if_splits)
  next
    case (PCopy pl h i)
    note b = free_slot_bounds(2,5) [OF inv(1)]
    have free: "free_at R ?m h" "i \<le> push_len R pl" using inv(5) PCopy by simp_all
    show ?thesis
    proof (cases "i < push_len R pl")
      case True
      then have m': "m' = write_bytes (slot_at R h + (4 + i)) [data pl ! i] ?m" "p' = PCopy pl h (Suc i)"
        using assms(2) PCopy by (simp_all add: add.assoc)
      have off: "(4 + i) + length [data pl ! i] \<le> ring_stride R" using b(1) b(2) [of pl] True by simp
      have "prod_inv R m' (PCopy pl h (Suc i))"
        using copy_step_inv [OF inv(1) inv(5) [unfolded PCopy] True] by (simp only: m'(1) add.assoc)
      then show ?thesis
        using free_write [OF inv(1) free(1) off] inv(2-4,6) PCopy by (simp add: conc_inv_def m')
    next
      case False
      then have i: "i = push_len R pl" using free(2) by simp
      then have m': "m' = store_u32 (slot_at R h) (of_nat (push_len R pl)) ?m" "p' = PPublish pl h"
        using assms(2) PCopy by simp_all
      let ?l = "le_bytes 4 (unat (of_nat (push_len R pl) :: u32))"
      have off: "0 + length ?l \<le> ring_stride R" using b(1) by simp
      have eq: "m' = write_bytes (slot_at R h + 0) ?l ?m" by (simp add: m'(1) store_u32_def)
      have "prod_inv R m' (PPublish pl h)"
        using length_step_inv [OF inv(1)] inv(5) PCopy i by (simp add: m'(1))
      then show ?thesis
        using free_write [OF inv(1) free(1) off, folded eq] inv(2-4,6) PCopy m'(2) by (simp add: conc_inv_def)
    qed
  next
    case (PPublish pl h)
    then have m': "m' = store_u64 (head R) (h + 1) ?m" "p' = PDone True" using assms(2) by simp_all
    have "hd_pos R ?m + 1 < 2 ^ 64" using assms(3) inv(2) PPublish by simp
    note pb = publish_step [OF inv(1) inv(5) [unfolded PPublish] this, folded m'(1)]
    show ?thesis using pb inv(2-4,6) PPublish m'(2) by (simp add: conc_inv_def flip: append_assoc)
  next
    case (PStart pl)
    then show ?thesis using inv assms(2) by (auto simp: conc_inv_def)
  next
    case (PDone ok)
    then have "p' = PDone ok" "m' = ?m" using assms(2) by simp_all
    then show ?thesis using inv PDone by (simp add: conc_inv_def)
  qed
qed

lemma pop_step_inv:
  assumes "conc_inv R s" "pop_step R (cons s) (cmem s) = (c', m')"
  shows "conc_inv R (s\<lparr>cmem := m', cons := c', got := got s @ taken (cons s)\<rparr>)"
proof -
  let ?m = "cmem s"
  have inv: "ring_inv R ?m" "hd_pos R ?m = length (sent s)" "tl_pos R ?m = length (got s)"
    "got s @ ring_items R ?m = sent s" "prod_inv R ?m (prod s)" "cons_inv R ?m (cons s)"
    using assms(1) by (simp_all add: conc_inv_def)
  show ?thesis
  proof (cases "cons s")
    case (CTail buf t)
    then show ?thesis
      using inv assms(2) by (auto simp: conc_inv_def full_at_def tl_pos_def hd_pos_def Let_def word_le_nat_alt split: if_splits)
  next
    case (CLen buf t)
    have "unat t mod ring_count R < ring_count R" using inv(1) by (auto simp: ring_inv_def ring_geom_def)
    then have len: "length (slot_val R ?m (unat t mod ring_count R))
        = (let n = unat (load_u32 (slot_at R t) ?m) in if n < ring_max R then n else ring_max R)"
      using slot_val_length inv(1) by (simp add: ring_inv_def)
    have "capacity buf \<le> length (data buf)" using inv(6) CLen by (simp add: buffer_ok_def)
    then show ?thesis
      using inv assms(2) CLen len by (auto simp: conc_inv_def Let_def split: if_splits)
  next
    case (CCopy buf t n i)
    let ?v = "slot_val R ?m (unat t mod ring_count R)"
    have c: "i \<le> n" "n \<le> length (data buf)" "n = length ?v" "take i (data buf) = take i ?v"
      using inv(6) CCopy by simp_all
    show ?thesis
    proof (cases "i < n")
      case True
      let ?x = "?m ! (slot_at R t + 4 + i)"
      have x: "?x = ?v ! i"
      proof -
        obtain k where k: "?v = read_bytes (slot_at R t + 4) k ?m" "k \<le> ring_max R"
          by (auto simp: slot_val_def Let_def)
        have "slot_at R t + 4 + k \<le> length ?m"
          using free_slot_bounds(1) [OF inv(1), of t] free_slot_bounds(2) [OF inv(1)] k(2) by linarith
        then show ?thesis using k True c(3) by (simp add: nth_read_bytes)
      qed
      have "take (Suc i) (write_bytes i [?x] (data buf)) = take (Suc i) ?v"
        using c True x by (simp add: write_bytes_def take_Suc_nth)
      then show ?thesis
        using inv assms(2) CCopy True c(2) by (auto simp: conc_inv_def)
    next
      case False
      then have i: "i = n" using c(1) by simp
      have m': "m' = store_u64 (tail R) (t + 1) ?m" "c' = CDone (Inr (True, buf\<lparr>buf_size := n\<rparr>))"
        using assms(2) CCopy False by simp_all
      note rl = release_step [OF inv(1) inv(6) [unfolded CCopy i], folded m'(1)]
      show ?thesis using rl inv(2-5) CCopy i m'(2) by (simp add: conc_inv_def)
    qed
  next
    case (CStart buf)
    then show ?thesis using inv assms(2) by (auto simp: conc_inv_def)
  next
    case (CDone r)
    then have "c' = CDone r" "m' = ?m" using assms(2) by simp_all
    then show ?thesis using inv CDone by (simp add: conc_inv_def)
  qed
qed

lemma conc_step_inv:
  "conc_step R s s' \<Longrightarrow> conc_inv R s \<Longrightarrow> length (sent s') < 2 ^ 64 \<Longrightarrow> conc_inv R s'"
proof (induction rule: conc_step.induct)
  case (run_push s p' m')
  then show ?case using push_step_inv by simp
next
  case (run_pop s c' m')
  then show ?case using pop_step_inv by simp
qed (simp_all add: conc_inv_def)

lemma sent_grows: "conc_step R s s' \<Longrightarrow> length (sent s) \<le> length (sent s')"
  by (induction rule: conc_step.induct) simp_all

lemma reachable_inv:
  assumes "(conc_step R)\<^sup>*\<^sup>* (conc_start m) s" "ring_inv R m" "hd_pos R m = 0" "length (sent s) < 2 ^ 64"
  shows "conc_inv R s"
  using assms(1,4)
proof (induction rule: rtranclp_induct)
  case base
  have "tl_pos R m = 0" "ring_items R m = []" using assms(2,3) by (simp_all add: ring_inv_def ring_items_def)
  then show ?case using assms(2,3) by (simp add: conc_inv_def conc_start_def)
next
  case (step s s')
  then show ?case using conc_step_inv sent_grows by (metis le_less_trans)
qed

section \<open>Properties of the concurrent ring\<close>

text \<open>
  C4: the lock-free ring is correct under every interleaving. From an empty ring, in every state
  that any number of concurrent pushes and pops can reach, at most \<open>2 ^ 64 - 1\<close> of them
  successful: what the consumer has returned, followed by what the memory holds between the two
  counters, is exactly what the producer has published, in order, so that no message is lost,
  repeated, reordered or torn; never more than \<open>slot_count\<close> messages are in flight; and while both
  copy, they are in different slots, so that the plain \<open>memcpy\<close>s do not race.
\<close>

theorem spsc_interleaved:
  assumes "ring_inv R m" "hd_pos R m = 0" "(conc_step R)\<^sup>*\<^sup>* (conc_start m) s" "length (sent s) < 2 ^ 64"
  shows "got s @ ring_items R (cmem s) = sent s
    \<and> length (sent s) \<le> length (got s) + ring_count R
    \<and> (\<forall>pl h i buf t n j. prod s = PCopy pl h i \<longrightarrow> cons s = CCopy buf t n j \<longrightarrow>
         slot_at R h + ring_stride R \<le> slot_at R t \<or> slot_at R t + ring_stride R \<le> slot_at R h)"
proof -
  have inv: "conc_inv R s" by (rule reachable_inv [OF assms(3,1,2,4)])
  have apart: "slot_at R h + ring_stride R \<le> slot_at R t \<or> slot_at R t + ring_stride R \<le> slot_at R h"
    if "prod s = PCopy pl h i" "cons s = CCopy buf t n j" for pl h i buf t n j
  proof (rule slot_disjoint)
    have "unat t < unat h" "unat h - unat t < ring_count R"
      using inv that by (auto simp: conc_inv_def free_at_def full_at_def hd_pos_def tl_pos_def)
    then show "unat h mod ring_count R \<noteq> unat t mod ring_count R" using mod_window_distinct by metis
  qed
  have "hd_pos R (cmem s) - tl_pos R (cmem s) \<le> ring_count R" "hd_pos R (cmem s) = length (sent s)"
    "tl_pos R (cmem s) = length (got s)" using inv unfolding conc_inv_def ring_inv_def by blast+
  then have "length (sent s) \<le> length (got s) + ring_count R" by linarith
  then show ?thesis using inv apart by (auto simp: conc_inv_def)
qed

text \<open>
  The steps are those of the calls: run without interruption, the steps of a call are finished
  after at most \<open>max_payload + 4\<close> of them, with the result and the memory of the call as a whole.
\<close>

lemma steps_are_calls:
  assumes "ring_geom R m" "buffer_ok b"
  shows "(\<exists>n \<le> ring_max R + 4. push_run R n (PStart b, m) = (case shm_try_push_slot R b m of (ok, m') \<Rightarrow> (PDone ok, m')))
    \<and> (\<exists>n \<le> ring_max R + 4. pop_run R n (CStart b, m) = (case shm_try_pop_slot R b m of
         Inl e \<Rightarrow> (CDone (Inl e), m) | Inr (ok, b', m') \<Rightarrow> (CDone (Inr (ok, b')), m')))"
  using push_run_is_call [OF assms] pop_run_is_call [OF assms] by (rule conjI)

text \<open>
  Non-blocking calls are wait-free. Whatever the other process does to the memory between any
  two steps, well-behaved or not, a push and a pop end after at most \<open>max_payload + 4\<close> steps of their own.
\<close>

lemma calls_wait_free:
  "push_done (push_under R env k (ring_max R + 4) (PStart pl) m)
   \<and> pop_done (pop_under R env k (ring_max R + 4) (CStart buf) m)"
  by (intro conjI push_under_ends pop_under_ends) simp_all

section \<open>An example\<close>

text \<open>A ring of two slots of one byte, and a producer that sends one message.\<close>

definition tiny_ring :: Ring where
  "tiny_ring = \<lparr>head = 0, tail = 8, ring_slots = 16, ring_count = 2, ring_stride = 5, ring_max = 1\<rparr>"

lemma load_zeros: "a + 8 \<le> n \<Longrightarrow> load_u64 a (replicate n 0) = 0"
  by (simp add: load_u64_def read_bytes_def le_val_zeros)

lemma tiny_ring_ok:
  "ring_inv tiny_ring (replicate 26 0)" "hd_pos tiny_ring (replicate 26 0) = 0" "ring_geom tiny_ring (replicate 26 0)"
  by (simp_all add: ring_inv_def ring_geom_def tiny_ring_def hd_pos_def tl_pos_def load_zeros)

lemma tiny_run:
  "\<exists>s. (conc_step tiny_ring)\<^sup>*\<^sup>* (conc_start (replicate 26 0)) s \<and> sent s = [[7]] \<and> got s = []"
proof -
  let ?pl = "Buffer_read_only [7]" and ?m = "replicate 26 0 :: bytes" and ?R = tiny_ring
  let ?m1 = "write_bytes (slot_at ?R 0 + 4 + 0) [data ?pl ! 0] ?m"
  let ?m2 = "store_u32 (slot_at ?R 0) (of_nat (push_len ?R ?pl)) ?m1"
  let ?s = "\<lambda>p m. (conc_start ?m)\<lparr>cmem := m, prod := p\<rparr>"
  have go: "conc_step ?R (?s p m) (?s p' m')"
    if "\<not> push_done p" "push_step ?R p m = (p', m')" "published ?R p = []" for p m p' m'
    using run_push [of "?s p m" ?R p' m'] that by (simp add: conc_start_def)
  have len: "push_len ?R ?pl = 1" by (simp add: tiny_ring_def Buffer_read_only_def)
  have "conc_step ?R (conc_start ?m) (?s (PStart ?pl) ?m)"
    using call_push [of "conc_start ?m" ?pl ?R] by (simp add: conc_start_def)
  moreover have "conc_step ?R (?s (PStart ?pl) ?m) (?s (PHead ?pl 0) ?m)"
    by (rule go) (simp_all add: load_zeros tiny_ring_def)
  moreover have "conc_step ?R (?s (PHead ?pl 0) ?m) (?s (PCopy ?pl 0 0) ?m)"
    by (rule go) (simp_all add: load_zeros tiny_ring_def)
  moreover have "conc_step ?R (?s (PCopy ?pl 0 0) ?m) (?s (PCopy ?pl 0 1) ?m1)"
    by (rule go) (simp_all only: push_step.simps len push_done.simps published.simps, simp_all)
  moreover have "conc_step ?R (?s (PCopy ?pl 0 1) ?m1) (?s (PPublish ?pl 0) ?m2)"
    by (rule go) (simp_all only: push_step.simps len push_done.simps published.simps, simp_all)
  moreover have "conc_step ?R (?s (PPublish ?pl 0) ?m2)
      ((?s (PDone True) (store_u64 (head ?R) (0 + 1) ?m2))\<lparr>sent := [clip ?R ?pl]\<rparr>)"
    using run_push [of "?s (PPublish ?pl 0) ?m2" ?R "PDone True" "store_u64 (head ?R) (0 + 1) ?m2"]
    by (simp add: conc_start_def)
  ultimately have "(conc_step ?R)\<^sup>*\<^sup>* (conc_start ?m)
      ((?s (PDone True) (store_u64 (head ?R) (0 + 1) ?m2))\<lparr>sent := [clip ?R ?pl]\<rparr>)"
    by (meson rtranclp.rtrancl_refl converse_rtranclp_into_rtranclp)
  moreover have "clip ?R ?pl = [7]" by (simp add: clip_def tiny_ring_def Buffer_read_only_def buffer_bytes_def)
  ultimately show ?thesis
    by (intro exI [of _ "(?s (PDone True) (store_u64 (head ?R) (0 + 1) ?m2))\<lparr>sent := [clip ?R ?pl]\<rparr>"])
      (simp add: conc_start_def)
qed

theorem spsc_interleaved_witness:
  "\<exists>s. (conc_step tiny_ring)\<^sup>*\<^sup>* (conc_start (replicate 26 0)) s \<and> ring_items tiny_ring (cmem s) = [[7]] \<and> got s = []"
proof -
  obtain s where s: "(conc_step tiny_ring)\<^sup>*\<^sup>* (conc_start (replicate 26 0)) s" "sent s = [[7]]" "got s = []"
    using tiny_run by blast
  have "length (sent s) < 2 ^ 64" by (simp add: s(2))
  from spsc_interleaved [OF tiny_ring_ok(1,2) s(1) this] show ?thesis using s by auto
qed

end
