(* ===== verification/ShmOrder.thy ===== *)
theory ShmOrder
  imports ShmConc
begin

text \<open>
  The ring of \<open>ipc/src/ipc/shm_spsc.hpp\<close> under the memory orders that the code asks for. The steps are
  those of \<open>ShmConc\<close>, but a load of a location that the other process writes may return an old value:
  an acquire load of a counter picks any state of the memory that is not older than the last one
  acquired, and everything before the release that wrote the counter is then visible; a relaxed
  or plain load picks any such state anew for each access and makes nothing visible. Loads
  return values that have been stored (no value out of thin air). Every location has one writer.
\<close>

section \<open>Memory orders of the accesses\<close>

text \<open>
  \<open>Own\<close>: stores, and loads of locations that the process writes itself. \<open>Acquire\<close>: the load of the
  other side's counter. \<open>Plain\<close>: the bytes of a slot and its length; the code loads the length
  with acquire, but it is stored relaxed and so carries nothing with it.
\<close>

datatype access = Own | Acquire | Plain

fun push_access :: "producer \<Rightarrow> access" where
  "push_access (PHead pl h) = Acquire"
| "push_access _ = Own"

fun pop_access :: "consumer \<Rightarrow> access" where
  "pop_access (CTail buf t) = Acquire"
| "pop_access (CLen buf t) = Plain"
| "pop_access (CCopy buf t n i) = (if i < n then Plain else Own)"
| "pop_access _ = Own"

section \<open>Both sides with stale loads\<close>

text \<open>The past states of the memory, oldest first, and how far each side has acquired them.\<close>

record Ordered = Conc +
  older :: "bytes list"
  prod_view :: nat
  cons_view :: nat

abbreviation states :: "Ordered \<Rightarrow> bytes list" where
  "states s \<equiv> older s @ [cmem s]"

definition may_read :: "Ordered \<Rightarrow> access \<Rightarrow> nat \<Rightarrow> nat \<Rightarrow> bool" where
  "may_read s a seen k \<longleftrightarrow> k \<le> length (older s) \<and> (if a = Own then k = length (older s) else seen \<le> k)"

definition write_back :: "access \<Rightarrow> bytes \<Rightarrow> Ordered \<Rightarrow> Ordered" where
  "write_back a m' s = (if a = Own then s\<lparr>older := states s, cmem := m'\<rparr> else s)"

definition view_after :: "access \<Rightarrow> nat \<Rightarrow> nat \<Rightarrow> nat" where
  "view_after a k seen = (if a = Acquire then k else seen)"

inductive ord_step :: "Ring \<Rightarrow> Ordered \<Rightarrow> Ordered \<Rightarrow> bool" for R where
  ord_call_push: "push_done (prod s) \<Longrightarrow> buffer_ok pl \<Longrightarrow> ord_step R s (s\<lparr>prod := PStart pl\<rparr>)"
| ord_run_push: "\<not> push_done (prod s) \<Longrightarrow> may_read s (push_access (prod s)) (prod_view s) k \<Longrightarrow>
    push_step R (prod s) (states s ! k) = (p', m') \<Longrightarrow>
    ord_step R s ((write_back (push_access (prod s)) m' s)
      \<lparr>prod := p', sent := sent s @ published R (prod s), prod_view := view_after (push_access (prod s)) k (prod_view s)\<rparr>)"
| ord_call_pop: "pop_done (cons s) \<Longrightarrow> buffer_ok buf \<Longrightarrow> ord_step R s (s\<lparr>cons := CStart buf\<rparr>)"
| ord_run_pop: "\<not> pop_done (cons s) \<Longrightarrow> may_read s (pop_access (cons s)) (cons_view s) k \<Longrightarrow>
    pop_step R (cons s) (states s ! k) = (c', m') \<Longrightarrow>
    ord_step R s ((write_back (pop_access (cons s)) m' s)
      \<lparr>cons := c', got := got s @ taken (cons s), cons_view := view_after (pop_access (cons s)) k (cons_view s)\<rparr>)"

definition ord_start :: "bytes \<Rightarrow> Ordered" where
  "ord_start m = Conc.extend (conc_start m) \<lparr>older = [], prod_view = 0, cons_view = 0\<rparr>"

text \<open>Loads that always return the newest value give the interleavings of \<open>ShmConc\<close>.\<close>

lemma interleaving_is_ordered:
  assumes "conc_step R (Conc.truncate s) c" "prod_view s \<le> length (older s)" "cons_view s \<le> length (older s)"
  shows "\<exists>s'. ord_step R s s' \<and> Conc.truncate s' = c"
  using assms(1)
proof (rule conc_stepE, goal_cases)
  case (1 pl)
  then show ?case using ord_call_push [of s pl R] by (auto simp: Conc.defs)
next
  case (2 p' m')
  have same: "push_access (prod s) \<noteq> Own \<Longrightarrow> m' = cmem s"
    using 2 by (cases "prod s") (auto simp: Conc.defs Let_def split: if_splits)
  let ?s = "(write_back (push_access (prod s)) m' s)\<lparr>prod := p', sent := sent s @ published R (prod s),
    prod_view := view_after (push_access (prod s)) (length (older s)) (prod_view s)\<rparr>"
  have "may_read s (push_access (prod s)) (prod_view s) (length (older s))" using assms(2) by (simp add: may_read_def)
  then have "ord_step R s ?s" using 2 by (intro ord_run_push) (simp_all add: Conc.defs)
  moreover have "Conc.truncate ?s = c" using same 2 by (simp add: Conc.defs write_back_def)
  ultimately show ?case by blast
next
  case (3 buf)
  then show ?case using ord_call_pop [of s buf R] by (auto simp: Conc.defs)
next
  case (4 c' m')
  have same: "pop_access (cons s) \<noteq> Own \<Longrightarrow> m' = cmem s"
    using 4 by (cases "cons s") (auto simp: Conc.defs Let_def split: if_splits)
  let ?s = "(write_back (pop_access (cons s)) m' s)\<lparr>cons := c', got := got s @ taken (cons s),
    cons_view := view_after (pop_access (cons s)) (length (older s)) (cons_view s)\<rparr>"
  have "may_read s (pop_access (cons s)) (cons_view s) (length (older s))" using assms(3) by (simp add: may_read_def)
  then have "ord_step R s ?s" using 4 by (intro ord_run_pop) (simp_all add: Conc.defs)
  moreover have "Conc.truncate ?s = c" using same 4 by (simp add: Conc.defs write_back_def)
  ultimately show ?case by blast
qed

section \<open>What the past keeps\<close>

abbreviation slot_bytes :: "Ring \<Rightarrow> bytes \<Rightarrow> nat \<Rightarrow> bytes" where
  "slot_bytes R m p \<equiv> read_bytes (slot_addr R (p mod ring_count R)) (ring_stride R) m"

text \<open>
  A message that some past state had published and that is still queued has been in its slot,
  unchanged, ever since.
\<close>

definition kept :: "Ring \<Rightarrow> bytes list \<Rightarrow> bytes \<Rightarrow> bool" where
  "kept R ms m \<longleftrightarrow> (\<forall>k < length ms. hd_pos R (ms ! k) \<le> hd_pos R m \<and> tl_pos R (ms ! k) \<le> tl_pos R m
     \<and> (\<forall>j p. k \<le> j \<longrightarrow> j < length ms \<longrightarrow> tl_pos R m \<le> p \<longrightarrow> p < hd_pos R (ms ! k) \<longrightarrow>
          slot_bytes R (ms ! j) p = slot_bytes R m p))"

lemma keptD:
  assumes "kept R ms m" "k < length ms"
  shows "hd_pos R (ms ! k) \<le> hd_pos R m" "tl_pos R (ms ! k) \<le> tl_pos R m"
    "k \<le> j \<Longrightarrow> j < length ms \<Longrightarrow> tl_pos R m \<le> p \<Longrightarrow> p < hd_pos R (ms ! k) \<Longrightarrow>
       slot_bytes R (ms ! j) p = slot_bytes R m p"
  using assms unfolding kept_def by blast+

lemma kept_snoc:
  assumes "kept R ms m" "hd_pos R m \<le> hd_pos R m'" "tl_pos R m \<le> tl_pos R m'"
    "\<And>p. tl_pos R m \<le> p \<Longrightarrow> p < hd_pos R m \<Longrightarrow> slot_bytes R m' p = slot_bytes R m p"
  shows "kept R (ms @ [m']) m'"
  unfolding kept_def
proof (intro allI impI)
  fix k assume k: "k < length (ms @ [m'])"
  show "hd_pos R ((ms @ [m']) ! k) \<le> hd_pos R m' \<and> tl_pos R ((ms @ [m']) ! k) \<le> tl_pos R m'
    \<and> (\<forall>j p. k \<le> j \<longrightarrow> j < length (ms @ [m']) \<longrightarrow> tl_pos R m' \<le> p \<longrightarrow> p < hd_pos R ((ms @ [m']) ! k) \<longrightarrow>
         slot_bytes R ((ms @ [m']) ! j) p = slot_bytes R m' p)"
  proof (cases "k < length ms")
    case True
    note d = keptD [OF assms(1) True]
    have "slot_bytes R ((ms @ [m']) ! j) p = slot_bytes R m' p"
      if "k \<le> j" "j < length (ms @ [m'])" "tl_pos R m' \<le> p" "p < hd_pos R (ms ! k)" for j p
    proof (cases "j < length ms")
      case True
      then show ?thesis using d(3) [of j p] d(1) assms(3) assms(4) [of p] that by (simp add: nth_append)
    qed (use that in \<open>simp add: nth_append\<close>)
    then show ?thesis using True d(1,2) assms(2,3) by (simp add: nth_append)
  next
    case False
    then have "k = length ms" using k by simp
    then show ?thesis by (auto simp: nth_append)
  qed
qed

text \<open>A step on the newest memory keeps the slots of the queue; only the consumer's counter lets one go.\<close>

lemma push_keeps_slots:
  assumes "ring_inv R m" "prod_inv R m p" "push_step R p m = (p', m')" "tl_pos R m \<le> q" "q < hd_pos R m"
  shows "slot_bytes R m' q = slot_bytes R m q"
proof -
  have g: "ring_geom R m" "0 < ring_count R" "head R + 8 \<le> ring_slots R" "ring_stride R = 4 + ring_max R"
    using assms(1) by (auto simp: ring_inv_def ring_geom_def)
  have q: "q mod ring_count R < ring_count R" using g(2) by simp
  have other: "slot_bytes R (write_bytes (slot_at R h + off) vs m) q = slot_bytes R m q"
    if "free_at R m h" "off + length vs \<le> ring_stride R" for h off vs
  proof (rule write_slot(4) [OF g(1) _ that(2) q])
    show "unat h mod ring_count R < ring_count R" using g(2) by simp
    have "unat h = hd_pos R m" "hd_pos R m - tl_pos R m < ring_count R"
      using that(1) by (auto simp: free_at_def hd_pos_def)
    then show "q mod ring_count R \<noteq> unat h mod ring_count R"
      using assms(4,5) by (intro mod_window_distinct) auto
  qed
  show ?thesis
  proof (cases p)
    case (PCopy pl h i)
    have "free_at R m h" "push_len R pl \<le> ring_max R" using assms(2) PCopy by auto
    then show ?thesis
      using other [of h "4 + i" "[data pl ! i]"] other [of h 0 "le_bytes 4 (unat (of_nat (push_len R pl) :: u32))"]
        assms(3) PCopy g(4) by (auto simp: store_u32_def add.assoc split: if_splits)
  next
    case (PPublish pl h)
    then have "m' = store_u64 (head R) (h + 1) m" using assms(3) by simp
    then show ?thesis
      using store_counter(3) [OF g(1,3)] slot_bounds [OF q] g by (simp add: ring_geom_def)
  qed (use assms(3) in \<open>auto simp: Let_def split: if_splits\<close>)
qed

lemma pop_keeps_slots:
  assumes "ring_inv R m" "pop_step R c m = (c', m')"
  shows "slot_bytes R m' q = slot_bytes R m q"
proof (cases c)
  case (CCopy buf t n i)
  have g: "ring_geom R m" "0 < ring_count R" "tail R + 8 \<le> ring_slots R"
    using assms(1) by (auto simp: ring_inv_def ring_geom_def)
  have q: "q mod ring_count R < ring_count R" using g(2) by simp
  have "m' = m \<or> m' = store_u64 (tail R) (t + 1) m" using assms(2) CCopy by (auto split: if_splits)
  then show ?thesis
    using store_counter(3) [OF g(1,3)] slot_bounds [OF q] g by (auto simp: ring_geom_def)
qed (use assms(2) in \<open>auto simp: Let_def split: if_splits\<close>)

section \<open>The invariant\<close>

text \<open>What a side learned from the counter it acquired last: there was room, or there was a message.\<close>

fun prod_synced :: "Ring \<Rightarrow> bytes \<Rightarrow> producer \<Rightarrow> bool" where
  "prod_synced R m (PCopy pl h i) \<longleftrightarrow> unat h - tl_pos R m < ring_count R"
| "prod_synced R m (PPublish pl h) \<longleftrightarrow> unat h - tl_pos R m < ring_count R"
| "prod_synced R m _ \<longleftrightarrow> True"

fun cons_synced :: "Ring \<Rightarrow> bytes \<Rightarrow> consumer \<Rightarrow> bool" where
  "cons_synced R m (CLen buf t) \<longleftrightarrow> unat t < hd_pos R m"
| "cons_synced R m (CCopy buf t n i) \<longleftrightarrow> unat t < hd_pos R m"
| "cons_synced R m _ \<longleftrightarrow> True"

definition ord_inv :: "Ring \<Rightarrow> Ordered \<Rightarrow> bool" where
  "ord_inv R s \<longleftrightarrow> conc_inv R (Conc.truncate s) \<and> kept R (states s) (cmem s)
     \<and> prod_view s \<le> length (older s) \<and> prod_synced R (states s ! prod_view s) (prod s)
     \<and> cons_view s \<le> length (older s) \<and> cons_synced R (states s ! cons_view s) (cons s)"

lemma ord_invD:
  assumes "ord_inv R s"
  shows "conc_inv R (Conc.truncate s)" "ring_inv R (cmem s)" "hd_pos R (cmem s) = length (sent s)"
    "tl_pos R (cmem s) = length (got s)" "prod_inv R (cmem s) (prod s)" "cons_inv R (cmem s) (cons s)"
    "kept R (states s) (cmem s)" "prod_view s \<le> length (older s)" "cons_view s \<le> length (older s)"
    "prod_synced R (states s ! prod_view s) (prod s)" "cons_synced R (states s ! cons_view s) (cons s)"
  using assms by (simp_all add: ord_inv_def conc_inv_def Conc.defs)

text \<open>A step on the newest memory: the next state is appended to the past.\<close>

lemma ord_push_own:
  assumes "ord_inv R s" "push_access (prod s) = Own" "\<not> push_done (prod s)" "push_step R (prod s) (cmem s) = (p', m')"
    "length (sent s @ published R (prod s)) < 2 ^ 64"
  shows "ord_inv R (s\<lparr>older := states s, cmem := m', prod := p', sent := sent s @ published R (prod s)\<rparr>)"
proof -
  note inv = ord_invD [OF assms(1)]
  have c: "conc_inv R (Conc.truncate s\<lparr>cmem := m', prod := p', sent := sent s @ published R (prod s)\<rparr>)"
    using push_step_inv [OF inv(1)] assms(4,5) by (simp add: Conc.defs)
  have grow: "hd_pos R (cmem s) \<le> hd_pos R m'" "tl_pos R (cmem s) \<le> tl_pos R m'"
    using c inv(3,4) by (simp_all add: conc_inv_def Conc.defs)
  have k: "kept R (states s @ [m']) m'"
    using push_keeps_slots [OF inv(2,5) assms(4)] by (intro kept_snoc [OF inv(7) grow])
  have "prod_synced R (states s ! prod_view s) p'"
    using assms(2,3,4) inv(10) by (cases "prod s") (auto split: if_splits)
  then show ?thesis
    using c k inv(8,9,11) by (auto simp: ord_inv_def Conc.defs nth_append le_less)
qed

lemma ord_pop_own:
  assumes "ord_inv R s" "pop_access (cons s) = Own" "\<not> pop_done (cons s)" "pop_step R (cons s) (cmem s) = (c', m')"
  shows "ord_inv R (s\<lparr>older := states s, cmem := m', cons := c', got := got s @ taken (cons s)\<rparr>)"
proof -
  note inv = ord_invD [OF assms(1)]
  have c: "conc_inv R (Conc.truncate s\<lparr>cmem := m', cons := c', got := got s @ taken (cons s)\<rparr>)"
    using pop_step_inv [OF inv(1)] assms(4) by (simp add: Conc.defs)
  have grow: "hd_pos R (cmem s) \<le> hd_pos R m'" "tl_pos R (cmem s) \<le> tl_pos R m'"
    using c inv(3,4) by (simp_all add: conc_inv_def Conc.defs)
  have k: "kept R (states s @ [m']) m'"
    using pop_keeps_slots [OF inv(2) assms(4)] by (intro kept_snoc [OF inv(7) grow])
  have "cons_synced R (states s ! cons_view s) c'"
    using assms(2,3,4) by (cases "cons s") (auto split: if_splits)
  then show ?thesis
    using c k inv(8,9,10) by (auto simp: ord_inv_def Conc.defs nth_append le_less)
qed

text \<open>An acquire load of an old counter errs on the safe side.\<close>

lemma ord_push_acquire:
  assumes "ord_inv R s" "prod s = PHead pl h" "k \<le> length (older s)" "push_step R (PHead pl h) (states s ! k) = (p', m')"
  shows "ord_inv R (s\<lparr>prod := p', prod_view := k\<rparr>)"
proof -
  note inv = ord_invD [OF assms(1)]
  let ?t = "load_u64 (tail R) (states s ! k)"
  have h: "unat h = hd_pos R (cmem s)" "load_u64 (head R) (cmem s) = h" "buffer_ok pl"
    using inv(5) assms(2) by (simp_all add: hd_pos_def)
  have t: "unat ?t \<le> tl_pos R (cmem s)" using keptD(2) [OF inv(7)] assms(3) by (simp add: tl_pos_def)
  have le: "tl_pos R (cmem s) \<le> hd_pos R (cmem s)" using inv(2) by (simp add: ring_inv_def)
  have fill: "unat (h - ?t) = unat h - unat ?t" using t le h(1) by (simp add: unat_sub word_le_nat_alt)
  show ?thesis
  proof (cases "unat (h - ?t) \<ge> ring_count R")
    case True
    then have "p' = PDone False" using assms(4) by simp
    then show ?thesis using assms(1,3) inv by (simp add: ord_inv_def conc_inv_def Conc.defs)
  next
    case False
    then have p': "p' = PCopy pl h 0" using assms(4) by (simp add: Let_def)
    have "prod_synced R (states s ! k) p'" using False fill by (simp add: p' tl_pos_def)
    moreover have "free_at R (cmem s) h" using False fill t h by (simp add: free_at_def)
    then have "prod_inv R (cmem s) p'" using h(3) by (simp add: p' read_bytes_def)
    ultimately show ?thesis using assms(3) inv by (simp add: ord_inv_def conc_inv_def Conc.defs)
  qed
qed

lemma ord_pop_acquire:
  assumes "ord_inv R s" "cons s = CTail buf t" "k \<le> length (older s)" "pop_step R (CTail buf t) (states s ! k) = (c', m')"
  shows "ord_inv R (s\<lparr>cons := c', cons_view := k\<rparr>)"
proof -
  note inv = ord_invD [OF assms(1)]
  have t: "load_u64 (tail R) (cmem s) = t" "buffer_ok buf" using inv(6) assms(2) by simp_all
  show ?thesis
  proof (cases "t \<ge> load_u64 (head R) (states s ! k)")
    case True
    then have "c' = CDone (Inr (False, buf))" using assms(4) by simp
    then show ?thesis using assms(1,3) inv by (simp add: ord_inv_def conc_inv_def Conc.defs)
  next
    case False
    then have c': "c' = CLen buf t" using assms(4) by (simp add: Let_def)
    have seen: "unat t < hd_pos R (states s ! k)" using False by (simp add: hd_pos_def word_le_nat_alt)
    also have "\<dots> \<le> hd_pos R (cmem s)" using keptD(1) [OF inv(7)] assms(3) by simp
    finally have "cons_inv R (cmem s) c'" using t by (simp add: c' full_at_def tl_pos_def)
    then show ?thesis using assms(3) inv seen by (simp add: ord_inv_def conc_inv_def Conc.defs c')
  qed
qed

text \<open>A plain load of the slot, from whatever state, returns the newest bytes.\<close>

lemma slot_stable:
  assumes "ord_inv R s" "full_at R (cmem s) t" "unat t < hd_pos R (states s ! cons_view s)"
    "cons_view s \<le> k" "k \<le> length (older s)"
  shows "read_bytes (slot_at R t) (ring_stride R) (states s ! k) = read_bytes (slot_at R t) (ring_stride R) (cmem s)"
proof -
  note inv = ord_invD [OF assms(1)]
  have "tl_pos R (cmem s) = unat t" using assms(2) by (simp add: full_at_def tl_pos_def)
  then show ?thesis using keptD(3) [OF inv(7), of "cons_view s" k "unat t"] inv(9) assms(3-5) by simp
qed

lemma bytes_of_slot:
  assumes "read_bytes a n m = read_bytes a n m'" "a + n \<le> length m'" "0 < n"
  shows "off + j \<le> n \<Longrightarrow> read_bytes (a + off) j m = read_bytes (a + off) j m'"
    "off < n \<Longrightarrow> m ! (a + off) = m' ! (a + off)"
proof -
  have "length (take n (drop a m)) = n" using assms(1,2) by (simp add: read_bytes_def)
  then have len: "a + n \<le> length m" using assms(3) by simp
  have eq: "m ! (a + i) = m' ! (a + i)" if "i < n" for i
    using arg_cong [OF assms(1), where f = "\<lambda>xs. xs ! i"] that assms(2) len by (simp add: nth_read_bytes)
  then show "off < n \<Longrightarrow> m ! (a + off) = m' ! (a + off)" .
  show "read_bytes (a + off) j m = read_bytes (a + off) j m'" if "off + j \<le> n"
    using eq [of "off + i" for i] that assms(2) len
    by (intro nth_equalityI) (auto simp: nth_read_bytes add.assoc)
qed

lemma ord_pop_plain:
  assumes "ord_inv R s" "pop_access (cons s) = Plain" "cons_view s \<le> k" "k \<le> length (older s)"
    "pop_step R (cons s) (states s ! k) = (c', m')"
  shows "ord_inv R (s\<lparr>cons := c', got := got s @ taken (cons s)\<rparr>)"
proof -
  note inv = ord_invD [OF assms(1)]
  obtain t where t: "full_at R (cmem s) t" "unat t < hd_pos R (states s ! cons_view s)"
    "(\<exists>buf. cons s = CLen buf t) \<or> (\<exists>buf n i. cons s = CCopy buf t n i \<and> i < n)"
    using assms(2) inv(6,11) by (cases "cons s") (auto split: if_splits)
  note stable = slot_stable [OF assms(1) t(1,2) assms(3,4)]
  have fit: "slot_at R t + ring_stride R \<le> length (cmem s)" "0 < ring_stride R" "ring_stride R = 4 + ring_max R"
    using free_slot_bounds(1,2) [OF inv(2)] by simp_all
  note bytes = bytes_of_slot [OF stable fit(1,2)]
  have len: "load_u32 (slot_at R t) (states s ! k) = load_u32 (slot_at R t) (cmem s)"
    using bytes(1) [of 0 4] fit(3) by (simp add: load_u32_def)
  have "\<exists>m. pop_step R (cons s) (cmem s) = (c', m) \<and> m = cmem s"
    using t(3)
  proof (elim disjE exE conjE)
    fix buf assume "cons s = CLen buf t"
    then show ?thesis using assms(5) len by (auto simp: Let_def)
  next
    fix buf n i assume c: "cons s = CCopy buf t n i" "i < n"
    have "n \<le> ring_max R"
      using inv(6) c(1) slot_val_length [of R "cmem s"] inv(2) free_slot_bounds(4) [OF inv(2), of t]
      by (simp add: ring_inv_def Let_def split: if_splits)
    then have "(states s ! k) ! (slot_at R t + (4 + i)) = cmem s ! (slot_at R t + (4 + i))"
      using c(2) fit(3) by (intro bytes(2)) simp
    then show ?thesis using assms(5) c by (auto simp: add.assoc)
  qed
  then have step: "pop_step R (cons s) (cmem s) = (c', cmem s)" by blast
  have "conc_inv R (Conc.truncate s\<lparr>cmem := cmem s, cons := c', got := got s @ taken (cons s)\<rparr>)"
    using pop_step_inv [OF inv(1)] step by (simp add: Conc.defs)
  moreover have "cons_synced R (states s ! cons_view s) c'"
    using t(2,3) step by (auto simp: Let_def split: if_splits)
  ultimately show ?thesis using inv(7-10) by (simp add: ord_inv_def Conc.defs)
qed

lemma ord_step_inv:
  "ord_step R s s' \<Longrightarrow> ord_inv R s \<Longrightarrow> length (sent s') < 2 ^ 64 \<Longrightarrow> ord_inv R s'"
proof (induction rule: ord_step.induct)
  case (ord_run_push s k p' m')
  show ?case
  proof (cases "push_access (prod s)")
    case Own
    then show ?thesis
      using ord_push_own [of R s p' m'] ord_run_push by (simp add: may_read_def write_back_def view_after_def)
  next
    case Acquire
    then obtain pl h where "prod s = PHead pl h" by (cases "prod s") auto
    then show ?thesis
      using ord_push_acquire [of R s pl h k p' m'] ord_run_push by (simp add: may_read_def write_back_def view_after_def)
  qed (cases "prod s"; simp)
next
  case (ord_run_pop s k c' m')
  show ?case
  proof (cases "pop_access (cons s)")
    case Own
    then show ?thesis
      using ord_pop_own [of R s c' m'] ord_run_pop by (simp add: may_read_def write_back_def view_after_def)
  next
    case Acquire
    then obtain buf t where "cons s = CTail buf t" by (cases "cons s") (auto split: if_splits)
    then show ?thesis
      using ord_pop_acquire [of R s buf t k c' m'] ord_run_pop by (simp add: may_read_def write_back_def view_after_def)
  next
    case Plain
    then show ?thesis
      using ord_pop_plain [of R s k c' m'] ord_run_pop by (simp add: may_read_def write_back_def view_after_def)
  qed
qed (simp_all add: ord_inv_def conc_inv_def Conc.defs)

lemma ord_sent_grows: "ord_step R s s' \<Longrightarrow> length (sent s) \<le> length (sent s')"
  by (induction rule: ord_step.induct) (simp_all add: write_back_def)

lemma ord_reachable_inv:
  assumes "(ord_step R)\<^sup>*\<^sup>* (ord_start m) s" "ring_inv R m" "hd_pos R m = 0" "length (sent s) < 2 ^ 64"
  shows "ord_inv R s"
  using assms(1,4)
proof (induction rule: rtranclp_induct)
  case base
  have "conc_inv R (conc_start m)" using reachable_inv [OF rtranclp.rtrancl_refl assms(2,3)] by (simp add: conc_start_def)
  moreover have "kept R [m] m" by (simp add: kept_def)
  ultimately show ?case by (simp add: ord_inv_def ord_start_def conc_start_def Conc.defs)
next
  case (step s s')
  then show ?case using ord_step_inv ord_sent_grows by (metis le_less_trans)
qed

section \<open>Release and acquire suffice\<close>

text \<open>
  C5: the memory orders of the code are enough. From an empty ring, in every state that concurrent
  pushes and pops can reach when loads of the other side's stores may be stale as far as acquire,
  release and relaxed permit, at most \<open>2 ^ 64 - 1\<close> of them successful: what the consumer has
  returned, followed by what the ring holds, is exactly what was published, in order; at most
  \<open>slot_count\<close> messages are in flight; while the consumer copies a slot, nobody has written it since
  the state whose head it acquired; and while the producer fills a slot, the release of that
  slot's previous message is part of what it acquired. So the \<open>memcpy\<close>s do not race.
\<close>

theorem spsc_release_acquire:
  assumes "ring_inv R m" "hd_pos R m = 0" "(ord_step R)\<^sup>*\<^sup>* (ord_start m) s" "length (sent s) < 2 ^ 64"
  shows "got s @ ring_items R (cmem s) = sent s
    \<and> length (sent s) \<le> length (got s) + ring_count R
    \<and> (\<forall>buf t n i k. cons s = CCopy buf t n i \<longrightarrow> cons_view s \<le> k \<longrightarrow> k \<le> length (older s) \<longrightarrow>
         read_bytes (slot_at R t) (ring_stride R) (states s ! k) = read_bytes (slot_at R t) (ring_stride R) (cmem s))
    \<and> (\<forall>pl h i. prod s = PCopy pl h i \<longrightarrow> unat h < tl_pos R (states s ! prod_view s) + ring_count R)"
proof -
  have inv: "ord_inv R s" by (rule ord_reachable_inv [OF assms(3,1,2,4)])
  note d = ord_invD [OF inv]
  have "hd_pos R (cmem s) - tl_pos R (cmem s) \<le> ring_count R" using d(2) by (simp add: ring_inv_def)
  then have "length (sent s) \<le> length (got s) + ring_count R" using d(3,4) by simp
  moreover have "got s @ ring_items R (cmem s) = sent s" using d(1) by (simp add: conc_inv_def Conc.defs)
  moreover have "read_bytes (slot_at R t) (ring_stride R) (states s ! k) = read_bytes (slot_at R t) (ring_stride R) (cmem s)"
    if "cons s = CCopy buf t n i" "cons_view s \<le> k" "k \<le> length (older s)" for buf t n i k
    using slot_stable [OF inv _ _ that(2,3)] d(6,11) that(1) by simp
  moreover have "unat h < tl_pos R (states s ! prod_view s) + ring_count R" if "prod s = PCopy pl h i" for pl h i
    using d(10) that by simp
  ultimately show ?thesis by blast
qed

text \<open>
  A pop that starts after a push has ended may still find the ring empty, because it may acquire an old head.
\<close>

lemma stale_run:
  "\<exists>s. (ord_step tiny_ring)\<^sup>*\<^sup>* (ord_start (replicate 26 0)) s \<and> sent s = [[7]] \<and> got s = []
     \<and> prod s = PDone True \<and> (\<exists>b. cons s = CDone (Inr (False, b)))"
proof -
  let ?pl = "Buffer_read_only [7]" and ?m = "replicate 26 0 :: bytes" and ?R = tiny_ring and ?b = "Buffer_read_only []"
  let ?m1 = "write_bytes (slot_at ?R 0 + 4 + 0) [data ?pl ! 0] ?m"
  let ?m2 = "store_u32 (slot_at ?R 0) (of_nat (push_len ?R ?pl)) ?m1"
  let ?m3 = "store_u64 (head ?R) (0 + 1) ?m2"
  let ?s = "\<lambda>p old m. (ord_start ?m)\<lparr>older := old, cmem := m, prod := p\<rparr>"
  let ?e = "\<lambda>c old. (?s (PDone True) old ?m3)\<lparr>sent := [clip ?R ?pl], cons := c\<rparr>"
  have go: "ord_step ?R (?s p old m) (?s p' (old @ [m]) m')"
    if "\<not> push_done p" "push_access p = Own" "push_step ?R p m = (p', m')" "published ?R p = []" for p old m p' m'
    using ord_run_push [of "?s p old m" "length old" ?R p' m'] that
    by (simp add: ord_start_def Conc.defs conc_start_def may_read_def write_back_def view_after_def)
  have len: "push_len ?R ?pl = 1" by (simp add: tiny_ring_def Buffer_read_only_def)
  have zero: "load_u64 (head ?R) ?m = 0" "load_u64 (tail ?R) ?m = 0" "ring_count ?R = 2"
    by (simp_all add: load_zeros tiny_ring_def)
  have "ord_step ?R (ord_start ?m) (?s (PStart ?pl) [] ?m)"
    using ord_call_push [of "ord_start ?m" ?pl ?R] by (simp add: ord_start_def Conc.defs conc_start_def)
  moreover have "ord_step ?R (?s (PStart ?pl) [] ?m) (?s (PHead ?pl 0) ([] @ [?m]) ?m)"
    by (rule go) (simp_all add: zero)
  moreover have "ord_step ?R (?s (PHead ?pl 0) ([] @ [?m]) ?m) (?s (PCopy ?pl 0 0) [?m] ?m)"
    using ord_run_push [of "?s (PHead ?pl 0) [?m] ?m" 0 ?R "PCopy ?pl 0 0" ?m]
    by (simp add: ord_start_def Conc.defs conc_start_def may_read_def write_back_def view_after_def zero)
  moreover have "ord_step ?R (?s (PCopy ?pl 0 0) [?m] ?m) (?s (PCopy ?pl 0 1) ([?m] @ [?m]) ?m1)"
    by (rule go) (simp_all only: push_step.simps len push_done.simps push_access.simps published.simps, simp_all)
  moreover have "ord_step ?R (?s (PCopy ?pl 0 1) ([?m] @ [?m]) ?m1) (?s (PPublish ?pl 0) (([?m] @ [?m]) @ [?m1]) ?m2)"
    by (rule go) (simp_all only: push_step.simps len push_done.simps push_access.simps published.simps, simp_all)
  moreover let ?o = "((([?m] @ [?m]) @ [?m1]) @ [?m2])"
  have "ord_step ?R (?s (PPublish ?pl 0) (([?m] @ [?m]) @ [?m1]) ?m2) (?e (CDone (Inr (False, ?b))) ?o)"
    using ord_run_push [of "?s (PPublish ?pl 0) (([?m] @ [?m]) @ [?m1]) ?m2" 3 ?R "PDone True" ?m3]
    by (simp add: ord_start_def Conc.defs conc_start_def may_read_def write_back_def view_after_def)
  moreover have "ord_step ?R (?e (CDone (Inr (False, ?b))) ?o) (?e (CStart ?b) ?o)"
    using ord_call_pop [of "?e (CDone (Inr (False, ?b))) ?o" ?b ?R] by (simp add: ord_start_def Conc.defs conc_start_def)
  moreover let ?t = "load_u64 (tail ?R) ?m3"
  have "ord_step ?R (?e (CStart ?b) ?o) (?e (CTail ?b ?t) (?o @ [?m3]))"
    using ord_run_pop [of "?e (CStart ?b) ?o" 4 ?R "CTail ?b ?t" ?m3]
    by (simp add: ord_start_def Conc.defs conc_start_def may_read_def write_back_def view_after_def)
  moreover have "ord_step ?R (?e (CTail ?b ?t) (?o @ [?m3])) (?e (CDone (Inr (False, ?b))) (?o @ [?m3]))"
    using ord_run_pop [of "?e (CTail ?b ?t) (?o @ [?m3])" 0 ?R "CDone (Inr (False, ?b))" ?m]
    by (simp add: ord_start_def Conc.defs conc_start_def may_read_def write_back_def view_after_def zero)
  ultimately have run: "(ord_step ?R)\<^sup>*\<^sup>* (ord_start ?m) (?e (CDone (Inr (False, ?b))) (?o @ [?m3]))"
    by (meson rtranclp.rtrancl_refl converse_rtranclp_into_rtranclp)
  have "clip ?R ?pl = [7]" by (simp add: clip_def tiny_ring_def Buffer_read_only_def buffer_bytes_def)
  then show ?thesis using run
    by (intro exI [of _ "?e (CDone (Inr (False, ?b))) (?o @ [?m3])"]) (simp add: ord_start_def Conc.defs conc_start_def)
qed

theorem spsc_release_acquire_witness:
  "\<exists>s b. (ord_step tiny_ring)\<^sup>*\<^sup>* (ord_start (replicate 26 0)) s \<and> prod s = PDone True
     \<and> cons s = CDone (Inr (False, b)) \<and> ring_items tiny_ring (cmem s) = [[7]]"
proof -
  obtain s b where s: "(ord_step tiny_ring)\<^sup>*\<^sup>* (ord_start (replicate 26 0)) s" "sent s = [[7]]" "got s = []"
    "prod s = PDone True" "cons s = CDone (Inr (False, b))"
    using stale_run by blast
  have "length (sent s) < 2 ^ 64" by (simp add: s(2))
  from spsc_release_acquire [OF tiny_ring_ok(1,2) s(1) this] show ?thesis using s by auto
qed

end
