(* ===== verification/ShmBounds.thy ===== *)
theory ShmBounds
  imports ShmSpsc
begin

text \<open>
  What \<open>ipc/src/ipc/shm_spsc.hpp\<close> touches when nothing is known of the contents of a region: the
  counters and length prefixes lie in memory that another process can write. The layout alone
  bounds every access. The last section shows what happens when the layout is not the object's.
\<close>

section \<open>Bytes outside given ranges\<close>

definition changes_only :: "(nat \<times> nat) list \<Rightarrow> bytes \<Rightarrow> bytes \<Rightarrow> bool" where
  "changes_only ivs m m' \<longleftrightarrow> length m' = length m
     \<and> (\<forall>i<length m. list_all (\<lambda>(a, b). i < a \<or> b \<le> i) ivs \<longrightarrow> m' ! i = m ! i)"

lemma changes_only_refl [simp]: "changes_only ivs m m"
  by (simp add: changes_only_def)

lemma changes_onlyI:
  assumes "length m' = length m"
    "\<And>a n. a + n \<le> length m \<Longrightarrow> list_all (\<lambda>(x, y). a + n \<le> x \<or> y \<le> a) ivs \<Longrightarrow> read_bytes a n m' = read_bytes a n m"
  shows "changes_only ivs m m'"
  unfolding changes_only_def
proof (intro conjI allI impI)
  fix i assume i: "i < length m" "list_all (\<lambda>(a, b). i < a \<or> b \<le> i) ivs"
  have "read_bytes i 1 m' = read_bytes i 1 m"
    by (rule assms(2)) (use i in \<open>auto simp: list_all_iff\<close>)
  then show "m' ! i = m ! i" using i(1) assms(1) by (simp add: read_bytes_def take_Suc hd_drop_conv_nth)
qed (rule assms(1))

section \<open>One ring with arbitrary contents\<close>

lemma push_contained:
  assumes "ring_geom R m" "buffer_ok pl" "shm_try_push_slot R pl m = (ok, m')"
  shows "changes_only [(head R, head R + 8), (ring_slots R, ring_end R)] m m'"
proof (cases "unat (load_u64 (head R) m - load_u64 (tail R) m) < ring_count R")
  case False
  then show ?thesis using assms(3) by (simp add: shm_try_push_slot_def)
next
  case True
  let ?i = "hd_pos R m mod ring_count R"
  have i: "?i < ring_count R" "length (clip R pl) \<le> ring_max R" using assms(1) by (simp_all add: ring_geom_def clip_def)
  note f = fill_slot_effect [OF assms(1) i]
  have g1: "ring_geom R (fill_slot R ?i (clip R pl) m)" using assms(1) ring_geom_length [OF f(1)] by simp
  have hb: "head R + 8 \<le> ring_slots R" using assms(1) by (simp add: ring_geom_def)
  note st = store_counter [OF g1 hb, where v = "load_u64 (head R) m + 1"]
  have m': "m' = store_u64 (head R) (load_u64 (head R) m + 1) (fill_slot R ?i (clip R pl) m)"
    using assms(3) push_unfold [OF assms(2) True] by simp
  show ?thesis
    unfolding m'
  proof (rule changes_onlyI)
    fix a n assume a: "a + n \<le> length m"
      "list_all (\<lambda>(x, y). a + n \<le> x \<or> y \<le> a) [(head R, head R + 8), (ring_slots R, ring_end R)]"
    then show "read_bytes a n (store_u64 (head R) (load_u64 (head R) m + 1) (fill_slot R ?i (clip R pl) m)) = read_bytes a n m"
      using st(3) [of a n] f(1) f(6) [of a n] by simp
  qed (simp add: st(1) f(1))
qed

lemma pop_contained:
  assumes "ring_geom R m" "buffer_ok buf"
  shows "case shm_try_pop_slot R buf m of
      Inl e \<Rightarrow> e = RuntimeError ''shm recv buffer too small''
    | Inr (ok, buf', m') \<Rightarrow> buffer_ok buf' \<and> capacity buf' = capacity buf
        \<and> changes_only [(0, buf_size buf')] (data buf) (data buf')
        \<and> (if ok then buf_size buf' \<le> ring_max R else buf' = buf \<and> m' = m)
        \<and> changes_only [(tail R, tail R + 8)] m m'"
proof -
  let ?t = "load_u64 (tail R) m" and ?h = "load_u64 (head R) m"
  let ?s = "slot_addr R (unat ?t mod ring_count R)"
  let ?c = "if unat (load_u32 ?s m) < ring_max R then unat (load_u32 ?s m) else ring_max R"
  have c: "0 < ring_count R" using assms(1) by (simp add: ring_geom_def)
  note b = slot_bounds [of "unat ?t mod ring_count R" R]
  have room: "?s + 4 + ?c \<le> length m" using b(2) assms(1) c by (auto simp: ring_geom_def)
  then have len: "length (read_bytes (?s + 4) ?c m) = ?c" by simp
  have tl: "tail R + 8 \<le> ring_slots R" using assms(1) by (simp add: ring_geom_def)
  note st = store_counter [OF assms(1) tl, where v = "?t + 1"]
  have mem: "changes_only [(tail R, tail R + 8)] m (store_u64 (tail R) (?t + 1) m)"
    by (rule changes_onlyI) (use st in simp_all)
  have buf: "buffer_ok (buf\<lparr>data := write_bytes 0 (read_bytes (?s + 4) ?c m) (data buf), buf_size := ?c\<rparr>)
      \<and> changes_only [(0, ?c)] (data buf) (write_bytes 0 (read_bytes (?s + 4) ?c m) (data buf))" if "?c \<le> capacity buf"
  proof -
    have l: "?c \<le> length (data buf)" using that assms(2) by (simp add: buffer_ok_def)
    then have "length (write_bytes 0 (read_bytes (?s + 4) ?c m) (data buf)) = length (data buf)"
      by (simp only: length_write_bytes len add_0)
    then show ?thesis using that assms(2) l len by (simp add: buffer_ok_def changes_only_def nth_write_bytes)
  qed
  show ?thesis
  proof (cases "?t \<ge> ?h")
    case True
    then show ?thesis using assms(2) by (simp add: shm_try_pop_slot_def)
  next
    case False
    show ?thesis
    proof (cases "?c > capacity buf")
      case True
      then show ?thesis using False by (simp add: shm_try_pop_slot_def Let_def)
    next
      case small: False
      have "shm_try_pop_slot R buf m = Inr (True, buf\<lparr>data := write_bytes 0 (read_bytes (?s + 4) ?c m) (data buf), buf_size := ?c\<rparr>,
          store_u64 (tail R) (?t + 1) m)"
        unfolding shm_try_pop_slot_def Let_def using False small by (simp only: if_False)
      then show ?thesis using buf small mem by simp
    qed
  qed
qed

section \<open>A region with arbitrary contents\<close>

text \<open>
  C16: whatever the shared bytes are, the endpoint operations stay inside their ring. For a region
  whose layout fits the mapping and any contents of counters, length prefixes and slots (a
  crashed, buggy or malicious peer): every counter value selects a slot whose prefix and payload
  lie inside the mapping; a send never raises and changes at most its own head counter and its own
  slot array; a receive either raises the one documented exception, or keeps the buffer inside its
  capacity, changes no byte of it beyond the reported size, reports at most \<open>max_payload\<close>, and
  changes at most its own tail counter.
\<close>

theorem contents_cannot_escape:
  assumes "region_geom r m" "buffer_ok pl" "buffer_ok buf"
  shows "(\<forall>pos. ring_slots (tx_ring r) \<le> slot_addr (tx_ring r) (pos mod slot_count r)
        \<and> slot_addr (tx_ring r) (pos mod slot_count r) + 4 + max_payload r \<le> length m
        \<and> ring_slots (rx_ring r) \<le> slot_addr (rx_ring r) (pos mod slot_count r)
        \<and> slot_addr (rx_ring r) (pos mod slot_count r) + 4 + max_payload r \<le> length m)
    \<and> (case ShmSpsc_try_send (Some r) pl m of Inl e \<Rightarrow> False
       | Inr (res, m') \<Rightarrow> changes_only [(head (tx_ring r), head (tx_ring r) + 8),
           (ring_slots (tx_ring r), ring_slots (tx_ring r) + slot_count r * (4 + max_payload r))] m m')
    \<and> (case ShmSpsc_try_recv (Some r) buf m of Inl e \<Rightarrow> e = RuntimeError ''shm recv buffer too small''
       | Inr (ok, buf', m') \<Rightarrow> buffer_ok buf' \<and> capacity buf' = capacity buf
           \<and> changes_only [(0, buf_size buf')] (data buf) (data buf')
           \<and> (if ok then buf_size buf' \<le> max_payload r else buf' = buf \<and> m' = m)
           \<and> changes_only [(tail (rx_ring r), tail (rx_ring r) + 8)] m m')"
proof -
  let ?T = "tx_ring r" and ?R = "rx_ring r"
  have g: "ring_geom ?T m" "ring_geom ?R m" using region_rings [OF assms(1)] by (simp_all add: tx_ring_def rx_ring_def)
  have dims: "ring_count ?T = slot_count r" "ring_count ?R = slot_count r" "ring_max ?T = max_payload r"
    "ring_max ?R = max_payload r" "0 < slot_count r"
    using assms(1) by (simp_all add: tx_ring_def rx_ring_def req_ring_def rep_ring_def region_geom_def)
  have stride: "ring_stride ?T = 4 + max_payload r" "ring_stride ?R = 4 + max_payload r"
    using g dims by (simp_all add: ring_geom_def)
  have slots: "ring_slots Q \<le> slot_addr Q (pos mod slot_count r) \<and> slot_addr Q (pos mod slot_count r) + 4 + max_payload r \<le> length m"
    if "Q = ?T \<or> Q = ?R" for Q pos
  proof -
    have "ring_count Q = slot_count r" "ring_stride Q = 4 + max_payload r" "ring_end Q \<le> length m"
      using that dims g stride by (auto simp: ring_geom_def)
    then show ?thesis using slot_bounds [of "pos mod slot_count r" Q] dims(5) by simp
  qed
  obtain ok m' where push: "shm_try_push_slot ?T pl m = (ok, m')" by fastforce
  have "case ShmSpsc_try_send (Some r) pl m of Inl e \<Rightarrow> False
      | Inr (res, m') \<Rightarrow> changes_only [(head ?T, head ?T + 8),
           (ring_slots ?T, ring_slots ?T + slot_count r * (4 + max_payload r))] m m'"
    using push_contained [OF g(1) assms(2) push] push dims(1) stride(1) by (simp add: ShmSpsc_try_send_def)
  moreover have "ShmSpsc_try_recv (Some r) buf m = shm_try_pop_slot ?R buf m" by (simp add: ShmSpsc_try_recv_def)
  ultimately show ?thesis
    using slots [of ?T] slots [of ?R] pop_contained [OF g(2) assms(3), unfolded dims(4)] by simp
qed

text \<open>A region of two slots of eight bytes, every byte of it 255.\<close>

theorem contents_cannot_escape_witness:
  "\<exists>res m'. ShmSpsc_try_send (Some demo_region) (Buffer_read_only [7]) (replicate 112 255) = Inr (res, m')
    \<and> length m' = 112 \<and> m' ! 0 = 255"
proof -
  have geom: "region_geom demo_region (replicate 112 255)"
    using demo_region_ok(1) by (simp add: region_inv_def region_geom_def demo_mem_def)
  have tx: "head (tx_ring demo_region) = 16" "ring_slots (tx_ring demo_region) = 88"
    by (simp_all add: tx_ring_def rep_ring_def demo_region_def shm_map_layout_def shm_slot_stride_def size_t_def Let_def)
  obtain ok m' where "shm_try_push_slot (tx_ring demo_region) (Buffer_read_only [7]) (replicate 112 255) = (ok, m')"
    by (rule prod.exhaust)
  then obtain res where s: "ShmSpsc_try_send (Some demo_region) (Buffer_read_only [7]) (replicate 112 255) = Inr (res, m')"
    by (simp add: ShmSpsc_try_send_def)
  from contents_cannot_escape [OF geom buffer_ok_views(1) buffer_ok_views(2), of "[7]" "[]"]
  have "changes_only [(16, 24), (88, 88 + slot_count demo_region * (4 + max_payload demo_region))] (replicate 112 255) m'"
    using s tx by simp
  then show ?thesis using s by (auto simp: changes_only_def)
qed

section \<open>A layout that is not the object's\<close>

text \<open>
  \<open>bind\<close> of a joining side neither reads the geometry from the region nor compares the size of the
  object with its own: a client with larger rings than the router's maps them all the same, and
  its first message to the last slots or to its reply ring lies beyond the end of the object.
\<close>

lemma join_unchecked:
  assumes "ns w nm = Some k" "shm_open_ok os" "mmap_ok os"
  shows "\<exists>r. shm_bind os (ShmBindParams_default\<lparr>bp_name := nm\<rparr>) w = (Inr r, w) \<and> obj r = k
    \<and> mapping_size r = 526400 \<and> rep_slots r = 263232"
  using assms by (simp add: shm_bind_def ShmBindParams_default_def shm_map_layout_def shm_region_size_def
      shm_slot_stride_def size_t_def Let_def)

end
