(* ===== verification/Datagram.thy ===== *)
theory Datagram
  imports Frame "HOL-Library.Signed_Division"
begin

text \<open>
  \<open>ipc/src/ipc/datagram.hpp\<close>: UDP and Unix-domain datagram sockets. The kernel is a table of
  sockets and the set of socket files that exist; \<open>NetOs\<close> says which calls it refuses (resource
  limits, permissions, absent receivers). What the next receive calls on a socket answer is a list
  in its state, exhausted meaning that nothing arrives before the receive timeout. Ports are kept
  in host order on both sides of \<open>htons\<close>/\<open>ntohs\<close>.
\<close>

section \<open>The kernel's side\<close>

datatype sockaddr = SockIn "u8 list" u16 | SockUn string

datatype errno = EAGAIN | EOTHER

text \<open>A datagram from an unbound Unix socket carries no address.\<close>

datatype recv_answer = Arrived "sockaddr option" bytes | Failure errno

record Sock =
  sk_bound :: "sockaddr option"
  sk_timeout :: "int \<times> int"
  sk_inbox :: "recv_answer list"
  sk_outbox :: "(sockaddr \<times> bytes) list"

record Kernel =
  next_fd :: nat
  socks :: "int \<Rightarrow> Sock option"
  paths :: "string set"

record NetOs =
  socket_ok :: bool
  setsockopt_ok :: bool
  bind_allowed :: "sockaddr \<Rightarrow> bool"
  send_ok :: "sockaddr \<Rightarrow> bytes \<Rightarrow> bool"

definition Sock_new :: Sock where
  "Sock_new = \<lparr>sk_bound = None, sk_timeout = (0, 0), sk_inbox = [], sk_outbox = []\<rparr>"

definition put_sock :: "int \<Rightarrow> Sock \<Rightarrow> Kernel \<Rightarrow> Kernel" where
  "put_sock fd s k = k\<lparr>socks := (socks k)(fd \<mapsto> s)\<rparr>"

definition sys_close :: "int \<Rightarrow> Kernel \<Rightarrow> Kernel" where
  "sys_close fd k = k\<lparr>socks := (socks k)(fd := None)\<rparr>"

definition sys_unlink :: "string \<Rightarrow> Kernel \<Rightarrow> Kernel" where
  "sys_unlink p k = k\<lparr>paths := paths k - {p}\<rparr>"

text \<open>
  \<open>bind(2)\<close>; the socket must not be bound yet and a Unix path must not exist. The flag is success.
\<close>

definition sys_bind :: "NetOs \<Rightarrow> int \<Rightarrow> sockaddr \<Rightarrow> Kernel \<Rightarrow> bool \<times> Kernel" where
  "sys_bind os fd a k =
     (case socks k fd of
        None \<Rightarrow> (False, k)
      | Some s \<Rightarrow>
          if sk_bound s \<noteq> None \<or> \<not> bind_allowed os a then (False, k)
          else case a of
            SockIn _ _ \<Rightarrow> (True, put_sock fd (s\<lparr>sk_bound := Some a\<rparr>) k)
          | SockUn p \<Rightarrow> if p \<in> paths k then (False, k)
              else (True, (put_sock fd (s\<lparr>sk_bound := Some a\<rparr>) k)\<lparr>paths := insert p (paths k)\<rparr>))"

definition sys_sendto :: "NetOs \<Rightarrow> int \<Rightarrow> sockaddr \<Rightarrow> bytes \<Rightarrow> Kernel \<Rightarrow> bool \<times> Kernel" where
  "sys_sendto os fd a x k =
     (case socks k fd of
        None \<Rightarrow> (False, k)
      | Some s \<Rightarrow> if send_ok os a x then (True, put_sock fd (s\<lparr>sk_outbox := sk_outbox s @ [(a, x)]\<rparr>) k)
                  else (False, k))"

text \<open>
  \<open>recvfrom(2)\<close> with a buffer of \<open>cap\<close> bytes: the next answer; a longer datagram is cut.
\<close>

definition sys_recvfrom :: "int \<Rightarrow> nat \<Rightarrow> Kernel \<Rightarrow> (errno + sockaddr option \<times> bytes) \<times> Kernel" where
  "sys_recvfrom fd cap k =
     (case socks k fd of
        None \<Rightarrow> (Inl EOTHER, k)
      | Some s \<Rightarrow> (case sk_inbox s of
          [] \<Rightarrow> (Inl EAGAIN, k)
        | Arrived from x # rest \<Rightarrow> (Inr (from, take cap x), put_sock fd (s\<lparr>sk_inbox := rest\<rparr>) k)
        | Failure e # rest \<Rightarrow> (Inl e, put_sock fd (s\<lparr>sk_inbox := rest\<rparr>) k)))"

text \<open>
  What \<open>sys_recvfrom\<close> says of an empty inbox, that the call fails with \<open>EAGAIN\<close>, is what happens when
  the receive timeout is over, or at once under \<open>MSG_DONTWAIT\<close>. A call without that flag on a
  socket without a timeout, which \<open>SO_RCVTIMEO\<close> 0 means, waits for ever: the loops below that call
  \<open>recv\<close> ask \<open>recvfrom_hangs\<close> first and then stay in that turn.
\<close>

definition recvfrom_hangs :: "int \<Rightarrow> Kernel \<Rightarrow> bool" where
  "recvfrom_hangs fd k \<longleftrightarrow>
     (case socks k fd of None \<Rightarrow> False | Some s \<Rightarrow> sk_inbox s = [] \<and> sk_timeout s = (0, 0))"

text \<open>
  \<open>inet_pton(AF_INET, ..)\<close>: four decimal numbers up to 255 without leading zeros. The arguments
  are the octets read so far (last first), whether the last one has a digit, and the rest.
\<close>

fun pton_loop :: "nat list \<Rightarrow> bool \<Rightarrow> string \<Rightarrow> u8 list option" where
  "pton_loop os saw [] = (if length os = 4 \<and> saw then Some (map of_nat (rev os)) else None)"
| "pton_loop os saw (ch # cs) =
     (let d = of_char ch - 48 :: nat in
      if 48 \<le> (of_char ch :: nat) \<and> (of_char ch :: nat) \<le> 57 then
        (if saw then
           (case os of [] \<Rightarrow> None
            | n # ns \<Rightarrow> if n = 0 \<or> n * 10 + d > 255 then None else pton_loop ((n * 10 + d) # ns) True cs)
         else if length os = 4 then None else pton_loop (d # os) True cs)
      else if ch = CHR ''.'' \<and> saw \<and> length os < 4 then pton_loop os False cs
      else None)"

definition inet_pton :: "string \<Rightarrow> u8 list option" where
  "inet_pton s = pton_loop [] False (c_str s)"

text \<open>\<open>strncpy\<close> into the 108 bytes of \<open>sun_path\<close>, of which the last stays NUL.\<close>

definition sun_path :: "string \<Rightarrow> string" where
  "sun_path p = take 107 (c_str p)"

section \<open>Sockets\<close>

text \<open>A \<open>Socket\<close> owns a descriptor, or \<open>-1\<close> after it was moved from.\<close>

record Socket =
  fd :: int

definition Socket_open :: "NetOs \<Rightarrow> Kernel \<Rightarrow> Socket res \<times> Kernel" where
  "Socket_open os k =
     (if \<not> socket_ok os then (Inl (RuntimeError ''failed to create socket''), k)
      else (Inr \<lparr>fd = int (next_fd k)\<rparr>,
            (put_sock (int (next_fd k)) Sock_new k)\<lparr>next_fd := Suc (next_fd k)\<rparr>))"

definition Socket_close :: "Socket \<Rightarrow> Kernel \<Rightarrow> Kernel" where
  "Socket_close s k = (if fd s \<ge> 0 then sys_close (fd s) k else k)"

text \<open>Move construction: the new socket and what is left of the other one.\<close>

definition Socket_move :: "Socket \<Rightarrow> Socket \<times> Socket" where
  "Socket_move other = (\<lparr>fd = fd other\<rparr>, other\<lparr>fd := -1\<rparr>)"

definition Socket_move_assign :: "Socket \<Rightarrow> Socket \<Rightarrow> Kernel \<Rightarrow> Socket \<times> Socket \<times> Kernel" where
  "Socket_move_assign this other k =
     (let k1 = (if fd this \<ge> 0 then sys_close (fd this) k else k)
      in (this\<lparr>fd := fd other\<rparr>, other\<lparr>fd := -1\<rparr>, k1))"

definition datagram_set_recv_timeout :: "NetOs \<Rightarrow> int \<Rightarrow> int \<Rightarrow> Kernel \<Rightarrow> unit res \<times> Kernel" where
  "datagram_set_recv_timeout os d ms k =
     (if \<not> setsockopt_ok os then (Inl (RuntimeError ''setsockopt SO_RCVTIMEO failed''), k)
      else case socks k d of
        None \<Rightarrow> (Inl (RuntimeError ''setsockopt SO_RCVTIMEO failed''), k)
      | Some s \<Rightarrow> (Inr (), put_sock d (s\<lparr>sk_timeout := (ms sdiv 1000, (ms smod 1000) * 1000)\<rparr>) k))"

definition datagram_set_reuseaddr :: "NetOs \<Rightarrow> int \<Rightarrow> Kernel \<Rightarrow> unit res \<times> Kernel" where
  "datagram_set_reuseaddr os d k =
     (if \<not> setsockopt_ok os \<or> socks k d = None
      then (Inl (RuntimeError ''setsockopt SO_REUSEADDR failed''), k) else (Inr (), k))"

section \<open>Receiving\<close>

text \<open>
  Both transports receive alike but for the message of the exception: \<open>tag\<close>. The address of the
  previous datagram stays in \<open>out.from\<close> when the kernel gives none.
\<close>

definition store_recv :: "sockaddr option \<Rightarrow> bytes \<Rightarrow> Buffer \<Rightarrow> sockaddr \<Rightarrow> Buffer \<times> sockaddr" where
  "store_recv from x buf out =
     (buf\<lparr>data := write_bytes 0 x (data buf), buf_size := length x\<rparr>,
      case from of None \<Rightarrow> out | Some a \<Rightarrow> a)"

definition dg_recv :: "string \<Rightarrow> int \<Rightarrow> Buffer \<Rightarrow> sockaddr \<Rightarrow> Kernel \<Rightarrow> (Buffer \<times> sockaddr) res \<times> Kernel" where
  "dg_recv tag d buf out k =
     (case sys_recvfrom d (capacity buf) k of
        (Inl _, k1) \<Rightarrow> (Inl (RuntimeError (tag @ '' recvfrom failed'')), k1)
      | (Inr (from, x), k1) \<Rightarrow> (Inr (store_recv from x buf out), k1))"

definition dg_try_recv :: "string \<Rightarrow> int \<Rightarrow> Buffer \<Rightarrow> sockaddr \<Rightarrow> Kernel \<Rightarrow>
    (bool \<times> Buffer \<times> sockaddr) res \<times> Kernel" where
  "dg_try_recv tag d buf out k =
     (case sys_recvfrom d (capacity buf) k of
        (Inl e, k1) \<Rightarrow> if e = EAGAIN then (Inr (False, buf, out), k1)
                        else (Inl (RuntimeError (tag @ '' recvfrom failed'')), k1)
      | (Inr (from, x), k1) \<Rightarrow> (Inr (True, store_recv from x buf out), k1))"

section \<open>UDP\<close>

definition Udp_open :: "NetOs \<Rightarrow> Kernel \<Rightarrow> Socket res \<times> Kernel" where
  "Udp_open os k = Socket_open os k"

definition Udp_set_recv_timeout :: "NetOs \<Rightarrow> Socket \<Rightarrow> int \<Rightarrow> Kernel \<Rightarrow> unit res \<times> Kernel" where
  "Udp_set_recv_timeout os h ms k = datagram_set_recv_timeout os (fd h) ms k"

definition Udp_bind :: "NetOs \<Rightarrow> Socket \<Rightarrow> u16 \<Rightarrow> Kernel \<Rightarrow> unit res \<times> Kernel" where
  "Udp_bind os h port k =
     (case datagram_set_reuseaddr os (fd h) k of
        (Inl e, k1) \<Rightarrow> (Inl e, k1)
      | (Inr _, k1) \<Rightarrow> (case sys_bind os (fd h) (SockIn [0, 0, 0, 0] port) k1 of
          (ok, k2) \<Rightarrow> if ok then (Inr (), k2) else (Inl (RuntimeError ''failed to bind socket''), k2)))"

definition Udp_send_to_addr :: "NetOs \<Rightarrow> int \<Rightarrow> sockaddr \<Rightarrow> Buffer \<Rightarrow> Kernel \<Rightarrow> unit res \<times> Kernel" where
  "Udp_send_to_addr os d dst pl k =
     (case sys_sendto os d dst (buffer_bytes pl) k of
        (ok, k1) \<Rightarrow> if ok then (Inr (), k1) else (Inl (RuntimeError ''udp sendto failed''), k1))"

definition Udp_send_to :: "NetOs \<Rightarrow> int \<Rightarrow> string \<Rightarrow> u16 \<Rightarrow> Buffer \<Rightarrow> Kernel \<Rightarrow> unit res \<times> Kernel" where
  "Udp_send_to os d host port pl k =
     (case inet_pton host of
        None \<Rightarrow> (Inl (RuntimeError ''invalid host''), k)
      | Some ip \<Rightarrow> Udp_send_to_addr os d (SockIn ip port) pl k)"

definition Udp_send :: "NetOs \<Rightarrow> Socket \<Rightarrow> string \<Rightarrow> u16 \<Rightarrow> Buffer \<Rightarrow> Kernel \<Rightarrow> unit res \<times> Kernel" where
  "Udp_send os h host port pl k =
     (case inet_pton host of
        None \<Rightarrow> (Inl (RuntimeError ''invalid host''), k)
      | Some ip \<Rightarrow> Udp_send_to_addr os (fd h) (SockIn ip port) pl k)"

definition Udp_recv :: "Socket \<Rightarrow> Buffer \<Rightarrow> sockaddr \<Rightarrow> Kernel \<Rightarrow> (Buffer \<times> sockaddr) res \<times> Kernel" where
  "Udp_recv h buf out k = dg_recv ''udp'' (fd h) buf out k"

definition Udp_try_recv :: "Socket \<Rightarrow> Buffer \<Rightarrow> sockaddr \<Rightarrow> Kernel \<Rightarrow> (bool \<times> Buffer \<times> sockaddr) res \<times> Kernel" where
  "Udp_try_recv h buf out k = dg_try_recv ''udp'' (fd h) buf out k"

definition Udp_echo :: "NetOs \<Rightarrow> Socket \<Rightarrow> sockaddr \<Rightarrow> Buffer \<Rightarrow> Kernel \<Rightarrow> unit res \<times> Kernel" where
  "Udp_echo os h from pl k = Udp_send_to_addr os (fd h) from pl k"

definition Udp_native_fd :: "Socket \<Rightarrow> int" where
  "Udp_native_fd h = fd h"

definition Udp_connect_or_send :: "NetOs \<Rightarrow> Socket \<Rightarrow> string \<Rightarrow> u16 \<Rightarrow> Buffer \<Rightarrow> Kernel \<Rightarrow> unit res \<times> Kernel" where
  "Udp_connect_or_send os h host port pl k = Udp_send os h host port pl k"

definition Udp_recv_from :: "Socket \<Rightarrow> Buffer \<Rightarrow> sockaddr \<Rightarrow> Kernel \<Rightarrow> (Buffer \<times> sockaddr) res \<times> Kernel" where
  "Udp_recv_from h buf out k = Udp_recv h buf out k"

section \<open>Unix-domain datagrams\<close>

definition Uds_open :: "NetOs \<Rightarrow> Kernel \<Rightarrow> Socket res \<times> Kernel" where
  "Uds_open os k = Socket_open os k"

definition Uds_set_recv_timeout :: "NetOs \<Rightarrow> Socket \<Rightarrow> int \<Rightarrow> Kernel \<Rightarrow> unit res \<times> Kernel" where
  "Uds_set_recv_timeout os h ms k = datagram_set_recv_timeout os (fd h) ms k"

definition Uds_bind :: "NetOs \<Rightarrow> Socket \<Rightarrow> string \<Rightarrow> Kernel \<Rightarrow> unit res \<times> Kernel" where
  "Uds_bind os h path k =
     (case datagram_set_reuseaddr os (fd h) k of
        (Inl e, k1) \<Rightarrow> (Inl e, k1)
      | (Inr _, k1) \<Rightarrow> (case sys_bind os (fd h) (SockUn (sun_path path)) (sys_unlink (c_str path) k1) of
          (ok, k2) \<Rightarrow> if ok then (Inr (), k2) else (Inl (RuntimeError ''uds bind failed''), k2)))"

definition Uds_send_to :: "NetOs \<Rightarrow> int \<Rightarrow> string \<Rightarrow> Buffer \<Rightarrow> Kernel \<Rightarrow> unit res \<times> Kernel" where
  "Uds_send_to os d path pl k =
     (case sys_sendto os d (SockUn (sun_path path)) (buffer_bytes pl) k of
        (ok, k1) \<Rightarrow> if ok then (Inr (), k1) else (Inl (RuntimeError ''uds sendto failed''), k1))"

definition Uds_send :: "NetOs \<Rightarrow> Socket \<Rightarrow> string \<Rightarrow> string \<Rightarrow> Buffer \<Rightarrow> Kernel \<Rightarrow> unit res \<times> Kernel" where
  "Uds_send os h server_path client_path pl k =
     (if client_path \<noteq> []
      then case sys_bind os (fd h) (SockUn (sun_path client_path)) (sys_unlink (c_str client_path) k) of
             (ok, k1) \<Rightarrow> if ok then Uds_send_to os (fd h) server_path pl k1
                          else (Inl (RuntimeError ''uds client bind failed''), k1)
      else Uds_send_to os (fd h) server_path pl k)"

definition Uds_recv :: "Socket \<Rightarrow> Buffer \<Rightarrow> sockaddr \<Rightarrow> Kernel \<Rightarrow> (Buffer \<times> sockaddr) res \<times> Kernel" where
  "Uds_recv h buf out k = dg_recv ''uds'' (fd h) buf out k"

definition Uds_try_recv :: "Socket \<Rightarrow> Buffer \<Rightarrow> sockaddr \<Rightarrow> Kernel \<Rightarrow> (bool \<times> Buffer \<times> sockaddr) res \<times> Kernel" where
  "Uds_try_recv h buf out k = dg_try_recv ''uds'' (fd h) buf out k"

fun path_of :: "sockaddr \<Rightarrow> string" where
  "path_of (SockUn p) = p"
| "path_of (SockIn _ _) = []"

definition Uds_echo :: "NetOs \<Rightarrow> Socket \<Rightarrow> sockaddr \<Rightarrow> Buffer \<Rightarrow> Kernel \<Rightarrow> unit res \<times> Kernel" where
  "Uds_echo os h from pl k = Uds_send_to os (fd h) (path_of from) pl k"

definition Uds_native_fd :: "Socket \<Rightarrow> int" where
  "Uds_native_fd h = fd h"

definition Uds_connect_or_send :: "NetOs \<Rightarrow> Socket \<Rightarrow> string \<Rightarrow> string \<Rightarrow> Buffer \<Rightarrow> Kernel \<Rightarrow> unit res \<times> Kernel" where
  "Uds_connect_or_send os h server_path client_path pl k = Uds_send os h server_path client_path pl k"

definition Uds_recv_from :: "Socket \<Rightarrow> Buffer \<Rightarrow> sockaddr \<Rightarrow> Kernel \<Rightarrow> (Buffer \<times> sockaddr) res \<times> Kernel" where
  "Uds_recv_from h buf out k = Uds_recv h buf out k"

section \<open>Properties of the sockets\<close>

lemma sys_unlink_simps [simp]:
  "socks (sys_unlink p k) = socks k" "paths (sys_unlink p k) = paths k - {p}"
  by (simp_all add: sys_unlink_def)

lemma put_sock_simps [simp]:
  "socks (put_sock d s k) = (socks k)(d \<mapsto> s)" "paths (put_sock d s k) = paths k"
  by (simp_all add: put_sock_def)

lemma sun_path_short: "length (c_str p) \<le> 107 \<Longrightarrow> sun_path p = c_str p"
  by (simp add: sun_path_def)

text \<open>
  Binding a Unix-domain endpoint over the leftovers of a crashed process. When the kernel
  permits the address, \<open>Uds::bind\<close> succeeds whether or not a socket file of that path already
  exists, provided the path fits \<open>sun_path\<close>; a longer path is unlinked under its full name but
  bound under the first 107 characters, so that a file left under the cut name makes it fail.
\<close>

lemma uds_bind_replaces_stale:
  assumes "socks k (fd h) = Some s" "sk_bound s = None" "setsockopt_ok os" "bind_allowed os (SockUn (sun_path p))"
  shows "(length (c_str p) \<le> 107 \<longrightarrow>
      (\<exists>k'. Uds_bind os h p k = (Inr (), k') \<and> paths k' = insert (c_str p) (paths k)
        \<and> socks k' = (socks k)(fd h \<mapsto> s\<lparr>sk_bound := Some (SockUn (c_str p))\<rparr>)))
    \<and> (length (c_str p) > 107 \<longrightarrow> sun_path p \<in> paths k \<longrightarrow>
      fst (Uds_bind os h p k) = Inl (RuntimeError ''uds bind failed''))"
proof (intro conjI impI)
  assume short: "length (c_str p) \<le> 107"
  have "Uds_bind os h p k = (Inr (),
      (put_sock (fd h) (s\<lparr>sk_bound := Some (SockUn (c_str p))\<rparr>) (sys_unlink (c_str p) k))
        \<lparr>paths := insert (c_str p) (paths k - {c_str p})\<rparr>)"
    using assms short by (simp add: Uds_bind_def datagram_set_reuseaddr_def sys_bind_def sun_path_short)
  then show "\<exists>k'. Uds_bind os h p k = (Inr (), k') \<and> paths k' = insert (c_str p) (paths k)
      \<and> socks k' = (socks k)(fd h \<mapsto> s\<lparr>sk_bound := Some (SockUn (c_str p))\<rparr>)"
    by simp
next
  assume long: "length (c_str p) > 107" "sun_path p \<in> paths k"
  have "length (sun_path p) = 107" using long(1) by (simp add: sun_path_def)
  then have "sun_path p \<noteq> c_str p" using long(1) by auto
  then show "fst (Uds_bind os h p k) = Inl (RuntimeError ''uds bind failed'')"
    using assms long(2) by (simp add: Uds_bind_def datagram_set_reuseaddr_def sys_bind_def)
qed

definition demo_os :: NetOs where
  "demo_os = \<lparr>socket_ok = True, setsockopt_ok = True, bind_allowed = (\<lambda>_. True), send_ok = (\<lambda>_ _. True)\<rparr>"

definition demo_kernel :: Kernel where
  "demo_kernel = \<lparr>next_fd = 4, socks = [3 \<mapsto> Sock_new], paths = {''/tmp/a''}\<rparr>"

lemma uds_bind_replaces_stale_witness:
  "\<exists>k'. Uds_bind demo_os \<lparr>fd = 3\<rparr> ''/tmp/a'' demo_kernel = (Inr (), k') \<and> paths k' = {''/tmp/a''}"
proof -
  have c: "c_str ''/tmp/a'' = ''/tmp/a''" by (simp add: c_str_def)
  show ?thesis
    using uds_bind_replaces_stale [of demo_kernel "\<lparr>fd = 3\<rparr>" Sock_new demo_os "''/tmp/a''"]
    unfolding c by (auto simp: demo_kernel_def demo_os_def Sock_new_def)
qed

text \<open>
  Ownership of descriptors: a moved-from socket closes nothing, so that destroying both ends of a
  move closes the descriptor once.
\<close>

lemma move_closes_once:
  "Socket_move s = (a, b) \<Longrightarrow> Socket_close b k = k \<and> Socket_close a k = Socket_close s k"
  by (auto simp: Socket_move_def Socket_close_def)

end
