(* ===== verification/Ownership.thy ===== *)
theory Ownership
  imports Datagram
begin

text \<open>
  Ownership of descriptors by the \<open>Socket\<close> objects of \<open>ipc/src/ipc/datagram.hpp\<close>: a process is its
  live objects and the kernel, and may construct, move, assign, destroy and use them in any order.
\<close>

section \<open>A process and its objects\<close>

record SocketProc =
  live :: "nat \<rightharpoonup> Socket"
  kern :: Kernel

text \<open>Construction, the two moves, destruction, and every operation of the transports on an object.\<close>

inductive own_step :: "SocketProc \<Rightarrow> SocketProc \<Rightarrow> bool" where
  own_open: "live p x = None \<Longrightarrow> Socket_open os (kern p) = (Inr s, k) \<Longrightarrow>
    own_step p (p\<lparr>live := (live p)(x \<mapsto> s), kern := k\<rparr>)"
| own_open_fails: "Socket_open os (kern p) = (Inl e, k) \<Longrightarrow> own_step p (p\<lparr>kern := k\<rparr>)"
| own_move: "live p y = Some t \<Longrightarrow> live p x = None \<Longrightarrow> x \<noteq> y \<Longrightarrow> Socket_move t = (a, b) \<Longrightarrow>
    own_step p (p\<lparr>live := (live p)(x \<mapsto> a, y \<mapsto> b)\<rparr>)"
| own_assign: "live p x = Some s \<Longrightarrow> live p y = Some t \<Longrightarrow> x \<noteq> y \<Longrightarrow>
    Socket_move_assign s t (kern p) = (a, b, k) \<Longrightarrow>
    own_step p (p\<lparr>live := (live p)(x \<mapsto> a, y \<mapsto> b), kern := k\<rparr>)"
| own_destroy: "live p x = Some s \<Longrightarrow>
    own_step p (p\<lparr>live := (live p)(x := None), kern := Socket_close s (kern p)\<rparr>)"
| own_udp_bind: "live p x = Some s \<Longrightarrow> Udp_bind os s port (kern p) = (r, k) \<Longrightarrow> own_step p (p\<lparr>kern := k\<rparr>)"
| own_uds_bind: "live p x = Some s \<Longrightarrow> Uds_bind os s path (kern p) = (r, k) \<Longrightarrow> own_step p (p\<lparr>kern := k\<rparr>)"
| own_timeout: "live p x = Some s \<Longrightarrow> datagram_set_recv_timeout os (fd s) ms (kern p) = (r, k) \<Longrightarrow>
    own_step p (p\<lparr>kern := k\<rparr>)"
| own_udp_send: "live p x = Some s \<Longrightarrow> Udp_send os s host port pl (kern p) = (r, k) \<Longrightarrow> own_step p (p\<lparr>kern := k\<rparr>)"
| own_uds_send: "live p x = Some s \<Longrightarrow> Uds_send os s srv cli pl (kern p) = (r, k) \<Longrightarrow> own_step p (p\<lparr>kern := k\<rparr>)"
| own_recv: "live p x = Some s \<Longrightarrow> dg_recv tag (fd s) buf out (kern p) = (r, k) \<Longrightarrow> own_step p (p\<lparr>kern := k\<rparr>)"
| own_try_recv: "live p x = Some s \<Longrightarrow> dg_try_recv tag (fd s) buf out (kern p) = (r', k) \<Longrightarrow>
    own_step p (p\<lparr>kern := k\<rparr>)"

section \<open>Using a socket neither opens nor closes one\<close>

definition same_open :: "Kernel \<Rightarrow> Kernel \<Rightarrow> bool" where
  "same_open k k' \<longleftrightarrow> dom (socks k') = dom (socks k) \<and> next_fd k' = next_fd k"

named_theorems keeps_open

lemma same_open_refl [simp]: "same_open k k"
  by (simp add: same_open_def)

lemma same_open_trans: "same_open k k1 \<Longrightarrow> same_open k1 k2 \<Longrightarrow> same_open k k2"
  by (simp add: same_open_def)

lemma same_open_put [intro]: "socks k d = Some s \<Longrightarrow> same_open k (put_sock d s' k)"
  by (auto simp: same_open_def put_sock_def)

lemma same_open_paths [simp]: "same_open k (k'\<lparr>paths := ps\<rparr>) = same_open k k'" "same_open k (sys_unlink q k)"
  by (simp_all add: same_open_def sys_unlink_def)

lemma same_open_bind [keeps_open]: "sys_bind os d a k = (r, k') \<Longrightarrow> same_open k k'"
  by (auto simp: sys_bind_def split: option.splits if_splits sockaddr.splits)

lemma same_open_sendto [keeps_open]: "sys_sendto os d a x k = (r, k') \<Longrightarrow> same_open k k'"
  by (auto simp: sys_sendto_def split: option.splits if_splits)

lemma same_open_recvfrom [keeps_open]: "sys_recvfrom d n k = (r, k') \<Longrightarrow> same_open k k'"
  by (auto simp: sys_recvfrom_def split: option.splits list.splits recv_answer.splits)

lemma same_open_reuse [keeps_open]: "datagram_set_reuseaddr os d k = (r, k') \<Longrightarrow> k' = k"
  by (auto simp: datagram_set_reuseaddr_def split: if_splits)

lemma same_open_timeout [keeps_open]: "datagram_set_recv_timeout os d ms k = (r, k') \<Longrightarrow> same_open k k'"
  by (auto simp: datagram_set_recv_timeout_def split: option.splits if_splits)

lemma same_open_udp_bind [keeps_open]: "Udp_bind os h port k = (r, k') \<Longrightarrow> same_open k k'"
  by (auto simp: Udp_bind_def split: sum.splits prod.splits if_splits dest!: same_open_reuse dest: same_open_bind)

lemma same_open_uds_bind [keeps_open]: "Uds_bind os h path k = (r, k') \<Longrightarrow> same_open k k'"
  by (auto simp: Uds_bind_def split: sum.splits prod.splits if_splits dest!: same_open_reuse same_open_bind
      intro: same_open_trans [OF same_open_paths(2)])

lemma same_open_udp_send [keeps_open]: "Udp_send os h host port pl k = (r, k') \<Longrightarrow> same_open k k'"
  by (auto simp: Udp_send_def Udp_send_to_addr_def split: option.splits prod.splits if_splits dest: same_open_sendto)

lemma same_open_uds_send [keeps_open]: "Uds_send os h srv cli pl k = (r, k') \<Longrightarrow> same_open k k'"
  by (auto simp: Uds_send_def Uds_send_to_def split: prod.splits if_splits dest!: same_open_sendto same_open_bind
      intro: same_open_trans same_open_trans [OF same_open_paths(2)])

lemma same_open_recv [keeps_open]: "dg_recv tag d buf out k = (r, k') \<Longrightarrow> same_open k k'"
  by (auto simp: dg_recv_def split: sum.splits prod.splits dest: same_open_recvfrom)

lemma same_open_try_recv [keeps_open]: "dg_try_recv tag d buf out k = (r', k') \<Longrightarrow> same_open k k'"
  by (auto simp: dg_try_recv_def split: sum.splits prod.splits if_splits dest: same_open_recvfrom)

section \<open>Every open descriptor has one owner\<close>

text \<open>
  The descriptor that the object named \<open>x\<close> holds, negative for none, and the discipline: the open
  descriptors are the ones that are held, and no two objects hold the same.
\<close>

definition held :: "SocketProc \<Rightarrow> nat \<Rightarrow> int" where
  "held p x = (case live p x of None \<Rightarrow> -1 | Some s \<Rightarrow> fd s)"

definition disciplined :: "(nat \<Rightarrow> int) \<Rightarrow> int set \<Rightarrow> int \<Rightarrow> bool" where
  "disciplined h D n \<longleftrightarrow> (\<forall>d. d \<in> D \<longleftrightarrow> 0 \<le> d \<and> (\<exists>x. h x = d))
     \<and> (\<forall>x y. 0 \<le> h x \<longrightarrow> h x = h y \<longrightarrow> x = y) \<and> (\<forall>x. h x < n)"

lemma disciplinedD:
  assumes "disciplined h D n"
  shows "d \<in> D \<longleftrightarrow> 0 \<le> d \<and> (\<exists>x. h x = d)" "0 \<le> h x \<Longrightarrow> h x = h y \<Longrightarrow> x = y" "h x < n"
  using assms by (simp_all add: disciplined_def)

lemma disciplined_open:
  assumes "disciplined h D n" "h x < 0" "0 \<le> n"
  shows "disciplined (h(x := n)) (insert n D) (n + 1)"
proof -
  note D = disciplinedD [OF assms(1)]
  have fresh: "h y \<noteq> n" for y using D(3) [of y] by simp
  have held: "(\<exists>y. (h(x := n)) y = d) \<longleftrightarrow> d = n \<or> (\<exists>y. h y = d)" if "0 \<le> d" for d
    using assms(2) that by (metis fun_upd_apply linorder_not_less)
  have "d \<in> insert n D \<longleftrightarrow> 0 \<le> d \<and> (\<exists>y. (h(x := n)) y = d)" for d
    using D(1) [of d] assms(3) by (cases "0 \<le> d") (auto simp only: held insert_iff)
  moreover have "y = z" if "0 \<le> (h(x := n)) y" "(h(x := n)) y = (h(x := n)) z" for y z
    using that D(2) [of y z] fresh by (cases "y = x"; cases "z = x") (simp_all, metis)
  moreover have "(h(x := n)) y < n + 1" for y using D(3) [of y] by simp
  ultimately show ?thesis unfolding disciplined_def by blast
qed

lemma disciplined_drop:
  assumes "disciplined h D n" "0 \<le> n"
  shows "disciplined (h(x := -1)) (D - {h x}) n"
proof -
  note D = disciplinedD [OF assms(1)]
  have held: "(\<exists>y. (h(x := -1)) y = d) \<longleftrightarrow> d \<noteq> h x \<and> (\<exists>y. h y = d)" if "0 \<le> d" for d
  proof
    assume "\<exists>y. (h(x := -1)) y = d"
    then obtain y where y: "(h(x := -1)) y = d" by blast
    with that have "y \<noteq> x" by auto
    with y have "y \<noteq> x" "h y = d" by simp_all
    then show "d \<noteq> h x \<and> (\<exists>y. h y = d)" using D(2) [of y x] that by auto
  next
    assume "d \<noteq> h x \<and> (\<exists>y. h y = d)"
    then show "\<exists>y. (h(x := -1)) y = d" by (metis fun_upd_apply)
  qed
  have "d \<in> D - {h x} \<longleftrightarrow> 0 \<le> d \<and> (\<exists>y. (h(x := -1)) y = d)" for d
    using D(1) [of d] held [of d] by (cases "0 \<le> d") (simp_all only: simp_thms Diff_iff singleton_iff conj_comms)
  moreover have "y = z" if "0 \<le> (h(x := -1)) y" "(h(x := -1)) y = (h(x := -1)) z" for y z
    using that D(2) [of y z] by (auto split: if_splits)
  moreover have "(h(x := -1)) y < n" for y using D(3) [of y] assms(2) by simp
  ultimately show ?thesis unfolding disciplined_def by blast
qed

lemma disciplined_move:
  assumes "disciplined h D n" "h x < 0" "x \<noteq> y" "0 \<le> n"
  shows "disciplined (h(x := h y, y := -1)) D n"
proof -
  let ?h = "h(x := h y, y := -1)"
  note D = disciplinedD [OF assms(1)]
  have held: "(\<exists>z. ?h z = d) \<longleftrightarrow> (\<exists>z. h z = d)" if "0 \<le> d" for d
  proof
    assume "\<exists>z. h z = d"
    then obtain z where z: "h z = d" by blast
    then have "?h (if z = y then x else z) = d" using assms(2,3) that by auto
    then show "\<exists>z. ?h z = d" by blast
  next
    assume "\<exists>z. ?h z = d"
    then show "\<exists>z. h z = d" using that by (auto split: if_splits)
  qed
  have "d \<in> D \<longleftrightarrow> 0 \<le> d \<and> (\<exists>z. ?h z = d)" for d
    using D(1) [of d] held [of d] by (cases "0 \<le> d") (simp_all only: simp_thms)
  moreover have "u = v" if "0 \<le> ?h u" "?h u = ?h v" for u v
  proof -
    define was where "was z = (if z = x then y else z)" for z
    have "?h z = h (was z) \<and> was z \<noteq> x" if "0 \<le> ?h z" "z \<noteq> y" for z
      using that assms(3) by (simp add: was_def split: if_splits)
    moreover have "u \<noteq> y" "v \<noteq> y" using that by auto
    ultimately have "was u = was v" using that D(2) [of "was u" "was v"] by metis
    then show ?thesis using \<open>u \<noteq> y\<close> \<open>v \<noteq> y\<close> by (auto simp: was_def split: if_splits)
  qed
  moreover have "?h u < n" for u using D(3) [of u] D(3) [of y] assms(4) by simp
  ultimately show ?thesis unfolding disciplined_def by blast
qed

definition owned :: "SocketProc \<Rightarrow> bool" where
  "owned p \<longleftrightarrow> disciplined (held p) (dom (socks (kern p))) (int (next_fd (kern p)))"

lemma owned_use: "owned p \<Longrightarrow> same_open (kern p) k \<Longrightarrow> owned (p\<lparr>kern := k\<rparr>)"
  by (simp add: owned_def same_open_def held_def [abs_def])

lemma held_upd:
  "held (p\<lparr>live := (live p)(x \<mapsto> s), kern := k\<rparr>) = (held p)(x := fd s)"
  "held (p\<lparr>live := (live p)(x \<mapsto> s, y \<mapsto> t), kern := k\<rparr>) = (held p)(x := fd s, y := fd t)"
  "held (p\<lparr>live := (live p)(x \<mapsto> s, y \<mapsto> t)\<rparr>) = (held p)(x := fd s, y := fd t)"
  "held (p\<lparr>live := (live p)(x := None), kern := k\<rparr>) = (held p)(x := -1)"
  by (auto simp: held_def fun_eq_iff)

lemma dom_close: "dom (socks (sys_close d k)) = dom (socks k) - {d}" "next_fd (sys_close d k) = next_fd k"
  by (simp_all add: sys_close_def)

lemma negative_closed: "owned p \<Longrightarrow> d < 0 \<Longrightarrow> d \<notin> dom (socks (kern p))"
  by (auto simp: owned_def disciplined_def)

lemma own_step_owned:
  assumes "own_step p p'" "owned p"
  shows "owned p'"
  using assms
proof (induction rule: own_step.induct)
  case (own_open p x os s k)
  have s: "fd s = int (next_fd (kern p))" "dom (socks k) = insert (int (next_fd (kern p))) (dom (socks (kern p)))"
    "int (next_fd k) = int (next_fd (kern p)) + 1"
    using own_open.hyps(2) by (auto simp: Socket_open_def split: if_splits)
  have "held p x < 0" using own_open.hyps(1) by (simp add: held_def)
  from disciplined_open [OF own_open.prems [unfolded owned_def] this] show ?case by (simp add: owned_def held_upd s)
next
  case (own_open_fails os p e k)
  then show ?case by (auto simp: Socket_open_def split: if_splits)
next
  case (own_move p y t x a b)
  have "held p x < 0" "held p y = fd t" "fd a = fd t" "fd b = -1"
    using own_move.hyps by (auto simp: held_def Socket_move_def)
  then show ?case
    using disciplined_move [OF own_move.prems [unfolded owned_def] _ own_move.hyps(3)] by (simp add: owned_def held_upd)
next
  case (own_assign p x s y t a b k)
  have h: "held p x = fd s" "held p y = fd t" "fd a = fd t" "fd b = -1"
    "k = (if fd s \<ge> 0 then sys_close (fd s) (kern p) else kern p)"
    using own_assign.hyps by (auto simp: held_def Socket_move_assign_def Let_def)
  have k: "dom (socks k) = dom (socks (kern p)) - {fd s}" "next_fd k = next_fd (kern p)"
    using negative_closed [OF own_assign.prems, of "fd s"] by (auto simp: h(5) dom_close)
  from disciplined_drop [OF own_assign.prems [unfolded owned_def] of_nat_0_le_iff, of x]
  have "disciplined ((held p)(x := -1)) (dom (socks k)) (int (next_fd k))" by (simp add: k h(1))
  from disciplined_move [OF this _ own_assign.hyps(3)] own_assign.hyps(3) show ?case
    by (simp add: owned_def held_upd h(2-4))
next
  case (own_destroy p x s)
  have h: "held p x = fd s" using own_destroy.hyps by (simp add: held_def)
  have "dom (socks (Socket_close s (kern p))) = dom (socks (kern p)) - {fd s}"
    "next_fd (Socket_close s (kern p)) = next_fd (kern p)"
    using negative_closed [OF own_destroy.prems, of "fd s"] by (auto simp: Socket_close_def dom_close)
  then show ?case
    using disciplined_drop [OF own_destroy.prems [unfolded owned_def] of_nat_0_le_iff, of x] by (simp add: owned_def held_upd h)
qed (auto intro: owned_use keeps_open)

text \<open>
  C23: descriptors are owned like values of a linear type. Start a process with no object and no
  socket, and let it construct, move, assign, destroy and use sockets in any order, with any of
  the calls failing: at every moment the open descriptors are exactly those held by live objects,
  and no two objects hold the same one. So no descriptor is closed twice or used after its close,
  and when every object is gone, none is left open.
\<close>

theorem descriptors_owned_once:
  assumes "own_step\<^sup>*\<^sup>* \<lparr>live = Map.empty, kern = \<lparr>next_fd = n, socks = Map.empty, paths = ps\<rparr>\<rparr> p"
  shows "dom (socks (kern p)) = {d. 0 \<le> d \<and> (\<exists>x s. live p x = Some s \<and> fd s = d)}
    \<and> (\<forall>x y s t. live p x = Some s \<and> live p y = Some t \<and> fd s = fd t \<and> 0 \<le> fd s \<longrightarrow> x = y)
    \<and> (live p = Map.empty \<longrightarrow> socks (kern p) = Map.empty)"
proof -
  have "owned \<lparr>live = Map.empty, kern = \<lparr>next_fd = n, socks = Map.empty, paths = ps\<rparr>\<rparr>"
    by (auto simp: owned_def disciplined_def held_def)
  with assms have own: "owned p"
    by (induction rule: rtranclp_induct) (auto intro: own_step_owned)
  have some: "(\<exists>x. held p x = d) \<longleftrightarrow> (\<exists>x s. live p x = Some s \<and> fd s = d)" if "0 \<le> d" for d
    using that by (auto simp: held_def split: option.splits)
  have dom: "dom (socks (kern p)) = {d. 0 \<le> d \<and> (\<exists>x s. live p x = Some s \<and> fd s = d)}"
    using disciplinedD(1) [OF own [unfolded owned_def]] some by (intro set_eqI) (simp only: mem_Collect_eq cong: conj_cong)
  moreover have "x = y" if "live p x = Some s" "live p y = Some t" "fd s = fd t" "0 \<le> fd s" for x y s t
    by (rule disciplinedD(2) [OF own [unfolded owned_def]]) (use that in \<open>simp_all add: held_def\<close>)
  moreover have "socks (kern p) = Map.empty" if "live p = Map.empty" using dom that by auto
  ultimately show ?thesis by blast
qed

text \<open>An object is constructed and moved into another: the one open descriptor is the second's.\<close>

theorem descriptors_owned_once_witness:
  "\<exists>p. own_step\<^sup>*\<^sup>* \<lparr>live = Map.empty, kern = \<lparr>next_fd = 3, socks = Map.empty, paths = {}\<rparr>\<rparr> p
    \<and> live p = [1 \<mapsto> \<lparr>fd = 3\<rparr>, 0 \<mapsto> \<lparr>fd = -1\<rparr>] \<and> dom (socks (kern p)) = {3}"
proof -
  let ?k = "\<lparr>next_fd = 3, socks = Map.empty, paths = {}\<rparr>"
  let ?p0 = "\<lparr>live = Map.empty, kern = ?k\<rparr>"
  let ?k1 = "(put_sock (int (next_fd ?k)) Sock_new ?k)\<lparr>next_fd := Suc (next_fd ?k)\<rparr>"
  let ?p1 = "?p0\<lparr>live := (live ?p0)(0 \<mapsto> \<lparr>fd = 3\<rparr>), kern := ?k1\<rparr>"
  let ?p2 = "?p1\<lparr>live := (live ?p1)(1 \<mapsto> \<lparr>fd = 3\<rparr>, 0 \<mapsto> \<lparr>fd = -1\<rparr>)\<rparr>"
  have "own_step ?p0 ?p1" by (rule own_open [where os = demo_os]) (simp_all add: Socket_open_def demo_os_def)
  moreover have "own_step ?p1 ?p2"
    by (rule own_move [where t = "\<lparr>fd = 3\<rparr>"]) (simp_all add: Socket_move_def)
  ultimately have run: "own_step\<^sup>*\<^sup>* ?p0 ?p2" by (meson rtranclp.rtrancl_into_rtrancl rtranclp.rtrancl_refl)
  have objs: "live ?p2 = [1 \<mapsto> \<lparr>fd = 3\<rparr>, 0 \<mapsto> \<lparr>fd = -1\<rparr>]" by (auto simp: fun_eq_iff)
  from descriptors_owned_once [OF run]
  have "dom (socks (kern ?p2)) = {d. 0 \<le> d \<and> (\<exists>x s. live ?p2 x = Some s \<and> fd s = d)}" by (rule conjunct1)
  also have "\<dots> = {3}" unfolding objs by (auto split: if_splits)
  finally show ?thesis using run objs by blast
qed

section \<open>Sending twice from a named Unix-domain socket\<close>

text \<open>
  \<open>Uds::send\<close> with a client path binds on every call: on a socket that is bound already it removes
  the socket's own file, so that no answer finds it any more, and raises.
\<close>

lemma uds_second_send_fails:
  assumes "socks k (fd h) = Some s" "sk_bound s \<noteq> None" "cli \<noteq> []"
  shows "\<exists>k'. Uds_send os h srv cli pl k = (Inl (RuntimeError ''uds client bind failed''), k')
    \<and> c_str cli \<notin> paths k'"
  using assms by (simp add: Uds_send_def sys_bind_def)

end
