(* ===== verification/Toml.thy ===== *)
theory Toml
  imports Prelude
begin

text \<open>
  The part of toml++ (\<open>third_party/tomlplusplus/toml.hpp\<close>) through which the loader reads a
  parsed document: nodes, \<open>as_table\<close>, \<open>as_array\<close>, table lookup and the two instances of
  \<open>node::value\<close> that the loader uses. The parser itself, \<open>toml::parse\<close>, is a parameter of the
  loader. A finite double is the number \<open>m * 2 ^ e\<close>.
\<close>

datatype toml_double = Finite int int | Infinite bool | NotANumber

datatype toml_node = TString string | TInteger int | TFloat toml_double | TBoolean bool | TDateTime
  | TArray "toml_node list" | TTable "(string \<times> toml_node) list"

type_synonym toml_table = "(string \<times> toml_node) list"

text \<open>\<open>node_view operator[]\<close>: a view of the node of that key, or of nothing.\<close>

definition toml_at :: "toml_table \<Rightarrow> string \<Rightarrow> toml_node option" where
  "toml_at t key = map_of t key"

fun as_table :: "toml_node option \<Rightarrow> toml_table option" where
  "as_table (Some (TTable t)) = Some t"
| "as_table _ = None"

fun as_array :: "toml_node option \<Rightarrow> toml_node list option" where
  "as_array (Some (TArray xs)) = Some xs"
| "as_array _ = None"

fun value_string :: "toml_node option \<Rightarrow> string option" where
  "value_string (Some (TString s)) = Some s"
| "value_string _ = None"

text \<open>
  \<open>value<int64_t>\<close>: integers, which toml++ holds as \<open>int64_t\<close>; doubles that are finite, whole and
  in the range of \<open>int64_t\<close>; booleans as 0 and 1. A \<open>TInteger\<close> outside \<open>int64_t\<close> is no node of
  toml++ and has no value.
\<close>

definition int64_of :: "int \<Rightarrow> int option" where
  "int64_of i = (if - (2 ^ 63) \<le> i \<and> i < 2 ^ 63 then Some i else None)"

definition double_as_int :: "int \<Rightarrow> int \<Rightarrow> int option" where
  "double_as_int m e =
     (if e \<ge> 0 then Some (m * 2 ^ nat e)
      else if m mod 2 ^ nat (- e) = 0 then Some (m div 2 ^ nat (- e)) else None)"

fun value_int :: "toml_node option \<Rightarrow> int option" where
  "value_int (Some (TInteger i)) = int64_of i"
| "value_int (Some (TFloat (Finite m e))) =
     (case double_as_int m e of None \<Rightarrow> None | Some i \<Rightarrow> int64_of i)"
| "value_int (Some (TBoolean b)) = Some (if b then 1 else 0)"
| "value_int _ = None"

lemma int64_of_numeral [simp]:
  "int64_of 0 = Some 0" "int64_of 1 = Some 1" "int64_of (- 1) = Some (- 1)"
  "int64_of (numeral k) = (if numeral k < (2 ^ 63 :: int) then Some (numeral k) else None)"
  by (simp_all add: int64_of_def)

lemma int64_of_in: "- (2 ^ 63) \<le> i \<Longrightarrow> i < 2 ^ 63 \<Longrightarrow> int64_of i = Some i"
  by (simp add: int64_of_def)

lemma int64_of_uint [simp]:
  fixes w :: "'w::len word"
  assumes "LENGTH('w) \<le> 63"
  shows "int64_of (uint w) = Some (uint w)"
proof -
  have "(2::int) ^ LENGTH('w) \<le> 2 ^ 63" using assms by (intro power_increasing) simp_all
  then show ?thesis using uint_lt2p [of w] uint_ge_0 [of w] by (intro int64_of_in) linarith+
qed

lemma value_int_range: "value_int n = Some v \<Longrightarrow> - (2 ^ 63) \<le> v \<and> v < 2 ^ 63"
  by (cases n rule: value_int.cases) (auto simp: int64_of_def split: option.splits if_splits)

lemma toml_at_simps [simp]:
  "toml_at [] k = None"
  "toml_at ((k', n) # t) k = (if k' = k then Some n else toml_at t k)"
  by (simp_all add: toml_at_def)

lemma toml_at_append [simp]: "toml_at (s @ t) k = (case toml_at s k of None \<Rightarrow> toml_at t k | Some n \<Rightarrow> Some n)"
  by (simp add: toml_at_def map_add_def split: option.split)

lemma as_table_Some: "as_table n = Some t \<longleftrightarrow> n = Some (TTable t)"
  by (cases n rule: as_table.cases) auto

lemma as_array_Some: "as_array n = Some xs \<longleftrightarrow> n = Some (TArray xs)"
  by (cases n rule: as_array.cases) auto

lemma value_string_Some: "value_string n = Some s \<longleftrightarrow> n = Some (TString s)"
  by (cases n rule: value_string.cases) auto

end
