(* ===== verification/PeerTable.thy ===== *)
theory PeerTable
  imports Frame
begin

text \<open>
  \<open>ipc/src/router/peer_table.hpp\<close> and \<open>ipc/src/router/topic_table.hpp\<close>: addresses, the peer
  and topic tables of a topology, and their linear lookups.
  A pointer with a count is a list; the tagged union \<open>PeerAddress\<close> is a datatype; the pair
  \<open>has_listen_uds\<close>/\<open>listen_uds\<close> (the address is read only when the flag is set) is an option,
  and so are the nullable strings of \<open>TopicEntry\<close>.
\<close>

datatype PeerAddressKind = UdsPath | UdpEndpoint | ShmRing

datatype PeerAddress = peer_uds string | peer_udp string u16 | peer_shm string

fun kind :: "PeerAddress \<Rightarrow> PeerAddressKind" where
  "kind (peer_uds _) = UdsPath"
| "kind (peer_udp _ _) = UdpEndpoint"
| "kind (peer_shm _) = ShmRing"

lemma kind_iff:
  "kind a = UdsPath \<longleftrightarrow> (\<exists>p. a = peer_uds p)"
  "kind a = UdpEndpoint \<longleftrightarrow> (\<exists>h p. a = peer_udp h p)"
  "kind a = ShmRing \<longleftrightarrow> (\<exists>n. a = peer_shm n)"
  by (cases a; simp)+

record PeerEntry =
  peer_id :: u8
  peer_name :: string
  local_addr :: PeerAddress
  shm_slot_count :: u32
  shm_max_payload :: u32

record TopicEntry =
  tid :: u16
  topic_sideband_idx :: u16
  topic_name :: "string option"
  payload_class :: "string option"

record RouterTopology =
  peers :: "PeerEntry list"
  router_listen :: PeerAddress
  topics :: "TopicEntry list"
  listen_uds :: "PeerAddress option"
  listen_udp :: "PeerAddress option"

definition kTopicNameMaxLen :: nat where "kTopicNameMaxLen = 63"
definition kTopicPayloadClassMaxLen :: nat where "kTopicPayloadClassMaxLen = 63"

text \<open>The search loop: the first entry that satisfies the predicate.\<close>

fun find_loop :: "('e \<Rightarrow> bool) \<Rightarrow> 'e list \<Rightarrow> 'e option" where
  "find_loop pred [] = None"
| "find_loop pred (e # es) = (if pred e then Some e else find_loop pred es)"

lemma find_loop_eq_find: "find_loop P xs = find P xs"
  by (induction xs) auto

definition peer_find :: "RouterTopology \<Rightarrow> (PeerEntry \<Rightarrow> bool) \<Rightarrow> PeerEntry option" where
  "peer_find topo pred = find_loop pred (peers topo)"

definition peer_by_id :: "RouterTopology \<Rightarrow> u8 \<Rightarrow> PeerEntry option" where
  "peer_by_id topo i = peer_find topo (\<lambda>e. peer_id e = i)"

definition peer_by_name :: "RouterTopology \<Rightarrow> string \<Rightarrow> PeerEntry option" where
  "peer_by_name topo nm = peer_find topo (\<lambda>e. strcmp_eq nm (peer_name e))"

definition peer_display_name :: "RouterTopology \<Rightarrow> u8 \<Rightarrow> string" where
  "peer_display_name topo i =
     (if i = kEndpointServer then ''server''
      else case peer_by_id topo i of Some e \<Rightarrow> peer_name e | None \<Rightarrow> ''invalid'')"

definition topic_find :: "RouterTopology \<Rightarrow> (TopicEntry \<Rightarrow> bool) \<Rightarrow> TopicEntry option" where
  "topic_find topo pred = find_loop pred (topics topo)"

definition topic_by_id :: "RouterTopology \<Rightarrow> u16 \<Rightarrow> TopicEntry option" where
  "topic_by_id topo i = topic_find topo (\<lambda>e. tid e = i)"

definition topic_by_name :: "RouterTopology \<Rightarrow> string option \<Rightarrow> TopicEntry option" where
  "topic_by_name topo nm =
     (case nm of None \<Rightarrow> None
      | Some s \<Rightarrow> topic_find topo (\<lambda>e. case topic_name e of None \<Rightarrow> False
                                            | Some n \<Rightarrow> strcmp_eq s n))"

lemmas lookup_defs = peer_find_def peer_by_id_def peer_by_name_def topic_find_def
  topic_by_id_def topic_by_name_def find_loop_eq_find

section \<open>Unique keys\<close>

text \<open>
  Lookups in a table whose keys are distinct: every entry is found by its own key, and
  only entries of the table are found. The interface is shared by the peer table (by id) and
  the topic table (by id).
\<close>

locale keyed_table =
  fixes entries :: "RouterTopology \<Rightarrow> 'e list"
    and key :: "'e \<Rightarrow> 'k"
    and lookup :: "RouterTopology \<Rightarrow> 'k \<Rightarrow> 'e option"
  assumes lookup_find: "lookup topo k = find (\<lambda>e. key e = k) (entries topo)"
begin

lemma lookup_sound: "lookup topo k = Some e \<Longrightarrow> e \<in> set (entries topo) \<and> key e = k"
  by (auto simp: lookup_find dest: find_Some_in)

lemma lookup_complete:
  "distinct (map key (entries topo)) \<Longrightarrow> e \<in> set (entries topo) \<Longrightarrow> lookup topo (key e) = Some e"
  by (simp add: lookup_find find_unique)

lemma lookup_None: "lookup topo k = None \<longleftrightarrow> k \<notin> key ` set (entries topo)"
  by (auto simp: lookup_find find_None_iff)

lemma lookup_eq_Some:
  "distinct (map key (entries topo)) \<Longrightarrow>
   lookup topo k = Some e \<longleftrightarrow> e \<in> set (entries topo) \<and> key e = k"
  using lookup_sound lookup_complete by blast

end

interpretation peer_tbl: keyed_table peers peer_id peer_by_id
  by unfold_locales (simp add: lookup_defs)

interpretation topic_tbl: keyed_table topics tid topic_by_id
  by unfold_locales (simp add: lookup_defs)

text \<open>
  In a topology whose peer ids and topic ids are distinct, the two lookups by id are exact:
  an entry is found under its own id and nothing else is found under it; an id that no entry
  has is reported absent.
\<close>

lemma table_lookup_exact:
  assumes "distinct (map peer_id (peers topo))" and "distinct (map tid (topics topo))"
  shows "(peer_by_id topo i = Some e \<longleftrightarrow> e \<in> set (peers topo) \<and> peer_id e = i)
    \<and> (peer_by_id topo i = None \<longleftrightarrow> i \<notin> peer_id ` set (peers topo))
    \<and> (topic_by_id topo t = Some te \<longleftrightarrow> te \<in> set (topics topo) \<and> tid te = t)
    \<and> (topic_by_id topo t = None \<longleftrightarrow> t \<notin> tid ` set (topics topo))"
  by (intro conjI peer_tbl.lookup_eq_Some topic_tbl.lookup_eq_Some peer_tbl.lookup_None
      topic_tbl.lookup_None assms)

lemma table_lookup_exact_witness:
  "let e = \<lparr>peer_id = 2, peer_name = ''b'', local_addr = peer_shm ''/b'',
            shm_slot_count = 0, shm_max_payload = 0\<rparr>;
       topo = \<lparr>peers = [e\<lparr>peer_id := 1\<rparr>, e], router_listen = peer_shm ''/r'', topics = [],
               listen_uds = None, listen_udp = None\<rparr>
   in peer_by_id topo 2 = Some e \<and> peer_by_id topo 3 = None"
proof -
  let ?e = "\<lparr>peer_id = 2, peer_name = ''b'', local_addr = peer_shm ''/b'',
            shm_slot_count = 0, shm_max_payload = 0\<rparr>"
  let ?topo = "\<lparr>peers = [?e\<lparr>peer_id := 1\<rparr>, ?e], router_listen = peer_shm ''/r'', topics = [],
               listen_uds = None, listen_udp = None\<rparr>"
  have d: "distinct (map peer_id (peers ?topo))" "distinct (map tid (topics ?topo))"
    by simp_all
  show ?thesis
    using table_lookup_exact [OF d, of 2 ?e] table_lookup_exact [OF d, of 3] by (simp add: Let_def)
qed

end
