(* ===== verification/AddressSpec.thy ===== *)
theory AddressSpec
  imports PeerTable
begin

text \<open>
  The address strings of a deployment profile: \<open>split_scheme\<close> and \<open>parse_address_\<close> of
  \<open>ipc/src/router/topology_loader.hpp\<close>, with \<open>std::stoul\<close>. A thrown \<open>TopologyLoadError\<close> is a
  value carrying its message; \<open>quoted\<close> puts the apostrophes of the messages.
\<close>

datatype load_error = TopologyLoadError string

type_synonym 'a load = "load_error + 'a"

definition throw_load :: "string \<Rightarrow> 'a load" where
  "throw_load what = Inl (TopologyLoadError what)"

definition quoted :: "string \<Rightarrow> string" where
  "quoted s = CHR 0x27 # s @ [CHR 0x27]"

definition to_string_int :: "int \<Rightarrow> string" where
  "to_string_int i = (if i < 0 then CHR ''-'' # to_string_nat (nat (- i)) else to_string_nat (nat i))"

definition kUdsPathMaxLen :: nat where "kUdsPathMaxLen = 107"
definition kPeerNameMaxLen :: nat where "kPeerNameMaxLen = 63"
definition kShmNameMaxLen :: nat where "kShmNameMaxLen = 250"

section \<open>Splitting\<close>

text \<open>\<open>find(':')\<close> and the two substrings around it.\<close>

definition split_scheme :: "string \<Rightarrow> (string \<times> string) load" where
  "split_scheme spec =
     (if CHR '':'' \<notin> set spec
      then throw_load (''address missing scheme: '' @ quoted spec
             @ '' (expected uds:/path, udp:host:port, or shm:/name)'')
      else Inr (takeWhile (\<lambda>c. c \<noteq> CHR '':'') spec, tl (dropWhile (\<lambda>c. c \<noteq> CHR '':'') spec)))"

text \<open>\<open>rfind(':')\<close> and the two substrings around it.\<close>

definition rsplit_colon :: "string \<Rightarrow> (string \<times> string) option" where
  "rsplit_colon s =
     (if CHR '':'' \<notin> set s then None
      else Some (rev (tl (dropWhile (\<lambda>c. c \<noteq> CHR '':'') (rev s))), rev (takeWhile (\<lambda>c. c \<noteq> CHR '':'') (rev s))))"

section \<open>\<open>std::stoul\<close>\<close>

definition is_space :: "char \<Rightarrow> bool" where
  "is_space c \<longleftrightarrow> of_char c = (32 :: nat) \<or> 9 \<le> (of_char c :: nat) \<and> (of_char c :: nat) \<le> 13"

definition is_digit :: "char \<Rightarrow> bool" where
  "is_digit c \<longleftrightarrow> 48 \<le> (of_char c :: nat) \<and> (of_char c :: nat) \<le> 57"

definition digits_value :: "string \<Rightarrow> nat" where
  "digits_value ds = foldl (\<lambda>n c. 10 * n + (of_char c - 48)) 0 ds"

text \<open>
  White space, an optional sign, then the longest run of digits; what follows is ignored. No digit
  at all, or a number that does not fit, raises (\<open>None\<close>); a negative number wraps.
\<close>

definition stoul :: "string \<Rightarrow> nat option" where
  "stoul s =
     (let s1 = dropWhile is_space s;
          neg = (s1 \<noteq> [] \<and> hd s1 = CHR ''-'');
          s2 = (if s1 \<noteq> [] \<and> (hd s1 = CHR ''-'' \<or> hd s1 = CHR ''+'') then tl s1 else s1);
          ds = takeWhile is_digit s2;
          n = digits_value ds
      in if ds = [] \<or> n \<ge> 2 ^ 64 then None
         else Some (if neg then (2 ^ 64 - n) mod 2 ^ 64 else n))"

section \<open>Addresses\<close>

text \<open>
  \<open>parse_address_\<close>, up to interning: the strings of the result are the ones handed to \<open>intern_\<close>.
\<close>

definition parse_address :: "string \<Rightarrow> PeerAddress load" where
  "parse_address spec =
     rbind (split_scheme spec) (\<lambda>(scheme, rest).
       if scheme = ''uds'' then
         (if rest = [] \<or> hd rest \<noteq> CHR ''/''
          then throw_load (''uds address must be an absolute path: '' @ quoted spec)
          else if length rest > kUdsPathMaxLen
          then throw_load (''uds path exceeds '' @ to_string_nat kUdsPathMaxLen @ '' bytes: '' @ quoted rest)
          else Inr (peer_uds rest))
       else if scheme = ''udp'' then
         (case rsplit_colon rest of
            None \<Rightarrow> throw_load (''udp address must be host:port (no IPv6 brackets): '' @ quoted spec)
          | Some (host, port_sv) \<Rightarrow>
              if host = [] \<or> port_sv = []
              then throw_load (''udp address must be host:port (no IPv6 brackets): '' @ quoted spec)
              else if CHR '':'' \<in> set host
              then throw_load (''udp host must not contain '' @ quoted '':''
                     @ '' (IPv6 not supported in v1 topology schema): '' @ quoted host)
              else case stoul port_sv of
                None \<Rightarrow> throw_load (''udp port not an integer: '' @ quoted port_sv)
              | Some port \<Rightarrow>
                  if port = 0 \<or> port > 65535
                  then throw_load (''udp port out of range 1..65535: '' @ to_string_nat port)
                  else Inr (peer_udp host (of_nat port)))
       else if scheme = ''shm'' then
         (if rest = [] \<or> hd rest \<noteq> CHR ''/''
          then throw_load (''shm address must start with '' @ quoted ''/'' @ '': '' @ quoted spec)
          else if length rest > kShmNameMaxLen
          then throw_load (''shm name exceeds '' @ to_string_nat kShmNameMaxLen @ '' bytes: '' @ quoted rest)
          else Inr (peer_shm rest))
       else throw_load (''unknown address scheme '' @ quoted scheme @ '' (want uds, udp, or shm): '' @ quoted spec))"

section \<open>What the parser accepts\<close>

text \<open>The addresses that have a spelling: what the rest of the program can rely on.\<close>

fun address_ok :: "PeerAddress \<Rightarrow> bool" where
  "address_ok (peer_uds p) \<longleftrightarrow> p \<noteq> [] \<and> hd p = CHR ''/'' \<and> length p \<le> kUdsPathMaxLen"
| "address_ok (peer_udp h p) \<longleftrightarrow> h \<noteq> [] \<and> CHR '':'' \<notin> set h \<and> p \<noteq> 0"
| "address_ok (peer_shm n) \<longleftrightarrow> n \<noteq> [] \<and> hd n = CHR ''/'' \<and> length n \<le> kShmNameMaxLen"

fun address_spec :: "PeerAddress \<Rightarrow> string" where
  "address_spec (peer_uds p) = ''uds:'' @ p"
| "address_spec (peer_udp h p) = ''udp:'' @ h @ '':'' @ to_string_nat (unat p)"
| "address_spec (peer_shm n) = ''shm:'' @ n"

lemma split_scheme_colon: "CHR '':'' \<notin> set a \<Longrightarrow> split_scheme (a @ CHR '':'' # b) = Inr (a, b)"
  by (simp add: split_scheme_def takeWhile_append dropWhile_append)

lemma rsplit_colon_last: "CHR '':'' \<notin> set b \<Longrightarrow> rsplit_colon (a @ CHR '':'' # b) = Some (a, b)"
  by (simp add: rsplit_colon_def takeWhile_append dropWhile_append)

lemma digit_char: "d < 10 \<Longrightarrow> of_char (char_of (48 + d) :: char) = (48 + d :: nat)"
  by simp

lemma to_string_nat_digits: "\<forall>c\<in>set (to_string_nat n). is_digit c"
proof (induction n rule: to_string_nat.induct)
  case (1 n)
  then show ?case by (subst to_string_nat.simps) (auto simp: is_digit_def)
qed

lemma to_string_nat_nonempty [simp]: "to_string_nat n \<noteq> []"
  by (subst to_string_nat.simps) simp

lemma digits_value_snoc [simp]: "digits_value (ds @ [c]) = 10 * digits_value ds + (of_char c - 48)"
  by (simp add: digits_value_def)

lemma digits_value_to_string [simp]: "digits_value (to_string_nat n) = n"
proof (induction n rule: to_string_nat.induct)
  case (1 n)
  show ?case
  proof (cases "n < 10")
    case True
    then show ?thesis by (subst to_string_nat.simps) (simp add: digits_value_def)
  next
    case False
    have "n mod 10 < 10" by simp
    then show ?thesis
      using False 1 by (subst to_string_nat.simps) simp
  qed
qed

lemma digit_not_space: "is_digit c \<Longrightarrow> \<not> is_space c \<and> c \<noteq> CHR ''-'' \<and> c \<noteq> CHR ''+'' \<and> c \<noteq> CHR '':''"
  by (auto simp: is_digit_def is_space_def)

lemma stoul_to_string: "n < 2 ^ 64 \<Longrightarrow> stoul (to_string_nat n) = Some n"
proof -
  assume n: "n < 2 ^ 64"
  let ?s = "to_string_nat n"
  have hd: "is_digit (hd ?s)" using to_string_nat_digits [of n] hd_in_set [OF to_string_nat_nonempty] by blast
  have "dropWhile is_space ?s = ?s"
    using digit_not_space [OF hd] by (cases ?s) auto
  moreover have "takeWhile is_digit ?s = ?s" using to_string_nat_digits by (simp add: takeWhile_eq_all_conv)
  ultimately show ?thesis using n digit_not_space [OF hd] by (simp add: stoul_def Let_def del: takeWhile_eq_all_conv)
qed

lemma no_colon_in_digits: "CHR '':'' \<notin> set (to_string_nat n)"
  using to_string_nat_digits [of n] digit_not_space by blast

lemma port_nonzero: "n \<noteq> 0 \<Longrightarrow> \<not> n > 65535 \<Longrightarrow> (of_nat n :: u16) \<noteq> 0"
proof
  assume n: "n \<noteq> 0" "\<not> n > 65535" "(of_nat n :: u16) = 0"
  have "unat (of_nat n :: u16) = n" using n(2) by (intro unat_of_nat_small) simp
  then show False using n by simp
qed

lemma parse_address_ok:
  assumes "parse_address spec = Inr a"
  shows "address_ok a"
proof -
  obtain scheme rest where s: "split_scheme spec = Inr (scheme, rest)"
    using assms by (auto simp only: parse_address_def rbind_eq_Inr)
  consider "scheme = ''uds''" | "scheme = ''udp''" | "scheme = ''shm''"
    using assms s by (simp add: parse_address_def throw_load_def split: if_splits)
  then show ?thesis
  proof cases
    case 2
    then obtain h ps port where "rsplit_colon rest = Some (h, ps)" "stoul ps = Some port" "h \<noteq> []" "CHR '':'' \<notin> set h"
      "port \<noteq> 0" "\<not> port > 65535" "a = peer_udp h (of_nat port)"
      using assms s by (auto simp: parse_address_def throw_load_def split: if_splits option.splits)
    then show ?thesis using port_nonzero by simp
  qed (use assms s in \<open>auto simp: parse_address_def throw_load_def split: if_splits\<close>)
qed

lemma parse_address_spec: "address_ok a \<Longrightarrow> parse_address (address_spec a) = Inr a"
proof (cases a)
  case (peer_udp h p)
  assume ok: "address_ok a"
  have port: "unat p \<noteq> 0" "\<not> unat p > 65535" "unat p < 2 ^ 64"
    using ok unsigned_less [of p, where ?'a = nat] peer_udp by (auto simp: unat_eq_0)
  have "split_scheme (''udp'' @ CHR '':'' # (h @ CHR '':'' # to_string_nat (unat p)))
      = Inr (''udp'', h @ CHR '':'' # to_string_nat (unat p))"
    by (rule split_scheme_colon) simp
  then show ?thesis
    using ok port peer_udp rsplit_colon_last [OF no_colon_in_digits] stoul_to_string
    by (simp add: parse_address_def)
qed (use split_scheme_colon [of "''uds''"] split_scheme_colon [of "''shm''"] in \<open>simp_all add: parse_address_def\<close>)

text \<open>
  C38: address strings are understood and only legal addresses come out of them. Every address that
  satisfies the syntactic limits is parsed back from its spelling, and whatever the parser accepts
  satisfies these limits: an absolute socket path that fits \<open>sun_path\<close>, a host without colon with
  a port different from 0, or a ring name of at most 250 bytes that starts with a slash.
\<close>

theorem address_roundtrip:
  "(address_ok a \<longrightarrow> parse_address (address_spec a) = Inr a)
   \<and> (parse_address spec = Inr b \<longrightarrow> address_ok b)"
  using parse_address_spec parse_address_ok by blast

theorem address_roundtrip_witness:
  "parse_address (address_spec (peer_udp ''127.0.0.1'' 19100)) = Inr (peer_udp ''127.0.0.1'' 19100)"
  using address_roundtrip [of "peer_udp ''127.0.0.1'' 19100" "[]" "peer_uds []"] by simp

text \<open>
  The port is read by \<open>std::stoul\<close>, which ignores what follows the digits and wraps negative
  numbers, so that the loader takes these for the ports 80 and 1.
\<close>

lemma sloppy_ports:
  "parse_address ''udp:h:80abc'' = Inr (peer_udp ''h'' 80)"
  "parse_address ''udp:h:-18446744073709551615'' = Inr (peer_udp ''h'' 1)"
  by (simp_all add: parse_address_def split_scheme_def rsplit_colon_def stoul_def is_space_def is_digit_def
      digits_value_def)

end
