(* ===== verification/Routing.thy ===== *)
theory Routing
  imports PeerTable
begin

text \<open>
  \<open>ipc/src/router/routing.hpp\<close>: the fan-out table. A \<open>std::array\<close> of eight ids is a list of
  length eight; the copy loop of the lookup writes element by element, as in the source.
  \<open>route_spec\<close> is the contract: the destinations of the first rule that matches.
\<close>

definition kMaxRouteDests :: nat where "kMaxRouteDests = 8"
definition kRouteTopicAny :: u16 where "kRouteTopicAny = 0xFFFF"

record RouteTargets =
  ids :: "u8 list"
  count :: nat

record RouteRule =
  rule_source :: u8
  dest_count :: u8
  rule_topic :: u16
  dest :: "u8 list"

definition RouteTargets_empty :: RouteTargets where
  "RouteTargets_empty = \<lparr>ids = replicate kMaxRouteDests 0, count = 0\<rparr>"

text \<open>The range \<open>begin() .. end()\<close> the links iterate over.\<close>

definition targets_list :: "RouteTargets \<Rightarrow> u8 list" where
  "targets_list t = take (count t) (ids t)"

text \<open>
  The two variadic factories; their \<open>static_assert\<close>s make them undefined (no value) for zero or
  for more than \<open>kMaxRouteDests\<close> destinations.
\<close>

definition make_topic_route :: "u8 \<Rightarrow> u16 \<Rightarrow> u8 list \<Rightarrow> RouteRule option" where
  "make_topic_route src topic dests =
     (if length dests \<ge> 1 \<and> length dests \<le> kMaxRouteDests
      then Some \<lparr>rule_source = src, dest_count = of_nat (length dests), rule_topic = topic,
                 dest = dests @ replicate (kMaxRouteDests - length dests) 0\<rparr>
      else None)"

definition make_route :: "u8 \<Rightarrow> u8 list \<Rightarrow> RouteRule option" where
  "make_route src dests = make_topic_route src kRouteTopicAny dests"

fun copy_dests :: "nat \<Rightarrow> nat \<Rightarrow> u8 list \<Rightarrow> u8 list \<Rightarrow> u8 list" where
  "copy_dests k 0 src dst = dst"
| "copy_dests k (Suc n) src dst = copy_dests (Suc k) n src (dst[k := src ! k])"

fun route_targets_for :: "RouteRule list \<Rightarrow> u8 \<Rightarrow> u16 \<Rightarrow> RouteTargets" where
  "route_targets_for [] src topic = RouteTargets_empty"
| "route_targets_for (r # rs) src topic =
     (if rule_source r \<noteq> src then route_targets_for rs src topic
      else if rule_topic r \<noteq> kRouteTopicAny \<and> rule_topic r \<noteq> topic
      then route_targets_for rs src topic
      else let n = unat (dest_count r)
           in \<lparr>ids = copy_dests 0 n (dest r) (ids RouteTargets_empty), count = n\<rparr>)"

record ForwardResult =
  fwd_source :: u8
  fwd_targets :: RouteTargets

definition ForwardResult_empty :: ForwardResult where
  "ForwardResult_empty = \<lparr>fwd_source = kEndpointInvalid, fwd_targets = RouteTargets_empty\<rparr>"

text \<open>\<open>explicit operator bool\<close>.\<close>

definition forwarded_frame :: "ForwardResult \<Rightarrow> bool" where
  "forwarded_frame r \<longleftrightarrow> fwd_source r \<noteq> kEndpointInvalid"

section \<open>Contract of the lookup\<close>

definition wf_rule :: "RouteRule \<Rightarrow> bool" where
  "wf_rule r \<longleftrightarrow> length (dest r) = kMaxRouteDests \<and> unat (dest_count r) \<le> kMaxRouteDests"

definition rule_dests :: "RouteRule \<Rightarrow> u8 list" where
  "rule_dests r = take (unat (dest_count r)) (dest r)"

definition rule_matches :: "u8 \<Rightarrow> u16 \<Rightarrow> RouteRule \<Rightarrow> bool" where
  "rule_matches src topic r \<longleftrightarrow>
     rule_source r = src \<and> (rule_topic r = kRouteTopicAny \<or> rule_topic r = topic)"

definition route_spec :: "RouteRule list \<Rightarrow> u8 \<Rightarrow> u16 \<Rightarrow> u8 list" where
  "route_spec rules src topic =
     (case find (rule_matches src topic) rules of None \<Rightarrow> [] | Some r \<Rightarrow> rule_dests r)"

lemma length_copy_dests [simp]: "length (copy_dests k n src dst) = length dst"
  by (induction n arbitrary: k dst) auto

lemma nth_copy_dests:
  "i < length dst \<Longrightarrow>
   copy_dests k n src dst ! i = (if k \<le> i \<and> i < k + n then src ! i else dst ! i)"
proof (induction n arbitrary: k dst)
  case (Suc n)
  consider "i < k" | "i = k" | "k < i" by linarith
  then show ?case using Suc by cases (auto simp: Suc_le_eq)
qed auto

lemma take_copy_dests:
  "n \<le> length src \<Longrightarrow> n \<le> length dst \<Longrightarrow> take n (copy_dests 0 n src dst) = take n src"
  by (rule nth_equalityI) (auto simp: nth_copy_dests)

lemma targets_list_empty [simp]: "targets_list RouteTargets_empty = []"
  by (simp add: targets_list_def RouteTargets_empty_def)

lemma route_targets_spec:
  assumes "\<forall>r\<in>set rules. wf_rule r"
  shows "targets_list (route_targets_for rules src topic) = route_spec rules src topic"
  using assms
proof (induction rules)
  case Nil
  show ?case by (simp add: route_spec_def)
next
  case (Cons r rs)
  show ?case
  proof (cases "rule_matches src topic r")
    case True
    then have "route_targets_for (r # rs) src topic
      = \<lparr>ids = copy_dests 0 (unat (dest_count r)) (dest r) (ids RouteTargets_empty),
         count = unat (dest_count r)\<rparr>"
      by (auto simp: rule_matches_def Let_def)
    moreover have "wf_rule r" using Cons.prems by simp
    ultimately show ?thesis
      using True by (simp add: targets_list_def route_spec_def rule_dests_def wf_rule_def
          take_copy_dests RouteTargets_empty_def)
  next
    case False
    then have "route_targets_for (r # rs) src topic = route_targets_for rs src topic"
      by (auto simp: rule_matches_def)
    with False Cons show ?thesis by (simp add: route_spec_def)
  qed
qed

lemma route_targets_count:
  "\<forall>r\<in>set rules. wf_rule r \<Longrightarrow> count (route_targets_for rules src topic) \<le> kMaxRouteDests
   \<and> length (ids (route_targets_for rules src topic)) = kMaxRouteDests"
  by (induction rules) (auto simp: RouteTargets_empty_def wf_rule_def Let_def)

lemma route_spec_subset: "set (route_spec rules src topic) \<subseteq> (\<Union>r\<in>set rules. set (rule_dests r))"
proof (cases "find (rule_matches src topic) rules")
  case (Some r)
  then have "r \<in> set rules" using find_Some_in by metis
  with Some show ?thesis by (auto simp: route_spec_def)
qed (simp add: route_spec_def)

declare route_targets_for.simps [simp del]

lemma wf_make_topic_route: "make_topic_route s t ds = Some r \<Longrightarrow> wf_rule r"
  by (auto simp: make_topic_route_def wf_rule_def kMaxRouteDests_def unat_of_nat split: if_splits)

section \<open>Properties of routing\<close>

text \<open>
  C29: first match wins. For rules whose destination count fits the array, the lookup returns
  exactly the destinations of the first rule whose source is the frame's and whose topic
  selector is ``any'' or the frame's topic, and nothing when no rule matches; the copy never
  writes past the eight-element array.
\<close>

theorem route_first_match:
  assumes "\<forall>r\<in>set rules. wf_rule r"
  shows "targets_list (route_targets_for rules src topic) = route_spec rules src topic
    \<and> (rules = pre @ r # post \<longrightarrow> rule_matches src topic r \<longrightarrow>
        (\<forall>q\<in>set pre. \<not> rule_matches src topic q) \<longrightarrow>
        targets_list (route_targets_for rules src topic) = rule_dests r)
    \<and> ((\<forall>q\<in>set rules. \<not> rule_matches src topic q) \<longrightarrow>
        targets_list (route_targets_for rules src topic) = [])
    \<and> count (route_targets_for rules src topic) \<le> kMaxRouteDests"
proof -
  have "find (rule_matches src topic) (pre @ r # post) = Some r"
    if "rule_matches src topic r" "\<forall>q\<in>set pre. \<not> rule_matches src topic q"
    using that by (induction pre) auto
  moreover have "find (rule_matches src topic) rules = None"
    if "\<forall>q\<in>set rules. \<not> rule_matches src topic q"
    using that by (simp add: find_None_iff)
  ultimately show ?thesis
    using route_targets_spec [OF assms] route_targets_count [OF assms]
    by (auto simp: route_spec_def)
qed

definition demo_rules :: "RouteRule list" where
  "demo_rules =
     [\<lparr>rule_source = 1, dest_count = 1, rule_topic = 100, dest = [4, 0, 0, 0, 0, 0, 0, 0]\<rparr>,
      \<lparr>rule_source = 1, dest_count = 2, rule_topic = 0xFFFF, dest = [2, 3, 0, 0, 0, 0, 0, 0]\<rparr>]"

theorem route_first_match_witness:
  "list_all wf_rule demo_rules
   \<and> targets_list (route_targets_for demo_rules 1 100) = [4]
   \<and> targets_list (route_targets_for demo_rules 1 7) = [2, 3]
   \<and> targets_list (route_targets_for demo_rules 9 7) = []"
proof -
  have wf: "\<forall>r\<in>set demo_rules. wf_rule r"
    by (simp add: demo_rules_def wf_rule_def kMaxRouteDests_def)
  show ?thesis
    unfolding list_all_iff using wf route_first_match [OF wf, of 1 100] route_first_match [OF wf, of 1 7]
      route_first_match [OF wf, of 9 7]
    by (simp add: route_spec_def demo_rules_def rule_matches_def rule_dests_def kRouteTopicAny_def)
qed

text \<open>
  The factories agree with the lookup. A rule built by \<open>make_topic_route\<close> (or
  \<open>make_route\<close>) from one to eight destinations routes a matching frame to exactly these
  destinations in order, and does not match a different topic unless it was built without one;
  zero or more than eight destinations are refused.
\<close>

lemma make_route_lookup:
  "(1 \<le> length ds \<and> length ds \<le> kMaxRouteDests \<longrightarrow>
     (\<exists>r q. make_topic_route s t ds = Some r \<and> make_route s ds = Some q
        \<and> targets_list (route_targets_for [r] s t) = ds
        \<and> targets_list (route_targets_for [q] s t') = ds
        \<and> (t' \<noteq> t \<longrightarrow> t \<noteq> kRouteTopicAny \<longrightarrow> targets_list (route_targets_for [r, q] s t') = ds
            \<and> targets_list (route_targets_for [r] s t') = [])))
   \<and> (\<not> (1 \<le> length ds \<and> length ds \<le> kMaxRouteDests) \<longrightarrow>
        make_topic_route s t ds = None \<and> make_route s ds = None)"
proof (intro conjI impI)
  assume len: "1 \<le> length ds \<and> length ds \<le> kMaxRouteDests"
  then obtain r q where rq: "make_topic_route s t ds = Some r" "make_route s ds = Some q"
    by (auto simp: make_topic_route_def make_route_def)
  then have wf: "wf_rule r" "wf_rule q"
    using wf_make_topic_route by (auto simp: make_route_def)
  have small: "unat (of_nat (length ds) :: u8) = length ds"
    using len by (simp add: kMaxRouteDests_def unat_of_nat)
  have d: "rule_dests r = ds" "rule_dests q = ds" "rule_source r = s" "rule_source q = s"
    "rule_topic r = t" "rule_topic q = kRouteTopicAny"
    using rq small by (auto simp: make_topic_route_def make_route_def rule_dests_def split: if_splits)
  have spec: "targets_list (route_targets_for rs x y) = route_spec rs x y"
    if "set rs \<subseteq> {r, q}" for rs x y
    using that wf by (intro route_targets_spec) auto
  show "\<exists>r q. make_topic_route s t ds = Some r \<and> make_route s ds = Some q
        \<and> targets_list (route_targets_for [r] s t) = ds
        \<and> targets_list (route_targets_for [q] s t') = ds
        \<and> (t' \<noteq> t \<longrightarrow> t \<noteq> kRouteTopicAny \<longrightarrow> targets_list (route_targets_for [r, q] s t') = ds
            \<and> targets_list (route_targets_for [r] s t') = [])"
    by (rule exI [of _ r], rule exI [of _ q])
      (simp add: rq spec d route_spec_def rule_matches_def)
qed (auto simp: make_topic_route_def make_route_def)

lemma make_route_lookup_witness:
  "\<exists>r. make_topic_route 1 100 [2, 3] = Some r \<and> targets_list (route_targets_for [r] 1 100) = [2, 3]
     \<and> targets_list (route_targets_for [r] 1 7) = []"
  using make_route_lookup [of "[2, 3]" 1 100 7] by (auto simp: kMaxRouteDests_def kRouteTopicAny_def)

end
