(* ===== verification/Sideband.thy ===== *)
theory Sideband
  imports Frame
begin

text \<open>
  \<open>ipc/src/router/sideband.hpp\<close>: descriptors of out-of-band regions, the in-region header and
  its validation, and the memory-class tag with its spelling.
\<close>

record SidebandHeader =
  magic :: string
  header_version :: u32
  payload_bytes :: u64

definition kSidebandVersion :: u32 where "kSidebandVersion = 1"
definition kSidebandMagic0 :: char where "kSidebandMagic0 = CHR ''R''"
definition kSidebandMagic1 :: char where "kSidebandMagic1 = CHR ''S''"
definition kSidebandMagic2 :: char where "kSidebandMagic2 = CHR ''B''"
definition kSidebandMagic3 :: char where "kSidebandMagic3 = CHR ''1''"
definition kSidebandNameMaxLen :: nat where "kSidebandNameMaxLen = 250"
definition kSidebandClassVisionNv12 :: string where "kSidebandClassVisionNv12 = ''vision_nv12''"
definition kSidebandClassVisionJpeg :: string where "kSidebandClassVisionJpeg = ''vision_jpeg''"
definition kSidebandClassMlInput :: string where "kSidebandClassMlInput = ''ml_tensor_in''"
definition kSidebandClassMlOutput :: string where "kSidebandClassMlOutput = ''ml_tensor_out''"
definition kSidebandClassMavlinkBulk :: string where "kSidebandClassMavlinkBulk = ''mavlink_bulk''"

lemmas sideband_consts = kSidebandVersion_def kSidebandMagic0_def kSidebandMagic1_def
  kSidebandMagic2_def kSidebandMagic3_def kSidebandNameMaxLen_def

datatype SidebandMemoryClass = Shm | CudaManaged | CudaHost | NvBufSurface

fun sideband_memory_class_name :: "SidebandMemoryClass \<Rightarrow> string" where
  "sideband_memory_class_name Shm = ''shm''"
| "sideband_memory_class_name CudaManaged = ''cuda_managed''"
| "sideband_memory_class_name CudaHost = ''cuda_host''"
| "sideband_memory_class_name NvBufSurface = ''nvbufsurface''"

text \<open>
  The parser: a nullable C string in, the success flag and the new value of the output
  parameter out.
\<close>

definition parse_sideband_memory_class ::
    "string option \<Rightarrow> SidebandMemoryClass \<Rightarrow> bool \<times> SidebandMemoryClass" where
  "parse_sideband_memory_class so out =
     (case so of None \<Rightarrow> (False, out)
      | Some s \<Rightarrow>
        if strcmp_eq s ''shm'' then (True, Shm)
        else if strcmp_eq s ''cuda_managed'' then (True, CudaManaged)
        else if strcmp_eq s ''cuda_host'' then (True, CudaHost)
        else if strcmp_eq s ''nvbufsurface'' then (True, NvBufSurface)
        else (False, out))"

definition sideband_memory_class_is_gpu :: "SidebandMemoryClass \<Rightarrow> bool" where
  "sideband_memory_class_is_gpu mc \<longleftrightarrow> mc \<noteq> Shm"

definition kSidebandCudaDeviceUnset :: int where "kSidebandCudaDeviceUnset = -1"

record SidebandRegion =
  region_name :: string
  max_payload_bytes :: u64
  version :: u32
  memory_class :: SidebandMemoryClass
  cuda_device :: int

definition sideband_header_init :: "SidebandHeader \<Rightarrow> u64 \<Rightarrow> SidebandHeader" where
  "sideband_header_init h n =
     h\<lparr>magic := [kSidebandMagic0, kSidebandMagic1, kSidebandMagic2, kSidebandMagic3],
       header_version := kSidebandVersion, payload_bytes := n\<rparr>"

definition sideband_header_is_valid :: "SidebandHeader \<Rightarrow> SidebandRegion \<Rightarrow> bool" where
  "sideband_header_is_valid h r =
     (if magic h ! 0 \<noteq> kSidebandMagic0 \<or> magic h ! 1 \<noteq> kSidebandMagic1
         \<or> magic h ! 2 \<noteq> kSidebandMagic2 \<or> magic h ! 3 \<noteq> kSidebandMagic3 then False
      else if header_version h \<noteq> version r then False
      else if payload_bytes h > max_payload_bytes r then False
      else True)"

section \<open>Properties\<close>

text \<open>
  Spelling and parsing of the memory class are inverse to each other. Every class parses
  back from its canonical name, names are distinct, and a string is accepted exactly when it is
  (as a C string) one of the four names; otherwise the output parameter keeps its old value.
\<close>

lemma memory_class_roundtrip:
  "parse_sideband_memory_class (Some (sideband_memory_class_name mc)) out = (True, mc)
   \<and> (fst (parse_sideband_memory_class so out) \<longleftrightarrow>
        (\<exists>s. so = Some s \<and> c_str s \<in> range sideband_memory_class_name))
   \<and> (\<not> fst (parse_sideband_memory_class so out) \<longrightarrow> snd (parse_sideband_memory_class so out) = out)
   \<and> (fst (parse_sideband_memory_class so out) \<longrightarrow>
        sideband_memory_class_name (snd (parse_sideband_memory_class so out)) = c_str (the so))"
proof -
  have r: "range sideband_memory_class_name = {''shm'', ''cuda_managed'', ''cuda_host'', ''nvbufsurface''}"
  proof (intro set_eqI iffI)
    fix x assume "x \<in> range sideband_memory_class_name"
    then obtain m where "x = sideband_memory_class_name m" by blast
    then show "x \<in> {''shm'', ''cuda_managed'', ''cuda_host'', ''nvbufsurface''}" by (cases m) auto
  next
    fix x assume "x \<in> {''shm'', ''cuda_managed'', ''cuda_host'', ''nvbufsurface''}"
    then show "x \<in> range sideband_memory_class_name"
      using range_eqI [of _ sideband_memory_class_name Shm]
        range_eqI [of _ sideband_memory_class_name CudaManaged]
        range_eqI [of _ sideband_memory_class_name CudaHost]
        range_eqI [of _ sideband_memory_class_name NvBufSurface] by auto
  qed
  have id: "c_str ''shm'' = ''shm''" "c_str ''cuda_managed'' = ''cuda_managed''"
    "c_str ''cuda_host'' = ''cuda_host''" "c_str ''nvbufsurface'' = ''nvbufsurface''"
    by (simp_all add: c_str_def)
  show ?thesis
    unfolding r
    by (cases mc; cases so) (auto simp: parse_sideband_memory_class_def strcmp_eq_def id)
qed

lemma memory_class_roundtrip_witness:
  "parse_sideband_memory_class (Some ''cuda_host'') Shm = (True, CudaHost)
   \<and> parse_sideband_memory_class (Some ''cuda'') NvBufSurface = (False, NvBufSurface)"
proof -
  have "''cuda'' \<noteq> sideband_memory_class_name m" for m by (cases m) auto
  then have "\<not> fst (parse_sideband_memory_class (Some ''cuda'') NvBufSurface)"
    using memory_class_roundtrip [of Shm NvBufSurface "Some ''cuda''"] by (auto simp: c_str_def)
  then show ?thesis
    using memory_class_roundtrip [of CudaHost Shm "Some ''cuda''"]
      memory_class_roundtrip [of Shm NvBufSurface "Some ''cuda''"]
    by (simp add: prod_eq_iff)
qed

text \<open>
  A header the producer helper writes is accepted by the consumer check exactly when the
  region declares the same version and the announced size fits its declared maximum; and any
  header the check accepts carries the magic, the region's version and a size within bounds.
\<close>

lemma sideband_header_contract:
  "(sideband_header_is_valid (sideband_header_init h n) r \<longleftrightarrow>
      version r = kSidebandVersion \<and> n \<le> max_payload_bytes r)
   \<and> (length (magic g) = 4 \<longrightarrow> sideband_header_is_valid g r \<longrightarrow> magic g = ''RSB1'')
   \<and> (sideband_header_is_valid g r \<longrightarrow>
      header_version g = version r \<and> payload_bytes g \<le> max_payload_bytes r)"
proof -
  have "xs = ''RSB1''"
    if "length xs = 4" "xs ! 0 = CHR ''R''" "xs ! 1 = CHR ''S''" "xs ! 2 = CHR ''B''"
      "xs ! 3 = CHR ''1''" for xs :: string
    using that by (intro nth_equalityI) (auto simp: less_Suc_eq numeral_eq_Suc)
  then show ?thesis
    by (auto simp: sideband_header_is_valid_def sideband_header_init_def sideband_consts not_less
        split: if_splits)
qed

lemma sideband_header_contract_witness:
  "sideband_header_is_valid (sideband_header_init \<lparr>magic = [], header_version = 0, payload_bytes = 0\<rparr> 4096)
     \<lparr>region_name = ''/robot_vision_nv12'', max_payload_bytes = 8388608, version = 1,
      memory_class = NvBufSurface, cuda_device = 0\<rparr>"
  using sideband_header_contract
    [of "\<lparr>magic = [], header_version = 0, payload_bytes = 0\<rparr>" 4096
      "\<lparr>region_name = ''/robot_vision_nv12'', max_payload_bytes = 8388608, version = 1,
        memory_class = NvBufSurface, cuda_device = 0\<rparr>"]
  by (simp add: kSidebandVersion_def)

end
