(* ===== verification/TopologyLoader.thy ===== *)
theory TopologyLoader
  imports Toml AddressSpec Routing Sideband
begin

text \<open>
  \<open>ipc/src/router/topology_loader.hpp\<close>: building a topology from a parsed TOML profile. The
  sequence of checks of the source is a chain of \<open>rbind\<close>s; \<open>require\<close> and \<open>reject_if\<close> are the two
  shapes of its \<open>if (..) throw_load(..)\<close>. The object under construction is passed along; when a
  check throws it is destroyed with everything in it.
\<close>

record LoadedTopology =
  lt_strings :: "string list"
  lt_peers :: "PeerEntry list"
  lt_routes :: "RouteRule list"
  lt_topics :: "TopicEntry list"
  lt_sidebands :: "SidebandRegion list"
  lt_ranges :: "(nat \<times> nat) list"
  lt_listen :: PeerAddress
  lt_listen_uds :: "PeerAddress option"
  lt_listen_udp :: "PeerAddress option"

definition LoadedTopology_new :: LoadedTopology where
  "LoadedTopology_new = \<lparr>lt_strings = [], lt_peers = [], lt_routes = [], lt_topics = [], lt_sidebands = [],
     lt_ranges = [], lt_listen = peer_uds [], lt_listen_uds = None, lt_listen_udp = None\<rparr>"

definition require :: "'a option \<Rightarrow> string \<Rightarrow> 'a load" where
  "require x what = (case x of None \<Rightarrow> throw_load what | Some v \<Rightarrow> Inr v)"

definition reject_if :: "bool \<Rightarrow> string \<Rightarrow> unit load" where
  "reject_if b what = (if b then throw_load what else Inr ())"

definition kShmSlotCountMin :: int where "kShmSlotCountMin = 1"
definition kShmSlotCountMax :: int where "kShmSlotCountMax = 2 ^ 20"
definition kShmMaxPayloadMax :: int where "kShmMaxPayloadMax = 256 * 1024 * 1024"

text \<open>The interned copy, and the \<open>const char*\<close> to it.\<close>

definition intern :: "string \<Rightarrow> LoadedTopology \<Rightarrow> string \<times> LoadedTopology" where
  "intern s lt = (c_str s, lt\<lparr>lt_strings := lt_strings lt @ [s]\<rparr>)"

definition load_address :: "string \<Rightarrow> LoadedTopology \<Rightarrow> (PeerAddress \<times> LoadedTopology) load" where
  "load_address spec lt =
     rbind (parse_address spec) (\<lambda>a. case a of
         peer_uds p \<Rightarrow> (case intern p lt of (q, lt1) \<Rightarrow> Inr (peer_uds q, lt1))
       | peer_udp h port \<Rightarrow> (case intern h lt of (q, lt1) \<Rightarrow> Inr (peer_udp q port, lt1))
       | peer_shm n \<Rightarrow> (case intern n lt of (q, lt1) \<Rightarrow> Inr (peer_shm q, lt1)))"

section \<open>The router section\<close>

definition load_listen_uds :: "toml_table \<Rightarrow> LoadedTopology \<Rightarrow> LoadedTopology load" where
  "load_listen_uds sec lt =
     (case value_string (toml_at sec ''listen_uds'') of None \<Rightarrow> Inr lt
      | Some s \<Rightarrow>
          rbind (load_address s lt) (\<lambda>(addr, lt1).
          rbind (reject_if (kind addr \<noteq> UdsPath) ''router.listen_uds must be a uds: address'') (\<lambda>_.
          Inr (lt1\<lparr>lt_listen_uds := Some addr\<rparr>))))"

definition load_listen_udp :: "toml_table \<Rightarrow> LoadedTopology \<Rightarrow> LoadedTopology load" where
  "load_listen_udp sec lt =
     (case value_string (toml_at sec ''listen_udp'') of None \<Rightarrow> Inr lt
      | Some s \<Rightarrow>
          rbind (load_address s lt) (\<lambda>(addr, lt1).
          rbind (reject_if (kind addr \<noteq> UdpEndpoint) ''router.listen_udp must be a udp: address'') (\<lambda>_.
          Inr (lt1\<lparr>lt_listen_udp := Some addr\<rparr>))))"

definition load_router :: "toml_table \<Rightarrow> LoadedTopology \<Rightarrow> LoadedTopology load" where
  "load_router root lt =
     rbind (require (as_table (toml_at root ''router'')) ''missing [router] section'') (\<lambda>sec.
     rbind (require (value_string (toml_at sec ''listen'')) ''missing router.listen string'') (\<lambda>listen.
     rbind (load_address listen lt) (\<lambda>(addr, lt1).
     let lt2 = lt1\<lparr>lt_listen := addr\<rparr>;
         lt3 = (case kind addr of
                  UdsPath \<Rightarrow> lt2\<lparr>lt_listen_uds := Some addr\<rparr>
                | UdpEndpoint \<Rightarrow> lt2\<lparr>lt_listen_udp := Some addr\<rparr>
                | ShmRing \<Rightarrow> lt2)
     in rbind (load_listen_uds sec lt3) (load_listen_udp sec))))"

section \<open>Peers\<close>

definition peers_entry :: "nat \<Rightarrow> string" where
  "peers_entry i = ''[[peers]] entry #'' @ to_string_nat i"

text \<open>Ring sizes of a peer: the checks of ADR 0009.\<close>

definition load_slot_count :: "string \<Rightarrow> int option \<Rightarrow> PeerEntry \<Rightarrow> PeerEntry load" where
  "load_slot_count nm opt e =
     (case opt of None \<Rightarrow> Inr e
      | Some v \<Rightarrow>
          rbind (reject_if (v \<noteq> 0 \<and> (v < kShmSlotCountMin \<or> v > kShmSlotCountMax))
             (''peer '' @ quoted nm @ '' shm_slot_count '' @ to_string_int v @ '' out of range ''
              @ to_string_int kShmSlotCountMin @ ''..'' @ to_string_int kShmSlotCountMax @ '' (0 means default)'')) (\<lambda>_.
          Inr (e\<lparr>shm_slot_count := word_of_int v\<rparr>)))"

definition load_max_payload :: "string \<Rightarrow> int option \<Rightarrow> PeerEntry \<Rightarrow> PeerEntry load" where
  "load_max_payload nm opt e =
     (case opt of None \<Rightarrow> Inr e
      | Some v \<Rightarrow>
          rbind (reject_if (v \<noteq> 0 \<and> v < int kRouterFrameSize)
             (''peer '' @ quoted nm @ '' shm_max_payload '' @ to_string_int v @ '' < kRouterFrameSize (''
              @ to_string_nat kRouterFrameSize @ ''): cannot hold a RouterFrame'')) (\<lambda>_.
          rbind (reject_if (v < 0 \<or> v > kShmMaxPayloadMax)
             (''peer '' @ quoted nm @ '' shm_max_payload '' @ to_string_int v @ '' out of range 0..''
              @ to_string_int kShmMaxPayloadMax @ '' (0 means default)'')) (\<lambda>_.
          Inr (e\<lparr>shm_max_payload := word_of_int v\<rparr>))))"

text \<open>The entry of one peer, with its name as the profile spells it.\<close>

definition load_peer_entry :: "nat \<Rightarrow> toml_table \<Rightarrow> LoadedTopology \<Rightarrow> (string \<times> PeerEntry \<times> LoadedTopology) load" where
  "load_peer_entry i tbl lt =
     rbind (require (value_int (toml_at tbl ''id'')) (peers_entry i @ '' missing integer '' @ quoted ''id'')) (\<lambda>idv.
     rbind (reject_if (idv < 1 \<or> idv > 254)
        (''peer id '' @ to_string_int idv @ '' out of range 1..254 (0=invalid, 255=server reserved)'')) (\<lambda>_.
     let pid = word_of_int idv :: u8 in
     rbind (require (value_string (toml_at tbl ''name''))
        (''peer id '' @ to_string_nat (unat pid) @ '' missing string '' @ quoted ''name'')) (\<lambda>nm.
     rbind (reject_if (length nm > kPeerNameMaxLen)
        (''peer name '' @ quoted nm @ '' exceeds '' @ to_string_nat kPeerNameMaxLen @ '' bytes'')) (\<lambda>_.
     rbind (reject_if (nm = []) (''peer id '' @ to_string_nat (unat pid) @ '' has empty name'')) (\<lambda>_.
     rbind (require (value_string (toml_at tbl ''local''))
        (''peer '' @ quoted nm @ '' missing string '' @ quoted ''local'')) (\<lambda>loc.
     rbind (reject_if (\<exists>e\<in>set (lt_peers lt). peer_id e = pid) (''duplicate peer id '' @ to_string_nat (unat pid))) (\<lambda>_.
     case intern nm lt of (nm_ptr, lt1) \<Rightarrow>
     rbind (load_address loc lt1) (\<lambda>(addr, lt2).
     let sc = value_int (toml_at tbl ''shm_slot_count'');
         mp = value_int (toml_at tbl ''shm_max_payload'');
         e = \<lparr>peer_id = pid, peer_name = nm_ptr, local_addr = addr, shm_slot_count = 0, shm_max_payload = 0\<rparr>
     in rbind (reject_if ((sc \<noteq> None \<or> mp \<noteq> None) \<and> kind addr \<noteq> ShmRing)
          (''peer '' @ quoted nm @ '' has shm_slot_count or shm_max_payload but local address is not shm:'')) (\<lambda>_.
        rbind (load_slot_count nm sc e) (\<lambda>e1.
        rbind (load_max_payload nm mp e1) (\<lambda>e2.
        Inr (nm, e2, lt2))))))))))))"

section \<open>Sidebands\<close>

definition load_version :: "string \<Rightarrow> int option \<Rightarrow> SidebandRegion \<Rightarrow> SidebandRegion load" where
  "load_version sb opt r =
     (case opt of None \<Rightarrow> Inr r
      | Some v \<Rightarrow>
          rbind (reject_if (v < 0 \<or> v > 0xffffffff) (''sideband '' @ quoted sb @ '' version out of range'')) (\<lambda>_.
          Inr (r\<lparr>version := word_of_int v\<rparr>)))"

definition load_memory_class :: "string \<Rightarrow> string option \<Rightarrow> SidebandRegion \<Rightarrow> SidebandRegion load" where
  "load_memory_class sb opt r =
     (case opt of None \<Rightarrow> Inr r
      | Some mc \<Rightarrow> (case parse_sideband_memory_class (Some mc) (memory_class r) of
          (ok, cls) \<Rightarrow>
            rbind (reject_if (\<not> ok)
               (''sideband '' @ quoted sb @ '' has unknown memory_class '' @ quoted mc
                @ '' (expected one of: shm, cuda_managed, cuda_host, nvbufsurface)'')) (\<lambda>_.
            Inr (r\<lparr>memory_class := cls\<rparr>))))"

definition load_cuda_device :: "string \<Rightarrow> int option \<Rightarrow> SidebandRegion \<Rightarrow> SidebandRegion load" where
  "load_cuda_device sb opt r =
     (case opt of None \<Rightarrow> Inr r
      | Some dev \<Rightarrow>
          rbind (reject_if (\<not> sideband_memory_class_is_gpu (memory_class r))
             (''sideband '' @ quoted sb @ '' sets cuda_device but memory_class is ''
              @ quoted (sideband_memory_class_name (memory_class r))
              @ '' (cuda_device is only valid for GPU-backed classes: cuda_managed, cuda_host, nvbufsurface)'')) (\<lambda>_.
          rbind (reject_if (dev < 0 \<or> dev > 255)
             (''sideband '' @ quoted sb @ '' cuda_device '' @ to_string_int dev @ '' out of range 0..255'')) (\<lambda>_.
          Inr (r\<lparr>cuda_device := dev\<rparr>))))"

definition load_sideband :: "string \<Rightarrow> nat \<Rightarrow> toml_node \<Rightarrow> LoadedTopology \<Rightarrow> LoadedTopology load" where
  "load_sideband nm j node lt =
     rbind (require (as_table (Some node))
        (''peer '' @ quoted nm @ '' sideband entry #'' @ to_string_nat j @ '' is not a table'')) (\<lambda>tbl.
     let nbytes = value_int (toml_at tbl ''max_payload_bytes'') in
     rbind (require (value_string (toml_at tbl ''name''))
        (''peer '' @ quoted nm @ '' sideband missing string '' @ quoted ''name'')) (\<lambda>sb.
     rbind (reject_if (length sb > kSidebandNameMaxLen)
        (''sideband name '' @ quoted sb @ '' exceeds '' @ to_string_nat kSidebandNameMaxLen @ '' bytes'')) (\<lambda>_.
     rbind (reject_if (case nbytes of None \<Rightarrow> True | Some b \<Rightarrow> b \<le> 0)
        (''peer '' @ quoted nm @ '' sideband '' @ quoted sb @ '' needs positive max_payload_bytes'')) (\<lambda>_.
     case intern sb lt of (sb_ptr, lt1) \<Rightarrow>
     let r0 = \<lparr>region_name = sb_ptr, max_payload_bytes = word_of_int (the nbytes), version = kSidebandVersion,
               memory_class = Shm, cuda_device = kSidebandCudaDeviceUnset\<rparr>
     in rbind (load_version sb (value_int (toml_at tbl ''version'')) r0) (\<lambda>r1.
        rbind (load_memory_class sb (value_string (toml_at tbl ''memory_class'')) r1) (\<lambda>r2.
        rbind (load_cuda_device sb (value_int (toml_at tbl ''cuda_device'')) r2) (\<lambda>r3.
        Inr (lt1\<lparr>lt_sidebands := lt_sidebands lt1 @ [r3]\<rparr>))))))))"

fun load_sidebands :: "string \<Rightarrow> nat \<Rightarrow> toml_node list \<Rightarrow> LoadedTopology \<Rightarrow> LoadedTopology load" where
  "load_sidebands nm j [] lt = Inr lt"
| "load_sidebands nm j (n # ns) lt = rbind (load_sideband nm j n lt) (load_sidebands nm (Suc j) ns)"

text \<open>An optional array of tables: its loop, or nothing when the key is absent or no array.\<close>

definition load_section :: "(nat \<Rightarrow> toml_node list \<Rightarrow> LoadedTopology \<Rightarrow> LoadedTopology load) \<Rightarrow> toml_node option \<Rightarrow>
    LoadedTopology \<Rightarrow> LoadedTopology load" where
  "load_section loop node lt = (case as_array node of None \<Rightarrow> Inr lt | Some ns \<Rightarrow> loop 0 ns lt)"

definition load_peer :: "nat \<Rightarrow> toml_node \<Rightarrow> LoadedTopology \<Rightarrow> LoadedTopology load" where
  "load_peer i node lt =
     rbind (require (as_table (Some node)) (peers_entry i @ '' is not a table'')) (\<lambda>tbl.
     rbind (load_peer_entry i tbl lt) (\<lambda>(nm, e, lt1).
     let lt2 = lt1\<lparr>lt_peers := lt_peers lt1 @ [e]\<rparr>;
         sb_begin = length (lt_sidebands lt2)
     in rbind (load_section (load_sidebands nm) (toml_at tbl ''sideband'') lt2) (\<lambda>lt3.
        Inr (lt3\<lparr>lt_ranges := lt_ranges lt3 @ [(sb_begin, length (lt_sidebands lt3))]\<rparr>))))"

fun load_peers :: "nat \<Rightarrow> toml_node list \<Rightarrow> LoadedTopology \<Rightarrow> LoadedTopology load" where
  "load_peers i [] lt = Inr lt"
| "load_peers i (n # ns) lt = rbind (load_peer i n lt) (load_peers (Suc i) ns)"

fun check_listens :: "PeerEntry list \<Rightarrow> LoadedTopology \<Rightarrow> unit load" where
  "check_listens [] lt = Inr ()"
| "check_listens (p # ps) lt =
     rbind (reject_if (kind (local_addr p) = UdsPath \<and> lt_listen_uds lt = None)
        (''peer '' @ quoted (peer_name p) @ '' is a uds peer but [router] has no uds listen (set listen or listen_uds to a uds: address)'')) (\<lambda>_.
     rbind (reject_if (kind (local_addr p) = UdpEndpoint \<and> lt_listen_udp lt = None)
        (''peer '' @ quoted (peer_name p) @ '' is a udp peer but [router] has no udp listen (set listen or listen_udp to a udp: address)'')) (\<lambda>_.
     check_listens ps lt))"

section \<open>Routes\<close>

definition routes_entry :: "nat \<Rightarrow> string" where
  "routes_entry i = ''[[routes]] entry #'' @ to_string_nat i"

definition extract_id :: "nat \<Rightarrow> toml_node \<Rightarrow> u8 load" where
  "extract_id i node =
     rbind (require (value_int (Some node)) (routes_entry i @ '' dest must be integers'')) (\<lambda>v.
     rbind (reject_if (v < 1 \<or> v > 254)
        (routes_entry i @ '' dest id '' @ to_string_int v @ '' out of range 1..254'')) (\<lambda>_.
     Inr (word_of_int v)))"

fun extract_ids :: "nat \<Rightarrow> toml_node list \<Rightarrow> u8 list load" where
  "extract_ids i [] = Inr []"
| "extract_ids i (n # ns) = rbind (extract_id i n) (\<lambda>d. rbind (extract_ids i ns) (\<lambda>ds. Inr (d # ds)))"

definition load_route_topic :: "nat \<Rightarrow> int option \<Rightarrow> u16 load" where
  "load_route_topic i opt =
     (case opt of None \<Rightarrow> Inr kRouteTopicAny
      | Some v \<Rightarrow>
          rbind (reject_if (v < 0 \<or> v > 0xFFFE)
             (routes_entry i @ '' topic id '' @ to_string_int v @ '' out of range 0..65534 (0xFFFF reserved as match-any)'')) (\<lambda>_.
          Inr (word_of_int v)))"

definition peer_exists :: "LoadedTopology \<Rightarrow> u8 \<Rightarrow> bool" where
  "peer_exists lt pid \<longleftrightarrow> (\<exists>e\<in>set (lt_peers lt). peer_id e = pid)"

text \<open>The checks on the destinations, with those before the current one.\<close>

fun check_dests :: "nat \<Rightarrow> u8 \<Rightarrow> LoadedTopology \<Rightarrow> u8 list \<Rightarrow> u8 list \<Rightarrow> unit load" where
  "check_dests i src lt prev [] = Inr ()"
| "check_dests i src lt prev (d # ds) =
     rbind (reject_if (\<not> peer_exists lt d)
        (''route dest id '' @ to_string_nat (unat d) @ '' does not match any peer'')) (\<lambda>_.
     rbind (reject_if (d \<in> set prev)
        (routes_entry i @ '' duplicate dest id '' @ to_string_nat (unat d) @ '' in fan-out list'')) (\<lambda>_.
     rbind (reject_if (d = src)
        (''route source id '' @ to_string_nat (unat src)
         @ '' cannot be a destination of itself (self-routing rejected)'')) (\<lambda>_.
     check_dests i src lt (prev @ [d]) ds)))"

definition load_route :: "nat \<Rightarrow> toml_node \<Rightarrow> LoadedTopology \<Rightarrow> LoadedTopology load" where
  "load_route i node lt =
     rbind (require (as_table (Some node)) (routes_entry i @ '' is not a table'')) (\<lambda>rt.
     rbind (require (value_int (toml_at rt ''source''))
        (routes_entry i @ '' missing integer '' @ quoted ''source'')) (\<lambda>sv.
     rbind (require (case as_array (toml_at rt ''dest'') of
              None \<Rightarrow> None
            | Some ns \<Rightarrow> if ns = [] \<or> length ns > kMaxRouteDests then None else Some ns)
        (routes_entry i @ '' '' @ quoted ''dest'' @ '' must be an array of 1..''
         @ to_string_nat kMaxRouteDests @ '' peer ids'')) (\<lambda>ns.
     rbind (extract_ids i ns) (\<lambda>ds.
     rbind (load_route_topic i (value_int (toml_at rt ''topic''))) (\<lambda>topic.
     let rule = \<lparr>rule_source = word_of_int sv, dest_count = of_nat (length ds), rule_topic = topic,
                 dest = ds @ replicate (kMaxRouteDests - length ds) 0\<rparr>
     in rbind (reject_if (\<not> peer_exists lt (rule_source rule))
          (''route source id '' @ to_string_nat (unat (rule_source rule)) @ '' does not match any peer'')) (\<lambda>_.
        rbind (check_dests i (rule_source rule) lt [] ds) (\<lambda>_.
        Inr (lt\<lparr>lt_routes := lt_routes lt @ [rule]\<rparr>))))))))"

fun load_routes :: "nat \<Rightarrow> toml_node list \<Rightarrow> LoadedTopology \<Rightarrow> LoadedTopology load" where
  "load_routes i [] lt = Inr lt"
| "load_routes i (n # ns) lt = rbind (load_route i n lt) (load_routes (Suc i) ns)"

section \<open>Topics\<close>

definition topics_entry :: "nat \<Rightarrow> string" where
  "topics_entry i = ''[[topics]] entry #'' @ to_string_nat i"

definition load_payload_class :: "string \<Rightarrow> string option \<Rightarrow> TopicEntry \<Rightarrow> LoadedTopology \<Rightarrow> (TopicEntry \<times> LoadedTopology) load" where
  "load_payload_class nm opt tp lt =
     (case opt of None \<Rightarrow> Inr (tp, lt)
      | Some pc \<Rightarrow>
          rbind (reject_if (pc = []) (''topic '' @ quoted nm @ '' has empty payload_class'')) (\<lambda>_.
          rbind (reject_if (length pc > kTopicPayloadClassMaxLen)
             (''topic '' @ quoted nm @ '' payload_class exceeds '' @ to_string_nat kTopicPayloadClassMaxLen @ '' bytes'')) (\<lambda>_.
          case intern pc lt of (p, lt1) \<Rightarrow> Inr (tp\<lparr>payload_class := Some p\<rparr>, lt1))))"

definition load_sideband_idx :: "string \<Rightarrow> int option \<Rightarrow> TopicEntry \<Rightarrow> TopicEntry load" where
  "load_sideband_idx nm opt tp =
     (case opt of None \<Rightarrow> Inr (tp\<lparr>topic_sideband_idx := kSidebandIdxNone\<rparr>)
      | Some v \<Rightarrow>
          rbind (reject_if (v < 0 \<or> v > 0xFFFF)
             (''topic '' @ quoted nm @ '' sideband_idx '' @ to_string_int v @ '' out of range 0..65535'')) (\<lambda>_.
          Inr (tp\<lparr>topic_sideband_idx := word_of_int v\<rparr>)))"

definition load_topic :: "nat \<Rightarrow> toml_node \<Rightarrow> LoadedTopology \<Rightarrow> LoadedTopology load" where
  "load_topic i node lt =
     rbind (require (as_table (Some node)) (topics_entry i @ '' is not a table'')) (\<lambda>tt.
     rbind (require (value_int (toml_at tt ''id'')) (topics_entry i @ '' missing integer '' @ quoted ''id'')) (\<lambda>idv.
     rbind (reject_if (idv < 0 \<or> idv > 0xFFFF)
        (topics_entry i @ '' id '' @ to_string_int idv @ '' out of range 0..65535 (u16 wire field)'')) (\<lambda>_.
     let i16 = word_of_int idv :: u16 in
     rbind (reject_if (\<exists>t\<in>set (lt_topics lt). tid t = i16) (''duplicate topic id '' @ to_string_nat (unat i16))) (\<lambda>_.
     rbind (require (value_string (toml_at tt ''name''))
        (''topic id '' @ to_string_nat (unat i16) @ '' missing string '' @ quoted ''name'')) (\<lambda>nm.
     rbind (reject_if (nm = []) (''topic id '' @ to_string_nat (unat i16) @ '' has empty name'')) (\<lambda>_.
     rbind (reject_if (length nm > kTopicNameMaxLen)
        (''topic name '' @ quoted nm @ '' exceeds '' @ to_string_nat kTopicNameMaxLen @ '' bytes'')) (\<lambda>_.
     rbind (reject_if (\<exists>t\<in>set (lt_topics lt). case topic_name t of None \<Rightarrow> False | Some n \<Rightarrow> strcmp_eq n nm)
        (''duplicate topic name '' @ quoted nm)) (\<lambda>_.
     case intern nm lt of (nm_ptr, lt1) \<Rightarrow>
     let tp = \<lparr>tid = i16, topic_sideband_idx = 0, topic_name = Some nm_ptr, payload_class = None\<rparr>
     in rbind (load_payload_class nm (value_string (toml_at tt ''payload_class'')) tp lt1) (\<lambda>(tp1, lt2).
        rbind (load_sideband_idx nm (value_int (toml_at tt ''sideband_idx'')) tp1) (\<lambda>tp2.
        Inr (lt2\<lparr>lt_topics := lt_topics lt2 @ [tp2]\<rparr>)))))))))))"

fun load_topics :: "nat \<Rightarrow> toml_node list \<Rightarrow> LoadedTopology \<Rightarrow> LoadedTopology load" where
  "load_topics i [] lt = Inr lt"
| "load_topics i (n # ns) lt = rbind (load_topic i n lt) (load_topics (Suc i) ns)"

fun check_route_topics :: "RouteRule list \<Rightarrow> LoadedTopology \<Rightarrow> unit load" where
  "check_route_topics [] lt = Inr ()"
| "check_route_topics (r # rs) lt =
     (if rule_topic r = kRouteTopicAny then check_route_topics rs lt
      else rbind (reject_if (\<not> (\<exists>t\<in>set (lt_topics lt). tid t = rule_topic r))
             (''route topic id '' @ to_string_nat (unat (rule_topic r)) @ '' does not match any [[topics]] entry'')) (\<lambda>_.
           check_route_topics rs lt))"

section \<open>The whole profile\<close>

definition build_from :: "toml_table \<Rightarrow> LoadedTopology \<Rightarrow> LoadedTopology load" where
  "build_from root lt =
     rbind (load_router root lt) (\<lambda>lt1.
     rbind (require (case as_array (toml_at root ''peers'') of
              None \<Rightarrow> None | Some ns \<Rightarrow> if ns = [] then None else Some ns)
        ''missing or empty [[peers]] array (need at least one peer)'') (\<lambda>ns.
     rbind (load_peers 0 ns lt1) (\<lambda>lt2.
     rbind (check_listens (lt_peers lt2) lt2) (\<lambda>_.
     rbind (load_section load_routes (toml_at root ''routes'') lt2) (\<lambda>lt3.
     rbind (load_section load_topics (toml_at root ''topics'') lt3) (\<lambda>lt4.
     rbind (check_route_topics (lt_routes lt4) lt4) (\<lambda>_.
     Inr lt4)))))))"

text \<open>
  \<open>parse\<close> and \<open>parse_file\<close> are toml++; a \<open>toml::parse_error\<close> is its message.
\<close>

definition load_topology_from_toml_string :: "(string \<Rightarrow> string + toml_table) \<Rightarrow> string \<Rightarrow> LoadedTopology load" where
  "load_topology_from_toml_string parse toml =
     (case parse toml of
        Inl e \<Rightarrow> throw_load (''toml parse error: '' @ e)
      | Inr root \<Rightarrow> build_from root LoadedTopology_new)"

definition load_topology_from_toml_file :: "(string \<Rightarrow> string + toml_table) \<Rightarrow> string \<Rightarrow> LoadedTopology load" where
  "load_topology_from_toml_file parse_file path =
     (case parse_file path of
        Inl e \<Rightarrow> throw_load (''toml file '' @ quoted path @ '': '' @ e)
      | Inr root \<Rightarrow> build_from root LoadedTopology_new)"

definition view :: "LoadedTopology \<Rightarrow> RouterTopology" where
  "view lt = \<lparr>peers = lt_peers lt, router_listen = lt_listen lt, topics = lt_topics lt,
     listen_uds = lt_listen_uds lt, listen_udp = lt_listen_udp lt\<rparr>"

text \<open>
  \<open>sidebands_for\<close>: the array it points to (\<open>None\<close> for \<open>nullptr\<close>) and \<open>out_count\<close>. The index is
  the distance of the entry found from the start of the table.
\<close>

definition sidebands_for :: "LoadedTopology \<Rightarrow> u8 \<Rightarrow> SidebandRegion list option \<times> nat" where
  "sidebands_for lt pid =
     (case peer_by_id (view lt) pid of
        None \<Rightarrow> (None, 0)
      | Some _ \<Rightarrow>
          let idx = length (takeWhile (\<lambda>e. peer_id e \<noteq> pid) (lt_peers lt)) in
          if idx \<ge> length (lt_ranges lt) then (None, 0)
          else case lt_ranges lt ! idx of (a, b) \<Rightarrow>
            let n = b - a in if n = 0 then (None, 0) else (Some (take n (drop a (lt_sidebands lt))), n))"

end
