(* ===== verification/LoaderSound.thy ===== *)
theory LoaderSound
  imports TopologyLoader
begin

text \<open>
  What the loader (\<open>ipc/src/router/topology_loader.hpp\<close>) guarantees of a topology it returns.
  One lemma per loading step says what the step adds to the object and what is known of it; the
  locale \<open>entry_loop\<close> lifts such a lemma to the loop over an array of tables.
\<close>

section \<open>Well-formed parts\<close>

fun addr_ok :: "PeerAddress \<Rightarrow> bool" where
  "addr_ok (peer_uds p) \<longleftrightarrow> p \<noteq> [] \<and> hd p = CHR ''/'' \<and> length p \<le> kUdsPathMaxLen \<and> c_str p = p"
| "addr_ok (peer_udp h p) \<longleftrightarrow> CHR '':'' \<notin> set h \<and> p \<noteq> 0 \<and> c_str h = h"
| "addr_ok (peer_shm n) \<longleftrightarrow> n \<noteq> [] \<and> hd n = CHR ''/'' \<and> length n \<le> kShmNameMaxLen \<and> c_str n = n"

definition peer_ok :: "PeerEntry \<Rightarrow> bool" where
  "peer_ok e \<longleftrightarrow> 1 \<le> unat (peer_id e) \<and> unat (peer_id e) \<le> 254 \<and> length (peer_name e) \<le> kPeerNameMaxLen
     \<and> addr_ok (local_addr e)
     \<and> (kind (local_addr e) \<noteq> ShmRing \<longrightarrow> shm_slot_count e = 0 \<and> shm_max_payload e = 0)
     \<and> unat (shm_slot_count e) \<le> 2 ^ 20
     \<and> (shm_max_payload e = 0
        \<or> kRouterFrameSize \<le> unat (shm_max_payload e) \<and> unat (shm_max_payload e) \<le> 256 * 1024 * 1024)"

definition sideband_ok :: "SidebandRegion \<Rightarrow> bool" where
  "sideband_ok r \<longleftrightarrow> length (region_name r) \<le> kSidebandNameMaxLen
     \<and> 0 < max_payload_bytes r \<and> uint (max_payload_bytes r) < 2 ^ 63 \<and> cuda_device r \<in> {-1..255}
     \<and> (cuda_device r \<noteq> kSidebandCudaDeviceUnset \<longrightarrow> sideband_memory_class_is_gpu (memory_class r))"

definition rule_ok :: "u8 set \<Rightarrow> RouteRule \<Rightarrow> bool" where
  "rule_ok known r \<longleftrightarrow> wf_rule r \<and> rule_dests r \<noteq> [] \<and> distinct (rule_dests r) \<and> rule_source r \<in> known
     \<and> set (rule_dests r) \<subseteq> known - {rule_source r}"

definition topic_ok :: "TopicEntry \<Rightarrow> bool" where
  "topic_ok t \<longleftrightarrow> (\<exists>n. topic_name t = Some n \<and> length n \<le> kTopicNameMaxLen \<and> c_str n = n)
     \<and> (\<forall>c. payload_class t = Some c \<longrightarrow> length c \<le> kTopicPayloadClassMaxLen)"

text \<open>The ranges of consecutive groups.\<close>

fun ranges_of :: "nat \<Rightarrow> 'a list list \<Rightarrow> (nat \<times> nat) list" where
  "ranges_of a [] = []"
| "ranges_of a (g # gs) = (a, a + length g) # ranges_of (a + length g) gs"

lemma ranges_of_append: "ranges_of a (gs @ hs) = ranges_of a gs @ ranges_of (a + length (concat gs)) hs"
  by (induction gs arbitrary: a) (simp_all add: add.assoc)

lemma length_ranges_of [simp]: "length (ranges_of a gs) = length gs"
  by (induction gs arbitrary: a) simp_all

lemma ranges_of_nth:
  "k < length gs \<Longrightarrow> ranges_of a gs ! k = (a + length (concat (take k gs)), a + length (concat (take k gs)) + length (gs ! k))"
  by (induction gs arbitrary: a k) (auto simp: nth_Cons' take_Cons' add.assoc)

lemma slice_group:
  "k < length gs \<Longrightarrow> take (length (gs ! k)) (drop (length (concat (take k gs))) (concat gs)) = gs ! k"
  by (induction gs arbitrary: k) (auto simp: nth_Cons' take_Cons')

definition peers_ok :: "LoadedTopology \<Rightarrow> bool" where
  "peers_ok lt \<longleftrightarrow> (\<forall>e\<in>set (lt_peers lt). peer_ok e) \<and> distinct (map peer_id (lt_peers lt))"

definition sidebands_ok :: "LoadedTopology \<Rightarrow> bool" where
  "sidebands_ok lt \<longleftrightarrow> (\<forall>r\<in>set (lt_sidebands lt). sideband_ok r)
     \<and> (\<exists>gs. length gs = length (lt_peers lt) \<and> lt_sidebands lt = concat gs \<and> lt_ranges lt = ranges_of 0 gs)"

definition listens_ok :: "LoadedTopology \<Rightarrow> bool" where
  "listens_ok lt \<longleftrightarrow> addr_ok (lt_listen lt)
     \<and> (kind (lt_listen lt) = UdsPath \<longrightarrow> lt_listen_uds lt \<noteq> None)
     \<and> (kind (lt_listen lt) = UdpEndpoint \<longrightarrow> lt_listen_udp lt \<noteq> None)
     \<and> (\<forall>a. lt_listen_uds lt = Some a \<longrightarrow> addr_ok a \<and> kind a = UdsPath)
     \<and> (\<forall>a. lt_listen_udp lt = Some a \<longrightarrow> addr_ok a \<and> kind a = UdpEndpoint)"

definition served_ok :: "LoadedTopology \<Rightarrow> bool" where
  "served_ok lt \<longleftrightarrow> (\<forall>e\<in>set (lt_peers lt).
     (kind (local_addr e) = UdsPath \<longrightarrow> lt_listen_uds lt \<noteq> None)
     \<and> (kind (local_addr e) = UdpEndpoint \<longrightarrow> lt_listen_udp lt \<noteq> None))"

definition routes_ok :: "LoadedTopology \<Rightarrow> bool" where
  "routes_ok lt \<longleftrightarrow> (\<forall>r\<in>set (lt_routes lt). rule_ok (peer_id ` set (lt_peers lt)) r)"

definition topics_ok :: "LoadedTopology \<Rightarrow> bool" where
  "topics_ok lt \<longleftrightarrow> (\<forall>t\<in>set (lt_topics lt). topic_ok t) \<and> distinct (map tid (lt_topics lt))
     \<and> distinct (map topic_name (lt_topics lt))"

definition route_topics_ok :: "LoadedTopology \<Rightarrow> bool" where
  "route_topics_ok lt \<longleftrightarrow> (\<forall>r\<in>set (lt_routes lt).
     rule_topic r = kRouteTopicAny \<or> rule_topic r \<in> tid ` set (lt_topics lt))"

definition loaded_ok :: "LoadedTopology \<Rightarrow> bool" where
  "loaded_ok lt \<longleftrightarrow> lt_peers lt \<noteq> [] \<and> peers_ok lt \<and> sidebands_ok lt \<and> listens_ok lt \<and> served_ok lt
     \<and> routes_ok lt \<and> topics_ok lt \<and> route_topics_ok lt"

section \<open>Well-formed documents\<close>

text \<open>
  What the document itself must satisfy, key by key, before any value is narrowed to the width of
  its field or cut to a C string. An optional key that is absent is always fine.
\<close>

definition key_int :: "toml_table \<Rightarrow> string \<Rightarrow> (int \<Rightarrow> bool) \<Rightarrow> bool" where
  "key_int t k P \<longleftrightarrow> (case value_int (toml_at t k) of None \<Rightarrow> False | Some v \<Rightarrow> P v)"

definition opt_int :: "toml_table \<Rightarrow> string \<Rightarrow> (int \<Rightarrow> bool) \<Rightarrow> bool" where
  "opt_int t k P \<longleftrightarrow> (case value_int (toml_at t k) of None \<Rightarrow> True | Some v \<Rightarrow> P v)"

definition key_string :: "toml_table \<Rightarrow> string \<Rightarrow> (string \<Rightarrow> bool) \<Rightarrow> bool" where
  "key_string t k P \<longleftrightarrow> (case value_string (toml_at t k) of None \<Rightarrow> False | Some v \<Rightarrow> P v)"

definition opt_string :: "toml_table \<Rightarrow> string \<Rightarrow> (string \<Rightarrow> bool) \<Rightarrow> bool" where
  "opt_string t k P \<longleftrightarrow> (case value_string (toml_at t k) of None \<Rightarrow> True | Some v \<Rightarrow> P v)"

definition opt_tables :: "toml_table \<Rightarrow> string \<Rightarrow> (toml_table \<Rightarrow> bool) \<Rightarrow> bool" where
  "opt_tables t k P \<longleftrightarrow> (case as_array (toml_at t k) of None \<Rightarrow> True
     | Some ns \<Rightarrow> \<forall>n\<in>set ns. case as_table (Some n) of None \<Rightarrow> False | Some u \<Rightarrow> P u)"

lemmas key_defs = key_int_def opt_int_def key_string_def opt_string_def opt_tables_def

definition spec_of_kind :: "(PeerAddressKind \<Rightarrow> bool) \<Rightarrow> string \<Rightarrow> bool" where
  "spec_of_kind P s \<longleftrightarrow> (case parse_address s of Inl _ \<Rightarrow> False | Inr a \<Rightarrow> P (kind a))"

definition sideband_table_ok :: "toml_table \<Rightarrow> bool" where
  "sideband_table_ok t \<longleftrightarrow> key_string t ''name'' (\<lambda>s. length s \<le> kSidebandNameMaxLen)
     \<and> key_int t ''max_payload_bytes'' (\<lambda>v. 0 < v)
     \<and> opt_int t ''version'' (\<lambda>v. 0 \<le> v \<and> v < 2 ^ 32)
     \<and> opt_string t ''memory_class'' (\<lambda>s. c_str s \<in> {''shm'', ''cuda_managed'', ''cuda_host'', ''nvbufsurface''})
     \<and> opt_int t ''cuda_device'' (\<lambda>v. 0 \<le> v \<and> v \<le> 255
         \<and> key_string t ''memory_class'' (\<lambda>s. c_str s \<noteq> ''shm''))"

definition peer_table_ok :: "toml_table \<Rightarrow> bool" where
  "peer_table_ok t \<longleftrightarrow> key_int t ''id'' (\<lambda>v. 1 \<le> v \<and> v \<le> 254)
     \<and> key_string t ''name'' (\<lambda>s. s \<noteq> [] \<and> length s \<le> kPeerNameMaxLen)
     \<and> key_string t ''local'' (spec_of_kind (\<lambda>k. k = ShmRing
         \<or> value_int (toml_at t ''shm_slot_count'') = None \<and> value_int (toml_at t ''shm_max_payload'') = None))
     \<and> opt_int t ''shm_slot_count'' (\<lambda>v. 0 \<le> v \<and> v \<le> 2 ^ 20)
     \<and> opt_int t ''shm_max_payload'' (\<lambda>v. v = 0 \<or> int kRouterFrameSize \<le> v \<and> v \<le> 256 * 1024 * 1024)
     \<and> opt_tables t ''sideband'' sideband_table_ok"

definition route_table_ok :: "toml_table \<Rightarrow> bool" where
  "route_table_ok t \<longleftrightarrow> key_int t ''source'' (\<lambda>_. True)
     \<and> (case as_array (toml_at t ''dest'') of None \<Rightarrow> False | Some ns \<Rightarrow>
          1 \<le> length ns \<and> length ns \<le> 8
          \<and> (\<forall>n\<in>set ns. case value_int (Some n) of None \<Rightarrow> False | Some v \<Rightarrow> 1 \<le> v \<and> v \<le> 254))
     \<and> opt_int t ''topic'' (\<lambda>v. 0 \<le> v \<and> v \<le> 65534)"

definition topic_table_ok :: "toml_table \<Rightarrow> bool" where
  "topic_table_ok t \<longleftrightarrow> key_int t ''id'' (\<lambda>v. 0 \<le> v \<and> v \<le> 65535)
     \<and> key_string t ''name'' (\<lambda>s. s \<noteq> [] \<and> length s \<le> kTopicNameMaxLen)
     \<and> opt_string t ''payload_class'' (\<lambda>s. s \<noteq> [] \<and> length s \<le> kTopicPayloadClassMaxLen)
     \<and> opt_int t ''sideband_idx'' (\<lambda>v. 0 \<le> v \<and> v \<le> 65535)"

definition router_table_ok :: "toml_table \<Rightarrow> bool" where
  "router_table_ok t \<longleftrightarrow> key_string t ''listen'' (spec_of_kind (\<lambda>_. True))
     \<and> opt_string t ''listen_uds'' (spec_of_kind (\<lambda>k. k = UdsPath))
     \<and> opt_string t ''listen_udp'' (spec_of_kind (\<lambda>k. k = UdpEndpoint))"

definition document_ok :: "toml_table \<Rightarrow> bool" where
  "document_ok root \<longleftrightarrow>
     (case as_table (toml_at root ''router'') of None \<Rightarrow> False | Some t \<Rightarrow> router_table_ok t)
     \<and> (case as_array (toml_at root ''peers'') of None \<Rightarrow> False | Some ns \<Rightarrow> ns \<noteq> [])
     \<and> opt_tables root ''peers'' peer_table_ok
     \<and> opt_tables root ''routes'' route_table_ok
     \<and> opt_tables root ''topics'' topic_table_ok"

section \<open>Each step\<close>

lemma require_Inr [res_simps]: "require x what = Inr v \<longleftrightarrow> x = Some v"
  by (cases x) (simp_all add: require_def throw_load_def)

lemma reject_if_Inr [res_simps]: "reject_if b what = Inr u \<longleftrightarrow> \<not> b"
  by (simp add: reject_if_def throw_load_def)

lemma throw_load_Inr [res_simps]: "throw_load what = Inr v \<longleftrightarrow> False"
  by (simp add: throw_load_def)

lemma require_reject_simps [simp]:
  "require (Some v) what = Inr v" "reject_if False what = Inr ()"
  by (simp_all add: require_def reject_if_def)

lemma c_str_props:
  "length (c_str s) \<le> length s" "x \<notin> set s \<Longrightarrow> x \<notin> set (c_str s)"
  "s \<noteq> [] \<Longrightarrow> hd s = CHR ''/'' \<Longrightarrow> c_str s \<noteq> [] \<and> hd (c_str s) = CHR ''/''"
  by (auto simp: c_str_def length_takeWhile_le dest: set_takeWhileD) (cases s; simp)+

lemma load_address_step:
  assumes "load_address spec lt = Inr (a, lt')"
  shows "addr_ok a" "lt' = lt\<lparr>lt_strings := lt_strings lt'\<rparr>"
proof -
  obtain b where b: "parse_address spec = Inr b"
    using assms by (auto simp only: load_address_def rbind_eq_Inr)
  note c = c_str_props le_trans [OF c_str_props(1)]
  show "addr_ok a" "lt' = lt\<lparr>lt_strings := lt_strings lt'\<rparr>"
    using assms parse_address_ok [OF b] b c by (cases b; auto simp: load_address_def intern_def)+
qed

text \<open>The numeric keys, read after their range check.\<close>

lemma word_of_int_unat: "0 \<le> v \<Longrightarrow> v < 2 ^ LENGTH('w) \<Longrightarrow> unat (word_of_int v :: 'w::len word) = nat v"
  by (simp add: unat_eq_nat_uint uint_word_of_int)

lemma load_slot_count_step:
  "load_slot_count nm opt e = Inr e' \<Longrightarrow>
   e' = e\<lparr>shm_slot_count := shm_slot_count e'\<rparr>
   \<and> (if opt = None then shm_slot_count e' = shm_slot_count e else unat (shm_slot_count e') \<le> 2 ^ 20)"
  by (cases opt) (auto simp: load_slot_count_def res_simps kShmSlotCountMin_def kShmSlotCountMax_def word_of_int_unat)

lemma load_max_payload_step:
  "load_max_payload nm opt e = Inr e' \<Longrightarrow>
   e' = e\<lparr>shm_max_payload := shm_max_payload e'\<rparr>
   \<and> (if opt = None then shm_max_payload e' = shm_max_payload e
      else shm_max_payload e' = 0
        \<or> kRouterFrameSize \<le> unat (shm_max_payload e') \<and> unat (shm_max_payload e') \<le> 256 * 1024 * 1024)"
  by (cases opt) (auto simp: load_max_payload_def res_simps kShmMaxPayloadMax_def kRouterFrameSize_def word_of_int_unat)

lemma load_peer_entry_step:
  assumes "load_peer_entry i tbl lt = Inr (nm, e, lt')"
  shows "peer_ok e \<and> peer_id e \<notin> peer_id ` set (lt_peers lt) \<and> lt' = lt\<lparr>lt_strings := lt_strings lt'\<rparr>"
proof -
  let ?sc = "value_int (toml_at tbl ''shm_slot_count'')" and ?mp = "value_int (toml_at tbl ''shm_max_payload'')"
  obtain idv loc addr e1 where e:
    "1 \<le> idv" "idv \<le> 254" "length nm \<le> kPeerNameMaxLen" "\<forall>e\<in>set (lt_peers lt). peer_id e \<noteq> word_of_int idv"
    "load_address loc (snd (intern nm lt)) = Inr (addr, lt')"
    "(?sc = None \<and> ?mp = None) \<or> kind addr = ShmRing"
    "load_slot_count nm ?sc \<lparr>peer_id = word_of_int idv, peer_name = c_str nm, local_addr = addr,
       shm_slot_count = 0, shm_max_payload = 0\<rparr> = Inr e1"
    "load_max_payload nm ?mp e1 = Inr e"
    using assms by (auto simp: load_peer_entry_def intern_def res_simps Let_def not_less)
  note sc = load_slot_count_step [OF e(7)] and mp = load_max_payload_step [OF e(8)]
  have e1: "peer_id e1 = word_of_int idv" "peer_name e1 = c_str nm" "local_addr e1 = addr" "shm_max_payload e1 = 0"
    by (subst conjunct1 [OF sc], simp)+
  have e2: "peer_id e = word_of_int idv" "peer_name e = c_str nm" "local_addr e = addr" "shm_slot_count e = shm_slot_count e1"
    by (subst conjunct1 [OF mp], simp add: e1)+
  have "unat (word_of_int idv :: u8) = nat idv" using e(1,2) by (intro word_of_int_unat) simp_all
  moreover have "length (c_str nm) \<le> kPeerNameMaxLen" using e(3) c_str_props(1) [of nm] by simp
  ultimately have "peer_ok e"
    using e(1,2,6) load_address_step(1) [OF e(5)] sc mp e1(4) by (auto simp: peer_ok_def e2 split: if_splits)
  moreover have "lt' = lt\<lparr>lt_strings := lt_strings lt'\<rparr>"
    by (subst load_address_step(2) [OF e(5)]) (simp add: intern_def)
  ultimately show ?thesis using e(4) e2 by auto
qed

lemma load_version_step:
  "load_version sb opt r = Inr r' \<Longrightarrow> r' = r\<lparr>version := version r'\<rparr>"
  by (cases opt) (auto simp: load_version_def res_simps)

lemma load_memory_class_step:
  "load_memory_class sb opt r = Inr r' \<Longrightarrow> r' = r\<lparr>memory_class := memory_class r'\<rparr>"
  by (cases opt) (auto simp: load_memory_class_def res_simps split: prod.splits)

lemma load_cuda_device_step:
  "load_cuda_device sb opt r = Inr r' \<Longrightarrow>
   r' = r\<lparr>cuda_device := cuda_device r'\<rparr>
   \<and> (cuda_device r' = cuda_device r \<or> cuda_device r' \<in> {0..255} \<and> sideband_memory_class_is_gpu (memory_class r))"
  by (cases opt) (auto simp: load_cuda_device_def res_simps)

lemma load_sideband_step:
  assumes "load_sideband nm j node lt = Inr lt'"
  shows "\<exists>r. sideband_ok r \<and> lt' = lt\<lparr>lt_strings := lt_strings lt', lt_sidebands := lt_sidebands lt @ [r]\<rparr>"
proof -
  obtain tbl sb b r1 r2 r3 where s: "length sb \<le> kSidebandNameMaxLen"
    "load_version sb (value_int (toml_at tbl ''version'')) \<lparr>region_name = c_str sb, max_payload_bytes = word_of_int b,
       version = kSidebandVersion, memory_class = Shm, cuda_device = kSidebandCudaDeviceUnset\<rparr> = Inr r1"
    "load_memory_class sb (value_string (toml_at tbl ''memory_class'')) r1 = Inr r2"
    "load_cuda_device sb (value_int (toml_at tbl ''cuda_device'')) r2 = Inr r3"
    "lt' = (snd (intern sb lt))\<lparr>lt_sidebands := lt_sidebands lt @ [r3]\<rparr>"
    "value_int (toml_at tbl ''max_payload_bytes'') = Some b" "0 < b"
    using assms by (auto simp: load_sideband_def intern_def res_simps Let_def not_less split: option.splits)
  have r1: "region_name r1 = c_str sb" "cuda_device r1 = kSidebandCudaDeviceUnset" "max_payload_bytes r1 = word_of_int b"
    by (subst load_version_step [OF s(2)], simp)+
  have r2: "region_name r2 = c_str sb" "cuda_device r2 = kSidebandCudaDeviceUnset" "max_payload_bytes r2 = word_of_int b"
    by (subst load_memory_class_step [OF s(3)], simp add: r1)+
  have b: "uint (word_of_int b :: u64) = b" "b < 2 ^ 63"
    using value_int_range [OF s(6)] s(7) by (simp_all add: uint_word_of_int)
  note cd = load_cuda_device_step [OF s(4)]
  have r3: "region_name r3 = c_str sb" "memory_class r3 = memory_class r2" "max_payload_bytes r3 = word_of_int b"
    by (subst conjunct1 [OF cd], simp add: r2)+
  have "0 < (word_of_int b :: u64)" using s(7) b by (simp add: word_less_def)
  then have "sideband_ok r3"
    using cd s(1) b c_str_props(1) [of sb] by (auto simp: sideband_ok_def r3 r2 kSidebandCudaDeviceUnset_def)
  then show ?thesis using s(5) by (auto simp: intern_def)
qed

section \<open>The loops\<close>

text \<open>
  The four loops over arrays of tables have the same shape. What one step adds is described by a
  relation \<open>R\<close> that composes.
\<close>

locale entry_loop =
  fixes step :: "nat \<Rightarrow> toml_node \<Rightarrow> LoadedTopology \<Rightarrow> LoadedTopology load"
    and loop :: "nat \<Rightarrow> toml_node list \<Rightarrow> LoadedTopology \<Rightarrow> LoadedTopology load"
    and R :: "LoadedTopology \<Rightarrow> LoadedTopology \<Rightarrow> bool"
  assumes loop_Nil: "loop i [] lt = Inr lt"
    and loop_Cons: "loop i (n # ns) lt = rbind (step i n lt) (loop (Suc i) ns)"
    and R_refl: "R lt lt"
    and R_trans: "R a b \<Longrightarrow> R b c \<Longrightarrow> R a c"
    and step_R: "step i n lt = Inr lt' \<Longrightarrow> R lt lt'"
begin

lemma loop_R: "loop i ns lt = Inr lt' \<Longrightarrow> R lt lt'"
proof (induction ns arbitrary: i lt)
  case Nil
  then show ?case by (simp add: loop_Nil R_refl)
next
  case (Cons n ns)
  then obtain lt1 where "step i n lt = Inr lt1" "loop (Suc i) ns lt1 = Inr lt'"
    by (auto simp: loop_Cons rbind_eq_Inr)
  then show ?case using Cons.IH step_R R_trans by blast
qed

lemma section_R: "load_section loop node lt = Inr lt' \<Longrightarrow> R lt lt'"
  by (auto simp: load_section_def R_refl loop_R split: option.splits)

end

definition sidebands_added :: "LoadedTopology \<Rightarrow> LoadedTopology \<Rightarrow> bool" where
  "sidebands_added lt lt' \<longleftrightarrow> (\<exists>g. (\<forall>r\<in>set g. sideband_ok r)
     \<and> lt' = lt\<lparr>lt_strings := lt_strings lt', lt_sidebands := lt_sidebands lt @ g\<rparr>)"

lemma sidebands_added_trans: "sidebands_added a b \<Longrightarrow> sidebands_added b c \<Longrightarrow> sidebands_added a c"
proof -
  assume "sidebands_added a b" "sidebands_added b c"
  then obtain g h where g: "\<forall>r\<in>set g. sideband_ok r" "\<forall>r\<in>set h. sideband_ok r"
    "b = a\<lparr>lt_strings := lt_strings b, lt_sidebands := lt_sidebands a @ g\<rparr>"
    "c = b\<lparr>lt_strings := lt_strings c, lt_sidebands := lt_sidebands b @ h\<rparr>"
    unfolding sidebands_added_def by blast
  have "c = a\<lparr>lt_strings := lt_strings c, lt_sidebands := lt_sidebands a @ g @ h\<rparr>"
    by (subst g(4), subst g(3), subst (2) g(3), simp)
  then show ?thesis using g(1,2) unfolding sidebands_added_def by (intro exI [of _ "g @ h"]) auto
qed

interpretation sideband_loop: entry_loop "load_sideband nm" "load_sidebands nm" sidebands_added for nm
proof (unfold_locales, goal_cases)
  case (3 lt)
  show ?case by (simp add: sidebands_added_def exI [of _ "[]"])
next
  case (5 i n lt lt')
  then show ?case using load_sideband_step unfolding sidebands_added_def
    by (metis empty_iff insert_iff list.set(1) list.simps(15))
qed (use sidebands_added_trans in auto)

text \<open>A peer with its sidebands: one entry, one group, one range.\<close>

definition peers_added :: "LoadedTopology \<Rightarrow> LoadedTopology \<Rightarrow> bool" where
  "peers_added lt lt' \<longleftrightarrow> (\<exists>es gs. length gs = length es \<and> (\<forall>e\<in>set es. peer_ok e)
     \<and> (\<forall>r\<in>set (concat gs). sideband_ok r)
     \<and> (distinct (map peer_id (lt_peers lt)) \<longrightarrow> distinct (map peer_id (lt_peers lt @ es)))
     \<and> lt' = lt\<lparr>lt_strings := lt_strings lt', lt_peers := lt_peers lt @ es, lt_sidebands := lt_sidebands lt @ concat gs,
         lt_ranges := lt_ranges lt @ ranges_of (length (lt_sidebands lt)) gs\<rparr>)"

lemma peers_added_trans: "peers_added a b \<Longrightarrow> peers_added b c \<Longrightarrow> peers_added a c"
proof -
  assume "peers_added a b" "peers_added b c"
  then obtain es gs fs hs where g: "length gs = length es" "\<forall>e\<in>set es. peer_ok e" "\<forall>r\<in>set (concat gs). sideband_ok r"
    "distinct (map peer_id (lt_peers a)) \<longrightarrow> distinct (map peer_id (lt_peers a @ es))"
    "b = a\<lparr>lt_strings := lt_strings b, lt_peers := lt_peers a @ es, lt_sidebands := lt_sidebands a @ concat gs,
         lt_ranges := lt_ranges a @ ranges_of (length (lt_sidebands a)) gs\<rparr>"
    "length hs = length fs" "\<forall>e\<in>set fs. peer_ok e" "\<forall>r\<in>set (concat hs). sideband_ok r"
    "distinct (map peer_id (lt_peers b)) \<longrightarrow> distinct (map peer_id (lt_peers b @ fs))"
    "c = b\<lparr>lt_strings := lt_strings c, lt_peers := lt_peers b @ fs, lt_sidebands := lt_sidebands b @ concat hs,
         lt_ranges := lt_ranges b @ ranges_of (length (lt_sidebands b)) hs\<rparr>"
    unfolding peers_added_def by (elim exE conjE) (rule that)
  have pb: "lt_peers b = lt_peers a @ es" "lt_sidebands b = lt_sidebands a @ concat gs"
    "lt_ranges b = lt_ranges a @ ranges_of (length (lt_sidebands a)) gs"
    by (subst g(5), simp)+
  have "c = a\<lparr>lt_strings := lt_strings c, lt_peers := lt_peers a @ es @ fs, lt_sidebands := lt_sidebands a @ concat (gs @ hs),
      lt_ranges := lt_ranges a @ ranges_of (length (lt_sidebands a)) (gs @ hs)\<rparr>"
    by (subst g(10), subst g(5)) (simp add: pb ranges_of_append)
  moreover have "distinct (map peer_id (lt_peers a)) \<longrightarrow> distinct (map peer_id (lt_peers a @ es @ fs))"
    using g(4,9) by (simp add: pb)
  moreover have "length (gs @ hs) = length (es @ fs)" "\<forall>e\<in>set (es @ fs). peer_ok e"
    "\<forall>r\<in>set (concat (gs @ hs)). sideband_ok r" using g by auto
  ultimately show ?thesis unfolding peers_added_def by (intro exI [of _ "es @ fs"] exI [of _ "gs @ hs"]) blast
qed

lemma load_peer_step:
  assumes "load_peer i node lt = Inr lt'"
  shows "peers_added lt lt'" "lt_peers lt' \<noteq> []"
proof -
  obtain tbl nm e lt1 lt3 where p: "load_peer_entry i tbl lt = Inr (nm, e, lt1)"
    "load_section (load_sidebands nm) (toml_at tbl ''sideband'') (lt1\<lparr>lt_peers := lt_peers lt1 @ [e]\<rparr>) = Inr lt3"
    "lt' = lt3\<lparr>lt_ranges := lt_ranges lt3 @ [(length (lt_sidebands lt1), length (lt_sidebands lt3))]\<rparr>"
    using assms by (auto simp: load_peer_def res_simps Let_def)
  note e = load_peer_entry_step [OF p(1)]
  have lt1: "lt1 = lt\<lparr>lt_strings := lt_strings lt1\<rparr>" using e by simp
  have f1: "lt_peers lt1 = lt_peers lt" "lt_sidebands lt1 = lt_sidebands lt" "lt_ranges lt1 = lt_ranges lt"
    by (subst lt1, simp)+
  have "sidebands_added (lt1\<lparr>lt_peers := lt_peers lt1 @ [e]\<rparr>) lt3"
    by (rule sideband_loop.section_R [OF p(2)])
  then obtain g where g: "\<forall>r\<in>set g. sideband_ok r"
    "lt3 = lt1\<lparr>lt_peers := lt_peers lt1 @ [e], lt_strings := lt_strings lt3, lt_sidebands := lt_sidebands lt1 @ g\<rparr>"
    by (auto simp: sidebands_added_def)
  have f3: "lt_ranges lt3 = lt_ranges lt" "lt_sidebands lt3 = lt_sidebands lt @ g" by (subst g(2), simp add: f1)+
  have "lt' = lt\<lparr>lt_strings := lt_strings lt', lt_peers := lt_peers lt @ [e], lt_sidebands := lt_sidebands lt @ concat [g],
         lt_ranges := lt_ranges lt @ ranges_of (length (lt_sidebands lt)) [g]\<rparr>"
    unfolding p(3) f3 by (subst g(2), subst lt1) (simp add: f1)
  then show "peers_added lt lt'"
    unfolding peers_added_def using e g(1) by (intro exI [of _ "[e]"] exI [of _ "[g]"]) auto
  show "lt_peers lt' \<noteq> []" unfolding p(3) by (subst g(2)) simp
qed

interpretation peer_loop: entry_loop load_peer load_peers peers_added
proof (unfold_locales, goal_cases)
  case (3 lt)
  show ?case unfolding peers_added_def by (intro exI [of _ "[]"]) simp
qed (use peers_added_trans load_peer_step in auto)

lemma load_peers_nonempty:
  assumes "load_peers i ns lt = Inr lt'" "ns \<noteq> []"
  shows "lt_peers lt' \<noteq> []"
proof -
  obtain n ms where ns: "ns = n # ms" using assms(2) by (cases ns) auto
  then obtain lt1 where l: "load_peer i n lt = Inr lt1" "load_peers (Suc i) ms lt1 = Inr lt'"
    using assms(1) by (auto simp: res_simps)
  obtain es gs where h: "lt' = lt1\<lparr>lt_strings := lt_strings lt', lt_peers := lt_peers lt1 @ es,
      lt_sidebands := lt_sidebands lt1 @ concat gs, lt_ranges := lt_ranges lt1 @ ranges_of (length (lt_sidebands lt1)) gs\<rparr>"
    using peer_loop.loop_R [OF l(2)] unfolding peers_added_def by (elim exE conjE) (rule that)
  show ?thesis by (subst h) (simp add: load_peer_step(2) [OF l(1)])
qed

text \<open>The router section touches no table.\<close>

definition same_tables :: "LoadedTopology \<Rightarrow> LoadedTopology \<Rightarrow> bool" where
  "same_tables a b \<longleftrightarrow> lt_peers a = lt_peers b \<and> lt_routes a = lt_routes b \<and> lt_topics a = lt_topics b
     \<and> lt_sidebands a = lt_sidebands b \<and> lt_ranges a = lt_ranges b"

lemma load_address_same:
  assumes "load_address spec lt = Inr (a, lt')"
  shows "same_tables lt' lt" "lt_listen lt' = lt_listen lt" "lt_listen_uds lt' = lt_listen_uds lt"
    "lt_listen_udp lt' = lt_listen_udp lt"
proof -
  have "lt' = lt\<lparr>lt_strings := x\<rparr> \<Longrightarrow> same_tables lt' lt \<and> lt_listen lt' = lt_listen lt
    \<and> lt_listen_uds lt' = lt_listen_uds lt \<and> lt_listen_udp lt' = lt_listen_udp lt" for x
    by (simp add: same_tables_def)
  from this [OF load_address_step(2) [OF assms]]
  show "same_tables lt' lt" "lt_listen lt' = lt_listen lt" "lt_listen_uds lt' = lt_listen_uds lt"
    "lt_listen_udp lt' = lt_listen_udp lt" by simp_all
qed

lemmas load_address_facts = load_address_step(1) load_address_same

lemma load_listen_uds_step:
  "load_listen_uds sec lt = Inr lt' \<Longrightarrow> listens_ok lt \<Longrightarrow> listens_ok lt' \<and> same_tables lt' lt"
  by (auto simp: load_listen_uds_def res_simps listens_ok_def same_tables_def split: option.splits
      dest: load_address_facts)

lemma load_listen_udp_step:
  "load_listen_udp sec lt = Inr lt' \<Longrightarrow> listens_ok lt \<Longrightarrow> listens_ok lt' \<and> same_tables lt' lt"
  by (auto simp: load_listen_udp_def res_simps listens_ok_def same_tables_def split: option.splits
      dest: load_address_facts)

lemma load_router_step:
  assumes "load_router root lt = Inr lt'" "lt_listen_uds lt = None" "lt_listen_udp lt = None"
  shows "listens_ok lt' \<and> same_tables lt' lt"
proof -
  obtain sec spec addr lt1 lt3 lt4 where r: "load_address spec lt = Inr (addr, lt1)"
    "lt3 = (case kind addr of
        UdsPath \<Rightarrow> lt1\<lparr>lt_listen := addr, lt_listen_uds := Some addr\<rparr>
      | UdpEndpoint \<Rightarrow> lt1\<lparr>lt_listen := addr, lt_listen_udp := Some addr\<rparr>
      | ShmRing \<Rightarrow> lt1\<lparr>lt_listen := addr\<rparr>)"
    "load_listen_uds sec lt3 = Inr lt4" "load_listen_udp sec lt4 = Inr lt'"
    using assms(1) by (auto simp: load_router_def res_simps Let_def)
  note a = load_address_facts [OF r(1)]
  have "listens_ok lt3" "same_tables lt3 lt"
    using a assms(2,3) unfolding r(2) by (simp_all add: listens_ok_def same_tables_def split: PeerAddressKind.splits)
  then show ?thesis
    using load_listen_uds_step [OF r(3)] load_listen_udp_step [OF r(4)] by (simp add: same_tables_def)
qed

lemma check_listens_ok:
  "check_listens ps lt = Inr u \<longleftrightarrow> (\<forall>e\<in>set ps.
     (kind (local_addr e) = UdsPath \<longrightarrow> lt_listen_uds lt \<noteq> None)
     \<and> (kind (local_addr e) = UdpEndpoint \<longrightarrow> lt_listen_udp lt \<noteq> None))"
  by (induction ps) (auto simp: res_simps)

lemma extract_ids_length: "extract_ids i ns = Inr ds \<Longrightarrow> length ds = length ns"
  by (induction ns arbitrary: ds) (auto simp: res_simps)

lemma peer_exists_iff: "peer_exists lt d \<longleftrightarrow> d \<in> peer_id ` set (lt_peers lt)"
  by (auto simp: peer_exists_def)

lemma check_dests_ok:
  "check_dests i src lt prev ds = Inr u \<longleftrightarrow>
   (\<forall>d\<in>set ds. peer_exists lt d \<and> d \<noteq> src \<and> d \<notin> set prev) \<and> distinct ds"
  by (induction ds arbitrary: prev) (auto simp: res_simps)

lemma load_route_step:
  assumes "load_route i node lt = Inr lt'"
  shows "\<exists>r. rule_ok (peer_id ` set (lt_peers lt)) r \<and> lt' = lt\<lparr>lt_routes := lt_routes lt @ [r]\<rparr>"
proof -
  obtain sv ns ds topic where r: "ns \<noteq> []" "length ns \<le> kMaxRouteDests" "extract_ids i ns = Inr ds"
    "peer_exists lt (word_of_int sv)" "check_dests i (word_of_int sv) lt [] ds = Inr ()"
    "lt' = lt\<lparr>lt_routes := lt_routes lt @ [\<lparr>rule_source = word_of_int sv, dest_count = of_nat (length ds),
        rule_topic = topic, dest = ds @ replicate (kMaxRouteDests - length ds) 0\<rparr>]\<rparr>"
    using assms by (auto simp: load_route_def res_simps Let_def not_less split: option.splits if_splits)
  have len: "length ds \<le> kMaxRouteDests" "ds \<noteq> []" using extract_ids_length [OF r(3)] r(1,2) by auto
  have "unat (of_nat (length ds) :: u8) = length ds"
    using len(1) by (intro unat_of_nat_small) (simp add: kMaxRouteDests_def)
  then have "rule_ok (peer_id ` set (lt_peers lt)) \<lparr>rule_source = word_of_int sv, dest_count = of_nat (length ds),
        rule_topic = topic, dest = ds @ replicate (kMaxRouteDests - length ds) 0\<rparr>"
    using len r(4,5) by (auto simp: rule_ok_def wf_rule_def rule_dests_def check_dests_ok peer_exists_iff)
  then show ?thesis using r(6) by blast
qed

definition routes_added :: "LoadedTopology \<Rightarrow> LoadedTopology \<Rightarrow> bool" where
  "routes_added lt lt' \<longleftrightarrow> (\<exists>rs. (\<forall>r\<in>set rs. rule_ok (peer_id ` set (lt_peers lt)) r)
     \<and> lt' = lt\<lparr>lt_routes := lt_routes lt @ rs\<rparr>)"

interpretation route_loop: entry_loop load_route load_routes routes_added
proof (unfold_locales, goal_cases)
  case (3 lt)
  show ?case unfolding routes_added_def by (intro exI [of _ "[]"]) simp
next
  case (4 a b c)
  then obtain rs ss where "\<forall>r\<in>set (rs @ ss). rule_ok (peer_id ` set (lt_peers a)) r"
    "c = a\<lparr>lt_routes := lt_routes a @ rs @ ss\<rparr>"
    unfolding routes_added_def by fastforce
  then show ?case unfolding routes_added_def by blast
next
  case (5 i n lt lt')
  from load_route_step [OF 5] obtain r where "rule_ok (peer_id ` set (lt_peers lt)) r"
    "lt' = lt\<lparr>lt_routes := lt_routes lt @ [r]\<rparr>" by blast
  then show ?case unfolding routes_added_def by (intro exI [of _ "[r]"]) simp
qed simp_all

lemma load_payload_class_step:
  assumes "load_payload_class nm opt tp lt = Inr (tp', lt')" "payload_class tp = None"
  shows "tp' = tp\<lparr>payload_class := payload_class tp'\<rparr>
    \<and> (\<forall>c. payload_class tp' = Some c \<longrightarrow> length c \<le> kTopicPayloadClassMaxLen)
    \<and> lt' = lt\<lparr>lt_strings := lt_strings lt'\<rparr>"
  using assms
  by (cases opt) (auto simp: load_payload_class_def res_simps intern_def not_less
      intro: le_trans [OF c_str_props(1)])

lemma load_sideband_idx_step:
  "load_sideband_idx nm opt tp = Inr tp' \<Longrightarrow> tp' = tp\<lparr>topic_sideband_idx := topic_sideband_idx tp'\<rparr>"
  by (cases opt) (auto simp: load_sideband_idx_def res_simps)

lemma load_topic_step:
  assumes "load_topic i node lt = Inr lt'"
  shows "\<exists>tp. topic_ok tp \<and> tid tp \<notin> tid ` set (lt_topics lt)
    \<and> (\<forall>t\<in>set (lt_topics lt). topic_ok t \<longrightarrow> topic_name t \<noteq> topic_name tp)
    \<and> lt' = lt\<lparr>lt_strings := lt_strings lt', lt_topics := lt_topics lt @ [tp]\<rparr>"
proof -
  obtain i16 nm pc tp1 lt2 si tp2 where p: "\<forall>t\<in>set (lt_topics lt). tid t \<noteq> i16" "length nm \<le> kTopicNameMaxLen"
    "\<forall>t\<in>set (lt_topics lt). case topic_name t of None \<Rightarrow> True | Some n \<Rightarrow> \<not> strcmp_eq n nm"
    "load_payload_class nm pc \<lparr>tid = i16, topic_sideband_idx = 0, topic_name = Some (c_str nm), payload_class = None\<rparr>
       (snd (intern nm lt)) = Inr (tp1, lt2)"
    "load_sideband_idx nm si tp1 = Inr tp2"
    "lt' = lt2\<lparr>lt_topics := lt_topics lt2 @ [tp2]\<rparr>"
    using assms by (auto simp: load_topic_def intern_def res_simps Let_def not_less split: option.splits)
  note pcs = load_payload_class_step [OF p(4), simplified] and sis = load_sideband_idx_step [OF p(5)]
  have t1: "tid tp1 = i16" "topic_name tp1 = Some (c_str nm)" by (subst conjunct1 [OF pcs], simp)+
  have t2: "tid tp2 = i16" "topic_name tp2 = Some (c_str nm)" "payload_class tp2 = payload_class tp1"
    by (subst sis, simp add: t1)+
  have "length (c_str nm) \<le> kTopicNameMaxLen" using p(2) c_str_props(1) [of nm] by simp
  then have "topic_ok tp2" using pcs by (simp add: topic_ok_def t2)
  moreover have "\<forall>t\<in>set (lt_topics lt). topic_ok t \<longrightarrow> topic_name t \<noteq> topic_name tp2"
    using p(3) by (auto simp: t2 topic_ok_def strcmp_eq_def split: option.splits)
  moreover have "lt2 = lt\<lparr>lt_strings := lt_strings lt2\<rparr>" using pcs by (auto simp: intern_def)
  then have "lt' = lt\<lparr>lt_strings := lt_strings lt', lt_topics := lt_topics lt @ [tp2]\<rparr>"
    unfolding p(6) by (metis LoadedTopology.surjective LoadedTopology.update_convs(1,4) LoadedTopology.select_convs(1,4))
  ultimately show ?thesis using p(1) t2(1) by (intro exI [of _ tp2]) auto
qed

definition topics_added :: "LoadedTopology \<Rightarrow> LoadedTopology \<Rightarrow> bool" where
  "topics_added lt lt' \<longleftrightarrow> (\<exists>ts. (topics_ok lt \<longrightarrow> topics_ok lt')
     \<and> lt' = lt\<lparr>lt_strings := lt_strings lt', lt_topics := lt_topics lt @ ts\<rparr>)"

interpretation topic_loop: entry_loop load_topic load_topics topics_added
proof (unfold_locales, goal_cases)
  case (3 lt)
  show ?case unfolding topics_added_def by (intro exI [of _ "[]"]) simp
next
  case (4 a b c)
  then obtain ts us where t: "topics_ok a \<longrightarrow> topics_ok c"
    "b = a\<lparr>lt_strings := lt_strings b, lt_topics := lt_topics a @ ts\<rparr>"
    "c = b\<lparr>lt_strings := lt_strings c, lt_topics := lt_topics b @ us\<rparr>"
    unfolding topics_added_def by (elim exE conjE) blast
  have "c = a\<lparr>lt_strings := lt_strings c, lt_topics := lt_topics a @ ts @ us\<rparr>"
    by (subst t(3), subst t(2), subst (2) t(2)) simp
  then show ?case using t(1) unfolding topics_added_def by blast
next
  case (5 i n lt lt')
  from load_topic_step [OF 5] obtain tp where tp: "topic_ok tp" "tid tp \<notin> tid ` set (lt_topics lt)"
    "\<forall>t\<in>set (lt_topics lt). topic_ok t \<longrightarrow> topic_name t \<noteq> topic_name tp"
    "lt' = lt\<lparr>lt_strings := lt_strings lt', lt_topics := lt_topics lt @ [tp]\<rparr>" by blast
  have "lt_topics lt' = lt_topics lt @ [tp]" by (subst tp(4)) simp
  then have "topics_ok lt \<longrightarrow> topics_ok lt'" using tp(1-3) by (auto simp: topics_ok_def)
  then show ?case using tp(4) unfolding topics_added_def by blast
qed simp_all

lemma check_route_topics_ok:
  "check_route_topics rs lt = Inr u \<longleftrightarrow> (\<forall>r\<in>set rs. rule_topic r = kRouteTopicAny \<or> rule_topic r \<in> tid ` set (lt_topics lt))"
  by (induction rs) (force simp: res_simps)+

section \<open>The whole profile\<close>

lemma build_from_ok:
  assumes "build_from root LoadedTopology_new = Inr lt"
  shows "loaded_ok lt"
proof -
  let ?new = "LoadedTopology_new"
  obtain ns lt1 lt2 lt3 where b: "load_router root ?new = Inr lt1" "ns \<noteq> []" "load_peers 0 ns lt1 = Inr lt2"
    "check_listens (lt_peers lt2) lt2 = Inr ()"
    "load_section load_routes (toml_at root ''routes'') lt2 = Inr lt3"
    "load_section load_topics (toml_at root ''topics'') lt3 = Inr lt"
    "check_route_topics (lt_routes lt) lt = Inr ()"
    using assms by (auto simp: build_from_def res_simps split: option.splits if_splits)
  have r: "listens_ok lt1" "same_tables lt1 ?new"
    using load_router_step [OF b(1)] by (simp_all add: LoadedTopology_new_def)
  have n1: "lt_peers lt1 = []" "lt_sidebands lt1 = []" "lt_ranges lt1 = []" "lt_routes lt1 = []" "lt_topics lt1 = []"
    using r(2) by (simp_all add: same_tables_def LoadedTopology_new_def)
  obtain es gs where p: "length gs = length es" "\<forall>e\<in>set es. peer_ok e" "\<forall>r\<in>set (concat gs). sideband_ok r"
    "distinct (map peer_id es)"
    "lt2 = lt1\<lparr>lt_strings := lt_strings lt2, lt_peers := es, lt_sidebands := concat gs, lt_ranges := ranges_of 0 gs\<rparr>"
    using peer_loop.loop_R [OF b(3)] by (auto simp: peers_added_def n1)
  have f2: "lt_peers lt2 = es" "lt_sidebands lt2 = concat gs" "lt_ranges lt2 = ranges_of 0 gs" "lt_routes lt2 = []"
    "lt_topics lt2 = []" "lt_listen lt2 = lt_listen lt1" "lt_listen_uds lt2 = lt_listen_uds lt1"
    "lt_listen_udp lt2 = lt_listen_udp lt1"
    by (subst p(5), simp add: n1)+
  have "routes_added lt2 lt3" by (rule route_loop.section_R [OF b(5)])
  then obtain rs where q: "\<forall>r\<in>set rs. rule_ok (peer_id ` set es) r" "lt3 = lt2\<lparr>lt_routes := rs\<rparr>"
    by (auto simp: routes_added_def f2)
  have "topics_added lt3 lt" by (rule topic_loop.section_R [OF b(6)])
  then obtain ts where t: "topics_ok lt3 \<longrightarrow> topics_ok lt"
    "lt = lt3\<lparr>lt_strings := lt_strings lt, lt_topics := ts\<rparr>"
    by (auto simp: topics_added_def q(2) f2)
  have f: "lt_peers lt = es" "lt_sidebands lt = concat gs" "lt_ranges lt = ranges_of 0 gs" "lt_routes lt = rs"
    "lt_listen lt = lt_listen lt1" "lt_listen_uds lt = lt_listen_uds lt1" "lt_listen_udp lt = lt_listen_udp lt1"
    by (subst t(2), simp add: q(2) f2)+
  have "es \<noteq> []" using load_peers_nonempty [OF b(3,2)] by (simp add: f2)
  moreover have "topics_ok lt" using t(1) by (simp add: q(2) topics_ok_def f2)
  ultimately show ?thesis
    using p(1-4) q(1) r(1) b(4,7)
    by (auto simp: loaded_ok_def peers_ok_def sidebands_ok_def listens_ok_def served_ok_def routes_ok_def
        route_topics_ok_def check_listens_ok check_route_topics_ok f f2)
qed

section \<open>What the document was\<close>

lemma load_address_spec:
  assumes "load_address s lt = Inr (a, lt')"
  shows "spec_of_kind P s = P (kind a)"
proof -
  obtain b where "parse_address s = Inr b" using assms by (auto simp only: load_address_def rbind_eq_Inr)
  then show ?thesis using assms by (cases b) (auto simp: load_address_def spec_of_kind_def intern_def)
qed

lemma memory_class_spelling:
  "parse_sideband_memory_class (Some s) out = (True, mc) \<Longrightarrow>
   c_str s \<in> {''shm'', ''cuda_managed'', ''cuda_host'', ''nvbufsurface''} \<and> (mc = Shm \<longleftrightarrow> c_str s = ''shm'')"
  by (auto simp: parse_sideband_memory_class_def strcmp_eq_def c_str_def split: if_splits)

lemma load_sideband_document:
  assumes "load_sideband nm j node lt = Inr lt'"
  shows "case as_table (Some node) of None \<Rightarrow> False | Some t \<Rightarrow> sideband_table_ok t"
proof -
  obtain tbl sb b r1 r2 r3 where s: "as_table (Some node) = Some tbl"
    "value_string (toml_at tbl ''name'') = Some sb" "length sb \<le> kSidebandNameMaxLen"
    "value_int (toml_at tbl ''max_payload_bytes'') = Some b" "0 < b"
    "load_version sb (value_int (toml_at tbl ''version'')) \<lparr>region_name = c_str sb, max_payload_bytes = word_of_int b,
       version = kSidebandVersion, memory_class = Shm, cuda_device = kSidebandCudaDeviceUnset\<rparr> = Inr r1"
    "load_memory_class sb (value_string (toml_at tbl ''memory_class'')) r1 = Inr r2"
    "load_cuda_device sb (value_int (toml_at tbl ''cuda_device'')) r2 = Inr r3"
    using assms by (auto simp: load_sideband_def intern_def res_simps Let_def not_less split: option.splits)
  have v: "opt_int tbl ''version'' (\<lambda>v. 0 \<le> v \<and> v < 2 ^ 32)" "memory_class r1 = Shm"
    using s(6) by (auto simp: opt_int_def load_version_def res_simps split: option.splits)
  have m: "opt_string tbl ''memory_class'' (\<lambda>s. c_str s \<in> {''shm'', ''cuda_managed'', ''cuda_host'', ''nvbufsurface''})"
    "memory_class r2 \<noteq> Shm \<Longrightarrow> key_string tbl ''memory_class'' (\<lambda>s. c_str s \<noteq> ''shm'')"
    using s(7) v(2) memory_class_spelling
    by (fastforce simp: key_defs load_memory_class_def res_simps split: option.splits prod.splits)+
  have "opt_int tbl ''cuda_device'' (\<lambda>v. 0 \<le> v \<and> v \<le> 255 \<and> key_string tbl ''memory_class'' (\<lambda>s. c_str s \<noteq> ''shm''))"
    using s(8) m(2)
    by (auto simp: opt_int_def load_cuda_device_def res_simps sideband_memory_class_is_gpu_def split: option.splits)
  then show ?thesis using s(1-5) v(1) m(1) by (simp add: sideband_table_ok_def key_string_def key_int_def)
qed

lemma load_sidebands_document:
  "load_sidebands nm j ns lt = Inr lt' \<Longrightarrow>
   \<forall>n\<in>set ns. case as_table (Some n) of None \<Rightarrow> False | Some t \<Rightarrow> sideband_table_ok t"
  by (induction ns arbitrary: j lt) (auto simp: res_simps dest: load_sideband_document)

lemma load_peer_document:
  assumes "load_peer i node lt = Inr lt'"
  shows "case as_table (Some node) of None \<Rightarrow> False | Some t \<Rightarrow> peer_table_ok t"
proof -
  obtain tbl nm e lt1 lt3 where p: "as_table (Some node) = Some tbl" "load_peer_entry i tbl lt = Inr (nm, e, lt1)"
    "load_section (load_sidebands nm) (toml_at tbl ''sideband'') (lt1\<lparr>lt_peers := lt_peers lt1 @ [e]\<rparr>) = Inr lt3"
    using assms by (auto simp: load_peer_def res_simps Let_def)
  have sb: "opt_tables tbl ''sideband'' sideband_table_ok"
    using p(3) by (auto simp: opt_tables_def load_section_def split: option.splits dest!: load_sidebands_document)
  let ?sc = "value_int (toml_at tbl ''shm_slot_count'')" and ?mp = "value_int (toml_at tbl ''shm_max_payload'')"
  obtain idv loc addr lt2 lt3 e0 e1 where e: "value_int (toml_at tbl ''id'') = Some idv" "1 \<le> idv" "idv \<le> 254"
    "value_string (toml_at tbl ''name'') = Some nm" "nm \<noteq> []" "length nm \<le> kPeerNameMaxLen"
    "value_string (toml_at tbl ''local'') = Some loc" "load_address loc lt2 = Inr (addr, lt3)"
    "(?sc = None \<and> ?mp = None) \<or> kind addr = ShmRing"
    "load_slot_count nm ?sc e0 = Inr e1" "load_max_payload nm ?mp e1 = Inr e"
    using p(2) by (auto simp: load_peer_entry_def intern_def res_simps Let_def not_less)
  have "opt_int tbl ''shm_slot_count'' (\<lambda>v. 0 \<le> v \<and> v \<le> 2 ^ 20)"
    using e(10) by (auto simp: opt_int_def load_slot_count_def res_simps kShmSlotCountMin_def kShmSlotCountMax_def
        split: option.splits)
  moreover have "opt_int tbl ''shm_max_payload'' (\<lambda>v. v = 0 \<or> int kRouterFrameSize \<le> v \<and> v \<le> 256 * 1024 * 1024)"
    using e(11) by (auto simp: opt_int_def load_max_payload_def res_simps kShmMaxPayloadMax_def split: option.splits)
  moreover have "spec_of_kind (\<lambda>k. k = ShmRing \<or> ?sc = None \<and> ?mp = None) loc"
    unfolding load_address_spec [OF e(8)] using e(9) by blast
  ultimately show ?thesis using p(1) e(1-7) sb by (simp add: peer_table_ok_def key_string_def key_int_def)
qed

lemma load_peers_document:
  "load_peers i ns lt = Inr lt' \<Longrightarrow> \<forall>n\<in>set ns. case as_table (Some n) of None \<Rightarrow> False | Some t \<Rightarrow> peer_table_ok t"
  by (induction ns arbitrary: i lt) (auto simp: res_simps dest: load_peer_document)

lemma extract_ids_document:
  "extract_ids i ns = Inr ds \<Longrightarrow> \<forall>n\<in>set ns. case value_int (Some n) of None \<Rightarrow> False | Some v \<Rightarrow> 1 \<le> v \<and> v \<le> 254"
  by (induction ns arbitrary: ds) (auto simp: res_simps extract_id_def)

lemma load_route_document:
  assumes "load_route i node lt = Inr lt'"
  shows "case as_table (Some node) of None \<Rightarrow> False | Some t \<Rightarrow> route_table_ok t"
proof -
  obtain tbl sv ns ds topic where r: "as_table (Some node) = Some tbl" "value_int (toml_at tbl ''source'') = Some sv"
    "as_array (toml_at tbl ''dest'') = Some ns" "ns \<noteq> []" "length ns \<le> kMaxRouteDests"
    "extract_ids i ns = Inr ds" "load_route_topic i (value_int (toml_at tbl ''topic'')) = Inr topic"
    using assms by (auto simp: load_route_def res_simps Let_def not_less split: option.splits if_splits)
  have "opt_int tbl ''topic'' (\<lambda>v. 0 \<le> v \<and> v \<le> 65534)"
    using r(7) by (auto simp: opt_int_def load_route_topic_def res_simps split: option.splits)
  then show ?thesis
    using r(1-5) extract_ids_document [OF r(6)]
    by (cases ns) (simp_all add: route_table_ok_def key_int_def kMaxRouteDests_def)
qed

lemma load_routes_document:
  "load_routes i ns lt = Inr lt' \<Longrightarrow> \<forall>n\<in>set ns. case as_table (Some n) of None \<Rightarrow> False | Some t \<Rightarrow> route_table_ok t"
  by (induction ns arbitrary: i lt) (auto simp: res_simps dest: load_route_document)

lemma load_topic_document:
  assumes "load_topic i node lt = Inr lt'"
  shows "case as_table (Some node) of None \<Rightarrow> False | Some t \<Rightarrow> topic_table_ok t"
proof -
  obtain tbl idv nm tp lt1 tp1 lt2 tp2 where p: "as_table (Some node) = Some tbl"
    "value_int (toml_at tbl ''id'') = Some idv" "0 \<le> idv" "idv \<le> 65535"
    "value_string (toml_at tbl ''name'') = Some nm" "nm \<noteq> []" "length nm \<le> kTopicNameMaxLen"
    "load_payload_class nm (value_string (toml_at tbl ''payload_class'')) tp lt1 = Inr (tp1, lt2)"
    "load_sideband_idx nm (value_int (toml_at tbl ''sideband_idx'')) tp1 = Inr tp2"
    using assms by (auto simp: load_topic_def intern_def res_simps Let_def not_less)
  have "opt_string tbl ''payload_class'' (\<lambda>s. s \<noteq> [] \<and> length s \<le> kTopicPayloadClassMaxLen)"
    using p(8) by (auto simp: opt_string_def load_payload_class_def res_simps split: option.splits)
  moreover have "opt_int tbl ''sideband_idx'' (\<lambda>v. 0 \<le> v \<and> v \<le> 65535)"
    using p(9) by (auto simp: opt_int_def load_sideband_idx_def res_simps split: option.splits)
  ultimately show ?thesis using p(1-7) by (simp add: topic_table_ok_def key_string_def key_int_def)
qed

lemma load_topics_document:
  "load_topics i ns lt = Inr lt' \<Longrightarrow> \<forall>n\<in>set ns. case as_table (Some n) of None \<Rightarrow> False | Some t \<Rightarrow> topic_table_ok t"
  by (induction ns arbitrary: i lt) (auto simp: res_simps dest: load_topic_document)

lemma load_router_document:
  assumes "load_router root lt = Inr lt'"
  shows "case as_table (toml_at root ''router'') of None \<Rightarrow> False | Some t \<Rightarrow> router_table_ok t"
proof -
  obtain sec spec addr lt0 lt1 lt3 lt4 where r: "as_table (toml_at root ''router'') = Some sec"
    "value_string (toml_at sec ''listen'') = Some spec" "load_address spec lt0 = Inr (addr, lt1)"
    "load_listen_uds sec lt3 = Inr lt4" "load_listen_udp sec lt4 = Inr lt'"
    using assms by (auto simp: load_router_def res_simps Let_def)
  have "opt_string sec ''listen_uds'' (spec_of_kind (\<lambda>k. k = UdsPath))"
    using r(4) by (auto simp: opt_string_def load_listen_uds_def res_simps load_address_spec split: option.splits)
  moreover have "opt_string sec ''listen_udp'' (spec_of_kind (\<lambda>k. k = UdpEndpoint))"
    using r(5) by (auto simp: opt_string_def load_listen_udp_def res_simps load_address_spec split: option.splits)
  ultimately show ?thesis
    using r(1,2) load_address_spec [OF r(3)] by (simp add: router_table_ok_def key_string_def)
qed

lemma build_from_document:
  assumes "build_from root LoadedTopology_new = Inr lt"
  shows "document_ok root"
proof -
  obtain ns lt1 lt2 lt3 where b: "load_router root LoadedTopology_new = Inr lt1"
    "as_array (toml_at root ''peers'') = Some ns" "ns \<noteq> []" "load_peers 0 ns lt1 = Inr lt2"
    "load_section load_routes (toml_at root ''routes'') lt2 = Inr lt3"
    "load_section load_topics (toml_at root ''topics'') lt3 = Inr lt"
    using assms by (auto simp: build_from_def res_simps split: option.splits if_splits)
  have "opt_tables root ''peers'' peer_table_ok"
    using b(2) load_peers_document [OF b(4)] by (simp add: opt_tables_def)
  moreover have "opt_tables root ''routes'' route_table_ok"
    using b(5) by (auto simp: opt_tables_def load_section_def split: option.splits dest!: load_routes_document)
  moreover have "opt_tables root ''topics'' topic_table_ok"
    using b(6) by (auto simp: opt_tables_def load_section_def split: option.splits dest!: load_topics_document)
  ultimately show ?thesis using b(2,3) load_router_document [OF b(1)] by (simp add: document_ok_def)
qed

lemma takeWhile_index:
  assumes "distinct (map f xs)" "k < length xs"
  shows "length (takeWhile (\<lambda>x. f x \<noteq> f (xs ! k)) xs) = k"
  using assms
proof (induction xs arbitrary: k)
  case (Cons x xs)
  then show ?case by (cases k) (auto dest: nth_mem)
qed simp

text \<open>What a client of the loader relies on, whichever way the profile is read.\<close>

locale topology_source =
  fixes load :: "string \<Rightarrow> LoadedTopology load"
  assumes load_ok: "load c = Inr lt \<Longrightarrow> loaded_ok lt"
begin

lemma routes_wf: "load c = Inr lt \<Longrightarrow> \<forall>r\<in>set (lt_routes lt). wf_rule r"
  using load_ok by (auto simp: loaded_ok_def routes_ok_def rule_ok_def)

text \<open>Whatever the rules route a frame to is a declared peer other than its source.\<close>

lemma routes_closed:
  assumes "load c = Inr lt" "d \<in> set (route_spec (lt_routes lt) src topic)"
  shows "d \<in> peer_id ` set (lt_peers lt) \<and> d \<noteq> src \<and> src \<in> peer_id ` set (lt_peers lt)"
proof -
  obtain r where "find (rule_matches src topic) (lt_routes lt) = Some r" and d: "d \<in> set (rule_dests r)"
    using assms(2) by (cases "find (rule_matches src topic) (lt_routes lt)") (auto simp: route_spec_def)
  then have "r \<in> set (lt_routes lt)" "rule_source r = src"
    using find_Some_in by (fastforce simp: rule_matches_def)+
  then show ?thesis using load_ok [OF assms(1)] d by (auto simp: loaded_ok_def routes_ok_def rule_ok_def)
qed

lemma routes_distinct: "load c = Inr lt \<Longrightarrow> distinct (route_spec (lt_routes lt) src topic)"
  using load_ok by (fastforce simp: route_spec_def loaded_ok_def routes_ok_def rule_ok_def
      split: option.splits dest: find_Some_in)

text \<open>Peers are found by their id, and each has its own group of sidebands.\<close>

lemma peer_found: "load c = Inr lt \<Longrightarrow> e \<in> set (lt_peers lt) \<Longrightarrow> peer_by_id (view lt) (peer_id e) = Some e"
  using load_ok by (simp add: lookup_defs view_def find_unique loaded_ok_def peers_ok_def)

lemma sidebands_nth:
  assumes "load c = Inr lt"
  obtains gs where "length gs = length (lt_peers lt)" "lt_sidebands lt = concat gs"
    "\<And>k. k < length gs \<Longrightarrow> sidebands_for lt (peer_id (lt_peers lt ! k))
       = (if gs ! k = [] then None else Some (gs ! k), length (gs ! k))"
proof -
  have ok: "distinct (map peer_id (lt_peers lt))" "sidebands_ok lt"
    using load_ok [OF assms] by (simp_all add: loaded_ok_def peers_ok_def)
  then obtain gs where gs: "length gs = length (lt_peers lt)" "lt_sidebands lt = concat gs" "lt_ranges lt = ranges_of 0 gs"
    by (auto simp: sidebands_ok_def)
  have "sidebands_for lt (peer_id (lt_peers lt ! k)) = (if gs ! k = [] then None else Some (gs ! k), length (gs ! k))"
    if k: "k < length gs" for k
  proof -
    have kp: "k < length (lt_peers lt)" using k gs(1) by simp
    have "length (takeWhile (\<lambda>e. peer_id e \<noteq> peer_id (lt_peers lt ! k)) (lt_peers lt)) = k"
      using ok(1) kp by (simp add: takeWhile_index)
    then show ?thesis
      using peer_found [OF assms nth_mem [OF kp]] k slice_group [OF k] ranges_of_nth [OF k, of 0]
      by (simp add: sidebands_for_def gs(2,3) Let_def)
  qed
  then show thesis using that gs by blast
qed

end

interpretation from_string: topology_source "load_topology_from_toml_string parse" for parse
  by unfold_locales
    (auto simp: load_topology_from_toml_string_def throw_load_def split: sum.splits dest: build_from_ok)

interpretation from_file: topology_source "load_topology_from_toml_file parse_file" for parse_file
  by unfold_locales
    (auto simp: load_topology_from_toml_file_def throw_load_def split: sum.splits dest: build_from_ok)

text \<open>
  C19: a profile that loads is a well-formed deployment. Whatever the document was, and whichever
  of the two entry points read it, a topology that the loader returns has at least one peer, peers
  with distinct ids in 1..254, legal addresses and ring sizes within their limits, sidebands with a
  positive payload size and a device only on a GPU class, one group of sidebands per peer, a listen
  address for every datagram transport a peer uses, rules whose source and destinations are
  declared peers without repetition or self-routing, topics with distinct ids and names, and only
  declared topics in the rules. And every value of the document was within its limits before it was
  narrowed to its field or cut to a C string (\<open>document_ok\<close>, one clause per check of the loader):
  peer and topic names and payload classes non-empty and not too long, ids, ring sizes, versions,
  devices, topics and indices in range, positive sideband sizes, known memory classes, parsable
  addresses of the right kind.
\<close>

theorem loader_sound:
  "(load_topology_from_toml_string parse text = Inr lt \<longrightarrow>
      loaded_ok lt \<and> (\<exists>root. parse text = Inr root \<and> document_ok root))
   \<and> (load_topology_from_toml_file parse_file path = Inr lt' \<longrightarrow>
      loaded_ok lt' \<and> (\<exists>root. parse_file path = Inr root \<and> document_ok root))"
  using from_string.load_ok from_file.load_ok build_from_document
  by (auto simp: load_topology_from_toml_string_def load_topology_from_toml_file_def throw_load_def split: sum.splits)

text \<open>
  Sideband descriptors stay with their peer. In a loaded topology the arrays that
  \<open>sidebands_for\<close> returns for the peers, in table order, are together exactly the descriptors
  loaded, none shared and none lost; the count is the length of the array; an id that no peer has
  gives a null pointer and count 0.
\<close>

lemma sidebands_partition:
  assumes "load_topology_from_toml_string parse text = Inr lt"
  shows "concat (map (\<lambda>e. case fst (sidebands_for lt (peer_id e)) of None \<Rightarrow> [] | Some g \<Rightarrow> g) (lt_peers lt)) = lt_sidebands lt
    \<and> (\<forall>e\<in>set (lt_peers lt). snd (sidebands_for lt (peer_id e))
         = length (case fst (sidebands_for lt (peer_id e)) of None \<Rightarrow> [] | Some g \<Rightarrow> g))
    \<and> (\<forall>i. i \<notin> peer_id ` set (lt_peers lt) \<longrightarrow> sidebands_for lt i = (None, 0))"
proof -
  let ?group = "\<lambda>e. case fst (sidebands_for lt (peer_id e)) of None \<Rightarrow> [] | Some g \<Rightarrow> g"
  obtain gs where gs: "length gs = length (lt_peers lt)" "lt_sidebands lt = concat gs"
    "\<And>k. k < length gs \<Longrightarrow> sidebands_for lt (peer_id (lt_peers lt ! k))
       = (if gs ! k = [] then None else Some (gs ! k), length (gs ! k))"
    by (rule from_string.sidebands_nth [OF assms]) (rule that)
  have nth: "?group (lt_peers lt ! k) = gs ! k" "snd (sidebands_for lt (peer_id (lt_peers lt ! k))) = length (gs ! k)"
    if "k < length gs" for k using gs(3) [OF that] by auto
  have "map ?group (lt_peers lt) = gs" by (rule nth_equalityI) (simp_all add: gs(1) nth)
  moreover have "\<forall>e\<in>set (lt_peers lt). snd (sidebands_for lt (peer_id e)) = length (?group e)"
    by (metis nth gs(1) in_set_conv_nth)
  moreover have "sidebands_for lt i = (None, 0)" if "i \<notin> peer_id ` set (lt_peers lt)" for i
  proof -
    have "find (\<lambda>e. peer_id e = i) (lt_peers lt) = None" using that by (auto simp: find_None_iff)
    then show ?thesis by (simp add: sidebands_for_def lookup_defs view_def)
  qed
  ultimately show ?thesis using gs(2) by metis
qed

text \<open>A profile with two shared-memory peers, one of them with a sideband, and a topic route.\<close>

definition demo_profile :: toml_table where
  "demo_profile =
     [(''router'', TTable [(''listen'', TString ''shm:/rt'')]),
      (''peers'', TArray [
         TTable [(''id'', TInteger 1), (''name'', TString ''cam''), (''local'', TString ''shm:/cam''),
                 (''shm_slot_count'', TInteger 8),
                 (''sideband'', TArray [TTable [(''name'', TString ''/nv''), (''max_payload_bytes'', TInteger 4096)]])],
         TTable [(''id'', TInteger 2), (''name'', TString ''nav''), (''local'', TString ''shm:/nav'')]]),
      (''routes'', TArray [TTable [(''source'', TInteger 1), (''dest'', TArray [TInteger 2]), (''topic'', TInteger 7)]]),
      (''topics'', TArray [TTable [(''id'', TInteger 7), (''name'', TString ''img'')]])]"

definition demo_loaded :: LoadedTopology where
  "demo_loaded =
     \<lparr>lt_strings = [''/rt'', ''cam'', ''/cam'', ''/nv'', ''nav'', ''/nav'', ''img''],
      lt_peers = [\<lparr>peer_id = 1, peer_name = ''cam'', local_addr = peer_shm ''/cam'', shm_slot_count = 8, shm_max_payload = 0\<rparr>,
                  \<lparr>peer_id = 2, peer_name = ''nav'', local_addr = peer_shm ''/nav'', shm_slot_count = 0, shm_max_payload = 0\<rparr>],
      lt_routes = [\<lparr>rule_source = 1, dest_count = 1, rule_topic = 7, dest = [2, 0, 0, 0, 0, 0, 0, 0]\<rparr>],
      lt_topics = [\<lparr>tid = 7, topic_sideband_idx = kSidebandIdxNone, topic_name = Some ''img'', payload_class = None\<rparr>],
      lt_sidebands = [\<lparr>region_name = ''/nv'', max_payload_bytes = 4096, version = 1, memory_class = Shm, cuda_device = -1\<rparr>],
      lt_ranges = [(0, 1), (1, 1)], lt_listen = peer_shm ''/rt'', lt_listen_uds = None, lt_listen_udp = None\<rparr>"

lemmas loader_defs = load_topology_from_toml_string_def build_from_def load_router_def load_listen_uds_def
  load_listen_udp_def load_peer_def load_peer_entry_def load_slot_count_def load_max_payload_def load_section_def
  load_sideband_def load_version_def load_memory_class_def load_cuda_device_def load_route_def extract_id_def
  load_route_topic_def load_topic_def load_payload_class_def load_sideband_idx_def load_address_def
  parse_address_def split_scheme_def intern_def

lemma demo_loads: "load_topology_from_toml_string (\<lambda>_. Inr demo_profile) text = Inr demo_loaded"
  by (simp add: loader_defs demo_profile_def demo_loaded_def LoadedTopology_new_def c_str_def kShmNameMaxLen_def
      kPeerNameMaxLen_def kShmSlotCountMin_def kShmSlotCountMax_def kSidebandNameMaxLen_def kSidebandVersion_def
      kSidebandCudaDeviceUnset_def kMaxRouteDests_def kTopicNameMaxLen_def peer_exists_def kRouteTopicAny_def
      numeral_eq_Suc)

theorem loader_sound_witness: "loaded_ok demo_loaded \<and> document_ok demo_profile"
  using loader_sound [of "\<lambda>_. Inr demo_profile"] demo_loads by blast

lemma sidebands_partition_witness:
  "concat (map (\<lambda>e. case fst (sidebands_for demo_loaded (peer_id e)) of None \<Rightarrow> [] | Some g \<Rightarrow> g) (lt_peers demo_loaded))
     = lt_sidebands demo_loaded"
  using sidebands_partition [OF demo_loads] by blast

text \<open>
  Two values that the checks let through: a rule's source is reduced modulo 256 before it is looked
  up, and a topic may have the id that rules reserve for ``any''.
\<close>

lemma route_source_reduced:
  assumes "1 \<in> peer_id ` set (lt_peers lt)" "2 \<in> peer_id ` set (lt_peers lt)"
  shows "\<exists>lt' r. load_route i (TTable [(''source'', TInteger 257), (''dest'', TArray [TInteger 2])]) lt = Inr lt'
    \<and> lt_routes lt' = lt_routes lt @ [r] \<and> rule_source r = 1"
proof -
  have small: "(257 :: u8) = 1" by simp
  show ?thesis
    using assms by (simp add: small load_route_def extract_id_def load_route_topic_def peer_exists_iff kMaxRouteDests_def)
qed

lemma reserved_topic_accepted:
  assumes "lt_topics lt = []"
  shows "\<exists>lt' t. load_topic i (TTable [(''id'', TInteger 65535), (''name'', TString ''t'')]) lt = Inr lt'
    \<and> lt_topics lt' = [t] \<and> tid t = kRouteTopicAny"
  using assms
  by (simp add: load_topic_def load_payload_class_def load_sideband_idx_def kTopicNameMaxLen_def kRouteTopicAny_def
      intern_def)

end
