(* ===== verification/LinkBase.thy ===== *)
theory LinkBase
  imports Routing
begin

text \<open>
  What the links share: the counters of \<open>ipc/src/router/metrics.hpp\<close> (64-bit, wrapping
  \<open>fetch_add\<close>), the clock helpers of \<open>timestamp.hpp\<close> and \<open>lifecycle.hpp\<close>, and the egress loop
  over the targets of a route, which stops at the first destination that raises.
\<close>

section \<open>Counters\<close>

definition kPerPeerMetricsSlots :: nat where "kPerPeerMetricsSlots = 256"
definition kPriorityLevels :: nat where "kPriorityLevels = 8"

record ShmRouterMetrics =
  forwarded :: u64
  dropped_full :: u64
  recv_empty :: u64
  recv_truncated :: u64
  dropped_full_per_peer :: "u64 list"
  dropped_by_priority :: "u64 list"

definition ShmRouterMetrics_zero :: ShmRouterMetrics where
  "ShmRouterMetrics_zero = \<lparr>forwarded = 0, dropped_full = 0, recv_empty = 0, recv_truncated = 0,
     dropped_full_per_peer = replicate kPerPeerMetricsSlots 0,
     dropped_by_priority = replicate kPriorityLevels 0\<rparr>"

record DatagramRouterMetrics =
  dg_forwarded :: u64
  dg_recv_truncated :: u64
  dg_recv_unknown_source :: u64
  dg_recv_empty :: u64

definition DatagramRouterMetrics_zero :: DatagramRouterMetrics where
  "DatagramRouterMetrics_zero = \<lparr>dg_forwarded = 0, dg_recv_truncated = 0,
     dg_recv_unknown_source = 0, dg_recv_empty = 0\<rparr>"

text \<open>\<open>array[i].fetch_add(1)\<close>.\<close>

definition bump_at :: "nat \<Rightarrow> u64 list \<Rightarrow> u64 list" where
  "bump_at i xs = xs[i := xs ! i + 1]"

lemma length_bump_at [simp]: "length (bump_at i xs) = length xs"
  by (simp add: bump_at_def)

lemma nth_bump_at: "j < length xs \<Longrightarrow> bump_at i xs ! j = (if j = i then xs ! j + 1 else xs ! j)"
  by (simp add: bump_at_def)

lemma sum_list_bump_at: "i < length xs \<Longrightarrow> sum_list (bump_at i xs) = sum_list xs + 1"
proof (induction xs arbitrary: i)
  case (Cons x xs)
  then show ?case by (cases i) (auto simp: bump_at_def algebra_simps)
qed simp

section \<open>Clocks\<close>

text \<open>\<open>router_now_ns\<close>, given what \<open>clock_gettime\<close> stored into the two fields of the timespec.\<close>

definition router_now_ns :: "u64 \<Rightarrow> u64 \<Rightarrow> u64" where
  "router_now_ns tv_sec tv_nsec = tv_sec * 1000000000 + tv_nsec"

text \<open>\<open>router_idle_expired\<close>; the reading of the steady clock is \<open>now\<close>, times in milliseconds.\<close>

definition router_idle_expired :: "int \<Rightarrow> int \<Rightarrow> int \<Rightarrow> bool" where
  "router_idle_expired now prev limit \<longleftrightarrow> now - prev > limit"

section \<open>Fan-out\<close>

text \<open>A call that may raise and leaves a state behind in either case.\<close>

type_synonym ('s, 'a) call = "'s \<Rightarrow> 'a res \<times> 's"

fun fan_out :: "('d \<Rightarrow> ('s, unit) call) \<Rightarrow> 'd list \<Rightarrow> ('s, unit) call" where
  "fan_out send [] s = (Inr (), s)"
| "fan_out send (d # ds) s =
     (case send d s of (Inl e, s1) \<Rightarrow> (Inl e, s1) | (Inr _, s1) \<Rightarrow> fan_out send ds s1)"

lemma fan_out_append:
  "fan_out send (xs @ ys) s =
     (case fan_out send xs s of (Inl e, s1) \<Rightarrow> (Inl e, s1) | (Inr _, s1) \<Rightarrow> fan_out send ys s1)"
  by (induction xs arbitrary: s) (auto split: prod.splits sum.splits)

text \<open>An invariant that every send keeps survives the loop, also when it stops early.\<close>

lemma fan_out_invariant:
  assumes "\<And>d s. d \<in> set ds \<Longrightarrow> I s \<Longrightarrow> I (snd (send d s))" "I s"
  shows "I (snd (fan_out send ds s))"
  using assms
proof (induction ds arbitrary: s)
  case (Cons d ds)
  obtain r s1 where 1: "send d s = (r, s1)" by fastforce
  then have "I s1" using Cons.prems(1) [of d s] Cons.prems(2) by simp
  then show ?case using 1 Cons.IH [of s1] Cons.prems(1) by (auto split: sum.splits)
qed simp

text \<open>The loop raises exactly at the first destination whose send raises.\<close>

lemma fan_out_error:
  "fan_out send ds s = (Inl e, s') \<longleftrightarrow>
     (\<exists>pre d post s1. ds = pre @ d # post \<and> fan_out send pre s = (Inr (), s1) \<and> send d s1 = (Inl e, s'))"
proof (induction ds arbitrary: s)
  case (Cons d ds)
  obtain r s1 where 1: "send d s = (r, s1)" by fastforce
  show ?case
  proof (cases r)
    case (Inl e')
    have "pre = []" if "d # ds = pre @ x # post" "fan_out send pre s = (Inr (), s2)" for pre x post s2
      using that 1 Inl by (cases pre) auto
    then show ?thesis using 1 Inl by fastforce
  next
    case (Inr u)
    have "(\<exists>pre x post s2. d # ds = pre @ x # post \<and> fan_out send pre s = (Inr (), s2) \<and> send x s2 = (Inl e, s'))
      \<longleftrightarrow> (\<exists>pre x post s2. ds = pre @ x # post \<and> fan_out send pre s1 = (Inr (), s2) \<and> send x s2 = (Inl e, s'))"
      (is "?L = ?R")
    proof
      assume ?L
      then obtain pre x post s2 where p: "d # ds = pre @ x # post" "fan_out send pre s = (Inr (), s2)"
        "send x s2 = (Inl e, s')" by blast
      then obtain pre' where "pre = d # pre'" using 1 Inr by (cases pre) auto
      then show ?R using p 1 Inr by auto
    next
      assume ?R
      then obtain pre x post s2 where "ds = pre @ x # post" "fan_out send pre s1 = (Inr (), s2)"
        "send x s2 = (Inl e, s')" by blast
      then show ?L using 1 Inr by (intro exI [of _ "d # pre"]) auto
    qed
    then show ?thesis using Cons.IH [of s1] 1 Inr by simp
  qed
qed simp

text \<open>
  A send that implements an abstract send, under an invariant with a budget of further sends.
\<close>

locale send_refinement =
  fixes I :: "nat \<Rightarrow> 's \<Rightarrow> bool"
    and abs :: "'s \<Rightarrow> 't"
    and send :: "'d \<Rightarrow> ('s, unit) call"
    and spec :: "'d \<Rightarrow> ('t, unit) call"
  assumes send_step: "I (Suc n) s \<Longrightarrow> send d s = (r, s') \<Longrightarrow> spec d (abs s) = (r, abs s') \<and> I n s'"
    and weaken: "I (Suc n) s \<Longrightarrow> I n s"
begin

lemma weaken_add: "I (k + n) s \<Longrightarrow> I n s"
  by (induction k) (auto dest: weaken)

lemma fan_out_refines:
  "I (length ds + n) s \<Longrightarrow> fan_out send ds s = (r, s') \<Longrightarrow>
   fan_out spec ds (abs s) = (r, abs s') \<and> I n s'"
proof (induction ds arbitrary: s)
  case (Cons d ds)
  obtain r1 s1 where 1: "send d s = (r1, s1)" by fastforce
  have "spec d (abs s) = (r1, abs s1)" "I (length ds + n) s1"
    using send_step [OF _ 1, of "length ds + n"] Cons.prems(1) by simp_all
  then show ?case
    using Cons.IH [of s1] Cons.prems(2) 1 weaken_add [of "length ds" n s1] by (auto split: sum.splits)
qed simp

end

end
