(* ===== verification/ShmLink.thy ===== *)
theory ShmLink
  imports ShmSpsc LinkBase
begin

text \<open>
  \<open>ipc/src/router/shm_router_link.hpp\<close> with \<open>shm_peer_address_io.hpp\<close> and the SHM instance of
  \<open>ipc/src/ipc/endpoint.hpp\<close>: the router's link over shared memory, one region per peer. A call
  runs on a link and the world of shared-memory objects and leaves both behind also when it
  raises. Other processes change the world between calls.
  The abstract view of a link is a pair of message queues per peer; \<open>link_inv\<close> is the invariant
  under which the byte-level operations implement it.
\<close>

section \<open>Endpoints\<close>

text \<open>\<open>IpcEndpoint<ShmSpsc>\<close> forwards to the transport on the memory of its region's object.\<close>

abbreviation mem_of :: "ShmWorld \<Rightarrow> ShmRegion \<Rightarrow> bytes" where
  "mem_of w r \<equiv> objs w (obj r)"

definition put_mem :: "ShmRegion \<Rightarrow> bytes \<Rightarrow> ShmWorld \<Rightarrow> ShmWorld" where
  "put_mem r m w = w\<lparr>objs := (objs w)(obj r := m)\<rparr>"

definition ep_try_recv :: "ShmRegion option \<Rightarrow> Buffer \<Rightarrow> ShmWorld \<Rightarrow> (bool \<times> Buffer \<times> ShmWorld) res" where
  "ep_try_recv h buf w =
     (case h of None \<Rightarrow> Inl (RuntimeError ''shm handle not bound'')
      | Some r \<Rightarrow> (case ShmSpsc_try_recv h buf (mem_of w r) of
          Inl e \<Rightarrow> Inl e | Inr (ok, buf', m) \<Rightarrow> Inr (ok, buf', put_mem r m w)))"

definition ep_try_send :: "ShmRegion option \<Rightarrow> Buffer \<Rightarrow> ShmWorld \<Rightarrow> (ShmSendResult \<times> ShmWorld) res" where
  "ep_try_send h pl w =
     (case h of None \<Rightarrow> Inl (RuntimeError ''shm handle not bound'')
      | Some r \<Rightarrow> (case ShmSpsc_try_send h pl (mem_of w r) of
          Inl e \<Rightarrow> Inl e | Inr (res, m) \<Rightarrow> Inr (res, put_mem r m w)))"

text \<open>The blocking send; \<open>env k\<close> is what the other side does to the region after a failed attempt.\<close>

definition ep_send ::
    "(nat \<Rightarrow> bytes \<Rightarrow> bytes) \<Rightarrow> ShmRegion option \<Rightarrow> Buffer \<Rightarrow> ShmWorld \<Rightarrow> ShmWorld res option" where
  "ep_send env h pl w =
     (case h of None \<Rightarrow> Some (Inl (RuntimeError ''shm handle not bound''))
      | Some r \<Rightarrow> map_option (map_sum id (\<lambda>m. put_mem r m w)) (ShmSpsc_send env h pl (mem_of w r)))"

section \<open>Addresses\<close>

fun shm_name :: "PeerAddress \<Rightarrow> string" where
  "shm_name (peer_shm n) = n"
| "shm_name _ = []"

text \<open>
  Binding an endpoint. When \<open>bind\<close> raises, the endpoint's half-built region is destroyed during
  unwinding, and a creating region unlinks its name.
\<close>

definition ep_bind :: "ShmOs \<Rightarrow> ShmBindParams \<Rightarrow> ShmWorld \<Rightarrow> ShmRegion res \<times> ShmWorld" where
  "ep_bind os p w =
     (case shm_bind os p w of
        (Inr r, w1) \<Rightarrow> (Inr r, w1)
      | (Inl e, w1) \<Rightarrow> (Inl e, if bp_create p then w1\<lparr>ns := (ns w1)(bp_name p := None)\<rparr> else w1))"

definition bind_shm_endpoint_addr :: "ShmOs \<Rightarrow> PeerAddress \<Rightarrow> bool \<Rightarrow> ShmWorld \<Rightarrow> ShmRegion res \<times> ShmWorld" where
  "bind_shm_endpoint_addr os addr create w =
     (if kind addr \<noteq> ShmRing then (Inl (RuntimeError ''shm endpoint expected shm peer address''), w)
      else ep_bind os (ShmBindParams_default\<lparr>bp_name := shm_name addr, bp_create := create\<rparr>) w)"

definition peer_bind_params :: "PeerEntry \<Rightarrow> bool \<Rightarrow> ShmBindParams" where
  "peer_bind_params e create =
     (let p0 = ShmBindParams_default\<lparr>bp_name := shm_name (local_addr e), bp_create := create\<rparr>;
          p1 = (if shm_slot_count e \<noteq> 0 then p0\<lparr>bp_slot_count := unat (shm_slot_count e)\<rparr> else p0)
      in if shm_max_payload e \<noteq> 0 then p1\<lparr>bp_max_payload := unat (shm_max_payload e)\<rparr> else p1)"

definition bind_shm_endpoint :: "ShmOs \<Rightarrow> PeerEntry \<Rightarrow> bool \<Rightarrow> ShmWorld \<Rightarrow> ShmRegion res \<times> ShmWorld" where
  "bind_shm_endpoint os e create w =
     (if kind (local_addr e) \<noteq> ShmRing
      then (Inl (RuntimeError ''shm endpoint expected shm peer address''), w)
      else ep_bind os (peer_bind_params e create) w)"

definition send_shm_buffer ::
    "(nat \<Rightarrow> bytes \<Rightarrow> bytes) \<Rightarrow> ShmRegion option \<Rightarrow> Buffer \<Rightarrow> ShmWorld \<Rightarrow> ShmWorld res option" where
  "send_shm_buffer env ep pl w = ep_send env ep pl w"

definition try_send_shm_buffer :: "ShmRegion option \<Rightarrow> Buffer \<Rightarrow> ShmWorld \<Rightarrow> (ShmSendResult \<times> ShmWorld) res" where
  "try_send_shm_buffer ep pl w = ep_try_send ep pl w"

definition router_listen_bind_params_shm :: "RouterTopology \<Rightarrow> ShmBindParams res" where
  "router_listen_bind_params_shm topo =
     (if kind (router_listen topo) \<noteq> ShmRing
      then Inl (RuntimeError ''shm topology expected shm router listen address'')
      else Inr (ShmBindParams_default\<lparr>bp_name := shm_name (router_listen topo), bp_create := False\<rparr>))"

section \<open>The link\<close>

record PeerChannel =
  chan_peer_id :: u8
  chan_endpoint :: "ShmRegion option"
  congested :: bool

record ShmRouterLink =
  topo :: RouterTopology
  is_server :: bool
  link_peer_id :: u8
  priority_drop_floor :: u8
  link_endpoint :: "ShmRegion option"
  peer_channels :: "PeerChannel list"
  metrics :: ShmRouterMetrics

type_synonym shm_link_state = "ShmRouterLink \<times> ShmWorld"

definition ShmRouterLink_new :: "RouterTopology \<Rightarrow> bool \<Rightarrow> u8 \<Rightarrow> ShmRouterLink" where
  "ShmRouterLink_new t srv pid = \<lparr>topo = t, is_server = srv, link_peer_id = pid,
     priority_drop_floor = 0, link_endpoint = None, peer_channels = [],
     metrics = ShmRouterMetrics_zero\<rparr>"

definition ShmRouterLink_server :: "RouterTopology \<Rightarrow> ShmRouterLink" where
  "ShmRouterLink_server t = ShmRouterLink_new t True kEndpointInvalid"

definition bind_peer :: "ShmOs \<Rightarrow> (shm_link_state, unit) call" where
  "bind_peer os = (\<lambda>(l, w).
     case peer_by_id (topo l) (link_peer_id l) of
       None \<Rightarrow> (Inl (RuntimeError ''unknown peer id''), (l, w))
     | Some e \<Rightarrow> (case bind_shm_endpoint os e False w of
         (Inl err, w') \<Rightarrow> (Inl err, (l, w'))
       | (Inr r, w') \<Rightarrow> (Inr (), (l\<lparr>link_endpoint := Some r\<rparr>, w'))))"

definition ShmRouterLink_client :: "ShmOs \<Rightarrow> RouterTopology \<Rightarrow> u8 \<Rightarrow> ShmWorld \<Rightarrow> ShmRouterLink res \<times> ShmWorld" where
  "ShmRouterLink_client os t pid w =
     (case bind_peer os (ShmRouterLink_new t False pid, w) of
        (Inl e, (_, w')) \<Rightarrow> (Inl e, w')
      | (Inr _, (l, w')) \<Rightarrow> (Inr l, w'))"

fun destroy_channels :: "PeerChannel list \<Rightarrow> ShmWorld \<Rightarrow> ShmWorld" where
  "destroy_channels [] w = w"
| "destroy_channels (c # cs) w =
     destroy_channels cs (case chan_endpoint c of None \<Rightarrow> w | Some r \<Rightarrow> shm_destroy r w)"

text \<open>The loop of \<open>bind_router\<close>; the channels made before an exception stay in the vector.\<close>

fun bind_channels :: "(string \<Rightarrow> ShmOs) \<Rightarrow> PeerEntry list \<Rightarrow> ShmWorld \<Rightarrow>
    unit res \<times> PeerChannel list \<times> ShmWorld" where
  "bind_channels os [] w = (Inr (), [], w)"
| "bind_channels os (e # es) w =
     (if kind (local_addr e) \<noteq> ShmRing then bind_channels os es w
      else case bind_shm_endpoint (os (shm_name (local_addr e))) e True w of
        (Inl err, w1) \<Rightarrow> (Inl err, [], w1)
      | (Inr r, w1) \<Rightarrow>
          let (res, cs, w2) = bind_channels os es w1
          in (res, \<lparr>chan_peer_id = peer_id e, chan_endpoint = Some r, congested = False\<rparr> # cs, w2))"

definition bind_router :: "(string \<Rightarrow> ShmOs) \<Rightarrow> ShmBindParams \<Rightarrow> (shm_link_state, unit) call" where
  "bind_router os params = (\<lambda>(l, w).
     if \<not> is_server l then (Inl (RuntimeError ''bind_router on client link''), (l, w))
     else let w0 = destroy_channels (peer_channels l) w;
              (res, cs, w1) = bind_channels os (peers (topo l)) w0;
              l1 = l\<lparr>peer_channels := cs\<rparr>
          in case res of
               Inl e \<Rightarrow> (Inl e, (l1, w1))
             | Inr _ \<Rightarrow> if cs = []
                 then (Inl (RuntimeError ''shm router: no shm peers in topology''), (l1, w1))
                 else (Inr (), (l1, w1)))"

definition set_recv_timeout_ms :: "int \<Rightarrow> ShmRouterLink \<Rightarrow> ShmRouterLink" where
  "set_recv_timeout_ms ms l = l"

definition set_priority_drop_floor :: "u8 \<Rightarrow> ShmRouterLink \<Rightarrow> ShmRouterLink" where
  "set_priority_drop_floor floor l = l\<lparr>priority_drop_floor := floor\<rparr>"

definition set_recv_blocking :: "ShmRouterLink \<Rightarrow> ShmRouterLink" where
  "set_recv_blocking l = l"

definition make_shm_router_link_server :: "RouterTopology \<Rightarrow> ShmRouterLink" where
  "make_shm_router_link_server t = ShmRouterLink_server t"

definition make_shm_router_link_client :: "ShmOs \<Rightarrow> RouterTopology \<Rightarrow> u8 \<Rightarrow> ShmWorld \<Rightarrow> ShmRouterLink res \<times> ShmWorld" where
  "make_shm_router_link_client os t pid w = ShmRouterLink_client os t pid w"

text \<open>\<open>try_receive\<close>: the scan over the channels, with the frame the buffer aliases.\<close>

fun receive_scan :: "PeerChannel list \<Rightarrow> RouterFrame \<Rightarrow> u64 \<Rightarrow> ShmRouterMetrics \<Rightarrow> ShmWorld \<Rightarrow>
    u8 res \<times> RouterFrame \<times> ShmRouterMetrics \<times> ShmWorld" where
  "receive_scan [] f ts mt w = (Inr kEndpointInvalid, f, mt, w)"
| "receive_scan (c # cs) f ts mt w =
     (case ep_try_recv (chan_endpoint c) (frame_writable f) w of
        Inl e \<Rightarrow> (Inl e, f, mt, w)
      | Inr (got, buf, w1) \<Rightarrow>
          let f1 = frame_of_buffer buf
          in if \<not> got then receive_scan cs f1 ts mt w1
             else if buf_size buf < kRouterFrameSize
             then receive_scan cs f1 ts (mt\<lparr>recv_truncated := recv_truncated mt + 1\<rparr>) w1
             else let src = chan_peer_id c
                  in (Inr src, set_timestamp_ns ts (set_source src f1), mt, w1))"

definition try_receive :: "RouterFrame \<Rightarrow> u64 \<Rightarrow> shm_link_state \<Rightarrow> u8 res \<times> RouterFrame \<times> shm_link_state" where
  "try_receive f ts = (\<lambda>(l, w).
     let (res, f', mt, w') = receive_scan (peer_channels l) f ts (metrics l) w
     in (res, f', (l\<lparr>metrics := mt\<rparr>, w')))"

definition priority_from_frame :: "Buffer \<Rightarrow> u8" where
  "priority_from_frame pl =
     (if buf_size pl < kRouterFrameSize then 0 else priority_of_flags (data pl ! kRouterFlagsOffset))"

definition record_drop :: "u8 \<Rightarrow> u8 \<Rightarrow> ShmRouterMetrics \<Rightarrow> ShmRouterMetrics" where
  "record_drop dst prio mt =
     mt\<lparr>dropped_full := dropped_full mt + 1,
        dropped_full_per_peer := bump_at (unat dst) (dropped_full_per_peer mt),
        dropped_by_priority := bump_at (unat prio) (dropped_by_priority mt)\<rparr>"

text \<open>\<open>send_to_peer\<close> on the first channel with the destination's id.\<close>

fun send_scan :: "u8 \<Rightarrow> u8 \<Rightarrow> Buffer \<Rightarrow> PeerChannel list \<Rightarrow> ShmRouterMetrics \<Rightarrow> ShmWorld \<Rightarrow>
    unit res \<times> PeerChannel list \<times> ShmRouterMetrics \<times> ShmWorld" where
  "send_scan floor dst pl [] mt w =
     (Inl (RuntimeError (''shm router: no channel for peer id '' @ to_string_nat (unat dst))), [], mt, w)"
| "send_scan floor dst pl (c # cs) mt w =
     (if chan_peer_id c = dst then
        let prio = priority_from_frame pl
        in if floor > 0 \<and> congested c \<and> prio < floor
           then (Inr (), c # cs, record_drop dst prio mt, w)
           else case try_send_shm_buffer (chan_endpoint c) pl w of
               Inl e \<Rightarrow> (Inl e, c # cs, mt, w)
             | Inr (res, w1) \<Rightarrow>
                 if res = Ok
                 then (Inr (), c\<lparr>congested := False\<rparr> # cs, mt\<lparr>forwarded := forwarded mt + 1\<rparr>, w1)
                 else (Inr (), c\<lparr>congested := True\<rparr> # cs, record_drop dst prio mt, w1)
      else let (res, cs1, mt1, w1) = send_scan floor dst pl cs mt w in (res, c # cs1, mt1, w1))"

definition send_to_peer :: "Buffer \<Rightarrow> u8 \<Rightarrow> (shm_link_state, unit) call" where
  "send_to_peer pl dst = (\<lambda>(l, w).
     let (res, cs, mt, w') = send_scan (priority_drop_floor l) dst pl (peer_channels l) (metrics l) w
     in (res, (l\<lparr>peer_channels := cs, metrics := mt\<rparr>, w')))"

definition forward :: "RouterFrame \<Rightarrow> u64 \<Rightarrow> RouteRule list \<Rightarrow> shm_link_state \<Rightarrow>
    ForwardResult res \<times> RouterFrame \<times> shm_link_state" where
  "forward f ts rules s =
     (if \<not> is_server (fst s) then (Inl (RuntimeError ''forward on client link''), f, s)
      else case try_receive f ts s of
        (Inl e, f1, s1) \<Rightarrow> (Inl e, f1, s1)
      | (Inr src, f1, (l1, w1)) \<Rightarrow>
          if src = kEndpointInvalid
          then (Inr ForwardResult_empty, f1,
                (l1\<lparr>metrics := (metrics l1)\<lparr>recv_empty := recv_empty (metrics l1) + 1\<rparr>\<rparr>, w1))
          else let tg = route_targets_for rules src (topic_id f1)
               in case fan_out (send_to_peer (frame_read_only f1)) (targets_list tg) (l1, w1) of
                    (Inl e, s2) \<Rightarrow> (Inl e, f1, s2)
                  | (Inr _, s2) \<Rightarrow> (Inr \<lparr>fwd_source = src, fwd_targets = tg\<rparr>, f1, s2))"

definition send_to_router ::
    "(nat \<Rightarrow> bytes \<Rightarrow> bytes) \<Rightarrow> RouterFrame \<Rightarrow> shm_link_state \<Rightarrow> (unit res \<times> shm_link_state) option" where
  "send_to_router env f = (\<lambda>(l, w).
     if is_server l then Some (Inl (RuntimeError ''send_to_router on server link''), (l, w))
     else case send_shm_buffer env (link_endpoint l) (frame_read_only f) w of
         None \<Rightarrow> None
       | Some (Inl e) \<Rightarrow> Some (Inl e, (l, w))
       | Some (Inr w') \<Rightarrow> Some (Inr (), (l, w')))"

definition recv_message :: "RouterFrame \<Rightarrow> shm_link_state \<Rightarrow> bool res \<times> RouterFrame \<times> shm_link_state" where
  "recv_message f = (\<lambda>(l, w).
     if is_server l then (Inl (RuntimeError ''recv_message on server link''), f, (l, w))
     else case ep_try_recv (link_endpoint l) (frame_writable f) w of
         Inl e \<Rightarrow> (Inl e, f, (l, w))
       | Inr (got, buf, w1) \<Rightarrow>
           (Inr (got \<and> buf_size buf \<ge> kRouterFrameSize), frame_of_buffer buf, (l, w1)))"

text \<open>
  \<open>recv_message_until\<close>: \<open>stop k\<close> is the flag at the \<open>k\<close>-th test, \<open>env k\<close> what other processes
  do to the world before the next attempt. \<open>None\<close>: the fuel ran out, the loop is still running.
\<close>

fun recv_message_until :: "(nat \<Rightarrow> bool) \<Rightarrow> (nat \<Rightarrow> ShmWorld \<Rightarrow> ShmWorld) \<Rightarrow> nat \<Rightarrow> nat \<Rightarrow> u8 \<Rightarrow> RouterFrame \<Rightarrow>
    shm_link_state \<Rightarrow> (bool res \<times> RouterFrame \<times> shm_link_state) option" where
  "recv_message_until stop env 0 k wanted f s = None"
| "recv_message_until stop env (Suc fuel) k wanted f s =
     (if stop k then Some (Inr False, f, s)
      else case recv_message f s of
        (Inl e, f1, s1) \<Rightarrow> Some (Inl e, f1, s1)
      | (Inr got, f1, (l1, w1)) \<Rightarrow>
          if got \<and> source f1 = wanted then Some (Inr True, f1, (l1, w1))
          else recv_message_until stop env fuel (Suc k) wanted f1 (l1, env k w1))"

section \<open>Channels as queues\<close>

definition region_of :: "PeerChannel \<Rightarrow> ShmRegion" where
  "region_of c = the (chan_endpoint c)"

definition in_q :: "ShmWorld \<Rightarrow> PeerChannel \<Rightarrow> bytes list" where
  "in_q w c = ring_items (req_ring (region_of c)) (mem_of w (region_of c))"

definition out_q :: "ShmWorld \<Rightarrow> PeerChannel \<Rightarrow> bytes list" where
  "out_q w c = ring_items (rep_ring (region_of c)) (mem_of w (region_of c))"

text \<open>How far the head counters of the two rings are; they must not reach \<open>2 ^ 64\<close>.\<close>

definition in_pos :: "ShmWorld \<Rightarrow> PeerChannel \<Rightarrow> nat" where
  "in_pos w c = hd_pos (req_ring (region_of c)) (mem_of w (region_of c))"

definition out_pos :: "ShmWorld \<Rightarrow> PeerChannel \<Rightarrow> nat" where
  "out_pos w c = hd_pos (rep_ring (region_of c)) (mem_of w (region_of c))"

definition chan_ok :: "ShmWorld \<Rightarrow> PeerChannel \<Rightarrow> bool" where
  "chan_ok w c \<longleftrightarrow> chan_endpoint c \<noteq> None \<and> is_server_role (region_of c)
     \<and> region_inv (region_of c) (mem_of w (region_of c))
     \<and> kRouterFrameSize \<le> max_payload (region_of c)"

abbreviation chan_obj :: "PeerChannel \<Rightarrow> nat" where
  "chan_obj c \<equiv> obj (region_of c)"

lemma put_mem_simps [simp]:
  "mem_of (put_mem r m w) r' = (if obj r' = obj r then m else mem_of w r')"
  "put_mem r (mem_of w r) w = w" "ns (put_mem r m w) = ns w"
  by (simp_all add: put_mem_def)

lemma chan_frame:
  assumes "chan_obj c \<noteq> obj r"
  shows "chan_ok (put_mem r m w) c = chan_ok w c" "in_q (put_mem r m w) c = in_q w c"
    "out_q (put_mem r m w) c = out_q w c" "out_pos (put_mem r m w) c = out_pos w c"
    "in_pos (put_mem r m w) c = in_pos w c"
  using assms by (simp_all add: chan_ok_def in_q_def out_q_def in_pos_def out_pos_def)

lemma region_of_congested [simp]:
  "region_of (c\<lparr>congested := b\<rparr>) = region_of c"
  "chan_ok w (c\<lparr>congested := b\<rparr>) = chan_ok w c" "in_q w (c\<lparr>congested := b\<rparr>) = in_q w c"
  "out_q w (c\<lparr>congested := b\<rparr>) = out_q w c" "out_pos w (c\<lparr>congested := b\<rparr>) = out_pos w c"
  "in_pos w (c\<lparr>congested := b\<rparr>) = in_pos w c"
  by (simp_all add: region_of_def chan_ok_def in_q_def out_q_def in_pos_def out_pos_def)

lemma chan_okE:
  assumes "chan_ok w c"
  obtains r where "chan_endpoint c = Some r" "region_of c = r" "is_server_role r"
    "region_inv r (mem_of w r)" "kRouterFrameSize \<le> max_payload r"
  using assms by (auto simp: chan_ok_def region_of_def)

lemma opposite_rings: "opposite r (req_ring r) (rep_ring r)" "opposite r (rep_ring r) (req_ring r)"
  by (simp_all add: opposite_def)

lemma chan_recv_empty:
  assumes "chan_ok w c" "in_q w c = []"
  shows "ep_try_recv (chan_endpoint c) buf w = Inr (False, buf, w)"
proof -
  from assms(1) obtain r where r: "chan_endpoint c = Some r" "region_of c = r" "is_server_role r"
    "region_inv r (mem_of w r)" by (rule chan_okE)
  have "shm_try_pop_slot (req_ring r) buf (mem_of w r) = Inr (False, buf, mem_of w r)"
    by (rule pop_empty) (use r assms(2) in \<open>auto simp: in_q_def region_inv_def\<close>)
  then show ?thesis using r by (simp add: ep_try_recv_def ShmSpsc_try_recv_def rx_ring_def)
qed

lemma chan_recv_too_long:
  assumes "chan_ok w c" "in_q w c = x # xs" "capacity buf < length x"
  shows "ep_try_recv (chan_endpoint c) buf w = Inl (RuntimeError ''shm recv buffer too small'')"
proof -
  from assms(1) obtain r where r: "chan_endpoint c = Some r" "region_of c = r" "is_server_role r"
    "region_inv r (mem_of w r)" by (rule chan_okE)
  have "ring_inv (req_ring r) (mem_of w r)" "ring_items (req_ring r) (mem_of w r) = x # xs"
    using r assms(2) by (auto simp: in_q_def region_inv_def)
  from pop_unfold(2) [OF this, of buf] assms(3) r show ?thesis
    by (simp add: ep_try_recv_def ShmSpsc_try_recv_def rx_ring_def)
qed

lemma chan_recv:
  assumes "chan_ok w c" "in_q w c = x # xs" "buffer_ok buf" "length x \<le> capacity buf"
  obtains buf' m where "ep_try_recv (chan_endpoint c) buf w = Inr (True, buf', put_mem (region_of c) m w)"
    "buffer_bytes buf' = x" "buf_size buf' = length x" "data buf' = x @ drop (length x) (data buf)"
    "chan_ok (put_mem (region_of c) m w) c" "in_q (put_mem (region_of c) m w) c = xs"
    "out_q (put_mem (region_of c) m w) c = out_q w c"
    "out_pos (put_mem (region_of c) m w) c = out_pos w c"
    "in_pos (put_mem (region_of c) m w) c = in_pos w c"
proof -
  from assms(1) obtain r where r: "chan_endpoint c = Some r" "region_of c = r" "is_server_role r"
    "region_inv r (mem_of w r)" "kRouterFrameSize \<le> max_payload r" by (rule chan_okE)
  have "ring_items (req_ring r) (mem_of w r) = x # xs" using r assms(2) by (simp add: in_q_def)
  from region_pop [OF r(4) opposite_rings(1) this assms(3,4)]
  obtain buf' m where m: "shm_try_pop_slot (req_ring r) buf (mem_of w r) = Inr (True, buf', m)"
    "region_inv r m" "ring_items (req_ring r) m = xs" "buffer_bytes buf' = x"
    "buf_size buf' = length x" "data buf' = x @ drop (length x) (data buf)"
    "ring_items (rep_ring r) m = ring_items (rep_ring r) (mem_of w r)"
    "hd_pos (rep_ring r) m = hd_pos (rep_ring r) (mem_of w r)"
    "hd_pos (req_ring r) m = hd_pos (req_ring r) (mem_of w r)"
    by metis
  show ?thesis
  proof (rule that [of buf' m])
    show "ep_try_recv (chan_endpoint c) buf w = Inr (True, buf', put_mem (region_of c) m w)"
      using r m(1) by (simp add: ep_try_recv_def ShmSpsc_try_recv_def rx_ring_def)
  qed (use r m in \<open>simp_all add: chan_ok_def in_q_def out_q_def in_pos_def out_pos_def\<close>)
qed

lemma chan_send_full:
  assumes "chan_ok w c" "length (out_q w c) = slot_count (region_of c)"
  shows "try_send_shm_buffer (chan_endpoint c) pl w = Inr (Full, w)"
proof -
  from assms(1) obtain r where r: "chan_endpoint c = Some r" "region_of c = r" "is_server_role r"
    "region_inv r (mem_of w r)" by (rule chan_okE)
  have "shm_try_push_slot (rep_ring r) pl (mem_of w r) = (False, mem_of w r)"
    by (rule push_rejects)
      (use r assms(2) in \<open>auto simp: out_q_def region_inv_def rep_ring_def\<close>)
  then show ?thesis
    using r by (simp add: try_send_shm_buffer_def ep_try_send_def ShmSpsc_try_send_def tx_ring_def)
qed

lemma chan_send:
  assumes "chan_ok w c" "length (out_q w c) < slot_count (region_of c)" "out_pos w c + 1 < 2 ^ 64"
    "length x = kRouterFrameSize"
  obtains m where "try_send_shm_buffer (chan_endpoint c) (Buffer_read_only x) w
      = Inr (Ok, put_mem (region_of c) m w)"
    "chan_ok (put_mem (region_of c) m w) c" "in_q (put_mem (region_of c) m w) c = in_q w c"
    "out_q (put_mem (region_of c) m w) c = out_q w c @ [x]"
    "out_pos (put_mem (region_of c) m w) c = out_pos w c + 1"
    "in_pos (put_mem (region_of c) m w) c = in_pos w c"
proof -
  from assms(1) obtain r where r: "chan_endpoint c = Some r" "region_of c = r" "is_server_role r"
    "region_inv r (mem_of w r)" "kRouterFrameSize \<le> max_payload r" by (rule chan_okE)
  have room: "length (ring_items (rep_ring r) (mem_of w r)) < slot_count r"
    "hd_pos (rep_ring r) (mem_of w r) + 1 < 2 ^ 64"
    using assms(2,3) r(2) by (simp_all only: out_q_def out_pos_def)
  from region_push [OF r(4) opposite_rings(2) buffer_ok_views(1) room, of x]
  obtain m where m: "shm_try_push_slot (rep_ring r) (Buffer_read_only x) (mem_of w r) = (True, m)"
    "region_inv r m" "ring_items (req_ring r) m = ring_items (req_ring r) (mem_of w r)"
    "ring_items (rep_ring r) m = ring_items (rep_ring r) (mem_of w r) @ [clip (rep_ring r) (Buffer_read_only x)]"
    "hd_pos (rep_ring r) m = hd_pos (rep_ring r) (mem_of w r) + 1"
    "hd_pos (req_ring r) m = hd_pos (req_ring r) (mem_of w r)"
    by metis
  have clip: "clip (rep_ring r) (Buffer_read_only x) = x"
    using r(5) assms(4) by (simp add: clip_def rep_ring_def)
  show ?thesis
  proof (rule that [of m])
    show "try_send_shm_buffer (chan_endpoint c) (Buffer_read_only x) w = Inr (Ok, put_mem (region_of c) m w)"
      using r m(1) by (simp add: try_send_shm_buffer_def ep_try_send_def ShmSpsc_try_send_def tx_ring_def)
  qed (use r m clip in \<open>simp_all add: chan_ok_def in_q_def out_q_def in_pos_def out_pos_def\<close>)
qed

section \<open>The abstract router\<close>

text \<open>Per peer: the messages it sent that wait for the router, and those that wait for it.\<close>

record PeerView =
  v_id :: u8
  v_in :: "bytes list"
  v_out :: "bytes list"
  v_cap :: nat
  v_congested :: bool

record LinkView =
  v_floor :: u8
  v_peers :: "PeerView list"
  v_metrics :: ShmRouterMetrics

fun receive_spec :: "PeerView list \<Rightarrow> ShmRouterMetrics \<Rightarrow>
    (u8 \<times> bytes) option res \<times> PeerView list \<times> ShmRouterMetrics" where
  "receive_spec [] mt = (Inr None, [], mt)"
| "receive_spec (v # vs) mt =
     (case v_in v of
        [] \<Rightarrow> let (r, vs', mt') = receive_spec vs mt in (r, v # vs', mt')
      | x # xs \<Rightarrow>
          if length x > kRouterFrameSize
          then (Inl (RuntimeError ''shm recv buffer too small''), v # vs, mt)
          else if length x < kRouterFrameSize
          then let (r, vs', mt') = receive_spec vs (mt\<lparr>recv_truncated := recv_truncated mt + 1\<rparr>)
               in (r, v\<lparr>v_in := xs\<rparr> # vs', mt')
          else (Inr (Some (v_id v, x)), v\<lparr>v_in := xs\<rparr> # vs, mt))"

definition frame_prio :: "bytes \<Rightarrow> u8" where
  "frame_prio x = priority_of_flags (x ! kRouterFlagsOffset)"

text \<open>A copy is admitted when the ring has room and the peer is not shedding its priority.\<close>

definition admits :: "u8 \<Rightarrow> bytes \<Rightarrow> PeerView \<Rightarrow> bool" where
  "admits floor x v \<longleftrightarrow>
     length (v_out v) < v_cap v \<and> \<not> (floor > 0 \<and> v_congested v \<and> frame_prio x < floor)"

definition deliver :: "u8 \<Rightarrow> bytes \<Rightarrow> PeerView \<Rightarrow> PeerView" where
  "deliver floor x v =
     (if admits floor x v then v\<lparr>v_out := v_out v @ [x], v_congested := False\<rparr>
      else v\<lparr>v_congested := True\<rparr>)"

text \<open>
  What a drop does to the counters, slot by slot: one more in total, one more in the slot of its
  destination, one more in the slot of its priority, and every other slot and counter as it was.
\<close>

definition drop_counted :: "u8 \<Rightarrow> u8 \<Rightarrow> ShmRouterMetrics \<Rightarrow> ShmRouterMetrics" where
  "drop_counted dst prio mt = mt\<lparr>
     dropped_full := dropped_full mt + 1,
     dropped_full_per_peer := map (\<lambda>j. if j = unat dst then dropped_full_per_peer mt ! j + 1
        else dropped_full_per_peer mt ! j) [0..<length (dropped_full_per_peer mt)],
     dropped_by_priority := map (\<lambda>j. if j = unat prio then dropped_by_priority mt ! j + 1
        else dropped_by_priority mt ! j) [0..<length (dropped_by_priority mt)]\<rparr>"

lemma bump_at_slots: "map (\<lambda>j. if j = i then xs ! j + 1 else xs ! j) [0..<length xs] = bump_at i xs"
  by (auto intro!: nth_equalityI simp: nth_bump_at)

lemma record_drop_counted [simp]: "drop_counted dst prio mt = record_drop dst prio mt"
  by (simp add: drop_counted_def record_drop_def bump_at_slots)

definition send_spec :: "bytes \<Rightarrow> u8 \<Rightarrow> (LinkView, unit) call" where
  "send_spec x dst L =
     (case find (\<lambda>v. v_id v = dst) (v_peers L) of
        None \<Rightarrow> (Inl (RuntimeError (''shm router: no channel for peer id '' @ to_string_nat (unat dst))), L)
      | Some v \<Rightarrow> (Inr (), L\<lparr>
          v_peers := map (\<lambda>u. if v_id u = dst then deliver (v_floor L) x u else u) (v_peers L),
          v_metrics := (if admits (v_floor L) x v
             then (v_metrics L)\<lparr>forwarded := forwarded (v_metrics L) + 1\<rparr>
             else drop_counted dst (frame_prio x) (v_metrics L))\<rparr>))"

definition stamp :: "u8 \<Rightarrow> u64 \<Rightarrow> bytes \<Rightarrow> RouterFrame" where
  "stamp src ts x = set_timestamp_ns ts (set_source src \<lparr>bytes = x\<rparr>)"

definition forward_spec :: "u64 \<Rightarrow> RouteRule list \<Rightarrow> (LinkView, ForwardResult \<times> RouterFrame option) call" where
  "forward_spec ts rules L =
     (case receive_spec (v_peers L) (v_metrics L) of
        (Inl e, vs, mt) \<Rightarrow> (Inl e, L\<lparr>v_peers := vs, v_metrics := mt\<rparr>)
      | (Inr None, vs, mt) \<Rightarrow>
          (Inr (ForwardResult_empty, None),
           L\<lparr>v_peers := vs, v_metrics := mt\<lparr>recv_empty := recv_empty mt + 1\<rparr>\<rparr>)
      | (Inr (Some (p, x)), vs, mt) \<Rightarrow>
          let g = stamp p ts x; tg = route_targets_for rules p (topic_id g)
          in case fan_out (send_spec (bytes g)) (targets_list tg) (L\<lparr>v_peers := vs, v_metrics := mt\<rparr>) of
               (Inl e, L2) \<Rightarrow> (Inl e, L2)
             | (Inr _, L2) \<Rightarrow> (Inr (\<lparr>fwd_source = p, fwd_targets = tg\<rparr>, Some g), L2))"

text \<open>The abstraction, and the invariant with a budget of further sends in either direction.\<close>

definition view_of :: "ShmWorld \<Rightarrow> PeerChannel \<Rightarrow> PeerView" where
  "view_of w c = \<lparr>v_id = chan_peer_id c, v_in = in_q w c, v_out = out_q w c,
     v_cap = slot_count (region_of c), v_congested = congested c\<rparr>"

definition link_view :: "shm_link_state \<Rightarrow> LinkView" where
  "link_view = (\<lambda>(l, w). \<lparr>v_floor = priority_drop_floor l,
     v_peers = map (view_of w) (peer_channels l), v_metrics = metrics l\<rparr>)"

definition chans_ok :: "nat \<Rightarrow> ShmWorld \<Rightarrow> PeerChannel list \<Rightarrow> bool" where
  "chans_ok n w cs \<longleftrightarrow>
     (\<forall>c\<in>set cs. chan_ok w c \<and> chan_peer_id c \<noteq> kEndpointInvalid
        \<and> in_pos w c + n < 2 ^ 64 \<and> out_pos w c + n < 2 ^ 64)
     \<and> distinct (map chan_obj cs) \<and> distinct (map chan_peer_id cs)"

definition link_inv :: "nat \<Rightarrow> shm_link_state \<Rightarrow> bool" where
  "link_inv n = (\<lambda>(l, w). is_server l \<and> chans_ok n w (peer_channels l))"

lemma chan_cong:
  assumes "mem_of w' (region_of c) = mem_of w (region_of c)"
  shows "chan_ok w' c = chan_ok w c" "view_of w' c = view_of w c" "out_pos w' c = out_pos w c"
    "in_pos w' c = in_pos w c"
  using assms by (simp_all add: chan_ok_def view_of_def in_q_def out_q_def in_pos_def out_pos_def)

lemma chans_ok_Cons:
  "chans_ok n w (c # cs) \<longleftrightarrow> chan_ok w c \<and> chan_peer_id c \<noteq> kEndpointInvalid
     \<and> in_pos w c + n < 2 ^ 64 \<and> out_pos w c + n < 2 ^ 64
     \<and> chan_obj c \<notin> chan_obj ` set cs \<and> chan_peer_id c \<notin> chan_peer_id ` set cs
     \<and> chans_ok n w cs"
  by (auto simp: chans_ok_def)

lemma chans_ok_mono: "chans_ok (Suc n) w cs \<Longrightarrow> chans_ok n w cs"
  by (auto simp: chans_ok_def)

text \<open>Changing another region does not affect a group of channels.\<close>

lemma chans_frame:
  assumes "\<And>c. c \<in> set cs \<Longrightarrow> mem_of w' (region_of c) = mem_of w (region_of c)"
  shows "chans_ok n w' cs = chans_ok n w cs" "map (view_of w') cs = map (view_of w) cs"
  using assms chan_cong [of w' _ w] by (auto simp: chans_ok_def)

lemma wf_stamp: "length x = kRouterFrameSize \<Longrightarrow> wf_frame (stamp p ts x)"
proof -
  assume "length x = kRouterFrameSize"
  then have "wf_frame \<lparr>bytes = x\<rparr>" by (simp add: wf_frame_def)
  then show ?thesis by (simp add: stamp_def)
qed

section \<open>The link implements the abstract router\<close>

definition received :: "u64 \<Rightarrow> (u8 \<times> bytes) option res \<Rightarrow> u8 res \<Rightarrow> RouterFrame \<Rightarrow> bool" where
  "received ts sres res f \<longleftrightarrow>
     (case sres of Inl e \<Rightarrow> res = Inl e | Inr None \<Rightarrow> res = Inr kEndpointInvalid
      | Inr (Some (p, x)) \<Rightarrow> res = Inr p \<and> p \<noteq> kEndpointInvalid \<and> length x = kRouterFrameSize
          \<and> f = stamp p ts x)"

definition recv_sim :: "nat \<Rightarrow> PeerChannel list \<Rightarrow> u64 \<Rightarrow> ShmRouterMetrics \<Rightarrow> ShmWorld \<Rightarrow>
    u8 res \<Rightarrow> RouterFrame \<Rightarrow> ShmRouterMetrics \<Rightarrow> ShmWorld \<Rightarrow> bool" where
  "recv_sim n cs ts mt w res f' mt' w' \<longleftrightarrow>
     (\<exists>sres. receive_spec (map (view_of w) cs) mt = (sres, map (view_of w') cs, mt')
        \<and> received ts sres res f')
     \<and> chans_ok n w' cs \<and> wf_frame f' \<and> (\<forall>k. k \<notin> chan_obj ` set cs \<longrightarrow> objs w' k = objs w k)"

text \<open>A channel that is skipped, after changing at most its own region.\<close>

lemma recv_sim_skip:
  assumes sim: "recv_sim n cs ts mt1 w1 res f' mt' w'"
    and ok: "chans_ok n w1 (c # cs)"
    and same: "map (view_of w1) cs = map (view_of w) cs" "\<forall>k. k \<noteq> chan_obj c \<longrightarrow> objs w1 k = objs w k"
    and spec: "\<And>vs. receive_spec (view_of w c # vs) mt
      = (let (r, vs', mt') = receive_spec vs mt1 in (r, view_of w1 c # vs', mt'))"
  shows "recv_sim n (c # cs) ts mt w res f' mt' w'"
proof -
  obtain sres where s: "receive_spec (map (view_of w1) cs) mt1 = (sres, map (view_of w') cs, mt')"
    "received ts sres res f'" "chans_ok n w' cs" "wf_frame f'"
    "\<forall>k. k \<notin> chan_obj ` set cs \<longrightarrow> objs w' k = objs w1 k"
    using sim by (auto simp: recv_sim_def)
  have apart: "chan_obj c \<notin> chan_obj ` set cs" using ok by (auto simp: chans_ok_def)
  then have "mem_of w' (region_of c) = mem_of w1 (region_of c)" using s(5) by simp
  note eq = chan_cong [OF this]
  have "receive_spec (map (view_of w) (c # cs)) mt = (sres, map (view_of w') (c # cs), mt')"
    using spec [of "map (view_of w1) cs"] s(1) same(1) eq(2) by simp
  moreover have "chans_ok n w' (c # cs)"
    using ok s(3) eq(1,3,4) by (simp add: chans_ok_Cons)
  moreover have "\<forall>k. k \<notin> chan_obj ` set (c # cs) \<longrightarrow> objs w' k = objs w k"
    using s(5) same(2) by simp
  ultimately show ?thesis using s(2,4) unfolding recv_sim_def by blast
qed

lemma receive_refines:
  assumes "chans_ok n w cs" "wf_frame f" "receive_scan cs f ts mt w = (res, f', mt', w')"
  shows "recv_sim n cs ts mt w res f' mt' w'"
  using assms
proof (induction cs arbitrary: f mt w)
  case Nil
  then show ?case by (auto simp: chans_ok_def recv_sim_def received_def)
next
  case (Cons c cs)
  let ?b = "frame_writable f"
  have c: "chan_ok w c" "chan_peer_id c \<noteq> kEndpointInvalid"
    and apart: "\<And>d. d \<in> set cs \<Longrightarrow> chan_obj d \<noteq> chan_obj c" and cs: "chans_ok n w cs"
    using Cons.prems(1) by (auto simp: chans_ok_Cons) (metis image_eqI)
  have b: "buffer_ok ?b" "capacity ?b = kRouterFrameSize" "data ?b = bytes f" "frame_of_buffer ?b = f"
    using Cons.prems(2)
    by (simp_all add: frame_writable_def Buffer_writable_def buffer_ok_def wf_frame_def frame_of_buffer_def)
  show ?case
  proof (cases "in_q w c")
    case Nil
    have "receive_scan cs f ts mt w = (res, f', mt', w')"
      using Cons.prems(3) chan_recv_empty [OF c(1) Nil, of ?b] b(4) by simp
    from Cons.IH [OF cs Cons.prems(2) this] Cons.prems(1) show ?thesis
      by (rule recv_sim_skip) (simp_all add: view_of_def Nil)
  next
    case q: (Cons x xs)
    show ?thesis
    proof (cases "length x > kRouterFrameSize")
      case True
      with chan_recv_too_long [OF c(1) q, of ?b] b(2) Cons.prems(3)
      have "res = Inl (RuntimeError ''shm recv buffer too small'')" "f' = f" "mt' = mt" "w' = w"
        by simp_all
      then show ?thesis
        using True q Cons.prems(1,2) by (simp add: recv_sim_def received_def view_of_def)
    next
      case False
      then have "length x \<le> capacity ?b" using b(2) by simp
      from chan_recv [OF c(1) q b(1) this] obtain buf m where
        rv: "ep_try_recv (chan_endpoint c) ?b w = Inr (True, buf, put_mem (region_of c) m w)"
        "buf_size buf = length x" "data buf = x @ drop (length x) (data ?b)"
        "chan_ok (put_mem (region_of c) m w) c" "in_q (put_mem (region_of c) m w) c = xs"
        "out_q (put_mem (region_of c) m w) c = out_q w c"
        "out_pos (put_mem (region_of c) m w) c = out_pos w c"
        "in_pos (put_mem (region_of c) m w) c = in_pos w c"
        by metis
      define w1 where "w1 = put_mem (region_of c) m w"
      note rv = rv [folded w1_def]
      have tail: "chans_ok n w1 cs" "map (view_of w1) cs = map (view_of w) cs"
        using chans_frame(1) [of cs w1 w n] chans_frame(2) [of cs w1 w] apart cs by (simp_all add: w1_def)
      have vc: "view_of w1 c = (view_of w c)\<lparr>v_in := xs\<rparr>" using rv(5,6) by (simp add: view_of_def)
      have ok1: "chans_ok n w1 (c # cs)"
        using Cons.prems(1) rv(4,7,8) tail(1) by (simp add: chans_ok_Cons)
      have fr1: "\<forall>k. k \<noteq> chan_obj c \<longrightarrow> objs w1 k = objs w k" by (simp add: w1_def put_mem_def)
      show ?thesis
      proof (cases "length x < kRouterFrameSize")
        case short: True
        let ?mt = "mt\<lparr>recv_truncated := recv_truncated mt + 1\<rparr>"
        have wf1: "wf_frame (frame_of_buffer buf)"
          using rv(3) b(3) short Cons.prems(2) by (simp add: wf_frame_def frame_of_buffer_def)
        have "receive_scan cs (frame_of_buffer buf) ts ?mt w1 = (res, f', mt', w')"
          using Cons.prems(3) rv(1,2) short by (simp add: Let_def)
        from Cons.IH [OF tail(1) wf1 this] ok1 tail(2) fr1 show ?thesis
          by (rule recv_sim_skip) (use vc q short in \<open>simp add: view_of_def\<close>)
      next
        case long: False
        then have len: "length x = kRouterFrameSize" using False by simp
        have "data buf = x" using rv(3) b(3) len Cons.prems(2) by (simp add: wf_frame_def)
        then have fin: "res = Inr (chan_peer_id c)" "f' = stamp (chan_peer_id c) ts x" "mt' = mt" "w' = w1"
          using Cons.prems(3) rv(1,2) long by (simp_all add: Let_def stamp_def frame_of_buffer_def)
        have "receive_spec (map (view_of w) (c # cs)) mt
            = (Inr (Some (chan_peer_id c, x)), map (view_of w1) (c # cs), mt)"
          using q len vc tail(2) by (simp add: view_of_def)
        moreover have "received ts (Inr (Some (chan_peer_id c, x))) res f'"
          using fin c(2) len by (simp add: received_def)
        moreover have "wf_frame f'" using fin(2) len by (simp add: wf_stamp)
        ultimately show ?thesis using fin(3,4) ok1 fr1 by (auto simp: recv_sim_def)
      qed
    qed
  qed
qed

definition send_error :: "u8 \<Rightarrow> error" where
  "send_error dst = RuntimeError (''shm router: no channel for peer id '' @ to_string_nat (unat dst))"

definition send_sim :: "nat \<Rightarrow> u8 \<Rightarrow> bytes \<Rightarrow> u8 \<Rightarrow> PeerChannel list \<Rightarrow> ShmRouterMetrics \<Rightarrow> ShmWorld \<Rightarrow>
    unit res \<Rightarrow> PeerChannel list \<Rightarrow> ShmRouterMetrics \<Rightarrow> ShmWorld \<Rightarrow> bool" where
  "send_sim n floor x dst cs mt w res cs' mt' w' \<longleftrightarrow>
     (case find (\<lambda>c. chan_peer_id c = dst) cs of
        None \<Rightarrow> res = Inl (send_error dst) \<and> mt' = mt
      | Some c \<Rightarrow> res = Inr () \<and>
          mt' = (if admits floor x (view_of w c) then mt\<lparr>forwarded := forwarded mt + 1\<rparr>
                 else record_drop dst (frame_prio x) mt))
     \<and> map (view_of w') cs' = map (\<lambda>c. if chan_peer_id c = dst then deliver floor x (view_of w c)
                                        else view_of w c) cs
     \<and> map region_of cs' = map region_of cs \<and> map chan_peer_id cs' = map chan_peer_id cs
     \<and> chans_ok n w' cs'
     \<and> (\<forall>k. k \<notin> chan_obj ` set cs \<longrightarrow> objs w' k = objs w k)"

lemma view_of_congested: "view_of w (c\<lparr>congested := b\<rparr>) = (view_of w c)\<lparr>v_congested := b\<rparr>"
  by (simp add: view_of_def)

text \<open>The channel of the destination.\<close>

lemma send_sim_hit:
  assumes "chans_ok (Suc n) w (c # cs)" "chan_peer_id c = dst" "length x = kRouterFrameSize"
    and scan: "send_scan floor dst (Buffer_read_only x) (c # cs) mt w = (res, cs', mt', w')"
  shows "send_sim n floor x dst (c # cs) mt w res cs' mt' w'"
proof -
  let ?pl = "Buffer_read_only x" and ?v = "view_of w c"
  have c: "chan_ok w c" "out_pos w c + 1 < 2 ^ 64" "chan_obj c \<notin> chan_obj ` set cs"
    and others: "\<And>d. d \<in> set cs \<Longrightarrow> chan_peer_id d \<noteq> dst" and cs: "chans_ok n w cs"
    using assms(1,2) chans_ok_mono by (auto simp: chans_ok_Cons) (metis image_eqI)
  have okn: "chans_ok n w (c # cs)" by (rule chans_ok_mono [OF assms(1)])
  have rest: "map (\<lambda>d. if chan_peer_id d = dst then deliver floor x (view_of w d) else view_of w d) cs
      = map (view_of w) cs"
    using others by simp
  have prio: "priority_from_frame ?pl = frame_prio x"
    using assms(3) by (simp add: priority_from_frame_def Buffer_read_only_def frame_prio_def)
  have cap: "length (out_q w c) \<le> slot_count (region_of c)"
    using c(1) by (auto simp: chan_ok_def region_inv_def ring_inv_def out_q_def rep_ring_def)
  have full_if: "\<not> length (out_q w c) < slot_count (region_of c) \<Longrightarrow>
      try_send_shm_buffer (chan_endpoint c) ?pl w = Inr (Full, w)"
    using cap by (intro chan_send_full [OF c(1)]) simp
  consider (shed) "floor > 0 \<and> congested c \<and> frame_prio x < floor"
    | (full) "\<not> (floor > 0 \<and> congested c \<and> frame_prio x < floor)"
        "\<not> length (out_q w c) < slot_count (region_of c)"
    | (room) "\<not> (floor > 0 \<and> congested c \<and> frame_prio x < floor)"
        "length (out_q w c) < slot_count (region_of c)"
    by blast
  then show ?thesis
  proof cases
    case shed
    then have "res = Inr ()" "cs' = c # cs" "mt' = record_drop dst (frame_prio x) mt" "w' = w"
      using scan assms(2) prio by simp_all
    moreover have "\<not> admits floor x ?v" "?v\<lparr>v_congested := True\<rparr> = ?v"
      using shed by (simp_all add: admits_def view_of_def)
    ultimately show ?thesis using okn assms(2) rest by (simp add: send_sim_def deliver_def)
  next
    case full
    then have "res = Inr ()" "cs' = c\<lparr>congested := True\<rparr> # cs" "mt' = record_drop dst (frame_prio x) mt" "w' = w"
      using scan assms(2) prio full_if by auto
    moreover have "\<not> admits floor x ?v" using full by (simp add: admits_def view_of_def)
    ultimately show ?thesis using okn assms(2) rest
      by (simp add: send_sim_def deliver_def view_of_congested chans_ok_Cons)
  next
    case room
    from chan_send [OF c(1) room(2) c(2) assms(3)] obtain m where
      m: "try_send_shm_buffer (chan_endpoint c) ?pl w = Inr (Ok, put_mem (region_of c) m w)"
      "chan_ok (put_mem (region_of c) m w) c" "in_q (put_mem (region_of c) m w) c = in_q w c"
      "out_q (put_mem (region_of c) m w) c = out_q w c @ [x]"
      "out_pos (put_mem (region_of c) m w) c = out_pos w c + 1"
      "in_pos (put_mem (region_of c) m w) c = in_pos w c"
      by metis
    define w1 where "w1 = put_mem (region_of c) m w"
    note m = m [folded w1_def]
    have fin: "res = Inr ()" "cs' = c\<lparr>congested := False\<rparr> # cs" "mt' = mt\<lparr>forwarded := forwarded mt + 1\<rparr>" "w' = w1"
      using scan assms(2) prio room m(1) by auto
    have "mem_of w1 (region_of d) = mem_of w (region_of d)" if "d \<in> set cs" for d
    proof -
      have "chan_obj d \<noteq> chan_obj c" using that c(3) by (metis image_eqI)
      then show ?thesis by (simp add: w1_def)
    qed
    then have tail: "chans_ok n w1 cs" "map (view_of w1) cs = map (view_of w) cs"
      using chans_frame(1) [of cs w1 w n] chans_frame(2) [of cs w1 w] cs by simp_all
    have adm: "admits floor x ?v" using room by (simp add: admits_def view_of_def)
    have vc: "view_of w1 (c\<lparr>congested := False\<rparr>) = deliver floor x ?v"
      using adm m(3,4) by (simp add: deliver_def view_of_def)
    have "chans_ok n w1 (c\<lparr>congested := False\<rparr> # cs)"
      using assms(1) m(2,5,6) tail(1) by (simp add: chans_ok_Cons)
    then show ?thesis
      unfolding send_sim_def using fin adm vc tail(2) rest assms(2) by (simp add: w1_def put_mem_def)
  qed
qed

lemma send_refines:
  assumes "chans_ok (Suc n) w cs" "length x = kRouterFrameSize"
    "send_scan floor dst (Buffer_read_only x) cs mt w = (res, cs', mt', w')"
  shows "send_sim n floor x dst cs mt w res cs' mt' w'"
  using assms
proof (induction cs arbitrary: cs')
  case Nil
  then show ?case by (auto simp: send_sim_def send_error_def chans_ok_def)
next
  case (Cons c cs)
  show ?case
  proof (cases "chan_peer_id c = dst")
    case True
    then show ?thesis using send_sim_hit [OF Cons.prems(1) _ Cons.prems(2,3)] by simp
  next
    case False
    obtain cs1 where scan: "send_scan floor dst (Buffer_read_only x) cs mt w = (res, cs1, mt', w')"
      "cs' = c # cs1"
      using Cons.prems(3) False by (auto split: prod.splits)
    have ok: "chans_ok (Suc n) w cs" "chan_obj c \<notin> chan_obj ` set cs" "chan_ok w c"
      "in_pos w c + n < 2 ^ 64" "out_pos w c + n < 2 ^ 64" "chan_peer_id c \<noteq> kEndpointInvalid" "chan_peer_id c \<notin> chan_peer_id ` set cs"
      using Cons.prems(1) by (simp_all add: chans_ok_Cons)
    have IH: "send_sim n floor x dst cs mt w res cs1 mt' w'" by (rule Cons.IH [OF ok(1) Cons.prems(2) scan(1)])
    have "mem_of w' (region_of c) = mem_of w (region_of c)" using IH ok(2) by (simp add: send_sim_def)
    note same = chan_cong [OF this]
    have "map region_of cs1 = map region_of cs" "map chan_peer_id cs1 = map chan_peer_id cs"
      using IH by (simp_all add: send_sim_def)
    then have "region_of ` set cs1 = region_of ` set cs" "chan_peer_id ` set cs1 = chan_peer_id ` set cs"
      by (metis set_map)+
    then have "chan_obj ` set cs1 = chan_obj ` set cs" "chan_peer_id ` set cs1 = chan_peer_id ` set cs"
      by (metis image_image)+
    then have "chans_ok n w' (c # cs1)"
      using ok same IH by (simp add: chans_ok_Cons send_sim_def)
    then show ?thesis
      using IH False same scan(2) by (simp add: send_sim_def split: option.splits)
  qed
qed

lemma v_id_view [simp]: "v_id (view_of w c) = chan_peer_id c"
  by (simp add: view_of_def)

lemma find_view:
  "find (\<lambda>v. v_id v = dst) (map (view_of w) cs) = map_option (view_of w) (find (\<lambda>c. chan_peer_id c = dst) cs)"
  by (induction cs) (auto simp: view_of_def)

interpretation shm_send: send_refinement
  "\<lambda>n s. length x = kRouterFrameSize \<and> link_inv n s" link_view
  "send_to_peer (Buffer_read_only x)" "send_spec x" for x
proof (unfold_locales, goal_cases)
  case (1 n s dst r s')
  obtain l w where s: "s = (l, w)" by fastforce
  obtain cs mt w' where scan: "send_scan (priority_drop_floor l) dst (Buffer_read_only x) (peer_channels l) (metrics l) w
      = (r, cs, mt, w')" and s': "s' = (l\<lparr>peer_channels := cs, metrics := mt\<rparr>, w')"
    using 1(2) by (auto simp: s send_to_peer_def split: prod.splits)
  have ok: "chans_ok (Suc n) w (peer_channels l)" "is_server l" using 1(1) by (auto simp: s link_inv_def)
  have sim: "send_sim n (priority_drop_floor l) x dst (peer_channels l) (metrics l) w r cs mt w'"
    by (rule send_refines [OF ok(1) _ scan]) (use 1(1) in simp)
  have "send_spec x dst (link_view s) = (r, link_view s')"
  proof (cases "find (\<lambda>c. chan_peer_id c = dst) (peer_channels l)")
    case None
    then have "\<forall>c\<in>set (peer_channels l). chan_peer_id c \<noteq> dst" by (auto simp: find_None_iff)
    then have "map (view_of w') cs = map (view_of w) (peer_channels l)"
      using sim by (simp add: send_sim_def)
    then show ?thesis
      using sim None by (simp add: s s' link_view_def send_spec_def find_view send_sim_def send_error_def)
  next
    case (Some c)
    have "map (\<lambda>u. if v_id u = dst then deliver (priority_drop_floor l) x u else u)
        (map (view_of w) (peer_channels l)) = map (view_of w') cs"
      using sim by (simp add: send_sim_def comp_def)
    then show ?thesis
      using sim Some by (simp add: s s' link_view_def send_spec_def find_view send_sim_def)
  qed
  moreover have "link_inv n s'" using sim ok(2) by (simp add: s' link_inv_def send_sim_def)
  ultimately show ?case using 1(1) by simp
next
  case (2 n s)
  then show ?case using chans_ok_mono by (auto simp: link_inv_def)
qed

lemma targets_at_most: "length (targets_list (route_targets_for rules src topic)) \<le> kMaxRouteDests"
proof (induction rules)
  case (Cons r rules)
  then show ?case
    by (simp add: route_targets_for.simps targets_list_def RouteTargets_empty_def Let_def)
qed (simp add: route_targets_for.simps)

lemma link_inv_weaken: "link_inv (k + n) s \<Longrightarrow> link_inv n s"
  by (cases s) (auto simp: link_inv_def chans_ok_def)

lemma try_receive_refines:
  assumes "link_inv n (l, w)" "wf_frame f" "try_receive f ts (l, w) = (res, f', (l', w'))"
  shows "\<exists>sres vs. receive_spec (v_peers (link_view (l, w))) (metrics l) = (sres, vs, metrics l')
      \<and> received ts sres res f' \<and> link_view (l', w') = (link_view (l, w))\<lparr>v_peers := vs, v_metrics := metrics l'\<rparr>"
    "link_inv n (l', w')" "wf_frame f'" "priority_drop_floor l' = priority_drop_floor l"
proof -
  obtain mt where scan: "receive_scan (peer_channels l) f ts (metrics l) w = (res, f', mt, w')"
    and l': "l' = l\<lparr>metrics := mt\<rparr>"
    using assms(3) by (auto simp: try_receive_def split: prod.splits)
  have ok: "chans_ok n w (peer_channels l)" "is_server l" using assms(1) by (auto simp: link_inv_def)
  from receive_refines [OF ok(1) assms(2) scan] obtain sres where
    "receive_spec (map (view_of w) (peer_channels l)) (metrics l) = (sres, map (view_of w') (peer_channels l), mt)"
    "received ts sres res f'" "chans_ok n w' (peer_channels l)" "wf_frame f'"
    by (auto simp: recv_sim_def)
  then show "\<exists>sres vs. receive_spec (v_peers (link_view (l, w))) (metrics l) = (sres, vs, metrics l')
      \<and> received ts sres res f' \<and> link_view (l', w') = (link_view (l, w))\<lparr>v_peers := vs, v_metrics := metrics l'\<rparr>"
    "link_inv n (l', w')" "wf_frame f'" "priority_drop_floor l' = priority_drop_floor l"
    using ok(2) by (simp_all add: l' link_view_def link_inv_def)
qed

section \<open>Properties of the shared-memory router\<close>

text \<open>The simulation, one call at a time.\<close>

lemma forward_refines:
  assumes "link_inv (kMaxRouteDests + n) s" "wf_frame f" "forward f ts rules s = (res, f', s')"
  shows "link_inv n s' \<and> wf_frame f' \<and>
    (\<exists>sres. forward_spec ts rules (link_view s) = (sres, link_view s')
      \<and> (case sres of Inl e \<Rightarrow> res = Inl e | Inr (fr, None) \<Rightarrow> res = Inr fr
         | Inr (fr, Some g) \<Rightarrow> res = Inr fr \<and> f' = g))"
proof -
  obtain l w where s: "s = (l, w)" by fastforce
  obtain r1 f1 l1 w1 where rcv: "try_receive f ts (l, w) = (r1, f1, (l1, w1))"
    by (metis prod_cases4)
  note ref = try_receive_refines [OF assms(1) [unfolded s] assms(2) rcv]
  from ref(1) obtain sres vs where sp:
    "receive_spec (v_peers (link_view s)) (v_metrics (link_view s)) = (sres, vs, metrics l1)"
    "received ts sres r1 f1"
    "link_view (l1, w1) = (link_view s)\<lparr>v_peers := vs, v_metrics := metrics l1\<rparr>"
    by (auto simp: s link_view_def)
  have inv1: "link_inv n (l1, w1)" by (rule link_inv_weaken [OF ref(2)])
  have srv: "is_server l" using assms(1) by (simp add: s link_inv_def)
  show ?thesis
  proof (cases sres)
    case (Inl e)
    then have "r1 = Inl e" using sp(2) by (simp add: received_def)
    then have "res = Inl e" "f' = f1" "s' = (l1, w1)"
      using assms(3) srv rcv by (simp_all add: forward_def s)
    then show ?thesis using Inl sp(1,3) inv1 ref(3) by (simp add: forward_spec_def)
  next
    case sr: (Inr o1)
    show ?thesis
    proof (cases o1)
      case None
      then have "r1 = Inr kEndpointInvalid" using sp(2) sr by (simp add: received_def)
      then have fin: "res = Inr ForwardResult_empty" "f' = f1"
        "s' = (l1\<lparr>metrics := (metrics l1)\<lparr>recv_empty := recv_empty (metrics l1) + 1\<rparr>\<rparr>, w1)"
        using assms(3) srv rcv by (simp_all add: forward_def s)
      have "link_inv n s'" using inv1 by (simp add: fin link_inv_def)
      moreover have "link_view s' = (link_view s)\<lparr>v_peers := vs,
          v_metrics := (metrics l1)\<lparr>recv_empty := recv_empty (metrics l1) + 1\<rparr>\<rparr>"
        using sp(3) by (simp add: fin link_view_def s)
      ultimately show ?thesis
        using sr None sp(1) ref(3) fin by (simp add: forward_spec_def)
    next
      case (Some px)
      obtain p x where px: "px = (p, x)" by fastforce
      have st: "r1 = Inr p" "p \<noteq> kEndpointInvalid" "f1 = stamp p ts x"
        using sp(2) sr Some px by (simp_all add: received_def)
      let ?tg = "route_targets_for rules p (topic_id f1)"
      let ?send = "send_to_peer (Buffer_read_only (bytes f1))"
      have len: "length (bytes f1) = kRouterFrameSize" using ref(3) by (simp add: wf_frame_def)
      obtain r2 s2 where fan: "fan_out ?send (targets_list ?tg) (l1, w1) = (r2, s2)"
        by (rule prod.exhaust)
      have "link_inv (length (targets_list ?tg) + n) (l1, w1)"
      proof (rule link_inv_weaken)
        show "link_inv (kMaxRouteDests - length (targets_list ?tg) + (length (targets_list ?tg) + n)) (l1, w1)"
          using ref(2) targets_at_most [of rules p "topic_id f1"] by (simp add: add.assoc)
      qed
      with len have budget: "length (bytes f1) = kRouterFrameSize \<and> link_inv (length (targets_list ?tg) + n) (l1, w1)"
        by simp
      have ref2: "fan_out (send_spec (bytes f1)) (targets_list ?tg) (link_view (l1, w1)) = (r2, link_view s2)"
        "link_inv n s2"
        using shm_send.fan_out_refines [OF budget fan] by simp_all
      have fin: "f' = f1" "s' = s2"
        "res = (case r2 of Inl e \<Rightarrow> Inl e | Inr _ \<Rightarrow> Inr \<lparr>fwd_source = p, fwd_targets = ?tg\<rparr>)"
        using assms(3) srv rcv st(1,2) fan
        by (auto simp: forward_def s frame_read_only_def Let_def split: sum.splits)
      have "forward_spec ts rules (link_view s)
          = (case r2 of Inl e \<Rightarrow> Inl e | Inr _ \<Rightarrow> Inr (\<lparr>fwd_source = p, fwd_targets = ?tg\<rparr>, Some f1), link_view s2)"
        using sp(1) sr Some px ref2(1) st(3) sp(3)
        by (cases r2) (simp_all add: forward_spec_def Let_def)
      then show ?thesis using fin ref2(2) ref(3) by (cases r2) auto
    qed
  qed
qed

text \<open>
  C1: \<open>forward\<close> implements the abstract router. On a bound server link the byte-level operation
  takes the first message of the first peer that has one, skips and counts short ones, stamps the
  frame with that peer's id and the given time, and appends it to the queue of every destination
  of the first matching rule that admits it; each refused copy is counted for its destination and
  priority. The result, the frame, the queues and all counters are those of \<open>forward_spec\<close>, and
  the invariant is kept. The counters of the rings must be able to advance by eight.
\<close>

theorem shm_forward_refines:
  assumes "link_inv (kMaxRouteDests + n) s" "wf_frame f" "forward f ts rules s = (res, f', s')"
  shows "link_inv n s' \<and> wf_frame f' \<and>
    (\<exists>sres. forward_spec ts rules (link_view s) = (sres, link_view s')
      \<and> (case sres of Inl e \<Rightarrow> res = Inl e | Inr (fr, None) \<Rightarrow> res = Inr fr
         | Inr (fr, Some g) \<Rightarrow> res = Inr fr \<and> f' = g))"
  by (rule forward_refines [OF assms])

section \<open>Binding the router\<close>

text \<open>No two names of the namespace share an object, and new objects are fresh.\<close>

definition world_ok :: "ShmWorld \<Rightarrow> bool" where
  "world_ok w \<longleftrightarrow> (\<forall>n k. ns w n = Some k \<longrightarrow> k < next_obj w)
     \<and> (\<forall>n n' k. ns w n = Some k \<longrightarrow> ns w n' = Some k \<longrightarrow> n = n')"

lemma shm_bind_world_ok:
  assumes "world_ok w" "shm_bind os p w = (res, w')"
  shows "world_ok w'"
proof -
  have "(ns w' = ns w \<and> next_obj w' = next_obj w)
    \<or> (ns w' = (ns w)(bp_name p := Some (next_obj w)) \<and> next_obj w' = Suc (next_obj w))"
    using assms(2) by (auto simp: shm_bind_def Let_def split: if_splits option.splits)
  then show ?thesis
    using assms(1) unfolding world_ok_def by (fastforce simp: less_Suc_eq split: if_splits)
qed

abbreviation is_shm :: "PeerEntry \<Rightarrow> bool" where
  "is_shm e \<equiv> kind (local_addr e) = ShmRing"

abbreviation ring_name :: "PeerEntry \<Rightarrow> string" where
  "ring_name e \<equiv> shm_name (local_addr e)"

text \<open>Ring sizes a region can be laid out with and that hold a frame.\<close>

definition ring_sizes_ok :: "PeerEntry \<Rightarrow> bool" where
  "ring_sizes_ok e \<longleftrightarrow> bind_ok (peer_bind_params e True)
     \<and> kRouterFrameSize \<le> bp_max_payload (peer_bind_params e True)"

definition fresh_chan :: "ShmWorld \<Rightarrow> PeerChannel \<Rightarrow> bool" where
  "fresh_chan w c \<longleftrightarrow> chan_ok w c \<and> in_q w c = [] \<and> out_q w c = [] \<and> in_pos w c = 0
     \<and> out_pos w c = 0 \<and> \<not> congested c"

lemma peer_bind_params_simps [simp]:
  "bp_name (peer_bind_params e b) = ring_name e" "bp_create (peer_bind_params e b) = b"
  by (simp_all add: peer_bind_params_def Let_def)

lemma fresh_cong:
  assumes "mem_of w' (region_of c) = mem_of w (region_of c)"
  shows "fresh_chan w' c = fresh_chan w c"
  using chan_cong [OF assms] assms by (simp add: fresh_chan_def in_q_def out_q_def in_pos_def)

definition made_for :: "PeerEntry \<Rightarrow> ShmRegion \<Rightarrow> bool" where
  "made_for e r \<longleftrightarrow> slot_count r = bp_slot_count (peer_bind_params e True)
     \<and> max_payload r = bp_max_payload (peer_bind_params e True) \<and> name r = ring_name e \<and> is_creator r"

lemma bind_one:
  assumes "is_shm e" "shm_os_ok os" "ring_sizes_ok e"
  obtains r w1 where "bind_shm_endpoint os e True w = (Inr r, w1)"
    "shm_bind os (peer_bind_params e True) w = (Inr r, w1)"
    "ns w1 (ring_name e) = Some (obj r)" "\<And>n. n \<noteq> ring_name e \<Longrightarrow> ns w1 n = ns w n"
    "\<And>k. k \<noteq> obj r \<Longrightarrow> objs w1 k = objs w k" "made_for e r"
    "fresh_chan w1 \<lparr>chan_peer_id = peer_id e, chan_endpoint = Some r, congested = False\<rparr>"
proof -
  let ?p = "peer_bind_params e True"
  have ok: "bp_create ?p" "bind_ok ?p" "kRouterFrameSize \<le> bp_max_payload ?p"
    using assms(3) by (simp_all add: ring_sizes_ok_def)
  from bind_create [OF assms(2) ok(1,2), of w] obtain r w1 where r:
    "shm_bind os ?p w = (Inr r, w1)" "shm_map_layout r = r" "slot_count r = bp_slot_count ?p"
    "max_payload r = bp_max_payload ?p" "is_server_role r" "ns w1 (bp_name ?p) = Some (obj r)"
    "objs w1 (obj r) = replicate (64 + 2 * slot_count r * (4 + max_payload r)) 0"
    "\<And>n. n \<noteq> bp_name ?p \<Longrightarrow> ns w1 n = ns w n" "\<And>k. k \<noteq> obj r \<Longrightarrow> objs w1 k = objs w k"
    "name r = bp_name ?p" "is_creator r"
    by metis
  have dims: "0 < slot_count r" "max_payload r < 2 ^ 32" "64 + 2 * slot_count r * (4 + max_payload r) < 2 ^ 64"
    using ok(2) r(3,4) by (simp_all add: bind_ok_def)
  note z = zero_region_inv [OF r(2) dims r(7)]
  have "region_inv r (mem_of w1 r)" "ring_items (req_ring r) (mem_of w1 r) = []"
    "ring_items (rep_ring r) (mem_of w1 r) = []" "hd_pos (rep_ring r) (mem_of w1 r) = 0"
    "hd_pos (req_ring r) (mem_of w1 r) = 0"
    using z(1) z(2) [of False] z(2) [of True] z(3) [of True] z(3) [of False] by (simp_all add: dir_ring_def)
  then have "fresh_chan w1 \<lparr>chan_peer_id = peer_id e, chan_endpoint = Some r, congested = False\<rparr>"
    using r(4,5) ok(3)
    by (simp add: fresh_chan_def chan_ok_def region_of_def in_q_def out_q_def in_pos_def out_pos_def)
  then show ?thesis
    using that [of r w1] r(1,3,4,6,8,9,10,11) assms(1)
    by (simp add: bind_shm_endpoint_def ep_bind_def made_for_def)
qed

definition bound_to :: "ShmWorld \<Rightarrow> PeerEntry list \<Rightarrow> PeerChannel list \<Rightarrow> bool" where
  "bound_to w es cs \<longleftrightarrow>
     list_all2 (\<lambda>e c. chan_peer_id c = peer_id e \<and> ns w (ring_name e) = Some (chan_obj c)
       \<and> made_for e (region_of c)) es cs"

lemma bound_to_apart:
  assumes "world_ok w" "bound_to w es cs" "ns w n = Some k" "n \<notin> ring_name ` set es"
  shows "k \<notin> chan_obj ` set cs"
proof
  assume "k \<in> chan_obj ` set cs"
  then obtain c where c: "c \<in> set cs" "k = chan_obj c" by blast
  then obtain i where i: "i < length cs" "cs ! i = c" by (metis in_set_conv_nth)
  then have "i < length es" "ns w (ring_name (es ! i)) = Some k"
    using assms(2) c(2) by (auto simp: bound_to_def list_all2_conv_all_nth)
  then have "n = ring_name (es ! i)" using assms(1,3) unfolding world_ok_def by blast
  then show False using assms(4) \<open>i < length es\<close> by simp
qed

lemma bound_to_distinct:
  "world_ok w \<Longrightarrow> bound_to w es cs \<Longrightarrow> distinct (map ring_name es) \<Longrightarrow> distinct (map chan_obj cs)"
proof (induction cs arbitrary: es)
  case (Cons c cs)
  then obtain e es' where es: "es = e # es'" "ns w (ring_name e) = Some (chan_obj c)" "bound_to w es' cs"
    by (auto simp: bound_to_def list_all2_Cons2)
  then show ?case
    using Cons.IH [of es'] Cons.prems bound_to_apart [OF Cons.prems(1) es(3,2)] by auto
qed simp

lemma bind_channels_ok:
  assumes "world_ok w" "\<And>n. shm_os_ok (os n)" "\<forall>e\<in>set es. is_shm e \<longrightarrow> ring_sizes_ok e"
    "distinct (map ring_name (filter is_shm es))"
  shows "\<exists>cs w'. bind_channels os es w = (Inr (), cs, w') \<and> world_ok w'
    \<and> bound_to w' (filter is_shm es) cs \<and> (\<forall>c\<in>set cs. fresh_chan w' c)
    \<and> (\<forall>n. n \<notin> ring_name ` set (filter is_shm es) \<longrightarrow> ns w' n = ns w n)
    \<and> (\<forall>k. k \<notin> chan_obj ` set cs \<longrightarrow> objs w' k = objs w k)"
  using assms
proof (induction es arbitrary: w)
  case Nil
  then show ?case by (simp add: bound_to_def)
next
  case (Cons e es)
  show ?case
  proof (cases "is_shm e")
    case False
    then show ?thesis using Cons.IH [OF Cons.prems(1,2)] Cons.prems(3,4) by simp
  next
    case True
    have "ring_sizes_ok e" using Cons.prems(3) True by simp
    from bind_one [OF True Cons.prems(2) this, of "ring_name e" w] obtain r w1 where r:
      "bind_shm_endpoint (os (ring_name e)) e True w = (Inr r, w1)"
      "shm_bind (os (ring_name e)) (peer_bind_params e True) w = (Inr r, w1)"
      "ns w1 (ring_name e) = Some (obj r)" "\<And>n. n \<noteq> ring_name e \<Longrightarrow> ns w1 n = ns w n"
      "\<And>k. k \<noteq> obj r \<Longrightarrow> objs w1 k = objs w k" "made_for e r"
      "fresh_chan w1 \<lparr>chan_peer_id = peer_id e, chan_endpoint = Some r, congested = False\<rparr>"
      by blast
    define c where "c = \<lparr>chan_peer_id = peer_id e, chan_endpoint = Some r, congested = False\<rparr>"
    have c: "region_of c = r" "chan_peer_id c = peer_id e" by (simp_all add: c_def region_of_def)
    have w1: "world_ok w1" by (rule shm_bind_world_ok [OF Cons.prems(1) r(2)])
    have "ring_name e \<notin> ring_name ` set (filter is_shm es)" using Cons.prems(4) True by simp
    note new = this
    from Cons.IH [OF w1 Cons.prems(2)] Cons.prems(3,4) True obtain cs w' where IH:
      "bind_channels os es w1 = (Inr (), cs, w')" "world_ok w'" "bound_to w' (filter is_shm es) cs"
      "\<forall>d\<in>set cs. fresh_chan w' d"
      "\<And>n. n \<notin> ring_name ` set (filter is_shm es) \<Longrightarrow> ns w' n = ns w1 n"
      "\<And>k. k \<notin> chan_obj ` set cs \<Longrightarrow> objs w' k = objs w1 k"
      by auto
    have nsr: "ns w' (ring_name e) = Some (chan_obj c)" using IH(5) [OF new] r(3) c(1) by simp
    have apart: "chan_obj c \<notin> chan_obj ` set cs" by (rule bound_to_apart [OF IH(2,3) nsr new])
    have "fresh_chan w' c" using fresh_cong [of w' c w1] IH(6) [OF apart] r(7) by (simp add: c_def)
    moreover have "bind_channels os (e # es) w = (Inr (), c # cs, w')"
      using True r(1) IH(1) by (simp add: c_def)
    moreover have "bound_to w' (filter is_shm (e # es)) (c # cs)"
      using True IH(3) nsr c r(6) by (simp add: bound_to_def)
    moreover have "ns w' n = ns w n" if "n \<notin> ring_name ` set (filter is_shm (e # es))" for n
      using that IH(5) [of n] r(4) [of n] True by simp
    moreover have "objs w' k = objs w k" if "k \<notin> chan_obj ` set (c # cs)" for k
      using that IH(6) [of k] r(5) [of k] c(1) by simp
    ultimately show ?thesis using IH(2,4) by auto
  qed
qed

text \<open>The requirements on a topology and a link under which the router can be brought up.\<close>

definition shm_topology_ok :: "RouterTopology \<Rightarrow> bool" where
  "shm_topology_ok t \<longleftrightarrow> filter is_shm (peers t) \<noteq> []
     \<and> (\<forall>e\<in>set (peers t). is_shm e \<longrightarrow> ring_sizes_ok e \<and> peer_id e \<noteq> kEndpointInvalid)
     \<and> distinct (map ring_name (filter is_shm (peers t)))
     \<and> distinct (map peer_id (filter is_shm (peers t)))"

lemma bound_to_ids: "bound_to w es cs \<Longrightarrow> map chan_peer_id cs = map peer_id es"
  by (auto simp: bound_to_def list_all2_conv_all_nth intro: nth_equalityI)

lemma bind_router_ok:
  assumes "world_ok w" "\<And>n. shm_os_ok (os n)" "shm_topology_ok t" "budget < 2 ^ 64"
  shows "\<exists>l w'. bind_router os p (ShmRouterLink_server t, w) = (Inr (), (l, w'))
    \<and> link_inv budget (l, w') \<and> world_ok w'
    \<and> map chan_peer_id (peer_channels l) = map peer_id (filter is_shm (peers t))
    \<and> bound_to w' (filter is_shm (peers t)) (peer_channels l)
    \<and> list_all (fresh_chan w') (peer_channels l)
    \<and> metrics l = ShmRouterMetrics_zero \<and> priority_drop_floor l = 0
    \<and> (\<forall>n. n \<notin> ring_name ` set (filter is_shm (peers t)) \<longrightarrow> ns w' n = ns w n)"
proof -
  have t: "filter is_shm (peers t) \<noteq> []" "\<forall>e\<in>set (peers t). is_shm e \<longrightarrow> ring_sizes_ok e"
    "distinct (map ring_name (filter is_shm (peers t)))" "distinct (map peer_id (filter is_shm (peers t)))"
    "\<forall>e\<in>set (filter is_shm (peers t)). peer_id e \<noteq> kEndpointInvalid"
    using assms(3) by (auto simp: shm_topology_ok_def)
  obtain cs w' where cs:
    "bind_channels os (peers t) w = (Inr (), cs, w')" "world_ok w'" "bound_to w' (filter is_shm (peers t)) cs"
    "\<forall>c\<in>set cs. fresh_chan w' c"
    "\<forall>n. n \<notin> ring_name ` set (filter is_shm (peers t)) \<longrightarrow> ns w' n = ns w n"
    using bind_channels_ok [where os = os, OF assms(1) assms(2) t(2,3)] by (elim exE conjE) (rule that)
  let ?l = "(ShmRouterLink_server t)\<lparr>peer_channels := cs\<rparr>"
  note ids = bound_to_ids [OF cs(3)]
  have nz: "\<forall>c\<in>set cs. chan_peer_id c \<noteq> kEndpointInvalid"
  proof
    fix c assume "c \<in> set cs"
    then have "chan_peer_id c \<in> set (map chan_peer_id cs)" by simp
    then obtain e where "e \<in> set (filter is_shm (peers t))" "chan_peer_id c = peer_id e"
      unfolding ids by auto
    then show "chan_peer_id c \<noteq> kEndpointInvalid" using t(5) by metis
  qed
  have "cs \<noteq> []" using ids t(1) by auto
  then have "bind_router os p (ShmRouterLink_server t, w) = (Inr (), (?l, w'))"
    using cs(1) by (simp add: bind_router_def ShmRouterLink_server_def ShmRouterLink_new_def)
  moreover have "link_inv budget (?l, w')"
    using cs(4) nz bound_to_distinct [OF cs(2,3) t(3)] t(4) [folded ids] assms(4)
    by (simp add: link_inv_def chans_ok_def fresh_chan_def ShmRouterLink_server_def ShmRouterLink_new_def)
  moreover have "list_all (fresh_chan w') cs"
    using cs(4) by (simp add: list_all_iff)
  moreover have "metrics ?l = ShmRouterMetrics_zero" "peer_channels ?l = cs" "priority_drop_floor ?l = 0"
    by (simp_all add: ShmRouterLink_server_def ShmRouterLink_new_def)
  ultimately show ?thesis using cs(2,3,5) ids by (intro exI [of _ ?l] exI [of _ w']) simp
qed

text \<open>Two shared-memory peers, the second with rings of its own size.\<close>

definition demo_topology :: RouterTopology where
  "demo_topology = \<lparr>peers =
     [\<lparr>peer_id = 1, peer_name = ''sensor'', local_addr = peer_shm ''/rim_sensor'', shm_slot_count = 0, shm_max_payload = 0\<rparr>,
      \<lparr>peer_id = 2, peer_name = ''logger'', local_addr = peer_shm ''/rim_logger'', shm_slot_count = 4, shm_max_payload = 64\<rparr>],
     router_listen = peer_shm ''/rim_router'', topics = [], listen_uds = None, listen_udp = None\<rparr>"

abbreviation (input) os_all_ok :: ShmOs where
  "os_all_ok \<equiv> \<lparr>shm_open_ok = True, ftruncate_ok = True, mmap_ok = True\<rparr>"

lemma demo_topology_ok: "shm_topology_ok demo_topology"
  by (simp add: shm_topology_ok_def demo_topology_def ring_sizes_ok_def peer_bind_params_def
      ShmBindParams_default_def bind_ok_def kRouterFrameSize_def kEndpointInvalid_def Let_def)

lemma world_ok_empty: "world_ok empty_world"
  by (simp add: world_ok_def empty_world_def)

text \<open>A client link that has joined the region of a router's channel.\<close>

definition client_of :: "PeerChannel \<Rightarrow> ShmRouterLink \<Rightarrow> bool" where
  "client_of c cl \<longleftrightarrow> \<not> is_server cl \<and> link_endpoint cl \<noteq> None
     \<and> (let r = the (link_endpoint cl)
        in obj r = chan_obj c \<and> \<not> is_server_role r \<and> req_ring r = req_ring (region_of c)
           \<and> rep_ring r = rep_ring (region_of c) \<and> region_geom r = region_geom (region_of c))"

lemma client_joins:
  assumes "shm_os_ok os" "peer_by_id t pid = Some e" "is_shm e" "ns w (ring_name e) = Some (chan_obj c)"
    "made_for e (region_of c)" "chan_ok w c"
  shows "\<exists>cl. ShmRouterLink_client os t pid w = (Inr cl, w) \<and> client_of c cl \<and> topo cl = t"
proof -
  let ?p = "peer_bind_params e False" and ?r = "region_of c"
  have "\<not> bp_create ?p" "ns w (bp_name ?p) = Some (chan_obj c)" using assms(4) by simp_all
  from bind_join [OF assms(1) this] obtain r where r: "shm_bind os ?p w = (Inr r, w)"
    "shm_map_layout r = r" "obj r = chan_obj c" "slot_count r = bp_slot_count ?p"
    "max_payload r = bp_max_payload ?p" "\<not> is_server_role r" by metis
  have dims: "slot_count r = slot_count ?r" "max_payload r = max_payload ?r"
    using r(4,5) assms(5) by (simp_all add: made_for_def peer_bind_params_def Let_def)
  have lay: "shm_map_layout ?r = ?r" using assms(6) by (simp add: chan_ok_def region_inv_def region_geom_def)
  have "req_ring r = req_ring ?r" "rep_ring r = rep_ring ?r"
    using map_layout_fields [OF r(2)] map_layout_fields [OF lay] dims
    by (simp_all add: req_ring_def rep_ring_def)
  moreover have "region_geom r = region_geom ?r"
    using dims lay r(2) by (auto simp: region_geom_def)
  ultimately show ?thesis
    using assms(2,3) r(1,3,6)
    by (simp add: ShmRouterLink_client_def bind_peer_def ShmRouterLink_new_def bind_shm_endpoint_def
        ep_bind_def client_of_def)
qed

text \<open>Every client of a bound router's topology joins its own channel.\<close>

lemma clients_join:
  assumes "shm_os_ok os" "distinct (map peer_id (peers t))" "bound_to w (filter is_shm (peers t)) cs"
    "chans_ok n w cs" "c \<in> set cs"
  shows "\<exists>cl. ShmRouterLink_client os t (chan_peer_id c) w = (Inr cl, w) \<and> client_of c cl \<and> topo cl = t"
proof -
  from assms(5) obtain i where i: "i < length cs" "cs ! i = c" by (metis in_set_conv_nth)
  let ?e = "filter is_shm (peers t) ! i"
  have e: "chan_peer_id c = peer_id ?e" "ns w (ring_name ?e) = Some (chan_obj c)" "made_for ?e (region_of c)"
    "i < length (filter is_shm (peers t))"
    using assms(3) i by (auto simp: bound_to_def list_all2_conv_all_nth)
  have "?e \<in> set (filter is_shm (peers t))" by (rule nth_mem [OF e(4)])
  then have "?e \<in> set (peers t)" "is_shm ?e" by auto
  moreover from this have "peer_by_id t (chan_peer_id c) = Some ?e"
    using peer_tbl.lookup_complete [OF assms(2)] e(1) by simp
  moreover have "chan_ok w c" using assms(4,5) by (simp add: chans_ok_def)
  ultimately show ?thesis using client_joins [OF assms(1) _ _ e(2,3)] by blast
qed

text \<open>
  Bringing up a shared-memory router and its peers. If the topology has shared-memory peers
  with distinct ids and names and admissible ring sizes, \<open>bind_router\<close> on a new server link
  succeeds: the link has one channel per such peer, in order, every ring is empty and nobody is
  congested, and the link invariant holds with any budget of sends below \<open>2 ^ 64\<close>. A client of
  any of these peers that starts afterwards maps the rings of its own channel and changes
  nothing. Names of other objects are untouched.
\<close>

lemma bind_router_establishes:
  assumes "world_ok w" "\<And>n. shm_os_ok (os n)" "shm_topology_ok t" "budget < 2 ^ 64"
    "distinct (map peer_id (peers t))"
  shows "\<exists>l w'. bind_router os p (ShmRouterLink_server t, w) = (Inr (), (l, w'))
    \<and> link_inv budget (l, w')
    \<and> map chan_peer_id (peer_channels l) = map peer_id (filter is_shm (peers t))
    \<and> list_all (\<lambda>c. in_q w' c = [] \<and> out_q w' c = [] \<and> \<not> congested c) (peer_channels l)
    \<and> list_all (\<lambda>c. \<exists>cl. ShmRouterLink_client (os []) t (chan_peer_id c) w' = (Inr cl, w') \<and> client_of c cl)
        (peer_channels l)
    \<and> (\<forall>n. n \<notin> ring_name ` set (filter is_shm (peers t)) \<longrightarrow> ns w' n = ns w n)"
proof -
  obtain l w' where l: "bind_router os p (ShmRouterLink_server t, w) = (Inr (), (l, w'))"
    "link_inv budget (l, w')" "map chan_peer_id (peer_channels l) = map peer_id (filter is_shm (peers t))"
    "bound_to w' (filter is_shm (peers t)) (peer_channels l)"
    "list_all (fresh_chan w') (peer_channels l)"
    "\<forall>n. n \<notin> ring_name ` set (filter is_shm (peers t)) \<longrightarrow> ns w' n = ns w n"
    using bind_router_ok [where os = os and p = p, OF assms(1-4)] by (elim exE conjE) (rule that)
  have ch: "chans_ok budget w' (peer_channels l)" using l(2) by (simp add: link_inv_def)
  have "list_all (\<lambda>c. \<exists>cl. ShmRouterLink_client (os []) t (chan_peer_id c) w' = (Inr cl, w')
      \<and> client_of c cl) (peer_channels l)"
    using clients_join [OF assms(2,5) l(4) ch] unfolding list_all_iff by blast
  moreover have "list_all (\<lambda>c. in_q w' c = [] \<and> out_q w' c = [] \<and> \<not> congested c) (peer_channels l)"
    using l(5) by (auto simp: list_all_iff fresh_chan_def)
  ultimately show ?thesis using l(1,2,3,6) by (intro exI [of _ l] exI [of _ w']) simp
qed

lemma bind_router_establishes_witness:
  "\<exists>l w'. bind_router (\<lambda>_. os_all_ok) ShmBindParams_default (ShmRouterLink_server demo_topology, empty_world)
      = (Inr (), (l, w')) \<and> link_inv 100 (l, w')
    \<and> map chan_peer_id (peer_channels l) = [1, 2]"
proof -
  have ids: "map peer_id (filter is_shm (peers demo_topology)) = [1, 2]"
    "distinct (map peer_id (peers demo_topology))"
    by (simp_all add: demo_topology_def)
  have os: "shm_os_ok os_all_ok" by simp
  have "(100::nat) < 2 ^ 64" by simp
  from bind_router_establishes [where os = "\<lambda>_. os_all_ok" and p = ShmBindParams_default,
      OF world_ok_empty os demo_topology_ok this ids(2)]
  show ?thesis unfolding ids(1) by (elim exE conjE) (intro exI conjI)
qed

section \<open>Clients\<close>

lemma client_region:
  assumes "client_of c cl"
  obtains r where "link_endpoint cl = Some r" "obj r = chan_obj c" "tx_ring r = req_ring (region_of c)"
    "rx_ring r = rep_ring (region_of c)" "\<not> is_server cl"
  using assms by (auto simp: client_of_def Let_def tx_ring_def rx_ring_def)

text \<open>A client's send with room in its ring appends the frame to what waits for the router.\<close>

lemma client_send:
  assumes "client_of c cl" "chan_ok w c" "wf_frame f" "length (in_q w c) < slot_count (region_of c)"
    "in_pos w c + 1 < 2 ^ 64"
  obtains m where "send_to_router env f (cl, w) = Some (Inr (), (cl, put_mem (region_of c) m w))"
    "chan_ok (put_mem (region_of c) m w) c" "in_q (put_mem (region_of c) m w) c = in_q w c @ [bytes f]"
    "out_q (put_mem (region_of c) m w) c = out_q w c"
    "out_pos (put_mem (region_of c) m w) c = out_pos w c"
    "in_pos (put_mem (region_of c) m w) c = in_pos w c + 1"
proof -
  let ?r = "region_of c"
  from assms(1) obtain r where r: "link_endpoint cl = Some r" "obj r = chan_obj c"
    "tx_ring r = req_ring ?r" "\<not> is_server cl" by (rule client_region)
  have ok: "is_server_role ?r" "region_inv ?r (mem_of w ?r)" "kRouterFrameSize \<le> max_payload ?r"
    "chan_endpoint c \<noteq> None" using assms(2) by (simp_all add: chan_ok_def)
  have room: "length (ring_items (req_ring ?r) (mem_of w ?r)) < slot_count ?r"
    "hd_pos (req_ring ?r) (mem_of w ?r) + 1 < 2 ^ 64"
    using assms(4,5) by (simp_all only: in_q_def in_pos_def)
  from region_push [OF ok(2) opposite_rings(1) buffer_ok_views(1) room, of "bytes f"]
  obtain m where m: "shm_try_push_slot (req_ring ?r) (Buffer_read_only (bytes f)) (mem_of w ?r) = (True, m)"
    "region_inv ?r m" "ring_items (rep_ring ?r) m = ring_items (rep_ring ?r) (mem_of w ?r)"
    "ring_items (req_ring ?r) m = ring_items (req_ring ?r) (mem_of w ?r)
       @ [clip (req_ring ?r) (Buffer_read_only (bytes f))]"
    "hd_pos (rep_ring ?r) m = hd_pos (rep_ring ?r) (mem_of w ?r)"
    "hd_pos (req_ring ?r) m = hd_pos (req_ring ?r) (mem_of w ?r) + 1"
    by metis
  have clip: "clip (req_ring ?r) (Buffer_read_only (bytes f)) = bytes f"
    using ok(3) assms(3) by (simp add: clip_def req_ring_def wf_frame_def)
  have "shm_push_slot env 0 (req_ring ?r) (Buffer_read_only (bytes f)) (mem_of w ?r) = Some m"
    using m(1) by (simp add: shm_push_slot.simps)
  moreover have "put_mem r m w = put_mem ?r m w" using r(2) by (simp add: put_mem_def)
  ultimately have "send_to_router env f (cl, w) = Some (Inr (), (cl, put_mem ?r m w))"
    using r by (simp add: send_to_router_def send_shm_buffer_def ep_send_def ShmSpsc_send_def frame_read_only_def)
  then show ?thesis
    by (rule that) (use m clip ok in \<open>simp_all add: chan_ok_def in_q_def out_q_def in_pos_def out_pos_def\<close>)
qed

text \<open>A client's receive takes the first frame that waits for it.\<close>

lemma client_recv:
  assumes "client_of c cl" "chan_ok w c" "wf_frame f" "out_q w c = x # xs" "length x = kRouterFrameSize"
  obtains m where "recv_message f (cl, w) = (Inr True, \<lparr>bytes = x\<rparr>, (cl, put_mem (region_of c) m w))"
    "chan_ok (put_mem (region_of c) m w) c" "out_q (put_mem (region_of c) m w) c = xs"
    "in_q (put_mem (region_of c) m w) c = in_q w c"
    "out_pos (put_mem (region_of c) m w) c = out_pos w c" "in_pos (put_mem (region_of c) m w) c = in_pos w c"
proof -
  let ?r = "region_of c" and ?b = "frame_writable f"
  from assms(1) obtain r where r: "link_endpoint cl = Some r" "obj r = chan_obj c"
    "rx_ring r = rep_ring ?r" "\<not> is_server cl" by (rule client_region)
  have ok: "is_server_role ?r" "region_inv ?r (mem_of w ?r)" "kRouterFrameSize \<le> max_payload ?r"
    "chan_endpoint c \<noteq> None" using assms(2) by (simp_all add: chan_ok_def)
  have b: "buffer_ok ?b" "length x \<le> capacity ?b" "data ?b = bytes f" "length (bytes f) = kRouterFrameSize"
    using assms(3,5) by (simp_all add: frame_writable_def Buffer_writable_def buffer_ok_def wf_frame_def)
  have "ring_items (rep_ring ?r) (mem_of w ?r) = x # xs" using assms(4) by (simp add: out_q_def)
  from region_pop [OF ok(2) opposite_rings(2) this b(1,2)]
  obtain b' m where m: "shm_try_pop_slot (rep_ring ?r) ?b (mem_of w ?r) = Inr (True, b', m)"
    "region_inv ?r m" "ring_items (rep_ring ?r) m = xs" "buf_size b' = length x"
    "data b' = x @ drop (length x) (data ?b)"
    "ring_items (req_ring ?r) m = ring_items (req_ring ?r) (mem_of w ?r)"
    "hd_pos (req_ring ?r) m = hd_pos (req_ring ?r) (mem_of w ?r)"
    "hd_pos (rep_ring ?r) m = hd_pos (rep_ring ?r) (mem_of w ?r)"
    by metis
  have "data b' = x" using m(5) b(3,4) assms(5) by simp
  moreover have "put_mem r m w = put_mem ?r m w" using r(2) by (simp add: put_mem_def)
  ultimately have "recv_message f (cl, w) = (Inr True, \<lparr>bytes = x\<rparr>, (cl, put_mem ?r m w))"
    using r m(1,4) assms(5)
    by (simp add: recv_message_def ep_try_recv_def ShmSpsc_try_recv_def frame_of_buffer_def)
  then show ?thesis
    by (rule that) (use m ok in \<open>simp_all add: chan_ok_def in_q_def out_q_def in_pos_def out_pos_def\<close>)
qed

lemma client_recv_empty:
  assumes "client_of c cl" "chan_ok w c" "out_q w c = []"
  shows "recv_message f (cl, w) = (Inr False, f, (cl, w))"
proof -
  let ?r = "region_of c" and ?b = "frame_writable f"
  from assms(1) obtain r where r: "link_endpoint cl = Some r" "obj r = chan_obj c"
    "rx_ring r = rep_ring ?r" "\<not> is_server cl" by (rule client_region)
  have "shm_try_pop_slot (rep_ring ?r) ?b (mem_of w ?r) = Inr (False, ?b, mem_of w ?r)"
    by (rule pop_empty) (use assms(2,3) in \<open>auto simp: chan_ok_def region_inv_def out_q_def\<close>)
  moreover have "put_mem r (mem_of w ?r) w = w" using r(2) by (simp add: put_mem_def)
  moreover have "frame_of_buffer ?b = f" "buf_size ?b = 0"
    by (simp_all add: frame_writable_def Buffer_writable_def frame_of_buffer_def)
  ultimately show ?thesis
    using r by (simp add: recv_message_def ep_try_recv_def ShmSpsc_try_recv_def kRouterFrameSize_def)
qed

text \<open>While nobody else moves, a send that returns found room.\<close>

lemma client_sent:
  assumes "client_of c cl" "chan_ok w c" "send_to_router (\<lambda>_ m. m) f (cl, w) = Some (Inr (), s)"
  shows "length (in_q w c) < slot_count (region_of c)"
proof (rule ccontr)
  let ?r = "region_of c"
  assume full: "\<not> length (in_q w c) < slot_count ?r"
  from assms(1) obtain r where r: "link_endpoint cl = Some r" "obj r = chan_obj c"
    "tx_ring r = req_ring ?r" "\<not> is_server cl" by (rule client_region)
  have "ring_inv (req_ring ?r) (mem_of w ?r)" using assms(2) by (simp add: chan_ok_def region_inv_def)
  moreover from this full have "length (ring_items (req_ring ?r) (mem_of w ?r)) = ring_count (req_ring ?r)"
    unfolding in_q_def by (simp add: ring_inv_def req_ring_def)
  ultimately have reject: "shm_try_push_slot (req_ring ?r) pl (mem_of w ?r) = (False, mem_of w ?r)" for pl
    by (rule push_rejects)
  have still: "spin (\<lambda>_ m. m) j k m = m" for j k and m :: bytes
    by (induction k arbitrary: j) simp_all
  have "\<exists>m'. shm_push_slot (\<lambda>_ m. m) 0 (req_ring ?r) (frame_read_only f) (mem_of w ?r) = Some m'"
    using assms(3) r
    by (auto simp: send_to_router_def send_shm_buffer_def ep_send_def ShmSpsc_send_def split: option.splits)
  then show False using push_slot_returned [of "\<lambda>_ m. m" 0 "req_ring ?r"] reject still by fastforce
qed

section \<open>Drop accounting\<close>

text \<open>Every drop is counted once in total, once for its destination and once for its priority.\<close>

definition metrics_ok :: "ShmRouterMetrics \<Rightarrow> bool" where
  "metrics_ok mt \<longleftrightarrow> length (dropped_full_per_peer mt) = kPerPeerMetricsSlots
     \<and> length (dropped_by_priority mt) = kPriorityLevels
     \<and> sum_list (dropped_full_per_peer mt) = dropped_full mt
     \<and> sum_list (dropped_by_priority mt) = dropped_full mt"

lemma priority_of_flags_small: "unat (priority_of_flags b) < kPriorityLevels"
  using priority_bits [of b] by (simp add: kPriorityLevels_def)

lemma metrics_ok_zero: "metrics_ok ShmRouterMetrics_zero"
  by (simp add: metrics_ok_def ShmRouterMetrics_zero_def sum_list_replicate)

lemma metrics_ok_updates [simp]:
  "metrics_ok (mt\<lparr>forwarded := a\<rparr>) = metrics_ok mt"
  "metrics_ok (mt\<lparr>recv_empty := b\<rparr>) = metrics_ok mt"
  "metrics_ok (mt\<lparr>recv_truncated := c\<rparr>) = metrics_ok mt"
  by (simp_all add: metrics_ok_def)

lemma metrics_ok_drop:
  assumes "metrics_ok mt" "unat prio < kPriorityLevels"
  shows "metrics_ok (record_drop dst prio mt)"
proof -
  have "unat dst < length (dropped_full_per_peer mt)"
    using assms(1) unsigned_less [of dst] by (simp add: metrics_ok_def kPerPeerMetricsSlots_def)
  then show ?thesis
    using assms by (simp add: metrics_ok_def record_drop_def sum_list_bump_at)
qed

lemma priority_from_frame_small: "unat (priority_from_frame pl) < kPriorityLevels"
  using priority_of_flags_small by (simp add: priority_from_frame_def kPriorityLevels_def)

lemma metrics_ok_send:
  "metrics_ok mt \<Longrightarrow> send_scan floor dst pl cs mt w = (res, cs', mt', w') \<Longrightarrow> metrics_ok mt'"
proof (induction cs arbitrary: cs')
  case (Cons c cs)
  then show ?case
    using metrics_ok_drop [OF Cons.prems(1) priority_from_frame_small]
    by (auto simp: Let_def split: if_splits sum.splits prod.splits)
qed simp

lemma metrics_ok_receive:
  "metrics_ok mt \<Longrightarrow> receive_scan cs f ts mt w = (res, f', mt', w') \<Longrightarrow> metrics_ok mt'"
proof (induction cs arbitrary: f mt w)
  case (Cons c cs)
  then show ?case
    by (auto simp: Let_def split: if_splits sum.splits prod.splits dest!: Cons.IH [rotated])
qed simp

text \<open>What can happen to a server link: its operations, and other processes in between.\<close>

inductive link_step :: "shm_link_state \<Rightarrow> shm_link_state \<Rightarrow> bool" where
  step_bind: "bind_router os p s = (r, s') \<Longrightarrow> link_step s s'"
| step_recv: "try_receive f ts s = (r, f', s') \<Longrightarrow> link_step s s'"
| step_send: "send_to_peer pl d s = (r, s') \<Longrightarrow> link_step s s'"
| step_forward: "forward f ts rules s = (r, f', s') \<Longrightarrow> link_step s s'"
| step_floor: "link_step (l, w) (set_priority_drop_floor fl l, w)"
| step_others: "link_step (l, w) (l, w')"

abbreviation acct :: "shm_link_state \<Rightarrow> bool" where
  "acct s \<equiv> metrics_ok (metrics (fst s))"

lemma acct_send: "acct s \<Longrightarrow> acct (snd (send_to_peer pl d s))"
  using metrics_ok_send by (fastforce simp: send_to_peer_def split: prod.splits)

lemma acct_recv: "acct s \<Longrightarrow> try_receive f ts s = (r, f', s') \<Longrightarrow> acct s'"
  using metrics_ok_receive by (fastforce simp: try_receive_def split: prod.splits)

lemma acct_forward:
  assumes "acct s" "forward f ts rules s = (r, f', s')"
  shows "acct s'"
proof -
  obtain r1 f1 l1 w1 where rcv: "try_receive f ts s = (r1, f1, (l1, w1))" by (metis prod_cases4)
  have "acct (l1, w1)" by (rule acct_recv [OF assms(1) rcv])
  moreover from this have "acct (snd (fan_out (send_to_peer pl) ds (l1, w1)))" for pl ds
    by (intro fan_out_invariant [where I = acct]) (rule acct_send)
  ultimately show ?thesis
    using assms rcv by (auto simp: forward_def Let_def split: if_splits sum.splits prod.splits) (metis fst_conv snd_conv)+
qed

lemma acct_bind: "bind_router os p s = (r, s') \<Longrightarrow> metrics (fst s') = metrics (fst s)"
  by (auto simp: bind_router_def Let_def split: if_splits sum.splits prod.splits)

lemma acct_step: "link_step s s' \<Longrightarrow> acct s \<Longrightarrow> acct s'"
proof (induction rule: link_step.induct)
  case (step_bind os p s r s')
  then show ?case using acct_bind [OF step_bind(1)] by simp
next
  case (step_recv f ts s r f' s')
  then show ?case using acct_recv [OF _ step_recv(1)] by simp
next
  case (step_send pl d s r s')
  then show ?case using acct_send [OF step_send(2), of pl d] by simp
next
  case (step_forward f ts rules s r f' s')
  then show ?case using acct_forward [OF _ step_forward(1)] by simp
qed (simp_all add: set_priority_drop_floor_def)

text \<open>
  C22: no drop is lost in the books. For a link that started as a fresh server and went through
  any sequence of binds, receives, sends, forwards and changes of the priority floor, with any
  interference by other processes, the total of dropped copies is the sum over destinations and
  the sum over priorities, as 64-bit numbers.
\<close>

theorem drop_accounting:
  assumes "link_step\<^sup>*\<^sup>* (ShmRouterLink_server t, w) (l, w')"
  shows "sum_list (dropped_full_per_peer (metrics l)) = dropped_full (metrics l)
    \<and> sum_list (dropped_by_priority (metrics l)) = dropped_full (metrics l)
    \<and> length (dropped_full_per_peer (metrics l)) = 256 \<and> length (dropped_by_priority (metrics l)) = 8"
proof -
  have "link_step\<^sup>*\<^sup>* s s' \<Longrightarrow> acct s \<Longrightarrow> acct s'" for s s'
    by (induction rule: rtranclp_induct) (auto dest: acct_step)
  then have "acct (l, w')"
    using assms metrics_ok_zero by (fastforce simp: ShmRouterLink_server_def ShmRouterLink_new_def)
  then show ?thesis by (simp add: metrics_ok_def kPerPeerMetricsSlots_def kPriorityLevels_def)
qed

theorem drop_accounting_witness:
  "link_step\<^sup>*\<^sup>* (ShmRouterLink_server demo_topology, empty_world)
     (set_priority_drop_floor 3 (ShmRouterLink_server demo_topology), empty_world)
   \<and> sum_list (dropped_full_per_peer (metrics (set_priority_drop_floor 3 (ShmRouterLink_server demo_topology))))
       = dropped_full (metrics (set_priority_drop_floor 3 (ShmRouterLink_server demo_topology)))"
proof -
  have run: "link_step\<^sup>*\<^sup>* (ShmRouterLink_server demo_topology, empty_world)
     (set_priority_drop_floor 3 (ShmRouterLink_server demo_topology), empty_world)"
    by (intro r_into_rtranclp link_step.intros)
  from drop_accounting [OF run] run show ?thesis by blast
qed

section \<open>Admission\<close>

lemma queues_of_region:
  "region_of c' = region_of c \<Longrightarrow> out_q w c' = out_q w c \<and> in_q w c' = in_q w c"
  by (simp add: in_q_def out_q_def)

lemma chan_eqI:
  assumes "chan_ok w c" "chan_ok w' c'" "region_of c' = region_of c" "chan_peer_id c' = chan_peer_id c"
  shows "c' = c\<lparr>congested := congested c'\<rparr>"
  using assms by (auto simp: chan_ok_def region_of_def)

text \<open>What a send does to the channel and the view of each peer.\<close>

lemma send_sim_at:
  assumes "send_sim n floor x dst cs mt w res cs' mt' w'" "chans_ok k w cs" "d \<in> set cs"
  shows "\<exists>b. d\<lparr>congested := b\<rparr> \<in> set cs' \<and>
    (view_of w' d)\<lparr>v_congested := b\<rparr> = (if chan_peer_id d = dst then deliver floor x (view_of w d) else view_of w d)"
proof -
  have eqs: "map (view_of w') cs' = map (\<lambda>c. if chan_peer_id c = dst then deliver floor x (view_of w c)
      else view_of w c) cs" "map region_of cs' = map region_of cs" "map chan_peer_id cs' = map chan_peer_id cs"
    "chans_ok n w' cs'"
    using assms(1) by (simp_all add: send_sim_def)
  from assms(3) obtain i where i: "i < length cs" "cs ! i = d" by (metis in_set_conv_nth)
  have len: "length cs' = length cs" using eqs(2) by (metis length_map)
  let ?d = "cs' ! i"
  have mem: "?d \<in> set cs'" using i(1) len by simp
  have at: "region_of ?d = region_of d" "chan_peer_id ?d = chan_peer_id d"
    "view_of w' ?d = (if chan_peer_id d = dst then deliver floor x (view_of w d) else view_of w d)"
    using arg_cong [OF eqs(1), of "\<lambda>xs. xs ! i"] arg_cong [OF eqs(2), of "\<lambda>xs. xs ! i"]
      arg_cong [OF eqs(3), of "\<lambda>xs. xs ! i"] i len by simp_all
  have "chan_ok w d" "chan_ok w' ?d" using assms(2,3) eqs(4) mem by (simp_all add: chans_ok_def)
  then have "?d = d\<lparr>congested := congested ?d\<rparr>" using at by (intro chan_eqI)
  then show ?thesis using mem at(3) by (metis view_of_congested)
qed

text \<open>What a send leaves alone, and what it does to the vector of channels.\<close>

lemma ep_try_send_world:
  assumes "try_send_shm_buffer ep pl w = Inr (res, w')"
  shows "ns w' = ns w \<and> next_obj w' = next_obj w \<and> (\<forall>k. k \<noteq> obj (the ep) \<longrightarrow> objs w' k = objs w k)"
  using assms
  by (auto simp: try_send_shm_buffer_def ep_try_send_def put_mem_def split: option.splits sum.splits prod.splits if_splits)

lemma send_scan_world:
  "send_scan floor dst pl cs mt w = (res, cs', mt', w') \<Longrightarrow> ns w' = ns w \<and> next_obj w' = next_obj w
    \<and> (\<forall>k. k \<notin> chan_obj ` {c \<in> set cs. chan_peer_id c = dst} \<longrightarrow> objs w' k = objs w k)"
proof (induction cs arbitrary: cs')
  case (Cons c cs)
  show ?case
  proof (cases "chan_peer_id c = dst")
    case True
    then show ?thesis
      using Cons.prems
      by (auto simp: Let_def region_of_def split: if_splits sum.splits prod.splits dest!: ep_try_send_world)
  next
    case False
    then show ?thesis using Cons by (auto split: prod.splits)
  qed
qed simp

lemma mark_others:
  "dst \<notin> chan_peer_id ` set cs \<Longrightarrow> map (\<lambda>d. if chan_peer_id d = dst then f d else d) cs = cs"
  by (induction cs) auto

lemma send_scan_marks:
  "send_scan floor dst pl cs mt w = (res, cs', mt', w') \<Longrightarrow> distinct (map chan_peer_id cs) \<Longrightarrow>
    \<exists>b. cs' = map (\<lambda>d. if chan_peer_id d = dst then d\<lparr>congested := b\<rparr> else d) cs"
proof (induction cs arbitrary: cs')
  case (Cons c cs)
  show ?case
  proof (cases "chan_peer_id c = dst")
    case True
    then have "map (\<lambda>d. if chan_peer_id d = dst then d\<lparr>congested := b\<rparr> else d) cs = cs" for b
      using Cons.prems(2) by (intro mark_others) auto
    moreover have "\<exists>b. cs' = c\<lparr>congested := b\<rparr> # cs"
      using Cons.prems(1) True
      by (auto simp: Let_def split: if_splits sum.splits prod.splits) (metis PeerChannel.surjective PeerChannel.update_convs(3))+
    ultimately show ?thesis using True by auto
  next
    case False
    then show ?thesis using Cons by (fastforce split: prod.splits)
  qed
qed simp

lemma send_scan_drop:
  "send_scan floor dst (Buffer_read_only x) cs mt w = (res, cs', mt', w') \<Longrightarrow> chans_ok n w cs \<Longrightarrow>
    c \<in> set cs \<Longrightarrow> chan_peer_id c = dst \<Longrightarrow> length x = kRouterFrameSize \<Longrightarrow>
    \<not> (length (out_q w c) < slot_count (region_of c)
       \<and> \<not> (floor > 0 \<and> congested c \<and> frame_prio x < floor)) \<Longrightarrow> w' = w"
proof (induction cs arbitrary: cs')
  case (Cons d cs)
  show ?case
  proof (cases "chan_peer_id d = dst")
    case True
    then have "c \<notin> set cs" using Cons.prems(2,4) by (auto simp: chans_ok_Cons) (metis image_eqI)
    then have c: "d = c" "chan_ok w c" using Cons.prems(2,3) by (auto simp: chans_ok_Cons)
    have prio: "priority_from_frame (Buffer_read_only x) = frame_prio x"
      using Cons.prems(5) by (simp add: priority_from_frame_def Buffer_read_only_def frame_prio_def)
    have "length (out_q w c) \<le> slot_count (region_of c)"
      using c(2) by (auto simp: chan_ok_def region_inv_def ring_inv_def out_q_def rep_ring_def)
    then have "\<not> length (out_q w c) < slot_count (region_of c) \<Longrightarrow>
        try_send_shm_buffer (chan_endpoint c) (Buffer_read_only x) w = Inr (Full, w)"
      by (intro chan_send_full [OF c(2)]) simp
    then show ?thesis using Cons.prems(1,6) True c(1) prio by (auto simp: Let_def split: if_splits)
  next
    case False
    then show ?thesis using Cons by (auto simp: chans_ok_Cons split: prod.splits)
  qed
qed simp

text \<open>
  C17: what decides whether a copy reaches a peer, and everything that changes. On a bound link
  \<open>send_to_peer\<close> never raises for a peer with a channel. The copy is appended to that peer's ring
  exactly when the ring has room and it is not being shed, that is unless a floor is set, the last
  copy for this peer was dropped, and the frame's priority is below the floor; with floor 0 only a
  full ring drops. The peer is marked congested exactly when the copy was dropped. An admitted copy
  adds one to \<open>forwarded\<close>; a dropped one adds one to \<open>dropped_full\<close>, to the slot of its destination
  and to the slot of its priority. Nothing else changes: no other field of the link and no other
  channel, no other counter or slot, no other queue (the peer's own incoming queue included), no
  message already waiting, no other object, and no name.
\<close>

theorem priority_admission:
  assumes "link_inv (Suc n) (l, w)" "c \<in> set (peer_channels l)" "length x = kRouterFrameSize"
    "send_to_peer (Buffer_read_only x) (chan_peer_id c) (l, w) = (r, (l', w'))"
    "admitted \<longleftrightarrow> length (out_q w c) < slot_count (region_of c)
       \<and> \<not> (priority_drop_floor l > 0 \<and> congested c \<and> frame_prio x < priority_drop_floor l)"
  shows "r = Inr () \<and> out_q w' c = (if admitted then out_q w c @ [x] else out_q w c)
    \<and> in_q w' c = in_q w c
    \<and> l' = l\<lparr>
        peer_channels := map (\<lambda>d. if chan_peer_id d = chan_peer_id c then d\<lparr>congested := \<not> admitted\<rparr> else d)
          (peer_channels l),
        metrics := (if admitted then (metrics l)\<lparr>forwarded := forwarded (metrics l) + 1\<rparr>
          else (metrics l)\<lparr>dropped_full := dropped_full (metrics l) + 1,
            dropped_full_per_peer := (dropped_full_per_peer (metrics l))
              [unat (chan_peer_id c) := dropped_full_per_peer (metrics l) ! unat (chan_peer_id c) + 1],
            dropped_by_priority := (dropped_by_priority (metrics l))
              [unat (frame_prio x) := dropped_by_priority (metrics l) ! unat (frame_prio x) + 1]\<rparr>)\<rparr>
    \<and> list_all (\<lambda>d. chan_peer_id d = chan_peer_id c \<or> (out_q w' d = out_q w d \<and> in_q w' d = in_q w d))
        (peer_channels l)
    \<and> ns w' = ns w \<and> next_obj w' = next_obj w \<and> (\<forall>k. k \<noteq> chan_obj c \<longrightarrow> objs w' k = objs w k)
    \<and> (\<not> admitted \<longrightarrow> w' = w)"
proof -
  let ?dst = "chan_peer_id c" and ?cs = "peer_channels l" and ?fl = "priority_drop_floor l"
  obtain cs' mt' where scan: "send_scan ?fl ?dst (Buffer_read_only x) ?cs (metrics l) w = (r, cs', mt', w')"
    and l': "l' = l\<lparr>peer_channels := cs', metrics := mt'\<rparr>"
    using assms(4) by (auto simp: send_to_peer_def split: prod.splits)
  have ok: "chans_ok (Suc n) w ?cs" using assms(1) by (simp add: link_inv_def)
  have sim: "send_sim n ?fl x ?dst ?cs (metrics l) w r cs' mt' w'" by (rule send_refines [OF ok assms(3) scan])
  have ids: "distinct (map chan_peer_id ?cs)" using ok by (simp add: chans_ok_def)
  then have found: "find (\<lambda>d. chan_peer_id d = ?dst) ?cs = Some c" using assms(2) by (rule find_unique)
  have adm: "admits ?fl x (view_of w c) = admitted" using assms(5) by (auto simp: admits_def view_of_def)
  have res: "r = Inr ()" "mt' = (if admitted then (metrics l)\<lparr>forwarded := forwarded (metrics l) + 1\<rparr>
      else record_drop ?dst (frame_prio x) (metrics l))"
    using sim found adm by (simp_all add: send_sim_def)
  note at = send_sim_at [OF sim ok]
  obtain b where b: "c\<lparr>congested := b\<rparr> \<in> set cs'"
    "(view_of w' c)\<lparr>v_congested := b\<rparr> = deliver ?fl x (view_of w c)"
    using at [OF assms(2)] by auto
  then have qs: "b = (\<not> admitted)" "out_q w' c = (if admitted then out_q w c @ [x] else out_q w c)" "in_q w' c = in_q w c"
    using adm by (auto simp: deliver_def view_of_def)
  obtain b' where marks: "cs' = map (\<lambda>d. if chan_peer_id d = ?dst then d\<lparr>congested := b'\<rparr> else d) ?cs"
    using send_scan_marks [OF scan ids] by blast
  have "b' = b"
  proof -
    obtain d where d: "d \<in> set ?cs" "c\<lparr>congested := b\<rparr> = (if chan_peer_id d = ?dst then d\<lparr>congested := b'\<rparr> else d)"
      using b(1) marks by auto
    then have "chan_peer_id d = ?dst" by (metis PeerChannel.select_convs(1) PeerChannel.surjective PeerChannel.update_convs(3))
    then show ?thesis using arg_cong [OF d(2), of congested] by simp
  qed
  note marks = marks [unfolded this qs(1)]
  have "out_q w' d = out_q w d \<and> in_q w' d = in_q w d"
    if d: "d \<in> set ?cs" "chan_peer_id d \<noteq> ?dst" for d
  proof -
    obtain b where "(view_of w' d)\<lparr>v_congested := b\<rparr> = view_of w d" using at [OF d(1)] d(2) by auto
    then show ?thesis by (simp add: view_of_def)
  qed
  then have "list_all (\<lambda>d. chan_peer_id d = ?dst \<or> (out_q w' d = out_q w d \<and> in_q w' d = in_q w d)) ?cs"
    by (auto simp: list_all_iff)
  moreover have "chan_obj ` {d \<in> set ?cs. chan_peer_id d = ?dst} = {chan_obj c}"
    using assms(2) ids by (auto simp: distinct_map dest: inj_onD)
  with send_scan_world [OF scan] have "ns w' = ns w" "next_obj w' = next_obj w"
    "\<forall>k. k \<noteq> chan_obj c \<longrightarrow> objs w' k = objs w k"
    by simp_all
  moreover have "\<not> admitted \<longrightarrow> w' = w"
    using send_scan_drop [OF scan ok assms(2) refl assms(3)] assms(5) by blast
  ultimately show ?thesis
    using res qs marks by (simp add: l' record_drop_def bump_at_def)
qed

text \<open>The demo router after start-up: two peers, empty rings.\<close>

lemma demo_router:
  obtains l w c1 c2 where "link_inv 100 (l, w)" "peer_channels l = [c1, c2]" "chan_peer_id c1 = 1"
    "chan_peer_id c2 = 2" "fresh_chan w c1" "fresh_chan w c2" "priority_drop_floor l = 0"
    "metrics l = ShmRouterMetrics_zero" "4 \<le> slot_count (region_of c1)" "4 \<le> slot_count (region_of c2)"
proof -
  have os: "shm_os_ok os_all_ok" by simp
  have "(100::nat) < 2 ^ 64" by simp
  from bind_router_ok [where os = "\<lambda>_. os_all_ok" and p = ShmBindParams_default,
      OF world_ok_empty os demo_topology_ok this]
  obtain l w where l: "link_inv 100 (l, w)"
    "map chan_peer_id (peer_channels l) = map peer_id (filter is_shm (peers demo_topology))"
    "bound_to w (filter is_shm (peers demo_topology)) (peer_channels l)"
    "list_all (fresh_chan w) (peer_channels l)" "metrics l = ShmRouterMetrics_zero" "priority_drop_floor l = 0"
    by (elim exE conjE) (rule that)
  have peers: "filter is_shm (peers demo_topology) = peers demo_topology" by (simp add: demo_topology_def)
  obtain c1 c2 where c: "peer_channels l = [c1, c2]" "chan_peer_id c1 = 1" "chan_peer_id c2 = 2"
    using l(2) unfolding peers by (auto simp: demo_topology_def map_eq_Cons_conv)
  moreover have "4 \<le> slot_count (region_of c1)" "4 \<le> slot_count (region_of c2)"
    using l(3) unfolding peers c(1)
    by (simp_all add: demo_topology_def bound_to_def made_for_def peer_bind_params_def
        ShmBindParams_default_def Let_def)
  ultimately show ?thesis using that l(1,4,5,6) by simp
qed

theorem priority_admission_witness:
  "\<exists>l w c l' w'. link_inv 100 (l, w) \<and> c \<in> set (peer_channels l)
     \<and> send_to_peer (Buffer_read_only (replicate 64 0)) (chan_peer_id c) (l, w) = (Inr (), (l', w'))
     \<and> out_q w' c = [replicate 64 0]"
proof -
  from demo_router obtain l w c1 c2 where l: "link_inv 100 (l, w)" "peer_channels l = [c1, c2]"
    "fresh_chan w c1" "priority_drop_floor l = 0" "4 \<le> slot_count (region_of c1)"
    by metis
  obtain r l' w' where send: "send_to_peer (Buffer_read_only (replicate 64 0)) (chan_peer_id c1) (l, w) = (r, (l', w'))"
    by (metis prod_cases3)
  have "link_inv (Suc 99) (l, w)" "c1 \<in> set (peer_channels l)" "length (replicate 64 (0::u8)) = kRouterFrameSize"
    using l(1,2) by (simp_all add: kRouterFrameSize_def)
  from priority_admission [OF this send refl] l(1-5) send show ?thesis
    by (intro exI [of _ l] exI [of _ w] exI [of _ c1] exI [of _ l'] exI [of _ w']) (auto simp: fresh_chan_def)
qed

theorem shm_forward_refines_witness:
  "\<exists>s res f' s'. link_inv (kMaxRouteDests + 1) s \<and> forward RouterFrame_default 5 demo_rules s = (res, f', s')
     \<and> link_inv 1 s' \<and> forward_spec 5 demo_rules (link_view s)
         = (Inr (ForwardResult_empty, None), link_view s') \<and> res = Inr ForwardResult_empty"
proof -
  from demo_router obtain l w c1 c2 where l: "link_inv 100 (l, w)" "peer_channels l = [c1, c2]"
    "fresh_chan w c1" "fresh_chan w c2" by metis
  obtain res f' s' where fwd: "forward RouterFrame_default 5 demo_rules (l, w) = (res, f', s')"
    by (rule prod_cases3)
  have inv: "link_inv (kMaxRouteDests + 1) (l, w)"
    by (rule link_inv_weaken [of 91]) (use l(1) in \<open>simp add: kMaxRouteDests_def\<close>)
  have "wf_frame RouterFrame_default" by (simp add: wf_frame_def RouterFrame_default_def)
  from shm_forward_refines [OF inv this fwd]
  have ref: "link_inv 1 s'" "\<exists>sres. forward_spec 5 demo_rules (link_view (l, w)) = (sres, link_view s')
      \<and> (case sres of Inl e \<Rightarrow> res = Inl e | Inr (fr, None) \<Rightarrow> res = Inr fr
         | Inr (fr, Some g) \<Rightarrow> res = Inr fr \<and> f' = g)" by simp_all
  have idle: "fst (forward_spec 5 demo_rules (link_view (l, w))) = Inr (ForwardResult_empty, None)"
    using l(2-4) by (simp add: forward_spec_def link_view_def fresh_chan_def view_of_def)
  then have "forward_spec 5 demo_rules (link_view (l, w)) = (Inr (ForwardResult_empty, None), link_view s')
      \<and> res = Inr ForwardResult_empty"
    using ref(2) by auto
  then show ?thesis using inv fwd ref(1) by blast
qed

end
