(* ===== verification/DatagramLink.thy ===== *)
theory DatagramLink
  imports Datagram LinkBase
begin

text \<open>
  \<open>ipc/src/router/link.hpp\<close> with \<open>peer_address_io.hpp\<close>, \<open>datagram_peer_resolver.hpp\<close> and the
  datagram instances of \<open>ipc/src/ipc/endpoint.hpp\<close>: the router's link over UDP or Unix-domain
  datagrams. The template argument is a value of \<open>DgTransport\<close>; \<open>if constexpr\<close> is a case on it.
  A call runs on a link and the kernel and leaves both behind also when it raises.
\<close>

datatype DgTransport = UdsT | UdpT

section \<open>Endpoints and addresses\<close>

definition dg_open :: "DgTransport \<Rightarrow> NetOs \<Rightarrow> Kernel \<Rightarrow> Socket res \<times> Kernel" where
  "dg_open tr os k = (case tr of UdsT \<Rightarrow> Uds_open os k | UdpT \<Rightarrow> Udp_open os k)"

definition ep_recv :: "DgTransport \<Rightarrow> Socket \<Rightarrow> Buffer \<Rightarrow> sockaddr \<Rightarrow> Kernel \<Rightarrow> (Buffer \<times> sockaddr) res \<times> Kernel" where
  "ep_recv tr h buf out k = (case tr of UdsT \<Rightarrow> Uds_recv h buf out k | UdpT \<Rightarrow> Udp_recv h buf out k)"

definition ep_dg_try_recv :: "DgTransport \<Rightarrow> Socket \<Rightarrow> Buffer \<Rightarrow> sockaddr \<Rightarrow> Kernel \<Rightarrow>
    (bool \<times> Buffer \<times> sockaddr) res \<times> Kernel" where
  "ep_dg_try_recv tr h buf out k =
     (case tr of UdsT \<Rightarrow> Uds_try_recv h buf out k | UdpT \<Rightarrow> Udp_try_recv h buf out k)"

definition ep_set_recv_timeout_ms :: "DgTransport \<Rightarrow> NetOs \<Rightarrow> Socket \<Rightarrow> int \<Rightarrow> Kernel \<Rightarrow> unit res \<times> Kernel" where
  "ep_set_recv_timeout_ms tr os h ms k =
     (case tr of UdsT \<Rightarrow> Uds_set_recv_timeout os h ms k | UdpT \<Rightarrow> Udp_set_recv_timeout os h ms k)"

definition ep_set_recv_blocking :: "DgTransport \<Rightarrow> NetOs \<Rightarrow> Socket \<Rightarrow> Kernel \<Rightarrow> unit res \<times> Kernel" where
  "ep_set_recv_blocking tr os h k = ep_set_recv_timeout_ms tr os h 0 k"

fun uds_path :: "PeerAddress \<Rightarrow> string" where
  "uds_path (peer_uds p) = p"
| "uds_path _ = []"

fun udp_host :: "PeerAddress \<Rightarrow> string" where
  "udp_host (peer_udp h _) = h"
| "udp_host _ = []"

fun udp_port :: "PeerAddress \<Rightarrow> u16" where
  "udp_port (peer_udp _ p) = p"
| "udp_port _ = 0"

fun port_of :: "sockaddr \<Rightarrow> u16" where
  "port_of (SockIn _ p) = p"
| "port_of (SockUn _) = 0"

text \<open>\<open>Transport::BindParams\<close>: a path or a port.\<close>

datatype DgBindParams = UdsBind string | UdpBind u16

definition ep_dg_bind :: "NetOs \<Rightarrow> Socket \<Rightarrow> DgBindParams \<Rightarrow> Kernel \<Rightarrow> unit res \<times> Kernel" where
  "ep_dg_bind os h p k = (case p of UdsBind path \<Rightarrow> Uds_bind os h path k | UdpBind port \<Rightarrow> Udp_bind os h port k)"

definition bind_datagram_endpoint :: "DgTransport \<Rightarrow> NetOs \<Rightarrow> Socket \<Rightarrow> PeerAddress \<Rightarrow> Kernel \<Rightarrow> unit res \<times> Kernel" where
  "bind_datagram_endpoint tr os h addr k =
     (case tr of
        UdsT \<Rightarrow> if kind addr \<noteq> UdsPath then (Inl (RuntimeError ''uds endpoint expected uds peer address''), k)
                else ep_dg_bind os h (UdsBind (uds_path addr)) k
      | UdpT \<Rightarrow> if kind addr \<noteq> UdpEndpoint then (Inl (RuntimeError ''udp endpoint expected udp peer address''), k)
                else ep_dg_bind os h (UdpBind (udp_port addr)) k)"

definition send_datagram_to_address :: "NetOs \<Rightarrow> int \<Rightarrow> PeerAddress \<Rightarrow> Buffer \<Rightarrow> Kernel \<Rightarrow> unit res \<times> Kernel" where
  "send_datagram_to_address os d addr pl k =
     (case addr of
        peer_uds p \<Rightarrow> Uds_send_to os d p pl k
      | peer_udp h p \<Rightarrow> Udp_send_to os d h p pl k
      | peer_shm _ \<Rightarrow> (Inl (RuntimeError ''unsupported peer address kind for datagram send''), k))"

definition router_listen_bind_params :: "DgTransport \<Rightarrow> RouterTopology \<Rightarrow> DgBindParams res" where
  "router_listen_bind_params tr t =
     (let listen = router_listen t in
      case tr of
        UdsT \<Rightarrow> if kind listen \<noteq> UdsPath
                then Inl (RuntimeError ''uds topology expected uds router listen address'')
                else Inr (UdsBind (uds_path listen))
      | UdpT \<Rightarrow> if kind listen \<noteq> UdpEndpoint
                then Inl (RuntimeError ''udp topology expected udp router listen address'')
                else Inr (UdpBind (udp_port listen)))"

definition peer_id_from_recv :: "DgTransport \<Rightarrow> RouterTopology \<Rightarrow> sockaddr \<Rightarrow> u8" where
  "peer_id_from_recv tr t from =
     (let entry = (case tr of
          UdsT \<Rightarrow> peer_find t (\<lambda>e. kind (local_addr e) = UdsPath
                     \<and> strcmp_eq (uds_path (local_addr e)) (path_of from))
        | UdpT \<Rightarrow> peer_find t (\<lambda>e. kind (local_addr e) = UdpEndpoint
                     \<and> udp_port (local_addr e) = port_of from))
      in case entry of Some e \<Rightarrow> peer_id e | None \<Rightarrow> kEndpointInvalid)"

section \<open>The link\<close>

definition router_route_line :: "RouterTopology \<Rightarrow> u8 \<Rightarrow> u8 \<Rightarrow> RouterFrame \<Rightarrow> string" where
  "router_route_line t src dst f =
     ''router: '' @ peer_display_name t src @ '' -> '' @ peer_display_name t dst
     @ '' payload='' @ payload f"

record DatagramRouterLink =
  dl_topo :: RouterTopology
  dl_is_server :: bool
  dl_peer_id :: u8
  dl_endpoint :: Socket
  dl_metrics :: DatagramRouterMetrics

type_synonym dg_state = "DatagramRouterLink \<times> Kernel"

definition dg_new :: "DgTransport \<Rightarrow> NetOs \<Rightarrow> RouterTopology \<Rightarrow> bool \<Rightarrow> u8 \<Rightarrow> Kernel \<Rightarrow> DatagramRouterLink res \<times> Kernel" where
  "dg_new tr os t srv pid k =
     (case dg_open tr os k of
        (Inl e, k1) \<Rightarrow> (Inl e, k1)
      | (Inr h, k1) \<Rightarrow> (Inr \<lparr>dl_topo = t, dl_is_server = srv, dl_peer_id = pid, dl_endpoint = h,
                            dl_metrics = DatagramRouterMetrics_zero\<rparr>, k1))"

definition dg_server :: "DgTransport \<Rightarrow> NetOs \<Rightarrow> RouterTopology \<Rightarrow> Kernel \<Rightarrow> DatagramRouterLink res \<times> Kernel" where
  "dg_server tr os t k = dg_new tr os t True kEndpointInvalid k"

definition dg_bind_peer :: "DgTransport \<Rightarrow> NetOs \<Rightarrow> (dg_state, unit) call" where
  "dg_bind_peer tr os = (\<lambda>(l, k).
     case peer_by_id (dl_topo l) (dl_peer_id l) of
       None \<Rightarrow> (Inl (RuntimeError ''unknown peer id''), (l, k))
     | Some e \<Rightarrow> (case bind_datagram_endpoint tr os (dl_endpoint l) (local_addr e) k of
         (r, k1) \<Rightarrow> (r, (l, k1))))"

text \<open>A client whose bind raises is destroyed, which closes its socket.\<close>

definition dg_client :: "DgTransport \<Rightarrow> NetOs \<Rightarrow> RouterTopology \<Rightarrow> u8 \<Rightarrow> Kernel \<Rightarrow> DatagramRouterLink res \<times> Kernel" where
  "dg_client tr os t pid k =
     (case dg_new tr os t False pid k of
        (Inl e, k1) \<Rightarrow> (Inl e, k1)
      | (Inr l, k1) \<Rightarrow> (case dg_bind_peer tr os (l, k1) of
          (Inl e, (_, k2)) \<Rightarrow> (Inl e, Socket_close (dl_endpoint l) k2)
        | (Inr _, (l1, k2)) \<Rightarrow> (Inr l1, k2)))"

definition dg_bind_router :: "NetOs \<Rightarrow> DgBindParams \<Rightarrow> (dg_state, unit) call" where
  "dg_bind_router os p = (\<lambda>(l, k).
     if \<not> dl_is_server l then (Inl (RuntimeError ''bind_router on client link''), (l, k))
     else case ep_dg_bind os (dl_endpoint l) p k of (r, k1) \<Rightarrow> (r, (l, k1)))"

definition dg_set_recv_timeout_ms :: "DgTransport \<Rightarrow> NetOs \<Rightarrow> int \<Rightarrow> (dg_state, unit) call" where
  "dg_set_recv_timeout_ms tr os ms = (\<lambda>(l, k).
     case ep_set_recv_timeout_ms tr os (dl_endpoint l) ms k of (r, k1) \<Rightarrow> (r, (l, k1)))"

definition dg_set_recv_blocking :: "DgTransport \<Rightarrow> NetOs \<Rightarrow> (dg_state, unit) call" where
  "dg_set_recv_blocking tr os = (\<lambda>(l, k).
     case ep_set_recv_blocking tr os (dl_endpoint l) k of (r, k1) \<Rightarrow> (r, (l, k1)))"

text \<open>The descriptor of the endpoint and of the link, and the factory functions of the header.\<close>

definition ep_fd :: "DgTransport \<Rightarrow> Socket \<Rightarrow> int" where
  "ep_fd tr h = (case tr of UdsT \<Rightarrow> Uds_native_fd h | UdpT \<Rightarrow> Udp_native_fd h)"

definition ep_recv_from :: "DgTransport \<Rightarrow> Socket \<Rightarrow> Buffer \<Rightarrow> sockaddr \<Rightarrow> Kernel \<Rightarrow> (Buffer \<times> sockaddr) res \<times> Kernel" where
  "ep_recv_from tr h buf out k = ep_recv tr h buf out k"

definition dg_fd :: "DgTransport \<Rightarrow> DatagramRouterLink \<Rightarrow> int" where
  "dg_fd tr l = ep_fd tr (dl_endpoint l)"

definition make_datagram_router_link_server :: "DgTransport \<Rightarrow> NetOs \<Rightarrow> RouterTopology \<Rightarrow> Kernel \<Rightarrow> DatagramRouterLink res \<times> Kernel" where
  "make_datagram_router_link_server tr os t k = dg_server tr os t k"

definition make_datagram_router_link_client :: "DgTransport \<Rightarrow> NetOs \<Rightarrow> RouterTopology \<Rightarrow> u8 \<Rightarrow> Kernel \<Rightarrow>
    DatagramRouterLink res \<times> Kernel" where
  "make_datagram_router_link_client tr os t pid k = dg_client tr os t pid k"

definition send_buffer_to :: "NetOs \<Rightarrow> PeerAddress \<Rightarrow> Buffer \<Rightarrow> (dg_state, unit) call" where
  "send_buffer_to os addr pl = (\<lambda>(l, k).
     case send_datagram_to_address os (fd (dl_endpoint l)) addr pl k of (r, k1) \<Rightarrow> (r, (l, k1)))"

definition bump_forwarded :: "DatagramRouterLink \<Rightarrow> DatagramRouterLink" where
  "bump_forwarded l = l\<lparr>dl_metrics := (dl_metrics l)\<lparr>dg_forwarded := dg_forwarded (dl_metrics l) + 1\<rparr>\<rparr>"

definition bump_truncated :: "DatagramRouterLink \<Rightarrow> DatagramRouterLink" where
  "bump_truncated l =
     l\<lparr>dl_metrics := (dl_metrics l)\<lparr>dg_recv_truncated := dg_recv_truncated (dl_metrics l) + 1\<rparr>\<rparr>"

definition bump_unknown :: "DatagramRouterLink \<Rightarrow> DatagramRouterLink" where
  "bump_unknown l =
     l\<lparr>dl_metrics := (dl_metrics l)\<lparr>dg_recv_unknown_source := dg_recv_unknown_source (dl_metrics l) + 1\<rparr>\<rparr>"

definition dg_send_to_peer :: "NetOs \<Rightarrow> Buffer \<Rightarrow> u8 \<Rightarrow> (dg_state, unit) call" where
  "dg_send_to_peer os pl dst s =
     (case peer_by_id (dl_topo (fst s)) dst of
        None \<Rightarrow> (Inr (), s)
      | Some e \<Rightarrow> (case send_buffer_to os (local_addr e) pl s of
          (Inl err, s1) \<Rightarrow> (Inl err, s1)
        | (Inr _, (l1, k1)) \<Rightarrow> (Inr (), (bump_forwarded l1, k1))))"

text \<open>\<open>RecvResult{}\<close>: an all-zero address.\<close>

definition from_zero :: "DgTransport \<Rightarrow> sockaddr" where
  "from_zero tr = (case tr of UdsT \<Rightarrow> SockUn [] | UdpT \<Rightarrow> SockIn [0, 0, 0, 0] 0)"

text \<open>
  \<open>forward\<close>. The buffer that is sent views the frame, so it carries the stamped bytes, and its
  size is what was received.
\<close>

definition dg_forward :: "DgTransport \<Rightarrow> NetOs \<Rightarrow> RouterFrame \<Rightarrow> u64 \<Rightarrow> RouteRule list \<Rightarrow> dg_state \<Rightarrow>
    ForwardResult res \<times> RouterFrame \<times> dg_state" where
  "dg_forward tr os f ts rules = (\<lambda>(l, k).
     if \<not> dl_is_server l then (Inl (RuntimeError ''forward on client link''), f, (l, k))
     else case ep_recv tr (dl_endpoint l) (frame_writable f) (from_zero tr) k of
       (Inl e, k1) \<Rightarrow> (Inl e, f, (l, k1))
     | (Inr (buf, from), k1) \<Rightarrow>
         let f1 = frame_of_buffer buf in
         if buf_size buf < kRouterFrameSize
         then (Inr ForwardResult_empty, f1, (bump_truncated l, k1))
         else let src = peer_id_from_recv tr (dl_topo l) from in
           if src = kEndpointInvalid
           then (Inr ForwardResult_empty, f1, (bump_unknown l, k1))
           else let f2 = set_timestamp_ns ts (set_source src f1);
                    tg = route_targets_for rules src (topic_id f2);
                    pl = buf\<lparr>data := bytes f2\<rparr>
                in case fan_out (dg_send_to_peer os pl) (targets_list tg) (l, k1) of
                     (Inl e, s2) \<Rightarrow> (Inl e, f2, s2)
                   | (Inr _, s2) \<Rightarrow> (Inr \<lparr>fwd_source = src, fwd_targets = tg\<rparr>, f2, s2))"

definition dg_try_receive :: "DgTransport \<Rightarrow> RouterFrame \<Rightarrow> u64 \<Rightarrow> dg_state \<Rightarrow> u8 res \<times> RouterFrame \<times> dg_state" where
  "dg_try_receive tr f ts = (\<lambda>(l, k).
     case ep_dg_try_recv tr (dl_endpoint l) (frame_writable f) (from_zero tr) k of
       (Inl e, k1) \<Rightarrow> (Inl e, f, (l, k1))
     | (Inr (got, buf, from), k1) \<Rightarrow>
         let f1 = frame_of_buffer buf in
         if \<not> got then (Inr kEndpointInvalid, f1, (l, k1))
         else if buf_size buf < kRouterFrameSize
         then (Inr kEndpointInvalid, f1, (bump_truncated l, k1))
         else let src = peer_id_from_recv tr (dl_topo l) from in
           if src = kEndpointInvalid then (Inr kEndpointInvalid, f1, (bump_unknown l, k1))
           else (Inr src, set_timestamp_ns ts (set_source src f1), (l, k1)))"

definition dg_send_to_router :: "NetOs \<Rightarrow> RouterFrame \<Rightarrow> (dg_state, unit) call" where
  "dg_send_to_router os f s =
     (if dl_is_server (fst s) then (Inl (RuntimeError ''send_to_router on server link''), s)
      else send_buffer_to os (router_listen (dl_topo (fst s))) (frame_read_only f) s)"

text \<open>\<open>recv_message\<close> turns an exception of the receive into \<open>false\<close>.\<close>

definition dg_recv_message :: "DgTransport \<Rightarrow> RouterFrame \<Rightarrow> dg_state \<Rightarrow> bool res \<times> RouterFrame \<times> dg_state" where
  "dg_recv_message tr f = (\<lambda>(l, k).
     if dl_is_server l then (Inl (RuntimeError ''recv_message on server link''), f, (l, k))
     else case ep_recv tr (dl_endpoint l) (frame_writable f) (from_zero tr) k of
       (Inl _, k1) \<Rightarrow> (Inr False, f, (l, k1))
     | (Inr (buf, _), k1) \<Rightarrow> (Inr (buf_size buf \<ge> kRouterFrameSize), frame_of_buffer buf, (l, k1)))"

text \<open>The loop of \<open>recv_message_until\<close>; a receive that never returns keeps it, like spent fuel, at \<open>None\<close>.\<close>

fun dg_recv_loop :: "DgTransport \<Rightarrow> (nat \<Rightarrow> bool) \<Rightarrow> (nat \<Rightarrow> Kernel \<Rightarrow> Kernel) \<Rightarrow> nat \<Rightarrow> nat \<Rightarrow> u8 \<Rightarrow> RouterFrame \<Rightarrow>
    dg_state \<Rightarrow> (bool res \<times> RouterFrame \<times> dg_state) option" where
  "dg_recv_loop tr stop env 0 i wanted f s = None"
| "dg_recv_loop tr stop env (Suc fuel) i wanted f s =
     (if stop i then Some (Inr False, f, s)
      else if \<not> dl_is_server (fst s) \<and> recvfrom_hangs (fd (dl_endpoint (fst s))) (snd s) then None
      else case dg_recv_message tr f s of
        (Inl e, f1, s1) \<Rightarrow> Some (Inl e, f1, s1)
      | (Inr got, f1, (l1, k1)) \<Rightarrow>
          if got \<and> source f1 = wanted then Some (Inr True, f1, (l1, k1))
          else dg_recv_loop tr stop env fuel (Suc i) wanted f1 (l1, env i k1))"

definition dg_recv_message_until :: "DgTransport \<Rightarrow> NetOs \<Rightarrow> (nat \<Rightarrow> bool) \<Rightarrow> (nat \<Rightarrow> Kernel \<Rightarrow> Kernel) \<Rightarrow> nat \<Rightarrow>
    u8 \<Rightarrow> RouterFrame \<Rightarrow> int \<Rightarrow> dg_state \<Rightarrow> (bool res \<times> RouterFrame \<times> dg_state) option" where
  "dg_recv_message_until tr os stop env fuel wanted f ms s =
     (case dg_set_recv_timeout_ms tr os ms s of
        (Inl e, s1) \<Rightarrow> Some (Inl e, f, s1)
      | (Inr _, s1) \<Rightarrow> dg_recv_loop tr stop env fuel 0 wanted f s1)"

section \<open>What a send does\<close>

text \<open>The kernel address of a peer address, if the code can form one.\<close>

fun dest_addr :: "PeerAddress \<Rightarrow> sockaddr option" where
  "dest_addr (peer_uds p) = Some (SockUn (sun_path p))"
| "dest_addr (peer_udp h p) = map_option (\<lambda>ip. SockIn ip p) (inet_pton h)"
| "dest_addr (peer_shm _) = None"

text \<open>Destinations that do not make the loop stop, and the datagrams that result.\<close>

definition sendable :: "NetOs \<Rightarrow> RouterTopology \<Rightarrow> bytes \<Rightarrow> u8 \<Rightarrow> bool" where
  "sendable os t x d =
     (case peer_by_id t d of None \<Rightarrow> True
      | Some e \<Rightarrow> (case dest_addr (local_addr e) of None \<Rightarrow> False | Some a \<Rightarrow> send_ok os a x))"

definition copy_for :: "RouterTopology \<Rightarrow> bytes \<Rightarrow> u8 \<Rightarrow> (sockaddr \<times> bytes) list" where
  "copy_for t x d =
     (case peer_by_id t d of None \<Rightarrow> []
      | Some e \<Rightarrow> (case dest_addr (local_addr e) of None \<Rightarrow> [] | Some a \<Rightarrow> [(a, x)]))"

definition copies :: "RouterTopology \<Rightarrow> bytes \<Rightarrow> u8 list \<Rightarrow> (sockaddr \<times> bytes) list" where
  "copies t x ds = concat (map (copy_for t x) ds)"

definition add_forwarded :: "nat \<Rightarrow> DatagramRouterLink \<Rightarrow> DatagramRouterLink" where
  "add_forwarded n l =
     l\<lparr>dl_metrics := (dl_metrics l)\<lparr>dg_forwarded := dg_forwarded (dl_metrics l) + of_nat n\<rparr>\<rparr>"

lemma add_forwarded_simps [simp]:
  "add_forwarded 0 l = l" "dl_topo (add_forwarded n l) = dl_topo l"
  "dl_endpoint (add_forwarded n l) = dl_endpoint l" "dl_is_server (add_forwarded n l) = dl_is_server l"
  "add_forwarded m (add_forwarded n l) = add_forwarded (n + m) l"
  by (simp_all add: add_forwarded_def algebra_simps)

lemma put_sock_put_sock [simp]: "put_sock d s (put_sock d s' k) = put_sock d s k"
  by (simp add: put_sock_def)

lemma put_sock_same: "socks k d = Some s \<Longrightarrow> put_sock d s k = k"
  by (simp add: put_sock_def fun_upd_idem)

lemma dg_send_one:
  assumes "socks k (fd (dl_endpoint l)) = Some sk"
  shows "sendable os (dl_topo l) (buffer_bytes pl) d \<Longrightarrow> dg_send_to_peer os pl d (l, k) =
      (Inr (), (add_forwarded (length (copy_for (dl_topo l) (buffer_bytes pl) d)) l,
        put_sock (fd (dl_endpoint l))
          (sk\<lparr>sk_outbox := sk_outbox sk @ copy_for (dl_topo l) (buffer_bytes pl) d\<rparr>) k))"
    "\<not> sendable os (dl_topo l) (buffer_bytes pl) d \<Longrightarrow>
      \<exists>e. dg_send_to_peer os pl d (l, k) = (Inl e, (l, k))"
  using assms
  by (auto simp: sendable_def copy_for_def dg_send_to_peer_def send_buffer_to_def
      send_datagram_to_address_def Uds_send_to_def Udp_send_to_def Udp_send_to_addr_def sys_sendto_def
      bump_forwarded_def add_forwarded_def put_sock_same split: option.splits PeerAddress.splits)

text \<open>The egress loop: copies go out in order up to the first destination that cannot be sent to.\<close>

lemma dg_fan_out:
  assumes "socks k (fd (dl_endpoint l)) = Some sk" "x = buffer_bytes pl" "t = dl_topo l"
    "good = takeWhile (sendable os t x) ds"
  shows "\<exists>r. fan_out (dg_send_to_peer os pl) ds (l, k) =
      (r, (add_forwarded (length (copies t x good)) l,
           put_sock (fd (dl_endpoint l)) (sk\<lparr>sk_outbox := sk_outbox sk @ copies t x good\<rparr>) k))
    \<and> (r = Inr () \<longleftrightarrow> good = ds)"
  using assms
proof (induction ds arbitrary: l k sk good)
  case Nil
  then show ?case by (simp add: copies_def put_sock_same)
next
  case (Cons d ds)
  let ?c = "copy_for t x d"
  show ?case
  proof (cases "sendable os t x d")
    case False
    with dg_send_one(2) [OF Cons.prems(1), of os pl d] Cons.prems obtain e where
      "dg_send_to_peer os pl d (l, k) = (Inl e, (l, k))" by auto
    then show ?thesis using False Cons.prems by (simp add: copies_def put_sock_same)
  next
    case True
    let ?l = "add_forwarded (length ?c) l" and ?sk = "sk\<lparr>sk_outbox := sk_outbox sk @ ?c\<rparr>"
    let ?k = "put_sock (fd (dl_endpoint l)) ?sk k"
    have step: "dg_send_to_peer os pl d (l, k) = (Inr (), (?l, ?k))"
      using dg_send_one(1) [OF Cons.prems(1), of os pl d] True Cons.prems(2,3) by simp
    have "socks ?k (fd (dl_endpoint ?l)) = Some ?sk" by simp
    from Cons.IH [OF this Cons.prems(2) _ refl] Cons.prems(3) obtain r where
      "fan_out (dg_send_to_peer os pl) ds (?l, ?k) =
        (r, (add_forwarded (length (copies t x (takeWhile (sendable os t x) ds))) ?l,
             put_sock (fd (dl_endpoint l)) (?sk\<lparr>sk_outbox := sk_outbox ?sk
               @ copies t x (takeWhile (sendable os t x) ds)\<rparr>) ?k))"
      "r = Inr () \<longleftrightarrow> takeWhile (sendable os t x) ds = ds"
      by auto
    then show ?thesis using True step Cons.prems(4) by (simp add: copies_def)
  qed
qed

section \<open>Properties of the datagram router\<close>

lemma ep_recv_arrived:
  assumes "socks k (fd h) = Some sk" "sk_inbox sk = Arrived from x # rest"
  shows "ep_recv tr h buf out k =
    (Inr (store_recv from (take (capacity buf) x) buf out), put_sock (fd h) (sk\<lparr>sk_inbox := rest\<rparr>) k)"
  using assms by (cases tr) (simp_all add: ep_recv_def Uds_recv_def Udp_recv_def dg_recv_def sys_recvfrom_def)

text \<open>What \<open>forward\<close> makes of a datagram that holds a whole frame from a known peer.\<close>

lemma dg_forward_frame:
  assumes "dl_is_server l" "wf_frame f" "socks k (fd (dl_endpoint l)) = Some sk"
    "sk_inbox sk = Arrived from x # rest" "length x \<ge> kRouterFrameSize"
    "src = peer_id_from_recv tr (dl_topo l) (case from of None \<Rightarrow> from_zero tr | Some a \<Rightarrow> a)"
    "src \<noteq> kEndpointInvalid"
    "g = set_timestamp_ns ts (set_source src \<lparr>bytes = take kRouterFrameSize x\<rparr>)"
    "tg = route_targets_for rules src (topic_id g)"
  shows "dg_forward tr os f ts rules (l, k) =
    (case fan_out (dg_send_to_peer os (Buffer_read_only (bytes g))) (targets_list tg)
        (l, put_sock (fd (dl_endpoint l)) (sk\<lparr>sk_inbox := rest\<rparr>) k) of
       (Inl e, s2) \<Rightarrow> (Inl e, g, s2) | (Inr _, s2) \<Rightarrow> (Inr \<lparr>fwd_source = src, fwd_targets = tg\<rparr>, g, s2))"
proof -
  let ?b = "frame_writable f"
  have len: "length (bytes f) = kRouterFrameSize" using assms(2) by (simp add: wf_frame_def)
  have cap: "capacity ?b = kRouterFrameSize" "data ?b = bytes f"
    using len by (simp_all add: frame_writable_def Buffer_writable_def)
  have st: "store_recv from (take (capacity ?b) x) ?b (from_zero tr)
      = (?b\<lparr>data := take kRouterFrameSize x, buf_size := kRouterFrameSize\<rparr>,
         case from of None \<Rightarrow> from_zero tr | Some a \<Rightarrow> a)"
    using assms(5) len cap by (simp add: store_recv_def write_bytes_def)
  have "wf_frame \<lparr>bytes = take kRouterFrameSize x\<rparr>" using assms(5) by (simp add: wf_frame_def)
  then have "wf_frame g" by (simp add: assms(8))
  then have view: "?b\<lparr>buf_size := kRouterFrameSize, data := bytes g\<rparr> = Buffer_read_only (bytes g)"
    using cap(1) len by (simp add: Buffer_read_only_def frame_writable_def Buffer_writable_def wf_frame_def)
  show ?thesis
    using assms(1,7) view
    by (simp add: dg_forward_def ep_recv_arrived [OF assms(3,4)] st frame_of_buffer_def Let_def
        assms(6) [symmetric] assms(8) [symmetric] assms(9) [symmetric]
        split: prod.split sum.split)
qed

lemma dg_forward_sends:
  assumes "dl_is_server l" "wf_frame f" "socks k (fd (dl_endpoint l)) = Some sk"
    "sk_inbox sk = Arrived from x # rest" "length x \<ge> kRouterFrameSize"
    "src = peer_id_from_recv tr (dl_topo l) (case from of None \<Rightarrow> from_zero tr | Some a \<Rightarrow> a)"
    "src \<noteq> kEndpointInvalid"
    "g = set_timestamp_ns ts (set_source src \<lparr>bytes = take kRouterFrameSize x\<rparr>)"
    "tg = route_targets_for rules src (topic_id g)"
    "good = takeWhile (sendable os (dl_topo l) (bytes g)) (targets_list tg)"
  obtains r where "dg_forward tr os f ts rules (l, k) = (r, g, (add_forwarded (length (copies (dl_topo l) (bytes g) good)) l,
      put_sock (fd (dl_endpoint l)) (sk\<lparr>sk_inbox := rest, sk_outbox := sk_outbox sk @ copies (dl_topo l) (bytes g) good\<rparr>) k))"
    "good = targets_list tg \<Longrightarrow> r = Inr \<lparr>fwd_source = src, fwd_targets = tg\<rparr>" "good \<noteq> targets_list tg \<Longrightarrow> \<exists>e. r = Inl e"
proof -
  let ?sk = "sk\<lparr>sk_inbox := rest\<rparr>" and ?d = "fd (dl_endpoint l)"
  let ?k = "put_sock ?d ?sk k"
  have sk: "socks ?k ?d = Some ?sk" by simp
  from dg_fan_out [OF sk, of "bytes g" "Buffer_read_only (bytes g)", OF _ refl assms(10)] obtain r where
    r: "fan_out (dg_send_to_peer os (Buffer_read_only (bytes g))) (targets_list tg) (l, ?k) =
      (r, (add_forwarded (length (copies (dl_topo l) (bytes g) good)) l,
           put_sock ?d (?sk\<lparr>sk_outbox := sk_outbox ?sk @ copies (dl_topo l) (bytes g) good\<rparr>) ?k))"
      "r = Inr () \<longleftrightarrow> good = targets_list tg"
    by auto
  have twice: "put_sock ?d a (put_sock ?d b k) = put_sock ?d a k" for a b by (simp add: put_sock_def)
  show thesis
    using that dg_forward_frame [OF assms(1-9), of os] r twice by (cases r) auto
qed

text \<open>
  C26: \<open>forward\<close> on a datagram link, for a datagram that holds a whole frame from a known peer. The
  datagram is consumed; the frame is stamped with the id of the peer its sender address resolves
  to, whatever source it claims, and with the given time. The destinations of the first matching rule
  are served in order up to the first that cannot be sent to: those before it get one copy of the
  stamped frame each, and each copy is counted. The call returns normally exactly when every
  destination can be sent to; otherwise it raises at the first that cannot, and that one and all
  later ones, whether they could be reached or not, get nothing.
\<close>

theorem dg_forward_fanout:
  assumes "dl_is_server l" "wf_frame f" "socks k (fd (dl_endpoint l)) = Some sk"
    "sk_inbox sk = Arrived from x # rest" "length x \<ge> kRouterFrameSize"
    "src = peer_id_from_recv tr (dl_topo l) (case from of None \<Rightarrow> from_zero tr | Some a \<Rightarrow> a)"
    "src \<noteq> kEndpointInvalid"
    "g = set_timestamp_ns ts (set_source src \<lparr>bytes = take kRouterFrameSize x\<rparr>)"
    "tg = route_targets_for rules src (topic_id g)"
    "good = takeWhile (sendable os (dl_topo l) (bytes g)) (targets_list tg)"
  shows "\<exists>res l' k'. dg_forward tr os f ts rules (l, k) = (res, g, (l', k'))
    \<and> socks k' = (socks k)(fd (dl_endpoint l) \<mapsto>
        sk\<lparr>sk_inbox := rest, sk_outbox := sk_outbox sk @ copies (dl_topo l) (bytes g) good\<rparr>)
    \<and> dg_forwarded (dl_metrics l') = dg_forwarded (dl_metrics l)
        + of_nat (length (copies (dl_topo l) (bytes g) good))
    \<and> (good = targets_list tg \<longrightarrow> res = Inr \<lparr>fwd_source = src, fwd_targets = tg\<rparr>)
    \<and> (good \<noteq> targets_list tg \<longrightarrow> (\<exists>e. res = Inl e))"
  by (rule dg_forward_sends [where os = os, OF assms]) (auto simp: add_forwarded_def)

definition demo_dg_topology :: RouterTopology where
  "demo_dg_topology = \<lparr>peers =
     [\<lparr>peer_id = 1, peer_name = ''a'', local_addr = peer_uds ''/tmp/a'', shm_slot_count = 0, shm_max_payload = 0\<rparr>,
      \<lparr>peer_id = 4, peer_name = ''d'', local_addr = peer_uds ''/tmp/d'', shm_slot_count = 0, shm_max_payload = 0\<rparr>],
     router_listen = peer_uds ''/tmp/r'', topics = [], listen_uds = None, listen_udp = None\<rparr>"

definition demo_dg_link :: DatagramRouterLink where
  "demo_dg_link = \<lparr>dl_topo = demo_dg_topology, dl_is_server = True, dl_peer_id = 0,
     dl_endpoint = \<lparr>fd = 3\<rparr>, dl_metrics = DatagramRouterMetrics_zero\<rparr>"

text \<open>A frame of topic 100 from the first peer that claims to come from peer 9.\<close>

definition demo_frame :: bytes where
  "demo_frame = bytes (set_topic_id 100 (init 9 RouterFrame_default))"

definition demo_sock :: Sock where
  "demo_sock = Sock_new\<lparr>sk_inbox := [Arrived (Some (SockUn ''/tmp/a'')) demo_frame]\<rparr>"

lemma demo_frame_length: "length demo_frame = kRouterFrameSize"
proof -
  have "wf_frame (set_topic_id 100 (init 9 RouterFrame_default))" by simp
  then show ?thesis by (simp add: demo_frame_def wf_frame_def)
qed

lemma demo_route:
  "peer_id_from_recv UdsT demo_dg_topology (SockUn ''/tmp/a'') = 1"
  "targets_list (route_targets_for demo_rules 1 100) = [4]"
  "copies demo_dg_topology x [4] = [(SockUn ''/tmp/d'', x)]"
proof -
  show "peer_id_from_recv UdsT demo_dg_topology (SockUn ''/tmp/a'') = 1"
    by (simp add: peer_id_from_recv_def demo_dg_topology_def peer_find_def strcmp_eq_def c_str_def)
  have "\<forall>r\<in>set demo_rules. wf_rule r" by (simp add: demo_rules_def wf_rule_def kMaxRouteDests_def)
  from route_targets_spec [OF this] show "targets_list (route_targets_for demo_rules 1 100) = [4]"
    by (simp add: route_spec_def demo_rules_def rule_matches_def rule_dests_def kRouteTopicAny_def)
  show "copies demo_dg_topology x [4] = [(SockUn ''/tmp/d'', x)]"
    by (simp add: copies_def copy_for_def lookup_defs demo_dg_topology_def sun_path_def c_str_def)
qed

definition demo_stamped :: RouterFrame where
  "demo_stamped = set_timestamp_ns 5 (set_source 1 \<lparr>bytes = take kRouterFrameSize demo_frame\<rparr>)"

lemma demo_stamped_fields: "source demo_stamped = 1" "topic_id demo_stamped = 100"
proof -
  have "\<lparr>bytes = bytes h\<rparr> = h" for h :: RouterFrame by (cases h) simp
  then have df: "\<lparr>bytes = demo_frame\<rparr> = set_topic_id 100 (init 9 RouterFrame_default)"
    unfolding demo_frame_def .
  show "source demo_stamped = 1" "topic_id demo_stamped = 100"
    by (simp_all add: demo_stamped_def demo_frame_length df)
qed

lemma demo_good: "[4] = takeWhile (sendable demo_os demo_dg_topology x)
    (targets_list (route_targets_for demo_rules 1 (topic_id demo_stamped)))"
  by (simp add: demo_stamped_fields demo_route sendable_def demo_os_def lookup_defs demo_dg_topology_def)

lemma demo_forward:
  "\<exists>tg s'. dg_forward UdsT demo_os RouterFrame_default 5 demo_rules
      (demo_dg_link, demo_kernel\<lparr>socks := [3 \<mapsto> demo_sock\<lparr>sk_timeout := tm\<rparr>]\<rparr>)
      = (Inr \<lparr>fwd_source = 1, fwd_targets = tg\<rparr>, demo_stamped, s') \<and> targets_list tg = [4]"
proof -
  let ?sk = "demo_sock\<lparr>sk_timeout := tm\<rparr>"
  let ?k = "demo_kernel\<lparr>socks := [3 \<mapsto> ?sk]\<rparr>"
  let ?tg = "route_targets_for demo_rules 1 (topic_id demo_stamped)"
  let ?k1 = "put_sock (fd (dl_endpoint demo_dg_link)) (?sk\<lparr>sk_inbox := []\<rparr>) ?k"
  have l: "dl_is_server demo_dg_link" "fd (dl_endpoint demo_dg_link) = 3" "dl_topo demo_dg_link = demo_dg_topology"
    by (simp_all add: demo_dg_link_def)
  have wf: "wf_frame RouterFrame_default" by (simp add: wf_frame_def RouterFrame_default_def)
  have sk: "socks ?k (fd (dl_endpoint demo_dg_link)) = Some ?sk"
    "sk_inbox ?sk = Arrived (Some (SockUn ''/tmp/a'')) demo_frame # []"
    by (simp_all add: l demo_sock_def)
  have src: "1 = peer_id_from_recv UdsT (dl_topo demo_dg_link)
      (case Some (SockUn ''/tmp/a'') of None \<Rightarrow> from_zero UdsT | Some a \<Rightarrow> a)" "(1 :: u8) \<noteq> kEndpointInvalid"
    by (simp_all add: l demo_route kEndpointInvalid_def)
  have len: "length demo_frame \<ge> kRouterFrameSize" by (simp add: demo_frame_length)
  note fw = dg_forward_frame [OF l(1) wf sk len src demo_stamped_def refl, of demo_os]
  have "socks ?k1 (fd (dl_endpoint demo_dg_link)) = Some (?sk\<lparr>sk_inbox := []\<rparr>)" by simp
  note fan = dg_fan_out [OF this buffer_bytes_read_only [symmetric] l(3) [symmetric] demo_good,
      of "bytes demo_stamped"]
  have tg: "targets_list ?tg = [4]" by (simp only: demo_stamped_fields demo_route)
  obtain s2 where "fan_out (dg_send_to_peer demo_os (Buffer_read_only (bytes demo_stamped))) (targets_list ?tg)
      (demo_dg_link, ?k1) = (Inr (), s2)"
    using fan unfolding tg by blast
  then have "dg_forward UdsT demo_os RouterFrame_default 5 demo_rules (demo_dg_link, ?k)
      = (Inr \<lparr>fwd_source = 1, fwd_targets = ?tg\<rparr>, demo_stamped, s2)"
    unfolding fw by simp
  then show ?thesis using tg by blast
qed

theorem dg_forward_fanout_witness:
  "\<exists>g l' k' tg. dg_forward UdsT demo_os RouterFrame_default 5 demo_rules
      (demo_dg_link, demo_kernel\<lparr>socks := [3 \<mapsto> demo_sock]\<rparr>) = (Inr \<lparr>fwd_source = 1, fwd_targets = tg\<rparr>, g, (l', k'))
    \<and> targets_list tg = [4] \<and> source g = 1 \<and> dg_forwarded (dl_metrics l') = 1
    \<and> map_option sk_outbox (socks k' 3) = Some [(SockUn ''/tmp/d'', bytes g)]"
proof -
  have sk: "sk_inbox demo_sock = [Arrived (Some (SockUn ''/tmp/a'')) demo_frame]" "sk_outbox demo_sock = []"
    by (simp_all add: demo_sock_def Sock_new_def)
  have srv: "dl_is_server demo_dg_link" "fd (dl_endpoint demo_dg_link) = 3" "dl_topo demo_dg_link = demo_dg_topology"
    "dg_forwarded (dl_metrics demo_dg_link) = 0"
    by (simp_all add: demo_dg_link_def DatagramRouterMetrics_zero_def)
  have "wf_frame RouterFrame_default" by (simp add: wf_frame_def RouterFrame_default_def)
  from dg_forward_fanout [OF srv(1) this _ sk(1) _ _ _ demo_stamped_def refl demo_good [folded srv(3)],
      of "demo_kernel\<lparr>socks := [3 \<mapsto> demo_sock]\<rparr>" UdsT] srv sk(2) demo_stamped_fields demo_frame_length
  show ?thesis by (auto simp: demo_route kEndpointInvalid_def)
qed

text \<open>A datagram that is too short, or of no known peer, is consumed.\<close>

lemma dg_forward_drops:
  assumes "dl_is_server l" "wf_frame f" "socks k (fd (dl_endpoint l)) = Some sk" "sk_inbox sk = Arrived from x # rest"
    "length x < kRouterFrameSize \<or> peer_id_from_recv tr (dl_topo l) (case from of None \<Rightarrow> from_zero tr | Some a \<Rightarrow> a) = kEndpointInvalid"
    "dg_forward tr os f ts rules (l, k) = (res, f', (l', k'))"
  shows "res = Inr ForwardResult_empty" "l' = (if length x < kRouterFrameSize then bump_truncated l else bump_unknown l)"
    "k' = put_sock (fd (dl_endpoint l)) (sk\<lparr>sk_inbox := rest\<rparr>) k"
proof -
  let ?b = "frame_writable f"
  have cap: "capacity ?b = kRouterFrameSize"
    using assms(2) by (simp add: frame_writable_def Buffer_writable_def wf_frame_def)
  have "dg_forward tr os f ts rules (l, k) =
      (Inr ForwardResult_empty, f', (if length x < kRouterFrameSize then bump_truncated l else bump_unknown l,
         put_sock (fd (dl_endpoint l)) (sk\<lparr>sk_inbox := rest\<rparr>) k))"
    using assms(1,5,6)
    by (auto simp: dg_forward_def ep_recv_arrived [OF assms(3,4)] cap store_recv_def Let_def split: if_splits)
  then show "res = Inr ForwardResult_empty" "l' = (if length x < kRouterFrameSize then bump_truncated l else bump_unknown l)"
    "k' = put_sock (fd (dl_endpoint l)) (sk\<lparr>sk_inbox := rest\<rparr>) k"
    using assms(6) by simp_all
qed

text \<open>
  C35: what the datagram router does with anything else. A failed receive raises and changes no
  counter. A datagram shorter than a frame, or whose sender is no peer of the topology, is
  consumed and counted under the respective counter; the call returns the empty result and
  nothing is sent.
\<close>

theorem dg_forward_rejects:
  assumes "dl_is_server l" "wf_frame f" "socks k (fd (dl_endpoint l)) = Some sk"
    "dg_forward tr os f ts rules (l, k) = (res, f', (l', k'))"
    "from' = (case from of None \<Rightarrow> from_zero tr | Some a \<Rightarrow> a)"
  shows "((sk_inbox sk = [] \<or> sk_inbox sk = Failure err # rest) \<longrightarrow>
      (\<exists>m. res = Inl (RuntimeError m)) \<and> l' = l \<and> f' = f)
    \<and> (sk_inbox sk = Arrived from x # rest \<longrightarrow> length x < kRouterFrameSize \<longrightarrow>
      res = Inr ForwardResult_empty \<and> l' = bump_truncated l \<and> k' = put_sock (fd (dl_endpoint l)) (sk\<lparr>sk_inbox := rest\<rparr>) k)
    \<and> (sk_inbox sk = Arrived from x # rest \<longrightarrow> length x \<ge> kRouterFrameSize \<longrightarrow>
      peer_id_from_recv tr (dl_topo l) from' = kEndpointInvalid \<longrightarrow>
      res = Inr ForwardResult_empty \<and> l' = bump_unknown l \<and> k' = put_sock (fd (dl_endpoint l)) (sk\<lparr>sk_inbox := rest\<rparr>) k)"
proof -
  have none: "(\<exists>m. res = Inl (RuntimeError m)) \<and> l' = l \<and> f' = f"
    if "sk_inbox sk = [] \<or> sk_inbox sk = Failure err # rest"
    using that assms(1,3,4)
    by (cases tr) (auto simp: dg_forward_def ep_recv_def Uds_recv_def Udp_recv_def dg_recv_def sys_recvfrom_def)
  show ?thesis
    using none dg_forward_drops [OF assms(1-3) _ _ assms(4), where rest = rest and x = x] assms(5) by simp
qed

theorem dg_forward_rejects_witness:
  "\<exists>f' l' k'. dg_forward UdpT demo_os RouterFrame_default 5 demo_rules
      (demo_dg_link, demo_kernel\<lparr>socks := [3 \<mapsto> Sock_new\<lparr>sk_inbox := [Arrived None [1, 2]]\<rparr>]\<rparr>)
      = (Inr ForwardResult_empty, f', (l', k')) \<and> l' = bump_truncated demo_dg_link"
proof -
  let ?k = "demo_kernel\<lparr>socks := [3 \<mapsto> Sock_new\<lparr>sk_inbox := [Arrived None [1, 2]]\<rparr>]\<rparr>"
  obtain res f' l' k' where fwd: "dg_forward UdpT demo_os RouterFrame_default 5 demo_rules (demo_dg_link, ?k)
      = (res, f', (l', k'))" by (metis prod_cases4)
  have "dl_is_server demo_dg_link" "wf_frame RouterFrame_default"
    "socks ?k (fd (dl_endpoint demo_dg_link)) = Some (Sock_new\<lparr>sk_inbox := [Arrived None [1, 2]]\<rparr>)"
    by (simp_all add: demo_dg_link_def wf_frame_def RouterFrame_default_def)
  from dg_forward_rejects [OF this fwd refl, of EAGAIN "[]" None "[1, 2]"] fwd show ?thesis
    by (simp add: kRouterFrameSize_def)
qed

section \<open>Attribution of senders\<close>

text \<open>
  Unix-domain senders are attributed exactly. In a topology whose Unix peers have distinct
  paths without NULs that fit \<open>sun_path\<close>, the address a peer's socket is bound to resolves to that
  peer's id, and an address that belongs to no peer resolves to the invalid id.
\<close>

lemma uds_attribution:
  assumes "\<forall>e\<in>set (peers t). \<forall>e'\<in>set (peers t). kind (local_addr e) = UdsPath \<longrightarrow>
      kind (local_addr e') = UdsPath \<longrightarrow> uds_path (local_addr e) = uds_path (local_addr e') \<longrightarrow> peer_id e = peer_id e'"
    "\<forall>e\<in>set (peers t). kind (local_addr e) = UdsPath \<longrightarrow>
      NUL \<notin> set (uds_path (local_addr e)) \<and> length (uds_path (local_addr e)) \<le> 107"
  shows "(\<forall>e\<in>set (peers t). kind (local_addr e) = UdsPath \<longrightarrow>
      peer_id_from_recv UdsT t (SockUn (sun_path (uds_path (local_addr e)))) = peer_id e)
    \<and> ((\<forall>e\<in>set (peers t). kind (local_addr e) = UdsPath \<longrightarrow> uds_path (local_addr e) \<noteq> c_str p) \<longrightarrow>
      peer_id_from_recv UdsT t (SockUn p) = kEndpointInvalid)"
proof -
  let ?uds = "\<lambda>e. kind (local_addr e) = UdsPath" and ?p = "\<lambda>e. uds_path (local_addr e)"
  have find: "peer_id_from_recv UdsT t (SockUn p) =
      (case find (\<lambda>e. ?uds e \<and> ?p e = c_str p) (peers t) of Some e \<Rightarrow> peer_id e | None \<Rightarrow> kEndpointInvalid)" for p
  proof -
    have "find (\<lambda>e. ?uds e \<and> strcmp_eq (?p e) p) (peers t) = find (\<lambda>e. ?uds e \<and> ?p e = c_str p) (peers t)"
      by (rule find_cong) (use assms(2) in \<open>auto simp: strcmp_eq_def c_str_id\<close>)
    then show ?thesis by (simp add: peer_id_from_recv_def lookup_defs)
  qed
  have "peer_id_from_recv UdsT t (SockUn (sun_path (?p e))) = peer_id e" if e: "e \<in> set (peers t)" "?uds e" for e
  proof -
    have "sun_path (?p e) = ?p e" "c_str (?p e) = ?p e"
      using assms(2) e by (auto simp: sun_path_def c_str_id)
    moreover have "find (\<lambda>d. ?uds d \<and> ?p d = ?p e) (peers t) \<noteq> None"
      unfolding find_None_iff using e by blast
    then obtain e' where e': "find (\<lambda>d. ?uds d \<and> ?p d = ?p e) (peers t) = Some e'" by blast
    moreover from find_Some_in [OF e'] have "peer_id e' = peer_id e" using assms(1) e by blast
    ultimately show ?thesis by (simp add: find)
  qed
  moreover have "peer_id_from_recv UdsT t (SockUn p) = kEndpointInvalid"
    if "\<forall>e\<in>set (peers t). ?uds e \<longrightarrow> ?p e \<noteq> c_str p"
  proof -
    have "find (\<lambda>e. ?uds e \<and> ?p e = c_str p) (peers t) = None" using that by (auto simp: find_None_iff)
    then show ?thesis by (simp add: find)
  qed
  ultimately show ?thesis by blast
qed

lemma uds_attribution_witness:
  "peer_id_from_recv UdsT demo_dg_topology (SockUn (sun_path ''/tmp/d'')) = 4"
  using uds_attribution [of demo_dg_topology] by (simp add: demo_dg_topology_def)

text \<open>
  UDP senders are attributed by port alone. The host the datagram came from has no influence
  on the peer it is attributed to, so any host that sends from the port of a peer is taken for it.
\<close>

lemma udp_attribution_ignores_host:
  "peer_id_from_recv UdpT t (SockIn ip port) = peer_id_from_recv UdpT t (SockIn ip' port)
   \<and> (e \<in> set (peers t) \<longrightarrow> local_addr e = peer_udp host port \<longrightarrow>
       peer_id_from_recv UdpT t (SockIn ip port) \<in> peer_id ` set (peers t))"
proof (intro conjI impI)
  let ?P = "\<lambda>e. kind (local_addr e) = UdpEndpoint \<and> udp_port (local_addr e) = port"
  assume e: "e \<in> set (peers t)" "local_addr e = peer_udp host port"
  then have "?P e" by simp
  then have "find ?P (peers t) \<noteq> None" unfolding find_None_iff using e(1) by blast
  then obtain d where d: "find ?P (peers t) = Some d" by blast
  then show "peer_id_from_recv UdpT t (SockIn ip port) \<in> peer_id ` set (peers t)"
    using find_Some_in [OF d] by (simp add: peer_id_from_recv_def lookup_defs)
qed (simp add: peer_id_from_recv_def)

definition demo_udp_topology :: RouterTopology where
  "demo_udp_topology = demo_dg_topology\<lparr>peers := [\<lparr>peer_id = 7, peer_name = ''u'',
     local_addr = peer_udp ''10.0.0.1'' 5000, shm_slot_count = 0, shm_max_payload = 0\<rparr>]\<rparr>"

lemma udp_attribution_ignores_host_witness:
  "peer_id_from_recv UdpT demo_udp_topology (SockIn [192, 168, 0, 66] 5000) = 7"
proof -
  let ?e = "hd (peers demo_udp_topology)"
  have "?e \<in> set (peers demo_udp_topology)" "local_addr ?e = peer_udp ''10.0.0.1'' 5000"
    "peer_id ` set (peers demo_udp_topology) = {7}"
    by (simp_all add: demo_udp_topology_def)
  then show ?thesis
    using udp_attribution_ignores_host [of demo_udp_topology "[192, 168, 0, 66]" 5000 "[]" ?e "''10.0.0.1''"]
    by (metis singletonD)
qed

end
