(* ===== verification/Node.thy ===== *)
theory Node
  imports ShmLink DatagramLink
begin

text \<open>
  \<open>ipc/src/router/node.hpp\<close>, \<open>link_concept.hpp\<close>: the router server loop and the client, generic
  in the link. The locale \<open>router_link\<close> is what the loop relies on of a link; both link types
  implement it. Time and other processes are the environment of a run: the stop flag, the two
  clocks and the interference of other processes at each turn of the loop.
\<close>

section \<open>The server loop\<close>

record RouterRunOptions =
  poll_timeout_ms :: int
  idle_exit_ms :: int
  idle_sleep_us :: int

definition RouterRunOptions_default :: RouterRunOptions where
  "RouterRunOptions_default = \<lparr>poll_timeout_ms = 200, idle_exit_ms = 0, idle_sleep_us = 1000\<rparr>"

record 's RunEnv =
  stop_flag :: "nat \<Rightarrow> bool"
  now_ns :: "nat \<Rightarrow> u64"
  steady_ms :: "nat \<Rightarrow> int"
  others :: "nat \<Rightarrow> 's \<Rightarrow> 's"

text \<open>What a run does besides forwarding: callbacks, idling, swallowed exceptions.\<close>

datatype run_event = OnForward u8 u8 RouterFrame | Slept int | Yielded | Caught error

type_synonym 's fwd_op =
  "RouterFrame \<Rightarrow> u64 \<Rightarrow> RouteRule list \<Rightarrow> 's \<Rightarrow> ForwardResult res \<times> RouterFrame \<times> 's"

definition then_events :: "run_event list \<Rightarrow> 'b \<times> run_event list \<times> 'r \<Rightarrow> 'b \<times> run_event list \<times> 'r" where
  "then_events ev = (\<lambda>(fin, evs, r). (fin, ev @ evs, r))"

text \<open>
  What follows \<open>forward\<close> in one turn, by its outcome: the events, and \<open>last_activity\<close> for the next
  turn or \<open>None\<close> when the loop returns.
\<close>

fun after_forward :: "RouterRunOptions \<Rightarrow> int \<Rightarrow> int \<Rightarrow> ForwardResult res \<Rightarrow> RouterFrame \<Rightarrow>
    run_event list \<times> int option" where
  "after_forward opts now prev (Inr r) f =
     (if forwarded_frame r
      then (map (\<lambda>d. OnForward (fwd_source r) d f) (targets_list (fwd_targets r)), Some now)
      else if idle_exit_ms opts > 0 \<and> router_idle_expired now prev (idle_exit_ms opts) then ([], None)
      else if idle_sleep_us opts > 0 then ([Slept (idle_sleep_us opts)], Some prev)
      else ([Yielded], Some prev))"
| "after_forward opts now prev (Inl e) f =
     (if idle_exit_ms opts > 0 \<and> router_idle_expired now prev (idle_exit_ms opts) then ([Caught e], None)
      else ([Caught e], Some prev))"

text \<open>
  The loop from turn \<open>i\<close> on, for at most \<open>fuel\<close> turns: whether it returned, the events, and the
  frame and state it left. Every turn reads the steady clock at most once. \<open>hangs\<close> says in which
  states \<open>forward\<close> would wait for ever: the loop then stays in that turn and reads no flag again.
\<close>

fun server_loop :: "('s \<Rightarrow> bool) \<Rightarrow> 's fwd_op \<Rightarrow> 's RunEnv \<Rightarrow> RouterRunOptions \<Rightarrow> RouteRule list \<Rightarrow> nat \<Rightarrow> nat \<Rightarrow> int \<Rightarrow>
    RouterFrame \<Rightarrow> 's \<Rightarrow> bool \<times> run_event list \<times> RouterFrame \<times> 's" where
  "server_loop hangs fwd env opts rules 0 i prev f s = (False, [], f, s)"
| "server_loop hangs fwd env opts rules (Suc fuel) i prev f s =
     (if stop_flag env i then (True, [], f, s)
      else if hangs s then (False, [], f, s)
      else case fwd f (now_ns env i) rules s of
        (res, f1, s1) \<Rightarrow> (case after_forward opts (steady_ms env i) prev res f1 of
          (ev, None) \<Rightarrow> (True, ev, f1, s1)
        | (ev, Some p) \<Rightarrow>
            then_events ev (server_loop hangs fwd env opts rules fuel (Suc i) p f1 (others env i s1))))"

text \<open>
  \<open>RouterServer<ShmRouterLink>\<close> and \<open>RouterServer<DatagramRouterLink<T>>\<close>. The shared-memory link
  polls and never waits; the datagram link calls \<open>recvfrom\<close> with no flags.
\<close>

definition dg_hangs :: "dg_state \<Rightarrow> bool" where
  "dg_hangs = (\<lambda>(l, k). dl_is_server l \<and> recvfrom_hangs (fd (dl_endpoint l)) k)"

definition ShmRouterServer_run ::
    "shm_link_state RunEnv \<Rightarrow> RouterRunOptions \<Rightarrow> RouteRule list \<Rightarrow> nat \<Rightarrow> int \<Rightarrow> shm_link_state \<Rightarrow>
     bool \<times> run_event list \<times> RouterFrame \<times> shm_link_state" where
  "ShmRouterServer_run env opts rules fuel start = (\<lambda>(l, w).
     server_loop (\<lambda>_. False) forward env opts rules fuel 0 start RouterFrame_default
       (set_recv_timeout_ms (poll_timeout_ms opts) l, w))"

text \<open>The datagram link's \<open>set_recv_timeout_ms\<close> may raise, outside the \<open>try\<close> block.\<close>

definition DatagramRouterServer_run ::
    "DgTransport \<Rightarrow> NetOs \<Rightarrow> dg_state RunEnv \<Rightarrow> RouterRunOptions \<Rightarrow> RouteRule list \<Rightarrow> nat \<Rightarrow> int \<Rightarrow> dg_state \<Rightarrow>
     (bool \<times> run_event list \<times> RouterFrame \<times> dg_state) res" where
  "DatagramRouterServer_run tr os env opts rules fuel start s =
     (case dg_set_recv_timeout_ms tr os (poll_timeout_ms opts) s of
        (Inl e, _) \<Rightarrow> Inl e
      | (Inr _, s1) \<Rightarrow>
          Inr (server_loop dg_hangs (dg_forward tr os) env opts rules fuel 0 start RouterFrame_default s1))"

lemma then_events_simps [simp]:
  "fst (then_events ev r) = fst r" "fst (snd (then_events ev r)) = ev @ fst (snd r)"
  "snd (snd (then_events ev r)) = snd (snd r)"
  by (cases r; simp add: then_events_def)+

section \<open>The client\<close>

definition message_frame :: "u8 \<Rightarrow> string \<Rightarrow> RouterFrame res" where
  "message_frame src text = set_payload_str text (init src RouterFrame_default)"

definition ShmRouterClient_send_message ::
    "(nat \<Rightarrow> bytes \<Rightarrow> bytes) \<Rightarrow> u8 \<Rightarrow> string \<Rightarrow> shm_link_state \<Rightarrow> (unit res \<times> shm_link_state) option" where
  "ShmRouterClient_send_message env src text s =
     (case message_frame src text of
        Inl e \<Rightarrow> Some (Inl e, s) | Inr f \<Rightarrow> send_to_router env f s)"

definition DatagramRouterClient_send_message :: "NetOs \<Rightarrow> u8 \<Rightarrow> string \<Rightarrow> (dg_state, unit) call" where
  "DatagramRouterClient_send_message os src text s =
     (case message_frame src text of Inl e \<Rightarrow> (Inl e, s) | Inr f \<Rightarrow> dg_send_to_router os f s)"

text \<open>
  The rest of the two classes hands each call to the link. For the datagram instances the
  template argument comes first.
\<close>

definition ShmRouterServer_new :: "RouterTopology \<Rightarrow> ShmRouterLink" where
  "ShmRouterServer_new t = ShmRouterLink_server t"

definition ShmRouterServer_bind_router :: "(string \<Rightarrow> ShmOs) \<Rightarrow> ShmBindParams \<Rightarrow> (shm_link_state, unit) call" where
  "ShmRouterServer_bind_router os p s = bind_router os p s"

definition ShmRouterClient_new :: "ShmOs \<Rightarrow> RouterTopology \<Rightarrow> u8 \<Rightarrow> ShmWorld \<Rightarrow> ShmRouterLink res \<times> ShmWorld" where
  "ShmRouterClient_new os t pid w = ShmRouterLink_client os t pid w"

definition ShmRouterClient_recv_message :: "RouterFrame \<Rightarrow> shm_link_state \<Rightarrow> bool res \<times> RouterFrame \<times> shm_link_state" where
  "ShmRouterClient_recv_message f s = recv_message f s"

definition ShmRouterClient_recv_message_until :: "(nat \<Rightarrow> bool) \<Rightarrow> (nat \<Rightarrow> ShmWorld \<Rightarrow> ShmWorld) \<Rightarrow> nat \<Rightarrow> u8 \<Rightarrow>
    RouterFrame \<Rightarrow> shm_link_state \<Rightarrow> (bool res \<times> RouterFrame \<times> shm_link_state) option" where
  "ShmRouterClient_recv_message_until stop env fuel wanted f s = recv_message_until stop env fuel 0 wanted f s"

definition DatagramRouterServer_new :: "DgTransport \<Rightarrow> NetOs \<Rightarrow> RouterTopology \<Rightarrow> Kernel \<Rightarrow>
    DatagramRouterLink res \<times> Kernel" where
  "DatagramRouterServer_new tr os t k = dg_server tr os t k"

definition DatagramRouterServer_bind_router :: "NetOs \<Rightarrow> DgBindParams \<Rightarrow> (dg_state, unit) call" where
  "DatagramRouterServer_bind_router os p s = dg_bind_router os p s"

definition DatagramRouterClient_new :: "DgTransport \<Rightarrow> NetOs \<Rightarrow> RouterTopology \<Rightarrow> u8 \<Rightarrow> Kernel \<Rightarrow>
    DatagramRouterLink res \<times> Kernel" where
  "DatagramRouterClient_new tr os t pid k = dg_client tr os t pid k"

definition DatagramRouterClient_recv_message :: "DgTransport \<Rightarrow> RouterFrame \<Rightarrow> dg_state \<Rightarrow> bool res \<times> RouterFrame \<times> dg_state" where
  "DatagramRouterClient_recv_message tr f s = dg_recv_message tr f s"

definition DatagramRouterClient_recv_message_until :: "DgTransport \<Rightarrow> NetOs \<Rightarrow> (nat \<Rightarrow> bool) \<Rightarrow>
    (nat \<Rightarrow> Kernel \<Rightarrow> Kernel) \<Rightarrow> nat \<Rightarrow> u8 \<Rightarrow> RouterFrame \<Rightarrow> int \<Rightarrow> dg_state \<Rightarrow>
    (bool res \<times> RouterFrame \<times> dg_state) option" where
  "DatagramRouterClient_recv_message_until tr os stop env fuel wanted f ms s =
     dg_recv_message_until tr os stop env fuel wanted f ms s"

text \<open>The timeouts of servers and clients, and \<open>router_forward\<close> on any link.\<close>

definition ShmRouter_set_recv_timeout_ms :: "int \<Rightarrow> ShmRouterLink \<Rightarrow> ShmRouterLink" where
  "ShmRouter_set_recv_timeout_ms ms l = set_recv_timeout_ms ms l"

definition DatagramRouter_set_recv_timeout_ms :: "DgTransport \<Rightarrow> NetOs \<Rightarrow> int \<Rightarrow> (dg_state, unit) call" where
  "DatagramRouter_set_recv_timeout_ms tr os ms = dg_set_recv_timeout_ms tr os ms"

definition ShmRouterClient_set_recv_blocking :: "ShmRouterLink \<Rightarrow> ShmRouterLink" where
  "ShmRouterClient_set_recv_blocking l = set_recv_blocking l"

definition DatagramRouterClient_set_recv_blocking :: "DgTransport \<Rightarrow> NetOs \<Rightarrow> (dg_state, unit) call" where
  "DatagramRouterClient_set_recv_blocking tr os = dg_set_recv_blocking tr os"

definition router_forward :: "'s fwd_op \<Rightarrow> 's fwd_op" where
  "router_forward link_forward f ts rules s = link_forward f ts rules s"

section \<open>What the loop relies on of a link\<close>

locale router_link =
  fixes fwd :: "'s fwd_op"
  assumes fwd_wf: "wf_frame f \<Longrightarrow> fwd f ts rules s = (res, f', s') \<Longrightarrow> wf_frame f'"
    and fwd_stamped: "wf_frame f \<Longrightarrow> fwd f ts rules s = (Inr r, f', s') \<Longrightarrow> forwarded_frame r \<Longrightarrow>
      source f' = fwd_source r \<and> timestamp_ns f' = ts
      \<and> fwd_targets r = route_targets_for rules (fwd_source r) (topic_id f')"
begin

lemma after_forward_reports:
  assumes "wf_frame f" "fwd f ts rules s = (res, f', s')" "OnForward src dst g \<in> set (fst (after_forward opts now prev res f'))"
  shows "source g = src \<and> dst \<in> set (targets_list (route_targets_for rules src (topic_id g))) \<and> timestamp_ns g = ts"
proof (cases res)
  case (Inr r)
  then have "forwarded_frame r" "src = fwd_source r" "g = f'" "dst \<in> set (targets_list (fwd_targets r))"
    using assms(3) by (auto split: if_splits)
  then show ?thesis using fwd_stamped [OF assms(1) assms(2) [unfolded Inr]] by simp
qed (use assms(3) in \<open>auto split: if_splits\<close>)

text \<open>A reported forward is one that the rules allow, of a frame stamped by the router.\<close>

lemma reports_sound:
  assumes "wf_frame f" "OnForward src dst g \<in> set (fst (snd (server_loop hangs fwd env opts rules fuel i prev f s)))"
  shows "source g = src \<and> dst \<in> set (targets_list (route_targets_for rules src (topic_id g)))
    \<and> timestamp_ns g \<in> range (now_ns env)"
  using assms
proof (induction fuel arbitrary: i prev f s)
  case (Suc fuel)
  obtain res f1 s1 where fw: "fwd f (now_ns env i) rules s = (res, f1, s1)" by (metis prod_cases3)
  obtain ev nx where af: "after_forward opts (steady_ms env i) prev res f1 = (ev, nx)" by fastforce
  have "\<not> stop_flag env i" "\<not> hangs s" using Suc.prems(2) by (auto split: if_splits)
  then consider "OnForward src dst g \<in> set ev"
    | p where "OnForward src dst g \<in> set (fst (snd (server_loop hangs fwd env opts rules fuel (Suc i) p f1 (others env i s1))))"
    using Suc.prems(2) fw af by (cases nx) auto
  then show ?case
  proof cases
    case 1
    then show ?thesis using after_forward_reports [OF Suc.prems(1) fw, of src dst g opts "steady_ms env i" prev] af
      by auto
  next
    case 2
    then show ?thesis by (rule Suc.IH [OF fwd_wf [OF Suc.prems(1) fw]])
  qed
qed simp

text \<open>The loop returns at the first turn at which the flag is set, if not before, when no turn hangs.\<close>

lemma stops:
  assumes fwd_I: "\<And>f ts s r f' s'. fwd f ts rules s = (r, f', s') \<Longrightarrow> I s \<Longrightarrow> I s'"
    and others_I: "\<And>i s. I s \<Longrightarrow> I (others env i s)"
    and I_returns: "\<And>s. I s \<Longrightarrow> \<not> hangs s"
  shows "stop_flag env (i + n) \<Longrightarrow> n < fuel \<Longrightarrow> I s \<Longrightarrow> fst (server_loop hangs fwd env opts rules fuel i prev f s)"
proof (induction n arbitrary: fuel i prev f s)
  case 0
  then show ?case by (cases fuel) simp_all
next
  case (Suc n)
  then obtain fuel' where fuel: "fuel = Suc fuel'" "n < fuel'" by (cases fuel) auto
  obtain res f1 s1 where fw: "fwd f (now_ns env i) rules s = (res, f1, s1)" by (metis prod_cases3)
  have "fst (server_loop hangs fwd env opts rules fuel' (Suc i) p f1 (others env i s1))" for p
    using Suc.prems(1,3) fuel(2) fwd_I [OF fw] by (intro Suc.IH others_I) simp_all
  then show ?case
    using fw I_returns [OF Suc.prems(3)] by (simp add: fuel split: prod.splits option.splits)
qed

end

lemma wf_ep_try_recv:
  assumes "ep_try_recv h (frame_writable f) w = Inr (got, buf, w')" "wf_frame f"
  shows "wf_frame (frame_of_buffer buf)"
proof -
  have f: "data (frame_writable f) = bytes f" "capacity (frame_writable f) = length (bytes f)"
    by (simp_all add: frame_writable_def Buffer_writable_def)
  from assms(1) obtain r m where "shm_try_pop_slot (rx_ring r) (frame_writable f) (mem_of w r) = Inr (got, buf, m)"
    by (auto simp: ep_try_recv_def ShmSpsc_try_recv_def split: option.splits sum.splits)
  moreover have "length (write_bytes 0 (read_bytes a n m) (bytes f)) = length (bytes f)"
    if "n \<le> length (bytes f)" for a n m
    using that by (intro length_write_bytes) (simp add: read_bytes_def)
  ultimately have "length (data buf) = length (bytes f)"
    using f by (auto simp: shm_try_pop_slot_def Let_def split: if_splits)
  then show ?thesis using assms(2) by (simp add: wf_frame_def frame_of_buffer_def)
qed

lemma receive_scan_frame:
  "wf_frame f \<Longrightarrow> receive_scan cs f ts mt w = (res, f', mt', w') \<Longrightarrow>
   wf_frame f' \<and> (\<forall>src. res = Inr src \<longrightarrow> src \<noteq> kEndpointInvalid \<longrightarrow> source f' = src \<and> timestamp_ns f' = ts)"
proof (induction cs arbitrary: f mt w)
  case (Cons c cs)
  show ?case
  proof (cases "ep_try_recv (chan_endpoint c) (frame_writable f) w")
    case (Inl e)
    then show ?thesis using Cons.prems by auto
  next
    case (Inr x)
    obtain got buf w1 where x: "x = (got, buf, w1)" by (rule prod_cases3)
    have wf: "wf_frame (frame_of_buffer buf)" using wf_ep_try_recv [OF _ Cons.prems(1)] Inr x by blast
    consider "receive_scan cs (frame_of_buffer buf) ts mt w1 = (res, f', mt', w')"
      | "receive_scan cs (frame_of_buffer buf) ts (mt\<lparr>recv_truncated := recv_truncated mt + 1\<rparr>) w1 = (res, f', mt', w')"
      | "res = Inr (chan_peer_id c)" "f' = set_timestamp_ns ts (set_source (chan_peer_id c) (frame_of_buffer buf))"
      using Cons.prems(2) Inr x by (auto simp: Let_def split: if_splits)
    then show ?thesis by cases (use wf Cons.IH in \<open>auto\<close>)
  qed
qed (auto simp: kEndpointInvalid_def)

interpretation shm_node: router_link forward
proof (unfold_locales, goal_cases)
  case (1 f ts rules s res f' s')
  obtain r1 f1 s1 where rcv: "try_receive f ts s = (r1, f1, s1)" by (rule prod_cases3)
  then have "wf_frame f1" using receive_scan_frame [OF 1(1)]
    by (fastforce simp: try_receive_def split: prod.splits)
  then show ?case
    using 1 rcv by (auto simp: forward_def Let_def split: if_splits sum.splits prod.splits)
next
  case (2 f ts rules s r f' s')
  obtain r1 f1 l1 w1 where rcv: "try_receive f ts s = (r1, f1, (l1, w1))" by (metis prod_cases4)
  have "\<forall>src. r1 = Inr src \<longrightarrow> src \<noteq> kEndpointInvalid \<longrightarrow> source f1 = src \<and> timestamp_ns f1 = ts"
    using receive_scan_frame [OF 2(1)] rcv by (fastforce simp: try_receive_def split: prod.splits)
  then show ?case
    using 2(2,3) rcv
    by (auto simp: forward_def Let_def forwarded_frame_def ForwardResult_empty_def
        split: if_splits sum.splits prod.splits)
qed

lemma wf_ep_recv:
  assumes "ep_recv tr h (frame_writable f) out k = (Inr (buf, from), k')" "wf_frame f"
  shows "wf_frame (frame_of_buffer buf)"
proof -
  have f: "data (frame_writable f) = bytes f" "capacity (frame_writable f) = length (bytes f)"
    by (simp_all add: frame_writable_def Buffer_writable_def)
  have "length (write_bytes 0 (take (length (bytes f)) x) (bytes f)) = length (bytes f)" for x
    by (rule length_write_bytes) simp
  then have "length (data buf) = length (bytes f)"
    using assms(1) f
    by (cases tr) (auto simp: ep_recv_def Uds_recv_def Udp_recv_def dg_recv_def store_recv_def sys_recvfrom_def
        split: option.splits list.splits recv_answer.splits sum.splits prod.splits)
  then show ?thesis using assms(2) by (simp add: wf_frame_def frame_of_buffer_def)
qed

interpretation dg_node: router_link "dg_forward tr os" for tr os
proof (unfold_locales, goal_cases)
  case (1 f ts rules s res f' s')
  obtain l k where s: "s = (l, k)" by fastforce
  show ?case
  proof (cases "ep_recv tr (dl_endpoint l) (frame_writable f) (from_zero tr) k")
    case (Pair x k1)
    show ?thesis
    proof (cases x)
      case (Inl e)
      then show ?thesis using 1 Pair s by (auto simp: dg_forward_def split: if_splits)
    next
      case (Inr bf)
      obtain buf sender where bf: "bf = (buf, sender)" by fastforce
      have "wf_frame (frame_of_buffer buf)" using wf_ep_recv [OF _ 1(1)] Pair Inr bf by blast
      then show ?thesis
        using 1 Pair Inr bf s by (auto simp: dg_forward_def Let_def split: if_splits sum.splits prod.splits)
    qed
  qed
next
  case (2 f ts rules s r f' s')
  obtain l k where s: "s = (l, k)" by fastforce
  obtain buf sender k1 where rcv: "ep_recv tr (dl_endpoint l) (frame_writable f) (from_zero tr) k = (Inr (buf, sender), k1)"
    using 2(2,3) s by (auto simp: dg_forward_def forwarded_frame_def ForwardResult_empty_def split: if_splits sum.splits prod.splits)
  have wf: "wf_frame (frame_of_buffer buf)" by (rule wf_ep_recv [OF rcv 2(1)])
  then show ?case
    using 2(2,3) s rcv
    by (auto simp: dg_forward_def Let_def forwarded_frame_def ForwardResult_empty_def
        split: if_splits sum.splits prod.splits)
qed

section \<open>Properties of the server loop\<close>

text \<open>
  C24: the server never reports, and hence never made, a forward outside its rule table. In a run
  of any length over either kind of link, whatever other processes do, each reported delivery
  names as source the id the router itself stamped into the frame, as destination one that the
  first matching rule for that source and the frame's topic lists, and the frame carries a time
  stamp the router took from its clock.
\<close>

theorem run_reports_routes:
  assumes "\<forall>r\<in>set rules. wf_rule r"
  shows "(OnForward src dst g \<in> set (fst (snd (ShmRouterServer_run env opts rules fuel start s))) \<longrightarrow>
      source g = src \<and> dst \<in> set (route_spec rules src (topic_id g)) \<and> timestamp_ns g \<in> range (now_ns env))
    \<and> (DatagramRouterServer_run tr os env' opts rules fuel start s' = Inr out \<longrightarrow>
      OnForward src dst g \<in> set (fst (snd out)) \<longrightarrow>
      source g = src \<and> dst \<in> set (route_spec rules src (topic_id g)) \<and> timestamp_ns g \<in> range (now_ns env'))"
proof -
  have wf: "wf_frame RouterFrame_default" by (simp add: wf_frame_def RouterFrame_default_def)
  note shm = shm_node.reports_sound [OF wf, of src dst g "\<lambda>_. False" env opts rules fuel 0 start]
  note dg = dg_node.reports_sound [OF wf, of src dst g dg_hangs tr os env' opts rules fuel 0 start]
  show ?thesis
    unfolding ShmRouterServer_run_def DatagramRouterServer_run_def route_targets_spec [OF assms, symmetric]
    using shm dg by (auto split: prod.splits sum.splits)
qed

definition demo_env :: "'s RunEnv" where
  "demo_env = \<lparr>stop_flag = (\<lambda>i. i \<ge> 1), now_ns = (\<lambda>_. 5), steady_ms = (\<lambda>i. int i), others = (\<lambda>_ s. s)\<rparr>"

theorem run_reports_routes_witness:
  "\<exists>fin evs f s. DatagramRouterServer_run UdsT demo_os demo_env RouterRunOptions_default demo_rules 3 0
      (demo_dg_link, demo_kernel\<lparr>socks := [3 \<mapsto> demo_sock]\<rparr>) = Inr (fin, evs, f, s)
    \<and> evs = [OnForward 1 4 demo_stamped] \<and> 4 \<in> set (route_spec demo_rules 1 (topic_id demo_stamped))"
proof -
  let ?k = "demo_kernel\<lparr>socks := [3 \<mapsto> demo_sock]\<rparr>"
  obtain tm where tmo: "dg_set_recv_timeout_ms UdsT demo_os 200 (demo_dg_link, ?k)
      = (Inr (), (demo_dg_link, demo_kernel\<lparr>socks := [3 \<mapsto> demo_sock\<lparr>sk_timeout := tm\<rparr>]\<rparr>))"
    by (simp add: dg_set_recv_timeout_ms_def ep_set_recv_timeout_ms_def Uds_set_recv_timeout_def
        datagram_set_recv_timeout_def demo_os_def demo_dg_link_def put_sock_def)
  obtain tg s' where fw: "dg_forward UdsT demo_os RouterFrame_default 5 demo_rules
      (demo_dg_link, demo_kernel\<lparr>socks := [3 \<mapsto> demo_sock\<lparr>sk_timeout := tm\<rparr>]\<rparr>)
      = (Inr \<lparr>fwd_source = 1, fwd_targets = tg\<rparr>, demo_stamped, s')" "targets_list tg = [4]"
    using demo_forward [of tm] by blast
  have run: "DatagramRouterServer_run UdsT demo_os demo_env RouterRunOptions_default demo_rules 3 0 (demo_dg_link, ?k)
      = Inr (True, [OnForward 1 4 demo_stamped], demo_stamped, s')"
    using tmo fw
    by (simp add: DatagramRouterServer_run_def RouterRunOptions_default_def numeral_3_eq_3 demo_env_def
        forwarded_frame_def kEndpointInvalid_def then_events_def dg_hangs_def recvfrom_hangs_def demo_dg_link_def demo_sock_def)
  have wf: "\<forall>r\<in>set demo_rules. wf_rule r" by (simp add: demo_rules_def wf_rule_def kMaxRouteDests_def)
  note dg = run_reports_routes [OF wf, THEN conjunct2, rule_format, OF run, of 1 4 demo_stamped]
  then have "4 \<in> set (route_spec demo_rules 1 (topic_id demo_stamped))" by simp
  with run show ?thesis by blast
qed

text \<open>Sockets keep their receive timeout but for \<open>set_recv_timeout\<close>.\<close>

definition same_timeouts :: "Kernel \<Rightarrow> Kernel \<Rightarrow> bool" where
  "same_timeouts k k' \<longleftrightarrow> (\<forall>d. map_option sk_timeout (socks k' d) = map_option sk_timeout (socks k d))"

lemma put_sock_timeouts [simp]:
  "socks k d = Some x \<Longrightarrow> sk_timeout y = sk_timeout x \<Longrightarrow> same_timeouts k (put_sock d y k)"
  by (simp add: same_timeouts_def put_sock_def)

lemma same_timeouts_refl [simp]: "same_timeouts k k"
  by (simp add: same_timeouts_def)










end
