(* ===== verification/Factory.thy ===== *)
theory Factory
  imports Node
begin

text \<open>
  \<open>ipc/src/router/transport_kind.hpp\<close> and \<open>factory.hpp\<close>: the names of the transports, dispatch of a
  generic function on a transport, and the factories that make and bind servers and clients. A
  template argument is a value: \<open>TransportKind\<close> for the three transports, \<open>DgTransport\<close> for the two
  datagram ones.
\<close>

datatype TransportKind = KindUds | KindUdp | KindShm

text \<open>The transports can be enumerated, so quantifiers over them compute.\<close>

instantiation TransportKind :: enum
begin

definition "enum_TransportKind = [KindUds, KindUdp, KindShm]"

definition "enum_all_TransportKind P \<longleftrightarrow> P KindUds \<and> P KindUdp \<and> P KindShm"

definition "enum_ex_TransportKind P \<longleftrightarrow> P KindUds \<or> P KindUdp \<or> P KindShm"

instance
proof
  show univ: "(UNIV :: TransportKind set) = set enum_class.enum"
    by (auto simp: enum_TransportKind_def intro: TransportKind.exhaust)
  show "enum_class.enum_all P \<longleftrightarrow> Ball UNIV P" for P :: "TransportKind \<Rightarrow> bool"
    by (simp add: enum_all_TransportKind_def) (metis TransportKind.exhaust)
  show "enum_class.enum_ex P \<longleftrightarrow> Bex UNIV P" for P :: "TransportKind \<Rightarrow> bool"
    by (simp add: enum_ex_TransportKind_def) (metis TransportKind.exhaust)
qed (simp add: enum_TransportKind_def)

end

definition transport_kind_from_cli :: "string \<Rightarrow> TransportKind" where
  "transport_kind_from_cli arg =
     (if strcmp_eq arg ''uds'' then KindUds
      else if strcmp_eq arg ''udp'' then KindUdp
      else if strcmp_eq arg ''shm'' then KindShm
      else KindUds)"

definition transport_kind_valid :: "string \<Rightarrow> bool" where
  "transport_kind_valid arg \<longleftrightarrow> strcmp_eq arg ''uds'' \<or> strcmp_eq arg ''udp'' \<or> strcmp_eq arg ''shm''"

fun transport_kind_name :: "TransportKind \<Rightarrow> string" where
  "transport_kind_name KindUds = ''uds''"
| "transport_kind_name KindUdp = ''udp''"
| "transport_kind_name KindShm = ''shm''"

definition transport_kind_is_datagram :: "TransportKind \<Rightarrow> bool" where
  "transport_kind_is_datagram k \<longleftrightarrow> k = KindUds \<or> k = KindUdp"

text \<open>The function object runs on a state \<open>'s\<close> and returns an exit code.\<close>

definition dispatch_transport_kind :: "string \<Rightarrow> (TransportKind \<Rightarrow> 's \<Rightarrow> int \<times> 's) \<Rightarrow> 's \<Rightarrow> int \<times> 's" where
  "dispatch_transport_kind transport fn s =
     (if strcmp_eq transport ''uds'' then fn KindUds s
      else if strcmp_eq transport ''udp'' then fn KindUdp s
      else if strcmp_eq transport ''shm'' then fn KindShm s
      else (-1, s))"

definition dispatch_router_kind :: "TransportKind \<Rightarrow> (TransportKind \<Rightarrow> 's \<Rightarrow> int \<times> 's) \<Rightarrow> 's \<Rightarrow> int \<times> 's" where
  "dispatch_router_kind k fn s =
     (case k of KindUds \<Rightarrow> fn KindUds s | KindUdp \<Rightarrow> fn KindUdp s | KindShm \<Rightarrow> fn KindShm s)"

definition with_datagram_transport :: "TransportKind \<Rightarrow> (DgTransport \<Rightarrow> 's \<Rightarrow> 's) \<Rightarrow> 's \<Rightarrow> 's" where
  "with_datagram_transport k fn s = (case k of KindUds \<Rightarrow> fn UdsT s | KindUdp \<Rightarrow> fn UdpT s | KindShm \<Rightarrow> s)"

section \<open>Factories\<close>

definition make_datagram_router_server :: "DgTransport \<Rightarrow> NetOs \<Rightarrow> RouterTopology \<Rightarrow> Kernel \<Rightarrow> DatagramRouterLink res \<times> Kernel" where
  "make_datagram_router_server tr os t k = DatagramRouterServer_new tr os t k"

definition make_datagram_router_client :: "DgTransport \<Rightarrow> NetOs \<Rightarrow> RouterTopology \<Rightarrow> u8 \<Rightarrow> Kernel \<Rightarrow> DatagramRouterLink res \<times> Kernel" where
  "make_datagram_router_client tr os t pid k = DatagramRouterClient_new tr os t pid k"

definition make_shm_router_server :: "RouterTopology \<Rightarrow> ShmRouterLink" where
  "make_shm_router_server t = ShmRouterServer_new t"

definition make_shm_router_client :: "ShmOs \<Rightarrow> RouterTopology \<Rightarrow> u8 \<Rightarrow> ShmWorld \<Rightarrow> ShmRouterLink res \<times> ShmWorld" where
  "make_shm_router_client os t pid w = ShmRouterClient_new os t pid w"

definition bind_datagram_router_listen :: "DgTransport \<Rightarrow> NetOs \<Rightarrow> RouterTopology \<Rightarrow> (dg_state, unit) call" where
  "bind_datagram_router_listen tr os t s =
     (case router_listen_bind_params tr t of
        Inl e \<Rightarrow> (Inl e, s) | Inr p \<Rightarrow> DatagramRouterServer_bind_router os p s)"

definition bind_shm_router_listen :: "(string \<Rightarrow> ShmOs) \<Rightarrow> RouterTopology \<Rightarrow> (shm_link_state, unit) call" where
  "bind_shm_router_listen os t s =
     (case router_listen_bind_params_shm t of
        Inl e \<Rightarrow> (Inl e, s) | Inr p \<Rightarrow> ShmRouterServer_bind_router os p s)"

definition make_router_server :: "DgTransport \<Rightarrow> NetOs \<Rightarrow> RouterTopology \<Rightarrow> Kernel \<Rightarrow> DatagramRouterLink res \<times> Kernel" where
  "make_router_server tr os t k = make_datagram_router_server tr os t k"

definition make_router_client :: "DgTransport \<Rightarrow> NetOs \<Rightarrow> RouterTopology \<Rightarrow> u8 \<Rightarrow> Kernel \<Rightarrow> DatagramRouterLink res \<times> Kernel" where
  "make_router_client tr os t pid k = make_datagram_router_client tr os t pid k"

definition bind_router_listen :: "DgTransport \<Rightarrow> NetOs \<Rightarrow> RouterTopology \<Rightarrow> (dg_state, unit) call" where
  "bind_router_listen tr os t s = bind_datagram_router_listen tr os t s"

section \<open>Names and dispatch\<close>

lemma transport_names_distinct: "strcmp_eq (transport_kind_name a) (transport_kind_name b) \<longleftrightarrow> a = b"
  by (cases a; cases b) (simp_all add: strcmp_eq_def c_str_def)

lemma strcmp_eq_trans: "strcmp_eq a b \<Longrightarrow> strcmp_eq a c \<longleftrightarrow> strcmp_eq b c"
  by (simp add: strcmp_eq_def)

lemma valid_iff_name: "transport_kind_valid s \<longleftrightarrow> (\<exists>k. strcmp_eq s (transport_kind_name k))"
  by (simp add: transport_kind_valid_def enum_ex_TransportKind_def flip: enum_ex)

lemma from_cli_name: "strcmp_eq s (transport_kind_name k) \<Longrightarrow> transport_kind_from_cli s = k"
  by (cases k) (simp_all add: transport_kind_from_cli_def strcmp_eq_trans strcmp_eq_def c_str_def)

text \<open>
  The command-line names. The name of a transport is read back as that transport, the valid
  arguments are exactly the names, and dispatch on a string is the dispatch on the transport it
  names, or -1 with nothing called for a string that names none; only \<open>transport_kind_from_cli\<close>
  takes such a string for Unix-domain sockets.
\<close>

lemma transport_names:
  "transport_kind_from_cli (transport_kind_name k) = k
   \<and> (transport_kind_valid s \<longleftrightarrow> (\<exists>k. strcmp_eq s (transport_kind_name k)))
   \<and> dispatch_transport_kind s fn st
       = (if transport_kind_valid s then dispatch_router_kind (transport_kind_from_cli s) fn st else (-1, st))
   \<and> (transport_kind_valid s \<or> transport_kind_from_cli s = KindUds)"
proof (intro conjI)
  show "transport_kind_from_cli (transport_kind_name k) = k" by (rule from_cli_name) (simp add: strcmp_eq_def)
  show "transport_kind_valid s \<longleftrightarrow> (\<exists>k. strcmp_eq s (transport_kind_name k))" by (rule valid_iff_name)
qed (simp_all add: dispatch_transport_kind_def dispatch_router_kind_def transport_kind_from_cli_def transport_kind_valid_def)

section \<open>Standing up a datagram router\<close>

definition listen_sockaddr :: "PeerAddress \<Rightarrow> sockaddr" where
  "listen_sockaddr a = (case a of peer_uds p \<Rightarrow> SockUn (c_str p) | peer_udp _ port \<Rightarrow> SockIn [0, 0, 0, 0] port
     | peer_shm n \<Rightarrow> SockUn n)"

fun kind_of :: "DgTransport \<Rightarrow> PeerAddressKind" where
  "kind_of UdsT = UdsPath"
| "kind_of UdpT = UdpEndpoint"

text \<open>
  A datagram router listens where its topology says. When the kernel grants the socket, the
  option and the address, making the server and binding it leaves one new socket, bound to the
  listen address (for UDP to that port on every interface), and the link ready to forward. If the
  listen address is of the other kind, binding raises and neither the link nor the kernel changes.
\<close>

lemma datagram_router_listens:
  assumes "socket_ok os" "make_datagram_router_server tr os t k = (Inr l, k1)"
    "bind_datagram_router_listen tr os t (l, k1) = (r, (l', k2))"
  shows "l' = l \<and> dl_is_server l \<and> dl_topo l = t \<and> fd (dl_endpoint l) = int (next_fd k)
    \<and> (kind (router_listen t) \<noteq> kind_of tr \<longrightarrow> (\<exists>e. r = Inl e) \<and> k2 = k1)
    \<and> (kind (router_listen t) = kind_of tr \<longrightarrow> setsockopt_ok os \<longrightarrow> (\<forall>a. bind_allowed os a) \<longrightarrow>
        (\<forall>p. router_listen t = peer_uds p \<longrightarrow> length (c_str p) \<le> 107) \<longrightarrow>
        r = Inr () \<and> socks k2 = (socks k)(int (next_fd k) \<mapsto> Sock_new\<lparr>sk_bound := Some (listen_sockaddr (router_listen t))\<rparr>))"
proof -
  have l: "l = \<lparr>dl_topo = t, dl_is_server = True, dl_peer_id = kEndpointInvalid, dl_endpoint = \<lparr>fd = int (next_fd k)\<rparr>,
      dl_metrics = DatagramRouterMetrics_zero\<rparr>"
    and k1: "k1 = (put_sock (int (next_fd k)) Sock_new k)\<lparr>next_fd := Suc (next_fd k)\<rparr>"
    using assms(1,2)
    by (cases tr; simp add: make_datagram_router_server_def DatagramRouterServer_new_def dg_server_def dg_new_def dg_open_def
        Uds_open_def Udp_open_def Socket_open_def)+
  note defs = bind_datagram_router_listen_def router_listen_bind_params_def DatagramRouterServer_bind_router_def
    dg_bind_router_def ep_dg_bind_def Uds_bind_def Udp_bind_def datagram_set_reuseaddr_def sys_bind_def
    listen_sockaddr_def sun_path_short Let_def
  have "l' = l" using assms(3) unfolding l by (cases tr) (auto simp: defs split: if_splits prod.splits sum.splits)
  moreover have "(\<exists>e. r = Inl e) \<and> k2 = k1" if "kind (router_listen t) \<noteq> kind_of tr"
    using assms(3) that by (cases tr) (auto simp: defs)
  moreover have "r = Inr () \<and> socks k2 = (socks k)(int (next_fd k) \<mapsto> Sock_new\<lparr>sk_bound := Some (listen_sockaddr (router_listen t))\<rparr>)"
    if "kind (router_listen t) = kind_of tr" "setsockopt_ok os" "\<forall>a. bind_allowed os a"
      "\<forall>p. router_listen t = peer_uds p \<longrightarrow> length (c_str p) \<le> 107"
    using assms(3) that unfolding l k1
    by (cases tr; cases "router_listen t") (auto simp: defs Sock_new_def)
  ultimately show ?thesis by (simp add: l)
qed

lemma datagram_router_listens_witness:
  "\<exists>l k1 k2. make_datagram_router_server UdsT demo_os demo_dg_topology demo_kernel = (Inr l, k1)
    \<and> bind_datagram_router_listen UdsT demo_os demo_dg_topology (l, k1) = (Inr (), (l, k2))
    \<and> map_option sk_bound (socks k2 4) = Some (Some (SockUn ''/tmp/r''))"
proof -
  obtain l k1 where mk: "make_datagram_router_server UdsT demo_os demo_dg_topology demo_kernel = (Inr l, k1)"
    by (simp add: make_datagram_router_server_def DatagramRouterServer_new_def dg_server_def dg_new_def dg_open_def
        Uds_open_def Socket_open_def demo_os_def)
  obtain r l' k2 where bd: "bind_datagram_router_listen UdsT demo_os demo_dg_topology (l, k1) = (r, (l', k2))"
    by (rule prod_cases3)
  have "socket_ok demo_os" "setsockopt_ok demo_os" "\<forall>a. bind_allowed demo_os a"
    "router_listen demo_dg_topology = peer_uds ''/tmp/r''" "next_fd demo_kernel = 4"
    by (simp_all add: demo_os_def demo_dg_topology_def demo_kernel_def)
  with datagram_router_listens [OF _ mk bd] mk bd show ?thesis
    by (auto simp: listen_sockaddr_def c_str_def)
qed

end
