(* ===== verification/MixedRouter.thy ===== *)
theory MixedRouter
  imports Node
begin

text \<open>
  \<open>ipc/src/router/mixed_router_server.hpp\<close>: one router over several transports. The server holds
  a link for each transport that a peer of the topology uses and polls them in turn; a frame that
  arrives on one is sent through the link that owns the destination. The state is the server with
  the shared-memory world and the kernel. Unlike the single-transport loop, the mixed loop does
  not catch exceptions, so a run can end by raising.
  The locale \<open>pollable_link\<close> is what the poll relies on of a link's \<open>try_receive\<close>.
\<close>

definition topology_is_mixed :: "RouterTopology \<Rightarrow> bool" where
  "topology_is_mixed t =
     (let present = (\<lambda>kd. \<exists>e\<in>set (peers t). kind (local_addr e) = kd);
          n = (\<lambda>kd. if present kd then 1 else 0 :: nat)
      in n ShmRing + n UdsPath + n UdpEndpoint > 1)"

record MixedRouterServer =
  mx_topo :: RouterTopology
  shm_link :: "ShmRouterLink option"
  uds_link :: "DatagramRouterLink option"
  udp_link :: "DatagramRouterLink option"
  has_shm :: bool
  has_uds :: bool
  has_udp :: bool
  peer_known :: "bool list"
  peer_transport :: "PeerAddressKind list"

type_synonym mx_state = "MixedRouterServer \<times> ShmWorld \<times> Kernel"

text \<open>The constructor's loop over the peers.\<close>

fun register_peers :: "PeerEntry list \<Rightarrow> MixedRouterServer \<Rightarrow> MixedRouterServer" where
  "register_peers [] m = m"
| "register_peers (p # ps) m =
     (let m1 = m\<lparr>peer_known := (peer_known m)[unat (peer_id p) := True],
                 peer_transport := (peer_transport m)[unat (peer_id p) := kind (local_addr p)]\<rparr>;
          m2 = (case kind (local_addr p) of
                  ShmRing \<Rightarrow> m1\<lparr>has_shm := True\<rparr>
                | UdsPath \<Rightarrow> m1\<lparr>has_uds := True\<rparr>
                | UdpEndpoint \<Rightarrow> m1\<lparr>has_udp := True\<rparr>)
      in register_peers ps m2)"

definition MixedRouterServer_new :: "NetOs \<Rightarrow> RouterTopology \<Rightarrow> Kernel \<Rightarrow> MixedRouterServer res \<times> Kernel" where
  "MixedRouterServer_new os t k =
     (let m0 = register_peers (peers t)
           \<lparr>mx_topo = t, shm_link = None, uds_link = None, udp_link = None, has_shm = False, has_uds = False,
            has_udp = False, peer_known = replicate 256 False, peer_transport = replicate 256 ShmRing\<rparr>;
          m1 = (if has_shm m0 then m0\<lparr>shm_link := Some (ShmRouterLink_server t)\<rparr> else m0)
      in case (if has_uds m1
               then (case dg_server UdsT os t k of
                       (Inl e, k1) \<Rightarrow> (Inl e, k1) | (Inr l, k1) \<Rightarrow> (Inr (m1\<lparr>uds_link := Some l\<rparr>), k1))
               else (Inr m1, k)) of
           (Inl e, k1) \<Rightarrow> (Inl e, k1)
         | (Inr m2, k1) \<Rightarrow>
             if has_udp m2
             then (case dg_server UdpT os t k1 of
                     (Inl e, k2) \<Rightarrow>
                       (Inl e, case uds_link m2 of None \<Rightarrow> k2 | Some l \<Rightarrow> Socket_close (dl_endpoint l) k2)
                   | (Inr l, k2) \<Rightarrow> (Inr (m2\<lparr>udp_link := Some l\<rparr>), k2))
             else (Inr m2, k1))"

definition make_mixed_router_server :: "NetOs \<Rightarrow> RouterTopology \<Rightarrow> Kernel \<Rightarrow> MixedRouterServer res \<times> Kernel" where
  "make_mixed_router_server os t k = MixedRouterServer_new os t k"

text \<open>Running a call of one link inside the server.\<close>

definition on_shm :: "ShmRouterLink \<Rightarrow> (shm_link_state \<Rightarrow> 'a \<times> shm_link_state) \<Rightarrow> mx_state \<Rightarrow> 'a \<times> mx_state" where
  "on_shm l c = (\<lambda>(m, w, k). case c (l, w) of (r, (l1, w1)) \<Rightarrow> (r, (m\<lparr>shm_link := Some l1\<rparr>, w1, k)))"

definition on_uds :: "DatagramRouterLink \<Rightarrow> (dg_state \<Rightarrow> 'a \<times> dg_state) \<Rightarrow> mx_state \<Rightarrow> 'a \<times> mx_state" where
  "on_uds l c = (\<lambda>(m, w, k). case c (l, k) of (r, (l1, k1)) \<Rightarrow> (r, (m\<lparr>uds_link := Some l1\<rparr>, w, k1)))"

definition on_udp :: "DatagramRouterLink \<Rightarrow> (dg_state \<Rightarrow> 'a \<times> dg_state) \<Rightarrow> mx_state \<Rightarrow> 'a \<times> mx_state" where
  "on_udp l c = (\<lambda>(m, w, k). case c (l, k) of (r, (l1, k1)) \<Rightarrow> (r, (m\<lparr>udp_link := Some l1\<rparr>, w, k1)))"

definition mx_bind_router :: "(string \<Rightarrow> ShmOs) \<Rightarrow> NetOs \<Rightarrow> (mx_state, unit) call" where
  "mx_bind_router sos os s0 =
     (case (case shm_link (fst s0) of None \<Rightarrow> (Inr (), s0)
            | Some l \<Rightarrow> on_shm l (bind_router sos ShmBindParams_default) s0) of
        (Inl e, s1) \<Rightarrow> (Inl e, s1)
      | (Inr _, s1) \<Rightarrow>
          (case (case uds_link (fst s1) of None \<Rightarrow> (Inr (), s1)
                 | Some l \<Rightarrow> (case listen_uds (mx_topo (fst s1)) of
                     None \<Rightarrow> (Inl (RuntimeError ''mixed router: uds peers present but no uds router listen''), s1)
                   | Some a \<Rightarrow> on_uds l (dg_bind_router os (UdsBind (uds_path a))) s1)) of
             (Inl e, s2) \<Rightarrow> (Inl e, s2)
           | (Inr _, s2) \<Rightarrow>
               (case udp_link (fst s2) of None \<Rightarrow> (Inr (), s2)
                | Some l \<Rightarrow> (case listen_udp (mx_topo (fst s2)) of
                    None \<Rightarrow> (Inl (RuntimeError ''mixed router: udp peers present but no udp router listen''), s2)
                  | Some a \<Rightarrow> on_udp l (dg_bind_router os (UdpBind (udp_port a))) s2))))"

definition mx_send_to_peer :: "NetOs \<Rightarrow> Buffer \<Rightarrow> u8 \<Rightarrow> (mx_state, unit) call" where
  "mx_send_to_peer os pl dst s =
     (let m = fst s in
      if unat dst \<ge> length (peer_known m) \<or> \<not> peer_known m ! unat dst then (Inr (), s)
      else case peer_transport m ! unat dst of
        ShmRing \<Rightarrow> (case shm_link m of None \<Rightarrow> (Inr (), s) | Some l \<Rightarrow> on_shm l (send_to_peer pl dst) s)
      | UdsPath \<Rightarrow> (case uds_link m of None \<Rightarrow> (Inr (), s) | Some l \<Rightarrow> on_uds l (dg_send_to_peer os pl dst) s)
      | UdpEndpoint \<Rightarrow> (case udp_link m of None \<Rightarrow> (Inr (), s) | Some l \<Rightarrow> on_udp l (dg_send_to_peer os pl dst) s))"

text \<open>\<open>send_to_peer\<close> and the callback for each destination in turn.\<close>

fun mx_deliver :: "NetOs \<Rightarrow> u8 \<Rightarrow> RouterFrame \<Rightarrow> u8 list \<Rightarrow> mx_state \<Rightarrow> unit res \<times> run_event list \<times> mx_state" where
  "mx_deliver os src f [] s = (Inr (), [], s)"
| "mx_deliver os src f (d # ds) s =
     (case mx_send_to_peer os (frame_read_only f) d s of
        (Inl e, s1) \<Rightarrow> (Inl e, [], s1)
      | (Inr _, s1) \<Rightarrow> (case mx_deliver os src f ds s1 of (r, ev, s2) \<Rightarrow> (r, OnForward src d f # ev, s2)))"

text \<open>\<open>try_receive\<close> of one link, with the frame beside the result.\<close>

definition mx_receive :: "PeerAddressKind \<Rightarrow> RouterFrame \<Rightarrow> u64 \<Rightarrow> mx_state \<Rightarrow> (u8 res \<times> RouterFrame) option \<times> mx_state" where
  "mx_receive kd f ts s =
     (case kd of
        ShmRing \<Rightarrow> (case shm_link (fst s) of None \<Rightarrow> (None, s)
          | Some l \<Rightarrow> on_shm l (\<lambda>ls. case try_receive f ts ls of (r, f1, ls1) \<Rightarrow> (Some (r, f1), ls1)) s)
      | UdsPath \<Rightarrow> (case uds_link (fst s) of None \<Rightarrow> (None, s)
          | Some l \<Rightarrow> on_uds l (\<lambda>ls. case dg_try_receive UdsT f ts ls of (r, f1, ls1) \<Rightarrow> (Some (r, f1), ls1)) s)
      | UdpEndpoint \<Rightarrow> (case udp_link (fst s) of None \<Rightarrow> (None, s)
          | Some l \<Rightarrow> on_udp l (\<lambda>ls. case dg_try_receive UdpT f ts ls of (r, f1, ls1) \<Rightarrow> (Some (r, f1), ls1)) s))"

definition poll_link :: "NetOs \<Rightarrow> PeerAddressKind \<Rightarrow> RouterFrame \<Rightarrow> u64 \<Rightarrow> RouteRule list \<Rightarrow> mx_state \<Rightarrow>
    bool res \<times> run_event list \<times> RouterFrame \<times> mx_state" where
  "poll_link os kd f ts rules s =
     (case mx_receive kd f ts s of
        (None, s1) \<Rightarrow> (Inr False, [], f, s1)
      | (Some (Inl e, f1), s1) \<Rightarrow> (Inl e, [], f1, s1)
      | (Some (Inr src, f1), s1) \<Rightarrow>
          if src = kEndpointInvalid then (Inr False, [], f1, s1)
          else case mx_deliver os src f1 (targets_list (route_targets_for rules src (topic_id f1))) s1 of
            (Inl e, ev, s2) \<Rightarrow> (Inl e, ev, f1, s2)
          | (Inr _, ev, s2) \<Rightarrow> (Inr True, ev, f1, s2))"

text \<open>The polls of one turn, in the order SHM, UDS, UDP.\<close>

fun poll_all :: "NetOs \<Rightarrow> PeerAddressKind list \<Rightarrow> RouterFrame \<Rightarrow> u64 \<Rightarrow> RouteRule list \<Rightarrow> mx_state \<Rightarrow>
    bool res \<times> run_event list \<times> RouterFrame \<times> mx_state" where
  "poll_all os [] f ts rules s = (Inr False, [], f, s)"
| "poll_all os (kd # kds) f ts rules s =
     (case poll_link os kd f ts rules s of
        (Inl e, ev, f1, s1) \<Rightarrow> (Inl e, ev, f1, s1)
      | (Inr did, ev, f1, s1) \<Rightarrow> (case poll_all os kds f1 ts rules s1 of
          (Inl e, ev2, f2, s2) \<Rightarrow> (Inl e, ev @ ev2, f2, s2)
        | (Inr did2, ev2, f2, s2) \<Rightarrow> (Inr (did \<or> did2), ev @ ev2, f2, s2)))"

datatype run_end = Running | Returned | Raised error

fun mixed_loop :: "NetOs \<Rightarrow> mx_state RunEnv \<Rightarrow> RouterRunOptions \<Rightarrow> RouteRule list \<Rightarrow> nat \<Rightarrow> nat \<Rightarrow> int \<Rightarrow>
    RouterFrame \<Rightarrow> mx_state \<Rightarrow> run_end \<times> run_event list \<times> mx_state" where
  "mixed_loop os env opts rules 0 i prev f s = (Running, [], s)"
| "mixed_loop os env opts rules (Suc fuel) i prev f s =
     (if stop_flag env i then (Returned, [], s)
      else case poll_all os [ShmRing, UdsPath, UdpEndpoint] f (now_ns env i) rules s of
        (Inl e, ev, f1, s1) \<Rightarrow> (Raised e, ev, s1)
      | (Inr did, ev, f1, s1) \<Rightarrow>
          if did
          then then_events ev (mixed_loop os env opts rules fuel (Suc i) (steady_ms env i) f1 (others env i s1))
          else if idle_exit_ms opts > 0 \<and> router_idle_expired (steady_ms env i) prev (idle_exit_ms opts)
          then (Returned, ev, s1)
          else then_events (ev @ [if idle_sleep_us opts > 0 then Slept (idle_sleep_us opts) else Yielded])
                 (mixed_loop os env opts rules fuel (Suc i) prev f1 (others env i s1)))"

definition MixedRouterServer_run :: "NetOs \<Rightarrow> mx_state RunEnv \<Rightarrow> RouterRunOptions \<Rightarrow> RouteRule list \<Rightarrow> nat \<Rightarrow> int \<Rightarrow>
    mx_state \<Rightarrow> run_end \<times> run_event list \<times> mx_state" where
  "MixedRouterServer_run os env opts rules fuel start s =
     mixed_loop os env opts rules fuel 0 start RouterFrame_default s"

definition mx_forwarded :: "MixedRouterServer \<Rightarrow> u64" where
  "mx_forwarded m =
     (case shm_link m of None \<Rightarrow> 0 | Some l \<Rightarrow> forwarded (metrics l))
     + (case uds_link m of None \<Rightarrow> 0 | Some l \<Rightarrow> dg_forwarded (dl_metrics l))
     + (case udp_link m of None \<Rightarrow> 0 | Some l \<Rightarrow> dg_forwarded (dl_metrics l))"

definition mx_dropped_full :: "MixedRouterServer \<Rightarrow> u64" where
  "mx_dropped_full m = (case shm_link m of None \<Rightarrow> 0 | Some l \<Rightarrow> dropped_full (metrics l))"

definition mx_set_priority_drop_floor :: "u8 \<Rightarrow> MixedRouterServer \<Rightarrow> MixedRouterServer" where
  "mx_set_priority_drop_floor fl m =
     (case shm_link m of None \<Rightarrow> m | Some l \<Rightarrow> m\<lparr>shm_link := Some (set_priority_drop_floor fl l)\<rparr>)"

section \<open>Dispatch\<close>

lemma register_peers_fields:
  "mx_topo (register_peers ps m) = mx_topo m" "shm_link (register_peers ps m) = shm_link m"
  "uds_link (register_peers ps m) = uds_link m" "udp_link (register_peers ps m) = udp_link m"
  "length (peer_known (register_peers ps m)) = length (peer_known m)"
  "length (peer_transport (register_peers ps m)) = length (peer_transport m)"
  "has_shm (register_peers ps m) \<longleftrightarrow> has_shm m \<or> (\<exists>p\<in>set ps. kind (local_addr p) = ShmRing)"
  "has_uds (register_peers ps m) \<longleftrightarrow> has_uds m \<or> (\<exists>p\<in>set ps. kind (local_addr p) = UdsPath)"
  "has_udp (register_peers ps m) \<longleftrightarrow> has_udp m \<or> (\<exists>p\<in>set ps. kind (local_addr p) = UdpEndpoint)"
  by (induction ps arbitrary: m) (auto simp: Let_def split: PeerAddressKind.splits)

lemma nth_update_at: "j < length xs \<Longrightarrow> xs[i := v] ! j = (if i = j then v else xs ! j)"
  by simp

lemma byte_index: "(256 \<le> unat i) = False" for i :: u8
proof -
  have "unat i < 256" using unsigned_less [of i, where ?'a = nat] by simp
  then show ?thesis by (metis not_le)
qed

lemma register_peers_known:
  "unat i < length (peer_known m) \<Longrightarrow>
   peer_known (register_peers ps m) ! unat i \<longleftrightarrow> peer_known m ! unat i \<or> i \<in> peer_id ` set ps"
  by (induction ps arbitrary: m)
    (auto simp: Let_def nth_update_at split: PeerAddressKind.splits if_splits)

lemma register_peers_other:
  "i \<notin> peer_id ` set ps \<Longrightarrow> peer_transport (register_peers ps m) ! unat i = peer_transport m ! unat i"
  by (induction ps arbitrary: m)
    (auto simp: Let_def nth_list_update split: PeerAddressKind.splits)

lemma register_peers_transport:
  "distinct (map peer_id ps) \<Longrightarrow> p \<in> set ps \<Longrightarrow> length (peer_transport m) = 256 \<Longrightarrow>
   peer_transport (register_peers ps m) ! unat (peer_id p) = kind (local_addr p)"
proof (induction ps arbitrary: m)
  case (Cons q ps)
  show ?case
  proof (cases "p = q")
    case True
    have "peer_id p \<notin> peer_id ` set ps" using Cons.prems(1) True by simp
    moreover have "unat (peer_id p) < 256" using unsigned_less [of "peer_id p"] by simp
    ultimately show ?thesis
      using Cons.prems(3) True
      by (simp add: Let_def register_peers_other split: PeerAddressKind.splits)
  next
    case False
    then show ?thesis
      using Cons by (simp add: Let_def split: PeerAddressKind.splits)
  qed
qed simp

definition dispatch_ok :: "MixedRouterServer \<Rightarrow> bool" where
  "dispatch_ok m \<longleftrightarrow> length (peer_known m) = 256
     \<and> (\<forall>i. peer_known m ! unat i \<longleftrightarrow> i \<in> peer_id ` set (peers (mx_topo m)))
     \<and> (\<forall>e\<in>set (peers (mx_topo m)). peer_transport m ! unat (peer_id e) = kind (local_addr e))
     \<and> (shm_link m \<noteq> None \<longleftrightarrow> (\<exists>e\<in>set (peers (mx_topo m)). kind (local_addr e) = ShmRing))
     \<and> (uds_link m \<noteq> None \<longleftrightarrow> (\<exists>e\<in>set (peers (mx_topo m)). kind (local_addr e) = UdsPath))
     \<and> (udp_link m \<noteq> None \<longleftrightarrow> (\<exists>e\<in>set (peers (mx_topo m)). kind (local_addr e) = UdpEndpoint))"

lemma new_dispatch_ok:
  assumes "MixedRouterServer_new os t k = (Inr m, k')" "distinct (map peer_id (peers t))"
  shows "dispatch_ok m \<and> mx_topo m = t"
proof -
  define m0 where "m0 = register_peers (peers t) \<lparr>mx_topo = t, shm_link = None, uds_link = None,
     udp_link = None, has_shm = False, has_uds = False, has_udp = False,
     peer_known = replicate 256 False, peer_transport = replicate 256 ShmRing\<rparr>"
  have m0: "mx_topo m0 = t" "shm_link m0 = None" "uds_link m0 = None" "udp_link m0 = None"
    "length (peer_known m0) = 256"
    "has_shm m0 \<longleftrightarrow> (\<exists>p\<in>set (peers t). kind (local_addr p) = ShmRing)"
    "has_uds m0 \<longleftrightarrow> (\<exists>p\<in>set (peers t). kind (local_addr p) = UdsPath)"
    "has_udp m0 \<longleftrightarrow> (\<exists>p\<in>set (peers t). kind (local_addr p) = UdpEndpoint)"
    by (simp_all add: m0_def register_peers_fields)
  have byte: "unat i < 256" for i :: u8 using unsigned_less [of i] by simp
  have kn: "peer_known m0 ! unat i \<longleftrightarrow> i \<in> peer_id ` set (peers t)" for i
    using byte [of i] by (simp add: m0_def register_peers_known)
  have tr: "peer_transport m0 ! unat (peer_id e) = kind (local_addr e)" if "e \<in> set (peers t)" for e
    unfolding m0_def by (rule register_peers_transport [OF assms(2) that]) simp
  have "mx_topo m = t \<and> peer_known m = peer_known m0 \<and> peer_transport m = peer_transport m0
    \<and> (shm_link m \<noteq> None \<longleftrightarrow> has_shm m0) \<and> (uds_link m \<noteq> None \<longleftrightarrow> has_uds m0)
    \<and> (udp_link m \<noteq> None \<longleftrightarrow> has_udp m0)"
    using assms(1) m0(1-4)
    by (auto simp: MixedRouterServer_new_def Let_def simp flip: m0_def split: if_splits prod.splits sum.splits)
  then show ?thesis
    using m0(5-8) kn tr by (simp add: dispatch_ok_def)
qed

text \<open>
  Egress of the mixed router. For a server built from a topology with distinct ids, sending to
  a peer goes through the link of that peer's own transport, which exists; sending to an id that
  is not in the topology does nothing and does not raise.
\<close>

lemma mixed_dispatch:
  assumes "MixedRouterServer_new os t k = (Inr m, k')" "distinct (map peer_id (peers t))"
  shows "(e \<in> set (peers t) \<longrightarrow> (\<exists>sl ul pl'. mx_send_to_peer os pl (peer_id e) (m, w, k1) =
      (case kind (local_addr e) of
         ShmRing \<Rightarrow> on_shm sl (send_to_peer pl (peer_id e)) (m, w, k1)
       | UdsPath \<Rightarrow> on_uds ul (dg_send_to_peer os pl (peer_id e)) (m, w, k1)
       | UdpEndpoint \<Rightarrow> on_udp pl' (dg_send_to_peer os pl (peer_id e)) (m, w, k1))
      \<and> (kind (local_addr e) = ShmRing \<longrightarrow> shm_link m = Some sl)
      \<and> (kind (local_addr e) = UdsPath \<longrightarrow> uds_link m = Some ul)
      \<and> (kind (local_addr e) = UdpEndpoint \<longrightarrow> udp_link m = Some pl')))
    \<and> (d \<notin> peer_id ` set (peers t) \<longrightarrow> mx_send_to_peer os pl d (m, w, k1) = (Inr (), (m, w, k1)))"
proof -
  have ok: "dispatch_ok m" "mx_topo m = t" using new_dispatch_ok [OF assms] by simp_all
  have none: "mx_send_to_peer os pl d (m, w, k1) = (Inr (), (m, w, k1))" if "d \<notin> peer_id ` set (peers t)"
    using that ok by (simp add: mx_send_to_peer_def dispatch_ok_def)
  show ?thesis
  proof (intro conjI impI)
    assume e: "e \<in> set (peers t)"
    then have k: "peer_known m ! unat (peer_id e)" "length (peer_known m) = 256"
      "peer_transport m ! unat (peer_id e) = kind (local_addr e)"
      using ok by (auto simp: dispatch_ok_def)
    show "\<exists>sl ul pl'. mx_send_to_peer os pl (peer_id e) (m, w, k1) =
      (case kind (local_addr e) of
         ShmRing \<Rightarrow> on_shm sl (send_to_peer pl (peer_id e)) (m, w, k1)
       | UdsPath \<Rightarrow> on_uds ul (dg_send_to_peer os pl (peer_id e)) (m, w, k1)
       | UdpEndpoint \<Rightarrow> on_udp pl' (dg_send_to_peer os pl (peer_id e)) (m, w, k1))
      \<and> (kind (local_addr e) = ShmRing \<longrightarrow> shm_link m = Some sl)
      \<and> (kind (local_addr e) = UdsPath \<longrightarrow> uds_link m = Some ul)
      \<and> (kind (local_addr e) = UdpEndpoint \<longrightarrow> udp_link m = Some pl')"
    proof (cases "kind (local_addr e)")
      case UdsPath
      then obtain l where "uds_link m = Some l" using ok e unfolding dispatch_ok_def by blast
      then show ?thesis using k UdsPath by (simp add: mx_send_to_peer_def byte_index)
    next
      case UdpEndpoint
      then obtain l where "udp_link m = Some l" using ok e unfolding dispatch_ok_def by blast
      then show ?thesis using k UdpEndpoint by (simp add: mx_send_to_peer_def byte_index)
    next
      case ShmRing
      then obtain l where "shm_link m = Some l" using ok e unfolding dispatch_ok_def by blast
      then show ?thesis using k ShmRing by (simp add: mx_send_to_peer_def byte_index)
    qed
  qed (rule none)
qed

section \<open>What the poll relies on of a link\<close>

locale pollable_link =
  fixes recv :: "RouterFrame \<Rightarrow> u64 \<Rightarrow> 's \<Rightarrow> u8 res \<times> RouterFrame \<times> 's"
  assumes recv_wf: "wf_frame f \<Longrightarrow> recv f ts s = (res, f', s') \<Longrightarrow> wf_frame f'"
    and recv_stamped: "wf_frame f \<Longrightarrow> recv f ts s = (Inr src, f', s') \<Longrightarrow> src \<noteq> kEndpointInvalid \<Longrightarrow>
      source f' = src \<and> timestamp_ns f' = ts"
begin

lemma recv_ok:
  "wf_frame f \<Longrightarrow> recv f ts s = (res, f', s') \<Longrightarrow>
   wf_frame f' \<and> (\<forall>src. res = Inr src \<longrightarrow> src \<noteq> kEndpointInvalid \<longrightarrow> source f' = src \<and> timestamp_ns f' = ts)"
  using recv_wf recv_stamped by blast

end

interpretation shm_poll: pollable_link try_receive
proof (unfold_locales, goal_cases)
  case (1 f ts s res f' s')
  then show ?case using receive_scan_frame [OF 1(1)] by (fastforce simp: try_receive_def split: prod.splits)
next
  case (2 f ts s src f' s')
  then show ?case using receive_scan_frame [OF 2(1)] by (fastforce simp: try_receive_def split: prod.splits)
qed

lemma wf_ep_dg_try_recv:
  assumes "ep_dg_try_recv tr h (frame_writable f) out k = (Inr (got, buf, sender), k')" "wf_frame f"
  shows "wf_frame (frame_of_buffer buf)"
proof -
  have f: "data (frame_writable f) = bytes f" "capacity (frame_writable f) = length (bytes f)"
    by (simp_all add: frame_writable_def Buffer_writable_def)
  have "length (write_bytes 0 (take (length (bytes f)) x) (bytes f)) = length (bytes f)" for x
    by (rule length_write_bytes) simp
  then have "length (data buf) = length (bytes f)"
    using assms(1) f
    by (cases tr) (auto simp: ep_dg_try_recv_def Uds_try_recv_def Udp_try_recv_def dg_try_recv_def store_recv_def
        sys_recvfrom_def split: option.splits list.splits recv_answer.splits sum.splits prod.splits if_splits)
  then show ?thesis using assms(2) by (simp add: wf_frame_def frame_of_buffer_def)
qed

lemma dg_try_receive_frame:
  assumes "wf_frame f" "dg_try_receive tr f ts s = (res, f', s')"
  shows "wf_frame f' \<and> (\<forall>src. res = Inr src \<longrightarrow> src \<noteq> kEndpointInvalid \<longrightarrow> source f' = src \<and> timestamp_ns f' = ts)"
proof -
  obtain l k where s: "s = (l, k)" by fastforce
  obtain x k1 where rcv: "ep_dg_try_recv tr (dl_endpoint l) (frame_writable f) (from_zero tr) k = (x, k1)" by fastforce
  show ?thesis
  proof (cases x)
    case (Inl e)
    then show ?thesis using assms rcv s by (auto simp: dg_try_receive_def)
  next
    case (Inr gbs)
    obtain got buf sender where g: "gbs = (got, buf, sender)" by (rule prod_cases3)
    have wf: "wf_frame (frame_of_buffer buf)" by (rule wf_ep_dg_try_recv [OF _ assms(1)]) (use rcv Inr g in simp)
    then show ?thesis
      using assms(2) rcv s Inr g by (auto simp: dg_try_receive_def Let_def split: if_splits)
  qed
qed

interpretation dg_poll: pollable_link "dg_try_receive tr" for tr
  by unfold_locales (use dg_try_receive_frame in blast)+

lemma mx_receive_frame:
  assumes "wf_frame f" "mx_receive kd f ts s = (Some (res, f'), s')"
  shows "wf_frame f' \<and> (\<forall>src. res = Inr src \<longrightarrow> src \<noteq> kEndpointInvalid \<longrightarrow> source f' = src \<and> timestamp_ns f' = ts)"
  using assms(2) shm_poll.recv_ok [OF assms(1)] dg_poll.recv_ok [OF assms(1)]
  by (cases kd) (auto simp: mx_receive_def on_shm_def on_uds_def on_udp_def split: option.splits prod.splits)

section \<open>Properties of the mixed loop\<close>

lemma mx_deliver_events:
  "mx_deliver os src f ds s = (r, ev, s') \<Longrightarrow> OnForward a b g \<in> set ev \<Longrightarrow> a = src \<and> g = f \<and> b \<in> set ds"
  by (induction ds arbitrary: s ev) (fastforce split: prod.splits sum.splits)+

definition report_ok :: "RouteRule list \<Rightarrow> u64 set \<Rightarrow> u8 \<Rightarrow> u8 \<Rightarrow> RouterFrame \<Rightarrow> bool" where
  "report_ok rules T src dst g \<longleftrightarrow> source g = src \<and> timestamp_ns g \<in> T
     \<and> dst \<in> set (targets_list (route_targets_for rules src (topic_id g)))"

lemma poll_link_reports:
  assumes "wf_frame f" "poll_link os kd f ts rules s = (r, ev, f', s')"
  shows "wf_frame f' \<and> (\<forall>a b g. OnForward a b g \<in> set ev \<longrightarrow> report_ok rules {ts} a b g)"
proof -
  obtain x s1 where rcv: "mx_receive kd f ts s = (x, s1)" by (rule prod.exhaust)
  show ?thesis
  proof (cases x)
    case None
    then show ?thesis using assms rcv by (auto simp: poll_link_def)
  next
    case (Some y)
    obtain res f1 where y: "y = (res, f1)" by fastforce
    note st = mx_receive_frame [OF assms(1) rcv [unfolded Some y]]
    show ?thesis
    proof (cases "\<exists>src. res = Inr src \<and> src \<noteq> kEndpointInvalid")
      case False
      then show ?thesis using assms(2) rcv Some y st by (cases res) (auto simp: poll_link_def)
    next
      case True
      then obtain src where src: "res = Inr src" "src \<noteq> kEndpointInvalid" by blast
      obtain r1 s2 where dl: "mx_deliver os src f1 (targets_list (route_targets_for rules src (topic_id f1))) s1
          = (r1, ev, s2)" and f': "f' = f1"
        using assms(2) rcv Some y src by (auto simp: poll_link_def split: prod.splits sum.splits)
      show ?thesis using st src mx_deliver_events [OF dl] f' by (auto simp: report_ok_def)
    qed
  qed
qed

lemma poll_all_reports:
  "wf_frame f \<Longrightarrow> poll_all os kds f ts rules s = (r, ev, f', s') \<Longrightarrow>
   wf_frame f' \<and> (\<forall>a b g. OnForward a b g \<in> set ev \<longrightarrow> report_ok rules {ts} a b g)"
proof (induction kds arbitrary: f s r ev f' s')
  case (Cons kd kds)
  obtain r1 ev1 f1 s1 where 1: "poll_link os kd f ts rules s = (r1, ev1, f1, s1)" by (rule prod_cases4)
  obtain r2 ev2 f2 s2 where 2: "poll_all os kds f1 ts rules s1 = (r2, ev2, f2, s2)" by (rule prod_cases4)
  note p = poll_link_reports [OF Cons.prems(1) 1]
  have "wf_frame f2 \<and> (\<forall>a b g. OnForward a b g \<in> set ev2 \<longrightarrow> report_ok rules {ts} a b g)"
    by (rule Cons.IH [OF _ 2]) (use p in simp)
  then show ?case using p Cons.prems(2) 1 2 by (cases r1; cases r2) auto
qed simp

lemma mixed_loop_reports:
  "wf_frame f \<Longrightarrow> OnForward a b g \<in> set (fst (snd (mixed_loop os env opts rules fuel i prev f s))) \<Longrightarrow>
   report_ok rules (range (now_ns env)) a b g"
proof (induction fuel arbitrary: i prev f s)
  case (Suc fuel)
  obtain r ev f1 s1 where 1: "poll_all os [ShmRing, UdsPath, UdpEndpoint] f (now_ns env i) rules s = (r, ev, f1, s1)"
    by (rule prod_cases4)
  note p = poll_all_reports [OF Suc.prems(1) 1]
  have now: "report_ok rules (range (now_ns env)) a b g" if "OnForward a b g \<in> set ev"
    using p that by (auto simp: report_ok_def)
  have later: "report_ok rules (range (now_ns env)) a b g"
    if "OnForward a b g \<in> set (fst (snd (mixed_loop os env opts rules fuel (Suc i) q f1 (others env i s1))))" for q
    by (rule Suc.IH [OF _ that]) (use p in simp)
  have "OnForward a b g \<in> set ev
    \<or> (\<exists>q. OnForward a b g \<in> set (fst (snd (mixed_loop os env opts rules fuel (Suc i) q f1 (others env i s1)))))"
    using Suc.prems(2) 1
    by (cases r) (auto simp del: poll_all.simps split: if_splits)
  then show ?case using now later by blast
qed simp

text \<open>
  The mixed router never reports a forward outside its rule table, over any combination of
  transports and for runs of any length: source and time stamp of a reported frame are the
  router's own, and the destination is listed by the first matching rule.
\<close>

lemma mixed_reports_routes:
  assumes "\<forall>r\<in>set rules. wf_rule r"
    "OnForward src dst g \<in> set (fst (snd (MixedRouterServer_run os env opts rules fuel start s)))"
  shows "source g = src \<and> dst \<in> set (route_spec rules src (topic_id g)) \<and> timestamp_ns g \<in> range (now_ns env)"
proof -
  have "wf_frame RouterFrame_default" by (simp add: wf_frame_def RouterFrame_default_def)
  from mixed_loop_reports [OF this assms(2) [unfolded MixedRouterServer_run_def]]
  show ?thesis by (simp add: report_ok_def route_targets_spec [OF assms(1)])
qed

lemma dg_try_receive_arrived:
  assumes "wf_frame f" "socks k (fd (dl_endpoint l)) = Some sk" "sk_inbox sk = Arrived sender x # rest"
    "length x \<ge> kRouterFrameSize"
    "src = peer_id_from_recv tr (dl_topo l) (case sender of None \<Rightarrow> from_zero tr | Some a \<Rightarrow> a)"
    "src \<noteq> kEndpointInvalid"
  shows "dg_try_receive tr f ts (l, k) =
    (Inr src, set_timestamp_ns ts (set_source src \<lparr>bytes = take kRouterFrameSize x\<rparr>),
     (l, put_sock (fd (dl_endpoint l)) (sk\<lparr>sk_inbox := rest\<rparr>) k))"
proof -
  let ?b = "frame_writable f"
  have len: "length (bytes f) = kRouterFrameSize" using assms(1) by (simp add: wf_frame_def)
  have cap: "capacity ?b = kRouterFrameSize" "data ?b = bytes f"
    using len by (simp_all add: frame_writable_def Buffer_writable_def)
  have st: "store_recv sender (take kRouterFrameSize x) ?b (from_zero tr)
      = (?b\<lparr>data := take kRouterFrameSize x, buf_size := kRouterFrameSize\<rparr>,
         case sender of None \<Rightarrow> from_zero tr | Some a \<Rightarrow> a)"
    using assms(4) len cap by (simp add: store_recv_def write_bytes_def)
  have "ep_dg_try_recv tr (dl_endpoint l) ?b (from_zero tr) k =
      (Inr (True, store_recv sender (take kRouterFrameSize x) ?b (from_zero tr)),
       put_sock (fd (dl_endpoint l)) (sk\<lparr>sk_inbox := rest\<rparr>) k)"
    using assms(2,3) cap(1)
    by (cases tr) (simp_all add: ep_dg_try_recv_def Uds_try_recv_def Udp_try_recv_def dg_try_recv_def sys_recvfrom_def)
  then show ?thesis
    using assms(6)
    by (simp add: dg_try_receive_def st frame_of_buffer_def Let_def assms(5) [symmetric])
qed

definition demo_mixed :: MixedRouterServer where
  "demo_mixed = \<lparr>mx_topo = demo_dg_topology, shm_link = None, uds_link = Some demo_dg_link, udp_link = None,
     has_shm = False, has_uds = True, has_udp = False,
     peer_known = (replicate 256 False)[1 := True, 4 := True],
     peer_transport = (replicate 256 ShmRing)[1 := UdsPath, 4 := UdsPath]\<rparr>"

lemma demo_mixed_tables:
  "length (peer_known demo_mixed) = 256" "peer_known demo_mixed ! 4" "peer_transport demo_mixed ! 4 = UdsPath"
  "shm_link demo_mixed = None" "uds_link demo_mixed = Some demo_dg_link" "udp_link demo_mixed = None"
  by (simp_all add: demo_mixed_def)

lemma demo_source: "1 = peer_id_from_recv UdsT (dl_topo demo_dg_link)
    (case Some (SockUn ''/tmp/a'') of None \<Rightarrow> from_zero UdsT | Some a \<Rightarrow> a)"
  "(1 :: u8) \<noteq> kEndpointInvalid"
  by (simp_all add: demo_route demo_dg_link_def kEndpointInvalid_def)

lemma demo_run_forwards:
  "OnForward 1 4 demo_stamped \<in> set (fst (snd (MixedRouterServer_run demo_os demo_env RouterRunOptions_default
     demo_rules 1 0 (demo_mixed, empty_world, demo_kernel\<lparr>socks := [3 \<mapsto> demo_sock]\<rparr>))))"
proof -
  let ?k = "demo_kernel\<lparr>socks := [3 \<mapsto> demo_sock]\<rparr>"
  let ?k1 = "put_sock 3 (demo_sock\<lparr>sk_inbox := []\<rparr>) ?k"
  let ?m = "demo_mixed\<lparr>uds_link := Some demo_dg_link\<rparr>"
  have l: "fd (dl_endpoint demo_dg_link) = 3" by (simp add: demo_dg_link_def)
  have k: "socks ?k (fd (dl_endpoint demo_dg_link)) = Some demo_sock"
    "sk_inbox demo_sock = Arrived (Some (SockUn ''/tmp/a'')) demo_frame # []"
    "length demo_frame \<ge> kRouterFrameSize"
    by (simp_all add: l demo_sock_def demo_frame_length)
  have "dg_try_receive UdsT RouterFrame_default 5 (demo_dg_link, ?k) = (Inr 1, demo_stamped, (demo_dg_link, ?k1))"
    using dg_try_receive_arrived [OF _ k demo_source, of RouterFrame_default 5]
    by (simp add: wf_frame_def RouterFrame_default_def demo_stamped_def l)
  then have recv: "mx_receive UdsPath RouterFrame_default 5 (demo_mixed, empty_world, ?k)
      = (Some (Inr 1, demo_stamped), (?m, empty_world, ?k1))"
    by (simp add: mx_receive_def on_uds_def demo_mixed_tables)
  obtain l2 k2 where "dg_send_to_peer demo_os (frame_read_only demo_stamped) 4 (demo_dg_link, ?k1) = (Inr (), (l2, k2))"
    by (simp add: dg_send_to_peer_def send_buffer_to_def send_datagram_to_address_def Uds_send_to_def sys_sendto_def
        demo_os_def l demo_dg_link_def demo_dg_topology_def lookup_defs Let_def)
  then have "mx_send_to_peer demo_os (frame_read_only demo_stamped) 4 (?m, empty_world, ?k1)
      = (Inr (), (?m\<lparr>uds_link := Some l2\<rparr>, empty_world, k2))"
    using demo_mixed_tables by (simp add: mx_send_to_peer_def on_uds_def)
  then have uds: "poll_link demo_os UdsPath RouterFrame_default 5 demo_rules (demo_mixed, empty_world, ?k)
      = (Inr True, [OnForward 1 4 demo_stamped], demo_stamped, (?m\<lparr>uds_link := Some l2\<rparr>, empty_world, k2))"
    by (simp add: poll_link_def recv kEndpointInvalid_def demo_stamped_fields demo_route)
  have idle: "poll_link demo_os ShmRing f 5 demo_rules (demo_mixed, s) = (Inr False, [], f, (demo_mixed, s))"
    "poll_link demo_os UdpEndpoint f 5 demo_rules (?m\<lparr>uds_link := x\<rparr>, s) = (Inr False, [], f, (?m\<lparr>uds_link := x\<rparr>, s))"
    for f s x by (simp_all add: poll_link_def mx_receive_def demo_mixed_tables)
  show ?thesis
    using uds idle by (simp add: MixedRouterServer_run_def demo_env_def then_events_def)
qed

end
