(* ===== verification/Delivery.thy ===== *)
theory Delivery
  imports ShmLink
begin

text \<open>
  The way of one frame through a shared-memory router: \<open>send_to_router\<close> of a client, \<open>forward\<close> of
  the server and \<open>recv_message\<close> of another client (\<open>ipc/src/router/shm_router_link.hpp\<close>), on the
  abstract router first and then on the rings.
\<close>

section \<open>On the abstract router\<close>

lemma deliver_id [simp]: "v_id (deliver fl x u) = v_id u"
  by (simp add: deliver_def)

lemma send_spec_known:
  assumes "d \<in> v_id ` set (v_peers L)"
  obtains mt where "send_spec x d L = (Inr (), L\<lparr>v_peers := map (\<lambda>u. if v_id u = d then deliver (v_floor L) x u else u)
    (v_peers L), v_metrics := mt\<rparr>)"
proof (cases "find (\<lambda>v. v_id v = d) (v_peers L)")
  case None
  then show ?thesis using assms by (auto simp: find_None_iff)
next
  case (Some v)
  then show ?thesis using that by (simp add: send_spec_def)
qed

lemma fan_out_delivers:
  "distinct ds \<Longrightarrow> set ds \<subseteq> v_id ` set (v_peers L) \<Longrightarrow>
   \<exists>L'. fan_out (send_spec x) ds L = (Inr (), L') \<and> v_floor L' = v_floor L
     \<and> v_peers L' = map (\<lambda>u. if v_id u \<in> set ds then deliver (v_floor L) x u else u) (v_peers L)"
proof (induction ds arbitrary: L)
  case (Cons d ds)
  have "d \<in> v_id ` set (v_peers L)" using Cons.prems(2) by simp
  then obtain mt where 1: "send_spec x d L = (Inr (), L\<lparr>v_peers := map (\<lambda>u. if v_id u = d then deliver (v_floor L) x u else u)
    (v_peers L), v_metrics := mt\<rparr>)" by (rule send_spec_known)
  let ?L = "L\<lparr>v_peers := map (\<lambda>u. if v_id u = d then deliver (v_floor L) x u else u) (v_peers L), v_metrics := mt\<rparr>"
  have same: "map v_id (v_peers ?L) = map v_id (v_peers L)" by simp
  have ids: "v_id ` set (v_peers ?L) = v_id ` set (v_peers L)"
    using arg_cong [OF same, of set] by (simp only: list.set_map)
  have "distinct ds" "set ds \<subseteq> v_id ` set (v_peers ?L)" unfolding ids using Cons.prems by simp_all
  from Cons.IH [OF this] obtain L' where L': "fan_out (send_spec x) ds ?L = (Inr (), L')" "v_floor L' = v_floor ?L"
    "v_peers L' = map (\<lambda>u. if v_id u \<in> set ds then deliver (v_floor ?L) x u else u) (v_peers ?L)"
    by (elim exE conjE)
  have "fan_out (send_spec x) (d # ds) L = (Inr (), L')" using 1 L'(1) by simp
  moreover have "v_peers L' = map (\<lambda>u. if v_id u \<in> set (d # ds) then deliver (v_floor L) x u else u) (v_peers L)"
    unfolding L'(3) using Cons.prems(1) by simp
  ultimately show ?case using L'(2) by simp
qed simp

lemma receive_first:
  "\<forall>u\<in>set pre. v_in u = [] \<Longrightarrow> v_in v = x # xs \<Longrightarrow> length x = kRouterFrameSize \<Longrightarrow>
   receive_spec (pre @ v # post) mt = (Inr (Some (v_id v, x)), pre @ v\<lparr>v_in := xs\<rparr> # post, mt)"
  by (induction pre) simp_all

lemma forward_spec_delivers:
  assumes "v_peers L = pre @ v # post" "\<forall>u\<in>set pre. v_in u = []" "v_in v = bytes f # xs" "wf_frame f"
    "\<forall>r\<in>set rules. wf_rule r" "ds = route_spec rules (v_id v) (topic_id f)" "distinct ds"
    "set ds \<subseteq> v_id ` set (v_peers L)" "g = set_timestamp_ns ts (set_source (v_id v) f)"
  shows "\<exists>L' fr. forward_spec ts rules L = (Inr (fr, Some g), L') \<and> fwd_source fr = v_id v
    \<and> targets_list (fwd_targets fr) = ds \<and> v_floor L' = v_floor L
    \<and> v_peers L' = map (\<lambda>u. if v_id u \<in> set ds then deliver (v_floor L) (bytes g) u else u)
        (pre @ v\<lparr>v_in := xs\<rparr> # post)"
proof -
  let ?L = "L\<lparr>v_peers := pre @ v\<lparr>v_in := xs\<rparr> # post, v_metrics := v_metrics L\<rparr>"
  have g: "stamp (v_id v) ts (bytes f) = g" by (cases f) (simp add: stamp_def assms(9))
  have topic: "topic_id g = topic_id f" using assms(4) by (simp add: assms(9))
  have tg: "targets_list (route_targets_for rules (v_id v) (topic_id g)) = ds"
    using route_targets_spec [OF assms(5)] by (simp add: topic assms(6))
  have ids: "set ds \<subseteq> v_id ` set (v_peers ?L)" using assms(1,8) by auto
  have fl: "v_floor ?L = v_floor L" "v_peers ?L = pre @ v\<lparr>v_in := xs\<rparr> # post" by simp_all
  from fan_out_delivers [OF assms(7) ids, of "bytes g", unfolded fl] obtain L' where
    "fan_out (send_spec (bytes g)) ds ?L = (Inr (), L')" "v_floor L' = v_floor L"
    "v_peers L' = map (\<lambda>u. if v_id u \<in> set ds then deliver (v_floor L) (bytes g) u else u) (pre @ v\<lparr>v_in := xs\<rparr> # post)"
    by (elim exE conjE) (rule that)
  moreover have "receive_spec (v_peers L) (v_metrics L)
      = (Inr (Some (v_id v, bytes f)), pre @ v\<lparr>v_in := xs\<rparr> # post, v_metrics L)"
    unfolding assms(1) by (rule receive_first) (use assms(2-4) in \<open>auto simp: wf_frame_def\<close>)
  ultimately show ?thesis
    by (intro exI [of _ L'] exI [of _ "\<lparr>fwd_source = v_id v, fwd_targets = route_targets_for rules (v_id v) (topic_id g)\<rparr>"])
      (simp add: forward_spec_def g tg Let_def)
qed

section \<open>On the rings\<close>

text \<open>No call of the server changes which region belongs to which peer.\<close>

definition chan_ends :: "ShmRouterLink \<Rightarrow> (u8 \<times> ShmRegion option) list" where
  "chan_ends l = map (\<lambda>c. (chan_peer_id c, chan_endpoint c)) (peer_channels l)"

lemma send_scan_ends:
  "send_scan fl d pl cs mt w = (r, cs', mt', w') \<Longrightarrow>
   map (\<lambda>c. (chan_peer_id c, chan_endpoint c)) cs' = map (\<lambda>c. (chan_peer_id c, chan_endpoint c)) cs"
  by (induction cs arbitrary: r cs' mt' w') (auto simp: Let_def split: if_splits sum.splits prod.splits)

lemma send_to_peer_ends: "chan_ends (fst (snd (send_to_peer pl d s))) = chan_ends (fst s)"
  by (cases s) (auto simp: send_to_peer_def chan_ends_def split: prod.splits dest: send_scan_ends)

lemma try_receive_ends: "try_receive f ts s = (r, f', s') \<Longrightarrow> peer_channels (fst s') = peer_channels (fst s)"
  by (cases s) (auto simp: try_receive_def split: prod.splits)

lemma fan_out_ends: "chan_ends (fst (snd (fan_out (send_to_peer pl) ds s))) = chan_ends (fst s)"
  by (rule fan_out_invariant [where I = "\<lambda>q. chan_ends (fst q) = chan_ends (fst s)"]) (simp_all add: send_to_peer_ends)

lemma forward_ends:
  assumes "forward f ts rules s = (r, f', s')"
  shows "chan_ends (fst s') = chan_ends (fst s)"
proof -
  obtain r1 f1 l1 w1 where rcv: "try_receive f ts s = (r1, f1, (l1, w1))" by (metis prod_cases4)
  have ends: "chan_ends l1 = chan_ends (fst s)" using try_receive_ends [OF rcv] by (simp add: chan_ends_def)
  have fan: "fan_out (send_to_peer pl) ds (l1, w1) = (x, s2) \<Longrightarrow> chan_ends (fst s2) = chan_ends (fst s)" for pl ds x s2
    using fan_out_ends [of pl ds "(l1, w1)"] ends by simp
  show ?thesis
    using assms rcv ends fan
    by (auto simp: forward_def Let_def chan_ends_def split: if_splits sum.splits prod.splits)
qed

lemma chan_ends_nth:
  assumes "chan_ends l' = chan_ends l" "i < length (peer_channels l)"
  shows "i < length (peer_channels l')" "chan_peer_id (peer_channels l' ! i) = chan_peer_id (peer_channels l ! i)"
    "region_of (peer_channels l' ! i) = region_of (peer_channels l ! i)"
proof -
  have "length (chan_ends l') = length (chan_ends l)" using assms(1) by simp
  then show i: "i < length (peer_channels l')" using assms(2) by (simp add: chan_ends_def)
  have "chan_ends l' ! i = chan_ends l ! i" using assms(1) by simp
  then show "chan_peer_id (peer_channels l' ! i) = chan_peer_id (peer_channels l ! i)"
    "region_of (peer_channels l' ! i) = region_of (peer_channels l ! i)"
    using i assms(2) by (simp_all add: chan_ends_def region_of_def)
qed

text \<open>What a client does to its own rings leaves the other channels as they are.\<close>

lemma link_inv_put:
  assumes "link_inv (k + n) (l, w)" "c \<in> set (peer_channels l)" "chan_ok (put_mem (region_of c) m w) c"
    "in_pos (put_mem (region_of c) m w) c \<le> in_pos w c + k" "out_pos (put_mem (region_of c) m w) c \<le> out_pos w c + k"
  shows "link_inv n (l, put_mem (region_of c) m w)"
    "\<And>d. d \<in> set (peer_channels l) \<Longrightarrow> d \<noteq> c \<Longrightarrow> view_of (put_mem (region_of c) m w) d = view_of w d"
proof -
  have apart: "chan_obj d \<noteq> chan_obj c" if "d \<in> set (peer_channels l)" "d \<noteq> c" for d
    using assms(1,2) that by (auto simp: link_inv_def chans_ok_def distinct_map inj_on_def)
  then show "view_of (put_mem (region_of c) m w) d = view_of w d"
    if "d \<in> set (peer_channels l)" "d \<noteq> c" for d
    using that chan_cong(2) [of "put_mem (region_of c) m w" d w] by simp
  have "chan_ok (put_mem (region_of c) m w) d \<and> in_pos (put_mem (region_of c) m w) d + n < 2 ^ 64
      \<and> out_pos (put_mem (region_of c) m w) d + n < 2 ^ 64"
    if "d \<in> set (peer_channels l)" for d
  proof -
    have "chan_ok w d" "in_pos w d + (k + n) < 2 ^ 64" "out_pos w d + (k + n) < 2 ^ 64"
      using assms(1) that by (auto simp: link_inv_def chans_ok_def)
    then show ?thesis
      using assms(3-5) apart [OF that] chan_frame(1,4,5) [of d "region_of c" m w] by (cases "d = c") simp_all
  qed
  then show "link_inv n (l, put_mem (region_of c) m w)"
    using assms(1) by (simp add: link_inv_def chans_ok_def)
qed

text \<open>
  A client sends a frame over an idle router: the next \<open>forward\<close> takes it, stamps it and puts it
  into the ring of every destination.
\<close>

lemma frame_forwarded:
  assumes "link_inv (1 + (kMaxRouteDests + n)) (l, w)" "a \<in> set (peer_channels l)" "client_of a cl"
    "list_all (\<lambda>c. in_q w c = []) (peer_channels l)" "0 < slot_count (region_of a)"
    "wf_frame f" "wf_frame h"
    "\<forall>r\<in>set rules. wf_rule r" "ds = route_spec rules (chan_peer_id a) (topic_id f)" "distinct ds"
    "set ds \<subseteq> chan_peer_id ` set (peer_channels l)" "g = set_timestamp_ns ts (set_source (chan_peer_id a) f)"
  obtains w1 fr l2 w2 where "send_to_router env f (cl, w) = Some (Inr (), (cl, w1))"
    "forward h ts rules (l, w1) = (Inr fr, g, (l2, w2))" "fwd_source fr = chan_peer_id a"
    "targets_list (fwd_targets fr) = ds" "link_inv n (l2, w2)" "chan_ends l2 = chan_ends l"
    "map (view_of w2) (peer_channels l2)
       = map (\<lambda>c. if chan_peer_id c \<in> set ds then deliver (priority_drop_floor l) (bytes g) (view_of w c) else view_of w c)
           (peer_channels l)"
proof -
  have inv: "chan_ok w a" "distinct (peer_channels l)" "in_pos w a + 1 < 2 ^ 64"
    using assms(1,2) by (auto simp: link_inv_def chans_ok_def distinct_map)
  have room: "length (in_q w a) < slot_count (region_of a)" using assms(2,4,5) by (simp add: list_all_iff)
  obtain m where m: "send_to_router env f (cl, w) = Some (Inr (), (cl, put_mem (region_of a) m w))"
    "chan_ok (put_mem (region_of a) m w) a" "in_q (put_mem (region_of a) m w) a = in_q w a @ [bytes f]"
    "out_q (put_mem (region_of a) m w) a = out_q w a" "out_pos (put_mem (region_of a) m w) a = out_pos w a"
    "in_pos (put_mem (region_of a) m w) a = in_pos w a + 1"
    by (rule client_send [OF assms(3) inv(1) assms(6) room inv(3)])
  let ?w = "put_mem (region_of a) m w"
  have budget: "in_pos ?w a \<le> in_pos w a + 1" "out_pos ?w a \<le> out_pos w a + 1" using m(5,6) by simp_all
  note put = link_inv_put [OF assms(1,2) m(2) budget]
  obtain pre post where split: "peer_channels l = pre @ a # post" using assms(2) by (metis split_list)
  have va: "view_of ?w a = (view_of w a)\<lparr>v_in := [bytes f]\<rparr>"
    using m(3,4) assms(2,4) by (simp add: view_of_def list_all_iff)
  have others: "map (view_of ?w) pre = map (view_of w) pre" "map (view_of ?w) post = map (view_of w) post"
    using put(2) split inv(2) by auto
  have vs: "v_peers (link_view (l, ?w)) = map (view_of w) pre @ view_of ?w a # map (view_of w) post"
    using others split by (simp add: link_view_def)
  have quiet: "\<forall>u\<in>set (map (view_of w) pre). v_in u = []"
    using assms(4) split by (auto simp: list_all_iff view_of_def)
  have taken: "(view_of ?w a)\<lparr>v_in := []\<rparr> = view_of w a"
    using va assms(2,4) by (simp add: view_of_def list_all_iff)
  have ids: "v_id ` set (v_peers (link_view (l, ?w))) = chan_peer_id ` set (peer_channels l)"
    by (force simp: link_view_def view_of_def)
  have src: "v_id (view_of ?w a) = chan_peer_id a" by simp
  have waiting: "v_in (view_of ?w a) = [bytes f]" by (simp add: va)
  from forward_spec_delivers [OF vs quiet waiting assms(6,8) _ assms(10), unfolded src ids, OF assms(9,11,12)]
  obtain L' fr where spec: "forward_spec ts rules (link_view (l, ?w)) = (Inr (fr, Some g), L')"
    "fwd_source fr = chan_peer_id a" "targets_list (fwd_targets fr) = ds"
    "v_peers L' = map (\<lambda>u. if v_id u \<in> set ds then deliver (priority_drop_floor l) (bytes g) u else u)
        (map (view_of w) pre @ view_of w a # map (view_of w) post)"
    unfolding taken by (auto simp: link_view_def)
  obtain res f' s' where fwd: "forward h ts rules (l, ?w) = (res, f', s')" by (rule prod_cases3)
  obtain l2 w2 where s': "s' = (l2, w2)" by fastforce
  from forward_refines [OF put(1) assms(7) fwd] spec(1) s'
  have out: "link_inv n (l2, w2)" "L' = link_view (l2, w2)" "res = Inr fr" "f' = g" by auto
  have "map (view_of w2) (peer_channels l2) = v_peers L'" by (simp add: out(2) link_view_def)
  also have "\<dots> = map (\<lambda>c. if chan_peer_id c \<in> set ds then deliver (priority_drop_floor l) (bytes g) (view_of w c) else view_of w c)
           (peer_channels l)"
    unfolding spec(4) split by simp
  finally show thesis
    using that [OF m(1)] fwd out spec(2,3) forward_ends [OF fwd] unfolding s' by simp
qed

text \<open>A destination whose ring was empty then receives exactly the stamped frame.\<close>

lemma frame_received:
  assumes "link_inv n (l2, w2)" "chan_ends l2 = chan_ends l" "b \<in> set (peer_channels l)" "client_of b cl"
    "map (view_of w2) (peer_channels l2) = map V (peer_channels l)"
    "V b = deliver fl (bytes g) (view_of w b)" "out_q w b = []" "\<not> congested b" "0 < slot_count (region_of b)"
    "wf_frame g" "wf_frame h"
  obtains w3 where "recv_message h (cl, w2) = (Inr True, g, (cl, w3))"
proof -
  obtain i where i: "i < length (peer_channels l)" "peer_channels l ! i = b" using assms(3) by (metis in_set_conv_nth)
  note same = chan_ends_nth [OF assms(2) i(1), unfolded i(2)]
  let ?b = "peer_channels l2 ! i"
  have "view_of w2 ?b = map (view_of w2) (peer_channels l2) ! i" using same(1) by simp
  also have "\<dots> = V b" using assms(5) i by simp
  finally have "out_q w2 ?b = [bytes g]"
    using assms(6-9) by (simp add: view_of_def deliver_def admits_def)
  moreover have "chan_ok w2 ?b" using assms(1) same(1) by (simp add: link_inv_def chans_ok_def)
  moreover have "client_of ?b cl" using assms(4) same(3) by (simp add: client_of_def)
  moreover have "length (bytes g) = kRouterFrameSize" using assms(10) by (simp add: wf_frame_def)
  ultimately obtain m where "recv_message h (cl, w2) = (Inr True, \<lparr>bytes = bytes g\<rparr>, (cl, put_mem (region_of ?b) m w2))"
    using client_recv [OF _ _ assms(11)] by metis
  then show thesis using that by simp
qed

end
