(* ===== verification/Deployment.thy ===== *)
theory Deployment
  imports LoaderSound Factory MixedRouter Delivery
begin

text \<open>
  The parts together: a router and its clients brought up from a loaded profile
  (\<open>topology_loader.hpp\<close>, \<open>factory.hpp\<close>, \<open>shm_router_link.hpp\<close>), and the mixed router
  (\<open>mixed_router_server.hpp\<close>) on the topology and the rules of one.
\<close>

section \<open>Loaded profiles meet the requirements of the links\<close>

lemma ring_sizes_of_peer:
  assumes "peer_ok e"
  shows "ring_sizes_ok e"
proof -
  let ?p = "peer_bind_params e True"
  have s: "0 < bp_slot_count ?p" "bp_slot_count ?p \<le> 2 ^ 20"
    using assms by (auto simp: peer_ok_def peer_bind_params_def Let_def ShmBindParams_default_def unat_eq_zero word_gt_0_no
        simp flip: unat_gt_0)
  have m: "kRouterFrameSize \<le> bp_max_payload ?p" "bp_max_payload ?p \<le> 2 ^ 28"
    using assms by (auto simp: peer_ok_def peer_bind_params_def Let_def ShmBindParams_default_def kRouterFrameSize_def)
  have "bp_slot_count ?p * (4 + bp_max_payload ?p) \<le> 2 ^ 20 * (4 + 2 ^ 28)"
    by (rule mult_le_mono) (use s m in simp_all)
  then have "64 + 2 * bp_slot_count ?p * (4 + bp_max_payload ?p) < 2 ^ 64" by simp
  moreover have "bp_max_payload ?p < 2 ^ 32" using m(2) by simp
  ultimately show ?thesis using s(1) m(1) by (simp add: ring_sizes_ok_def bind_ok_def)
qed

lemma loaded_shm_topology:
  assumes "loaded_ok lt" "\<exists>e\<in>set (lt_peers lt). is_shm e" "distinct (map ring_name (filter is_shm (lt_peers lt)))"
  shows "shm_topology_ok (view lt)" "distinct (map peer_id (peers (view lt)))"
proof -
  have ps: "\<forall>e\<in>set (lt_peers lt). peer_ok e" "distinct (map peer_id (lt_peers lt))"
    using assms(1) by (simp_all add: loaded_ok_def peers_ok_def)
  then show "distinct (map peer_id (peers (view lt)))" by (simp add: view_def)
  have "peer_id e \<noteq> kEndpointInvalid" if "e \<in> set (lt_peers lt)" for e
    using ps(1) that by (auto simp: peer_ok_def kEndpointInvalid_def)
  moreover have "distinct (map peer_id (filter is_shm (lt_peers lt)))" by (rule distinct_map_filter [OF ps(2)])
  ultimately show "shm_topology_ok (view lt)"
    using assms(2,3) ps(1) ring_sizes_of_peer by (auto simp: shm_topology_ok_def view_def filter_empty_conv)
qed

section \<open>A shared-memory router from a profile\<close>

lemma slots_positive: "chan_ok w c \<Longrightarrow> 0 < slot_count (region_of c)"
  by (auto simp: chan_ok_def region_inv_def ring_inv_def ring_geom_def req_ring_def)

text \<open>The running router: its link and the world, and the clients that can join it.\<close>

definition joinable :: "RouterTopology \<Rightarrow> ShmWorld \<Rightarrow> PeerChannel \<Rightarrow> bool" where
  "joinable t w c \<longleftrightarrow> (\<forall>os. shm_os_ok os \<longrightarrow>
     (\<exists>cl. make_shm_router_client os t (chan_peer_id c) w = (Inr cl, w) \<and> client_of c cl))"

lemma stand_up:
  assumes "loaded_ok lt" "\<exists>e\<in>set (lt_peers lt). is_shm e" "distinct (map ring_name (filter is_shm (lt_peers lt)))"
    "kind (lt_listen lt) = ShmRing" "world_ok w" "\<And>n. shm_os_ok (os n)" "n < 2 ^ 64"
  obtains l w' where
    "bind_shm_router_listen os (view lt) (make_shm_router_server (view lt), w) = (Inr (), (l, w'))"
    "link_inv n (l, w')" "map chan_peer_id (peer_channels l) = map peer_id (filter is_shm (lt_peers lt))"
    "list_all (fresh_chan w') (peer_channels l)" "priority_drop_floor l = 0"
    "list_all (joinable (view lt) w') (peer_channels l)" "metrics l = ShmRouterMetrics_zero"
    "bound_to w' (filter is_shm (lt_peers lt)) (peer_channels l)" "world_ok w'"
proof -
  note t = loaded_shm_topology [OF assms(1-3)]
  let ?p = "ShmBindParams_default\<lparr>bp_name := shm_name (lt_listen lt), bp_create := False\<rparr>"
  have listen: "router_listen_bind_params_shm (view lt) = Inr ?p"
    using assms(4) by (simp add: router_listen_bind_params_shm_def view_def)
  obtain l w' where l: "bind_router os ?p (ShmRouterLink_server (view lt), w) = (Inr (), (l, w'))"
    "link_inv n (l, w')" "map chan_peer_id (peer_channels l) = map peer_id (filter is_shm (peers (view lt)))"
    "bound_to w' (filter is_shm (peers (view lt))) (peer_channels l)"
    "list_all (fresh_chan w') (peer_channels l)" "priority_drop_floor l = 0" "metrics l = ShmRouterMetrics_zero" "world_ok w'"
    using bind_router_ok [where os = os and p = ?p, OF assms(5,6) t(1) assms(7)] by (elim exE conjE) (rule that)
  have "bind_shm_router_listen os (view lt) (make_shm_router_server (view lt), w) = (Inr (), (l, w'))"
    using l(1) listen
    by (simp add: bind_shm_router_listen_def make_shm_router_server_def ShmRouterServer_new_def ShmRouterServer_bind_router_def)
  moreover have "chans_ok n w' (peer_channels l)" using l(2) by (simp add: link_inv_def)
  then have "list_all (joinable (view lt) w') (peer_channels l)"
    using clients_join [OF _ t(2) l(4)] unfolding list_all_iff joinable_def
    by (simp add: make_shm_router_client_def ShmRouterClient_new_def) blast
  ultimately show thesis using that l(2-8) by (simp add: view_def)
qed

text \<open>
  A shared-memory profile comes up. If a profile loads, has a shared-memory peer and a
  shared-memory listen address and no two such peers share a ring name, then the factories bring
  the router up: one empty, uncongested ring pair per shared-memory peer, in profile order, and
  every such peer's client can join its own rings and changes nothing by joining. In particular
  the ring sizes that the loader admits never overflow the size of a mapping.
\<close>

lemma loaded_profile_starts:
  assumes "load_topology_from_toml_file parse_file path = Inr lt" "\<exists>e\<in>set (lt_peers lt). is_shm e"
    "distinct (map ring_name (filter is_shm (lt_peers lt)))" "kind (lt_listen lt) = ShmRing"
    "world_ok w" "\<And>n. shm_os_ok (os n)"
  shows "\<exists>l w'. bind_shm_router_listen os (view lt) (make_shm_router_server (view lt), w) = (Inr (), (l, w'))
    \<and> map chan_peer_id (peer_channels l) = map peer_id (filter is_shm (lt_peers lt))
    \<and> list_all (\<lambda>c. in_q w' c = [] \<and> out_q w' c = [] \<and> \<not> congested c) (peer_channels l)
    \<and> list_all (\<lambda>c. \<exists>cl. make_shm_router_client (os []) (view lt) (chan_peer_id c) w' = (Inr cl, w') \<and> client_of c cl)
        (peer_channels l)"
proof -
  have z: "(0 :: nat) < 2 ^ 64" by simp
  obtain l w' where l:
    "bind_shm_router_listen os (view lt) (make_shm_router_server (view lt), w) = (Inr (), (l, w'))"
    "link_inv 0 (l, w')" "map chan_peer_id (peer_channels l) = map peer_id (filter is_shm (lt_peers lt))"
    "list_all (fresh_chan w') (peer_channels l)" "priority_drop_floor l = 0"
    "list_all (joinable (view lt) w') (peer_channels l)" "metrics l = ShmRouterMetrics_zero"
    by (rule stand_up [OF from_file.load_ok [OF assms(1)] assms(2-6) z]) (rule that)
  moreover have "list_all (\<lambda>c. \<exists>cl. make_shm_router_client (os []) (view lt) (chan_peer_id c) w' = (Inr cl, w')
      \<and> client_of c cl) (peer_channels l)"
    using l(6) assms(6) by (auto simp: list_all_iff joinable_def)
  ultimately show ?thesis
    by (intro exI [of _ l] exI [of _ w']) (simp add: list_all_iff fresh_chan_def)
qed

text \<open>From a client's send to another client's receive.\<close>

lemma frame_delivered:
  assumes "load_topology_from_toml_string parse text = Inr lt" "\<forall>e\<in>set (lt_peers lt). is_shm e"
    "distinct (map ring_name (lt_peers lt))" "kind (lt_listen lt) = ShmRing"
    "world_ok w" "\<And>n. shm_os_ok (os n)" "wf_frame f" "wf_frame h"
    "dst \<in> set (route_spec (lt_routes lt) src (topic_id f))"
  shows "\<exists>l w1 a b w2 fr l3 w3 w4.
    bind_shm_router_listen os (view lt) (make_shm_router_server (view lt), w) = (Inr (), (l, w1))
    \<and> make_shm_router_client (os []) (view lt) src w1 = (Inr a, w1)
    \<and> make_shm_router_client (os []) (view lt) dst w1 = (Inr b, w1)
    \<and> send_to_router env f (a, w1) = Some (Inr (), (a, w2))
    \<and> forward h ts (lt_routes lt) (l, w2) = (Inr fr, set_timestamp_ns ts (set_source src f), (l3, w3))
    \<and> fwd_source fr = src \<and> targets_list (fwd_targets fr) = route_spec (lt_routes lt) src (topic_id f)
    \<and> ShmRouterClient_recv_message h (b, w3) = (Inr True, set_timestamp_ns ts (set_source src f), (b, w4))"
proof -
  let ?ds = "route_spec (lt_routes lt) src (topic_id f)" and ?g = "set_timestamp_ns ts (set_source src f)"
  have shm: "filter is_shm (lt_peers lt) = lt_peers lt" using assms(2) by (simp add: filter_id_conv)
  note closed = from_string.routes_closed [OF assms(1)]
  have some: "\<exists>e\<in>set (lt_peers lt). is_shm e" using closed [OF assms(9)] assms(2) by auto
  have names: "distinct (map ring_name (filter is_shm (lt_peers lt)))" using assms(3) by (simp only: shm)
  have budget: "1 + (kMaxRouteDests + 0) < 2 ^ 64" by (simp add: kMaxRouteDests_def)
  obtain l w1 where l: "bind_shm_router_listen os (view lt) (make_shm_router_server (view lt), w) = (Inr (), (l, w1))"
    "link_inv (1 + (kMaxRouteDests + 0)) (l, w1)" "map chan_peer_id (peer_channels l) = map peer_id (lt_peers lt)"
    "list_all (fresh_chan w1) (peer_channels l)" "priority_drop_floor l = 0"
    "list_all (joinable (view lt) w1) (peer_channels l)" "metrics l = ShmRouterMetrics_zero"
    by (rule stand_up [OF from_string.load_ok [OF assms(1)] some names assms(4-6) budget, unfolded shm]) (rule that)
  have ids: "chan_peer_id ` set (peer_channels l) = peer_id ` set (lt_peers lt)"
    using arg_cong [OF l(3), of set] by (simp only: list.set_map)
  obtain ca where ca: "ca \<in> set (peer_channels l)" "chan_peer_id ca = src"
    using closed [OF assms(9)] unfolding ids [symmetric] by blast
  obtain cb where cb: "cb \<in> set (peer_channels l)" "chan_peer_id cb = dst"
    using closed [OF assms(9)] unfolding ids [symmetric] by blast
  have join: "\<exists>cl. make_shm_router_client (os []) (view lt) (chan_peer_id c) w1 = (Inr cl, w1) \<and> client_of c cl"
    if "c \<in> set (peer_channels l)" for c
    using l(6) assms(6) [of "[]"] that by (simp add: list_all_iff joinable_def)
  obtain a where a: "make_shm_router_client (os []) (view lt) src w1 = (Inr a, w1)" "client_of ca a"
    using join [OF ca(1)] unfolding ca(2) by (elim exE conjE)
  obtain b where b: "make_shm_router_client (os []) (view lt) dst w1 = (Inr b, w1)" "client_of cb b"
    using join [OF cb(1)] unfolding cb(2) by (elim exE conjE)
  have fa: "fresh_chan w1 ca" and fb: "fresh_chan w1 cb" using l(4) ca(1) cb(1) by (simp_all add: list_all_iff)
  have quiet: "list_all (\<lambda>c. in_q w1 c = []) (peer_channels l)"
    using l(4) by (auto simp: list_all_iff fresh_chan_def)
  have pos: "0 < slot_count (region_of ca)" "0 < slot_count (region_of cb)"
    "out_q w1 cb = []" "\<not> congested cb"
    using fa fb slots_positive by (auto simp: fresh_chan_def)
  have sub: "set ?ds \<subseteq> chan_peer_id ` set (peer_channels l)" using closed ids by blast
  have g: "?g = set_timestamp_ns ts (set_source (chan_peer_id ca) f)" "wf_frame ?g"
    "?ds = route_spec (lt_routes lt) (chan_peer_id ca) (topic_id f)"
    using ca(2) assms(7) by simp_all
  obtain w2 fr l3 w3 where fw: "send_to_router env f (a, w1) = Some (Inr (), (a, w2))"
    "forward h ts (lt_routes lt) (l, w2) = (Inr fr, ?g, (l3, w3))" "fwd_source fr = chan_peer_id ca"
    "targets_list (fwd_targets fr) = ?ds" "link_inv 0 (l3, w3)" "chan_ends l3 = chan_ends l"
    "map (view_of w3) (peer_channels l3)
       = map (\<lambda>c. if chan_peer_id c \<in> set ?ds then deliver (priority_drop_floor l) (bytes ?g) (view_of w1 c) else view_of w1 c)
           (peer_channels l)"
    by (rule frame_forwarded [OF l(2) ca(1) a(2) quiet pos(1) assms(7,8) from_string.routes_wf [OF assms(1)] g(3)
      from_string.routes_distinct [OF assms(1)] sub g(1)])
  have hit: "(if chan_peer_id cb \<in> set ?ds then deliver (priority_drop_floor l) (bytes ?g) (view_of w1 cb) else view_of w1 cb)
      = deliver (priority_drop_floor l) (bytes ?g) (view_of w1 cb)"
    using cb(2) assms(9) by simp
  obtain w4 where "recv_message h (b, w3) = (Inr True, ?g, (b, w4))"
    by (rule frame_received [OF fw(5,6) cb(1) b(2) fw(7) hit pos(3,4,2) g(2) assms(8)])
  then have "ShmRouterClient_recv_message h (b, w3) = (Inr True, ?g, (b, w4))"
    by (simp add: ShmRouterClient_recv_message_def)
  moreover have "fwd_source fr = src" using fw(3) ca(2) by simp
  ultimately show ?thesis using l(1) a(1) b(1) fw(1,2,4) by (intro exI conjI)
qed

text \<open>
  C6: a frame reaches every destination that the profile lists. On a router brought up from a
  profile whose peers are all on shared memory, what a client sends is taken by the next
  \<open>forward\<close>, which reports the client as source and exactly the listed destinations; the client
  of any of them then receives the frame, with the router's stamp of source and time and every
  other field unchanged.
\<close>

theorem shm_end_to_end:
  assumes "load_topology_from_toml_string parse text = Inr lt" "\<forall>e\<in>set (lt_peers lt). is_shm e"
    "distinct (map ring_name (lt_peers lt))" "kind (lt_listen lt) = ShmRing"
    "world_ok w" "\<And>n. shm_os_ok (os n)" "wf_frame f" "wf_frame h"
    "dst \<in> set (route_spec (lt_routes lt) src (topic_id f))"
  shows "\<exists>l w1 a b w2 fr l3 w3 w4.
    bind_shm_router_listen os (view lt) (make_shm_router_server (view lt), w) = (Inr (), (l, w1))
    \<and> make_shm_router_client (os []) (view lt) src w1 = (Inr a, w1)
    \<and> make_shm_router_client (os []) (view lt) dst w1 = (Inr b, w1)
    \<and> send_to_router env f (a, w1) = Some (Inr (), (a, w2))
    \<and> forward h ts (lt_routes lt) (l, w2) = (Inr fr, set_timestamp_ns ts (set_source src f), (l3, w3))
    \<and> fwd_source fr = src \<and> targets_list (fwd_targets fr) = route_spec (lt_routes lt) src (topic_id f)
    \<and> ShmRouterClient_recv_message h (b, w3) = (Inr True, set_timestamp_ns ts (set_source src f), (b, w4))"
  using assms by (rule frame_delivered)

text \<open>The small profile of the loader, with a message of its first peer.\<close>

definition demo_message :: RouterFrame where
  "demo_message = set_topic_id 7 RouterFrame_default"

lemma demo_message_facts: "wf_frame demo_message" "topic_id demo_message = 7" "wf_frame RouterFrame_default"
proof -
  show wf: "wf_frame RouterFrame_default" by (simp add: wf_frame_def RouterFrame_default_def)
  then show "wf_frame demo_message" "topic_id demo_message = 7" by (simp_all add: demo_message_def)
qed

lemma demo_loaded_facts:
  "\<exists>e\<in>set (lt_peers demo_loaded). is_shm e" "\<forall>e\<in>set (lt_peers demo_loaded). is_shm e"
  "distinct (map ring_name (filter is_shm (lt_peers demo_loaded)))" "distinct (map ring_name (lt_peers demo_loaded))"
  "kind (lt_listen demo_loaded) = ShmRing" "2 \<in> set (route_spec (lt_routes demo_loaded) 1 7)"
  "map peer_id (filter is_shm (lt_peers demo_loaded)) = [1, 2]" "route_spec (lt_routes demo_loaded) 1 7 = [2]"
  by (simp_all add: demo_loaded_def route_spec_def rule_matches_def rule_dests_def)

lemma demo_loads_file: "load_topology_from_toml_file (\<lambda>_. Inr demo_profile) path = Inr demo_loaded"
  using demo_loads by (simp add: load_topology_from_toml_file_def load_topology_from_toml_string_def)

theorem shm_end_to_end_witness:
  "\<exists>l w1 a b w2 fr l3 w3 w4.
    bind_shm_router_listen (\<lambda>_. os_all_ok) (view demo_loaded) (make_shm_router_server (view demo_loaded), empty_world)
      = (Inr (), (l, w1))
    \<and> make_shm_router_client os_all_ok (view demo_loaded) 1 w1 = (Inr a, w1)
    \<and> make_shm_router_client os_all_ok (view demo_loaded) 2 w1 = (Inr b, w1)
    \<and> send_to_router (\<lambda>_ m. m) demo_message (a, w1) = Some (Inr (), (a, w2))
    \<and> forward RouterFrame_default 5 (lt_routes demo_loaded) (l, w2)
        = (Inr fr, set_timestamp_ns 5 (set_source 1 demo_message), (l3, w3))
    \<and> targets_list (fwd_targets fr) = [2]
    \<and> ShmRouterClient_recv_message RouterFrame_default (b, w3)
        = (Inr True, set_timestamp_ns 5 (set_source 1 demo_message), (b, w4))"
proof -
  have os: "shm_os_ok os_all_ok" by simp
  have dst: "2 \<in> set (route_spec (lt_routes demo_loaded) 1 (topic_id demo_message))"
    by (simp only: demo_message_facts(2) demo_loaded_facts(6))
  from shm_end_to_end [where os = "\<lambda>_. os_all_ok" and env = "\<lambda>_ m. m" and ts = 5, OF demo_loads demo_loaded_facts(2,4,5)
      world_ok_empty os demo_message_facts(1,3) dst]
  show ?thesis unfolding demo_message_facts(2) demo_loaded_facts(8) by (elim exE conjE) (intro exI conjI)
qed

section \<open>A mixed router from a profile\<close>

text \<open>What the constructor leaves: links of a server, with fresh sockets.\<close>

definition fresh_link :: "Kernel \<Rightarrow> DatagramRouterLink \<Rightarrow> bool" where
  "fresh_link k u \<longleftrightarrow> dl_is_server u \<and> socks k (fd (dl_endpoint u)) = Some Sock_new"

lemma dg_server_fresh:
  assumes "socket_ok os"
  obtains u k' where "dg_server tr os t k = (Inr u, k')" "fresh_link k' u" "next_fd k' = Suc (next_fd k)"
    "fd (dl_endpoint u) = int (next_fd k)" "\<And>d. d \<noteq> int (next_fd k) \<Longrightarrow> socks k' d = socks k d"
  using assms that
  by (cases tr) (simp_all add: dg_server_def dg_new_def dg_open_def Uds_open_def Udp_open_def Socket_open_def fresh_link_def)

lemma new_links:
  assumes "socket_ok os"
  shows "\<exists>m k'. MixedRouterServer_new os t k = (Inr m, k')
    \<and> (\<forall>l. shm_link m = Some l \<longrightarrow> l = ShmRouterLink_server t)
    \<and> (\<forall>u. uds_link m = Some u \<longrightarrow> fresh_link k' u)
    \<and> (\<forall>u. udp_link m = Some u \<longrightarrow> fresh_link k' u)
    \<and> (\<forall>u v. uds_link m = Some u \<longrightarrow> udp_link m = Some v \<longrightarrow> fd (dl_endpoint u) \<noteq> fd (dl_endpoint v))"
proof -
  define m0 where "m0 = register_peers (peers t) \<lparr>mx_topo = t, shm_link = None, uds_link = None,
     udp_link = None, has_shm = False, has_uds = False, has_udp = False,
     peer_known = replicate 256 False, peer_transport = replicate 256 ShmRing\<rparr>"
  have m0: "shm_link m0 = None" "uds_link m0 = None" "udp_link m0 = None"
    by (simp_all add: m0_def register_peers_fields)
  obtain u k1 where u: "dg_server UdsT os t k = (Inr u, k1)" "fresh_link k1 u" "next_fd k1 = Suc (next_fd k)"
    "fd (dl_endpoint u) = int (next_fd k)" by (rule dg_server_fresh [OF assms]) (rule that)
  obtain v k2 where v: "dg_server UdpT os t k1 = (Inr v, k2)" "fresh_link k2 v" "fd (dl_endpoint v) = int (next_fd k1)"
    "\<And>d. d \<noteq> int (next_fd k1) \<Longrightarrow> socks k2 d = socks k1 d" by (rule dg_server_fresh [OF assms]) (rule that)
  obtain x k3 where x: "dg_server UdpT os t k = (Inr x, k3)" "fresh_link k3 x" by (rule dg_server_fresh [OF assms]) (rule that)
  have u2: "fresh_link k2 u" using u v(4) [of "int (next_fd k)"] by (simp add: fresh_link_def)
  have "fd (dl_endpoint u) \<noteq> fd (dl_endpoint v)" using u(3,4) v(3) by simp
  then show ?thesis
    using m0 u(1,2) v(1,2) x u2
    by (cases "has_shm m0"; cases "has_uds m0"; cases "has_udp m0")
      (simp_all add: MixedRouterServer_new_def Let_def flip: m0_def)
qed

lemma listen_binds:
  assumes "fresh_link k u" "setsockopt_ok os" "\<And>a. bind_allowed os a" "addr_ok a"
  shows "kind a = UdsPath \<Longrightarrow> \<exists>k'. dg_bind_router os (UdsBind (uds_path a)) (u, k) = (Inr (), (u, k'))
      \<and> socks k' = (socks k)(fd (dl_endpoint u) \<mapsto> Sock_new\<lparr>sk_bound := Some (listen_sockaddr a)\<rparr>)"
    "kind a = UdpEndpoint \<Longrightarrow> \<exists>k'. dg_bind_router os (UdpBind (udp_port a)) (u, k) = (Inr (), (u, k'))
      \<and> socks k' = (socks k)(fd (dl_endpoint u) \<mapsto> Sock_new\<lparr>sk_bound := Some (listen_sockaddr a)\<rparr>)"
  using assms
  by (cases a; simp add: dg_bind_router_def ep_dg_bind_def Uds_bind_def Udp_bind_def datagram_set_reuseaddr_def
      sys_bind_def fresh_link_def listen_sockaddr_def sun_path_short kUdsPathMaxLen_def Sock_new_def)+

text \<open>The shared-memory side of a bound server: fresh rings for every such peer, in profile order.\<close>

definition shm_served :: "LoadedTopology \<Rightarrow> nat \<Rightarrow> MixedRouterServer \<Rightarrow> ShmWorld \<Rightarrow> bool" where
  "shm_served lt n m w \<longleftrightarrow> (\<exists>l. shm_link m = Some l \<and> link_inv n (l, w) \<and> priority_drop_floor l = 0
     \<and> map chan_peer_id (peer_channels l) = map peer_id (filter is_shm (lt_peers lt))
     \<and> bound_to w (filter is_shm (lt_peers lt)) (peer_channels l) \<and> list_all (fresh_chan w) (peer_channels l))"

lemma shm_served_cong: "shm_link m' = shm_link m \<Longrightarrow> shm_served lt n m' w \<longleftrightarrow> shm_served lt n m w"
  by (simp add: shm_served_def)

text \<open>The three stages of \<open>bind_router\<close>.\<close>

lemma bind_shm_stage:
  assumes "loaded_ok lt" "distinct (map ring_name (filter is_shm (lt_peers lt)))" "world_ok w" "\<And>n. shm_os_ok (sos n)"
    "\<And>l. shm_link m = Some l \<Longrightarrow> l = ShmRouterLink_server (view lt)"
    "shm_link m \<noteq> None \<longleftrightarrow> (\<exists>e\<in>set (lt_peers lt). is_shm e)" "n < 2 ^ 64"
  obtains m1 w1 where "(case shm_link m of None \<Rightarrow> (Inr (), (m, w, k))
      | Some l \<Rightarrow> on_shm l (bind_router sos ShmBindParams_default) (m, w, k)) = (Inr (), (m1, w1, k))"
    "uds_link m1 = uds_link m" "udp_link m1 = udp_link m" "mx_topo m1 = mx_topo m"
    "\<exists>e\<in>set (lt_peers lt). is_shm e \<Longrightarrow> shm_served lt n m1 w1"
proof (cases "shm_link m")
  case None
  then show ?thesis using that [of m w] assms(6) by auto
next
  case (Some l)
  then have some: "\<exists>e\<in>set (lt_peers lt). is_shm e" using assms(6) by auto
  obtain l' w' where l: "bind_router sos ShmBindParams_default (ShmRouterLink_server (view lt), w) = (Inr (), (l', w'))"
    "link_inv n (l', w')" "map chan_peer_id (peer_channels l') = map peer_id (filter is_shm (peers (view lt)))"
    "bound_to w' (filter is_shm (peers (view lt))) (peer_channels l')" "list_all (fresh_chan w') (peer_channels l')"
    "priority_drop_floor l' = 0"
    using bind_router_ok [where os = sos and p = ShmBindParams_default, OF assms(3,4)
        loaded_shm_topology(1) [OF assms(1) some assms(2)] assms(7)] by (elim exE conjE) (rule that)
  have "shm_served lt n (m\<lparr>shm_link := Some l'\<rparr>) w'"
    using l(2-6) by (simp add: shm_served_def view_def)
  then show ?thesis
    using that [of "m\<lparr>shm_link := Some l'\<rparr>" w'] l(1) assms(5) [OF Some] Some by (simp add: on_shm_def)
qed

lemma bind_uds_stage:
  assumes "\<And>u. uds_link m = Some u \<Longrightarrow> fresh_link k u" "setsockopt_ok os" "\<And>a. bind_allowed os a"
    "uds_link m \<noteq> None \<Longrightarrow> \<exists>a. listen_uds (mx_topo m) = Some a \<and> addr_ok a \<and> kind a = UdsPath"
  obtains m1 k1 where "(case uds_link m of None \<Rightarrow> (Inr (), (m, w, k)) | Some l \<Rightarrow> (case listen_uds (mx_topo m) of
        None \<Rightarrow> (Inl (RuntimeError ''mixed router: uds peers present but no uds router listen''), (m, w, k))
      | Some a \<Rightarrow> on_uds l (dg_bind_router os (UdsBind (uds_path a))) (m, w, k))) = (Inr (), (m1, w, k1))"
    "shm_link m1 = shm_link m" "uds_link m1 = uds_link m" "udp_link m1 = udp_link m" "mx_topo m1 = mx_topo m"
    "\<And>u a. uds_link m = Some u \<Longrightarrow> listen_uds (mx_topo m) = Some a \<Longrightarrow>
       socks k1 (fd (dl_endpoint u)) = Some (Sock_new\<lparr>sk_bound := Some (listen_sockaddr a)\<rparr>)"
    "\<And>v. (\<And>u. uds_link m = Some u \<Longrightarrow> fd (dl_endpoint u) \<noteq> fd (dl_endpoint v)) \<Longrightarrow> fresh_link k v \<Longrightarrow> fresh_link k1 v"
proof (cases "uds_link m")
  case None
  then show ?thesis using that [of m k] by simp
next
  case (Some u)
  then obtain a where a: "listen_uds (mx_topo m) = Some a" "addr_ok a" "kind a = UdsPath" using assms(4) by auto
  obtain k1 where k1: "dg_bind_router os (UdsBind (uds_path a)) (u, k) = (Inr (), (u, k1))"
    "socks k1 = (socks k)(fd (dl_endpoint u) \<mapsto> Sock_new\<lparr>sk_bound := Some (listen_sockaddr a)\<rparr>)"
    using listen_binds(1) [OF assms(1) [OF Some] assms(2,3) a(2,3)] by blast
  have "fresh_link k1 v" if "\<And>u. uds_link m = Some u \<Longrightarrow> fd (dl_endpoint u) \<noteq> fd (dl_endpoint v)" "fresh_link k v" for v
    using that(1) [OF Some] that(2) k1(2) by (simp add: fresh_link_def)
  then show ?thesis using that [of "m\<lparr>uds_link := Some u\<rparr>" k1] Some a(1) k1 by (simp add: on_uds_def)
qed

lemma bind_udp_stage:
  assumes "\<And>u. udp_link m = Some u \<Longrightarrow> fresh_link k u" "setsockopt_ok os" "\<And>a. bind_allowed os a"
    "udp_link m \<noteq> None \<Longrightarrow> \<exists>a. listen_udp (mx_topo m) = Some a \<and> addr_ok a \<and> kind a = UdpEndpoint"
  obtains m1 k1 where "(case udp_link m of None \<Rightarrow> (Inr (), (m, w, k)) | Some l \<Rightarrow> (case listen_udp (mx_topo m) of
        None \<Rightarrow> (Inl (RuntimeError ''mixed router: udp peers present but no udp router listen''), (m, w, k))
      | Some a \<Rightarrow> on_udp l (dg_bind_router os (UdpBind (udp_port a))) (m, w, k))) = (Inr (), (m1, w, k1))"
    "shm_link m1 = shm_link m" "uds_link m1 = uds_link m" "udp_link m1 = udp_link m"
    "\<And>u a. udp_link m = Some u \<Longrightarrow> listen_udp (mx_topo m) = Some a \<Longrightarrow>
       socks k1 (fd (dl_endpoint u)) = Some (Sock_new\<lparr>sk_bound := Some (listen_sockaddr a)\<rparr>)"
    "\<And>d. (\<And>u. udp_link m = Some u \<Longrightarrow> fd (dl_endpoint u) \<noteq> d) \<Longrightarrow> socks k1 d = socks k d"
proof (cases "udp_link m")
  case None
  then show ?thesis using that [of m k] by simp
next
  case (Some u)
  then obtain a where a: "listen_udp (mx_topo m) = Some a" "addr_ok a" "kind a = UdpEndpoint" using assms(4) by auto
  obtain k1 where k1: "dg_bind_router os (UdpBind (udp_port a)) (u, k) = (Inr (), (u, k1))"
    "socks k1 = (socks k)(fd (dl_endpoint u) \<mapsto> Sock_new\<lparr>sk_bound := Some (listen_sockaddr a)\<rparr>)"
    using listen_binds(2) [OF assms(1) [OF Some] assms(2,3) a(2,3)] by blast
  have "socks k1 d = socks k d" if "\<And>u. udp_link m = Some u \<Longrightarrow> fd (dl_endpoint u) \<noteq> d" for d
    using that [OF Some] k1(2) by simp
  then show ?thesis using that [of "m\<lparr>udp_link := Some u\<rparr>" k1] Some a(1) k1 by (simp add: on_udp_def)
qed

text \<open>A loaded profile declares the listen addresses its peers need.\<close>

lemma listens_declared:
  assumes "loaded_ok lt"
  shows "\<exists>e\<in>set (lt_peers lt). kind (local_addr e) = UdsPath \<Longrightarrow>
      \<exists>a. lt_listen_uds lt = Some a \<and> addr_ok a \<and> kind a = UdsPath"
    "\<exists>e\<in>set (lt_peers lt). kind (local_addr e) = UdpEndpoint \<Longrightarrow>
      \<exists>a. lt_listen_udp lt = Some a \<and> addr_ok a \<and> kind a = UdpEndpoint"
  using assms by (auto simp: loaded_ok_def served_ok_def listens_ok_def)

text \<open>The three stages of \<open>bind_router\<close> in turn.\<close>

lemma mixed_binds:
  assumes ok: "loaded_ok lt" and names: "distinct (map ring_name (filter is_shm (lt_peers lt)))"
    and world: "world_ok w" "\<And>n. shm_os_ok (sos n)" and net: "setsockopt_ok os" "\<And>a. bind_allowed os a"
    and m: "\<And>l. shm_link m = Some l \<Longrightarrow> l = ShmRouterLink_server (view lt)"
      "\<And>u. uds_link m = Some u \<Longrightarrow> fresh_link k1 u" "\<And>u. udp_link m = Some u \<Longrightarrow> fresh_link k1 u"
      "\<And>u v. uds_link m = Some u \<Longrightarrow> udp_link m = Some v \<Longrightarrow> fd (dl_endpoint u) \<noteq> fd (dl_endpoint v)"
    and t: "mx_topo m = view lt"
    and links: "shm_link m \<noteq> None \<longleftrightarrow> (\<exists>e\<in>set (lt_peers lt). is_shm e)"
      "uds_link m \<noteq> None \<longleftrightarrow> (\<exists>e\<in>set (lt_peers lt). kind (local_addr e) = UdsPath)"
      "udp_link m \<noteq> None \<longleftrightarrow> (\<exists>e\<in>set (lt_peers lt). kind (local_addr e) = UdpEndpoint)"
    and n: "n < 2 ^ 64"
  obtains m3 w1 k3 where "mx_bind_router sos os (m, w, k1) = (Inr (), (m3, w1, k3))"
    "uds_link m3 = uds_link m" "udp_link m3 = udp_link m"
    "\<And>u a. uds_link m = Some u \<Longrightarrow> lt_listen_uds lt = Some a \<Longrightarrow>
       socks k3 (fd (dl_endpoint u)) = Some (Sock_new\<lparr>sk_bound := Some (listen_sockaddr a)\<rparr>)"
    "\<And>u a. udp_link m = Some u \<Longrightarrow> lt_listen_udp lt = Some a \<Longrightarrow>
       socks k3 (fd (dl_endpoint u)) = Some (Sock_new\<lparr>sk_bound := Some (listen_sockaddr a)\<rparr>)"
    "\<exists>e\<in>set (lt_peers lt). is_shm e \<Longrightarrow> shm_served lt n m3 w1"
proof -
  note listen = listens_declared [OF ok]
  obtain m1 w1 where s1: "(case shm_link m of None \<Rightarrow> (Inr (), (m, w, k1))
      | Some l \<Rightarrow> on_shm l (bind_router sos ShmBindParams_default) (m, w, k1)) = (Inr (), (m1, w1, k1))"
    "uds_link m1 = uds_link m" "udp_link m1 = udp_link m" "mx_topo m1 = mx_topo m"
    "\<exists>e\<in>set (lt_peers lt). is_shm e \<Longrightarrow> shm_served lt n m1 w1"
    by (rule bind_shm_stage [where m = m and k = k1 and sos = sos, OF ok names world m(1) links(1) n]) (assumption | rule that, (assumption | blast)+)+
  have uds: "uds_link m1 \<noteq> None \<Longrightarrow> \<exists>a. listen_uds (mx_topo m1) = Some a \<and> addr_ok a \<and> kind a = UdsPath"
    using listen(1) links(2) by (simp add: s1(2,4) t view_def)
  have fr: "fresh_link k1 u" if "uds_link m1 = Some u" for u using m(2) that s1(2) by simp
  obtain m2 k2 where s2: "(case uds_link m1 of None \<Rightarrow> (Inr (), (m1, w1, k1)) | Some l \<Rightarrow> (case listen_uds (mx_topo m1) of
        None \<Rightarrow> (Inl (RuntimeError ''mixed router: uds peers present but no uds router listen''), (m1, w1, k1))
      | Some a \<Rightarrow> on_uds l (dg_bind_router os (UdsBind (uds_path a))) (m1, w1, k1))) = (Inr (), (m2, w1, k2))"
    "shm_link m2 = shm_link m1" "uds_link m2 = uds_link m1" "udp_link m2 = udp_link m1" "mx_topo m2 = mx_topo m1"
    "\<And>u a. uds_link m1 = Some u \<Longrightarrow> listen_uds (mx_topo m1) = Some a \<Longrightarrow>
       socks k2 (fd (dl_endpoint u)) = Some (Sock_new\<lparr>sk_bound := Some (listen_sockaddr a)\<rparr>)"
    "\<And>v. (\<And>u. uds_link m1 = Some u \<Longrightarrow> fd (dl_endpoint u) \<noteq> fd (dl_endpoint v)) \<Longrightarrow> fresh_link k1 v \<Longrightarrow> fresh_link k2 v"
    by (rule bind_uds_stage [where m = m1 and k = k1 and w = w1, OF fr net uds]) (assumption | rule that, (assumption | blast)+)+
  have udp: "udp_link m2 \<noteq> None \<Longrightarrow> \<exists>a. listen_udp (mx_topo m2) = Some a \<and> addr_ok a \<and> kind a = UdpEndpoint"
    using listen(2) links(3) by (simp add: s1(3,4) s2(4,5) t view_def)
  have fr2: "fresh_link k2 u" if u: "udp_link m2 = Some u" for u
  proof (rule s2(7))
    show "fresh_link k1 u" using m(3) u by (simp add: s1(3) s2(4))
    show "fd (dl_endpoint x) \<noteq> fd (dl_endpoint u)" if "uds_link m1 = Some x" for x
      using m(4) that u by (simp add: s1(2,3) s2(4))
  qed
  obtain m3 k3 where s3: "(case udp_link m2 of None \<Rightarrow> (Inr (), (m2, w1, k2)) | Some l \<Rightarrow> (case listen_udp (mx_topo m2) of
        None \<Rightarrow> (Inl (RuntimeError ''mixed router: udp peers present but no udp router listen''), (m2, w1, k2))
      | Some a \<Rightarrow> on_udp l (dg_bind_router os (UdpBind (udp_port a))) (m2, w1, k2))) = (Inr (), (m3, w1, k3))"
    "shm_link m3 = shm_link m2" "uds_link m3 = uds_link m2" "udp_link m3 = udp_link m2"
    "\<And>u a. udp_link m2 = Some u \<Longrightarrow> listen_udp (mx_topo m2) = Some a \<Longrightarrow>
       socks k3 (fd (dl_endpoint u)) = Some (Sock_new\<lparr>sk_bound := Some (listen_sockaddr a)\<rparr>)"
    "\<And>d. (\<And>u. udp_link m2 = Some u \<Longrightarrow> fd (dl_endpoint u) \<noteq> d) \<Longrightarrow> socks k3 d = socks k2 d"
    by (rule bind_udp_stage [where m = m2 and k = k2 and w = w1, OF fr2 net udp]) (assumption | rule that, (assumption | blast)+)+
  show thesis
  proof (rule that)
    show "mx_bind_router sos os (m, w, k1) = (Inr (), (m3, w1, k3))"
      unfolding mx_bind_router_def fst_conv s1(1) prod.case sum.case s2(1) s3(1) by (rule refl)
    show "uds_link m3 = uds_link m" "udp_link m3 = udp_link m" by (simp_all add: s1(2,3) s2(3,4) s3(3,4))
    show "shm_served lt n m3 w1" if "\<exists>e\<in>set (lt_peers lt). is_shm e"
      using s1(5) [OF that] shm_served_cong [of m3 m1] by (simp add: s2(2) s3(2))
    show "socks k3 (fd (dl_endpoint u)) = Some (Sock_new\<lparr>sk_bound := Some (listen_sockaddr a)\<rparr>)"
      if "udp_link m = Some u" "lt_listen_udp lt = Some a" for u a
      by (rule s3(5)) (simp_all add: s1(3,4) s2(4,5) t view_def that)
    show "socks k3 (fd (dl_endpoint u)) = Some (Sock_new\<lparr>sk_bound := Some (listen_sockaddr a)\<rparr>)"
      if ua: "uds_link m = Some u" "lt_listen_uds lt = Some a" for u a
    proof -
      have "socks k2 (fd (dl_endpoint u)) = Some (Sock_new\<lparr>sk_bound := Some (listen_sockaddr a)\<rparr>)"
        by (rule s2(6)) (simp_all add: s1(2,4) t view_def ua)
      moreover have "socks k3 (fd (dl_endpoint u)) = socks k2 (fd (dl_endpoint u))"
        by (rule s3(6)) (metis m(4) ua(1) s1(3) s2(4))
      ultimately show ?thesis by simp
    qed
  qed
qed

text \<open>
  C20: a mixed profile comes up. If a profile loads and no two shared-memory peers share a ring name,
  then the mixed router is built and bound without raising, given what the kernel has to grant;
  afterwards every peer of the profile is served on its own transport: a shared-memory peer has a
  channel, a Unix-domain or UDP peer a socket bound to the listen address that the profile
  declares for that transport. The errors for a missing listen address cannot occur.
\<close>

theorem mixed_profile_starts:
  assumes "load_topology_from_toml_file parse_file path = Inr lt"
    "distinct (map ring_name (filter is_shm (lt_peers lt)))" "world_ok w" "\<And>n. shm_os_ok (sos n)"
    "socket_ok os" "setsockopt_ok os" "\<And>a. bind_allowed os a"
  shows "\<exists>m k1 m' w' k2. MixedRouterServer_new os (view lt) k = (Inr m, k1)
    \<and> mx_bind_router sos os (m, w, k1) = (Inr (), (m', w', k2))
    \<and> list_all (\<lambda>e. case kind (local_addr e) of
          ShmRing \<Rightarrow> \<exists>l. shm_link m' = Some l \<and> link_inv kMaxRouteDests (l, w') \<and> peer_id e \<in> chan_peer_id ` set (peer_channels l)
        | UdsPath \<Rightarrow> \<exists>u a. uds_link m' = Some u \<and> lt_listen_uds lt = Some a
            \<and> map_option sk_bound (socks k2 (fd (dl_endpoint u))) = Some (Some (listen_sockaddr a))
        | UdpEndpoint \<Rightarrow> \<exists>u a. udp_link m' = Some u \<and> lt_listen_udp lt = Some a
            \<and> map_option sk_bound (socks k2 (fd (dl_endpoint u))) = Some (Some (listen_sockaddr a))) (lt_peers lt)"
proof -
  note ok = from_file.load_ok [OF assms(1)]
  have ids: "distinct (map peer_id (peers (view lt)))" using ok by (simp add: loaded_ok_def peers_ok_def view_def)
  obtain m k1 where m: "MixedRouterServer_new os (view lt) k = (Inr m, k1)"
    "\<And>l. shm_link m = Some l \<Longrightarrow> l = ShmRouterLink_server (view lt)"
    "\<And>u. uds_link m = Some u \<Longrightarrow> fresh_link k1 u" "\<And>u. udp_link m = Some u \<Longrightarrow> fresh_link k1 u"
    "\<And>u v. uds_link m = Some u \<Longrightarrow> udp_link m = Some v \<Longrightarrow> fd (dl_endpoint u) \<noteq> fd (dl_endpoint v)"
    using new_links [OF assms(5), of "view lt" k] by metis
  have t: "dispatch_ok m" "mx_topo m = view lt" using new_dispatch_ok [OF m(1) ids] by simp_all
  have links: "shm_link m \<noteq> None \<longleftrightarrow> (\<exists>e\<in>set (lt_peers lt). is_shm e)"
    "uds_link m \<noteq> None \<longleftrightarrow> (\<exists>e\<in>set (lt_peers lt). kind (local_addr e) = UdsPath)"
    "udp_link m \<noteq> None \<longleftrightarrow> (\<exists>e\<in>set (lt_peers lt). kind (local_addr e) = UdpEndpoint)"
    using t(1) unfolding dispatch_ok_def t(2) view_def by simp_all
  have n: "kMaxRouteDests < 2 ^ 64" by (simp add: kMaxRouteDests_def)
  obtain m3 w1 k3 where b: "mx_bind_router sos os (m, w, k1) = (Inr (), (m3, w1, k3))"
    "uds_link m3 = uds_link m" "udp_link m3 = udp_link m"
    "\<And>u a. uds_link m = Some u \<Longrightarrow> lt_listen_uds lt = Some a \<Longrightarrow>
       socks k3 (fd (dl_endpoint u)) = Some (Sock_new\<lparr>sk_bound := Some (listen_sockaddr a)\<rparr>)"
    "\<And>u a. udp_link m = Some u \<Longrightarrow> lt_listen_udp lt = Some a \<Longrightarrow>
       socks k3 (fd (dl_endpoint u)) = Some (Sock_new\<lparr>sk_bound := Some (listen_sockaddr a)\<rparr>)"
    "\<exists>e\<in>set (lt_peers lt). is_shm e \<Longrightarrow> shm_served lt kMaxRouteDests m3 w1"
    by (rule mixed_binds [where w = w and sos = sos, OF ok assms(2-4,6,7) m(2-5) t(2) links n]) (assumption | rule that, (assumption | blast)+)+
  note listen = listens_declared [OF ok]
  have "\<exists>u a. uds_link m3 = Some u \<and> lt_listen_uds lt = Some a
      \<and> map_option sk_bound (socks k3 (fd (dl_endpoint u))) = Some (Some (listen_sockaddr a))"
    if "\<exists>e\<in>set (lt_peers lt). kind (local_addr e) = UdsPath"
    using listen(1) [OF that] links(2) that b(2,4) by fastforce
  moreover have "\<exists>u a. udp_link m3 = Some u \<and> lt_listen_udp lt = Some a
      \<and> map_option sk_bound (socks k3 (fd (dl_endpoint u))) = Some (Some (listen_sockaddr a))"
    if "\<exists>e\<in>set (lt_peers lt). kind (local_addr e) = UdpEndpoint"
    using listen(2) [OF that] links(3) that b(3,5) by fastforce
  moreover have "\<exists>l. shm_link m3 = Some l \<and> link_inv kMaxRouteDests (l, w1) \<and> peer_id e \<in> chan_peer_id ` set (peer_channels l)"
    if e: "e \<in> set (lt_peers lt)" "is_shm e" for e
  proof -
    obtain l where l: "shm_link m3 = Some l" "link_inv kMaxRouteDests (l, w1)"
      "map chan_peer_id (peer_channels l) = map peer_id (filter is_shm (lt_peers lt))"
      using b(6) [OF bexI [where x = e], OF e(2,1)] unfolding shm_served_def by blast
    have "chan_peer_id ` set (peer_channels l) = peer_id ` set (filter is_shm (lt_peers lt))"
      using arg_cong [OF l(3), of set] by (simp only: list.set_map)
    then show ?thesis using l(1,2) e by auto
  qed
  ultimately show ?thesis
    using m(1) b(1)
    by (intro exI [of _ m] exI [of _ k1] exI [of _ m3] exI [of _ w1] exI [of _ k3])
      (auto simp: list_all_iff split: PeerAddressKind.split)
qed

text \<open>
  C25: a deployed mixed router only connects declared peers. Whatever arrives on whichever transport,
  every forward that a run over the rules of a loaded profile reports is of a frame stamped with
  its source, from one declared peer to a different declared peer.
\<close>

theorem mixed_profile_routes:
  assumes "load_topology_from_toml_file parse_file path = Inr lt"
    "OnForward src dst g \<in> set (fst (snd (MixedRouterServer_run os env opts (lt_routes lt) fuel start s)))"
  shows "source g = src \<and> src \<noteq> dst \<and> {src, dst} \<subseteq> peer_id ` set (lt_peers lt)
    \<and> (\<exists>e. peer_by_id (view lt) dst = Some e \<and> peer_id e = dst)"
proof -
  have "wf_frame RouterFrame_default" by (rule demo_message_facts)
  from mixed_loop_reports [OF this assms(2) [unfolded MixedRouterServer_run_def]]
  have r: "source g = src" "dst \<in> set (route_spec (lt_routes lt) src (topic_id g))"
    using route_targets_spec [OF from_file.routes_wf [OF assms(1)]] by (simp_all add: report_ok_def)
  note c = from_file.routes_closed [OF assms(1) r(2)]
  then obtain e where "e \<in> set (lt_peers lt)" "peer_id e = dst" by blast
  then show ?thesis using r(1) c from_file.peer_found [OF assms(1), of e] by blast
qed

text \<open>A mixed profile whose rules are those of the examples before.\<close>

definition mixed_profile :: toml_table where
  "mixed_profile =
     [(''router'', TTable [(''listen'', TString ''uds:/r'')]),
      (''peers'', TArray [
         TTable [(''id'', TInteger 1), (''name'', TString ''a''), (''local'', TString ''uds:/a'')],
         TTable [(''id'', TInteger 2), (''name'', TString ''b''), (''local'', TString ''shm:/b'')],
         TTable [(''id'', TInteger 3), (''name'', TString ''c''), (''local'', TString ''shm:/c'')],
         TTable [(''id'', TInteger 4), (''name'', TString ''d''), (''local'', TString ''uds:/d'')]]),
      (''routes'', TArray [
         TTable [(''source'', TInteger 1), (''dest'', TArray [TInteger 4]), (''topic'', TInteger 100)],
         TTable [(''source'', TInteger 1), (''dest'', TArray [TInteger 2, TInteger 3])]]),
      (''topics'', TArray [TTable [(''id'', TInteger 100), (''name'', TString ''t'')]])]"

definition mixed_loaded :: LoadedTopology where
  "mixed_loaded =
     \<lparr>lt_strings = [''/r'', ''a'', ''/a'', ''b'', ''/b'', ''c'', ''/c'', ''d'', ''/d'', ''t''],
      lt_peers = [\<lparr>peer_id = 1, peer_name = ''a'', local_addr = peer_uds ''/a'', shm_slot_count = 0, shm_max_payload = 0\<rparr>,
                  \<lparr>peer_id = 2, peer_name = ''b'', local_addr = peer_shm ''/b'', shm_slot_count = 0, shm_max_payload = 0\<rparr>,
                  \<lparr>peer_id = 3, peer_name = ''c'', local_addr = peer_shm ''/c'', shm_slot_count = 0, shm_max_payload = 0\<rparr>,
                  \<lparr>peer_id = 4, peer_name = ''d'', local_addr = peer_uds ''/d'', shm_slot_count = 0, shm_max_payload = 0\<rparr>],
      lt_routes = demo_rules,
      lt_topics = [\<lparr>tid = 100, topic_sideband_idx = kSidebandIdxNone, topic_name = Some ''t'', payload_class = None\<rparr>],
      lt_sidebands = [], lt_ranges = [(0, 0), (0, 0), (0, 0), (0, 0)],
      lt_listen = peer_uds ''/r'', lt_listen_uds = Some (peer_uds ''/r''), lt_listen_udp = None\<rparr>"

lemma mixed_loads: "load_topology_from_toml_file (\<lambda>_. Inr mixed_profile) path = Inr mixed_loaded"
  by (simp add: load_topology_from_toml_file_def loader_defs mixed_profile_def mixed_loaded_def demo_rules_def
      LoadedTopology_new_def c_str_def kShmNameMaxLen_def kUdsPathMaxLen_def kPeerNameMaxLen_def kMaxRouteDests_def
      kTopicNameMaxLen_def peer_exists_def kRouteTopicAny_def) (simp add: numeral_eq_Suc)

lemma mixed_loaded_facts:
  "distinct (map ring_name (filter is_shm (lt_peers mixed_loaded)))" "topology_is_mixed (view mixed_loaded)"
  "lt_routes mixed_loaded = demo_rules"
  by (simp_all add: mixed_loaded_def topology_is_mixed_def view_def Let_def)

theorem mixed_profile_starts_witness:
  "\<exists>m k1 m' w' k2. MixedRouterServer_new demo_os (view mixed_loaded) demo_kernel = (Inr m, k1)
    \<and> mx_bind_router (\<lambda>_. os_all_ok) demo_os (m, empty_world, k1) = (Inr (), (m', w', k2))
    \<and> topology_is_mixed (view mixed_loaded)"
proof -
  have os: "shm_os_ok os_all_ok" "socket_ok demo_os" "setsockopt_ok demo_os" "\<And>a. bind_allowed demo_os a"
    by (simp_all add: demo_os_def)
  from mixed_profile_starts [where sos = "\<lambda>_. os_all_ok" and k = demo_kernel, OF mixed_loads mixed_loaded_facts(1)
      world_ok_empty os]
  show ?thesis using mixed_loaded_facts(2) by blast
qed

theorem mixed_profile_routes_witness:
  "\<exists>run. run = MixedRouterServer_run demo_os demo_env RouterRunOptions_default (lt_routes mixed_loaded) 1 0
      (demo_mixed, empty_world, demo_kernel\<lparr>socks := [3 \<mapsto> demo_sock]\<rparr>)
    \<and> OnForward 1 4 demo_stamped \<in> set (fst (snd run)) \<and> source demo_stamped = 1
    \<and> {1, 4} \<subseteq> peer_id ` set (lt_peers mixed_loaded)"
  using mixed_profile_routes [OF mixed_loads, unfolded mixed_loaded_facts(3), OF demo_run_forwards] demo_run_forwards
  by (simp only: mixed_loaded_facts(3)) blast

end
