(* ===== verification/Network.thy ===== *)
theory Network
  imports Deployment "HOL-Library.Sublist"
begin

text \<open>
  A shared-memory router with all its clients, under every order of their operations
  (\<open>ipc/src/router/shm_router_link.hpp\<close>): clients send and receive, the router forwards and changes
  its priority floor. A run leaves a trace of events, and the theorem of this theory relates what
  clients have received and the router has counted to what clients have sent.
\<close>

section \<open>The network and its runs\<close>

record Net =
  net_link :: ShmRouterLink
  net_clients :: "u8 \<rightharpoonup> ShmRouterLink"
  net_world :: ShmWorld

datatype NetEvent =
    Sent u8 RouterFrame
  | Received u8 RouterFrame
  | Polled u8 "bool res"
  | Forwarded "ForwardResult res"
  | FloorSet u8

text \<open>
  One operation of one process. A blocking send of a client is the step in which an attempt finds
  room: its failed attempts change nothing, and others may move in between.
\<close>

inductive net_step :: "RouteRule list \<Rightarrow> Net \<Rightarrow> NetEvent \<Rightarrow> Net \<Rightarrow> bool" for rules where
  net_send: "net_clients s p = Some cl \<Longrightarrow> wf_frame f \<Longrightarrow>
    send_to_router (\<lambda>_ m. m) f (cl, net_world s) = Some (Inr (), (cl', w')) \<Longrightarrow>
    net_step rules s (Sent p f) (s\<lparr>net_clients := (net_clients s)(p \<mapsto> cl'), net_world := w'\<rparr>)"
| net_recv: "net_clients s p = Some cl \<Longrightarrow> wf_frame h \<Longrightarrow>
    recv_message h (cl, net_world s) = (Inr True, g, (cl', w')) \<Longrightarrow>
    net_step rules s (Received p g) (s\<lparr>net_clients := (net_clients s)(p \<mapsto> cl'), net_world := w'\<rparr>)"
| net_poll: "net_clients s p = Some cl \<Longrightarrow> wf_frame h \<Longrightarrow>
    recv_message h (cl, net_world s) = (r, g, (cl', w')) \<Longrightarrow> r \<noteq> Inr True \<Longrightarrow>
    net_step rules s (Polled p r) (s\<lparr>net_clients := (net_clients s)(p \<mapsto> cl'), net_world := w'\<rparr>)"
| net_forward: "wf_frame h \<Longrightarrow>
    forward h ts rules (net_link s, net_world s) = (r, g, (l', w')) \<Longrightarrow>
    net_step rules s (Forwarded r) (s\<lparr>net_link := l', net_world := w'\<rparr>)"
| net_floor: "net_step rules s (FloorSet x) (s\<lparr>net_link := set_priority_drop_floor x (net_link s)\<rparr>)"

inductive_cases net_stepE: "net_step rules s ev s'"

text \<open>A run, with its trace; the newest event is the last.\<close>

inductive net_run :: "RouteRule list \<Rightarrow> Net \<Rightarrow> NetEvent list \<Rightarrow> Net \<Rightarrow> bool" for rules where
  run_nil: "net_run rules s [] s"
| run_snoc: "net_run rules s evs s' \<Longrightarrow> net_step rules s' ev s'' \<Longrightarrow> net_run rules s (evs @ [ev]) s''"

fun failed :: "NetEvent \<Rightarrow> bool" where
  "failed (Polled p (Inl e)) = True"
| "failed (Forwarded (Inl e)) = True"
| "failed _ = False"

fun sent_frame :: "u8 \<Rightarrow> NetEvent \<Rightarrow> RouterFrame list" where
  "sent_frame p (Sent q f) = (if q = p then [f] else [])"
| "sent_frame p _ = []"

fun received_frame :: "u8 \<Rightarrow> NetEvent \<Rightarrow> RouterFrame list" where
  "received_frame p (Received q f) = (if q = p then [f] else [])"
| "received_frame p _ = []"

definition sent_by :: "u8 \<Rightarrow> NetEvent list \<Rightarrow> RouterFrame list" where
  "sent_by p evs = concat (map (sent_frame p) evs)"

definition received_by :: "u8 \<Rightarrow> NetEvent list \<Rightarrow> RouterFrame list" where
  "received_by p evs = concat (map (received_frame p) evs)"

lemma trace_simps [simp]:
  "sent_by p [] = []" "sent_by p (evs @ [ev]) = sent_by p evs @ sent_frame p ev"
  "received_by p [] = []" "received_by p (evs @ [ev]) = received_by p evs @ received_frame p ev"
  by (simp_all add: sent_by_def received_by_def)

section \<open>The account of the router\<close>

text \<open>
  The router's history is the list of the frames it has taken, each with its sender, in the order
  it took them. A frame and its stamped copies differ in the source and the time only.
\<close>

definition unstamped :: "RouterFrame \<Rightarrow> RouterFrame" where
  "unstamped f = set_timestamp_ns 0 (set_source 0 f)"

definition origin :: "RouterFrame \<Rightarrow> u8 \<times> RouterFrame" where
  "origin g = (source g, unstamped g)"

definition wanted :: "RouteRule list \<Rightarrow> u8 \<Rightarrow> u8 \<times> RouterFrame \<Rightarrow> bool" where
  "wanted rules d e \<longleftrightarrow> d \<in> set (route_spec rules (fst e) (topic_id (snd e)))"

abbreviation as_frames :: "bytes list \<Rightarrow> RouterFrame list" where
  "as_frames \<equiv> map (\<lambda>x. \<lparr>bytes = x\<rparr>)"

lemma write_bytes_update:
  assumes "off + length vs \<le> length bs" "i < off"
  shows "(write_bytes off vs bs)[i := v] = write_bytes off vs (bs[i := v])"
  by (rule nth_equalityI) (use assms in \<open>auto simp: nth_write_bytes nth_list_update\<close>)

lemma origin_stamp:
  assumes "wf_frame f"
  shows "origin (set_timestamp_ns ts (set_source p f)) = (p, unstamped f)"
proof -
  have "source (set_timestamp_ns ts (set_source p f)) = p" using assms by simp
  moreover have "unstamped (set_timestamp_ns ts (set_source p f)) = unstamped f"
    using assms
    by (simp add: unstamped_def set_timestamp_ns_def set_source_def wf_frame_def write_bytes_update write_write_same layout_defs)
  ultimately show ?thesis by (simp add: origin_def)
qed

text \<open>What the account says of one peer, and of all of them.\<close>

definition peer_account :: "RouteRule list \<Rightarrow> NetEvent list \<Rightarrow> (u8 \<times> RouterFrame) list \<Rightarrow>
    ShmRouterMetrics \<Rightarrow> PeerView \<Rightarrow> bool" where
  "peer_account rules evs tk mt v \<longleftrightarrow>
     map snd (filter (\<lambda>e. fst e = v_id v) tk) @ as_frames (v_in v) = sent_by (v_id v) evs
     \<and> subseq (map origin (received_by (v_id v) evs @ as_frames (v_out v)))
         (map (map_prod id unstamped) (filter (wanted rules (v_id v)) tk))
     \<and> of_nat (length (filter (wanted rules (v_id v)) tk))
         = of_nat (length (received_by (v_id v) evs) + length (v_out v))
           + dropped_full_per_peer mt ! unat (v_id v)"

definition view_frames :: "PeerView \<Rightarrow> bool" where
  "view_frames v \<longleftrightarrow> (\<forall>x\<in>set (v_in v) \<union> set (v_out v). length x = kRouterFrameSize)"

definition accounted :: "RouteRule list \<Rightarrow> NetEvent list \<Rightarrow> (u8 \<times> RouterFrame) list \<Rightarrow> LinkView \<Rightarrow> bool" where
  "accounted rules evs tk L \<longleftrightarrow>
     length (dropped_full_per_peer (v_metrics L)) = kPerPeerMetricsSlots
     \<and> (\<forall>v\<in>set (v_peers L). peer_account rules evs tk (v_metrics L) v \<and> view_frames v)"

text \<open>An event that carries no frame of a client.\<close>

lemma accounted_quiet:
  assumes "accounted rules evs tk L" "\<And>p. sent_frame p ev = []" "\<And>p. received_frame p ev = []"
  shows "accounted rules (evs @ [ev]) tk L"
  using assms by (simp add: accounted_def peer_account_def)

definition push_in :: "u8 \<Rightarrow> bytes \<Rightarrow> PeerView \<Rightarrow> PeerView" where
  "push_in p x u = (if v_id u = p then u\<lparr>v_in := v_in u @ [x]\<rparr> else u)"

definition pop_out :: "u8 \<Rightarrow> bytes list \<Rightarrow> PeerView \<Rightarrow> PeerView" where
  "pop_out p xs u = (if v_id u = p then u\<lparr>v_out := xs\<rparr> else u)"

lemma view_push: "view_frames u \<Longrightarrow> length x = kRouterFrameSize \<Longrightarrow> view_frames (push_in p x u)"
  by (auto simp: view_frames_def push_in_def)

lemma view_pop: "view_frames u \<Longrightarrow> (v_id u = p \<Longrightarrow> set xs \<subseteq> set (v_out u)) \<Longrightarrow> view_frames (pop_out p xs u)"
  by (auto simp: view_frames_def pop_out_def)

lemma peer_account_sent:
  assumes "peer_account rules evs tk mt u"
  shows "peer_account rules (evs @ [Sent p f]) tk mt (push_in p (bytes f) u)"
proof (cases "v_id u = p")
  case True
  have "\<lparr>bytes = bytes f\<rparr> = f" by (cases f) simp
  then have "map snd (filter (\<lambda>e. fst e = p) tk) @ as_frames (v_in u @ [bytes f]) = sent_by p evs @ [f]"
    using assms True by (simp add: peer_account_def flip: append_assoc)
  then show ?thesis using assms True by (simp add: peer_account_def push_in_def)
next
  case False
  then show ?thesis using assms by (simp add: peer_account_def push_in_def)
qed

lemma peer_account_received:
  assumes "peer_account rules evs tk mt u" "v_id u = p \<Longrightarrow> v_out u = x # xs"
  shows "peer_account rules (evs @ [Received p \<lparr>bytes = x\<rparr>]) tk mt (pop_out p xs u)"
proof (cases "v_id u = p")
  case True
  then show ?thesis using assms by (simp add: peer_account_def pop_out_def)
next
  case False
  then show ?thesis using assms by (simp add: peer_account_def pop_out_def)
qed

lemma accounted_sent:
  assumes "accounted rules evs tk L" "wf_frame f"
  shows "accounted rules (evs @ [Sent p f]) tk (L\<lparr>v_peers := map (push_in p (bytes f)) (v_peers L)\<rparr>)"
  using assms peer_account_sent [of rules evs tk "v_metrics L"] view_push
  by (simp add: accounted_def wf_frame_def)

lemma accounted_received:
  assumes "accounted rules evs tk L" "distinct (map v_id (v_peers L))" "v \<in> set (v_peers L)" "v_out v = x # xs"
  shows "accounted rules (evs @ [Received (v_id v) \<lparr>bytes = x\<rparr>]) tk
    (L\<lparr>v_peers := map (pop_out (v_id v) xs) (v_peers L)\<rparr>)"
proof -
  have out: "v_out u = x # xs" if "u \<in> set (v_peers L)" "v_id u = v_id v" for u
    using assms(2-4) that by (metis distinct_map inj_onD)
  have "peer_account rules (evs @ [Received (v_id v) \<lparr>bytes = x\<rparr>]) tk (v_metrics L) (pop_out (v_id v) xs u)
      \<and> view_frames (pop_out (v_id v) xs u)" if "u \<in> set (v_peers L)" for u
    using assms(1) that peer_account_received [OF _ out [OF that]] view_pop [of u "v_id v" xs] out [OF that]
    unfolding accounted_def by auto
  then show ?thesis using assms(1) by (simp add: accounted_def)
qed

text \<open>Taking a frame: a scan over queues of whole frames finds the first of a peer or nothing.\<close>

lemma receive_spec_frames:
  assumes "\<forall>v\<in>set vs. view_frames v"
  shows "(\<forall>v\<in>set vs. v_in v = []) \<and> receive_spec vs mt = (Inr None, vs, mt) \<or>
    (\<exists>pre v post x xs. vs = pre @ v # post \<and> v_in v = x # xs \<and> length x = kRouterFrameSize
       \<and> receive_spec vs mt = (Inr (Some (v_id v, x)), pre @ v\<lparr>v_in := xs\<rparr> # post, mt))"
  using assms
proof (induction vs)
  case (Cons v vs)
  show ?case
  proof (cases "v_in v")
    case Nil
    from Cons consider "\<forall>v\<in>set vs. v_in v = []" "receive_spec vs mt = (Inr None, vs, mt)"
      | pre u post x xs where "vs = pre @ u # post" "v_in u = x # xs" "length x = kRouterFrameSize"
        "receive_spec vs mt = (Inr (Some (v_id u, x)), pre @ u\<lparr>v_in := xs\<rparr> # post, mt)"
      by auto
    then show ?thesis
    proof cases
      case 2
      then have "receive_spec (v # vs) mt = (Inr (Some (v_id u, x)), (v # pre) @ u\<lparr>v_in := xs\<rparr> # post, mt)"
        "v # vs = (v # pre) @ u # post"
        using Nil by simp_all
      then show ?thesis using 2(2,3) by blast
    qed (simp add: Nil)
  next
    case (Cons x xs)
    then have "length x = kRouterFrameSize" using Cons.prems by (simp add: view_frames_def)
    then have "receive_spec (v # vs) mt = (Inr (Some (v_id v, x)), [] @ v\<lparr>v_in := xs\<rparr> # vs, mt)"
      using Cons by simp
    then show ?thesis using Cons \<open>length x = kRouterFrameSize\<close> by blast
  qed
qed simp

text \<open>The fan-out counts a drop for exactly those destinations that it gives no copy.\<close>

lemma fan_out_drops:
  assumes "distinct ds" "set ds \<subseteq> v_id ` set (v_peers L)" "distinct (map v_id (v_peers L))"
    "length (dropped_full_per_peer (v_metrics L)) = kPerPeerMetricsSlots"
    "fan_out (send_spec x) ds L = (r, L')"
  shows "length (dropped_full_per_peer (v_metrics L')) = kPerPeerMetricsSlots
    \<and> (\<forall>u\<in>set (v_peers L). dropped_full_per_peer (v_metrics L') ! unat (v_id u)
        = dropped_full_per_peer (v_metrics L) ! unat (v_id u)
          + (if v_id u \<in> set ds \<and> \<not> admits (v_floor L) x u then 1 else 0))"
  using assms
proof (induction ds arbitrary: L)
  case (Cons d ds)
  obtain v where v: "v \<in> set (v_peers L)" "v_id v = d" using Cons.prems(2) by auto
  have uniq: "u = v" if "u \<in> set (v_peers L)" "v_id u = d" for u
    using Cons.prems(3) v that by (auto simp: distinct_map inj_on_def)
  have "find (\<lambda>v. v_id v = d) (v_peers L) = Some v" using find_unique [OF Cons.prems(3) v(1)] v(2) by simp
  define L1 where "L1 = snd (send_spec x d L)"
  then have L1: "send_spec x d L = (Inr (), L1)" "v_floor L1 = v_floor L"
    "v_peers L1 = map (\<lambda>u. if v_id u = d then deliver (v_floor L) x u else u) (v_peers L)"
    "v_metrics L1 = (if admits (v_floor L) x v then (v_metrics L)\<lparr>forwarded := forwarded (v_metrics L) + 1\<rparr>
       else record_drop d (frame_prio x) (v_metrics L))"
    using \<open>find (\<lambda>v. v_id v = d) (v_peers L) = Some v\<close> by (simp_all add: send_spec_def)
  have same: "map v_id (v_peers L1) = map v_id (v_peers L)" by (simp add: L1(3))
  have ids: "v_id ` set (v_peers L1) = v_id ` set (v_peers L)"
    using arg_cong [OF same, of set] by (simp only: list.set_map)
  have slot: "unat e < length (dropped_full_per_peer (v_metrics L))" for e :: u8
    using unsigned_less [of e] Cons.prems(4) by (simp add: kPerPeerMetricsSlots_def)
  have bump: "bump_at (unat d) (dropped_full_per_peer (v_metrics L)) ! unat e
      = dropped_full_per_peer (v_metrics L) ! unat e + (if e = d then 1 else 0)" for e
    using nth_bump_at [OF slot [of e], of "unat d"] by simp
  have first: "dropped_full_per_peer (v_metrics L1) ! unat (v_id u)
      = dropped_full_per_peer (v_metrics L) ! unat (v_id u) + (if v_id u = d \<and> \<not> admits (v_floor L) x u then 1 else 0)"
    if "u \<in> set (v_peers L)" for u
    using uniq [OF that] v(2) by (auto simp: L1(4) record_drop_def bump)
  have len: "length (dropped_full_per_peer (v_metrics L1)) = kPerPeerMetricsSlots"
    using Cons.prems(4) by (simp add: L1(4) record_drop_def)
  have "distinct ds" "set ds \<subseteq> v_id ` set (v_peers L1)" "distinct (map v_id (v_peers L1))"
    "fan_out (send_spec x) ds L1 = (r, L')"
    using Cons.prems(1,2,3,5) L1(1) unfolding ids same by simp_all
  note IH = Cons.IH [OF this(1-3) len this(4), unfolded L1(2)]
  have "dropped_full_per_peer (v_metrics L') ! unat (v_id u)
      = dropped_full_per_peer (v_metrics L) ! unat (v_id u)
        + (if v_id u \<in> set (d # ds) \<and> \<not> admits (v_floor L) x u then 1 else 0)"
    if u: "u \<in> set (v_peers L)" for u
  proof (cases "v_id u = d")
    case True
    let ?u = "deliver (v_floor L) x u"
    have "?u \<in> set (v_peers L1)" "v_id ?u = d" "d \<notin> set ds" using u True Cons.prems(1) by (auto simp: L1(3))
    then show ?thesis using IH first [OF u] True by auto
  next
    case False
    then have "u \<in> set (v_peers L1)" using u by (auto simp: L1(3))
    then show ?thesis using IH first [OF u] False by auto
  qed
  then show ?case using IH by blast
qed simp

text \<open>
  A forward over whole frames does not raise when the rules are closed: every destination of a
  peer's frame is a peer. It takes at most one frame, which is accounted for.
\<close>

definition rules_closed :: "RouteRule list \<Rightarrow> u8 set \<Rightarrow> bool" where
  "rules_closed rules ps \<longleftrightarrow> (\<forall>r\<in>set rules. wf_rule r)
     \<and> (\<forall>src topic. distinct (route_spec rules src topic) \<and> set (route_spec rules src topic) \<subseteq> ps)"

text \<open>What taking the frame \<open>f\<close> of \<open>p\<close> and delivering its copy \<open>g\<close> means for one peer.\<close>

definition take_in :: "u8 \<Rightarrow> bytes list \<Rightarrow> PeerView \<Rightarrow> PeerView" where
  "take_in p xs u = (if v_id u = p then u\<lparr>v_in := xs\<rparr> else u)"

lemma take_in_other: "p \<notin> v_id ` set vs \<Longrightarrow> map (take_in p xs) vs = vs"
  by (induction vs) (auto simp: take_in_def)

definition got_copy :: "u8 \<Rightarrow> u8 list \<Rightarrow> bytes \<Rightarrow> PeerView \<Rightarrow> PeerView" where
  "got_copy fl ds x u = (if v_id u \<in> set ds then deliver fl x u else u)"

lemma got_copy_fields [simp]:
  "v_id (got_copy fl ds x u) = v_id u" "v_in (got_copy fl ds x u) = v_in u"
  "v_out (got_copy fl ds x u) = v_out u @ (if v_id u \<in> set ds \<and> admits fl x u then [x] else [])"
  by (simp_all add: got_copy_def deliver_def)

lemma peer_account_taken:
  assumes "peer_account rules evs tk mt u" "ds = route_spec rules p (topic_id f)" "wf_frame f"
    "g = set_timestamp_ns ts (set_source p f)" "v_id u = p \<Longrightarrow> v_in u = bytes f # xs"
    "dropped_full_per_peer mt' ! unat (v_id u) = dropped_full_per_peer mt ! unat (v_id u)
       + (if v_id u \<in> set ds \<and> \<not> admits fl (bytes g) (take_in p xs u) then 1 else 0)"
  shows "peer_account rules evs (tk @ [(p, f)]) mt' (got_copy fl ds (bytes g) (take_in p xs u))"
proof -
  let ?d = "v_id u" and ?u = "take_in p xs u"
  let ?new = "if ?d \<in> set ds \<and> admits fl (bytes g) ?u then [bytes g] else []"
  have id: "v_id ?u = ?d" "v_out ?u = v_out u" by (simp_all add: take_in_def)
  have f: "\<lparr>bytes = bytes f\<rparr> = f" "\<lparr>bytes = bytes g\<rparr> = g" by (cases f, simp) (cases g, simp)
  have want: "wanted rules ?d (p, f) \<longleftrightarrow> ?d \<in> set ds" by (simp add: wanted_def assms(2))
  have "origin g = (p, unstamped f)" using origin_stamp [OF assms(3)] by (simp add: assms(4))
  then have org: "origin \<lparr>bytes = bytes g\<rparr> = (p, unstamped f)" by (simp only: f(2))
  have old: "map snd (filter (\<lambda>e. fst e = ?d) tk) @ as_frames (v_in u) = sent_by ?d evs"
    "subseq (map origin (received_by ?d evs @ as_frames (v_out u)))
       (map (map_prod id unstamped) (filter (wanted rules ?d) tk))"
    "of_nat (length (filter (wanted rules ?d) tk))
       = of_nat (length (received_by ?d evs) + length (v_out u)) + dropped_full_per_peer mt ! unat ?d"
    using assms(1) by (simp_all add: peer_account_def)
  have "map snd (filter (\<lambda>e. fst e = ?d) (tk @ [(p, f)])) @ as_frames (v_in ?u) = sent_by ?d evs"
    using old(1) assms(5) f(1) by (cases "?d = p") (simp_all add: take_in_def)
  moreover have "subseq (map origin (received_by ?d evs @ as_frames (v_out u @ ?new)))
       (map (map_prod id unstamped) (filter (wanted rules ?d) (tk @ [(p, f)])))"
  proof -
    have "subseq (map origin (as_frames ?new)) (map (map_prod id unstamped) (filter (wanted rules ?d) [(p, f)]))"
      using want org by simp
    from list_emb_append_mono [OF old(2) this] show ?thesis by (simp only: map_append filter_append append_assoc)
  qed
  moreover have "of_nat (length (filter (wanted rules ?d) (tk @ [(p, f)])))
       = of_nat (length (received_by ?d evs) + length (v_out u @ ?new)) + dropped_full_per_peer mt' ! unat ?d"
    using old(3) assms(6) want by (simp add: id)
  ultimately show ?thesis unfolding peer_account_def got_copy_fields id by simp
qed

text \<open>A forward over whole frames either finds nothing or takes the first frame of one peer.\<close>

lemma forward_spec_cases:
  assumes frames: "\<forall>v\<in>set (v_peers L). view_frames v" and dist: "distinct (map v_id (v_peers L))"
    and closed: "rules_closed rules (v_id ` set (v_peers L))"
    and len: "length (dropped_full_per_peer (v_metrics L)) = kPerPeerMetricsSlots"
    and fwd: "forward_spec ts rules L = (r, L')"
  obtains (idle) "\<forall>v\<in>set (v_peers L). v_in v = []" "r = Inr (ForwardResult_empty, None)" "v_peers L' = v_peers L"
      "dropped_full_per_peer (v_metrics L') = dropped_full_per_peer (v_metrics L)"
    | (taken) v x xs ds g fr where "v \<in> set (v_peers L)" "v_in v = x # xs" "length x = kRouterFrameSize"
      "\<And>u. u \<in> set (v_peers L) \<Longrightarrow> v_id u = v_id v \<Longrightarrow> u = v"
      "ds = route_spec rules (v_id v) (topic_id \<lparr>bytes = x\<rparr>)" "g = set_timestamp_ns ts (set_source (v_id v) \<lparr>bytes = x\<rparr>)"
      "r = Inr (fr, Some g)" "fwd_source fr = v_id v"
      "v_peers L' = map (\<lambda>u. got_copy (v_floor L) ds (bytes g) (take_in (v_id v) xs u)) (v_peers L)"
      "length (dropped_full_per_peer (v_metrics L')) = kPerPeerMetricsSlots"
      "\<And>u. u \<in> set (v_peers L) \<Longrightarrow> dropped_full_per_peer (v_metrics L') ! unat (v_id u)
         = dropped_full_per_peer (v_metrics L) ! unat (v_id u)
           + (if v_id u \<in> set ds \<and> \<not> admits (v_floor L) (bytes g) (take_in (v_id v) xs u) then 1 else 0)"
proof -
  from receive_spec_frames [OF frames, of "v_metrics L"] consider
      "\<forall>v\<in>set (v_peers L). v_in v = []" "receive_spec (v_peers L) (v_metrics L) = (Inr None, v_peers L, v_metrics L)"
    | pre v post x xs where "v_peers L = pre @ v # post" "v_in v = x # xs" "length x = kRouterFrameSize"
      "receive_spec (v_peers L) (v_metrics L) = (Inr (Some (v_id v, x)), pre @ v\<lparr>v_in := xs\<rparr> # post, v_metrics L)"
    by blast
  then show thesis
  proof cases
    case 1
    then show thesis using fwd idle by (auto simp: forward_spec_def)
  next
    case 2
    let ?p = "v_id v" and ?f = "\<lparr>bytes = x\<rparr>"
    define g where "g = set_timestamp_ns ts (set_source ?p ?f)"
    define ds where "ds = route_spec rules ?p (topic_id ?f)"
    define L1 where "L1 = L\<lparr>v_peers := map (take_in ?p xs) (v_peers L)\<rparr>"
    have wf: "wf_frame ?f" using 2(3) by (simp add: wf_frame_def)
    have g: "stamp ?p ts x = g" "topic_id g = topic_id ?f" using wf by (simp_all add: stamp_def g_def)
    have only: "u = v" if "u \<in> set (v_peers L)" "v_id u = ?p" for u
    proof (rule inj_onD [of v_id "set (v_peers L)"])
      show "inj_on v_id (set (v_peers L))" using dist by (simp add: distinct_map)
    qed (use that 2(1) in simp_all)
    have "?p \<notin> v_id ` set pre" "?p \<notin> v_id ` set post" using dist 2(1) by auto
    then have "map (take_in ?p xs) (v_peers L) = pre @ v\<lparr>v_in := xs\<rparr> # post"
      by (simp add: 2(1) take_in_other) (simp add: take_in_def)
    then have L1: "L\<lparr>v_peers := pre @ v\<lparr>v_in := xs\<rparr> # post, v_metrics := v_metrics L\<rparr> = L1" by (simp add: L1_def)
    have same: "map v_id (v_peers L1) = map v_id (v_peers L)" by (simp add: L1_def take_in_def)
    have ids: "v_id ` set (v_peers L1) = v_id ` set (v_peers L)"
      using arg_cong [OF same, of set] by (simp only: list.set_map)
    have tg: "targets_list (route_targets_for rules ?p (topic_id g)) = ds"
      using route_targets_spec closed by (simp add: rules_closed_def ds_def g(2))
    have ds: "distinct ds" "set ds \<subseteq> v_id ` set (v_peers L1)" using closed by (simp_all add: ids rules_closed_def ds_def)
    obtain L2 where L2: "fan_out (send_spec (bytes g)) ds L1 = (Inr (), L2)" "v_floor L2 = v_floor L1"
      "v_peers L2 = map (\<lambda>u. if v_id u \<in> set ds then deliver (v_floor L1) (bytes g) u else u) (v_peers L1)"
      using fan_out_delivers [OF ds, of "bytes g"] by (elim exE conjE) (rule that)
    have len1: "length (dropped_full_per_peer (v_metrics L1)) = kPerPeerMetricsSlots" using len by (simp add: L1_def)
    note drops = fan_out_drops [OF ds dist [folded same] len1 L2(1)]
    let ?fr = "\<lparr>fwd_source = ?p, fwd_targets = route_targets_for rules ?p (topic_id g)\<rparr>"
    have fin: "L' = L2" "r = Inr (?fr, Some g)"
      using fwd unfolding forward_spec_def 2(4) by (auto simp: g(1) L1 tg L2(1) Let_def)
    show thesis
    proof (rule taken [of v x xs ds g ?fr])
      show "v \<in> set (v_peers L)" using 2(1) by simp
      show "v_peers L' = map (\<lambda>u. got_copy (v_floor L) ds (bytes g) (take_in ?p xs u)) (v_peers L)"
        by (simp add: fin(1) L2(3) got_copy_def L1_def)
      show "dropped_full_per_peer (v_metrics L') ! unat (v_id u) = dropped_full_per_peer (v_metrics L) ! unat (v_id u)
          + (if v_id u \<in> set ds \<and> \<not> admits (v_floor L) (bytes g) (take_in ?p xs u) then 1 else 0)"
        if u: "u \<in> set (v_peers L)" for u
      proof -
        have m: "take_in ?p xs u \<in> set (v_peers L1)" "v_id (take_in ?p xs u) = v_id u"
          "v_metrics L1 = v_metrics L" "v_floor L1 = v_floor L"
          using u by (simp_all add: L1_def take_in_def)
        show ?thesis unfolding fin(1) using bspec [OF conjunct2 [OF drops] m(1)] unfolding m(2-4) .
      qed
    qed (use 2(2,3) only ds_def g_def fin drops in simp_all)
  qed
qed

lemma accounted_forward:
  assumes acc: "accounted rules evs tk L" and dist: "distinct (map v_id (v_peers L))"
    and closed: "rules_closed rules (v_id ` set (v_peers L))"
    and fwd: "forward_spec ts rules L = (r, L')" and quiet: "\<And>p. sent_frame p ev = []" "\<And>p. received_frame p ev = []"
  shows "(\<exists>tk'. accounted rules (evs @ [ev]) tk' L') \<and> (\<exists>y. r = Inr y)"
proof -
  have frames: "\<forall>v\<in>set (v_peers L). view_frames v"
    and len: "length (dropped_full_per_peer (v_metrics L)) = kPerPeerMetricsSlots"
    and now: "\<And>u. u \<in> set (v_peers L) \<Longrightarrow> peer_account rules (evs @ [ev]) tk (v_metrics L) u"
    using acc quiet by (simp_all add: accounted_def peer_account_def)
  from frames dist closed len fwd show ?thesis
  proof (cases rule: forward_spec_cases)
    case idle
    then have "accounted rules (evs @ [ev]) tk L'"
      using acc quiet by (simp add: accounted_def peer_account_def)
    then show ?thesis using idle(2) by blast
  next
    case (taken v x xs ds g fr)
    let ?p = "v_id v" and ?f = "\<lparr>bytes = x\<rparr>"
    have wf: "wf_frame ?f" using taken(3) by (simp add: wf_frame_def)
    have "wf_frame g" using wf by (simp add: taken(6))
    then have glen: "length (bytes g) = kRouterFrameSize" by (simp add: wf_frame_def)
    have "peer_account rules (evs @ [ev]) (tk @ [(?p, ?f)]) (v_metrics L') (got_copy (v_floor L) ds (bytes g) (take_in ?p xs u))
        \<and> view_frames (got_copy (v_floor L) ds (bytes g) (take_in ?p xs u))" if u: "u \<in> set (v_peers L)" for u
    proof
      have "v_id u = ?p \<Longrightarrow> v_in u = bytes ?f # xs" using taken(4) [OF u] taken(2) by simp
      then show "peer_account rules (evs @ [ev]) (tk @ [(?p, ?f)]) (v_metrics L') (got_copy (v_floor L) ds (bytes g) (take_in ?p xs u))"
        by (rule peer_account_taken [OF now [OF u] taken(5) wf taken(6) _ taken(11) [OF u]])
      have "view_frames (take_in ?p xs u)" using frames u taken(4) [OF u] taken(2) by (auto simp: view_frames_def take_in_def)
      then show "view_frames (got_copy (v_floor L) ds (bytes g) (take_in ?p xs u))"
        using glen by (auto simp: view_frames_def)
    qed
    then have "accounted rules (evs @ [ev]) (tk @ [(?p, ?f)]) L'"
      using taken(9,10) by (simp add: accounted_def)
    then show ?thesis using taken(7) by blast
  qed
qed

section \<open>The invariant of the network\<close>

definition joined :: "ShmRouterLink \<Rightarrow> (u8 \<rightharpoonup> ShmRouterLink) \<Rightarrow> bool" where
  "joined l cls \<longleftrightarrow>
     (\<forall>p cl. cls p = Some cl \<longrightarrow> (\<exists>c\<in>set (peer_channels l). chan_peer_id c = p \<and> client_of c cl))"

definition net_inv :: "RouteRule list \<Rightarrow> nat \<Rightarrow> NetEvent list \<Rightarrow> Net \<Rightarrow> bool" where
  "net_inv rules n evs s \<longleftrightarrow> link_inv n (net_link s, net_world s)
     \<and> joined (net_link s) (net_clients s)
     \<and> rules_closed rules (chan_peer_id ` set (peer_channels (net_link s)))
     \<and> (\<exists>tk. accounted rules evs tk (link_view (net_link s, net_world s)))"

lemma view_ids: "map v_id (v_peers (link_view (l, w))) = map chan_peer_id (peer_channels l)"
  by (simp add: link_view_def)

lemma view_id_set: "v_id ` set (v_peers (link_view (l, w))) = chan_peer_id ` set (peer_channels l)"
  using arg_cong [OF view_ids, of set] by (simp only: list.set_map)

text \<open>A client works on its own rings: the router sees one peer change.\<close>

lemma link_view_put:
  assumes "link_inv (k + n) (l, w)" "c \<in> set (peer_channels l)" "chan_ok (put_mem (region_of c) m w) c"
    "in_pos (put_mem (region_of c) m w) c \<le> in_pos w c + k" "out_pos (put_mem (region_of c) m w) c \<le> out_pos w c + k"
    "view_of (put_mem (region_of c) m w) c = h (view_of w c)" "\<And>u. v_id u \<noteq> chan_peer_id c \<Longrightarrow> h u = u"
  shows "link_inv n (l, put_mem (region_of c) m w)"
    "link_view (l, put_mem (region_of c) m w) = (link_view (l, w))\<lparr>v_peers := map h (v_peers (link_view (l, w)))\<rparr>"
proof -
  show "link_inv n (l, put_mem (region_of c) m w)" by (rule link_inv_put(1) [OF assms(1-5)])
  have "view_of (put_mem (region_of c) m w) d = h (view_of w d)" if "d \<in> set (peer_channels l)" for d
  proof (cases "d = c")
    case False
    have "distinct (map chan_peer_id (peer_channels l))" using assms(1) by (simp add: link_inv_def chans_ok_def)
    then have "chan_peer_id d \<noteq> chan_peer_id c"
      using that assms(2) False by (metis distinct_map inj_onD)
    then show ?thesis using link_inv_put(2) [OF assms(1-5) that False] assms(7) by simp
  qed (simp add: assms(6))
  then show "link_view (l, put_mem (region_of c) m w) = (link_view (l, w))\<lparr>v_peers := map h (v_peers (link_view (l, w)))\<rparr>"
    by (simp add: link_view_def)
qed

text \<open>What each operation of a client is on the abstract router.\<close>

lemma client_sends:
  assumes "link_inv (1 + n) (l, w)" "c \<in> set (peer_channels l)" "client_of c cl" "wf_frame f"
    "send_to_router (\<lambda>_ m. m) f (cl, w) = Some (Inr (), (cl', w'))"
  shows "cl' = cl" "link_inv n (l, w')"
    "link_view (l, w') = (link_view (l, w))\<lparr>v_peers := map (push_in (chan_peer_id c) (bytes f)) (v_peers (link_view (l, w)))\<rparr>"
proof -
  have c: "chan_ok w c" "in_pos w c + 1 < 2 ^ 64" using assms(1,2) by (auto simp: link_inv_def chans_ok_def)
  obtain m where m: "send_to_router (\<lambda>_ m. m) f (cl, w) = Some (Inr (), (cl, put_mem (region_of c) m w))"
    "chan_ok (put_mem (region_of c) m w) c" "in_q (put_mem (region_of c) m w) c = in_q w c @ [bytes f]"
    "out_q (put_mem (region_of c) m w) c = out_q w c" "out_pos (put_mem (region_of c) m w) c = out_pos w c"
    "in_pos (put_mem (region_of c) m w) c = in_pos w c + 1"
    by (rule client_send [OF assms(3) c(1) assms(4) client_sent [OF assms(3) c(1) assms(5)] c(2)])
  have w': "cl' = cl" "w' = put_mem (region_of c) m w" using assms(5) m(1) by simp_all
  have pos: "in_pos (put_mem (region_of c) m w) c \<le> in_pos w c + 1" "out_pos (put_mem (region_of c) m w) c \<le> out_pos w c + 1"
    using m(5,6) by simp_all
  have "view_of (put_mem (region_of c) m w) c = push_in (chan_peer_id c) (bytes f) (view_of w c)"
    using m(3,4) by (simp add: view_of_def push_in_def)
  note put = link_view_put [where h = "push_in (chan_peer_id c) (bytes f)", OF assms(1,2) m(2) pos this]
  show "cl' = cl" by (rule w'(1))
  show "link_inv n (l, w')" unfolding w'(2) by (rule put(1)) (simp add: push_in_def)
  show "link_view (l, w') = (link_view (l, w))\<lparr>v_peers := map (push_in (chan_peer_id c) (bytes f)) (v_peers (link_view (l, w)))\<rparr>"
    unfolding w'(2) by (rule put(2)) (simp add: push_in_def)
qed

lemma client_receives:
  assumes "link_inv n (l, w)" "c \<in> set (peer_channels l)" "client_of c cl" "wf_frame h"
    "view_frames (view_of w c)" "recv_message h (cl, w) = (r, g, (cl', w'))"
  obtains (none) "r = Inr False" "cl' = cl" "w' = w"
    | (one) x xs where "r = Inr True" "cl' = cl" "out_q w c = x # xs" "g = \<lparr>bytes = x\<rparr>" "link_inv n (l, w')"
      "link_view (l, w') = (link_view (l, w))\<lparr>v_peers := map (pop_out (chan_peer_id c) xs) (v_peers (link_view (l, w)))\<rparr>"
proof (cases "out_q w c")
  case Nil
  have "chan_ok w c" using assms(1,2) by (simp add: link_inv_def chans_ok_def)
  from client_recv_empty [OF assms(3) this Nil] assms(6) show thesis using none by simp
next
  case (Cons x xs)
  have ok: "chan_ok w c" using assms(1,2) by (simp add: link_inv_def chans_ok_def)
  have len: "length x = kRouterFrameSize" using assms(5) Cons by (simp add: view_frames_def view_of_def)
  obtain m where m: "recv_message h (cl, w) = (Inr True, \<lparr>bytes = x\<rparr>, (cl, put_mem (region_of c) m w))"
    "chan_ok (put_mem (region_of c) m w) c" "out_q (put_mem (region_of c) m w) c = xs"
    "in_q (put_mem (region_of c) m w) c = in_q w c"
    "out_pos (put_mem (region_of c) m w) c = out_pos w c" "in_pos (put_mem (region_of c) m w) c = in_pos w c"
    by (rule client_recv [OF assms(3) ok assms(4) Cons len])
  have w': "r = Inr True" "g = \<lparr>bytes = x\<rparr>" "cl' = cl" "w' = put_mem (region_of c) m w" using assms(6) m(1) by simp_all
  have pos: "in_pos (put_mem (region_of c) m w) c \<le> in_pos w c + 0" "out_pos (put_mem (region_of c) m w) c \<le> out_pos w c + 0"
    using m(5,6) by simp_all
  have "view_of (put_mem (region_of c) m w) c = pop_out (chan_peer_id c) xs (view_of w c)"
    using m(3,4) by (simp add: view_of_def pop_out_def)
  note put = link_view_put [where h = "pop_out (chan_peer_id c) xs" and n = n, OF _ assms(2) m(2) pos this]
  have "link_inv n (l, w')" unfolding w'(4) by (rule put(1)) (use assms(1) in \<open>simp_all add: pop_out_def\<close>)
  moreover have "link_view (l, w') = (link_view (l, w))\<lparr>v_peers := map (pop_out (chan_peer_id c) xs) (v_peers (link_view (l, w)))\<rparr>"
    unfolding w'(4) by (rule put(2)) (use assms(1) in \<open>simp_all add: pop_out_def\<close>)
  ultimately show thesis using one [OF w'(1,3) Cons w'(2)] by simp
qed

lemma joined_same: "joined l cls \<Longrightarrow> cls p = Some cl \<Longrightarrow> joined l (cls(p \<mapsto> cl))"
  by (simp add: fun_upd_idem)

lemma joined_ends:
  assumes "joined l cls" "chan_ends l' = chan_ends l"
  shows "joined l' cls"
  unfolding joined_def
proof (intro allI impI)
  fix p cl
  assume "cls p = Some cl"
  then obtain c where c: "c \<in> set (peer_channels l)" "chan_peer_id c = p" "client_of c cl"
    using assms(1) by (auto simp: joined_def)
  then obtain i where i: "i < length (peer_channels l)" "peer_channels l ! i = c" by (metis in_set_conv_nth)
  note same = chan_ends_nth [OF assms(2) i(1), unfolded i(2)]
  show "\<exists>c\<in>set (peer_channels l'). chan_peer_id c = p \<and> client_of c cl"
    using same c(2,3) nth_mem [OF same(1)] by (intro bexI [of _ "peer_channels l' ! i"]) (simp_all add: client_of_def)
qed

lemma chan_ends_ids: "chan_ends l' = chan_ends l \<Longrightarrow> map chan_peer_id (peer_channels l') = map chan_peer_id (peer_channels l)"
proof -
  assume "chan_ends l' = chan_ends l"
  then have "map fst (chan_ends l') = map fst (chan_ends l)" by simp
  then show ?thesis by (simp add: chan_ends_def comp_def)
qed

lemma net_step_inv:
  assumes inv: "net_inv rules (kMaxRouteDests + n) evs s" and step: "net_step rules s ev s'"
  shows "net_inv rules n (evs @ [ev]) s' \<and> \<not> failed ev"
proof -
  let ?l = "net_link s" and ?w = "net_world s"
  obtain tk where s: "link_inv (kMaxRouteDests + n) (?l, ?w)" "joined ?l (net_clients s)"
    "rules_closed rules (chan_peer_id ` set (peer_channels ?l))" "accounted rules evs tk (link_view (?l, ?w))"
    using inv by (auto simp: net_inv_def)
  have dist: "distinct (map v_id (v_peers (link_view (?l, ?w))))"
    using s(1) by (simp add: view_ids link_inv_def chans_ok_def)
  have weak: "link_inv n (?l, ?w)" by (rule link_inv_weaken [OF s(1)])
  from step show ?thesis
  proof (rule net_stepE, goal_cases)
    case (1 p cl f cl' w')
    obtain c where c: "c \<in> set (peer_channels ?l)" "chan_peer_id c = p" "client_of c cl"
      using s(2) 1(3) by (auto simp: joined_def)
    have "link_inv (1 + n) (?l, ?w)"
      using link_inv_weaken [of "kMaxRouteDests - 1" "1 + n"] s(1) by (simp add: kMaxRouteDests_def)
    note snd = client_sends [OF this c(1,3) 1(4,5), unfolded c(2)]
    have "accounted rules (evs @ [ev]) tk (link_view (?l, w'))"
      unfolding snd(3) 1(1) by (rule accounted_sent [OF s(4) 1(4)])
    then show ?thesis
      using 1(1,2,3) snd(1,2) s(2,3) joined_same by (auto simp: net_inv_def)
  next
    case (2 p cl h g cl' w')
    obtain c where c: "c \<in> set (peer_channels ?l)" "chan_peer_id c = p" "client_of c cl"
      using s(2) 2(3) by (auto simp: joined_def)
    have seen: "view_of ?w c \<in> set (v_peers (link_view (?l, ?w)))" using c(1) by (simp add: link_view_def)
    then have fr: "view_frames (view_of ?w c)" using s(4) by (simp add: accounted_def)
    from weak c(1,3) 2(4) fr 2(5) show ?thesis
    proof (cases rule: client_receives)
      case (one x xs)
      have "v_out (view_of ?w c) = x # xs" "v_id (view_of ?w c) = p" using one(3) c(2) by (simp_all add: view_of_def)
      with accounted_received [OF s(4) dist seen this(1)] one(4,6) c(2) 2(1)
      have "accounted rules (evs @ [ev]) tk (link_view (?l, w'))" by simp
      then show ?thesis
        using 2(1,2,3) one(2,5) s(2,3) joined_same by (auto simp: net_inv_def)
    qed simp
  next
    case (3 p cl h r g cl' w')
    obtain c where c: "c \<in> set (peer_channels ?l)" "chan_peer_id c = p" "client_of c cl"
      using s(2) 3(3) by (auto simp: joined_def)
    have "view_of ?w c \<in> set (v_peers (link_view (?l, ?w)))" using c(1) by (simp add: link_view_def)
    then have fr: "view_frames (view_of ?w c)" using s(4) by (simp add: accounted_def)
    from weak c(1,3) 3(4) fr 3(5) show ?thesis
    proof (cases rule: client_receives)
      case none
      have "accounted rules (evs @ [ev]) tk (link_view (?l, ?w))"
        by (rule accounted_quiet [OF s(4)]) (simp_all add: 3(1))
      then show ?thesis
        using 3(1,2,3) none weak s(2,3) joined_same by (auto simp: net_inv_def)
    qed (use 3(6) in simp)
  next
    case (4 h ts r g l' w')
    note ends = forward_ends [OF 4(4), simplified]
    obtain sres where sim: "link_inv n (l', w')" "forward_spec ts rules (link_view (?l, ?w)) = (sres, link_view (l', w'))"
      "case sres of Inl e \<Rightarrow> r = Inl e | Inr (fr, None) \<Rightarrow> r = Inr fr | Inr (fr, Some x) \<Rightarrow> r = Inr fr \<and> g = x"
      using forward_refines [OF s(1) 4(3,4)] by blast
    have closed: "rules_closed rules (v_id ` set (v_peers (link_view (?l, ?w))))" using s(3) by (simp only: view_id_set)
    obtain tk' y where acc: "accounted rules (evs @ [ev]) tk' (link_view (l', w'))" "sres = Inr y"
      using accounted_forward [OF s(4) dist closed sim(2), of ev] 4(1) by auto
    have "\<exists>x. r = Inr x" using sim(3) acc(2) by (auto split: prod.splits option.splits)
    moreover have "chan_peer_id ` set (peer_channels l') = chan_peer_id ` set (peer_channels ?l)"
      using arg_cong [OF chan_ends_ids [OF ends], of set] by (simp only: list.set_map)
    ultimately show ?thesis
      using 4(1,2) sim(1) acc(1) joined_ends [OF s(2) ends] s(3) by (auto simp: net_inv_def)
  next
    case (5 x)
    have "link_view (set_priority_drop_floor x ?l, ?w) = (link_view (?l, ?w))\<lparr>v_floor := x\<rparr>"
      by (simp add: link_view_def set_priority_drop_floor_def)
    moreover have "accounted rules (evs @ [ev]) tk (link_view (?l, ?w))"
      by (rule accounted_quiet [OF s(4)]) (simp_all add: 5(1))
    ultimately have "accounted rules (evs @ [ev]) tk (link_view (set_priority_drop_floor x ?l, ?w))"
      by (simp add: accounted_def)
    then show ?thesis
      using 5 weak s(2,3) by (auto simp: net_inv_def link_inv_def joined_def set_priority_drop_floor_def)
  qed
qed

lemma net_run_inv:
  assumes "net_run rules s evs s'" "net_inv rules (kMaxRouteDests * length evs + n) [] s"
  shows "net_inv rules n evs s' \<and> \<not> list_ex failed evs"
  using assms
proof (induction arbitrary: n rule: net_run.induct)
  case (run_snoc s evs s' ev s'')
  have "kMaxRouteDests * length (evs @ [ev]) + n = kMaxRouteDests * length evs + (kMaxRouteDests + n)" by simp
  with run_snoc.prems have "net_inv rules (kMaxRouteDests * length evs + (kMaxRouteDests + n)) [] s" by (simp only:)
  from run_snoc.IH [OF this] net_step_inv [OF _ run_snoc.hyps(2)] show ?case by auto
qed simp

section \<open>What clients receive\<close>

lemma accounted_fresh:
  assumes "list_all (fresh_chan w) (peer_channels l)" "metrics l = ShmRouterMetrics_zero"
  shows "accounted rules [] [] (link_view (l, w))"
proof -
  have zero: "replicate kPerPeerMetricsSlots (0 :: u64) ! unat (chan_peer_id c) = 0" for c
    using unsigned_less [of "chan_peer_id c"] by (simp add: kPerPeerMetricsSlots_def)
  have "peer_account rules [] [] ShmRouterMetrics_zero (view_of w c) \<and> view_frames (view_of w c)"
    if "c \<in> set (peer_channels l)" for c
    using assms(1) that zero [of c]
    by (simp add: list_all_iff fresh_chan_def peer_account_def view_frames_def view_of_def ShmRouterMetrics_zero_def)
  moreover have "length (dropped_full_per_peer (metrics l)) = kPerPeerMetricsSlots"
    by (simp add: assms(2) ShmRouterMetrics_zero_def)
  ultimately show ?thesis by (simp add: accounted_def link_view_def assms(2))
qed

text \<open>The clients that come up on a fresh router have joined it.\<close>

lemma unknown_client: "make_shm_router_client o_s t p w = (Inr cl, w') \<Longrightarrow> p \<in> peer_id ` set (peers t)"
proof -
  assume a: "make_shm_router_client o_s t p w = (Inr cl, w')"
  have "peer_by_id t p \<noteq> None"
    using a by (auto simp: make_shm_router_client_def ShmRouterClient_new_def ShmRouterLink_client_def bind_peer_def
        ShmRouterLink_new_def split: option.splits)
  then obtain e where e: "peer_by_id t p = Some e" by blast
  from peer_tbl.lookup_sound [OF e] show ?thesis by auto
qed

lemma joined_start:
  assumes "shm_os_ok o_s" "chan_peer_id ` set (peer_channels l) = peer_id ` set (lt_peers lt)"
    "list_all (joinable (view lt) w) (peer_channels l)"
    "\<And>p cl. cls p = Some cl \<Longrightarrow> make_shm_router_client o_s (view lt) p w = (Inr cl, w)"
  shows "joined l cls"
  unfolding joined_def
proof (intro allI impI)
  fix p cl
  assume "cls p = Some cl"
  then have cl: "make_shm_router_client o_s (view lt) p w = (Inr cl, w)" by (rule assms(4))
  then have "p \<in> chan_peer_id ` set (peer_channels l)" using unknown_client assms(2) by (fastforce simp: view_def)
  then obtain c where c: "c \<in> set (peer_channels l)" "chan_peer_id c = p" by blast
  then have "joinable (view lt) w c" using assms(3) by (simp add: list_all_iff)
  then obtain cl' where "make_shm_router_client o_s (view lt) p w = (Inr cl', w)" "client_of c cl'"
    using assms(1) c(2) by (auto simp: joinable_def)
  then show "\<exists>c\<in>set (peer_channels l). chan_peer_id c = p \<and> client_of c cl" using c cl by auto
qed

text \<open>What \<open>bind_shm_router_listen\<close> has established when it has returned for a profile of shared-memory peers.\<close>

lemma router_up:
  assumes "load_topology_from_toml_string parse text = Inr lt" "\<forall>e\<in>set (lt_peers lt). is_shm e"
    "distinct (map ring_name (lt_peers lt))" "kind (lt_listen lt) = ShmRing"
    "world_ok w" "\<And>n. shm_os_ok (os n)" "n < 2 ^ 64"
  obtains l w1 where "bind_shm_router_listen os (view lt) (make_shm_router_server (view lt), w) = (Inr (), (l, w1))"
    "link_inv n (l, w1)" "map chan_peer_id (peer_channels l) = map peer_id (lt_peers lt)"
    "list_all (fresh_chan w1) (peer_channels l)" "list_all (joinable (view lt) w1) (peer_channels l)"
    "metrics l = ShmRouterMetrics_zero" "bound_to w1 (lt_peers lt) (peer_channels l)" "world_ok w1"
proof -
  note ok = from_string.load_ok [OF assms(1)]
  have shm: "filter is_shm (lt_peers lt) = lt_peers lt" using assms(2) by (simp add: filter_id_conv)
  have "lt_peers lt \<noteq> []" using ok by (simp add: loaded_ok_def)
  then have some: "\<exists>e\<in>set (lt_peers lt). is_shm e" using assms(2) by (metis last_in_set)
  have names: "distinct (map ring_name (filter is_shm (lt_peers lt)))" using assms(3) by (simp only: shm)
  show thesis by (rule stand_up [OF ok some names assms(4-7), unfolded shm]) (rule that)
qed

lemma closed_ids:
  assumes "load_topology_from_toml_string parse text = Inr lt"
    "map chan_peer_id (peer_channels l) = map peer_id (lt_peers lt)"
  shows "chan_peer_id ` set (peer_channels l) = peer_id ` set (lt_peers lt)"
    "rules_closed (lt_routes lt) (chan_peer_id ` set (peer_channels l))"
proof -
  show ids: "chan_peer_id ` set (peer_channels l) = peer_id ` set (lt_peers lt)"
    using arg_cong [OF assms(2), of set] by (simp only: list.set_map)
  show "rules_closed (lt_routes lt) (chan_peer_id ` set (peer_channels l))"
    using from_string.routes_wf [OF assms(1)] from_string.routes_distinct [OF assms(1)] from_string.routes_closed [OF assms(1)]
    unfolding rules_closed_def ids by blast
qed

text \<open>The network of a profile starts in the invariant.\<close>

lemma net_start:
  assumes "load_topology_from_toml_string parse text = Inr lt" "\<forall>e\<in>set (lt_peers lt). is_shm e"
    "distinct (map ring_name (lt_peers lt))" "kind (lt_listen lt) = ShmRing"
    "world_ok w" "\<And>n. shm_os_ok (os n)"
    "bind_shm_router_listen os (view lt) (make_shm_router_server (view lt), w) = (Inr (), (l, w1))"
    "\<And>p cl. cls p = Some cl \<Longrightarrow> make_shm_router_client (os []) (view lt) p w1 = (Inr cl, w1)"
    "n < 2 ^ 64"
  shows "net_inv (lt_routes lt) n [] \<lparr>net_link = l, net_clients = cls, net_world = w1\<rparr>"
proof -
  obtain l' w' where "bind_shm_router_listen os (view lt) (make_shm_router_server (view lt), w) = (Inr (), (l', w'))"
    "link_inv n (l', w')" "map chan_peer_id (peer_channels l') = map peer_id (lt_peers lt)"
    "list_all (fresh_chan w') (peer_channels l')" "list_all (joinable (view lt) w') (peer_channels l')"
    "metrics l' = ShmRouterMetrics_zero"
    by (rule router_up [OF assms(1-6,9)])
  with assms(7) have l: "link_inv n (l, w1)"
    "map chan_peer_id (peer_channels l) = map peer_id (lt_peers lt)" "list_all (fresh_chan w1) (peer_channels l)"
    "list_all (joinable (view lt) w1) (peer_channels l)" "metrics l = ShmRouterMetrics_zero"
    by simp_all
  note ids = closed_ids [OF assms(1) l(2)]
  have "joined l cls" using joined_start [OF assms(6) ids(1) l(4) assms(8)] by blast
  then show ?thesis
    using l(1) ids(2) accounted_fresh [OF l(3,5)] by (auto simp: net_inv_def)
qed

text \<open>
  What a history of the router says of a trace and the state after it: for every peer, what was taken
  from it, what it received or has waiting, and how many copies were dropped.
\<close>

definition explains :: "RouteRule list \<Rightarrow> NetEvent list \<Rightarrow> Net \<Rightarrow> (u8 \<times> RouterFrame) list \<Rightarrow> bool" where
  "explains rules evs s history \<longleftrightarrow> list_all (\<lambda>c. let p = chan_peer_id c in
        map snd (filter (\<lambda>e. fst e = p) history) @ as_frames (in_q (net_world s) c) = sent_by p evs
        \<and> subseq (map origin (received_by p evs @ as_frames (out_q (net_world s) c)))
            (map (map_prod id unstamped) (filter (wanted rules p) history))
        \<and> of_nat (length (filter (wanted rules p) history))
            = of_nat (length (received_by p evs) + length (out_q (net_world s) c))
              + dropped_full_per_peer (metrics (net_link s)) ! unat p)
      (peer_channels (net_link s))"

lemma net_inv_explained:
  assumes "net_inv rules n evs s"
  shows "\<exists>history. explains rules evs s history"
proof -
  from assms obtain tk where "accounted rules evs tk (link_view (net_link s, net_world s))" by (auto simp: net_inv_def)
  then show ?thesis
    by (intro exI [of _ tk])
      (simp add: explains_def accounted_def peer_account_def link_view_def view_of_def list_all_iff Let_def)
qed

lemma run_explained:
  assumes "net_run rules s0 evs s" "net_inv rules (kMaxRouteDests * length evs + 0) [] s0"
  shows "\<not> list_ex failed evs \<and> (\<exists>history. explains rules evs s history)"
  using net_run_inv [OF assms] net_inv_explained by blast

text \<open>
  C2: every frame is accounted for, in order. Bring a router up from a loaded profile of
  shared-memory peers, start any of their clients, and let the clients send and receive and the
  router forward and change its floor in any order (fewer than \<open>2 ^ 61\<close> operations in all). No operation raises, and there is one history of frames taken by the router, each
  with the true sender whatever source the sender wrote into it, such that for every peer: what
  the router took from it is what it sent, in order, up to what still waits in its ring; what it
  received, followed by what waits for it, is a subsequence of the frames of the history that the
  rules list it for, unchanged but for the stamp of source and time; and what is missing is
  exactly the number of drops counted for it. In particular nothing is repeated or forged, two
  peers never see two frames in different orders, and a peer that drained its ring with no drops
  counted (modulo \<open>2 ^ 64\<close>) has received everything.
\<close>

theorem network_accounts:
  assumes "load_topology_from_toml_string parse text = Inr lt" "\<forall>e\<in>set (lt_peers lt). is_shm e"
    "distinct (map ring_name (lt_peers lt))" "kind (lt_listen lt) = ShmRing"
    "world_ok w" "\<And>n. shm_os_ok (os n)"
    "bind_shm_router_listen os (view lt) (make_shm_router_server (view lt), w) = (Inr (), (l, w1))"
    "\<And>p cl. cls p = Some cl \<Longrightarrow> make_shm_router_client (os []) (view lt) p w1 = (Inr cl, w1)"
    "net_run (lt_routes lt) \<lparr>net_link = l, net_clients = cls, net_world = w1\<rparr> evs s"
    "kMaxRouteDests * length evs < 2 ^ 64"
  shows "\<not> list_ex failed evs \<and> (\<exists>history. explains (lt_routes lt) evs s history)"
proof -
  have budget: "kMaxRouteDests * length evs + 0 < 2 ^ 64" using assms(10) by simp
  from run_explained [OF assms(9) net_start [OF assms(1-8) budget]] show ?thesis .
qed

text \<open>A run on the small profile: a message of the first peer, its forward, and its receipt by the second.\<close>

lemma demo_run:
  obtains l w1 a b s1 fr s where
    "bind_shm_router_listen (\<lambda>_. os_all_ok) (view demo_loaded) (make_shm_router_server (view demo_loaded), empty_world)
      = (Inr (), (l, w1))"
    "make_shm_router_client os_all_ok (view demo_loaded) 1 w1 = (Inr a, w1)"
    "make_shm_router_client os_all_ok (view demo_loaded) 2 w1 = (Inr b, w1)"
    "net_step (lt_routes demo_loaded) \<lparr>net_link = l, net_clients = [1 \<mapsto> a, 2 \<mapsto> b], net_world = w1\<rparr>
      (Sent 1 demo_message) s1"
    "net_run (lt_routes demo_loaded) \<lparr>net_link = l, net_clients = [1 \<mapsto> a, 2 \<mapsto> b], net_world = w1\<rparr>
      [Sent 1 demo_message, Forwarded (Inr fr), Received 2 (set_timestamp_ns 5 (set_source 1 demo_message))] s"
proof -
  let ?rules = "lt_routes demo_loaded" and ?g = "set_timestamp_ns 5 (set_source 1 demo_message)"
  have os: "shm_os_ok os_all_ok" by simp
  have dst: "2 \<in> set (route_spec ?rules 1 (topic_id demo_message))"
    by (simp only: demo_message_facts(2) demo_loaded_facts(6))
  from frame_delivered [where os = "\<lambda>_. os_all_ok" and env = "\<lambda>_ m. m" and ts = 5, OF demo_loads demo_loaded_facts(2,4,5)
      world_ok_empty os demo_message_facts(1,3) dst]
  obtain l w1 a b w2 fr l3 w3 w4 where
    up: "bind_shm_router_listen (\<lambda>_. os_all_ok) (view demo_loaded) (make_shm_router_server (view demo_loaded), empty_world)
      = (Inr (), (l, w1))"
    "make_shm_router_client os_all_ok (view demo_loaded) 1 w1 = (Inr a, w1)"
    "make_shm_router_client os_all_ok (view demo_loaded) 2 w1 = (Inr b, w1)"
    and ops: "send_to_router (\<lambda>_ m. m) demo_message (a, w1) = Some (Inr (), (a, w2))"
    "forward RouterFrame_default 5 ?rules (l, w2) = (Inr fr, ?g, (l3, w3))"
    "recv_message RouterFrame_default (b, w3) = (Inr True, ?g, (b, w4))"
    unfolding ShmRouterClient_recv_message_def by (elim exE conjE) (rule that)
  let ?s = "\<lparr>net_link = l, net_clients = [1 \<mapsto> a, 2 \<mapsto> b], net_world = w1\<rparr>"
  let ?s1 = "?s\<lparr>net_clients := (net_clients ?s)(1 \<mapsto> a), net_world := w2\<rparr>"
  let ?s2 = "?s1\<lparr>net_link := l3, net_world := w3\<rparr>"
  have 1: "net_step ?rules ?s (Sent 1 demo_message) ?s1"
    by (rule net_send [where cl = a]) (use ops(1) demo_message_facts(1) in simp_all)
  have 2: "net_step ?rules ?s1 (Forwarded (Inr fr)) ?s2"
    by (rule net_forward [where ts = 5, OF demo_message_facts(3)]) (use ops(2) in simp)
  have 3: "net_step ?rules ?s2 (Received 2 ?g) (?s2\<lparr>net_clients := (net_clients ?s2)(2 \<mapsto> b), net_world := w4\<rparr>)"
    by (rule net_recv [where cl = b, OF _ demo_message_facts(3)]) (use ops(3) in simp_all)
  have "net_run ?rules ?s ((([] @ [Sent 1 demo_message]) @ [Forwarded (Inr fr)]) @ [Received 2 ?g])
      (?s2\<lparr>net_clients := (net_clients ?s2)(2 \<mapsto> b), net_world := w4\<rparr>)"
    by (rule run_snoc [OF run_snoc [OF run_snoc [OF run_nil 1] 2] 3])
  then show thesis using that [OF up 1] by simp
qed

theorem network_accounts_witness:
  "\<exists>l cls w1 evs s. net_run (lt_routes demo_loaded) \<lparr>net_link = l, net_clients = cls, net_world = w1\<rparr> evs s
    \<and> received_by 2 evs = [set_timestamp_ns 5 (set_source 1 demo_message)]
    \<and> (\<exists>history. explains (lt_routes demo_loaded) evs s history)"
proof -
  let ?g = "set_timestamp_ns 5 (set_source 1 demo_message)"
  obtain l w1 a b s1 fr s where r:
    "bind_shm_router_listen (\<lambda>_. os_all_ok) (view demo_loaded) (make_shm_router_server (view demo_loaded), empty_world)
      = (Inr (), (l, w1))"
    "make_shm_router_client os_all_ok (view demo_loaded) 1 w1 = (Inr a, w1)"
    "make_shm_router_client os_all_ok (view demo_loaded) 2 w1 = (Inr b, w1)"
    "net_step (lt_routes demo_loaded) \<lparr>net_link = l, net_clients = [1 \<mapsto> a, 2 \<mapsto> b], net_world = w1\<rparr>
      (Sent 1 demo_message) s1"
    "net_run (lt_routes demo_loaded) \<lparr>net_link = l, net_clients = [1 \<mapsto> a, 2 \<mapsto> b], net_world = w1\<rparr>
      [Sent 1 demo_message, Forwarded (Inr fr), Received 2 ?g] s"
    by (rule demo_run)
  have os: "shm_os_ok os_all_ok" by simp
  have cls: "make_shm_router_client os_all_ok (view demo_loaded) p w1 = (Inr cl, w1)"
    if "[1 \<mapsto> a, 2 \<mapsto> b] p = Some cl" for p :: u8 and cl
    using that r(2,3) by (auto split: if_splits)
  have n: "kMaxRouteDests * length [Sent 1 demo_message, Forwarded (Inr fr), Received 2 ?g] < 2 ^ 64"
    by (simp add: kMaxRouteDests_def)
  have "\<exists>history. explains (lt_routes demo_loaded) [Sent 1 demo_message, Forwarded (Inr fr), Received 2 ?g] s history"
    by (rule network_accounts [where os = "\<lambda>_. os_all_ok", OF demo_loads demo_loaded_facts(2,4,5) world_ok_empty os r(1) cls r(5) n,
          THEN conjunct2])
  moreover have "received_by 2 [Sent 1 demo_message, Forwarded (Inr fr), Received 2 ?g] = [?g]" by (simp add: received_by_def)
  ultimately show ?thesis using r(5) by blast
qed

end
