(* ===== verification/Drain.thy ===== *)
theory Drain
  imports Network
begin

text \<open>
  The server loop of \<open>ipc/src/router/node.hpp\<close> on the shared-memory link of a running network: every
  turn that finds a frame waiting takes one, so that a run drains the rings of the clients.
\<close>

section \<open>One turn\<close>

definition waiting :: "shm_link_state \<Rightarrow> nat" where
  "waiting = (\<lambda>(l, w). sum_list (map (\<lambda>c. length (in_q w c)) (peer_channels l)))"

lemma waiting_view: "waiting s = sum_list (map (\<lambda>v. length (v_in v)) (v_peers (link_view s)))"
  by (cases s) (simp add: waiting_def link_view_def view_of_def comp_def)

lemma waiting_zero: "waiting (l, w) = 0 \<longleftrightarrow> list_all (\<lambda>c. in_q w c = []) (peer_channels l)"
  by (simp add: waiting_def list_all_iff)

lemma waiting_take:
  "v \<in> set vs \<Longrightarrow> v_in v = x # xs \<Longrightarrow> (\<And>u. u \<in> set vs \<Longrightarrow> v_id u = v_id v \<Longrightarrow> u = v) \<Longrightarrow> distinct (map v_id vs) \<Longrightarrow>
   Suc (sum_list (map (\<lambda>u. length (v_in (take_in (v_id v) xs u))) vs)) = sum_list (map (\<lambda>u. length (v_in u)) vs)"
proof (induction vs)
  case (Cons u vs)
  show ?case
  proof (cases "u = v")
    case True
    then have "v_id v \<notin> v_id ` set vs" using Cons.prems(4) by auto
    then have "take_in (v_id v) xs w = w" if "w \<in> set vs" for w using that by (metis imageI take_in_def)
    then have m: "map (\<lambda>u. length (v_in (take_in (v_id v) xs u))) vs = map (\<lambda>u. length (v_in u)) vs" by simp
    have "take_in (v_id v) xs v = v\<lparr>v_in := xs\<rparr>" by (simp add: take_in_def)
    then show ?thesis by (simp add: True Cons.prems(2) m)
  next
    case False
    then have "v_id u \<noteq> v_id v" "v \<in> set vs" using Cons.prems(1,3) by auto
    then show ?thesis using Cons by (simp add: take_in_def)
  qed
qed simp

lemma forward_takes:
  assumes inv: "net_inv rules (kMaxRouteDests + n) evs s" and h: "wf_frame h"
    and fwd: "forward h ts rules (net_link s, net_world s) = (r, g, (l', w'))"
    and some: "0 < waiting (net_link s, net_world s)"
  shows "\<exists>fr. r = Inr fr \<and> forwarded_frame fr" "Suc (waiting (l', w')) = waiting (net_link s, net_world s)"
    "wf_frame g" "net_inv rules n (evs @ [Forwarded r]) (s\<lparr>net_link := l', net_world := w'\<rparr>)"
proof -
  let ?s = "(net_link s, net_world s)"
  obtain tk where s: "link_inv (kMaxRouteDests + n) ?s"
    "rules_closed rules (chan_peer_id ` set (peer_channels (net_link s)))" "accounted rules evs tk (link_view ?s)"
    using inv by (auto simp: net_inv_def)
  have dist: "distinct (map v_id (v_peers (link_view ?s)))" using s(1) by (simp add: view_ids link_inv_def chans_ok_def)
  have closed: "rules_closed rules (v_id ` set (v_peers (link_view ?s)))" using s(2) by (simp only: view_id_set)
  have frames: "\<forall>v\<in>set (v_peers (link_view ?s)). view_frames v"
    "length (dropped_full_per_peer (v_metrics (link_view ?s))) = kPerPeerMetricsSlots"
    using s(3) by (simp_all add: accounted_def)
  obtain sres where sim: "wf_frame g" "forward_spec ts rules (link_view ?s) = (sres, link_view (l', w'))"
    "case sres of Inl e \<Rightarrow> r = Inl e | Inr (fr, None) \<Rightarrow> r = Inr fr | Inr (fr, Some x) \<Rightarrow> r = Inr fr \<and> g = x"
    using forward_refines [OF s(1) h fwd] by blast
  show "wf_frame g" by (rule sim(1))
  show "net_inv rules n (evs @ [Forwarded r]) (s\<lparr>net_link := l', net_world := w'\<rparr>)"
    using net_step_inv [OF inv net_forward [OF h fwd]] by simp
  from frames(1) dist closed frames(2) sim(2)
  have "(\<exists>fr. r = Inr fr \<and> forwarded_frame fr) \<and> Suc (waiting (l', w')) = waiting ?s"
  proof (cases rule: forward_spec_cases)
    case idle
    then have "waiting ?s = 0" by (simp add: waiting_view)
    then show ?thesis using some by simp
  next
    case (taken v x xs ds g fr)
    have "v_id v \<in> v_id ` set (v_peers (link_view ?s))" using taken(1) by (rule imageI)
    then have "v_id v \<in> chan_peer_id ` set (peer_channels (net_link s))" by (simp only: view_id_set)
    then have "v_id v \<noteq> kEndpointInvalid" using s(1) by (auto simp: link_inv_def chans_ok_def)
    then have "r = Inr fr \<and> forwarded_frame fr" using sim(3) taken(7,8) by (simp add: forwarded_frame_def)
    moreover have "Suc (waiting (l', w')) = waiting ?s"
      using waiting_take [OF taken(1,2,4) dist] taken(9) by (simp add: waiting_view comp_def)
    ultimately show ?thesis by blast
  qed
  then show "\<exists>fr. r = Inr fr \<and> forwarded_frame fr" "Suc (waiting (l', w')) = waiting ?s" by blast+
qed

text \<open>What waits was sent, and a send is one more that waits.\<close>

lemma sent_once: "distinct ps \<Longrightarrow> sum_list (map (\<lambda>p. length (sent_frame p ev)) ps) \<le> 1"
proof (cases ev)
  case (Sent q f)
  have none: "q \<notin> set ps \<Longrightarrow> sum_list (map (\<lambda>p. length (sent_frame p ev)) ps) = 0" for ps
    by (induction ps) (auto simp: Sent)
  show "distinct ps \<Longrightarrow> sum_list (map (\<lambda>p. length (sent_frame p ev)) ps) \<le> 1"
  proof (induction ps)
    case (Cons p ps)
    then show ?case using none [of ps] by (cases "q = p") (simp_all add: Sent)
  qed simp
qed simp_all

lemma sent_bound: "distinct ps \<Longrightarrow> sum_list (map (\<lambda>p. length (sent_by p evs)) ps) \<le> length evs"
proof (induction evs rule: rev_induct)
  case (snoc ev evs)
  then show ?case using sent_once [OF snoc.prems, of ev] by (simp add: sum_list_addf)
qed (simp add: sum_list_0)

lemma waiting_bound:
  assumes "net_inv rules n evs s"
  shows "waiting (net_link s, net_world s) \<le> length evs"
proof -
  let ?L = "link_view (net_link s, net_world s)"
  obtain tk where s: "link_inv n (net_link s, net_world s)" "accounted rules evs tk ?L"
    using assms by (auto simp: net_inv_def)
  have "length (v_in v) \<le> length (sent_by (v_id v) evs)" if "v \<in> set (v_peers ?L)" for v
  proof -
    have "map snd (filter (\<lambda>e. fst e = v_id v) tk) @ as_frames (v_in v) = sent_by (v_id v) evs"
      using s(2) that by (simp add: accounted_def peer_account_def)
    from arg_cong [OF this, of length] show ?thesis by simp
  qed
  then have "waiting (net_link s, net_world s) \<le> sum_list (map (\<lambda>v. length (sent_by (v_id v) evs)) (v_peers ?L))"
    unfolding waiting_view by (rule sum_list_mono)
  also have "\<dots> = sum_list (map (\<lambda>p. length (sent_by p evs)) (map v_id (v_peers ?L)))" by (simp add: comp_def)
  also have "\<dots> \<le> length evs" by (rule sent_bound) (use s(1) in \<open>simp add: view_ids link_inv_def chans_ok_def\<close>)
  finally show ?thesis .
qed

lemma waiting_push:
  "v \<in> set vs \<Longrightarrow> distinct (map v_id vs) \<Longrightarrow>
   sum_list (map (\<lambda>u. length (v_in (push_in (v_id v) x u))) vs) = Suc (sum_list (map (\<lambda>u. length (v_in u)) vs))"
proof (induction vs)
  case (Cons u vs)
  show ?case
  proof (cases "u = v")
    case True
    then have "v_id v \<notin> v_id ` set vs" using Cons.prems(2) by simp
    then have "push_in (v_id v) x w = w" if "w \<in> set vs" for w using that by (metis imageI push_in_def)
    then have m: "map (\<lambda>u. length (v_in (push_in (v_id v) x u))) vs = map (\<lambda>u. length (v_in u)) vs" by simp
    have "length (v_in (push_in (v_id v) x v)) = Suc (length (v_in v))" by (simp add: push_in_def)
    then show ?thesis by (simp add: True m)
  next
    case False
    then have "v \<in> set vs" "v_id u \<noteq> v_id v" using Cons.prems by (auto simp: image_iff)
    then show ?thesis using Cons by (simp add: push_in_def)
  qed
qed simp

lemma send_waits:
  assumes "net_inv rules (1 + n) evs s" "net_step rules s (Sent p f) s'"
  shows "waiting (net_link s', net_world s') = Suc (waiting (net_link s, net_world s))"
proof -
  obtain cl cl' w' where st: "net_clients s p = Some cl" "wf_frame f"
    "send_to_router (\<lambda>_ m. m) f (cl, net_world s) = Some (Inr (), (cl', w'))"
    "s' = s\<lparr>net_clients := (net_clients s)(p \<mapsto> cl'), net_world := w'\<rparr>"
    using assms(2) by (auto elim: net_stepE)
  have inv: "link_inv (1 + n) (net_link s, net_world s)" using assms(1) by (simp add: net_inv_def)
  obtain c where c: "c \<in> set (peer_channels (net_link s))" "chan_peer_id c = p" "client_of c cl"
    using assms(1) st(1) by (auto simp: net_inv_def joined_def)
  let ?vs = "v_peers (link_view (net_link s, net_world s))"
  have "view_of (net_world s) c \<in> set ?vs" "distinct (map v_id ?vs)"
    using c(1) inv by (simp add: link_view_def) (use inv in \<open>simp add: view_ids link_inv_def chans_ok_def\<close>)
  from waiting_push [OF this, of "bytes f"]
  show ?thesis unfolding waiting_view st(4) using client_sends(3) [OF inv c(1,3) st(2,3)] by (simp add: comp_def)
qed

section \<open>The loop\<close>

fun is_report :: "run_event \<Rightarrow> bool" where
  "is_report (OnForward src dst f) = True"
| "is_report _ = False"

lemma loop_drains:
  assumes "net_inv rules (kMaxRouteDests * N + n) evs s" "wf_frame f" "waiting (net_link s, net_world s) = N"
    "\<And>j. i \<le> j \<Longrightarrow> j < i + N \<Longrightarrow> \<not> stop_flag env j" "\<And>j q. others env j q = q"
  shows "\<exists>rep f' l' w'. server_loop (\<lambda>_. False) forward env opts rules N i prev f (net_link s, net_world s) = (False, rep, f', (l', w'))
    \<and> waiting (l', w') = 0 \<and> list_all is_report rep"
  using assms
proof (induction N arbitrary: evs s i prev f)
  case (Suc N)
  obtain r g l1 w1 where fwd: "forward f (now_ns env i) rules (net_link s, net_world s) = (r, g, (l1, w1))"
    by (metis prod_cases4)
  have inv: "net_inv rules (kMaxRouteDests + (kMaxRouteDests * N + n)) evs s" using Suc.prems(1) by (simp add: add.assoc)
  have some: "0 < waiting (net_link s, net_world s)" using Suc.prems(3) by simp
  note one = forward_takes [OF inv Suc.prems(2) fwd some]
  obtain fr where fr: "r = Inr fr" "forwarded_frame fr" using one(1) by blast
  let ?s = "s\<lparr>net_link := l1, net_world := w1\<rparr>" and ?ev = "map (\<lambda>d. OnForward (fwd_source fr) d g) (targets_list (fwd_targets fr))"
  have w1: "waiting (net_link ?s, net_world ?s) = N" using one(2) Suc.prems(3) by simp
  obtain rep f' l' w' where IH: "server_loop (\<lambda>_. False) forward env opts rules N (Suc i) (steady_ms env i) g (l1, w1) = (False, rep, f', (l', w'))"
    "waiting (l', w') = 0" "list_all is_report rep"
    using Suc.IH [OF one(4,3) w1, of "Suc i" "steady_ms env i"] Suc.prems(4,5) by auto
  have "\<not> stop_flag env i" using Suc.prems(4) by simp
  then have "server_loop (\<lambda>_. False) forward env opts rules (Suc N) i prev f (net_link s, net_world s) = (False, ?ev @ rep, f', (l', w'))"
    using fwd fr IH(1) Suc.prems(5) by (simp add: then_events_def)
  moreover have "list_all is_report (?ev @ rep)" using IH(3) by (auto simp: list_all_iff)
  ultimately show ?case using IH(2) by blast
qed simp

text \<open>
  C10: a run of the server drains the network. Take any state that a network brought up from a
  profile can reach, with any number of frames waiting in the rings of any clients, and let
  \<open>run\<close> take that many turns while nobody else moves and the stop flag is not set: it is still
  running, every ring of a client is empty, and all it did was to report forwards; it never slept,
  swallowed an exception or left on idling, whatever the options and the clocks.
\<close>

theorem run_drains:
  assumes "load_topology_from_toml_string parse text = Inr lt" "\<forall>e\<in>set (lt_peers lt). is_shm e"
    "distinct (map ring_name (lt_peers lt))" "kind (lt_listen lt) = ShmRing"
    "world_ok w" "\<And>n. shm_os_ok (os n)"
    "bind_shm_router_listen os (view lt) (make_shm_router_server (view lt), w) = (Inr (), (l, w1))"
    "\<And>p cl. cls p = Some cl \<Longrightarrow> make_shm_router_client (os []) (view lt) p w1 = (Inr cl, w1)"
    "net_run (lt_routes lt) \<lparr>net_link = l, net_clients = cls, net_world = w1\<rparr> evs s"
    "N = sum_list (map (\<lambda>c. length (in_q (net_world s) c)) (peer_channels (net_link s)))"
    "kMaxRouteDests * (2 * length evs) < 2 ^ 64"
    "\<And>j. j < N \<Longrightarrow> \<not> stop_flag env j" "\<And>j q. others env j q = q"
  shows "\<exists>rep f l' w'. ShmRouterServer_run env opts (lt_routes lt) N start (net_link s, net_world s) = (False, rep, f, (l', w'))
    \<and> list_all (\<lambda>c. in_q w' c = []) (peer_channels l') \<and> list_all is_report rep"
proof -
  have budget: "kMaxRouteDests * length evs + kMaxRouteDests * length evs < 2 ^ 64" using assms(11) by simp
  from net_run_inv [OF assms(9) net_start [OF assms(1-8) budget]]
  have inv0: "net_inv (lt_routes lt) (kMaxRouteDests * length evs) evs s" by simp
  have "N \<le> length evs" using waiting_bound [OF inv0] by (simp add: waiting_def assms(10))
  then have "kMaxRouteDests * length evs = kMaxRouteDests * N + kMaxRouteDests * (length evs - N)"
    by (simp flip: distrib_left)
  with inv0 have inv: "net_inv (lt_routes lt) (kMaxRouteDests * N + kMaxRouteDests * (length evs - N)) evs s" by simp
  have N: "waiting (net_link s, net_world s) = N" by (simp add: waiting_def assms(10))
  have "set_recv_timeout_ms (poll_timeout_ms opts) (net_link s) = net_link s" by (simp add: set_recv_timeout_ms_def)
  then show ?thesis
    using loop_drains [where i = 0 and prev = start and opts = opts, OF inv demo_message_facts(3) N] assms(12,13)
    by (simp add: ShmRouterServer_run_def waiting_zero)
qed

text \<open>One message of the first peer of the small profile waits; one turn of the loop takes it.\<close>

theorem run_drains_witness:
  "\<exists>(s :: Net) rep f l' w'. sum_list (map (\<lambda>c. length (in_q (net_world s) c)) (peer_channels (net_link s))) = 1
    \<and> ShmRouterServer_run \<lparr>stop_flag = \<lambda>_. False, now_ns = \<lambda>_. 7, steady_ms = \<lambda>_. 0, others = \<lambda>_ q. q\<rparr>
        RouterRunOptions_default (lt_routes demo_loaded) 1 0 (net_link s, net_world s) = (False, rep, f, (l', w'))
    \<and> list_all (\<lambda>c. in_q w' c = []) (peer_channels l')"
proof -
  let ?env = "\<lparr>stop_flag = \<lambda>_. False, now_ns = \<lambda>_. 7, steady_ms = \<lambda>_. 0, others = \<lambda>_ q. q\<rparr> :: shm_link_state RunEnv"
  obtain l w1 a b s1 fr s where r:
    "bind_shm_router_listen (\<lambda>_. os_all_ok) (view demo_loaded) (make_shm_router_server (view demo_loaded), empty_world)
      = (Inr (), (l, w1))"
    "make_shm_router_client os_all_ok (view demo_loaded) 1 w1 = (Inr a, w1)"
    "make_shm_router_client os_all_ok (view demo_loaded) 2 w1 = (Inr b, w1)"
    "net_step (lt_routes demo_loaded) \<lparr>net_link = l, net_clients = [1 \<mapsto> a, 2 \<mapsto> b], net_world = w1\<rparr>
      (Sent 1 demo_message) s1"
    "net_run (lt_routes demo_loaded) \<lparr>net_link = l, net_clients = [1 \<mapsto> a, 2 \<mapsto> b], net_world = w1\<rparr>
      [Sent 1 demo_message, Forwarded (Inr fr), Received 2 (set_timestamp_ns 5 (set_source 1 demo_message))] s"
    by (rule demo_run)
  let ?s0 = "\<lparr>net_link = l, net_clients = [1 \<mapsto> a, 2 \<mapsto> b], net_world = w1\<rparr>"
  have os: "shm_os_ok os_all_ok" by simp
  have cls: "make_shm_router_client os_all_ok (view demo_loaded) p w1 = (Inr cl, w1)"
    if "[1 \<mapsto> a, 2 \<mapsto> b] p = Some cl" for p :: u8 and cl
    using that r(2,3) by (auto split: if_splits)
  have small: "1 + 0 < (2 :: nat) ^ 64" "kMaxRouteDests * (2 * length [Sent 1 demo_message]) < 2 ^ 64"
    by (simp_all add: kMaxRouteDests_def)
  note start = demo_loads demo_loaded_facts(2,4,5) world_ok_empty os r(1) cls
  have inv: "net_inv (lt_routes demo_loaded) (1 + 0) [] ?s0" by (rule net_start [where os = "\<lambda>_. os_all_ok", OF start small(1)])
  have "waiting (net_link s1, net_world s1) = 1"
    using send_waits [OF inv r(4)] waiting_bound [OF inv] by simp
  then have one: "1 = sum_list (map (\<lambda>c. length (in_q (net_world s1) c)) (peer_channels (net_link s1)))"
    by (simp add: waiting_def)
  have run: "net_run (lt_routes demo_loaded) ?s0 [Sent 1 demo_message] s1" using run_snoc [OF run_nil r(4)] by simp
  have env: "\<not> stop_flag ?env j" "others ?env j q = q" for j q by simp_all
  have "\<exists>rep f l' w'. ShmRouterServer_run ?env RouterRunOptions_default (lt_routes demo_loaded) 1 0 (net_link s1, net_world s1)
      = (False, rep, f, (l', w')) \<and> list_all (\<lambda>c. in_q w' c = []) (peer_channels l') \<and> list_all is_report rep"
    by (rule run_drains [where os = "\<lambda>_. os_all_ok", OF start run one small(2) env])
  then show ?thesis using one [symmetric] by (elim exE conjE) (rule exI [of _ s1], intro exI conjI)
qed

end
