(* ===== verification/DgNetwork.thy ===== *)
theory DgNetwork
  imports Network "HOL-Library.Multiset"
begin

text \<open>
  A router and clients over Unix-domain datagrams (\<open>ipc/src/router/link.hpp\<close>, \<open>ipc/src/ipc/datagram.hpp\<close>), under every
  order of their operations and of the kernel's deliveries, and with other processes sending to the
  router what they like. The kernel carries a datagram from the outbox of a socket to the inbox of the
  socket that is bound to its destination, in any order and perhaps never.
\<close>

section \<open>The network and its runs\<close>

record DgNet =
  dn_link :: DatagramRouterLink
  dn_clients :: "u8 \<rightharpoonup> DatagramRouterLink"
  dn_kernel :: Kernel

datatype DgEvent =
    DgJoined u8 "unit res"
  | DgSent u8 RouterFrame
  | DgRefused u8 string
  | DgReceived u8 RouterFrame
  | DgPolled u8 "bool res"
  | DgForwarded "ForwardResult res"
  | DgCarried sockaddr bytes
  | DgStray "sockaddr option" bytes

abbreviation is_uds :: "PeerEntry \<Rightarrow> bool" where
  "is_uds e \<equiv> kind (local_addr e) = UdsPath"

abbreviation peer_path :: "PeerEntry \<Rightarrow> string" where
  "peer_path e \<equiv> uds_path (local_addr e)"

abbreviation router_addr :: "RouterTopology \<Rightarrow> sockaddr" where
  "router_addr t \<equiv> SockUn (uds_path (router_listen t))"

abbreviation fd_of :: "DatagramRouterLink \<Rightarrow> int" where
  "fd_of l \<equiv> fd (dl_endpoint l)"

text \<open>Who the code takes the sender of a datagram for.\<close>

definition attributed :: "RouterTopology \<Rightarrow> sockaddr option \<Rightarrow> u8" where
  "attributed t from = peer_id_from_recv UdsT t (case from of None \<Rightarrow> from_zero UdsT | Some a \<Rightarrow> a)"

text \<open>
  A client comes up at any time, once per peer. A stray datagram comes from a socket that is bound to
  the path of no peer, or to none.
\<close>

inductive dg_step :: "NetOs \<Rightarrow> RouterTopology \<Rightarrow> RouteRule list \<Rightarrow> DgNet \<Rightarrow> DgEvent \<Rightarrow> DgNet \<Rightarrow> bool" for os t rules where
  dg_join: "dn_clients s p = None \<Longrightarrow> make_datagram_router_client UdsT os t p (dn_kernel s) = (r, k') \<Longrightarrow>
    dg_step os t rules s (DgJoined p (map_sum id (\<lambda>_. ()) r))
      (s\<lparr>dn_clients := (case r of Inl e \<Rightarrow> dn_clients s | Inr cl \<Rightarrow> (dn_clients s)(p \<mapsto> cl)), dn_kernel := k'\<rparr>)"
| dg_send: "dn_clients s p = Some cl \<Longrightarrow> wf_frame f \<Longrightarrow>
    dg_send_to_router os f (cl, dn_kernel s) = (Inr (), (cl', k')) \<Longrightarrow>
    dg_step os t rules s (DgSent p f) (s\<lparr>dn_clients := (dn_clients s)(p \<mapsto> cl'), dn_kernel := k'\<rparr>)"
| dg_refused: "dn_clients s p = Some cl \<Longrightarrow> wf_frame f \<Longrightarrow>
    dg_send_to_router os f (cl, dn_kernel s) = (Inl (RuntimeError e), (cl', k')) \<Longrightarrow>
    dg_step os t rules s (DgRefused p e) (s\<lparr>dn_clients := (dn_clients s)(p \<mapsto> cl'), dn_kernel := k'\<rparr>)"
| dg_recv: "dn_clients s p = Some cl \<Longrightarrow> wf_frame h \<Longrightarrow>
    DatagramRouterClient_recv_message UdsT h (cl, dn_kernel s) = (Inr True, g, (cl', k')) \<Longrightarrow>
    dg_step os t rules s (DgReceived p g) (s\<lparr>dn_clients := (dn_clients s)(p \<mapsto> cl'), dn_kernel := k'\<rparr>)"
| dg_poll: "dn_clients s p = Some cl \<Longrightarrow> wf_frame h \<Longrightarrow>
    DatagramRouterClient_recv_message UdsT h (cl, dn_kernel s) = (r, g, (cl', k')) \<Longrightarrow> r \<noteq> Inr True \<Longrightarrow>
    dg_step os t rules s (DgPolled p r) (s\<lparr>dn_clients := (dn_clients s)(p \<mapsto> cl'), dn_kernel := k'\<rparr>)"
| dg_fwd: "wf_frame h \<Longrightarrow> dg_forward UdsT os h ts rules (dn_link s, dn_kernel s) = (r, g, (l', k')) \<Longrightarrow>
    dg_step os t rules s (DgForwarded r) (s\<lparr>dn_link := l', dn_kernel := k'\<rparr>)"
| dg_carry: "socks (dn_kernel s) d = Some sk \<Longrightarrow> sk_outbox sk = us @ (a, x) # vs \<Longrightarrow>
    k1 = put_sock d (sk\<lparr>sk_outbox := us @ vs\<rparr>) (dn_kernel s) \<Longrightarrow>
    socks k1 d' = Some sk' \<Longrightarrow> sk_bound sk' = Some a \<Longrightarrow>
    dg_step os t rules s (DgCarried a x)
      (s\<lparr>dn_kernel := put_sock d' (sk'\<lparr>sk_inbox := sk_inbox sk' @ [Arrived (sk_bound sk) x]\<rparr>) k1\<rparr>)"
| dg_stray: "socks (dn_kernel s) d = Some sk \<Longrightarrow> sk_bound sk = Some (router_addr t) \<Longrightarrow>
    NUL \<notin> set path \<Longrightarrow> (\<forall>e\<in>set (peers t). is_uds e \<longrightarrow> peer_path e \<noteq> path) \<Longrightarrow>
    from = (if path = [] then None else Some (SockUn path)) \<Longrightarrow>
    dg_step os t rules s (DgStray from x)
      (s\<lparr>dn_kernel := put_sock d (sk\<lparr>sk_inbox := sk_inbox sk @ [Arrived from x]\<rparr>) (dn_kernel s)\<rparr>)"

inductive_cases dg_stepE: "dg_step os t rules s ev s'"

inductive dg_run :: "NetOs \<Rightarrow> RouterTopology \<Rightarrow> RouteRule list \<Rightarrow> DgNet \<Rightarrow> DgEvent list \<Rightarrow> DgNet \<Rightarrow> bool" for os t rules where
  dg_run_nil: "dg_run os t rules s [] s"
| dg_run_snoc: "dg_run os t rules s evs s' \<Longrightarrow> dg_step os t rules s' ev s'' \<Longrightarrow> dg_run os t rules s (evs @ [ev]) s''"

fun dg_sent_frame :: "u8 \<Rightarrow> DgEvent \<Rightarrow> RouterFrame list" where
  "dg_sent_frame p (DgSent q f) = (if q = p then [f] else [])"
| "dg_sent_frame p _ = []"

fun dg_received_frame :: "u8 \<Rightarrow> DgEvent \<Rightarrow> RouterFrame list" where
  "dg_received_frame p (DgReceived q f) = (if q = p then [f] else [])"
| "dg_received_frame p _ = []"

definition dg_sent_by :: "u8 \<Rightarrow> DgEvent list \<Rightarrow> RouterFrame list" where
  "dg_sent_by p evs = concat (map (dg_sent_frame p) evs)"

definition dg_received_by :: "u8 \<Rightarrow> DgEvent list \<Rightarrow> RouterFrame list" where
  "dg_received_by p evs = concat (map (dg_received_frame p) evs)"

lemma dg_trace_simps [simp]:
  "dg_sent_by p [] = []" "dg_sent_by p (evs @ [ev]) = dg_sent_by p evs @ dg_sent_frame p ev"
  "dg_received_by p [] = []" "dg_received_by p (evs @ [ev]) = dg_received_by p evs @ dg_received_frame p ev"
  by (simp_all add: dg_sent_by_def dg_received_by_def)

section \<open>Addresses\<close>

text \<open>What the loader promises, and distinct paths for the peers and the router.\<close>

definition uds_ok :: "RouterTopology \<Rightarrow> bool" where
  "uds_ok t \<longleftrightarrow> distinct (map peer_id (peers t))
     \<and> (\<forall>e\<in>set (peers t). peer_id e \<noteq> kEndpointInvalid \<and> addr_ok (local_addr e))
     \<and> addr_ok (router_listen t) \<and> kind (router_listen t) = UdsPath
     \<and> distinct (uds_path (router_listen t) # map peer_path (filter is_uds (peers t)))"

lemma c_str_no_nul: "c_str p = p \<Longrightarrow> NUL \<notin> set p"
  by (metis c_str_def set_takeWhileD)

lemma uds_addr_ok:
  assumes "addr_ok a" "kind a = UdsPath"
  shows "a = peer_uds (uds_path a)" "sun_path (uds_path a) = uds_path a" "NUL \<notin> set (uds_path a)"
    "length (uds_path a) \<le> 107" "uds_path a \<noteq> []"
proof -
  obtain p where a: "a = peer_uds p" using assms(2) by (cases a) simp_all
  have p: "p \<noteq> []" "length p \<le> 107" "c_str p = p" using assms(1) by (simp_all add: a kUdsPathMaxLen_def)
  show "a = peer_uds (uds_path a)" "length (uds_path a) \<le> 107" "uds_path a \<noteq> []" using p by (simp_all add: a)
  show "sun_path (uds_path a) = uds_path a" using p by (simp add: a sun_path_def)
  show "NUL \<notin> set (uds_path a)" using c_str_no_nul [OF p(3)] by (simp add: a)
qed

lemma uds_okD:
  assumes "uds_ok t"
  shows "e \<in> set (peers t) \<Longrightarrow> peer_id e \<noteq> kEndpointInvalid"
    "peer_by_id t p = Some e \<longleftrightarrow> e \<in> set (peers t) \<and> peer_id e = p"
    "e \<in> set (peers t) \<Longrightarrow> is_uds e \<Longrightarrow> peer_path e \<noteq> uds_path (router_listen t)"
    "e \<in> set (peers t) \<Longrightarrow> is_uds e \<Longrightarrow> local_addr e = peer_uds (peer_path e) \<and> sun_path (peer_path e) = peer_path e"
    "sun_path (uds_path (router_listen t)) = uds_path (router_listen t)"
    "router_listen t = peer_uds (uds_path (router_listen t))"
proof -
  have d: "distinct (map peer_id (peers t))" using assms by (simp add: uds_ok_def)
  show "e \<in> set (peers t) \<Longrightarrow> peer_id e \<noteq> kEndpointInvalid" using assms by (simp add: uds_ok_def)
  show "peer_by_id t p = Some e \<longleftrightarrow> e \<in> set (peers t) \<and> peer_id e = p" by (rule peer_tbl.lookup_eq_Some [OF d])
  have "uds_path (router_listen t) \<notin> peer_path ` {e \<in> set (peers t). is_uds e}"
    using assms by (simp add: uds_ok_def)
  then show "e \<in> set (peers t) \<Longrightarrow> is_uds e \<Longrightarrow> peer_path e \<noteq> uds_path (router_listen t)" by force
  show "e \<in> set (peers t) \<Longrightarrow> is_uds e \<Longrightarrow> local_addr e = peer_uds (peer_path e) \<and> sun_path (peer_path e) = peer_path e"
    using assms uds_addr_ok(1,2) [of "local_addr e"] by (simp add: uds_ok_def)
  show "sun_path (uds_path (router_listen t)) = uds_path (router_listen t)"
    "router_listen t = peer_uds (uds_path (router_listen t))"
    using assms uds_addr_ok(1,2) [of "router_listen t"] by (simp_all add: uds_ok_def)
qed

text \<open>The code attributes exactly: a peer's own address is its id, and a stray one nobody's.\<close>

lemma uds_paths_distinct:
  assumes "uds_ok t" "e \<in> set (peers t)" "e' \<in> set (peers t)" "is_uds e" "is_uds e'" "peer_path e = peer_path e'"
  shows "e = e'"
proof -
  have "distinct (map peer_path (filter is_uds (peers t)))" using assms(1) by (simp add: uds_ok_def)
  then have "inj_on peer_path (set (filter is_uds (peers t)))" by (simp only: distinct_map)
  then show ?thesis by (rule inj_onD) (use assms in simp_all)
qed

lemma attributed_ok:
  assumes "uds_ok t"
  shows "e \<in> set (peers t) \<Longrightarrow> is_uds e \<Longrightarrow> attributed t (Some (SockUn (peer_path e))) = peer_id e"
    "NUL \<notin> set path \<Longrightarrow> (\<forall>e\<in>set (peers t). is_uds e \<longrightarrow> peer_path e \<noteq> path) \<Longrightarrow>
      attributed t (if path = [] then None else Some (SockUn path)) = kEndpointInvalid"
proof -
  have clean: "NUL \<notin> set (peer_path e) \<and> length (peer_path e) \<le> 107" if "e \<in> set (peers t)" "is_uds e" for e
    using uds_addr_ok(3,4) [of "local_addr e"] assms that by (simp add: uds_ok_def)
  note at = uds_attribution [of t]
  have prem: "\<forall>e\<in>set (peers t). \<forall>e'\<in>set (peers t). is_uds e \<longrightarrow> is_uds e' \<longrightarrow> peer_path e = peer_path e' \<longrightarrow> peer_id e = peer_id e'"
    "\<forall>e\<in>set (peers t). is_uds e \<longrightarrow> NUL \<notin> set (peer_path e) \<and> length (peer_path e) \<le> 107"
    using uds_paths_distinct [OF assms] clean by blast+
  show "attributed t (Some (SockUn (peer_path e))) = peer_id e" if e: "e \<in> set (peers t)" "is_uds e"
  proof -
    have "peer_id_from_recv UdsT t (SockUn (sun_path (peer_path e))) = peer_id e" using at [OF prem] e by blast
    then show ?thesis using uds_okD(4) [OF assms e] by (simp add: attributed_def)
  qed
  show "attributed t (if path = [] then None else Some (SockUn path)) = kEndpointInvalid"
    if "NUL \<notin> set path" "\<forall>e\<in>set (peers t). is_uds e \<longrightarrow> peer_path e \<noteq> path"
  proof -
    have "peer_id_from_recv UdsT t (SockUn path) = kEndpointInvalid"
      using at [OF prem, of path] that by (simp add: c_str_id)
    then show ?thesis by (cases path) (simp_all add: attributed_def from_zero_def)
  qed
qed

section \<open>Sockets of the network\<close>

text \<open>The router and every client have their own socket, bound to their own address, and nobody else has one.\<close>

definition wired :: "RouterTopology \<Rightarrow> DgNet \<Rightarrow> bool" where
  "wired t s \<longleftrightarrow> dl_is_server (dn_link s) \<and> dl_topo (dn_link s) = t
     \<and> (\<exists>sk. socks (dn_kernel s) (fd_of (dn_link s)) = Some sk \<and> sk_bound sk = Some (router_addr t))
     \<and> (\<forall>p cl. dn_clients s p = Some cl \<longrightarrow> \<not> dl_is_server cl \<and> dl_topo cl = t \<and> fd_of cl \<noteq> fd_of (dn_link s)
          \<and> (\<exists>e sk. e \<in> set (peers t) \<and> peer_id e = p \<and> is_uds e \<and> socks (dn_kernel s) (fd_of cl) = Some sk
               \<and> sk_bound sk = Some (SockUn (peer_path e))))
     \<and> (\<forall>p q cl cl'. dn_clients s p = Some cl \<longrightarrow> dn_clients s q = Some cl' \<longrightarrow> fd_of cl = fd_of cl' \<longrightarrow> p = q)
     \<and> (\<forall>d sk. socks (dn_kernel s) d = Some sk \<longrightarrow> d < int (next_fd (dn_kernel s))
          \<and> (d = fd_of (dn_link s) \<or> (\<exists>p cl. dn_clients s p = Some cl \<and> d = fd_of cl)))"

lemma wired_link:
  assumes "wired t s"
  obtains sk where "dl_is_server (dn_link s)" "dl_topo (dn_link s) = t"
    "socks (dn_kernel s) (fd_of (dn_link s)) = Some sk" "sk_bound sk = Some (router_addr t)"
  using assms by (auto simp: wired_def)

lemma wired_client:
  assumes "wired t s" "dn_clients s p = Some cl"
  obtains e sk where "\<not> dl_is_server cl" "dl_topo cl = t" "fd_of cl \<noteq> fd_of (dn_link s)" "e \<in> set (peers t)" "peer_id e = p"
    "is_uds e" "socks (dn_kernel s) (fd_of cl) = Some sk" "sk_bound sk = Some (SockUn (peer_path e))"
proof -
  have "\<not> dl_is_server cl \<and> dl_topo cl = t \<and> fd_of cl \<noteq> fd_of (dn_link s)
      \<and> (\<exists>e sk. e \<in> set (peers t) \<and> peer_id e = p \<and> is_uds e \<and> socks (dn_kernel s) (fd_of cl) = Some sk
           \<and> sk_bound sk = Some (SockUn (peer_path e)))"
    using assms unfolding wired_def by blast
  then show thesis using that by blast
qed

text \<open>Who owns a socket.\<close>

lemma wired_owner:
  assumes "wired t s" "socks (dn_kernel s) d = Some sk"
  obtains (router) "d = fd_of (dn_link s)" | (client) p cl where "dn_clients s p = Some cl" "d = fd_of cl"
  using assms unfolding wired_def by blast

definition r_in :: "DgNet \<Rightarrow> recv_answer list" where
  "r_in s = sk_inbox (the (socks (dn_kernel s) (fd_of (dn_link s))))"

definition r_out :: "DgNet \<Rightarrow> (sockaddr \<times> bytes) list" where
  "r_out s = sk_outbox (the (socks (dn_kernel s) (fd_of (dn_link s))))"

definition c_in :: "DgNet \<Rightarrow> u8 \<Rightarrow> recv_answer list" where
  "c_in s p = (case dn_clients s p of None \<Rightarrow> [] | Some cl \<Rightarrow> sk_inbox (the (socks (dn_kernel s) (fd_of cl))))"

definition c_out :: "DgNet \<Rightarrow> u8 \<Rightarrow> (sockaddr \<times> bytes) list" where
  "c_out s p = (case dn_clients s p of None \<Rightarrow> [] | Some cl \<Rightarrow> sk_outbox (the (socks (dn_kernel s) (fd_of cl))))"

abbreviation same_link :: "DatagramRouterLink \<Rightarrow> DatagramRouterLink \<Rightarrow> bool" where
  "same_link l l' \<equiv> dl_topo l' = dl_topo l \<and> dl_is_server l' = dl_is_server l \<and> dl_endpoint l' = dl_endpoint l"

text \<open>An operation that changes the queues of one socket.\<close>

definition touches :: "int \<Rightarrow> Sock \<Rightarrow> DgNet \<Rightarrow> DgNet \<Rightarrow> bool" where
  "touches d sk s s' \<longleftrightarrow> same_link (dn_link s) (dn_link s') \<and> dn_clients s' = dn_clients s
     \<and> socks (dn_kernel s') = (socks (dn_kernel s))(d \<mapsto> sk) \<and> next_fd (dn_kernel s') = next_fd (dn_kernel s)
     \<and> (\<exists>sk0. socks (dn_kernel s) d = Some sk0 \<and> sk_bound sk = sk_bound sk0)"

lemma touches_wired:
  assumes "wired t s" "touches d sk s s'"
  shows "wired t s'"
proof -
  note a = assms(2) [unfolded touches_def]
  obtain sk0 where sk0: "socks (dn_kernel s) d = Some sk0" "sk_bound sk = sk_bound sk0" using a by blast
  have sock: "\<exists>sk'. socks (dn_kernel s') x = Some sk' \<and> sk_bound sk' = b"
    if "\<exists>sk'. socks (dn_kernel s) x = Some sk' \<and> sk_bound sk' = b" for x b
    using a that sk0 by auto
  have dom: "\<exists>sk'. socks (dn_kernel s) x = Some sk'" if "socks (dn_kernel s') x = Some y" for x y
    using a that sk0 by (auto split: if_splits)
  show ?thesis
    unfolding wired_def
  proof (intro conjI allI impI)
    show "dl_is_server (dn_link s')" "dl_topo (dn_link s') = t" using a assms(1) by (simp_all add: wired_def)
    show "\<exists>sk. socks (dn_kernel s') (fd_of (dn_link s')) = Some sk \<and> sk_bound sk = Some (router_addr t)"
      using sock a assms(1) by (simp add: wired_def)
  next
    fix p cl assume "dn_clients s' p = Some cl"
    then have cl: "dn_clients s p = Some cl" using a by simp
    from assms(1) cl obtain e sk' where c: "\<not> dl_is_server cl" "dl_topo cl = t" "fd_of cl \<noteq> fd_of (dn_link s)"
      "e \<in> set (peers t)" "peer_id e = p" "is_uds e" "socks (dn_kernel s) (fd_of cl) = Some sk'"
      "sk_bound sk' = Some (SockUn (peer_path e))" by (rule wired_client)
    show "\<not> dl_is_server cl" "dl_topo cl = t" by (fact c(1,2))+
    show "fd_of cl \<noteq> fd_of (dn_link s')" using c(3) a by simp
    show "\<exists>e sk. e \<in> set (peers t) \<and> peer_id e = p \<and> is_uds e \<and> socks (dn_kernel s') (fd_of cl) = Some sk
        \<and> sk_bound sk = Some (SockUn (peer_path e))"
      using c(4-8) sock by blast
  next
    fix p q cl cl' assume "dn_clients s' p = Some cl" "dn_clients s' q = Some cl'" "fd_of cl = fd_of cl'"
    then show "p = q" using a assms(1) unfolding wired_def by metis
  next
    fix x sk' assume "socks (dn_kernel s') x = Some sk'"
    then obtain y where "socks (dn_kernel s) x = Some y" using dom by blast
    then show "x < int (next_fd (dn_kernel s'))" "x = fd_of (dn_link s') \<or> (\<exists>p cl. dn_clients s' p = Some cl \<and> x = fd_of cl)"
      using a assms(1) unfolding wired_def by (simp, metis)
  qed
qed

lemma touches_router:
  assumes "wired t s" "touches (fd_of (dn_link s)) sk s s'"
  shows "r_in s' = sk_inbox sk" "r_out s' = sk_outbox sk" "c_in s' = c_in s" "c_out s' = c_out s"
proof -
  note a = assms(2) [unfolded touches_def]
  have "fd_of cl \<noteq> fd_of (dn_link s)" if "dn_clients s p = Some cl" for p cl
    using wired_client [OF assms(1) that] by metis
  then show "c_in s' = c_in s" "c_out s' = c_out s"
    using a by (auto simp: c_in_def c_out_def fun_eq_iff split: option.split)
qed (use assms(2) in \<open>auto simp: touches_def r_in_def r_out_def\<close>)

lemma touches_client:
  assumes "wired t s" "dn_clients s p = Some cl" "touches (fd_of cl) sk s s'"
  shows "r_in s' = r_in s" "r_out s' = r_out s" "c_in s' = (c_in s)(p := sk_inbox sk)" "c_out s' = (c_out s)(p := sk_outbox sk)"
proof -
  note a = assms(3) [unfolded touches_def]
  have "fd_of cl \<noteq> fd_of (dn_link s)" using wired_client [OF assms(1,2)] by metis
  then show "r_in s' = r_in s" "r_out s' = r_out s" using a by (simp_all add: r_in_def r_out_def)
  have "fd_of cl' \<noteq> fd_of cl" if "dn_clients s q = Some cl'" "q \<noteq> p" for q cl'
    using assms(1,2) that unfolding wired_def by blast
  then show "c_in s' = (c_in s)(p := sk_inbox sk)" "c_out s' = (c_out s)(p := sk_outbox sk)"
    using a assms(2) by (auto simp: c_in_def c_out_def fun_eq_iff split: option.split)
qed

section \<open>The account\<close>

fun ans_frame :: "recv_answer \<Rightarrow> RouterFrame" where
  "ans_frame (Arrived from x) = \<lparr>bytes = x\<rparr>"
| "ans_frame (Failure e) = \<lparr>bytes = []\<rparr>"

fun ans_source :: "RouterTopology \<Rightarrow> recv_answer \<Rightarrow> u8" where
  "ans_source t (Arrived from x) = attributed t from"
| "ans_source t (Failure e) = kEndpointInvalid"

abbreviation packet_frame :: "sockaddr \<times> bytes \<Rightarrow> RouterFrame" where
  "packet_frame y \<equiv> \<lparr>bytes = snd y\<rparr>"

definition from_peer :: "RouterTopology \<Rightarrow> u8 \<Rightarrow> recv_answer list \<Rightarrow> RouterFrame list" where
  "from_peer t p ri = map ans_frame (filter (\<lambda>a. ans_source t a = p) ri)"

definition to_path :: "string \<Rightarrow> (sockaddr \<times> bytes) list \<Rightarrow> RouterFrame list" where
  "to_path path ro = map packet_frame (filter (\<lambda>y. fst y = SockUn path) ro)"

text \<open>
  Every frame that a peer has sent is on its way to the router or has been taken; what is on its way to a
  peer or has been received there was taken, and the rules list the peer for it.
\<close>

definition sender_account :: "RouterTopology \<Rightarrow> DgEvent list \<Rightarrow> (u8 \<times> RouterFrame) list \<Rightarrow>
    (u8 \<Rightarrow> (sockaddr \<times> bytes) list) \<Rightarrow> recv_answer list \<Rightarrow> bool" where
  "sender_account t evs tk co ri \<longleftrightarrow> (\<forall>p. p \<noteq> kEndpointInvalid \<longrightarrow>
     mset (map packet_frame (co p)) + mset (from_peer t p ri) + mset (map snd (filter (\<lambda>e. fst e = p) tk))
       = mset (dg_sent_by p evs))"

definition receiver_account :: "RouterTopology \<Rightarrow> RouteRule list \<Rightarrow> DgEvent list \<Rightarrow> (u8 \<times> RouterFrame) list \<Rightarrow>
    (u8 \<Rightarrow> recv_answer list) \<Rightarrow> (sockaddr \<times> bytes) list \<Rightarrow> bool" where
  "receiver_account t rules evs tk ci ro \<longleftrightarrow> (\<forall>e\<in>set (peers t). is_uds e \<longrightarrow>
     mset (map origin (to_path (peer_path e) ro)) + mset (map (origin \<circ> ans_frame) (ci (peer_id e)))
         + mset (map origin (dg_received_by (peer_id e) evs))
       \<subseteq># mset (map (map_prod id unstamped) (filter (wanted rules (peer_id e)) tk)))"

definition queues_ok :: "RouterTopology \<Rightarrow> (u8 \<Rightarrow> (sockaddr \<times> bytes) list) \<Rightarrow> (u8 \<Rightarrow> recv_answer list) \<Rightarrow>
    recv_answer list \<Rightarrow> (sockaddr \<times> bytes) list \<Rightarrow> bool" where
  "queues_ok t co ci ri ro \<longleftrightarrow>
     (\<forall>p. \<forall>y\<in>set (co p). fst y = router_addr t \<and> length (snd y) = kRouterFrameSize)
     \<and> (\<forall>p. \<forall>a\<in>set (ci p). \<exists>x. a = Arrived (Some (router_addr t)) x \<and> length x = kRouterFrameSize)
     \<and> (\<forall>a\<in>set ri. \<exists>from x. a = Arrived from x \<and> (attributed t from \<noteq> kEndpointInvalid \<longrightarrow> length x = kRouterFrameSize))
     \<and> (\<forall>y\<in>set ro. fst y \<noteq> router_addr t \<and> length (snd y) = kRouterFrameSize)"

definition dg_accounted :: "RouterTopology \<Rightarrow> RouteRule list \<Rightarrow> DgEvent list \<Rightarrow> (u8 \<times> RouterFrame) list \<Rightarrow> DgNet \<Rightarrow> bool" where
  "dg_accounted t rules evs tk s \<longleftrightarrow> queues_ok t (c_out s) (c_in s) (r_in s) (r_out s)
     \<and> sender_account t evs tk (c_out s) (r_in s) \<and> receiver_account t rules evs tk (c_in s) (r_out s)"

lemma from_peer_simps [simp]:
  "from_peer t p [] = []" "from_peer t p (a # ri) = (if ans_source t a = p then ans_frame a # from_peer t p ri else from_peer t p ri)"
  "from_peer t p (ri @ ri') = from_peer t p ri @ from_peer t p ri'"
  by (simp_all add: from_peer_def)

lemma to_path_simps [simp]:
  "to_path q [] = []" "to_path q (y # ro) = (if fst y = SockUn q then packet_frame y # to_path q ro else to_path q ro)"
  "to_path q (ro @ ro') = to_path q ro @ to_path q ro'"
  by (simp_all add: to_path_def)

lemma dg_accounted_quiet:
  assumes "dg_accounted t rules evs tk s" "\<And>p. dg_sent_frame p ev = []" "\<And>p. dg_received_frame p ev = []"
    "c_out s' = c_out s" "c_in s' = c_in s" "r_in s' = r_in s" "r_out s' = r_out s"
  shows "dg_accounted t rules (evs @ [ev]) tk s'"
  using assms by (simp add: dg_accounted_def sender_account_def receiver_account_def)

lemma account_sent:
  assumes "dg_accounted t rules evs tk s" "wf_frame f"
    "c_out s' = (c_out s)(p := c_out s p @ [(router_addr t, bytes f)])" "c_in s' = c_in s" "r_in s' = r_in s" "r_out s' = r_out s"
  shows "dg_accounted t rules (evs @ [DgSent p f]) tk s'"
proof -
  have "\<lparr>bytes = bytes f\<rparr> = f" by (cases f) simp
  then show ?thesis
    using assms by (auto simp: dg_accounted_def sender_account_def receiver_account_def queues_ok_def wf_frame_def)
qed

lemma queues_ok_less:
  assumes "queues_ok t co ci ri ro" "\<And>p. set (co' p) \<subseteq> set (co p)" "\<And>p. set (ci' p) \<subseteq> set (ci p)"
    "set ri' \<subseteq> set ri" "set ro' \<subseteq> set ro"
  shows "queues_ok t co' ci' ri' ro'"
  unfolding queues_ok_def
proof (intro conjI allI ballI)
  note q = assms(1) [unfolded queues_ok_def]
  fix p y
  show "fst y = router_addr t" "length (snd y) = kRouterFrameSize" if "y \<in> set (co' p)"
    using q subsetD [OF assms(2) that] by simp_all
  show "\<exists>x. a = Arrived (Some (router_addr t)) x \<and> length x = kRouterFrameSize" if "a \<in> set (ci' p)" for a
    using q subsetD [OF assms(3) that] by blast
  show "\<exists>from x. a = Arrived from x \<and> (attributed t from \<noteq> kEndpointInvalid \<longrightarrow> length x = kRouterFrameSize)"
    if "a \<in> set ri'" for a using q subsetD [OF assms(4) that] by blast
  show "fst y \<noteq> router_addr t" "length (snd y) = kRouterFrameSize" if "y \<in> set ro'"
    using q subsetD [OF assms(5) that] by simp_all
qed

lemma account_received:
  assumes "dg_accounted t rules evs tk s" "c_in s p = Arrived from x # rest"
    "c_in s' = (c_in s)(p := rest)" "c_out s' = c_out s" "r_in s' = r_in s" "r_out s' = r_out s"
  shows "dg_accounted t rules (evs @ [DgReceived p \<lparr>bytes = x\<rparr>]) tk s'"
proof -
  have "queues_ok t (c_out s') (c_in s') (r_in s') (r_out s')"
    by (rule queues_ok_less [where co = "c_out s" and ci = "c_in s" and ri = "r_in s" and ro = "r_out s"])
      (use assms in \<open>auto simp: dg_accounted_def\<close>)
  moreover have "receiver_account t rules (evs @ [DgReceived p \<lparr>bytes = x\<rparr>]) tk (c_in s') (r_out s')"
    unfolding receiver_account_def
  proof (intro ballI impI)
    fix e assume "e \<in> set (peers t)" "is_uds e"
    with assms(1) have "mset (map origin (to_path (peer_path e) (r_out s))) + mset (map (origin \<circ> ans_frame) (c_in s (peer_id e)))
         + mset (map origin (dg_received_by (peer_id e) evs))
       \<subseteq># mset (map (map_prod id unstamped) (filter (wanted rules (peer_id e)) tk))"
      unfolding dg_accounted_def receiver_account_def by blast
    then show "mset (map origin (to_path (peer_path e) (r_out s'))) + mset (map (origin \<circ> ans_frame) (c_in s' (peer_id e)))
         + mset (map origin (dg_received_by (peer_id e) (evs @ [DgReceived p \<lparr>bytes = x\<rparr>])))
       \<subseteq># mset (map (map_prod id unstamped) (filter (wanted rules (peer_id e)) tk))"
      using assms(2,3,6) by (cases "peer_id e = p") (simp_all add: ac_simps)
  qed
  ultimately show ?thesis
    using assms by (simp add: dg_accounted_def sender_account_def)
qed

text \<open>A delivery to the router, of a client or of a stranger.\<close>

lemma account_up:
  assumes "dg_accounted t rules evs tk s" "c_out s p = us @ (a, x) # vs" "attributed t from = p" "p \<noteq> kEndpointInvalid"
    "c_out s' = (c_out s)(p := us @ vs)" "r_in s' = r_in s @ [Arrived from x]" "c_in s' = c_in s" "r_out s' = r_out s"
  shows "dg_accounted t rules (evs @ [DgCarried a x]) tk s'"
proof -
  have q: "queues_ok t (c_out s) (c_in s) (r_in s) (r_out s)" using assms(1) by (simp add: dg_accounted_def)
  have "(a, x) \<in> set (c_out s p)" using assms(2) by simp
  then have len: "length x = kRouterFrameSize" using q unfolding queues_ok_def by fastforce
  have "queues_ok t (c_out s') (c_in s') (r_in s) (r_out s')"
    by (rule queues_ok_less [OF q]) (use assms in auto)
  then have "queues_ok t (c_out s') (c_in s') (r_in s') (r_out s')" using len by (simp add: queues_ok_def assms(6))
  moreover have "sender_account t (evs @ [DgCarried a x]) tk (c_out s') (r_in s')"
    unfolding sender_account_def
  proof (intro allI impI)
    fix q :: u8 assume "q \<noteq> kEndpointInvalid"
    with assms(1) have "mset (map packet_frame (c_out s q)) + mset (from_peer t q (r_in s))
        + mset (map snd (filter (\<lambda>e. fst e = q) tk)) = mset (dg_sent_by q evs)"
      unfolding dg_accounted_def sender_account_def by blast
    then show "mset (map packet_frame (c_out s' q)) + mset (from_peer t q (r_in s'))
        + mset (map snd (filter (\<lambda>e. fst e = q) tk)) = mset (dg_sent_by q (evs @ [DgCarried a x]))"
      using assms(2,3,5,6) by (cases "q = p") (simp_all add: ac_simps)
  qed
  ultimately show ?thesis
    using assms by (simp add: dg_accounted_def receiver_account_def)
qed

lemma account_stray:
  assumes "dg_accounted t rules evs tk s" "attributed t from = kEndpointInvalid"
    "r_in s' = r_in s @ [Arrived from x]" "c_out s' = c_out s" "c_in s' = c_in s" "r_out s' = r_out s"
  shows "dg_accounted t rules (evs @ [DgStray from x]) tk s'"
  using assms by (auto simp: dg_accounted_def sender_account_def receiver_account_def queues_ok_def)

text \<open>A delivery to a client.\<close>

lemma account_down:
  assumes "uds_ok t" "dg_accounted t rules evs tk s" "r_out s = us @ (SockUn (peer_path e), x) # vs"
    "e \<in> set (peers t)" "is_uds e"
    "r_out s' = us @ vs" "c_in s' = (c_in s)(peer_id e := c_in s (peer_id e) @ [Arrived (Some (router_addr t)) x])"
    "c_out s' = c_out s" "r_in s' = r_in s"
  shows "dg_accounted t rules (evs @ [DgCarried a x]) tk s'"
proof -
  have q: "queues_ok t (c_out s) (c_in s) (r_in s) (r_out s)" using assms(2) by (simp add: dg_accounted_def)
  have "(SockUn (peer_path e), x) \<in> set (r_out s)" using assms(3) by simp
  then have len: "length x = kRouterFrameSize" using q unfolding queues_ok_def by fastforce
  have "queues_ok t (c_out s') (c_in s) (r_in s') (r_out s')"
    by (rule queues_ok_less [OF q]) (use assms in auto)
  then have "queues_ok t (c_out s') (c_in s') (r_in s') (r_out s')" using len by (simp add: queues_ok_def assms(7))
  moreover have "receiver_account t rules (evs @ [DgCarried a x]) tk (c_in s') (r_out s')"
    unfolding receiver_account_def
  proof (intro ballI impI)
    fix d assume d: "d \<in> set (peers t)" "is_uds d"
    with assms(2) have "mset (map origin (to_path (peer_path d) (r_out s))) + mset (map (origin \<circ> ans_frame) (c_in s (peer_id d)))
         + mset (map origin (dg_received_by (peer_id d) evs))
       \<subseteq># mset (map (map_prod id unstamped) (filter (wanted rules (peer_id d)) tk))"
      unfolding dg_accounted_def receiver_account_def by blast
    moreover have "peer_path d = peer_path e \<longleftrightarrow> d = e" using uds_paths_distinct [OF assms(1) d(1) assms(4) d(2) assms(5)] by blast
    moreover have "peer_id d = peer_id e \<longleftrightarrow> d = e"
      using uds_okD(2) [OF assms(1)] d(1) assms(4) by (metis option.inject)
    ultimately show "mset (map origin (to_path (peer_path d) (r_out s'))) + mset (map (origin \<circ> ans_frame) (c_in s' (peer_id d)))
         + mset (map origin (dg_received_by (peer_id d) (evs @ [DgCarried a x])))
       \<subseteq># mset (map (map_prod id unstamped) (filter (wanted rules (peer_id d)) tk))"
      using assms(3,6,7) by (cases "d = e") (simp_all add: ac_simps)
  qed
  ultimately show ?thesis using assms by (simp add: dg_accounted_def sender_account_def)
qed

text \<open>The router discards a datagram that it cannot attribute.\<close>

lemma account_dropped:
  assumes "dg_accounted t rules evs tk s" "r_in s = Arrived from x # rest" "attributed t from = kEndpointInvalid"
    "r_in s' = rest" "c_out s' = c_out s" "c_in s' = c_in s" "r_out s' = r_out s"
  shows "dg_accounted t rules (evs @ [DgForwarded r]) tk s'"
proof -
  have "queues_ok t (c_out s') (c_in s') (r_in s') (r_out s')"
    by (rule queues_ok_less [where co = "c_out s" and ci = "c_in s" and ri = "r_in s" and ro = "r_out s"])
      (use assms in \<open>auto simp: dg_accounted_def\<close>)
  then show ?thesis using assms by (simp add: dg_accounted_def sender_account_def receiver_account_def)
qed

text \<open>The router takes a frame: it goes into the history, and a copy to each peer that the rules list.\<close>

lemma copy_for_cases:
  assumes "uds_ok t" "e \<in> set (peers t)" "is_uds e"
  shows "to_path (peer_path e) (copy_for t x d) = (if d = peer_id e then [\<lparr>bytes = x\<rparr>] else [])"
proof (cases "peer_by_id t d")
  case None
  have "d \<noteq> peer_id e" using None uds_okD(2) [OF assms(1), of d e] assms(2) by auto
  then show ?thesis using None by (simp add: copy_for_def)
next
  case (Some e')
  then have e': "e' \<in> set (peers t)" "peer_id e' = d" using uds_okD(2) [OF assms(1)] by simp_all
  have same: "d = peer_id e \<longleftrightarrow> e' = e" using Some uds_okD(2) [OF assms(1), of d e] assms(2) e'(2) by auto
  show ?thesis
  proof (cases "is_uds e'")
    case True
    note a = uds_okD(4) [OF assms(1) e'(1) True]
    then have "dest_addr (local_addr e') = Some (SockUn (peer_path e'))" by (metis dest_addr.simps(1))
    moreover have "peer_path e' = peer_path e \<longleftrightarrow> e' = e"
      using uds_paths_distinct [OF assms(1) e'(1) assms(2) True assms(3)] by blast
    ultimately show ?thesis by (simp add: copy_for_def Some same)
  next
    case False
    then have "\<forall>q. dest_addr (local_addr e') \<noteq> Some (SockUn q)" "e' \<noteq> e" using assms(3) by (cases "local_addr e'"; auto)+
    then show ?thesis by (auto simp: copy_for_def Some same split: option.split)
  qed
qed

lemma copies_to_path:
  assumes "uds_ok t" "e \<in> set (peers t)" "is_uds e" "distinct ds"
  shows "to_path (peer_path e) (copies t x ds) = (if peer_id e \<in> set ds then [\<lparr>bytes = x\<rparr>] else [])"
  using assms(4) by (induction ds) (auto simp: copies_def copy_for_cases [OF assms(1-3)])

lemma copies_ok:
  assumes "uds_ok t" "y \<in> set (copies t x ds)"
  shows "fst y \<noteq> router_addr t" "snd y = x"
proof -
  obtain d where d: "y \<in> set (copy_for t x d)" using assms(2) by (auto simp: copies_def)
  obtain e where e1: "peer_by_id t d = Some e" using d by (cases "peer_by_id t d") (simp_all add: copy_for_def)
  obtain a where e2: "dest_addr (local_addr e) = Some a" using d e1 by (cases "dest_addr (local_addr e)") (simp_all add: copy_for_def)
  have e: "peer_by_id t d = Some e" "dest_addr (local_addr e) = Some a" "y = (a, x)"
    using d e1 e2 by (simp_all add: copy_for_def)
  have e_in: "e \<in> set (peers t)" using e(1) uds_okD(2) [OF assms(1)] by simp
  show "snd y = x" by (simp add: e(3))
  show "fst y \<noteq> router_addr t"
  proof (cases "is_uds e")
    case True
    then have "a = SockUn (peer_path e)" using uds_okD(4) [OF assms(1) e_in True] e(2) by (metis dest_addr.simps(1) option.inject)
    then show ?thesis using uds_okD(3) [OF assms(1) e_in True] by (simp add: e(3))
  next
    case False
    then show ?thesis using e(2) by (cases "local_addr e") (auto simp: e(3))
  qed
qed

lemma subset_mset_step:
  assumes "M \<subseteq># N" "b \<longrightarrow> c"
  shows "(if b then {#z#} else {#}) + M \<subseteq># N + (if c then {#z#} else {#})"
  using assms by (auto simp: add_mset_commute intro: subset_mset.order_trans [OF assms(1)])

lemma account_taken:
  assumes "uds_ok t" "dg_accounted t rules evs tk s" "r_in s = Arrived from x # rest" "attributed t from = p" "p \<noteq> kEndpointInvalid"
    "g = set_timestamp_ns ts (set_source p \<lparr>bytes = x\<rparr>)"
    "set good \<subseteq> set (route_spec rules p (topic_id g))" "distinct good"
    "r_in s' = rest" "r_out s' = r_out s @ copies t (bytes g) good" "c_out s' = c_out s" "c_in s' = c_in s"
  shows "dg_accounted t rules (evs @ [DgForwarded r]) (tk @ [(p, \<lparr>bytes = x\<rparr>)]) s'"
proof -
  have q: "queues_ok t (c_out s) (c_in s) (r_in s) (r_out s)" using assms(2) by (simp add: dg_accounted_def)
  have "length x = kRouterFrameSize" using q assms(3-5) by (auto simp: queues_ok_def)
  then have wf: "wf_frame \<lparr>bytes = x\<rparr>" by (simp add: wf_frame_def)
  then have wg: "wf_frame g" by (simp add: assms(6))
  have org: "origin g = (p, unstamped \<lparr>bytes = x\<rparr>)" unfolding assms(6) by (rule origin_stamp [OF wf])
  have top: "topic_id g = topic_id \<lparr>bytes = x\<rparr>" using wf by (simp add: assms(6))
  have "queues_ok t (c_out s') (c_in s') (r_in s') (r_out s)"
    by (rule queues_ok_less [OF q]) (use assms(3,9,11,12) in auto)
  moreover have "fst y \<noteq> router_addr t \<and> length (snd y) = kRouterFrameSize" if "y \<in> set (copies t (bytes g) good)" for y
    using copies_ok [OF assms(1) that] wg by (simp add: wf_frame_def)
  ultimately have "queues_ok t (c_out s') (c_in s') (r_in s') (r_out s')"
    unfolding queues_ok_def assms(10) set_append by blast
  moreover have "sender_account t (evs @ [DgForwarded r]) (tk @ [(p, \<lparr>bytes = x\<rparr>)]) (c_out s') (r_in s')"
    unfolding sender_account_def
  proof (intro allI impI)
    fix q :: u8 assume "q \<noteq> kEndpointInvalid"
    with assms(2) have "mset (map packet_frame (c_out s q)) + mset (from_peer t q (r_in s))
        + mset (map snd (filter (\<lambda>e. fst e = q) tk)) = mset (dg_sent_by q evs)"
      unfolding dg_accounted_def sender_account_def by blast
    then show "mset (map packet_frame (c_out s' q)) + mset (from_peer t q (r_in s'))
        + mset (map snd (filter (\<lambda>e. fst e = q) (tk @ [(p, \<lparr>bytes = x\<rparr>)]))) = mset (dg_sent_by q (evs @ [DgForwarded r]))"
      using assms(3,4,9,11) by (cases "q = p") simp_all
  qed
  moreover have "receiver_account t rules (evs @ [DgForwarded r]) (tk @ [(p, \<lparr>bytes = x\<rparr>)]) (c_in s') (r_out s')"
    unfolding receiver_account_def
  proof (intro ballI impI)
    fix e assume e: "e \<in> set (peers t)" "is_uds e"
    let ?M = "mset (map origin (to_path (peer_path e) (r_out s))) + mset (map (origin \<circ> ans_frame) (c_in s (peer_id e)))
         + mset (map origin (dg_received_by (peer_id e) evs))"
    let ?N = "mset (map (map_prod id unstamped) (filter (wanted rules (peer_id e)) tk))" and ?z = "(p, unstamped \<lparr>bytes = x\<rparr>)"
    have "?M \<subseteq># ?N" using assms(2) e unfolding dg_accounted_def receiver_account_def by blast
    moreover have "peer_id e \<in> set good \<longrightarrow> wanted rules (peer_id e) (p, \<lparr>bytes = x\<rparr>)"
      using assms(7) top by (auto simp: wanted_def)
    ultimately have "(if peer_id e \<in> set good then {#?z#} else {#}) + ?M
        \<subseteq># ?N + (if wanted rules (peer_id e) (p, \<lparr>bytes = x\<rparr>) then {#?z#} else {#})" by (rule subset_mset_step)
    moreover have gg: "\<lparr>bytes = bytes g\<rparr> = g" by (cases g) simp
    have "origin \<lparr>bytes = bytes g\<rparr> = ?z" by (simp only: gg org)
    ultimately show "mset (map origin (to_path (peer_path e) (r_out s'))) + mset (map (origin \<circ> ans_frame) (c_in s' (peer_id e)))
         + mset (map origin (dg_received_by (peer_id e) (evs @ [DgForwarded r])))
       \<subseteq># mset (map (map_prod id unstamped) (filter (wanted rules (peer_id e)) (tk @ [(p, \<lparr>bytes = x\<rparr>)])))"
      by (cases "peer_id e \<in> set good"; cases "wanted rules (peer_id e) (p, \<lparr>bytes = x\<rparr>)")
        (simp_all add: assms(10,12) copies_to_path [OF assms(1) e assms(8)] ac_simps)
  qed
  ultimately show ?thesis by (simp add: dg_accounted_def)
qed

section \<open>What the operations do to the sockets\<close>

lemma client_made:
  assumes "uds_ok t" "socks k (int (next_fd k)) = None" "make_datagram_router_client UdsT os t p k = (r, k')"
  obtains (failed) e where "r = Inl e" "socks k' = socks k" "next_fd k \<le> next_fd k'"
    | (made) cl e where "r = Inr cl" "e \<in> set (peers t)" "peer_id e = p" "is_uds e" "\<not> dl_is_server cl" "dl_topo cl = t"
        "fd_of cl = int (next_fd k)" "next_fd k' = Suc (next_fd k)"
        "socks k' = (socks k)(int (next_fd k) \<mapsto> Sock_new\<lparr>sk_bound := Some (SockUn (peer_path e))\<rparr>)"
proof -
  let ?d = "int (next_fd k)"
  note defs = make_datagram_router_client_def DatagramRouterClient_new_def dg_client_def dg_new_def dg_open_def Uds_open_def
    Socket_open_def dg_bind_peer_def Socket_close_def sys_close_def
  have undone: "(socks k)(?d := None) = socks k" using assms(2) by (simp add: fun_upd_idem)
  show thesis
  proof (cases "socket_ok os")
    case False
    then show thesis using assms(3) failed by (auto simp: defs)
  next
    case sock: True
    let ?k = "(put_sock ?d Sock_new k)\<lparr>next_fd := Suc (next_fd k)\<rparr>"
    show thesis
    proof (cases "peer_by_id t p")
      case None
      then show thesis using assms(3) failed sock undone by (auto simp: defs)
    next
      case (Some e)
      then have e: "e \<in> set (peers t)" "peer_id e = p" using uds_okD(2) [OF assms(1)] by simp_all
      show thesis
      proof (cases "is_uds e")
        case False
        then show thesis using assms(3) failed sock undone Some by (auto simp: defs bind_datagram_endpoint_def)
      next
        case True
        have sp: "sun_path (peer_path e) = peer_path e" using uds_okD(4) [OF assms(1) e(1) True] by blast
        obtain b k2 where b: "Uds_bind os \<lparr>fd = ?d\<rparr> (peer_path e) ?k = (b, k2)" by fastforce
        have "(\<exists>m. b = Inl m) \<and> socks k2 = socks ?k \<and> next_fd k2 = next_fd ?k \<or>
            b = Inr () \<and> next_fd k2 = next_fd ?k \<and> socks k2 = (socks k)(?d \<mapsto> Sock_new\<lparr>sk_bound := Some (SockUn (peer_path e))\<rparr>)"
          using b by (auto simp: Uds_bind_def datagram_set_reuseaddr_def sys_bind_def sp sys_unlink_def put_sock_def Sock_new_def split: if_splits prod.splits)
        then show thesis
        proof (elim disjE conjE exE)
          fix m assume "b = Inl m" "socks k2 = socks ?k" "next_fd k2 = next_fd ?k"
          then show thesis using assms(3) failed sock undone Some True b by (auto simp: defs bind_datagram_endpoint_def ep_dg_bind_def)
        next
          assume "b = Inr ()" "next_fd k2 = next_fd ?k" "socks k2 = (socks k)(?d \<mapsto> Sock_new\<lparr>sk_bound := Some (SockUn (peer_path e))\<rparr>)"
          then show thesis
            using assms(3) made [OF _ e True] sock Some True b by (auto simp: defs bind_datagram_endpoint_def ep_dg_bind_def)
        qed
      qed
    qed
  qed
qed

lemma wired_fresh: "wired t s \<Longrightarrow> socks (dn_kernel s) (int (next_fd (dn_kernel s))) = None"
  unfolding wired_def by (metis less_irrefl not_Some_eq)

text \<open>A client that comes up has empty queues, and a failed attempt leaves no socket.\<close>

lemma join_keeps:
  assumes "uds_ok t" "wired t s" "dn_clients s p = None" "make_datagram_router_client UdsT os t p (dn_kernel s) = (r, k')"
    "s' = s\<lparr>dn_clients := (case r of Inl e \<Rightarrow> dn_clients s | Inr cl \<Rightarrow> (dn_clients s)(p \<mapsto> cl)), dn_kernel := k'\<rparr>"
  shows "wired t s'" "r_in s' = r_in s" "r_out s' = r_out s" "c_in s' = c_in s" "c_out s' = c_out s"
proof -
  have "wired t s' \<and> r_in s' = r_in s \<and> r_out s' = r_out s \<and> c_in s' = c_in s \<and> c_out s' = c_out s"
    using assms(1) wired_fresh [OF assms(2)] assms(4)
  proof (cases rule: client_made)
    case (failed e)
    have "wired t s'"
      using assms(2,5) failed unfolding wired_def by (simp; meson less_le_trans of_nat_le_iff)
    moreover have "c_in s' = c_in s" "c_out s' = c_out s" by (intro ext; simp add: c_in_def c_out_def assms(5) failed split: option.split)+
    ultimately show ?thesis using assms(5) failed by (simp add: r_in_def r_out_def)
  next
    case (made cl e)
    let ?d = "int (next_fd (dn_kernel s))"
    have below: "d < ?d" if "socks (dn_kernel s) d = Some sk" for d sk
      using assms(2) that unfolding wired_def by blast
    have old: "fd_of (dn_link s) < ?d" by (rule wired_link [OF assms(2)]) (rule below)
    have cls: "fd_of c < ?d" if "dn_clients s q = Some c" for q c
      by (rule wired_client [OF assms(2) that]) (rule below)
    have s': "dn_clients s' = (dn_clients s)(p \<mapsto> cl)" "dn_kernel s' = k'" "dn_link s' = dn_link s" using assms(5) made by simp_all
    have "wired t s'"
      unfolding wired_def s'
    proof (intro conjI allI impI)
      show "dl_is_server (dn_link s)" "dl_topo (dn_link s) = t" using assms(2) by (simp_all add: wired_def)
      show "\<exists>sk. socks k' (fd_of (dn_link s)) = Some sk \<and> sk_bound sk = Some (router_addr t)"
        using assms(2) old by (auto simp: wired_def made)
    next
      fix q c assume q: "((dn_clients s)(p \<mapsto> cl)) q = Some c"
      show "\<not> dl_is_server c" "dl_topo c = t" "fd_of c \<noteq> fd_of (dn_link s)"
        using q made old wired_client [OF assms(2)] by (auto split: if_splits; metis less_irrefl)+
      show "\<exists>e sk. e \<in> set (peers t) \<and> peer_id e = q \<and> is_uds e \<and> socks k' (fd_of c) = Some sk
          \<and> sk_bound sk = Some (SockUn (peer_path e))"
      proof (cases "q = p")
        case True
        then show ?thesis using q made by auto
      next
        case False
        then have "dn_clients s q = Some c" using q by simp
        note w = wired_client [OF assms(2) this] and lt = cls [OF this]
        show ?thesis by (rule w) (use lt in \<open>auto simp: made\<close>)
      qed
    next
      fix q q' c c'
      assume qq: "((dn_clients s)(p \<mapsto> cl)) q = Some c" "((dn_clients s)(p \<mapsto> cl)) q' = Some c'" "fd_of c = fd_of c'"
      have fd: "if x = p then fd_of y = ?d else dn_clients s x = Some y \<and> fd_of y < ?d"
        if "((dn_clients s)(p \<mapsto> cl)) x = Some y" for x y
        using that cls made(7) by (cases "x = p") simp_all
      show "q = q'"
      proof (cases "q = p \<or> q' = p")
        case True
        then show ?thesis using fd [OF qq(1)] fd [OF qq(2)] qq(3) by (simp split: if_splits)
      next
        case False
        then have "dn_clients s q = Some c" "dn_clients s q' = Some c'" using qq(1,2) by simp_all
        then show ?thesis using assms(2) qq(3) unfolding wired_def by blast
      qed
    next
      fix d sk assume d: "socks k' d = Some sk"
      then have cases: "d = ?d \<or> (\<exists>y. socks (dn_kernel s) d = Some y)" by (auto simp: made)
      show "d < int (next_fd k')"
        using cases
      proof (elim disjE exE)
        fix y assume "socks (dn_kernel s) d = Some y"
        from below [OF this] show ?thesis by (simp add: made(8))
      qed (simp add: made(8))
      show "d = fd_of (dn_link s) \<or> (\<exists>q c. ((dn_clients s)(p \<mapsto> cl)) q = Some c \<and> d = fd_of c)"
        using cases
      proof (elim disjE exE)
        assume "d = ?d"
        then show ?thesis using made(7) by (intro disjI2 exI [of _ p] exI [of _ cl]) simp
      next
        fix y assume "socks (dn_kernel s) d = Some y"
        with assms(2) show ?thesis
        proof (cases rule: wired_owner)
          case (client q c)
          then show ?thesis using assms(3) by (intro disjI2 exI [of _ q] exI [of _ c]) auto
        qed simp
      qed
    qed
    moreover have "r_in s' = r_in s" "r_out s' = r_out s" using old by (simp_all add: r_in_def r_out_def s' made)
    moreover have "c_in s' = c_in s" "c_out s' = c_out s"
      using assms(3) cls by (force simp: c_in_def c_out_def s' made fun_eq_iff Sock_new_def split: option.split)+
    ultimately show ?thesis by blast
  qed
  then show "wired t s'" "r_in s' = r_in s" "r_out s' = r_out s" "c_in s' = c_in s" "c_out s' = c_out s" by simp_all
qed

text \<open>Client operations: a send puts a datagram for the router into the outbox, a receive takes the first of the inbox.\<close>

lemma touches_put:
  assumes "socks (dn_kernel s) d = Some sk0" "sk_bound sk = sk_bound sk0" "same_link (dn_link s) (dn_link s')"
    "dn_clients s' = dn_clients s" "dn_kernel s' = put_sock d sk (dn_kernel s)"
  shows "touches d sk s s'"
  using assms by (simp add: touches_def put_sock_def)

lemma send_effect:
  assumes "uds_ok t" "wired t s" "dn_clients s p = Some cl" "socks (dn_kernel s) (fd_of cl) = Some sk"
    "dg_send_to_router os f (cl, dn_kernel s) = (r, (cl', k'))"
  shows "cl' = cl" "r = Inr () \<Longrightarrow> k' = put_sock (fd_of cl) (sk\<lparr>sk_outbox := sk_outbox sk @ [(router_addr t, bytes f)]\<rparr>) (dn_kernel s)"
    "r \<noteq> Inr () \<Longrightarrow> k' = dn_kernel s"
proof -
  have cl: "\<not> dl_is_server cl" "dl_topo cl = t" by (rule wired_client [OF assms(2,3)], assumption)+
  have pl: "buffer_bytes (frame_read_only f) = bytes f" by (simp add: frame_read_only_def)
  have "send_datagram_to_address os d (router_listen t) b k = Uds_send_to os d (uds_path (router_listen t)) b k" for d b k
    using uds_okD(6) [OF assms(1)] by (cases "router_listen t") (simp_all add: send_datagram_to_address_def)
  then have "dg_send_to_router os f (cl, dn_kernel s) =
      (if send_ok os (router_addr t) (bytes f)
       then (Inr (), (cl, put_sock (fd_of cl) (sk\<lparr>sk_outbox := sk_outbox sk @ [(router_addr t, bytes f)]\<rparr>) (dn_kernel s)))
       else (Inl (RuntimeError ''uds sendto failed''), (cl, dn_kernel s)))"
    using cl assms(4) uds_okD(5) [OF assms(1)]
    by (simp add: dg_send_to_router_def send_buffer_to_def Uds_send_to_def sys_sendto_def pl)
  then show "cl' = cl" "r = Inr () \<Longrightarrow> k' = put_sock (fd_of cl) (sk\<lparr>sk_outbox := sk_outbox sk @ [(router_addr t, bytes f)]\<rparr>) (dn_kernel s)"
    "r \<noteq> Inr () \<Longrightarrow> k' = dn_kernel s"
    using assms(5) by (auto split: if_splits)
qed

lemma recv_effect:
  assumes "wired t s" "dn_clients s p = Some cl" "socks (dn_kernel s) (fd_of cl) = Some sk" "wf_frame h"
    "\<forall>a\<in>set (sk_inbox sk). \<exists>x. a = Arrived (Some (router_addr t)) x \<and> length x = kRouterFrameSize"
    "DatagramRouterClient_recv_message UdsT h (cl, dn_kernel s) = (r, g, (cl', k'))"
  obtains (none) "r = Inr False" "cl' = cl" "k' = dn_kernel s"
    | (one) a0 x rest where "sk_inbox sk = Arrived a0 x # rest" "r = Inr True" "g = \<lparr>bytes = x\<rparr>" "cl' = cl"
        "k' = put_sock (fd_of cl) (sk\<lparr>sk_inbox := rest\<rparr>) (dn_kernel s)"
proof -
  have cl: "\<not> dl_is_server cl" by (rule wired_client [OF assms(1,2)], assumption)
  let ?b = "frame_writable h"
  have cap: "capacity ?b = kRouterFrameSize" "data ?b = bytes h" "length (bytes h) = kRouterFrameSize"
    using assms(4) by (simp_all add: frame_writable_def Buffer_writable_def wf_frame_def)
  show thesis
  proof (cases "sk_inbox sk")
    case Nil
    then show thesis
      using assms(3,6) cl none
      by (auto simp: DatagramRouterClient_recv_message_def dg_recv_message_def ep_recv_def Uds_recv_def dg_recv_def sys_recvfrom_def)
  next
    case (Cons a rest)
    then obtain x where a: "a = Arrived (Some (router_addr t)) x" "length x = kRouterFrameSize" using assms(5) by auto
    have "sk_inbox sk = Arrived (Some (router_addr t)) x # rest" using Cons a(1) by simp
    note rcv = ep_recv_arrived [OF assms(3) this, of UdsT ?b "from_zero UdsT"]
    have st: "store_recv (Some (router_addr t)) (take (capacity ?b) x) ?b (from_zero UdsT)
        = (?b\<lparr>data := x, buf_size := kRouterFrameSize\<rparr>, router_addr t)"
      using a(2) cap by (simp add: store_recv_def write_bytes_def)
    have "DatagramRouterClient_recv_message UdsT h (cl, dn_kernel s) =
        (Inr True, \<lparr>bytes = x\<rparr>, (cl, put_sock (fd_of cl) (sk\<lparr>sk_inbox := rest\<rparr>) (dn_kernel s)))"
      using cl by (simp add: DatagramRouterClient_recv_message_def dg_recv_message_def rcv st frame_of_buffer_def)
    then show thesis using assms(6) one [OF Cons [unfolded a(1)]] by simp
  qed
qed

text \<open>The router's turn.\<close>

lemma dg_forward_link:
  assumes "dg_forward tr os f ts rules (l, k) = (r, g, (l', k'))"
  shows "same_link l l' \<and> next_fd k' = next_fd k"
proof -
  let ?I = "\<lambda>q :: dg_state. same_link l (fst q) \<and> next_fd (snd q) = next_fd k"
  obtain y k1 where rcv: "ep_recv tr (dl_endpoint l) (frame_writable f) (from_zero tr) k = (y, k1)" by fastforce
  have k1: "next_fd k1 = next_fd k"
    using rcv by (cases tr) (auto simp: ep_recv_def Uds_recv_def Udp_recv_def dg_recv_def sys_recvfrom_def put_sock_def
        split: option.splits list.splits recv_answer.splits sum.splits prod.splits)
  have one: "?I (snd (dg_send_to_peer os pl d q))" if "?I q" for pl d q
  proof (cases q)
    case (Pair l2 k2)
    then show ?thesis
      using that by (auto simp: dg_send_to_peer_def send_buffer_to_def send_datagram_to_address_def Uds_send_to_def Udp_send_to_def
        Udp_send_to_addr_def sys_sendto_def bump_forwarded_def put_sock_def split: option.splits PeerAddress.splits sum.splits prod.splits if_splits)
  qed
  have "?I (snd (fan_out (dg_send_to_peer os pl) ds (l, k1)))" for pl ds
    by (rule fan_out_invariant [where I = ?I]) (use one k1 in simp_all)
  then have fan: "fan_out (dg_send_to_peer os pl) ds (l, k1) = (z, s2) \<Longrightarrow> ?I s2" for pl ds z s2 by (metis snd_conv)
  show ?thesis
    using assms rcv k1 fan
    by (auto simp: dg_forward_def bump_truncated_def bump_unknown_def Let_def split: if_splits sum.splits prod.splits)
qed

lemma forward_effect:
  assumes "dl_is_server l" "dl_topo l = t" "wf_frame h" "socks k (fd_of l) = Some sk"
    "\<forall>a\<in>set (sk_inbox sk). \<exists>a0 x. a = Arrived a0 x \<and> (attributed t a0 \<noteq> kEndpointInvalid \<longrightarrow> length x = kRouterFrameSize)"
    "\<forall>r\<in>set rules. wf_rule r" "\<And>p topic. distinct (route_spec rules p topic)"
    "dg_forward UdsT os h ts rules (l, k) = (r, g, (l', k'))"
  obtains (none) "sk_inbox sk = []" "socks k' = socks k"
    | (drop) a0 x rest where "sk_inbox sk = Arrived a0 x # rest" "attributed t a0 = kEndpointInvalid"
        "socks k' = (socks k)(fd_of l \<mapsto> sk\<lparr>sk_inbox := rest\<rparr>)"
    | (took) a0 x rest p g' good where "sk_inbox sk = Arrived a0 x # rest" "attributed t a0 = p" "p \<noteq> kEndpointInvalid"
        "g' = set_timestamp_ns ts (set_source p \<lparr>bytes = x\<rparr>)" "set good \<subseteq> set (route_spec rules p (topic_id g'))" "distinct good"
        "socks k' = (socks k)(fd_of l \<mapsto> sk\<lparr>sk_inbox := rest, sk_outbox := sk_outbox sk @ copies t (bytes g') good\<rparr>)"
proof (cases "sk_inbox sk")
  case Nil
  then have "k' = k"
    using assms(1,4,8) by (simp add: dg_forward_def ep_recv_def Uds_recv_def dg_recv_def sys_recvfrom_def)
  then show thesis using none Nil by simp
next
  case (Cons a rest)
  then obtain a0 x where a: "a = Arrived a0 x" "attributed t a0 \<noteq> kEndpointInvalid \<longrightarrow> length x = kRouterFrameSize"
    using assms(5) by auto
  have inb: "sk_inbox sk = Arrived a0 x # rest" using Cons a(1) by simp
  show thesis
  proof (cases "attributed t a0 = kEndpointInvalid")
    case True
    have "k' = put_sock (fd_of l) (sk\<lparr>sk_inbox := rest\<rparr>) k"
      by (rule dg_forward_drops(3) [OF assms(1,3,4) inb _ assms(8)]) (use True assms(2) in \<open>simp add: attributed_def\<close>)
    then show thesis using drop [OF inb True] by (simp add: put_sock_def)
  next
    case False
    let ?p = "attributed t a0"
    let ?g = "set_timestamp_ns ts (set_source ?p \<lparr>bytes = take kRouterFrameSize x\<rparr>)"
    have len: "length x = kRouterFrameSize" using a(2) False by simp
    have src: "?p = peer_id_from_recv UdsT (dl_topo l) (case a0 of None \<Rightarrow> from_zero UdsT | Some a \<Rightarrow> a)"
      by (simp add: attributed_def assms(2))
    let ?ds = "targets_list (route_targets_for rules ?p (topic_id ?g))"
    have ds: "?ds = route_spec rules ?p (topic_id ?g)" by (rule route_targets_spec [OF assms(6)])
    let ?good = "takeWhile (sendable os (dl_topo l) (bytes ?g)) ?ds"
    have big: "length x \<ge> kRouterFrameSize" using len by simp
    obtain r' where "dg_forward UdsT os h ts rules (l, k) = (r', ?g, (add_forwarded (length (copies (dl_topo l) (bytes ?g) ?good)) l,
        put_sock (fd_of l) (sk\<lparr>sk_inbox := rest, sk_outbox := sk_outbox sk @ copies (dl_topo l) (bytes ?g) ?good\<rparr>) k))"
      by (rule dg_forward_sends [where os = os, OF assms(1,3,4) inb big src False refl refl refl])
    then have "socks k' = (socks k)(fd_of l \<mapsto> sk\<lparr>sk_inbox := rest, sk_outbox := sk_outbox sk @ copies t (bytes ?g) ?good\<rparr>)"
      using assms(2,8) by (simp add: put_sock_def)
    moreover have "set ?good \<subseteq> set (route_spec rules ?p (topic_id ?g))" unfolding ds by (blast dest: set_takeWhileD)
    moreover have "distinct ?good" unfolding ds by (rule distinct_takeWhile [OF assms(7)])
    moreover have "take kRouterFrameSize x = x" using len by simp
    ultimately show thesis using took [OF inb refl False, of ?g ?good] by simp
  qed
qed

section \<open>Every step keeps the account\<close>

lemma client_queues:
  assumes "wired t s" "dn_clients s p = Some cl"
  obtains e sk where "e \<in> set (peers t)" "peer_id e = p" "is_uds e" "socks (dn_kernel s) (fd_of cl) = Some sk"
    "sk_bound sk = Some (SockUn (peer_path e))" "c_in s p = sk_inbox sk" "c_out s p = sk_outbox sk"
  by (rule wired_client [OF assms]) (rule that, simp_all add: c_in_def c_out_def assms(2))

lemma router_queues:
  assumes "wired t s"
  obtains sk where "dl_is_server (dn_link s)" "dl_topo (dn_link s) = t" "socks (dn_kernel s) (fd_of (dn_link s)) = Some sk"
    "sk_bound sk = Some (router_addr t)" "r_in s = sk_inbox sk" "r_out s = sk_outbox sk"
  by (rule wired_link [OF assms]) (rule that, simp_all add: r_in_def r_out_def)

abbreviation dg_ok :: "RouterTopology \<Rightarrow> RouteRule list \<Rightarrow> DgEvent list \<Rightarrow> DgNet \<Rightarrow> bool" where
  "dg_ok t rules evs s \<equiv> wired t s \<and> (\<exists>tk. dg_accounted t rules evs tk s)"

lemma send_keeps:
  assumes "uds_ok t" "wired t s" "dg_accounted t rules evs tk s" "dn_clients s p = Some cl" "wf_frame f"
    "dg_send_to_router os f (cl, dn_kernel s) = (r, (cl', k'))"
    "s' = s\<lparr>dn_clients := (dn_clients s)(p \<mapsto> cl'), dn_kernel := k'\<rparr>"
  shows "r = Inr () \<Longrightarrow> dg_ok t rules (evs @ [DgSent p f]) s'" "r \<noteq> Inr () \<Longrightarrow> s' = s"
proof -
  obtain e sk where c: "socks (dn_kernel s) (fd_of cl) = Some sk" "c_out s p = sk_outbox sk" "c_in s p = sk_inbox sk"
    by (rule client_queues [OF assms(2,4)])
  note eff = send_effect [OF assms(1,2,4) c(1) assms(6)]
  have same: "(dn_clients s)(p \<mapsto> cl) = dn_clients s" using assms(4) by (rule fun_upd_idem)
  show "s' = s" if "r \<noteq> Inr ()" using eff(1,3) that same assms(7) by simp
  assume r: "r = Inr ()"
  let ?sk = "sk\<lparr>sk_outbox := sk_outbox sk @ [(router_addr t, bytes f)]\<rparr>"
  have t: "touches (fd_of cl) ?sk s s'" by (rule touches_put [OF c(1)]) (use eff(1,2) r same assms(7) in simp_all)
  note q = touches_client [OF assms(2,4) t]
  have "dg_accounted t rules (evs @ [DgSent p f]) tk s'"
    by (rule account_sent [OF assms(3,5)]) (use q c in \<open>simp_all add: fun_upd_idem\<close>)
  then show "dg_ok t rules (evs @ [DgSent p f]) s'" using touches_wired [OF assms(2) t] by blast
qed

lemma recv_keeps:
  assumes "wired t s" "dg_accounted t rules evs tk s" "dn_clients s p = Some cl" "wf_frame h"
    "DatagramRouterClient_recv_message UdsT h (cl, dn_kernel s) = (r, g, (cl', k'))"
    "s' = s\<lparr>dn_clients := (dn_clients s)(p \<mapsto> cl'), dn_kernel := k'\<rparr>"
  shows "r = Inr True \<Longrightarrow> dg_ok t rules (evs @ [DgReceived p g]) s'" "r \<noteq> Inr True \<Longrightarrow> s' = s"
proof -
  obtain e sk where c: "socks (dn_kernel s) (fd_of cl) = Some sk" "c_out s p = sk_outbox sk" "c_in s p = sk_inbox sk"
    by (rule client_queues [OF assms(1,3)])
  have same: "(dn_clients s)(p \<mapsto> cl) = dn_clients s" using assms(3) by (rule fun_upd_idem)
  have inb: "\<forall>a\<in>set (sk_inbox sk). \<exists>x. a = Arrived (Some (router_addr t)) x \<and> length x = kRouterFrameSize"
    using assms(2) unfolding dg_accounted_def queues_ok_def c(3) [symmetric] by blast
  have "(r = Inr True \<longrightarrow> dg_ok t rules (evs @ [DgReceived p g]) s') \<and> (r \<noteq> Inr True \<longrightarrow> s' = s)"
    using assms(1,3) c(1) assms(4) inb assms(5)
  proof (cases rule: recv_effect)
    case none
    then show ?thesis using assms(6) same by simp
  next
    case (one a0 x rest)
    have t: "touches (fd_of cl) (sk\<lparr>sk_inbox := rest\<rparr>) s s'" by (rule touches_put [OF c(1)]) (use one same assms(6) in simp_all)
    note q = touches_client [OF assms(1,3) t]
    have "dg_accounted t rules (evs @ [DgReceived p \<lparr>bytes = x\<rparr>]) tk s'"
      by (rule account_received [OF assms(2), where rest = rest]) (use q c one in \<open>simp_all add: fun_upd_idem\<close>)
    then show ?thesis using touches_wired [OF assms(1) t] one by blast
  qed
  then show "r = Inr True \<Longrightarrow> dg_ok t rules (evs @ [DgReceived p g]) s'" "r \<noteq> Inr True \<Longrightarrow> s' = s" by simp_all
qed

lemma forward_keeps:
  assumes "uds_ok t" "\<forall>r\<in>set rules. wf_rule r" "\<And>p topic. distinct (route_spec rules p topic)"
    "wired t s" "dg_accounted t rules evs tk s" "wf_frame h"
    "dg_forward UdsT os h ts rules (dn_link s, dn_kernel s) = (r, g, (l', k'))"
  shows "dg_ok t rules (evs @ [DgForwarded r]) (s\<lparr>dn_link := l', dn_kernel := k'\<rparr>)" (is "dg_ok _ _ _ ?s")
proof -
  obtain sk where l: "dl_is_server (dn_link s)" "dl_topo (dn_link s) = t" "socks (dn_kernel s) (fd_of (dn_link s)) = Some sk"
    "r_in s = sk_inbox sk" "r_out s = sk_outbox sk" by (rule router_queues [OF assms(4)])
  note fl = dg_forward_link [OF assms(7)]
  have inb: "\<forall>a\<in>set (sk_inbox sk). \<exists>a0 x. a = Arrived a0 x \<and> (attributed t a0 \<noteq> kEndpointInvalid \<longrightarrow> length x = kRouterFrameSize)"
    using assms(5) unfolding dg_accounted_def queues_ok_def l(4) by blast
  have t: "touches (fd_of (dn_link s)) sk' s ?s" if "socks k' = (socks (dn_kernel s))(fd_of (dn_link s) \<mapsto> sk')" "sk_bound sk' = sk_bound sk" for sk'
    using that fl l(3) by (simp add: touches_def)
  note q = touches_router [OF assms(4) t] and w = touches_wired [OF assms(4) t]
  show ?thesis
    using l(1,2) assms(6) l(3) inb assms(2,3,7)
  proof (cases rule: forward_effect)
    case none
    then have idem: "socks k' = (socks (dn_kernel s))(fd_of (dn_link s) \<mapsto> sk)" using l(3) by (simp add: fun_upd_idem)
    have "dg_accounted t rules (evs @ [DgForwarded r]) tk ?s"
      by (rule dg_accounted_quiet [OF assms(5)]) (use q [OF idem refl] l(4,5) in simp_all)
    then show ?thesis using w [OF idem refl] by blast
  next
    case (drop a0 x rest)
    have "dg_accounted t rules (evs @ [DgForwarded r]) tk ?s"
      by (rule account_dropped [OF assms(5), where rest = rest]) (use q [OF drop(3)] l(4,5) drop in simp_all)
    then show ?thesis using w [OF drop(3)] by simp blast
  next
    case (took a0 x rest p g' good)
    have "dg_accounted t rules (evs @ [DgForwarded r]) (tk @ [(p, \<lparr>bytes = x\<rparr>)]) ?s"
      by (rule account_taken [OF assms(1,5), where rest = rest and good = good and g = g'])
        (use q [OF took(7)] l(4,5) took in simp_all)
    then show ?thesis using w [OF took(7)] by simp blast
  qed
qed

lemma carry_keeps:
  assumes "uds_ok t" "wired t s" "dg_accounted t rules evs tk s"
    "socks (dn_kernel s) d = Some sk" "sk_outbox sk = us @ (a, x) # vs"
    "k1 = put_sock d (sk\<lparr>sk_outbox := us @ vs\<rparr>) (dn_kernel s)"
    "socks k1 d' = Some sk'" "sk_bound sk' = Some a"
    "s' = s\<lparr>dn_kernel := put_sock d' (sk'\<lparr>sk_inbox := sk_inbox sk' @ [Arrived (sk_bound sk) x]\<rparr>) k1\<rparr>"
  shows "dg_ok t rules (evs @ [DgCarried a x]) s'"
proof -
  let ?s = "s\<lparr>dn_kernel := k1\<rparr>" and ?sk = "sk\<lparr>sk_outbox := us @ vs\<rparr>"
  let ?sk' = "sk'\<lparr>sk_inbox := sk_inbox sk' @ [Arrived (sk_bound sk) x]\<rparr>"
  have queues: "queues_ok t (c_out s) (c_in s) (r_in s) (r_out s)" using assms(3) by (simp add: dg_accounted_def)
  have t: "touches d ?sk s ?s" by (rule touches_put [OF assms(4)]) (use assms(6) in simp_all)
  have t': "touches d' ?sk' ?s s'" by (rule touches_put [where s = ?s]) (use assms(7,9) in simp_all)
  note w = touches_wired [OF assms(2) t]
  note w' = touches_wired [OF w t']
  have dest: "socks (dn_kernel ?s) d' = Some sk'" using assms(7) by simp
  show ?thesis
    using assms(2,4)
  proof (cases rule: wired_owner)
    case router
    obtain sk0 where l: "socks (dn_kernel s) (fd_of (dn_link s)) = Some sk0" "sk_bound sk0 = Some (router_addr t)" "r_in s = sk_inbox sk0" "r_out s = sk_outbox sk0"
      by (rule router_queues [OF assms(2)])
    have sk0: "sk0 = sk" using l(1) assms(4) router by simp
    have "(a, x) \<in> set (r_out s)" using l(4) sk0 assms(5) by simp
    then have a: "a \<noteq> router_addr t" using queues unfolding queues_ok_def by fastforce
    note q = touches_router [OF assms(2) t [unfolded router]]
    show ?thesis
      using w dest
    proof (cases rule: wired_owner)
      case router
      obtain sk1 where "socks (dn_kernel ?s) (fd_of (dn_link ?s)) = Some sk1" "sk_bound sk1 = Some (router_addr t)"
        by (rule router_queues [OF w])
      then show ?thesis using dest router assms(8) a by simp
    next
      case (client p cl)
      obtain e sk1 where c: "e \<in> set (peers t)" "peer_id e = p" "is_uds e" "socks (dn_kernel ?s) (fd_of cl) = Some sk1"
        "sk_bound sk1 = Some (SockUn (peer_path e))" "c_in ?s p = sk_inbox sk1" "c_out ?s p = sk_outbox sk1"
        by (rule client_queues [OF w client(1)])
      have sk1: "sk1 = sk'" using c(4) dest client(2) by simp
      have a': "a = SockUn (peer_path e)" using c(5) sk1 assms(8) by simp
      note q' = touches_client [OF w client(1) t' [unfolded client(2)]]
      have "dg_accounted t rules (evs @ [DgCarried a x]) tk s'"
        by (rule account_down [OF assms(1,3), where us = us and vs = vs and e = e])
          (use q q' c l sk0 sk1 a' assms(5) in \<open>simp_all add: fun_upd_idem\<close>)
      then show ?thesis using w' by blast
    qed
  next
    case (client p cl)
    obtain e sk0 where c: "e \<in> set (peers t)" "peer_id e = p" "is_uds e" "socks (dn_kernel s) (fd_of cl) = Some sk0"
      "sk_bound sk0 = Some (SockUn (peer_path e))" "c_in s p = sk_inbox sk0" "c_out s p = sk_outbox sk0"
      by (rule client_queues [OF assms(2) client(1)])
    have sk0: "sk0 = sk" using c(4) assms(4) client(2) by simp
    have "(a, x) \<in> set (c_out s p)" using c(7) sk0 assms(5) by simp
    then have a: "a = router_addr t" using queues unfolding queues_ok_def by fastforce
    note q = touches_client [OF assms(2) client(1) t [unfolded client(2)]]
    have from_e: "attributed t (sk_bound sk) = p" using attributed_ok(1) [OF assms(1) c(1,3)] c(2,5) sk0 by simp
    have p: "p \<noteq> kEndpointInvalid" using uds_okD(1) [OF assms(1) c(1)] c(2) by simp
    show ?thesis
      using w dest
    proof (cases rule: wired_owner)
      case (client q' cl')
      obtain e' sk1 where c': "e' \<in> set (peers t)" "is_uds e'" "socks (dn_kernel ?s) (fd_of cl') = Some sk1"
        "sk_bound sk1 = Some (SockUn (peer_path e'))"
        by (rule client_queues [OF w client(1)])
      then have "a = SockUn (peer_path e')" using dest client(2) assms(8) by simp
      then show ?thesis using a uds_okD(3) [OF assms(1) c'(1,2)] by simp
    next
      case router
      obtain sk1 where l: "socks (dn_kernel ?s) (fd_of (dn_link ?s)) = Some sk1" "r_in ?s = sk_inbox sk1" "r_out ?s = sk_outbox sk1"
        by (rule router_queues [OF w])
      have sk1: "sk1 = sk'" using l(1) dest router by simp
      note q' = touches_router [OF w t' [unfolded router]]
      have "dg_accounted t rules (evs @ [DgCarried a x]) tk s'"
        by (rule account_up [OF assms(3) _ from_e p, where us = us and vs = vs])
          (use q q' c l sk0 sk1 assms(5) in \<open>simp_all add: fun_upd_idem\<close>)
      then show ?thesis using w' by blast
    qed
  qed
qed

lemma stray_keeps:
  assumes "uds_ok t" "wired t s" "dg_accounted t rules evs tk s"
    "socks (dn_kernel s) d = Some sk" "sk_bound sk = Some (router_addr t)" "attributed t a0 = kEndpointInvalid"
    "s' = s\<lparr>dn_kernel := put_sock d (sk\<lparr>sk_inbox := sk_inbox sk @ [Arrived a0 x]\<rparr>) (dn_kernel s)\<rparr>"
  shows "dg_ok t rules (evs @ [DgStray a0 x]) s'"
proof -
  have t: "touches d (sk\<lparr>sk_inbox := sk_inbox sk @ [Arrived a0 x]\<rparr>) s s'" by (rule touches_put [OF assms(4)]) (use assms(7) in simp_all)
  show ?thesis
    using assms(2,4)
  proof (cases rule: wired_owner)
    case router
    obtain sk0 where l: "socks (dn_kernel s) (fd_of (dn_link s)) = Some sk0" "r_in s = sk_inbox sk0" "r_out s = sk_outbox sk0"
      by (rule router_queues [OF assms(2)])
    note q = touches_router [OF assms(2) t [unfolded router]]
    have "dg_accounted t rules (evs @ [DgStray a0 x]) tk s'"
      by (rule account_stray [OF assms(3,6)]) (use q l router assms(4) in simp_all)
    then show ?thesis using touches_wired [OF assms(2) t] by blast
  next
    case (client p cl)
    obtain e sk1 where c: "e \<in> set (peers t)" "is_uds e" "socks (dn_kernel s) (fd_of cl) = Some sk1"
      "sk_bound sk1 = Some (SockUn (peer_path e))"
      by (rule client_queues [OF assms(2) client(1)])
    then have "router_addr t = SockUn (peer_path e)" using client(2) assms(4,5) by simp
    then show ?thesis using uds_okD(3) [OF assms(1) c(1,2)] by simp
  qed
qed

lemma dg_step_keeps:
  assumes "uds_ok t" "\<forall>r\<in>set rules. wf_rule r" "\<And>p topic. distinct (route_spec rules p topic)"
    "wired t s" "dg_accounted t rules evs tk s" "dg_step os t rules s ev s'"
  shows "dg_ok t rules (evs @ [ev]) s'"
proof -
  have quiet: "dg_ok t rules (evs @ [ev]) s" if "\<And>p. dg_sent_frame p ev = []" "\<And>p. dg_received_frame p ev = []"
    using dg_accounted_quiet [OF assms(5) that] assms(4) by blast
  show ?thesis
    using assms(6)
  proof (rule dg_stepE, goal_cases)
    case (1 p r k')
    note j = join_keeps [OF assms(1,4) 1(3,4) 1(2)]
    have "dg_accounted t rules (evs @ [ev]) tk s'"
      by (rule dg_accounted_quiet [OF assms(5)]) (use 1(1) j in simp_all)
    then show ?case using j(1) by blast
  next
    case (2 p cl f cl' k')
    show ?case using send_keeps(1) [OF assms(1,4,5) 2(3,4,5,2)] 2(1) by simp
  next
    case (3 p cl f e cl' k')
    show ?case using send_keeps(2) [OF assms(1,4,5) 3(3,4,5,2)] quiet 3(1) by simp
  next
    case (4 p cl h g cl' k')
    show ?case using recv_keeps(1) [OF assms(4,5) 4(3,4,5,2)] 4(1) by simp
  next
    case (5 p cl h r g cl' k')
    show ?case using recv_keeps(2) [OF assms(4,5) 5(3,4,5,2)] quiet 5(1,6) by simp
  next
    case (6 h ts r g l' k')
    show ?case unfolding 6(1,2) by (rule forward_keeps [OF assms(1-5) 6(3,4)])
  next
    case (7 d sk us a x vs d' sk')
    have "socks (put_sock d (sk\<lparr>sk_outbox := us @ vs\<rparr>) (dn_kernel s)) d' = Some sk'" using 7(5) by simp
    then show ?case unfolding 7(1) by (rule carry_keeps [OF assms(1,4,5) 7(3,4) refl _ 7(6,2)])
  next
    case (8 d sk path x)
    have "attributed t (if path = [] then None else Some (SockUn path)) = kEndpointInvalid" by (rule attributed_ok(2) [OF assms(1) 8(5,6)])
    then show ?case unfolding 8(1) by (rule stray_keeps [OF assms(1,4,5) 8(3,4) _ 8(2)])
  qed
qed

lemma dg_run_keeps:
  assumes "uds_ok t" "\<forall>r\<in>set rules. wf_rule r" "\<And>p topic. distinct (route_spec rules p topic)"
    "dg_run os t rules s evs s'" "dg_ok t rules [] s"
  shows "dg_ok t rules evs s'"
  using assms(4,5)
proof (induction rule: dg_run.induct)
  case (dg_run_snoc s evs s' ev s'')
  then obtain tk where "wired t s'" "dg_accounted t rules evs tk s'" by blast
  from dg_step_keeps [OF assms(1-3) this dg_run_snoc.hyps(2)] show ?case .
qed

section \<open>The router comes up\<close>

lemma uds_router_up:
  assumes "router_listen t = peer_uds q" "sun_path q = q"
    "make_datagram_router_server UdsT os t k = (Inr l, k1)" "bind_datagram_router_listen UdsT os t (l, k1) = (Inr (), (l', k2))"
  shows "dl_is_server l'" "dl_topo l' = t" "fd_of l' = int (next_fd k)" "next_fd k2 = Suc (next_fd k)"
    "socks k2 = (socks k)(int (next_fd k) \<mapsto> Sock_new\<lparr>sk_bound := Some (SockUn q)\<rparr>)"
proof -
  have l: "l = \<lparr>dl_topo = t, dl_is_server = True, dl_peer_id = kEndpointInvalid, dl_endpoint = \<lparr>fd = int (next_fd k)\<rparr>,
      dl_metrics = DatagramRouterMetrics_zero\<rparr>"
    and k1: "k1 = (put_sock (int (next_fd k)) Sock_new k)\<lparr>next_fd := Suc (next_fd k)\<rparr>"
    using assms(3) by (auto simp: make_datagram_router_server_def DatagramRouterServer_new_def dg_server_def dg_new_def dg_open_def
        Uds_open_def Socket_open_def split: if_splits)
  have "l' = l \<and> next_fd k2 = Suc (next_fd k) \<and> socks k2 = (socks k)(int (next_fd k) \<mapsto> Sock_new\<lparr>sk_bound := Some (SockUn q)\<rparr>)"
    using assms(4) unfolding l k1
    by (auto simp: bind_datagram_router_listen_def router_listen_bind_params_def DatagramRouterServer_bind_router_def
        dg_bind_router_def ep_dg_bind_def Uds_bind_def datagram_set_reuseaddr_def sys_bind_def assms(1,2) put_sock_def sys_unlink_def
        Sock_new_def split: if_splits prod.splits)
  then show "dl_is_server l'" "dl_topo l' = t" "fd_of l' = int (next_fd k)" "next_fd k2 = Suc (next_fd k)"
    "socks k2 = (socks k)(int (next_fd k) \<mapsto> Sock_new\<lparr>sk_bound := Some (SockUn q)\<rparr>)"
    by (simp_all add: l)
qed

lemma dg_net_start:
  assumes "uds_ok t" "socks k = Map.empty"
    "make_datagram_router_server UdsT os t k = (Inr l, k1)" "bind_datagram_router_listen UdsT os t (l, k1) = (Inr (), (l', k2))"
  shows "dg_ok t rules [] \<lparr>dn_link = l', dn_clients = Map.empty, dn_kernel = k2\<rparr>"
proof -
  note up = uds_router_up [OF uds_okD(6,5) [OF assms(1)] assms(3,4)]
  have "wired t \<lparr>dn_link = l', dn_clients = Map.empty, dn_kernel = k2\<rparr>"
    unfolding wired_def by (simp add: up assms(2))
  moreover have "dg_accounted t rules [] [] \<lparr>dn_link = l', dn_clients = Map.empty, dn_kernel = k2\<rparr>"
    by (simp add: dg_accounted_def queues_ok_def sender_account_def receiver_account_def c_in_def c_out_def r_in_def r_out_def
        up Sock_new_def)
  ultimately show ?thesis by blast
qed

lemma loaded_uds_ok:
  assumes "load_topology_from_toml_file parse path = Inr lt" "kind (lt_listen lt) = UdsPath"
    "distinct (uds_path (lt_listen lt) # map peer_path (filter is_uds (lt_peers lt)))"
  shows "uds_ok (view lt)"
proof -
  have ok: "peers_ok lt" "listens_ok lt" using from_file.load_ok [OF assms(1)] by (simp_all add: loaded_ok_def)
  have "peer_id e \<noteq> kEndpointInvalid" if "e \<in> set (lt_peers lt)" for e
    using ok(1) that by (auto simp: peers_ok_def peer_ok_def kEndpointInvalid_def)
  then show ?thesis
    using ok assms(2,3) by (auto simp: uds_ok_def peers_ok_def peer_ok_def listens_ok_def view_def)
qed

text \<open>
  C3: every datagram is accounted for. Bring a Unix-domain router up from a loaded profile whose
  addresses are distinct; let clients of it start, send and receive, the router forward, and the
  kernel deliver in any order, while other processes send the router any datagram they like. There
  is one collection of frames that the router has taken, each with its true sender, such that for
  every peer: what it sent is what was taken from it, what is under way from it, and nothing else;
  and what it has received and what is under way to it are, as often as they occur, frames of
  the collection that the rules list it for, unchanged but for the stamp of source and time. A
  stranger can neither get a frame through nor make one appear under another's name.
\<close>

theorem dg_network_accounts:
  assumes "load_topology_from_toml_file parse path = Inr lt" "kind (lt_listen lt) = UdsPath"
    "distinct (uds_path (lt_listen lt) # map peer_path (filter is_uds (lt_peers lt)))" "socks k = Map.empty"
    "make_datagram_router_server UdsT os (view lt) k = (Inr l, k1)"
    "bind_datagram_router_listen UdsT os (view lt) (l, k1) = (Inr (), (l', k2))"
    "dg_run os (view lt) (lt_routes lt) \<lparr>dn_link = l', dn_clients = Map.empty, dn_kernel = k2\<rparr> evs s"
  shows "\<exists>history. sender_account (view lt) evs history (c_out s) (r_in s)
    \<and> receiver_account (view lt) (lt_routes lt) evs history (c_in s) (r_out s)"
proof -
  have ok: "uds_ok (view lt)" by (rule loaded_uds_ok [OF assms(1-3)])
  have "dg_ok (view lt) (lt_routes lt) evs s"
    by (rule dg_run_keeps [OF ok from_file.routes_wf [OF assms(1)] from_file.routes_distinct [OF assms(1)] assms(7)
        dg_net_start [OF ok assms(4-6)]])
  then show ?thesis by (auto simp: dg_accounted_def)
qed

text \<open>A run on the mixed profile: the first peer writes source 9 into a message, and peer 4 receives it with source 1.\<close>

abbreviation demo_bound :: "string \<Rightarrow> Sock" where
  "demo_bound q \<equiv> Sock_new\<lparr>sk_bound := Some (SockUn q)\<rparr>"

abbreviation demo_end :: "bool \<Rightarrow> u8 \<Rightarrow> int \<Rightarrow> DatagramRouterLink" where
  "demo_end server p d \<equiv> \<lparr>dl_topo = view mixed_loaded, dl_is_server = server, dl_peer_id = p, dl_endpoint = \<lparr>fd = d\<rparr>,
     dl_metrics = DatagramRouterMetrics_zero\<rparr>"

abbreviation no_sockets :: Kernel where
  "no_sockets \<equiv> \<lparr>next_fd = 0, socks = Map.empty, paths = {}\<rparr>"

lemma demo_peers:
  "router_listen (view mixed_loaded) = peer_uds ''/r''"
  "peer_by_id (view mixed_loaded) 1 = Some \<lparr>peer_id = 1, peer_name = ''a'', local_addr = peer_uds ''/a'', shm_slot_count = 0, shm_max_payload = 0\<rparr>"
  "peer_by_id (view mixed_loaded) 4 = Some \<lparr>peer_id = 4, peer_name = ''d'', local_addr = peer_uds ''/d'', shm_slot_count = 0, shm_max_payload = 0\<rparr>"
  "sun_path ''/r'' = ''/r''" "sun_path ''/a'' = ''/a''" "sun_path ''/d'' = ''/d''"
  "peer_id_from_recv UdsT (view mixed_loaded) (SockUn ''/a'') = 1"
  by (simp_all add: view_def mixed_loaded_def lookup_defs sun_path_def c_str_def peer_id_from_recv_def peer_find_def strcmp_eq_def)

lemma demo_server_up:
  "make_datagram_router_server UdsT demo_os (view mixed_loaded) no_sockets =
     (Inr (demo_end True kEndpointInvalid 0), \<lparr>next_fd = 1, socks = [0 \<mapsto> Sock_new], paths = {}\<rparr>)"
  "bind_datagram_router_listen UdsT demo_os (view mixed_loaded)
      (demo_end True kEndpointInvalid 0, \<lparr>next_fd = 1, socks = [0 \<mapsto> Sock_new], paths = {}\<rparr>) =
     (Inr (), (demo_end True kEndpointInvalid 0, \<lparr>next_fd = 1, socks = [0 \<mapsto> demo_bound ''/r''], paths = {''/r''}\<rparr>))"
  by (simp_all add: make_datagram_router_server_def DatagramRouterServer_new_def dg_server_def dg_new_def dg_open_def
      Uds_open_def Socket_open_def demo_os_def put_sock_def bind_datagram_router_listen_def router_listen_bind_params_def
      DatagramRouterServer_bind_router_def dg_bind_router_def ep_dg_bind_def Uds_bind_def datagram_set_reuseaddr_def
      sys_bind_def sys_unlink_def demo_peers Sock_new_def)

lemma demo_client_up:
  assumes "peer_by_id (view mixed_loaded) p = Some e" "local_addr e = peer_uds q" "sun_path q = q" "c_str q = q"
  shows "make_datagram_router_client UdsT demo_os (view mixed_loaded) p k =
     (Inr (demo_end False p (int (next_fd k))),
      \<lparr>next_fd = Suc (next_fd k), socks = (socks k)(int (next_fd k) \<mapsto> demo_bound q), paths = insert q (paths k)\<rparr>)"
  by (cases k) (simp add: make_datagram_router_client_def DatagramRouterClient_new_def dg_client_def dg_new_def dg_open_def Uds_open_def
      Socket_open_def dg_bind_peer_def demo_os_def put_sock_def bind_datagram_endpoint_def ep_dg_bind_def Uds_bind_def
      datagram_set_reuseaddr_def sys_bind_def sys_unlink_def assms Sock_new_def)

lemma demo_sends:
  assumes "socks k d = Some sk"
  shows "dg_send_to_router demo_os f (demo_end False p d, k) =
    (Inr (), (demo_end False p d, put_sock d (sk\<lparr>sk_outbox := sk_outbox sk @ [(SockUn ''/r'', bytes f)]\<rparr>) k))"
  by (simp add: dg_send_to_router_def send_buffer_to_def send_datagram_to_address_def Uds_send_to_def sys_sendto_def demo_peers
      assms frame_read_only_def demo_os_def)

lemma demo_receives:
  assumes "socks k d = Some sk" "sk_inbox sk = [Arrived a x]" "length x = kRouterFrameSize" "wf_frame h"
  shows "DatagramRouterClient_recv_message UdsT h (demo_end False p d, k) =
    (Inr True, \<lparr>bytes = x\<rparr>, (demo_end False p d, put_sock d (sk\<lparr>sk_inbox := []\<rparr>) k))"
proof -
  have len: "length (bytes h) = kRouterFrameSize" using assms(4) by (simp add: wf_frame_def)
  show ?thesis
    using assms(2,3) len
    by (simp add: DatagramRouterClient_recv_message_def dg_recv_message_def ep_recv_arrived [OF _ assms(2), of k "\<lparr>fd = d\<rparr>"] assms(1)
        store_recv_def frame_writable_def Buffer_writable_def write_bytes_def frame_of_buffer_def)
qed

lemma demo_router_forwards:
  assumes "socks k 0 = Some sk" "sk_inbox sk = [Arrived (Some (SockUn ''/a'')) demo_frame]" "wf_frame h"
  obtains r l where "dg_forward UdsT demo_os h 5 demo_rules (demo_end True kEndpointInvalid 0, k) =
    (r, demo_stamped, (l, put_sock 0 (sk\<lparr>sk_inbox := [], sk_outbox := sk_outbox sk @ [(SockUn ''/d'', bytes demo_stamped)]\<rparr>) k))"
proof -
  let ?l = "demo_end True kEndpointInvalid 0" and ?t = "view mixed_loaded"
  have ds: "targets_list (route_targets_for demo_rules 1 (topic_id demo_stamped)) = [4]"
    by (simp only: demo_stamped_fields demo_route)
  have good: "[4] = takeWhile (sendable demo_os (dl_topo ?l) (bytes demo_stamped))
      (targets_list (route_targets_for demo_rules 1 (topic_id demo_stamped)))"
    unfolding ds by (simp add: sendable_def demo_os_def demo_peers)
  have to: "copies ?t x [4] = [(SockUn ''/d'', x)]" for x by (simp add: copies_def copy_for_def demo_peers)
  have src: "1 = peer_id_from_recv UdsT (dl_topo ?l) (case Some (SockUn ''/a'') of None \<Rightarrow> from_zero UdsT | Some a \<Rightarrow> a)"
    "(1 :: u8) \<noteq> kEndpointInvalid" by (simp_all add: demo_peers kEndpointInvalid_def)
  have l: "dl_is_server ?l" "socks k (fd_of ?l) = Some sk" "length demo_frame \<ge> kRouterFrameSize"
    using assms(1) by (simp_all add: demo_frame_length)
  obtain r where "dg_forward UdsT demo_os h 5 demo_rules (?l, k) = (r, demo_stamped,
      (add_forwarded (length (copies ?t (bytes demo_stamped) [4])) ?l,
       put_sock 0 (sk\<lparr>sk_inbox := [], sk_outbox := sk_outbox sk @ copies ?t (bytes demo_stamped) [4]\<rparr>) k))"
    using dg_forward_sends [OF l(1) assms(3) l(2) assms(2) l(3) src demo_stamped_def refl good] by auto
  then show thesis using that unfolding to by blast
qed

abbreviation demo_socks :: "Sock \<Rightarrow> Sock \<Rightarrow> Sock \<Rightarrow> Kernel" where
  "demo_socks a b c \<equiv> \<lparr>next_fd = 3, socks = [0 \<mapsto> a, 1 \<mapsto> b, 2 \<mapsto> c], paths = {''/d'', ''/a'', ''/r''}\<rparr>"

abbreviation demo_net :: "DatagramRouterLink \<Rightarrow> Sock \<Rightarrow> Sock \<Rightarrow> Sock \<Rightarrow> DgNet" where
  "demo_net l a b c \<equiv> \<lparr>dn_link = l, dn_clients = [1 \<mapsto> demo_end False 1 1, 4 \<mapsto> demo_end False 4 2],
     dn_kernel = demo_socks a b c\<rparr>"

lemma demo_socks_put:
  "put_sock 0 x (demo_socks a b c) = demo_socks x b c" "put_sock 1 x (demo_socks a b c) = demo_socks a x c"
  "put_sock 2 x (demo_socks a b c) = demo_socks a b x"
  by (simp_all add: put_sock_def fun_eq_iff)

lemma demo_clients_same:
  "[1 :: u8 \<mapsto> demo_end False 1 1, 4 \<mapsto> demo_end False 4 2, 1 \<mapsto> demo_end False 1 1] = [1 \<mapsto> demo_end False 1 1, 4 \<mapsto> demo_end False 4 2]"
  "[1 :: u8 \<mapsto> demo_end False 1 1, 4 \<mapsto> demo_end False 4 2, 4 \<mapsto> demo_end False 4 2] = [1 \<mapsto> demo_end False 1 1, 4 \<mapsto> demo_end False 4 2]"
  by (simp_all add: fun_eq_iff)

lemma demo_uds_run:
  assumes "s0 = \<lparr>dn_link = demo_end True kEndpointInvalid 0, dn_clients = Map.empty,
      dn_kernel = \<lparr>next_fd = 1, socks = [0 \<mapsto> demo_bound ''/r''], paths = {''/r''}\<rparr>\<rparr>"
  obtains evs s where "dg_run demo_os (view mixed_loaded) demo_rules s0 evs s" "dg_received_by 4 evs = [demo_stamped]"
    "dg_sent_by 1 evs = [\<lparr>bytes = demo_frame\<rparr>]"
proof -
  let ?step = "dg_step demo_os (view mixed_loaded) demo_rules" and ?f = "\<lparr>bytes = demo_frame\<rparr>" and ?l = "demo_end True kEndpointInvalid 0"
  let ?R = "demo_bound ''/r''" and ?A = "demo_bound ''/a''" and ?D = "demo_bound ''/d''"
  let ?A1 = "?A\<lparr>sk_outbox := [(SockUn ''/r'', demo_frame)]\<rparr>"
  let ?R1 = "?R\<lparr>sk_inbox := [Arrived (Some (SockUn ''/a'')) demo_frame]\<rparr>"
  let ?R2 = "?R\<lparr>sk_outbox := [(SockUn ''/d'', bytes demo_stamped)]\<rparr>"
  let ?D1 = "?D\<lparr>sk_inbox := [Arrived (Some (SockUn ''/r'')) (bytes demo_stamped)]\<rparr>"
  let ?s1 = "\<lparr>dn_link = ?l, dn_clients = [1 \<mapsto> demo_end False 1 1],
      dn_kernel = \<lparr>next_fd = 2, socks = [0 \<mapsto> ?R, 1 \<mapsto> ?A], paths = {''/a'', ''/r''}\<rparr>\<rparr>"
  have wf: "wf_frame ?f" by (simp add: wf_frame_def demo_frame_length)
  have len: "length (bytes demo_stamped) = kRouterFrameSize"
    using wf by (simp add: demo_stamped_def wf_frame_def [symmetric] demo_frame_length)
  have g: "\<lparr>bytes = bytes demo_stamped\<rparr> = demo_stamped" by (cases demo_stamped) simp
  have 1: "?step s0 (DgJoined 1 (Inr ())) ?s1"
    using dg_join [OF _ demo_client_up [OF demo_peers(2) _ demo_peers(5)], of s0 demo_rules]
    by (simp add: assms c_str_def numeral_2_eq_2)
  have free: "dn_clients ?s1 4 = None" by simp
  have 2: "?step ?s1 (DgJoined 4 (Inr ())) (demo_net ?l ?R ?A ?D)"
    using dg_join [OF free demo_client_up [OF demo_peers(3) _ demo_peers(6)], of demo_rules]
    by (simp add: c_str_def numeral_3_eq_3 numeral_2_eq_2)
  have 3: "?step (demo_net ?l ?R ?A ?D) (DgSent 1 ?f) (demo_net ?l ?R ?A1 ?D)"
    using dg_send [OF _ wf demo_sends, of "demo_net ?l ?R ?A ?D" 1 1 1 ?A "view mixed_loaded" demo_rules]
    by (simp add: demo_socks_put demo_clients_same Sock_new_def)
  have 4: "?step (demo_net ?l ?R ?A1 ?D) (DgCarried (SockUn ''/r'') demo_frame) (demo_net ?l ?R1 ?A ?D)"
    using dg_carry [of "demo_net ?l ?R ?A1 ?D" 1 ?A1 "[]" "SockUn ''/r''" demo_frame "[]" _ 0 ?R demo_os "view mixed_loaded" demo_rules]
    by (simp add: demo_socks_put Sock_new_def)
  obtain r l where fwd: "dg_forward UdsT demo_os ?f 5 demo_rules (?l, demo_socks ?R1 ?A ?D) =
      (r, demo_stamped, (l, put_sock 0 (?R1\<lparr>sk_inbox := [], sk_outbox := sk_outbox ?R1 @ [(SockUn ''/d'', bytes demo_stamped)]\<rparr>)
        (demo_socks ?R1 ?A ?D)))"
    by (rule demo_router_forwards [OF _ _ wf, of "demo_socks ?R1 ?A ?D" ?R1]) simp_all
  have 5: "?step (demo_net ?l ?R1 ?A ?D) (DgForwarded r) (demo_net l ?R2 ?A ?D)"
    using dg_fwd [OF wf, of demo_os 5 demo_rules "demo_net ?l ?R1 ?A ?D"] fwd
    by (simp add: demo_socks_put Sock_new_def)
  have 6: "?step (demo_net l ?R2 ?A ?D) (DgCarried (SockUn ''/d'') (bytes demo_stamped)) (demo_net l ?R ?A ?D1)"
    using dg_carry [of "demo_net l ?R2 ?A ?D" 0 ?R2 "[]" "SockUn ''/d''" "bytes demo_stamped" "[]" _ 2 ?D demo_os "view mixed_loaded" demo_rules]
    by (simp add: demo_socks_put Sock_new_def)
  have 7: "?step (demo_net l ?R ?A ?D1) (DgReceived 4 demo_stamped) (demo_net l ?R ?A ?D)"
    using dg_recv [OF _ wf demo_receives [OF _ _ len wf], of "demo_net l ?R ?A ?D1" 4 4 2 ?D1 _ demo_os "view mixed_loaded" demo_rules]
    by (simp add: demo_socks_put demo_clients_same g Sock_new_def)
  let ?evs = "[DgJoined 1 (Inr ()), DgJoined 4 (Inr ()), DgSent 1 ?f, DgCarried (SockUn ''/r'') demo_frame, DgForwarded r,
      DgCarried (SockUn ''/d'') (bytes demo_stamped), DgReceived 4 demo_stamped]"
  have "dg_run demo_os (view mixed_loaded) demo_rules s0 ([] @ [DgJoined 1 (Inr ())] @ [DgJoined 4 (Inr ())] @ [DgSent 1 ?f]
      @ [DgCarried (SockUn ''/r'') demo_frame] @ [DgForwarded r] @ [DgCarried (SockUn ''/d'') (bytes demo_stamped)]
      @ [DgReceived 4 demo_stamped]) (demo_net l ?R ?A ?D)"
    unfolding append_assoc [symmetric] by (rule dg_run_snoc 1 2 3 4 5 6 7 dg_run_nil)+
  then show thesis using that [of ?evs] by (simp add: dg_received_by_def dg_sent_by_def)
qed

theorem dg_network_accounts_witness:
  "\<exists>evs s history. dg_received_by 4 evs = [demo_stamped] \<and> dg_sent_by 1 evs = [\<lparr>bytes = demo_frame\<rparr>]
    \<and> sender_account (view mixed_loaded) evs history (c_out s) (r_in s)
    \<and> receiver_account (view mixed_loaded) demo_rules evs history (c_in s) (r_out s)"
proof -
  have cfg: "kind (lt_listen mixed_loaded) = UdsPath"
    "distinct (uds_path (lt_listen mixed_loaded) # map peer_path (filter is_uds (lt_peers mixed_loaded)))"
    "socks no_sockets = Map.empty"
    by (simp_all add: mixed_loaded_def)
  obtain evs s where r: "dg_run demo_os (view mixed_loaded) demo_rules
      \<lparr>dn_link = demo_end True kEndpointInvalid 0, dn_clients = Map.empty,
       dn_kernel = \<lparr>next_fd = 1, socks = [0 \<mapsto> demo_bound ''/r''], paths = {''/r''}\<rparr>\<rparr> evs s"
    "dg_received_by 4 evs = [demo_stamped]" "dg_sent_by 1 evs = [\<lparr>bytes = demo_frame\<rparr>]"
    by (rule demo_uds_run [OF refl])
  from dg_network_accounts [OF mixed_loads cfg demo_server_up, unfolded mixed_loaded_facts(3), OF r(1)] r(2,3)
  show ?thesis by blast
qed

end
