(* ===== verification/LoaderComplete.thy ===== *)
theory LoaderComplete
  imports LoaderSound
begin

text \<open>
  The converse of \<open>LoaderSound\<close>: every well-formed topology can be written as a profile, and the
  loader (\<open>ipc/src/router/topology_loader.hpp\<close>) reads that profile back as the same topology. The
  rendering functions are specification, not code; NUL characters are excluded because the program
  keeps names as C strings.
\<close>

section \<open>Rendering\<close>

definition key_if :: "bool \<Rightarrow> string \<Rightarrow> toml_node \<Rightarrow> toml_table" where
  "key_if b k n = (if b then [(k, n)] else [])"

definition render_sideband :: "SidebandRegion \<Rightarrow> toml_node" where
  "render_sideband r = TTable ([(''name'', TString (region_name r)), (''max_payload_bytes'', TInteger (uint (max_payload_bytes r))),
     (''version'', TInteger (uint (version r))), (''memory_class'', TString (sideband_memory_class_name (memory_class r)))]
     @ key_if (cuda_device r \<noteq> kSidebandCudaDeviceUnset) ''cuda_device'' (TInteger (cuda_device r)))"

definition render_peer :: "PeerEntry \<Rightarrow> SidebandRegion list \<Rightarrow> toml_node" where
  "render_peer e g = TTable ([(''id'', TInteger (uint (peer_id e))), (''name'', TString (peer_name e)),
     (''local'', TString (address_spec (local_addr e))), (''sideband'', TArray (map render_sideband g))]
     @ key_if (kind (local_addr e) = ShmRing) ''shm_slot_count'' (TInteger (uint (shm_slot_count e)))
     @ key_if (kind (local_addr e) = ShmRing) ''shm_max_payload'' (TInteger (uint (shm_max_payload e))))"

definition render_route :: "RouteRule \<Rightarrow> toml_node" where
  "render_route r = TTable ([(''source'', TInteger (uint (rule_source r))),
     (''dest'', TArray (map (\<lambda>d. TInteger (uint d)) (rule_dests r)))]
     @ key_if (rule_topic r \<noteq> kRouteTopicAny) ''topic'' (TInteger (uint (rule_topic r))))"

definition render_topic :: "TopicEntry \<Rightarrow> toml_node" where
  "render_topic t = TTable ([(''id'', TInteger (uint (tid t))), (''name'', TString (the (topic_name t))),
     (''sideband_idx'', TInteger (uint (topic_sideband_idx t)))]
     @ key_if (payload_class t \<noteq> None) ''payload_class'' (TString (the (payload_class t))))"

definition render_router :: "RouterTopology \<Rightarrow> toml_node" where
  "render_router t = TTable ([(''listen'', TString (address_spec (router_listen t)))]
     @ key_if (listen_uds t \<noteq> None) ''listen_uds'' (TString (address_spec (the (listen_uds t))))
     @ key_if (listen_udp t \<noteq> None) ''listen_udp'' (TString (address_spec (the (listen_udp t)))))"

definition render_profile :: "RouterTopology \<Rightarrow> SidebandRegion list list \<Rightarrow> RouteRule list \<Rightarrow> toml_table" where
  "render_profile t gs rules =
     [(''router'', render_router t), (''peers'', TArray (map2 render_peer (peers t) gs)),
      (''routes'', TArray (map render_route rules)), (''topics'', TArray (map render_topic (topics t)))]"

section \<open>Reading back one table\<close>

lemma toml_at_key_if [simp]: "toml_at (key_if b k n) k' = (if b \<and> k = k' then Some n else None)"
  by (simp add: key_if_def)

fun addr_clean :: "PeerAddress \<Rightarrow> bool" where
  "addr_clean (peer_uds p) \<longleftrightarrow> c_str p = p"
| "addr_clean (peer_udp h _) \<longleftrightarrow> c_str h = h"
| "addr_clean (peer_shm n) \<longleftrightarrow> c_str n = n"

lemma load_address_render:
  "address_ok a \<Longrightarrow> addr_clean a \<Longrightarrow> \<exists>ss. load_address (address_spec a) lt = Inr (a, lt\<lparr>lt_strings := ss\<rparr>)"
  using parse_address_spec [of a]
  by (cases a) (auto simp del: address_spec.simps simp: load_address_def intern_def)

definition sideband_clean :: "SidebandRegion \<Rightarrow> bool" where
  "sideband_clean r \<longleftrightarrow> sideband_ok r \<and> c_str (region_name r) = region_name r"

lemma sideband_clean_size: "sideband_clean r \<Longrightarrow> 0 < uint (max_payload_bytes r) \<and> uint (max_payload_bytes r) < 2 ^ 63"
  by (simp add: sideband_clean_def sideband_ok_def word_less_def)

lemma parse_memory_class_name: "parse_sideband_memory_class (Some (sideband_memory_class_name mc)) out = (True, mc)"
  by (cases mc) (simp_all add: parse_sideband_memory_class_def strcmp_eq_def c_str_def)

lemma load_sideband_render:
  assumes "sideband_clean r"
  shows "\<exists>ss. load_sideband nm j (render_sideband r) lt
    = Inr (lt\<lparr>lt_strings := ss, lt_sidebands := lt_sidebands lt @ [r]\<rparr>)"
proof -
  have v: "\<not> uint (version r) > 0xffffffff" "\<not> uint (version r) < 0"
    using uint_lt2p [of "version r"] by simp_all
  have d: "\<not> cuda_device r < 0 \<and> \<not> cuda_device r > 255" if "cuda_device r \<noteq> -1"
    using assms that by (auto simp: sideband_clean_def sideband_ok_def)
  have b: "int64_of (uint (max_payload_bytes r)) = Some (uint (max_payload_bytes r))"
    "cuda_device r \<noteq> -1 \<Longrightarrow> int64_of (cuda_device r) = Some (cuda_device r)"
    using sideband_clean_size [OF assms] d by (auto intro!: int64_of_in)
  show ?thesis
    using assms v d b sideband_clean_size [OF assms]
    by (cases r, intro exI [of _ "lt_strings lt @ [region_name r]"]) (auto simp: load_sideband_def render_sideband_def load_version_def load_memory_class_def load_cuda_device_def
        parse_memory_class_name sideband_clean_def sideband_ok_def intern_def kSidebandCudaDeviceUnset_def
        not_less)
qed

lemma load_sidebands_render:
  "\<forall>r\<in>set g. sideband_clean r \<Longrightarrow> \<exists>ss. load_sidebands nm j (map render_sideband g) lt
    = Inr (lt\<lparr>lt_strings := ss, lt_sidebands := lt_sidebands lt @ g\<rparr>)"
proof (induction g arbitrary: j lt)
  case Nil
  show ?case by (auto intro!: exI [of _ "lt_strings lt"])
next
  case (Cons r g)
  obtain ss where ss: "load_sideband nm j (render_sideband r) lt
      = Inr (lt\<lparr>lt_strings := ss, lt_sidebands := lt_sidebands lt @ [r]\<rparr>)"
    using load_sideband_render Cons.prems by fastforce
  obtain tt where "load_sidebands nm (Suc j) (map render_sideband g) (lt\<lparr>lt_strings := ss, lt_sidebands := lt_sidebands lt @ [r]\<rparr>)
      = Inr (lt\<lparr>lt_strings := tt, lt_sidebands := lt_sidebands lt @ [r] @ g\<rparr>)"
    using Cons.IH [of "Suc j" "lt\<lparr>lt_strings := ss, lt_sidebands := lt_sidebands lt @ [r]\<rparr>"] Cons.prems by fastforce
  then show ?case using ss by auto
qed

definition peer_clean :: "PeerEntry \<Rightarrow> bool" where
  "peer_clean e \<longleftrightarrow> peer_ok e \<and> peer_name e \<noteq> [] \<and> c_str (peer_name e) = peer_name e \<and> address_ok (local_addr e)"

lemma addr_ok_clean: "addr_ok a \<Longrightarrow> addr_clean a"
  by (cases a) auto

lemma uint_bounds:
  fixes w :: "'w::len word"
  shows "unat w \<le> n \<Longrightarrow> uint w \<le> int n" "n \<le> unat w \<Longrightarrow> int n \<le> uint w"
proof -
  have w: "uint w = int (unat w)" by simp
  show "unat w \<le> n \<Longrightarrow> uint w \<le> int n" "n \<le> unat w \<Longrightarrow> int n \<le> uint w"
    unfolding w by (simp_all only: of_nat_le_iff)
qed

lemma reject_if_passes: "\<not> b \<Longrightarrow> reject_if b what = Inr ()"
  by simp

lemma load_sizes_render:
  assumes "peer_ok e"
  shows "load_slot_count nm (Some (uint (shm_slot_count e))) (e\<lparr>shm_slot_count := 0, shm_max_payload := 0\<rparr>)
      = Inr (e\<lparr>shm_max_payload := 0\<rparr>)"
    and "load_max_payload nm (Some (uint (shm_max_payload e))) (e\<lparr>shm_max_payload := 0\<rparr>) = Inr e"
proof -
  have "uint (shm_slot_count e) \<le> 2 ^ 20" using assms uint_bounds(1) [of "shm_slot_count e" "2 ^ 20"]
    by (simp add: peer_ok_def)
  then have "\<not> (uint (shm_slot_count e) \<noteq> 0
      \<and> (uint (shm_slot_count e) < kShmSlotCountMin \<or> uint (shm_slot_count e) > kShmSlotCountMax))"
    using uint_ge_0 [of "shm_slot_count e"] unfolding kShmSlotCountMin_def kShmSlotCountMax_def by linarith
  then show "load_slot_count nm (Some (uint (shm_slot_count e))) (e\<lparr>shm_slot_count := 0, shm_max_payload := 0\<rparr>)
      = Inr (e\<lparr>shm_max_payload := 0\<rparr>)"
    by (simp add: load_slot_count_def reject_if_passes)
  have "shm_max_payload e = 0 \<or> int kRouterFrameSize \<le> uint (shm_max_payload e) \<and> uint (shm_max_payload e) \<le> 256 * 1024 * 1024"
    using assms uint_bounds(1) [of "shm_max_payload e" "256 * 1024 * 1024"] uint_bounds(2) [of kRouterFrameSize "shm_max_payload e"]
    by (auto simp: peer_ok_def)
  then show "load_max_payload nm (Some (uint (shm_max_payload e))) (e\<lparr>shm_max_payload := 0\<rparr>) = Inr e"
    by (auto simp: load_max_payload_def kShmMaxPayloadMax_def reject_if_passes)
qed

lemma load_peer_entry_render:
  assumes "peer_clean e" "peer_id e \<notin> peer_id ` set (lt_peers lt)" "render_peer e g = TTable tbl"
  shows "\<exists>ss. load_peer_entry i tbl lt = Inr (peer_name e, e, lt\<lparr>lt_strings := ss\<rparr>)"
proof -
  let ?lt1 = "lt\<lparr>lt_strings := lt_strings lt @ [peer_name e]\<rparr>"
  obtain ss where a: "load_address (address_spec (local_addr e)) ?lt1 = Inr (local_addr e, lt\<lparr>lt_strings := ss\<rparr>)"
    using load_address_render [of "local_addr e" ?lt1] assms(1) by (auto simp: peer_clean_def peer_ok_def addr_ok_clean)
  have ok: "peer_ok e" and nm: "peer_name e \<noteq> []" "c_str (peer_name e) = peer_name e" "length (peer_name e) \<le> kPeerNameMaxLen"
    using assms(1) by (simp_all add: peer_clean_def peer_ok_def)
  have p: "1 \<le> uint (peer_id e)" "uint (peer_id e) \<le> 254"
    using ok uint_bounds(1) [of "peer_id e" 254] uint_bounds(2) [of 1 "peer_id e"] by (simp_all add: peer_ok_def)
  have new: "\<not> (\<exists>x\<in>set (lt_peers lt). peer_id x = peer_id e)" using assms(2) by (auto simp: image_iff)
  have e0: "\<lparr>peer_id = peer_id e, peer_name = peer_name e, local_addr = local_addr e, shm_slot_count = 0, shm_max_payload = 0\<rparr>
      = e\<lparr>shm_slot_count := 0, shm_max_payload := 0\<rparr>" by simp
  have plain: "e\<lparr>shm_slot_count := 0, shm_max_payload := 0\<rparr> = e" if "kind (local_addr e) \<noteq> ShmRing"
    using ok that by (cases e) (simp add: peer_ok_def)
  have tbl: "tbl = [(''id'', TInteger (uint (peer_id e))), (''name'', TString (peer_name e)),
     (''local'', TString (address_spec (local_addr e))), (''sideband'', TArray (map render_sideband g))]
     @ key_if (kind (local_addr e) = ShmRing) ''shm_slot_count'' (TInteger (uint (shm_slot_count e)))
     @ key_if (kind (local_addr e) = ShmRing) ''shm_max_payload'' (TInteger (uint (shm_max_payload e)))"
    using assms(3) by (simp add: render_peer_def)
  have at: "value_int (toml_at tbl ''id'') = Some (uint (peer_id e))" "value_string (toml_at tbl ''name'') = Some (peer_name e)"
    "value_string (toml_at tbl ''local'') = Some (address_spec (local_addr e))"
    "value_int (toml_at tbl ''shm_slot_count'') = (if kind (local_addr e) = ShmRing then Some (uint (shm_slot_count e)) else None)"
    "value_int (toml_at tbl ''shm_max_payload'') = (if kind (local_addr e) = ShmRing then Some (uint (shm_max_payload e)) else None)"
    by (simp_all add: tbl)
  have sizes: "rbind (load_slot_count (peer_name e) (if kind (local_addr e) = ShmRing then Some (uint (shm_slot_count e)) else None)
        (e\<lparr>shm_slot_count := 0, shm_max_payload := 0\<rparr>))
      (\<lambda>e1. rbind (load_max_payload (peer_name e) (if kind (local_addr e) = ShmRing then Some (uint (shm_max_payload e)) else None) e1) h)
      = h e" for h :: "PeerEntry \<Rightarrow> (string \<times> PeerEntry \<times> LoadedTopology) load"
    using load_sizes_render [OF ok] plain by (cases "kind (local_addr e) = ShmRing") (simp_all add: load_slot_count_def load_max_payload_def)
  have "load_peer_entry i tbl lt = Inr (peer_name e, e, lt\<lparr>lt_strings := ss\<rparr>)"
    using p nm new a unfolding load_peer_entry_def at
    by (simp add: intern_def e0 sizes reject_if_passes del: address_spec.simps)
  then show ?thesis by blast
qed

lemma load_peer_render:
  assumes "peer_clean e" "peer_id e \<notin> peer_id ` set (lt_peers lt)" "\<forall>r\<in>set g. sideband_clean r"
  shows "\<exists>ss. load_peer i (render_peer e g) lt = Inr (lt\<lparr>lt_strings := ss, lt_peers := lt_peers lt @ [e],
    lt_sidebands := lt_sidebands lt @ g, lt_ranges := lt_ranges lt @ ranges_of (length (lt_sidebands lt)) [g]\<rparr>)"
proof -
  obtain tbl where tbl: "render_peer e g = TTable tbl" by (simp add: render_peer_def)
  obtain ss where ss: "load_peer_entry i tbl lt = Inr (peer_name e, e, lt\<lparr>lt_strings := ss\<rparr>)"
    using load_peer_entry_render [OF assms(1,2) tbl] by blast
  let ?lt2 = "lt\<lparr>lt_strings := ss, lt_peers := lt_peers lt @ [e]\<rparr>"
  obtain tt where tt: "load_sidebands (peer_name e) 0 (map render_sideband g) ?lt2
      = Inr (?lt2\<lparr>lt_strings := tt, lt_sidebands := lt_sidebands lt @ g\<rparr>)"
    using load_sidebands_render [OF assms(3), of "peer_name e" 0 ?lt2] by auto
  have "as_array (toml_at tbl ''sideband'') = Some (map render_sideband g)"
    using tbl by (auto simp: render_peer_def)
  then have "load_peer i (render_peer e g) lt = Inr (lt\<lparr>lt_strings := tt, lt_peers := lt_peers lt @ [e],
    lt_sidebands := lt_sidebands lt @ g, lt_ranges := lt_ranges lt @ ranges_of (length (lt_sidebands lt)) [g]\<rparr>)"
    using tt by (simp add: load_peer_def tbl ss load_section_def)
  then show ?thesis by blast
qed

lemma load_peers_render:
  "length gs = length es \<Longrightarrow> \<forall>e\<in>set es. peer_clean e \<Longrightarrow> distinct (map peer_id (lt_peers lt @ es)) \<Longrightarrow>
   \<forall>g\<in>set gs. \<forall>r\<in>set g. sideband_clean r \<Longrightarrow>
   \<exists>ss. load_peers i (map2 render_peer es gs) lt = Inr (lt\<lparr>lt_strings := ss, lt_peers := lt_peers lt @ es,
    lt_sidebands := lt_sidebands lt @ concat gs, lt_ranges := lt_ranges lt @ ranges_of (length (lt_sidebands lt)) gs\<rparr>)"
proof (induction gs es arbitrary: i lt rule: list_induct2)
  case Nil
  show ?case by (auto intro!: exI [of _ "lt_strings lt"])
next
  case (Cons g gs e es)
  obtain ss where ss: "load_peer i (render_peer e g) lt = Inr (lt\<lparr>lt_strings := ss, lt_peers := lt_peers lt @ [e],
      lt_sidebands := lt_sidebands lt @ g, lt_ranges := lt_ranges lt @ ranges_of (length (lt_sidebands lt)) [g]\<rparr>)"
    (is "_ = Inr ?lt1")
    using load_peer_render [of e lt g i] Cons.prems by auto
  have "\<exists>tt. load_peers (Suc i) (map2 render_peer es gs) ?lt1 = Inr (?lt1\<lparr>lt_strings := tt, lt_peers := lt_peers ?lt1 @ es,
      lt_sidebands := lt_sidebands ?lt1 @ concat gs,
      lt_ranges := lt_ranges ?lt1 @ ranges_of (length (lt_sidebands ?lt1)) gs\<rparr>)"
    by (rule Cons.IH) (use Cons.prems in auto)
  then show ?case using ss by auto
qed

section \<open>Routes and topics\<close>

definition rule_clean :: "u8 set \<Rightarrow> RouteRule \<Rightarrow> bool" where
  "rule_clean known r \<longleftrightarrow> rule_ok known r \<and> dest r = rule_dests r @ replicate (kMaxRouteDests - length (rule_dests r)) 0
     \<and> of_nat (length (rule_dests r)) = dest_count r"

lemma extract_ids_render:
  "\<forall>d\<in>set ds. 1 \<le> uint d \<and> uint d \<le> 254 \<Longrightarrow> extract_ids i (map (\<lambda>d. TInteger (uint d)) ds) = Inr ds" for ds :: "u8 list"
  by (induction ds) (auto simp: extract_id_def reject_if_passes)

lemma route_topic_render:
  "load_route_topic i (if tp = kRouteTopicAny then None else Some (uint tp)) = Inr tp"
proof -
  have "uint tp \<noteq> 0xFFFF" if "tp \<noteq> kRouteTopicAny"
  proof
    assume "uint tp = 0xFFFF"
    then have "word_of_int (uint tp) = (word_of_int 0xFFFF :: u16)" by (rule arg_cong)
    then show False using that by (simp add: kRouteTopicAny_def)
  qed
  then show ?thesis using uint_lt2p [of tp] by (auto simp: load_route_topic_def reject_if_passes)
qed

lemma load_route_render:
  assumes "rule_clean (peer_id ` set (lt_peers lt)) r" "peers_ok lt"
  shows "load_route i (render_route r) lt = Inr (lt\<lparr>lt_routes := lt_routes lt @ [r]\<rparr>)"
proof -
  have r: "rule_dests r \<noteq> []" "distinct (rule_dests r)" "peer_exists lt (rule_source r)"
    "\<forall>d\<in>set (rule_dests r). peer_exists lt d \<and> d \<noteq> rule_source r" "length (rule_dests r) \<le> kMaxRouteDests"
    "dest r = rule_dests r @ replicate (kMaxRouteDests - length (rule_dests r)) 0" "of_nat (length (rule_dests r)) = dest_count r"
    using assms(1) by (auto simp: rule_clean_def rule_ok_def peer_exists_iff rule_dests_def wf_rule_def)
  have "1 \<le> uint (peer_id e) \<and> uint (peer_id e) \<le> 254" if "e \<in> set (lt_peers lt)" for e
    using assms(2) that uint_bounds(1) [of "peer_id e" 254] uint_bounds(2) [of 1 "peer_id e"]
    by (simp add: peers_ok_def peer_ok_def)
  then have ids: "extract_ids i (map (\<lambda>d. TInteger (uint d)) (rule_dests r)) = Inr (rule_dests r)"
    using r(4) by (intro extract_ids_render) (auto simp: peer_exists_def)
  have at: "toml_at tbl k = (if k = ''source'' then Some (TInteger (uint (rule_source r)))
      else if k = ''dest'' then Some (TArray (map (\<lambda>d. TInteger (uint d)) (rule_dests r)))
      else if k = ''topic'' \<and> rule_topic r \<noteq> kRouteTopicAny then Some (TInteger (uint (rule_topic r))) else None)"
    if "render_route r = TTable tbl" for tbl k
    using that by (auto simp: render_route_def)
  obtain tbl where tbl: "render_route r = TTable tbl" by (simp add: render_route_def)
  have rule: "\<lparr>rule_source = rule_source r, dest_count = dest_count r, rule_topic = tp,
      dest = rule_dests r @ replicate (kMaxRouteDests - length (rule_dests r)) 0\<rparr> = r" if "rule_topic r = tp" for tp
    using r(6) that by simp
  have chk: "check_dests i (rule_source r) lt [] (rule_dests r) = Inr ()" using r(2,4) by (simp add: check_dests_ok)
  show ?thesis
    using r(1,3,5) route_topic_render [of i "rule_topic r"]
    by (cases "rule_topic r = kRouteTopicAny")
      (simp_all add: load_route_def tbl at [OF tbl] ids chk reject_if_passes r(7) rule Let_def)
qed

lemma load_routes_render:
  "\<forall>r\<in>set rs. rule_clean (peer_id ` set (lt_peers lt)) r \<Longrightarrow> peers_ok lt \<Longrightarrow>
   load_routes i (map render_route rs) lt = Inr (lt\<lparr>lt_routes := lt_routes lt @ rs\<rparr>)"
proof (induction rs arbitrary: i lt)
  case (Cons r rs)
  have "peers_ok (lt\<lparr>lt_routes := lt_routes lt @ [r]\<rparr>)" using Cons.prems(2) by (simp add: peers_ok_def)
  then show ?case
    using Cons.prems Cons.IH [of "lt\<lparr>lt_routes := lt_routes lt @ [r]\<rparr>"] load_route_render by simp
qed simp

definition topic_clean :: "TopicEntry \<Rightarrow> bool" where
  "topic_clean t \<longleftrightarrow> topic_ok t \<and> topic_name t \<noteq> Some [] \<and> (\<forall>c. payload_class t = Some c \<longrightarrow> c \<noteq> [] \<and> c_str c = c)"

lemma u16_range: "\<not> uint w < 0" "\<not> uint w > 0xFFFF" for w :: u16
  using uint_lt2p [of w] by simp_all

lemma load_payload_class_render:
  assumes "\<forall>c. pc = Some c \<longrightarrow> c \<noteq> [] \<and> c_str c = c \<and> length c \<le> kTopicPayloadClassMaxLen" "payload_class tp = None"
  shows "\<exists>ss. load_payload_class nm pc tp lt = Inr (tp\<lparr>payload_class := pc\<rparr>, lt\<lparr>lt_strings := ss\<rparr>)"
proof (cases pc)
  case None
  then show ?thesis
    using assms(2) by (intro exI [of _ "lt_strings lt"]) (simp add: load_payload_class_def)
next
  case (Some c)
  then show ?thesis
    using assms by (intro exI [of _ "lt_strings lt @ [c]"]) (simp add: load_payload_class_def intern_def reject_if_passes)
qed

lemma topic_name_new:
  assumes "topics_ok lt" "Some nm \<notin> topic_name ` set (lt_topics lt)" "c_str nm = nm" "x \<in> set (lt_topics lt)"
  shows "\<not> (case topic_name x of None \<Rightarrow> False | Some n \<Rightarrow> strcmp_eq n nm)"
proof -
  have "topic_ok x" using assms(1,4) by (simp add: topics_ok_def)
  then obtain n where n: "topic_name x = Some n" "c_str n = n" unfolding topic_ok_def by blast
  have "topic_name x \<noteq> Some nm" using assms(2,4) by (metis imageI)
  then show ?thesis using n assms(3) by (simp add: strcmp_eq_def)
qed

lemma topic_clean_name:
  assumes "topic_clean t"
  obtains nm where "topic_name t = Some nm" "length nm \<le> kTopicNameMaxLen" "c_str nm = nm" "nm \<noteq> []"
  using assms unfolding topic_clean_def topic_ok_def by (elim exE conjE) (rule that, simp_all)

lemma load_topic_render:
  assumes "topic_clean t" "tid t \<notin> tid ` set (lt_topics lt)" "topic_name t \<notin> topic_name ` set (lt_topics lt)" "topics_ok lt"
  shows "\<exists>ss. load_topic i (render_topic t) lt = Inr (lt\<lparr>lt_strings := ss, lt_topics := lt_topics lt @ [t]\<rparr>)"
proof -
  obtain nm where nm: "topic_name t = Some nm" "length nm \<le> kTopicNameMaxLen" "c_str nm = nm" "nm \<noteq> []"
    by (rule topic_clean_name [OF assms(1)])
  have ids: "\<not> (\<exists>x\<in>set (lt_topics lt). tid x = tid t)" using assms(2) by (metis imageI)
  have names: "\<not> (\<exists>x\<in>set (lt_topics lt). case topic_name x of None \<Rightarrow> False | Some n \<Rightarrow> strcmp_eq n nm)"
    using topic_name_new [OF assms(4) assms(3) [unfolded nm(1)] nm(3)] by blast
  obtain tbl where tbl: "render_topic t = TTable tbl" by (simp add: render_topic_def)
  then have at: "value_int (toml_at tbl ''id'') = Some (uint (tid t))" "value_string (toml_at tbl ''name'') = Some nm"
    "value_int (toml_at tbl ''sideband_idx'') = Some (uint (topic_sideband_idx t))"
    "value_string (toml_at tbl ''payload_class'') = payload_class t"
    using nm(1) by (auto simp: render_topic_def)
  let ?t0 = "\<lparr>tid = tid t, topic_sideband_idx = 0, topic_name = Some nm, payload_class = None\<rparr>"
  let ?lt1 = "lt\<lparr>lt_strings := lt_strings lt @ [nm]\<rparr>"
  have "\<forall>c. payload_class t = Some c \<longrightarrow> c \<noteq> [] \<and> c_str c = c \<and> length c \<le> kTopicPayloadClassMaxLen"
    using assms(1) by (simp add: topic_clean_def topic_ok_def)
  from load_payload_class_render [OF this, of ?t0 nm ?lt1] obtain ss
    where pc: "load_payload_class nm (payload_class t) ?t0 ?lt1
      = Inr (?t0\<lparr>payload_class := payload_class t\<rparr>, ?lt1\<lparr>lt_strings := ss\<rparr>)"
    by (elim meta_impE exE) simp_all
  have eq: "?t0\<lparr>payload_class := payload_class t, topic_sideband_idx := topic_sideband_idx t\<rparr> = t"
    using nm(1) by (cases t) simp
  have "load_topic i (render_topic t) lt = Inr (lt\<lparr>lt_strings := ss, lt_topics := lt_topics lt
      @ [?t0\<lparr>payload_class := payload_class t, topic_sideband_idx := topic_sideband_idx t\<rparr>]\<rparr>)"
    using nm(2-4) u16_range [of "tid t"] u16_range [of "topic_sideband_idx t"] pc
    by (simp add: load_topic_def tbl at intern_def reject_if_passes ids names load_sideband_idx_def)
  then show ?thesis by (simp only: eq) (rule exI, rule refl)
qed

lemma load_topics_render:
  "\<forall>t\<in>set ts. topic_clean t \<Longrightarrow> distinct (map tid (lt_topics lt @ ts)) \<Longrightarrow>
   distinct (map topic_name (lt_topics lt @ ts)) \<Longrightarrow> topics_ok lt \<Longrightarrow>
   \<exists>ss. load_topics i (map render_topic ts) lt = Inr (lt\<lparr>lt_strings := ss, lt_topics := lt_topics lt @ ts\<rparr>)"
proof (induction ts arbitrary: i lt)
  case Nil
  show ?case by (auto intro!: exI [of _ "lt_strings lt"])
next
  case (Cons t ts)
  obtain ss where ss: "load_topic i (render_topic t) lt = Inr (lt\<lparr>lt_strings := ss, lt_topics := lt_topics lt @ [t]\<rparr>)"
    (is "_ = Inr ?lt1")
    using load_topic_render [of t lt i] Cons.prems by auto
  have "\<exists>tt. load_topics (Suc i) (map render_topic ts) ?lt1 = Inr (?lt1\<lparr>lt_strings := tt, lt_topics := lt_topics ?lt1 @ ts\<rparr>)"
    by (rule Cons.IH) (use Cons.prems in \<open>auto simp: topics_ok_def topic_clean_def\<close>)
  then show ?case using ss by auto
qed

section \<open>The whole profile\<close>

text \<open>What can be written down: \<open>loaded_ok\<close> in terms of the topology, with non-empty C strings.\<close>

definition declarable :: "RouterTopology \<Rightarrow> SidebandRegion list list \<Rightarrow> RouteRule list \<Rightarrow> bool" where
  "declarable t gs rules \<longleftrightarrow>
     peers t \<noteq> [] \<and> (\<forall>e\<in>set (peers t). peer_clean e) \<and> distinct (map peer_id (peers t))
     \<and> length gs = length (peers t) \<and> (\<forall>g\<in>set gs. \<forall>r\<in>set g. sideband_clean r)
     \<and> address_ok (router_listen t) \<and> addr_clean (router_listen t)
     \<and> (kind (router_listen t) = UdsPath \<longrightarrow> listen_uds t \<noteq> None)
     \<and> (kind (router_listen t) = UdpEndpoint \<longrightarrow> listen_udp t \<noteq> None)
     \<and> (\<forall>a. listen_uds t = Some a \<longrightarrow> address_ok a \<and> addr_clean a \<and> kind a = UdsPath)
     \<and> (\<forall>a. listen_udp t = Some a \<longrightarrow> address_ok a \<and> addr_clean a \<and> kind a = UdpEndpoint)
     \<and> (\<forall>e\<in>set (peers t). (kind (local_addr e) = UdsPath \<longrightarrow> listen_uds t \<noteq> None)
          \<and> (kind (local_addr e) = UdpEndpoint \<longrightarrow> listen_udp t \<noteq> None))
     \<and> (\<forall>r\<in>set rules. rule_clean (peer_id ` set (peers t)) r
          \<and> (rule_topic r = kRouteTopicAny \<or> rule_topic r \<in> tid ` set (topics t)))
     \<and> (\<forall>x\<in>set (topics t). topic_clean x) \<and> distinct (map tid (topics t)) \<and> distinct (map topic_name (topics t))"

lemma update_order: "\<exists>tt. lt\<lparr>lt_listen_uds := u, lt_strings := ss, lt_listen_udp := d\<rparr>
    = lt\<lparr>lt_strings := tt, lt_listen_uds := u, lt_listen_udp := d\<rparr>"
  by (rule exI [of _ ss]) simp

lemma load_listens_render:
  assumes "\<forall>a. u = Some a \<longrightarrow> address_ok a \<and> addr_clean a \<and> kind a = UdsPath"
    "\<forall>a. d = Some a \<longrightarrow> address_ok a \<and> addr_clean a \<and> kind a = UdpEndpoint"
    "value_string (toml_at sec ''listen_uds'') = map_option address_spec u"
    "value_string (toml_at sec ''listen_udp'') = map_option address_spec d"
    "u = None \<Longrightarrow> lt_listen_uds lt = None" "d = None \<Longrightarrow> lt_listen_udp lt = None"
  shows "\<exists>ss. rbind (load_listen_uds sec lt) (load_listen_udp sec)
    = Inr (lt\<lparr>lt_strings := ss, lt_listen_uds := u, lt_listen_udp := d\<rparr>)"
proof -
  have "\<exists>ss. load_listen_uds sec lt = Inr (lt\<lparr>lt_strings := ss, lt_listen_uds := u\<rparr>)"
  proof (cases u)
    case None
    then show ?thesis using assms(3,5) by (auto simp: load_listen_uds_def intro!: exI [of _ "lt_strings lt"])
  next
    case (Some a)
    then show ?thesis
      using assms(1,3) load_address_render [of a lt] by (auto simp: load_listen_uds_def)
  qed
  then obtain ss where ss: "load_listen_uds sec lt = Inr (lt\<lparr>lt_strings := ss, lt_listen_uds := u\<rparr>)" by blast
  have "\<exists>tt. load_listen_udp sec (lt\<lparr>lt_strings := ss, lt_listen_uds := u\<rparr>)
      = Inr (lt\<lparr>lt_strings := tt, lt_listen_uds := u, lt_listen_udp := d\<rparr>)"
  proof (cases d)
    case None
    then show ?thesis using assms(4,6) by (auto simp: load_listen_udp_def intro!: exI [of _ ss])
  next
    case (Some a)
    then show ?thesis
      using assms(2,4) load_address_render [of a "lt\<lparr>lt_strings := ss, lt_listen_uds := u\<rparr>"]
      by (auto simp: load_listen_udp_def intro!: update_order)
  qed
  then show ?thesis using ss by simp
qed

lemma load_router_render:
  assumes "declarable t gs rules"
  shows "\<exists>ss. load_router (render_profile t gs rules) LoadedTopology_new
    = Inr (LoadedTopology_new\<lparr>lt_strings := ss, lt_listen := router_listen t, lt_listen_uds := listen_uds t,
        lt_listen_udp := listen_udp t\<rparr>)"
proof -
  let ?a = "router_listen t"
  obtain sec where sec: "render_router t = TTable sec" by (simp add: render_router_def)
  then have at: "value_string (toml_at sec ''listen'') = Some (address_spec ?a)"
    "value_string (toml_at sec ''listen_uds'') = map_option address_spec (listen_uds t)"
    "value_string (toml_at sec ''listen_udp'') = map_option address_spec (listen_udp t)"
    by (auto simp: render_router_def)
  have d: "address_ok ?a" "addr_clean ?a"
    "kind ?a = UdsPath \<Longrightarrow> listen_uds t \<noteq> None" "kind ?a = UdpEndpoint \<Longrightarrow> listen_udp t \<noteq> None"
    "\<forall>a. listen_uds t = Some a \<longrightarrow> address_ok a \<and> addr_clean a \<and> kind a = UdsPath"
    "\<forall>a. listen_udp t = Some a \<longrightarrow> address_ok a \<and> addr_clean a \<and> kind a = UdpEndpoint"
    using assms by (simp_all add: declarable_def)
  obtain ss where ss: "load_address (address_spec ?a) LoadedTopology_new = Inr (?a, LoadedTopology_new\<lparr>lt_strings := ss\<rparr>)"
    using load_address_render [OF d(1,2)] by blast
  let ?lt2 = "LoadedTopology_new\<lparr>lt_strings := ss, lt_listen := ?a\<rparr>"
  let ?lt3 = "case kind ?a of UdsPath \<Rightarrow> ?lt2\<lparr>lt_listen_uds := Some ?a\<rparr>
    | UdpEndpoint \<Rightarrow> ?lt2\<lparr>lt_listen_udp := Some ?a\<rparr> | ShmRing \<Rightarrow> ?lt2"
  have none: "listen_uds t = None \<Longrightarrow> lt_listen_uds ?lt3 = None" "listen_udp t = None \<Longrightarrow> lt_listen_udp ?lt3 = None"
    using d(3,4) by (auto simp: LoadedTopology_new_def split: PeerAddressKind.splits)
  obtain tt where "rbind (load_listen_uds sec ?lt3) (load_listen_udp sec)
      = Inr (?lt3\<lparr>lt_strings := tt, lt_listen_uds := listen_uds t, lt_listen_udp := listen_udp t\<rparr>)"
    using load_listens_render [OF d(5,6) at(2,3) none] by blast
  moreover have "?lt3\<lparr>lt_strings := tt, lt_listen_uds := listen_uds t, lt_listen_udp := listen_udp t\<rparr>
      = LoadedTopology_new\<lparr>lt_strings := tt, lt_listen := ?a, lt_listen_uds := listen_uds t, lt_listen_udp := listen_udp t\<rparr>"
    by (simp split: PeerAddressKind.splits)
  moreover have "load_router (render_profile t gs rules) LoadedTopology_new
      = rbind (load_listen_uds sec ?lt3) (load_listen_udp sec)"
    by (simp add: load_router_def render_profile_def sec at(1) ss Let_def)
  ultimately show ?thesis by metis
qed

lemma build_from_render:
  assumes "declarable t gs rules"
  shows "\<exists>ss. build_from (render_profile t gs rules) LoadedTopology_new
    = Inr \<lparr>lt_strings = ss, lt_peers = peers t, lt_routes = rules, lt_topics = topics t, lt_sidebands = concat gs,
        lt_ranges = ranges_of 0 gs, lt_listen = router_listen t, lt_listen_uds = listen_uds t, lt_listen_udp = listen_udp t\<rparr>"
proof -
  let ?root = "render_profile t gs rules"
  let ?L = "\<lambda>ss ps rs ts sb rg. \<lparr>lt_strings = ss, lt_peers = ps, lt_routes = rs, lt_topics = ts, lt_sidebands = sb,
    lt_ranges = rg, lt_listen = router_listen t, lt_listen_uds = listen_uds t, lt_listen_udp = listen_udp t\<rparr>"
  have d: "peers t \<noteq> []" "\<forall>e\<in>set (peers t). peer_clean e" "distinct (map peer_id (peers t))" "length gs = length (peers t)"
    "\<forall>g\<in>set gs. \<forall>r\<in>set g. sideband_clean r" "\<forall>x\<in>set (topics t). topic_clean x" "distinct (map tid (topics t))"
    "distinct (map topic_name (topics t))"
    "\<forall>r\<in>set rules. rule_clean (peer_id ` set (peers t)) r"
    "\<forall>r\<in>set rules. rule_topic r = kRouteTopicAny \<or> rule_topic r \<in> tid ` set (topics t)"
    using assms by (simp_all add: declarable_def)
  obtain s1 where "load_router ?root LoadedTopology_new = Inr (LoadedTopology_new\<lparr>lt_strings := s1,
      lt_listen := router_listen t, lt_listen_uds := listen_uds t, lt_listen_udp := listen_udp t\<rparr>)"
    using load_router_render [OF assms] by blast
  then have 1: "load_router ?root LoadedTopology_new = Inr (?L s1 [] [] [] [] [])" by (simp add: LoadedTopology_new_def)
  obtain s2 where 2: "load_peers 0 (map2 render_peer (peers t) gs) (?L s1 [] [] [] [] [])
      = Inr (?L s2 (peers t) [] [] (concat gs) (ranges_of 0 gs))"
    using load_peers_render [OF d(4,2) _ d(5), of "?L s1 [] [] [] [] []" 0] d(3) by auto
  let ?lt2 = "?L s2 (peers t) [] [] (concat gs) (ranges_of 0 gs)"
  have 3: "check_listens (peers t) ?lt2 = Inr ()" using assms by (simp add: check_listens_ok declarable_def)
  have "peers_ok ?lt2" using d(2,3) by (simp add: peers_ok_def peer_clean_def)
  then have 4: "load_routes 0 (map render_route rules) ?lt2 = Inr (?L s2 (peers t) rules [] (concat gs) (ranges_of 0 gs))"
    using load_routes_render [of rules ?lt2 0] d(9) by simp
  obtain s5 where 5: "load_topics 0 (map render_topic (topics t)) (?L s2 (peers t) rules [] (concat gs) (ranges_of 0 gs))
      = Inr (?L s5 (peers t) rules (topics t) (concat gs) (ranges_of 0 gs))"
    using load_topics_render [OF d(6), of "?L s2 (peers t) rules [] (concat gs) (ranges_of 0 gs)" 0] d(7,8)
    by (auto simp: topics_ok_def)
  let ?lt5 = "?L s5 (peers t) rules (topics t) (concat gs) (ranges_of 0 gs)"
  have 6: "check_route_topics rules ?lt5 = Inr ()" using d(10) by (simp add: check_route_topics_ok)
  have ne: "map2 render_peer (peers t) gs \<noteq> []" using d(1,4) by (cases "peers t"; cases gs) auto
  have at: "as_array (toml_at ?root ''peers'') = Some (map2 render_peer (peers t) gs)"
    "as_array (toml_at ?root ''routes'') = Some (map render_route rules)"
    "as_array (toml_at ?root ''topics'') = Some (map render_topic (topics t))"
    by (simp_all add: render_profile_def)
  have "build_from ?root LoadedTopology_new = Inr ?lt5"
    using ne by (simp add: build_from_def 1 at 2 3 load_section_def 4 5 6)
  then show ?thesis by blast
qed

text \<open>
  C21: the loader accepts every well-formed deployment and changes nothing in it. Written out as a
  profile and loaded again, a topology with its sideband groups and rule table comes back: the view
  is the topology, the rules are the rules, and each peer's sidebands are its group.
\<close>

theorem profile_roundtrip:
  assumes "declarable t gs rules"
  shows "\<exists>lt. load_topology_from_toml_string (\<lambda>_. Inr (render_profile t gs rules)) text = Inr lt
    \<and> view lt = t \<and> lt_routes lt = rules
    \<and> map (\<lambda>e. sidebands_for lt (peer_id e)) (peers t) = map (\<lambda>g. (if g = [] then None else Some g, length g)) gs"
proof -
  let ?parse = "\<lambda>_ :: string. Inr (render_profile t gs rules)"
  obtain ss where "build_from (render_profile t gs rules) LoadedTopology_new
    = Inr \<lparr>lt_strings = ss, lt_peers = peers t, lt_routes = rules, lt_topics = topics t, lt_sidebands = concat gs,
        lt_ranges = ranges_of 0 gs, lt_listen = router_listen t, lt_listen_uds = listen_uds t, lt_listen_udp = listen_udp t\<rparr>"
    (is "_ = Inr ?lt")
    using build_from_render [OF assms] by blast
  then have l: "load_topology_from_toml_string ?parse text = Inr ?lt" by (simp add: load_topology_from_toml_string_def)
  have len: "length gs = length (peers t)" using assms by (simp add: declarable_def)
  have "sidebands_for ?lt (peer_id (peers t ! k)) = (if gs ! k = [] then None else Some (gs ! k), length (gs ! k))"
    if k: "k < length (peers t)" for k
  proof -
    have "distinct (map peer_id (lt_peers ?lt))" using assms by (simp add: declarable_def)
    then have "length (takeWhile (\<lambda>e. peer_id e \<noteq> peer_id (peers t ! k)) (peers t)) = k"
      using k by (simp add: takeWhile_index)
    moreover have "peer_by_id (view ?lt) (peer_id (peers t ! k)) = Some (peers t ! k)"
      using from_string.peer_found [OF l] k by simp
    ultimately show ?thesis
      using k len slice_group [of k gs] ranges_of_nth [of k gs 0] by (simp add: sidebands_for_def Let_def)
  qed
  then have "map (\<lambda>e. sidebands_for ?lt (peer_id e)) (peers t) = map (\<lambda>g. (if g = [] then None else Some g, length g)) gs"
    by (intro nth_equalityI) (simp_all add: len)
  then show ?thesis using l by (intro exI [of _ ?lt]) (simp add: view_def)
qed

lemma demo_rule_clean: "\<forall>r\<in>set (lt_routes demo_loaded). rule_clean {1, 2} r"
  by (simp add: demo_loaded_def rule_clean_def rule_ok_def rule_dests_def wf_rule_def kMaxRouteDests_def numeral_eq_Suc)

lemma demo_peer_clean: "\<forall>e\<in>set (lt_peers demo_loaded). peer_clean e"
  by (simp add: demo_loaded_def peer_clean_def peer_ok_def c_str_def kPeerNameMaxLen_def kShmNameMaxLen_def)

lemma demo_declarable: "declarable (view demo_loaded) [lt_sidebands demo_loaded, []] (lt_routes demo_loaded)"
proof -
  have "peer_id ` set (lt_peers demo_loaded) = {1, 2}" by (simp add: demo_loaded_def)
  moreover have "\<forall>r\<in>set (lt_routes demo_loaded). rule_topic r \<in> tid ` set (lt_topics demo_loaded)"
    by (simp add: demo_loaded_def)
  moreover have "\<forall>r\<in>set (lt_sidebands demo_loaded). sideband_clean r"
    by (simp add: demo_loaded_def sideband_clean_def sideband_ok_def c_str_def kSidebandNameMaxLen_def
        kSidebandCudaDeviceUnset_def)
  moreover have "\<forall>t\<in>set (lt_topics demo_loaded). topic_clean t"
    by (simp add: demo_loaded_def topic_clean_def topic_ok_def c_str_def kTopicNameMaxLen_def)
  moreover have "lt_listen demo_loaded = peer_shm ''/rt''" "lt_listen_uds demo_loaded = None" "lt_listen_udp demo_loaded = None"
    "length (lt_peers demo_loaded) = 2" "distinct (map peer_id (lt_peers demo_loaded))"
    "distinct (map tid (lt_topics demo_loaded))" "distinct (map topic_name (lt_topics demo_loaded))"
    "\<forall>e\<in>set (lt_peers demo_loaded). kind (local_addr e) = ShmRing"
    by (simp_all add: demo_loaded_def)
  ultimately show ?thesis
    using demo_rule_clean demo_peer_clean by (auto simp: declarable_def view_def c_str_def kShmNameMaxLen_def)
qed

theorem profile_roundtrip_witness:
  "\<exists>lt. load_topology_from_toml_string
      (\<lambda>_. Inr (render_profile (view demo_loaded) [lt_sidebands demo_loaded, []] (lt_routes demo_loaded))) [] = Inr lt
    \<and> view lt = view demo_loaded \<and> lt_routes lt = lt_routes demo_loaded"
  using profile_roundtrip [OF demo_declarable] by blast

end
