(* ===== verification/App.thy ===== *)
theory App
  imports Datagram LinkBase
begin

text \<open>
  \<open>ipc/src/ipc/app_shutdown.hpp\<close>, \<open>ipc/src/router_app.h\<close> and the stop flag of
  \<open>ipc/src/router/lifecycle.hpp\<close>: what an application adds around the library. The process state
  has the static variables of these headers (the stop flag, the registered log function) and the
  parts of the system they touch: signal dispositions, standard error and the calls made to
  registered log functions, which are named by numbers. The environment is the argument \<open>env\<close>.
\<close>

datatype signal = SIGTERM | SIGINT | SIGOTHER nat

datatype handler = SigDefault | AppOnStop

record Proc =
  stop_var :: int
  handlers :: "signal \<Rightarrow> handler"
  log_fn :: "nat option"
  log_calls :: "(nat \<times> int \<times> string) list"
  stderr_out :: string

section \<open>Graceful shutdown\<close>

definition app_stop_flag :: "Proc \<Rightarrow> int" where
  "app_stop_flag p = stop_var p"

definition router_stop_flag :: "Proc \<Rightarrow> int" where
  "router_stop_flag p = app_stop_flag p"

definition app_on_stop :: "Proc \<Rightarrow> Proc" where
  "app_on_stop p = p\<lparr>stop_var := 1\<rparr>"

definition install_app_stop_handlers :: "Proc \<Rightarrow> Proc" where
  "install_app_stop_handlers p = p\<lparr>handlers := (handlers p)(SIGTERM := AppOnStop, SIGINT := AppOnStop)\<rparr>"

definition app_stop_requested :: "Proc \<Rightarrow> bool" where
  "app_stop_requested p \<longleftrightarrow> stop_var p \<noteq> 0"

definition app_reset_stop_flag :: "Proc \<Rightarrow> Proc" where
  "app_reset_stop_flag p = p\<lparr>stop_var := 0\<rparr>"

definition install_router_stop_handlers :: "Proc \<Rightarrow> Proc" where
  "install_router_stop_handlers p = install_app_stop_handlers p"

definition router_stop_requested :: "Proc \<Rightarrow> bool" where
  "router_stop_requested p = app_stop_requested p"

text \<open>Delivery of a signal: the handler, or \<open>None\<close> when the default action ends the process.\<close>

definition deliver_signal :: "signal \<Rightarrow> Proc \<Rightarrow> Proc option" where
  "deliver_signal sg p = (case handlers p sg of AppOnStop \<Rightarrow> Some (app_on_stop p) | SigDefault \<Rightarrow> None)"

definition router_test_mode :: "(string \<Rightarrow> string option) \<Rightarrow> bool" where
  "router_test_mode env \<longleftrightarrow> env ''ROUTER_TEST'' \<noteq> None"

section \<open>Readiness notification\<close>

text \<open>
  The destination of a notification: a path, or an abstract name, whose first byte is NUL. The
  values of environment variables contain no NUL, so their length is that of the list.
\<close>

definition notify_address :: "string \<Rightarrow> sockaddr" where
  "notify_address path = (if hd path = CHR ''@'' then SockUn (NUL # tl path) else SockUn path)"

text \<open>The result, the datagram sent if any, and the kernel afterwards. A null \<open>state\<close> is \<open>None\<close>.\<close>

definition router_sd_notify :: "(string \<Rightarrow> string option) \<Rightarrow> NetOs \<Rightarrow> string option \<Rightarrow> Kernel \<Rightarrow>
    bool \<times> (sockaddr \<times> bytes) option \<times> Kernel" where
  "router_sd_notify env os state k =
     (case env ''NOTIFY_SOCKET'' of
        None \<Rightarrow> (False, None, k)
      | Some path \<Rightarrow> (case state of
          None \<Rightarrow> (False, None, k)
        | Some st \<Rightarrow>
            if path = [] then (False, None, k)
            else if length path = 0 \<or> length path \<ge> 108 then (False, None, k)
            else (case Socket_open os k of
                (Inl _, k1) \<Rightarrow> (False, None, k1)
              | (Inr h, k1) \<Rightarrow>
                  let msg = map byte_of_char (c_str st); addr = notify_address path in
                  (case sys_sendto os (fd h) addr msg k1 of
                     (ok, k2) \<Rightarrow> (ok, if ok then Some (addr, msg) else None, sys_close (fd h) k2)))))"

definition router_notify_ready :: "(string \<Rightarrow> string option) \<Rightarrow> NetOs \<Rightarrow> Kernel \<Rightarrow> bool \<times> (sockaddr \<times> bytes) option \<times> Kernel" where
  "router_notify_ready env os k = router_sd_notify env os (Some ''READY=1'') k"

definition router_notify_stopping :: "(string \<Rightarrow> string option) \<Rightarrow> NetOs \<Rightarrow> Kernel \<Rightarrow> bool \<times> (sockaddr \<times> bytes) option \<times> Kernel" where
  "router_notify_stopping env os k = router_sd_notify env os (Some ''STOPPING=1'') k"

section \<open>Real-time hardening\<close>

text \<open>\<open>mlockall\<close> and \<open>sched_setaffinity\<close> are the kernel's answers; \<open>CPU_SET\<close> ignores a core beyond
  the 1024 bits of \<open>cpu_set_t\<close>.\<close>

definition router_lock_memory :: "int \<Rightarrow> bool" where
  "router_lock_memory mlockall_result \<longleftrightarrow> mlockall_result = 0"

definition router_pin_to_core :: "(nat set \<Rightarrow> int) \<Rightarrow> int \<Rightarrow> bool" where
  "router_pin_to_core sched_setaffinity core =
     (if core < 0 then False
      else sched_setaffinity (if nat core < 1024 then {nat core} else {}) = 0)"

section \<open>Logging\<close>

definition ROUTER_LOG_INFO :: int where "ROUTER_LOG_INFO = 0"
definition ROUTER_LOG_WARN :: int where "ROUTER_LOG_WARN = 1"
definition ROUTER_LOG_ERR :: int where "ROUTER_LOG_ERR = 2"

definition router_set_log_fn :: "nat option \<Rightarrow> Proc \<Rightarrow> Proc" where
  "router_set_log_fn fn p = p\<lparr>log_fn := fn\<rparr>"

definition router_get_log_fn :: "Proc \<Rightarrow> nat option" where
  "router_get_log_fn p = log_fn p"

definition router_log :: "int \<Rightarrow> string \<Rightarrow> Proc \<Rightarrow> Proc" where
  "router_log level line p =
     (case log_fn p of
        Some f \<Rightarrow> p\<lparr>log_calls := log_calls p @ [(f, level, line)]\<rparr>
      | None \<Rightarrow> p\<lparr>stderr_out := stderr_out p @ line @ [CHR 0x0A]\<rparr>)"

definition router_log_info :: "string \<Rightarrow> Proc \<Rightarrow> Proc" where
  "router_log_info line p = router_log ROUTER_LOG_INFO line p"

section \<open>Properties\<close>

text \<open>Signals of a life of the process, from some point on.\<close>

definition deliver_all :: "signal list \<Rightarrow> Proc \<Rightarrow> Proc option" where
  "deliver_all sgs p = fold (\<lambda>sg q. case q of None \<Rightarrow> None | Some x \<Rightarrow> deliver_signal sg x) sgs (Some p)"

lemma deliver_all_stop:
  "\<forall>sg\<in>set sgs. handlers p sg = AppOnStop \<Longrightarrow>
   deliver_all sgs p = Some (if sgs = [] then p else app_on_stop p)"
proof (induction sgs arbitrary: p)
  case (Cons sg sgs)
  have "deliver_all sgs (app_on_stop p) = Some (if sgs = [] then app_on_stop p else app_on_stop (app_on_stop p))"
    by (rule Cons.IH) (use Cons.prems in \<open>simp add: app_on_stop_def\<close>)
  then show ?case using Cons.prems by (simp add: deliver_all_def deliver_signal_def app_on_stop_def)
qed (simp add: deliver_all_def)

text \<open>
  Shutdown is graceful. After the handlers are installed, any sequence of termination and
  interrupt signals leaves the process alive, sets the stop flag exactly if there was at least one,
  and changes nothing else; the flag stays set until it is reset.
\<close>

lemma stop_signals:
  assumes "set sgs \<subseteq> {SIGTERM, SIGINT}"
  shows "\<exists>q. deliver_all sgs (install_router_stop_handlers (app_reset_stop_flag p)) = Some q
    \<and> (router_stop_requested q \<longleftrightarrow> sgs \<noteq> [])
    \<and> q\<lparr>stop_var := stop_var p, handlers := handlers p\<rparr> = p
    \<and> \<not> app_stop_requested (app_reset_stop_flag q)"
proof -
  let ?p = "install_router_stop_handlers (app_reset_stop_flag p)"
  have "\<forall>sg\<in>set sgs. handlers ?p sg = AppOnStop"
    using assms by (auto simp: install_router_stop_handlers_def install_app_stop_handlers_def)
  from deliver_all_stop [OF this] show ?thesis
    by (auto simp: router_stop_requested_def app_stop_requested_def app_reset_stop_flag_def app_on_stop_def
        install_router_stop_handlers_def install_app_stop_handlers_def)
qed

lemma stop_signals_witness:
  "\<exists>q. deliver_all [SIGINT, SIGTERM] (install_router_stop_handlers (app_reset_stop_flag
      \<lparr>stop_var = 1, handlers = (\<lambda>_. SigDefault), log_fn = None, log_calls = [], stderr_out = []\<rparr>)) = Some q
    \<and> router_stop_requested q"
  using stop_signals [of "[SIGINT, SIGTERM]" "\<lparr>stop_var = 1, handlers = (\<lambda>_. SigDefault), log_fn = None,
    log_calls = [], stderr_out = []\<rparr>"] by auto

text \<open>
  The readiness notification is one datagram or none, and leaks nothing. A notification is
  reported exactly when \<open>NOTIFY_SOCKET\<close> names a socket path that is not empty and shorter than 108
  bytes and the kernel grants the socket and the send; then the status line went to that socket, a
  leading at-sign standing for the abstract namespace. In every case the descriptor table is as
  before and no socket file is touched.
\<close>

lemma sd_notify_contract:
  assumes "socks k (int (next_fd k)) = None"
    "router_sd_notify env os (Some st) k = (sent, dgram, k')"
  shows "(sent \<longleftrightarrow> (\<exists>path. env ''NOTIFY_SOCKET'' = Some path \<and> path \<noteq> [] \<and> length path < 108 \<and> socket_ok os
        \<and> send_ok os (notify_address path) (map byte_of_char (c_str st))))
    \<and> dgram = (if sent then Some (notify_address (the (env ''NOTIFY_SOCKET'')), map byte_of_char (c_str st)) else None)
    \<and> socks k' = socks k \<and> paths k' = paths k"
proof (cases "env ''NOTIFY_SOCKET''")
  case (Some path)
  have close: "(socks k)(int (next_fd k) := None) = socks k" using assms(1) by (simp add: fun_upd_idem)
  show ?thesis
    using assms(2) Some close
    by (auto simp: router_sd_notify_def Socket_open_def sys_sendto_def sys_close_def Let_def split: if_splits)
qed (use assms(2) in \<open>simp add: router_sd_notify_def\<close>)

lemma sd_notify_contract_witness:
  "\<exists>k'. router_sd_notify (\<lambda>v. if v = ''NOTIFY_SOCKET'' then Some ''@sd'' else None) demo_os (Some ''READY=1'') demo_kernel
    = (True, Some (SockUn (NUL # ''sd''), map byte_of_char ''READY=1''), k') \<and> socks k' = socks demo_kernel"
proof -
  let ?env = "\<lambda>v. if v = ''NOTIFY_SOCKET'' then Some ''@sd'' else None"
  obtain sent d k' where n: "router_sd_notify ?env demo_os (Some ''READY=1'') demo_kernel = (sent, d, k')"
    by (rule prod_cases3)
  have "socks demo_kernel (int (next_fd demo_kernel)) = None" by (simp add: demo_kernel_def)
  from sd_notify_contract [OF this n] show ?thesis
    using n by (simp add: demo_os_def notify_address_def c_str_def)
qed

text \<open>The log goes to the registered function, or as one line to standard error.\<close>

lemma log_goes_one_way:
  "router_log lv line (router_set_log_fn (Some f) p)
     = (router_set_log_fn (Some f) p)\<lparr>log_calls := log_calls p @ [(f, lv, line)]\<rparr>"
  "router_log lv line (router_set_log_fn None p)
     = (router_set_log_fn None p)\<lparr>stderr_out := stderr_out p @ line @ [CHR 0x0A]\<rparr>"
  by (simp_all add: router_log_def router_set_log_fn_def)

end
