(* ===== verification/Restart.thy ===== *)
theory Restart
  imports Network
begin

text \<open>
  A new router for clients that are already running (\<open>~ShmRegion\<close> and \<open>bind\<close> of \<open>ipc/src/ipc/shm_spsc.hpp\<close>,
  \<open>bind_router\<close> of \<open>ipc/src/router/shm_router_link.hpp\<close>). A router that was killed has unlinked nothing: its
  successor opens the same objects and the clients stay connected. A router that was destroyed has
  unlinked its objects: its successor creates new ones, and the clients keep the old.
\<close>

section \<open>What the operations leave alone\<close>

text \<open>Names are bound by \<open>bind\<close> only; a link writes to the objects of its own channels.\<close>

definition writes_only :: "nat set \<Rightarrow> ShmWorld \<Rightarrow> ShmWorld \<Rightarrow> bool" where
  "writes_only K w w' \<longleftrightarrow> ns w' = ns w \<and> next_obj w' = next_obj w \<and> (\<forall>k. k \<notin> K \<longrightarrow> objs w' k = objs w k)"

lemma writes_only_refl [simp]: "writes_only K w w"
  by (simp add: writes_only_def)

lemma writes_only_trans [trans]: "writes_only K w w1 \<Longrightarrow> writes_only K w1 w2 \<Longrightarrow> writes_only K w w2"
  by (simp add: writes_only_def)

lemma writes_only_mono: "writes_only K w w' \<Longrightarrow> K \<subseteq> L \<Longrightarrow> writes_only L w w'"
  by (auto simp: writes_only_def)

lemma writes_only_put [simp]: "obj r \<in> K \<Longrightarrow> writes_only K w (put_mem r m w)"
  by (auto simp: writes_only_def put_mem_def)

lemma ep_try_recv_writes:
  "ep_try_recv h buf w = Inr (ok, buf', w') \<Longrightarrow> writes_only {obj (the h)} w w'"
  by (auto simp: ep_try_recv_def split: option.splits sum.splits prod.splits)

lemma ep_try_send_writes:
  "ep_try_send h pl w = Inr (res, w') \<Longrightarrow> writes_only {obj (the h)} w w'"
  by (auto simp: ep_try_send_def split: option.splits sum.splits prod.splits)

lemma ep_send_writes: "ep_send env h pl w = Some (Inr w') \<Longrightarrow> writes_only {obj (the h)} w w'"
proof (cases h)
  case (Some x)
  assume "ep_send env h pl w = Some (Inr w')"
  then obtain z :: "bytes res" where "map_sum id (\<lambda>m. put_mem x m w) z = (Inr w' :: ShmWorld res)" using Some by (simp add: ep_send_def) blast
  then show ?thesis using Some by (cases z) auto
qed (simp add: ep_send_def)

lemma receive_scan_writes:
  "receive_scan cs f ts mt w = (r, f', mt', w') \<Longrightarrow> writes_only (chan_obj ` set cs) w w'"
proof (induction cs f ts mt w arbitrary: r f' mt' w' rule: receive_scan.induct)
  case (2 c cs f ts mt w)
  show ?case
  proof (cases "ep_try_recv (chan_endpoint c) (frame_writable f) w")
    case (Inl e)
    then show ?thesis using 2 by simp
  next
    case (Inr x)
    obtain ok buf w1 where x: "x = (ok, buf, w1)" by (metis prod_cases3)
    have one: "writes_only (chan_obj ` set (c # cs)) w w1"
      using ep_try_recv_writes [OF Inr [unfolded x]] by (rule writes_only_mono) (simp add: region_of_def)
    have rest: "writes_only (chan_obj ` set cs) w1 w2 \<Longrightarrow> writes_only (chan_obj ` set (c # cs)) w w2" for w2
      using writes_only_trans [OF one writes_only_mono] by auto
    show ?thesis
      using 2 Inr x one rest by (auto simp: Let_def split: if_splits)
  qed
qed simp

lemma send_scan_writes:
  "send_scan fl d pl cs mt w = (r, cs', mt', w') \<Longrightarrow> writes_only (chan_obj ` set cs) w w'"
proof (induction cs arbitrary: cs')
  case (Cons c cs)
  show ?case
  proof (cases "chan_peer_id c = d")
    case True
    then show ?thesis
      using Cons.prems ep_try_send_writes [of "chan_endpoint c" pl w]
      by (auto simp: try_send_shm_buffer_def region_of_def Let_def split: if_splits sum.splits prod.splits
          elim: writes_only_mono)
  next
    case False
    then show ?thesis
      using Cons by (auto split: prod.splits elim: writes_only_mono)
  qed
qed simp

abbreviation link_objs :: "ShmRouterLink \<Rightarrow> nat set" where
  "link_objs l \<equiv> chan_obj ` set (peer_channels l)"

lemma link_objs_ends: "chan_ends l' = chan_ends l \<Longrightarrow> link_objs l' = link_objs l"
proof -
  have "link_objs k = (\<lambda>(p, h). obj (the h)) ` set (chan_ends k)" for k
    by (simp add: chan_ends_def region_of_def image_image)
  then show "chan_ends l' = chan_ends l \<Longrightarrow> link_objs l' = link_objs l" by simp
qed

lemma send_to_peer_writes: "writes_only (link_objs (fst s)) (snd s) (snd (snd (send_to_peer pl d s)))"
  by (cases s) (auto simp: send_to_peer_def split: prod.splits dest: send_scan_writes)

lemma forward_writes:
  assumes "forward h ts rules (l, w) = (r, g, (l', w'))"
  shows "writes_only (link_objs l) w w'"
proof -
  let ?I = "\<lambda>q. chan_ends (fst q) = chan_ends l \<and> writes_only (link_objs l) w (snd q)"
  obtain r1 f1 l1 w1 where rcv: "try_receive h ts (l, w) = (r1, f1, (l1, w1))" by (metis prod_cases4)
  have start: "?I (l1, w1)"
    using try_receive_ends [OF rcv] rcv
    by (auto simp: chan_ends_def try_receive_def split: prod.splits dest: receive_scan_writes)
  have "?I (snd (fan_out (send_to_peer pl) ds (l1, w1)))" for pl ds
  proof (rule fan_out_invariant [where I = ?I])
    fix q d assume "?I q"
    then show "?I (snd (send_to_peer pl d q))"
      using send_to_peer_ends [of pl d q] send_to_peer_writes [of q pl d] link_objs_ends [of "fst q" l]
      by (auto intro: writes_only_trans)
  qed (rule start)
  then have fan: "fan_out (send_to_peer pl) ds (l1, w1) = (x, s2) \<Longrightarrow> writes_only (link_objs l) w (snd s2)" for pl ds x s2
    by (metis snd_conv)
  show ?thesis
    using assms rcv start fan by (auto simp: forward_def Let_def split: if_splits sum.splits prod.splits)
qed

lemma client_writes:
  "send_to_router env f (cl, w) = Some (r, (cl', w')) \<Longrightarrow> writes_only {obj (the (link_endpoint cl))} w w'"
  "recv_message h (cl, w) = (r', g, (cl', w')) \<Longrightarrow> writes_only {obj (the (link_endpoint cl))} w w'"
  by (auto simp: send_to_router_def send_shm_buffer_def recv_message_def split: if_splits option.splits sum.splits prod.splits
      dest: ep_try_recv_writes ep_send_writes)

lemma net_step_keeps:
  assumes "net_step rules s ev s'"
  shows "writes_only UNIV (net_world s) (net_world s') \<and> chan_ends (net_link s') = chan_ends (net_link s)"
  using assms
proof (rule net_stepE, goal_cases)
  case (4 h ts r g l' w')
  show ?case using 4(2) writes_only_mono [OF forward_writes [OF 4(4)]] forward_ends [OF 4(4)] by simp
qed (auto simp: set_priority_drop_floor_def chan_ends_def dest: client_writes intro: writes_only_mono)

lemma net_run_keeps:
  "net_run rules s evs s' \<Longrightarrow> writes_only UNIV (net_world s) (net_world s') \<and> chan_ends (net_link s') = chan_ends (net_link s)"
proof (induction rule: net_run.induct)
  case (run_snoc s evs s' ev s'')
  then show ?case using net_step_keeps [OF run_snoc.hyps(2)] writes_only_trans by auto
qed simp

section \<open>Binding again\<close>

text \<open>Binding never rebinds a name, and gives new names to new objects.\<close>

definition grown :: "ShmWorld \<Rightarrow> ShmWorld \<Rightarrow> bool" where
  "grown w w' \<longleftrightarrow> next_obj w \<le> next_obj w' \<and> (\<forall>n k. ns w n = Some k \<longrightarrow> ns w' n = Some k)
     \<and> (\<forall>n k. ns w' n = Some k \<longrightarrow> ns w n = Some k \<or> next_obj w \<le> k)"

lemma grown_trans: "grown w w1 \<Longrightarrow> grown w1 w2 \<Longrightarrow> grown w w2"
  unfolding grown_def by (meson order_trans)

lemma shm_bind_grown: "shm_bind os p w = (Inr r, w') \<Longrightarrow> grown w w'"
  by (auto simp: shm_bind_def grown_def Let_def split: if_splits option.splits)

lemma bind_channels_grown: "bind_channels os es w = (Inr (), cs, w') \<Longrightarrow> grown w w'"
proof (induction es arbitrary: w cs)
  case (Cons e es)
  show ?case
  proof (cases "is_shm e")
    case True
    obtain x w1 where b: "bind_shm_endpoint (os (ring_name e)) e True w = (x, w1)" by fastforce
    then obtain r where r: "x = Inr r" using Cons.prems True by (cases x) auto
    then have "shm_bind (os (ring_name e)) (peer_bind_params e True) w = (Inr r, w1)"
      using b True by (auto simp: bind_shm_endpoint_def ep_bind_def split: sum.splits prod.splits)
    then have "grown w w1" by (rule shm_bind_grown)
    moreover obtain cs' where "bind_channels os es w1 = (Inr (), cs', w')"
      using Cons.prems True b r by (auto split: prod.splits)
    then have "grown w1 w'" by (rule Cons.IH)
    ultimately show ?thesis by (rule grown_trans)
  qed (use Cons in auto)
qed (simp add: grown_def)

lemma bind_router_grown:
  assumes "bind_shm_router_listen os t (make_shm_router_server t, w) = (Inr (), (l, w'))"
  shows "grown w w'"
proof -
  obtain cs where "bind_channels os (peers t) w = (Inr (), cs, w')"
    using assms
    by (auto simp: bind_shm_router_listen_def make_shm_router_server_def ShmRouterServer_new_def
        ShmRouterServer_bind_router_def bind_router_def ShmRouterLink_server_def ShmRouterLink_new_def Let_def
        split: sum.splits prod.splits if_splits)
  then show ?thesis by (rule bind_channels_grown)
qed

lemma bound_to_ends:
  assumes "bound_to w es (peer_channels l)" "chan_ends l' = chan_ends l" "ns w' = ns w"
  shows "bound_to w' es (peer_channels l')"
proof -
  let ?Q = "\<lambda>e (p, h). p = peer_id e \<and> ns w (ring_name e) = Some (obj (the h)) \<and> made_for e (the h)"
  have "bound_to v es (peer_channels k) \<longleftrightarrow> list_all2 ?Q es (chan_ends k)" if "ns v = ns w" for v k
    by (simp add: bound_to_def chan_ends_def region_of_def list_all2_map2 that)
  then show ?thesis using assms by simp
qed

lemma bound_to_nth:
  assumes "bound_to w es cs"
  shows "length cs = length es" "i < length es \<Longrightarrow> chan_peer_id (cs ! i) = peer_id (es ! i)"
    "i < length es \<Longrightarrow> ns w (ring_name (es ! i)) = Some (chan_obj (cs ! i))"
    "i < length es \<Longrightarrow> made_for (es ! i) (region_of (cs ! i))"
  using assms by (simp_all add: bound_to_def list_all2_conv_all_nth)

text \<open>A channel on the same object and for the same peer serves the same client.\<close>

lemma same_rings:
  assumes "made_for e r" "made_for e r'" "shm_map_layout r = r" "shm_map_layout r' = r'"
  shows "req_ring r' = req_ring r" "rep_ring r' = rep_ring r" "region_geom r' = region_geom r"
proof -
  have dims: "slot_count r' = slot_count r" "max_payload r' = max_payload r"
    using assms(1,2) by (simp_all add: made_for_def)
  show "req_ring r' = req_ring r" "rep_ring r' = rep_ring r"
    using map_layout_fields [OF assms(3)] map_layout_fields [OF assms(4)] dims by (simp_all add: req_ring_def rep_ring_def)
  show "region_geom r' = region_geom r" using dims assms(3,4) by (auto simp: region_geom_def)
qed

lemma client_of_rebound:
  assumes "client_of c cl" "made_for e (region_of c)" "made_for e (region_of c')" "chan_obj c' = chan_obj c"
    "chan_ok w c" "chan_ok w' c'"
  shows "client_of c' cl"
proof -
  have "shm_map_layout (region_of c) = region_of c" "shm_map_layout (region_of c') = region_of c'"
    using assms(5,6) by (auto simp: chan_ok_def region_inv_def region_geom_def)
  note same = same_rings [OF assms(2,3) this]
  show ?thesis using assms(1) by (simp add: client_of_def Let_def assms(4) same)
qed

lemma rebound_clients:
  assumes "joined l cls" "bound_to w es (peer_channels l)" "bound_to w' es (peer_channels l')" "grown w w'"
    "link_inv n (l, w)" "link_inv n' (l', w')"
  shows "joined l' cls"
  unfolding joined_def
proof (intro allI impI)
  fix p cl
  assume "cls p = Some cl"
  then obtain c where c: "c \<in> set (peer_channels l)" "chan_peer_id c = p" "client_of c cl"
    using assms(1) by (auto simp: joined_def)
  then obtain i where i: "i < length (peer_channels l)" "peer_channels l ! i = c" by (metis in_set_conv_nth)
  let ?e = "es ! i" and ?c = "peer_channels l' ! i"
  have n: "i < length es" using i(1) by (simp add: bound_to_nth(1) [OF assms(2)])
  note old = bound_to_nth(2-4) [OF assms(2) n, unfolded i(2)]
  note new = bound_to_nth(2-4) [OF assms(3) n]
  have "ns w' (ring_name ?e) = Some (chan_obj c)" using assms(4) old(2) by (simp add: grown_def)
  then have "chan_obj ?c = chan_obj c" using new(2) by simp
  moreover have "?c \<in> set (peer_channels l')" using n by (simp add: bound_to_nth(1) [OF assms(3)])
  moreover have "chan_ok w c" "chan_ok w' ?c"
    using assms(5,6) c(1) \<open>?c \<in> set (peer_channels l')\<close> by (simp_all add: link_inv_def chans_ok_def)
  ultimately show "\<exists>c\<in>set (peer_channels l'). chan_peer_id c = p \<and> client_of c cl"
    using client_of_rebound [OF c(3) old(3) new(3)] new(1) old(1) c(2) by auto
qed

lemma same_objects:
  assumes "bound_to w es (peer_channels l)" "bound_to w' es (peer_channels l')" "grown w w'"
  shows "map chan_obj (peer_channels l') = map chan_obj (peer_channels l)"
proof (rule nth_equalityI)
  fix i
  assume "i < length (map chan_obj (peer_channels l'))"
  then have n: "i < length es" "i < length (peer_channels l)" "i < length (peer_channels l')"
    using bound_to_nth(1) [OF assms(1)] bound_to_nth(1) [OF assms(2)] by simp_all
  have "ns w' (ring_name (es ! i)) = Some (chan_obj (peer_channels l ! i))"
    using assms(3) bound_to_nth(3) [OF assms(1) n(1)] by (simp add: grown_def)
  then show "map chan_obj (peer_channels l') ! i = map chan_obj (peer_channels l) ! i"
    using bound_to_nth(3) [OF assms(2) n(1)] n by simp
qed (simp add: bound_to_nth(1) [OF assms(1)] bound_to_nth(1) [OF assms(2)])

text \<open>What a run has left of the bring-up, for the next router to build on.\<close>

lemma run_leaves:
  assumes "load_topology_from_toml_string parse text = Inr lt" "\<forall>e\<in>set (lt_peers lt). is_shm e"
    "distinct (map ring_name (lt_peers lt))" "kind (lt_listen lt) = ShmRing"
    "world_ok w" "\<And>n. shm_os_ok (os n)"
    "bind_shm_router_listen os (view lt) (make_shm_router_server (view lt), w) = (Inr (), (l, w1))"
    "\<And>p cl. cls p = Some cl \<Longrightarrow> make_shm_router_client (os []) (view lt) p w1 = (Inr cl, w1)"
    "net_run (lt_routes lt) \<lparr>net_link = l, net_clients = cls, net_world = w1\<rparr> evs s"
    "kMaxRouteDests * length evs + n < 2 ^ 64"
  shows "world_ok (net_world s)" "bound_to (net_world s) (lt_peers lt) (peer_channels (net_link s))"
    "net_inv (lt_routes lt) n evs s" "link_inv n (net_link s, net_world s)" "joined (net_link s) (net_clients s)"
proof -
  have z: "(0 :: nat) < 2 ^ 64" and budget: "kMaxRouteDests * length evs + n < 2 ^ 64" using assms(10) by simp_all
  obtain l' w' where "bind_shm_router_listen os (view lt) (make_shm_router_server (view lt), w) = (Inr (), (l', w'))"
    "bound_to w' (lt_peers lt) (peer_channels l')" "world_ok w'"
    by (rule router_up [OF assms(1-6) z])
  with assms(7) have up: "bound_to w1 (lt_peers lt) (peer_channels l)" "world_ok w1" by simp_all
  have kept: "ns (net_world s) = ns w1" "next_obj (net_world s) = next_obj w1" "chan_ends (net_link s) = chan_ends l"
    using net_run_keeps [OF assms(9)] by (simp_all add: writes_only_def)
  show "world_ok (net_world s)" using up(2) kept by (simp add: world_ok_def)
  show "bound_to (net_world s) (lt_peers lt) (peer_channels (net_link s))"
    by (rule bound_to_ends [OF up(1) kept(3,1)])
  from net_run_inv [OF assms(9) net_start [OF assms(1-8) budget]]
  show "net_inv (lt_routes lt) n evs s" "link_inv n (net_link s, net_world s)" "joined (net_link s) (net_clients s)"
    by (simp_all add: net_inv_def)
qed

section \<open>A router that was killed\<close>

text \<open>
  C11: what a restart after a kill does, against what the documents say of it. They say that the router unlinks
  its shared-memory objects before it creates them; the code does not, and a creating \<open>bind\<close> takes over the
  object that has the name. Let a network brought up from a profile run in any way and the
  router be killed, so that no destructor runs. A new router for the same profile comes up in the world
  it left on the same objects, emptied in place under the mappings of the clients; what was queued is
  lost. So clients that were running are, without joining again, connected to the new
  router, and whatever they and it do next, nothing raises and one history of the new router
  accounts for every frame that is sent from then on. With an unlink before the create they would be cut
  off as by a clean stop.
\<close>

theorem restart_reuses_objects:
  assumes "load_topology_from_toml_string parse text = Inr lt" "\<forall>e\<in>set (lt_peers lt). is_shm e"
    "distinct (map ring_name (lt_peers lt))" "kind (lt_listen lt) = ShmRing"
    "world_ok w" "\<And>n. shm_os_ok (os n)"
    "bind_shm_router_listen os (view lt) (make_shm_router_server (view lt), w) = (Inr (), (l, w1))"
    "\<And>p cl. cls p = Some cl \<Longrightarrow> make_shm_router_client (os []) (view lt) p w1 = (Inr cl, w1)"
    "net_run (lt_routes lt) \<lparr>net_link = l, net_clients = cls, net_world = w1\<rparr> evs s"
    "kMaxRouteDests * length evs < 2 ^ 64"
  shows "\<exists>l' w'. bind_shm_router_listen os (view lt) (make_shm_router_server (view lt), net_world s) = (Inr (), (l', w'))
    \<and> map chan_obj (peer_channels l') = map chan_obj (peer_channels (net_link s))
    \<and> list_all (\<lambda>c. in_q w' c = [] \<and> out_q w' c = []) (peer_channels l')
    \<and> (\<forall>evs' s'. net_run (lt_routes lt) \<lparr>net_link = l', net_clients = net_clients s, net_world = w'\<rparr> evs' s' \<longrightarrow>
         kMaxRouteDests * length evs' < 2 ^ 64 \<longrightarrow>
         \<not> list_ex failed evs' \<and> (\<exists>history. explains (lt_routes lt) evs' s' history))"
proof -
  have "kMaxRouteDests * length evs + 0 < 2 ^ 64" using assms(10) by simp
  note old = run_leaves [OF assms(1-9) this]
  have up: "\<exists>l' w'. bind_shm_router_listen os (view lt) (make_shm_router_server (view lt), net_world s) = (Inr (), (l', w'))
      \<and> map chan_obj (peer_channels l') = map chan_obj (peer_channels (net_link s))
      \<and> list_all (fresh_chan w') (peer_channels l') \<and> net_inv (lt_routes lt) n [] \<lparr>net_link = l', net_clients = net_clients s, net_world = w'\<rparr>"
    if n: "n < 2 ^ 64" for n
  proof -
    obtain l' w' where new: "bind_shm_router_listen os (view lt) (make_shm_router_server (view lt), net_world s) = (Inr (), (l', w'))"
      "link_inv n (l', w')" "map chan_peer_id (peer_channels l') = map peer_id (lt_peers lt)"
      "list_all (fresh_chan w') (peer_channels l')" "metrics l' = ShmRouterMetrics_zero"
      "bound_to w' (lt_peers lt) (peer_channels l')"
      by (rule router_up [OF assms(1-4) old(1) assms(6) n])
    have "joined l' (net_clients s)"
      by (rule rebound_clients [OF old(5,2) new(6) bind_router_grown [OF new(1)] old(4) new(2)])
    moreover have "map chan_obj (peer_channels l') = map chan_obj (peer_channels (net_link s))"
      by (rule same_objects [OF old(2) new(6) bind_router_grown [OF new(1)]])
    ultimately show ?thesis
      using new(1,2,4) closed_ids(2) [OF assms(1) new(3)] accounted_fresh [OF new(4,5)] by (auto simp: net_inv_def)
  qed
  obtain l' w' where new: "bind_shm_router_listen os (view lt) (make_shm_router_server (view lt), net_world s) = (Inr (), (l', w'))"
    "list_all (fresh_chan w') (peer_channels l')" "map chan_obj (peer_channels l') = map chan_obj (peer_channels (net_link s))"
    using up [of 0] by auto
  have "\<not> list_ex failed evs' \<and> (\<exists>history. explains (lt_routes lt) evs' s' history)"
    if "net_run (lt_routes lt) \<lparr>net_link = l', net_clients = net_clients s, net_world = w'\<rparr> evs' s'"
      "kMaxRouteDests * length evs' < 2 ^ 64" for evs' s'
    using run_explained [OF that(1)] up [of "kMaxRouteDests * length evs' + 0"] that(2) new(1) by auto
  moreover have "list_all (\<lambda>c. in_q w' c = [] \<and> out_q w' c = []) (peer_channels l')"
    using new(2) by (auto simp: list_all_iff fresh_chan_def)
  ultimately show ?thesis using new(1,3) by blast
qed

section \<open>A router that was stopped\<close>

lemma destroy_channels_effect:
  "objs (destroy_channels cs w) = objs w" "next_obj (destroy_channels cs w) = next_obj w"
  "ns (destroy_channels cs w) n = None \<or> ns (destroy_channels cs w) n = ns w n"
  "c \<in> set cs \<Longrightarrow> chan_endpoint c = Some r \<Longrightarrow> is_creator r \<Longrightarrow> ns (destroy_channels cs w) (name r) = None"
proof -
  have none: "ns w n = None \<Longrightarrow> ns (destroy_channels cs w) n = None" for cs w n
    by (induction cs arbitrary: w) (simp_all add: shm_destroy_def split: option.split)
  show "objs (destroy_channels cs w) = objs w" "next_obj (destroy_channels cs w) = next_obj w"
    by (induction cs arbitrary: w) (simp_all add: shm_destroy_def split: option.split)
  show "ns (destroy_channels cs w) n = None \<or> ns (destroy_channels cs w) n = ns w n"
  proof (induction cs arbitrary: w)
    case (Cons c cs)
    let ?w = "case chan_endpoint c of None \<Rightarrow> w | Some r \<Rightarrow> shm_destroy r w"
    have "ns ?w n = None \<or> ns ?w n = ns w n" by (simp add: shm_destroy_def split: option.split)
    then show ?case using Cons.IH [of ?w] none [of ?w n cs] by auto
  qed simp
  show "c \<in> set cs \<Longrightarrow> chan_endpoint c = Some r \<Longrightarrow> is_creator r \<Longrightarrow> ns (destroy_channels cs w) (name r) = None"
  proof (induction cs arbitrary: w)
    case (Cons d cs)
    then show ?case by (auto simp: shm_destroy_def intro: none)
  qed simp
qed

lemma world_ok_destroyed: "world_ok w \<Longrightarrow> world_ok (destroy_channels cs w)"
  unfolding world_ok_def destroy_channels_effect(2) using destroy_channels_effect(3) [of cs w] by (metis option.distinct(1))

lemma link_view_other:
  assumes "writes_only K v v'" "K \<inter> link_objs l = {}"
  shows "link_view (l, v') = link_view (l, v)"
proof -
  have "view_of v' c = view_of v c" if "c \<in> set (peer_channels l)" for c
  proof (rule chan_cong(2))
    have "chan_obj c \<notin> K" using assms(2) that by blast
    then show "mem_of v' (region_of c) = mem_of v (region_of c)" using assms(1) by (simp add: writes_only_def)
  qed
  then show ?thesis by (simp add: link_view_def)
qed

text \<open>
  The objects of the new router are new: none of them is one that an old client has mapped.
\<close>

lemma fresh_objects:
  assumes "world_ok w" "bound_to w es (peer_channels l)" "list_all (\<lambda>c. chan_endpoint c \<noteq> None) (peer_channels l)"
    "bound_to w' es (peer_channels l')" "grown (destroy_channels (peer_channels l) w) w'"
  shows "link_objs l \<inter> link_objs l' = {}"
proof -
  let ?w = "destroy_channels (peer_channels l) w"
  have old: "chan_obj c < next_obj w" if c: "c \<in> set (peer_channels l)" for c
  proof -
    obtain i where i: "i < length es" "peer_channels l ! i = c"
      using c by (metis in_set_conv_nth bound_to_nth(1) [OF assms(2)])
    have "ns w (ring_name (es ! i)) = Some (chan_obj c)" using bound_to_nth(3) [OF assms(2) i(1)] by (simp only: i(2))
    then show ?thesis using assms(1) by (simp add: world_ok_def)
  qed
  have new: "next_obj w \<le> chan_obj c" if c: "c \<in> set (peer_channels l')" for c
  proof -
    obtain i where i: "i < length es" "peer_channels l' ! i = c"
      using c by (metis in_set_conv_nth bound_to_nth(1) [OF assms(4)])
    let ?d = "peer_channels l ! i"
    have d: "?d \<in> set (peer_channels l)" using i(1) by (simp add: bound_to_nth(1) [OF assms(2)])
    then have end_d: "chan_endpoint ?d = Some (region_of ?d)" using assms(3) by (auto simp: list_all_iff region_of_def)
    have made: "is_creator (region_of ?d)" "name (region_of ?d) = ring_name (es ! i)"
      using bound_to_nth(4) [OF assms(2) i(1)] by (simp_all add: made_for_def)
    have gone: "ns ?w (ring_name (es ! i)) = None"
      using destroy_channels_effect(4) [OF d end_d made(1), of w] by (simp only: made(2))
    have "ns w' (ring_name (es ! i)) = Some (chan_obj c)" using bound_to_nth(3) [OF assms(4) i(1)] by (simp only: i(2))
    then have "next_obj ?w \<le> chan_obj c" using assms(5) gone unfolding grown_def by fastforce
    then show ?thesis by (simp only: destroy_channels_effect(2))
  qed
  show ?thesis
  proof (rule equals0I)
    fix k assume "k \<in> link_objs l \<inter> link_objs l'"
    then obtain c d where "c \<in> set (peer_channels l)" "k = chan_obj c" "d \<in> set (peer_channels l')" "k = chan_obj d"
      by blast
    then show False using old [of c] new [of d] by simp
  qed
qed

text \<open>Stopping and binding leave the old objects as they were.\<close>

lemma shm_bind_keeps: "shm_bind os p w = (Inr r, w') \<Longrightarrow> k < next_obj w \<Longrightarrow> ns w (bp_name p) \<noteq> Some k \<Longrightarrow> objs w' k = objs w k"
  by (auto simp: shm_bind_def Let_def split: if_splits option.splits)

lemma bind_channels_keeps:
  "bind_channels os es w = (Inr (), cs, w') \<Longrightarrow> k < next_obj w \<Longrightarrow> \<forall>e\<in>set es. ns w (ring_name e) \<noteq> Some k \<Longrightarrow>
   objs w' k = objs w k"
proof (induction es arbitrary: w cs)
  case (Cons e es)
  show ?case
  proof (cases "is_shm e")
    case True
    obtain x w1 where b: "bind_shm_endpoint (os (ring_name e)) e True w = (x, w1)" by fastforce
    then obtain r where r: "x = Inr r" using Cons.prems True by (cases x) auto
    then have one: "shm_bind (os (ring_name e)) (peer_bind_params e True) w = (Inr r, w1)"
      using b True by (auto simp: bind_shm_endpoint_def ep_bind_def split: sum.splits prod.splits)
    obtain cs' where more: "bind_channels os es w1 = (Inr (), cs', w')" using Cons.prems True b r by (auto split: prod.splits)
    note g = shm_bind_grown [OF one]
    have "objs w1 k = objs w k" using Cons.prems(2,3) by (intro shm_bind_keeps [OF one]) simp_all
    moreover have "k < next_obj w1" using Cons.prems(2) g by (simp add: grown_def)
    moreover have "\<forall>e\<in>set es. ns w1 (ring_name e) \<noteq> Some k"
      using Cons.prems(2,3) g unfolding grown_def by (meson leD list.set_intros(2))
    ultimately show ?thesis using Cons.IH [OF more] by simp
  qed (use Cons in auto)
qed simp

lemma binding_keeps_objects:
  assumes "world_ok w" "bound_to w es (peer_channels l)" "list_all (\<lambda>c. chan_endpoint c \<noteq> None) (peer_channels l)"
    "es = peers t"
    "bind_shm_router_listen os t (make_shm_router_server t, destroy_channels (peer_channels l) w) = (Inr (), (l', w'))"
  shows "\<forall>c\<in>set (peer_channels l). objs w' (chan_obj c) = objs w (chan_obj c)"
proof
  fix c
  assume c: "c \<in> set (peer_channels l)"
  let ?w = "destroy_channels (peer_channels l) w"
  obtain cs where b: "bind_channels os (peers t) ?w = (Inr (), cs, w')"
    using assms(5)
    by (auto simp: bind_shm_router_listen_def make_shm_router_server_def ShmRouterServer_new_def
        ShmRouterServer_bind_router_def bind_router_def ShmRouterLink_server_def ShmRouterLink_new_def Let_def
        split: sum.splits prod.splits if_splits)
  obtain i where i: "i < length es" "peer_channels l ! i = c" using c by (metis in_set_conv_nth bound_to_nth(1) [OF assms(2)])
  have "ns w (ring_name (es ! i)) = Some (chan_obj c)" using bound_to_nth(3) [OF assms(2) i(1)] by (simp only: i(2))
  then have old: "chan_obj c < next_obj ?w" using assms(1) by (simp add: world_ok_def destroy_channels_effect(2))
  have gone: "ns ?w (ring_name e) = None" if e: "e \<in> set es" for e
  proof -
    obtain j where j: "j < length es" "es ! j = e" using e by (metis in_set_conv_nth)
    let ?d = "peer_channels l ! j"
    have d: "?d \<in> set (peer_channels l)" using j(1) by (simp add: bound_to_nth(1) [OF assms(2)])
    then have "chan_endpoint ?d = Some (region_of ?d)" using assms(3) by (auto simp: list_all_iff region_of_def)
    moreover have "is_creator (region_of ?d)" "name (region_of ?d) = ring_name e"
      using bound_to_nth(4) [OF assms(2) j(1)] j(2) by (simp_all add: made_for_def)
    ultimately show ?thesis using destroy_channels_effect(4) [OF d, of "region_of ?d" w] by simp
  qed
  have "objs w' (chan_obj c) = objs ?w (chan_obj c)"
    by (rule bind_channels_keeps [OF b old]) (use gone assms(4) in simp)
  then show "objs w' (chan_obj c) = objs w (chan_obj c)" by (simp add: destroy_channels_effect(1))
qed

lemma net_inv_moved:
  assumes "net_inv rules n evs s" "\<forall>c\<in>set (peer_channels (net_link s)). objs w' (chan_obj c) = objs (net_world s) (chan_obj c)"
  shows "net_inv rules n evs (s\<lparr>net_world := w'\<rparr>)"
proof -
  have mems: "mem_of w' (region_of c) = mem_of (net_world s) (region_of c)" if "c \<in> set (peer_channels (net_link s))" for c
    using assms(2) that by simp
  have "chans_ok n w' (peer_channels (net_link s)) = chans_ok n (net_world s) (peer_channels (net_link s))"
    by (rule chans_frame(1)) (rule mems)
  moreover have "map (view_of w') (peer_channels (net_link s)) = map (view_of (net_world s)) (peer_channels (net_link s))"
    by (rule chans_frame(2)) (rule mems)
  then have "link_view (net_link s, w') = link_view (net_link s, net_world s)" by (simp only: link_view_def prod.case)
  ultimately show ?thesis using assms(1) by (simp add: net_inv_def link_inv_def)
qed

text \<open>
  After the stop two networks share the machine: the clients that were running, with the dead link and the
  unlinked objects, and the new router with its own clients. A step is a step of either; of the old
  network only clients move. The trace says on which side each event was.
\<close>

fun client_event :: "NetEvent \<Rightarrow> bool" where
  "client_event (Forwarded r) = False"
| "client_event (FloorSet x) = False"
| "client_event _ = True"

inductive split_step :: "RouteRule list \<Rightarrow> Net \<times> Net \<Rightarrow> NetEvent + NetEvent \<Rightarrow> Net \<times> Net \<Rightarrow> bool" for rules where
  split_old: "net_step rules a ev a' \<Longrightarrow> client_event ev \<Longrightarrow>
    split_step rules (a, b) (Inl ev) (a', b\<lparr>net_world := net_world a'\<rparr>)"
| split_new: "net_step rules b ev b' \<Longrightarrow> split_step rules (a, b) (Inr ev) (a\<lparr>net_world := net_world b'\<rparr>, b')"

inductive_cases split_stepE: "split_step rules s ev s'"

inductive split_run :: "RouteRule list \<Rightarrow> Net \<times> Net \<Rightarrow> (NetEvent + NetEvent) list \<Rightarrow> Net \<times> Net \<Rightarrow> bool" for rules where
  split_nil: "split_run rules s [] s"
| split_snoc: "split_run rules s tr s' \<Longrightarrow> split_step rules s' ev s'' \<Longrightarrow> split_run rules s (tr @ [ev]) s''"

definition old_events :: "(NetEvent + NetEvent) list \<Rightarrow> NetEvent list" where
  "old_events tr = map projl (filter isl tr)"

definition new_events :: "(NetEvent + NetEvent) list \<Rightarrow> NetEvent list" where
  "new_events tr = map projr (filter (\<lambda>e. \<not> isl e) tr)"

lemma split_events [simp]:
  "old_events [] = []" "old_events (tr @ [Inl ev]) = old_events tr @ [ev]" "old_events (tr @ [Inr ev]) = old_events tr"
  "new_events [] = []" "new_events (tr @ [Inl ev]) = new_events tr" "new_events (tr @ [Inr ev]) = new_events tr @ [ev]"
  by (simp_all add: old_events_def new_events_def)

lemma joined_obj:
  assumes "joined l cls" "cls p = Some cl"
  shows "obj (the (link_endpoint cl)) \<in> link_objs l"
proof -
  obtain c where "c \<in> set (peer_channels l)" "client_of c cl" using assms by (auto simp: joined_def)
  then show ?thesis by (auto simp: client_of_def Let_def)
qed

lemma net_step_writes:
  assumes "net_step rules s ev s'" "joined (net_link s) (net_clients s)"
  shows "writes_only (link_objs (net_link s)) (net_world s) (net_world s') \<and> link_objs (net_link s') = link_objs (net_link s)"
  using assms(1)
proof (rule net_stepE, goal_cases)
  case (1 p cl f cl' w')
  then show ?case using writes_only_mono [OF client_writes(1) [OF 1(5)]] joined_obj [OF assms(2) 1(3)] by auto
next
  case (2 p cl h g cl' w')
  then show ?case using writes_only_mono [OF client_writes(2) [OF 2(5)]] joined_obj [OF assms(2) 2(3)] by auto
next
  case (3 p cl h r g cl' w')
  then show ?case using writes_only_mono [OF client_writes(2) [OF 3(5)]] joined_obj [OF assms(2) 3(3)] by auto
next
  case (4 h ts r g l' w')
  then show ?case using forward_writes [OF 4(4)] link_objs_ends [OF forward_ends [OF 4(4), simplified]] by simp
qed (simp add: set_priority_drop_floor_def)

text \<open>What others write elsewhere does not matter to a network.\<close>

lemma net_inv_other:
  assumes "net_inv rules n evs s" "writes_only K (net_world s) w'" "K \<inter> link_objs (net_link s) = {}"
  shows "net_inv rules n evs (s\<lparr>net_world := w'\<rparr>)"
proof -
  have "mem_of w' (region_of c) = mem_of (net_world s) (region_of c)" if "c \<in> set (peer_channels (net_link s))" for c
  proof -
    have "chan_obj c \<notin> K" using assms(3) that by blast
    then show ?thesis using assms(2) by (simp add: writes_only_def)
  qed
  then have "chans_ok n w' (peer_channels (net_link s)) = chans_ok n (net_world s) (peer_channels (net_link s))"
    by (rule chans_frame(1))
  then show ?thesis
    using assms(1) link_view_other [OF assms(2,3)] by (simp add: net_inv_def link_inv_def)
qed

lemma queues_other:
  assumes "writes_only K w w'" "K \<inter> link_objs l = {}" "c \<in> set (peer_channels l)"
  shows "in_q w' c = in_q w c" "out_q w' c = out_q w c"
proof -
  have "chan_obj c \<notin> K" using assms(2,3) by blast
  then have "mem_of w' (region_of c) = mem_of w (region_of c)" using assms(1) by (simp add: writes_only_def)
  then show "in_q w' c = in_q w c" "out_q w' c = out_q w c" by (simp_all add: in_q_def out_q_def)
qed

text \<open>A step of a client appends what it sends and takes what it receives, on its own rings.\<close>

lemma client_step_queues:
  assumes "net_inv rules (kMaxRouteDests + n) evs s" "net_step rules s ev s'" "client_event ev"
  shows "net_link s' = net_link s \<and> (\<forall>c\<in>set (peer_channels (net_link s)).
      as_frames (in_q (net_world s') c) = as_frames (in_q (net_world s) c) @ sent_frame (chan_peer_id c) ev
    \<and> as_frames (out_q (net_world s) c) = received_frame (chan_peer_id c) ev @ as_frames (out_q (net_world s') c))"
proof -
  let ?l = "net_link s" and ?w = "net_world s"
  obtain tk where s: "link_inv (kMaxRouteDests + n) (?l, ?w)" "joined ?l (net_clients s)" "accounted rules evs tk (link_view (?l, ?w))"
    using assms(1) by (auto simp: net_inv_def)
  have at: "view_of w' c = h (view_of ?w c)"
    if "link_view (?l, w') = (link_view (?l, ?w))\<lparr>v_peers := map h (v_peers (link_view (?l, ?w)))\<rparr>" "c \<in> set (peer_channels ?l)"
    for h w' c
    using arg_cong [OF that(1), of v_peers] that(2) by (simp add: link_view_def)
  have same: "chan_peer_id d = chan_peer_id c \<Longrightarrow> d = c" if "c \<in> set (peer_channels ?l)" "d \<in> set (peer_channels ?l)" for c d
    using s(1) that by (auto simp: link_inv_def chans_ok_def distinct_map dest: inj_onD)
  from assms(2) show ?thesis
  proof (rule net_stepE, goal_cases)
    case (1 p cl f cl' w')
    obtain c where c: "c \<in> set (peer_channels ?l)" "chan_peer_id c = p" "client_of c cl" using s(2) 1(3) by (auto simp: joined_def)
    have "link_inv (1 + n) (?l, ?w)"
      using link_inv_weaken [of "kMaxRouteDests - 1" "1 + n"] s(1) by (simp add: kMaxRouteDests_def)
    note snd = client_sends(3) [OF this c(1,3) 1(4,5), unfolded c(2)]
    have "in_q w' d = in_q ?w d @ (if chan_peer_id d = p then [bytes f] else []) \<and> out_q w' d = out_q ?w d"
      if "d \<in> set (peer_channels ?l)" for d
      using at [OF snd that] by (auto simp: view_of_def push_in_def split: if_splits)
    then show ?thesis using 1(1,2) by auto
  next
    case (2 p cl h g cl' w')
    obtain c where c: "c \<in> set (peer_channels ?l)" "chan_peer_id c = p" "client_of c cl" using s(2) 2(3) by (auto simp: joined_def)
    have fr: "view_frames (view_of ?w c)" using s(3) c(1) by (auto simp: accounted_def link_view_def)
    from s(1) c(1,3) 2(4) fr 2(5) show ?thesis
    proof (cases rule: client_receives)
      case (one x xs)
      have "in_q w' d = in_q ?w d \<and> out_q ?w d = (if chan_peer_id d = p then [x] else []) @ out_q w' d"
        if d: "d \<in> set (peer_channels ?l)" for d
        using at [OF one(6) d] one(3) same [OF c(1) d] c(2) by (auto simp: view_of_def pop_out_def split: if_splits)
      then show ?thesis using 2(1,2) one(4) by auto
    qed simp
  next
    case (3 p cl h r g cl' w')
    obtain c where c: "c \<in> set (peer_channels ?l)" "chan_peer_id c = p" "client_of c cl" using s(2) 3(3) by (auto simp: joined_def)
    have fr: "view_frames (view_of ?w c)" using s(3) c(1) by (auto simp: accounted_def link_view_def)
    from s(1) c(1,3) 3(4) fr 3(5) show ?thesis
      by (cases rule: client_receives) (use 3(1,2,6) in simp_all)
  qed (use assms(3) in simp_all)
qed

text \<open>What holds of the two networks all the time; \<open>w0\<close> is the world at the stop.\<close>

definition apart_inv :: "RouteRule list \<Rightarrow> nat \<Rightarrow> Net \<Rightarrow> (NetEvent + NetEvent) list \<Rightarrow> Net \<times> Net \<Rightarrow> bool" where
  "apart_inv rules n s0 tr = (\<lambda>(a, b). net_world a = net_world b \<and> link_objs (net_link a) \<inter> link_objs (net_link b) = {}
     \<and> (\<exists>evs. net_inv rules n evs a) \<and> net_inv rules n (new_events tr) b \<and> net_link a = net_link s0
     \<and> \<not> list_ex failed (old_events tr) \<and> \<not> list_ex failed (new_events tr)
     \<and> (\<forall>c\<in>set (peer_channels (net_link s0)).
         as_frames (in_q (net_world a) c) = as_frames (in_q (net_world s0) c) @ sent_by (chan_peer_id c) (old_events tr)
       \<and> as_frames (out_q (net_world s0) c) = received_by (chan_peer_id c) (old_events tr) @ as_frames (out_q (net_world a) c)))"

lemma net_inv_weaken: "net_inv rules (i + n) evs s \<Longrightarrow> net_inv rules n evs s"
  using link_inv_weaken by (auto simp: net_inv_def)

lemma split_step_inv:
  assumes "apart_inv rules (kMaxRouteDests + n) s0 tr s" "split_step rules s ev s'"
  shows "apart_inv rules n s0 (tr @ [ev]) s'"
proof -
  obtain a b where s: "s = (a, b)" by fastforce
  from assms(1) obtain evs where i: "net_world a = net_world b" "link_objs (net_link a) \<inter> link_objs (net_link b) = {}"
    "net_inv rules (kMaxRouteDests + n) evs a" "net_inv rules (kMaxRouteDests + n) (new_events tr) b" "net_link a = net_link s0"
    "\<not> list_ex failed (old_events tr)" "\<not> list_ex failed (new_events tr)"
    and q: "\<And>c. c \<in> set (peer_channels (net_link s0)) \<Longrightarrow>
         as_frames (in_q (net_world a) c) = as_frames (in_q (net_world s0) c) @ sent_by (chan_peer_id c) (old_events tr)
       \<and> as_frames (out_q (net_world s0) c) = received_by (chan_peer_id c) (old_events tr) @ as_frames (out_q (net_world a) c)"
    unfolding s apart_inv_def by auto
  have weak: "net_inv rules n evs a" "net_inv rules n (new_events tr) b"
    using net_inv_weaken [OF i(3)] net_inv_weaken [OF i(4)] by simp_all
  from assms(2) show ?thesis
    unfolding s
  proof (rule split_stepE, goal_cases)
    case (1 x e x' y)
    then have step: "net_step rules a e x'" "client_event e" and fin: "ev = Inl e" "s' = (x', b\<lparr>net_world := net_world x'\<rparr>)" by simp_all
    have "joined (net_link a) (net_clients a)" using i(3) by (simp add: net_inv_def)
    note wr = net_step_writes [OF step(1) this]
    have "net_inv rules n (new_events tr) (b\<lparr>net_world := net_world x'\<rparr>)"
      using wr i(2) by (intro net_inv_other [OF weak(2)]) (simp_all add: i(1) [symmetric])
    moreover note client_step_queues [OF i(3) step] net_step_inv [OF i(3) step(1)]
    ultimately show ?thesis
      using i(2,5-7) q wr unfolding apart_inv_def fin by auto
  next
    case (2 x e x' y)
    then have step: "net_step rules b e x'" and fin: "ev = Inr e" "s' = (a\<lparr>net_world := net_world x'\<rparr>, x')" by simp_all
    have "joined (net_link b) (net_clients b)" using i(4) by (simp add: net_inv_def)
    note wr = net_step_writes [OF step this, folded i(1)]
    have far: "link_objs (net_link b) \<inter> link_objs (net_link a) = {}" using i(2) by blast
    have "net_inv rules n evs (a\<lparr>net_world := net_world x'\<rparr>)" using wr by (intro net_inv_other [OF weak(1) _ far]) simp
    moreover note net_step_inv [OF i(4) step]
    moreover have "in_q (net_world x') c = in_q (net_world a) c" "out_q (net_world x') c = out_q (net_world a) c"
      if "c \<in> set (peer_channels (net_link s0))" for c
      using queues_other [OF conjunct1 [OF wr] far, of c] that by (simp_all add: i(5))
    ultimately show ?thesis
      using i(2,5-7) q wr far unfolding apart_inv_def fin by (auto simp: i(2))
  qed
qed

lemma split_run_inv:
  assumes "split_run rules s tr s'" "apart_inv rules (kMaxRouteDests * length tr + n) s0 [] s"
  shows "apart_inv rules n s0 tr s'"
  using assms
proof (induction arbitrary: n rule: split_run.induct)
  case (split_snoc s tr s' ev s'')
  have "kMaxRouteDests * length (tr @ [ev]) + n = kMaxRouteDests * length tr + (kMaxRouteDests + n)" by simp
  with split_snoc.prems have "apart_inv rules (kMaxRouteDests * length tr + (kMaxRouteDests + n)) s0 [] s" by (simp only:)
  from split_step_inv [OF split_snoc.IH [OF this] split_snoc.hyps(2)] show ?case .
qed simp

text \<open>The send of a client with a region never raises, and returns at once when its ring has room.\<close>

lemma client_send_quiet:
  assumes "client_of c cl" "send_to_router env f (cl, w) = Some (r, x)"
  shows "r = Inr ()"
proof -
  obtain g where "link_endpoint cl = Some g" "\<not> is_server cl" using assms(1) by (auto simp: client_of_def)
  then show ?thesis
    using assms(2)
    by (auto simp: send_to_router_def send_shm_buffer_def ep_send_def ShmSpsc_send_def split: option.splits sum.splits)
qed

definition sends_quietly :: "Net \<Rightarrow> bool" where
  "sends_quietly s \<longleftrightarrow> (\<forall>p cl. net_clients s p = Some cl \<longrightarrow>
     (\<forall>env f r x. send_to_router env f (cl, net_world s) = Some (r, x) \<longrightarrow> r = Inr ())
     \<and> (\<exists>c\<in>set (peer_channels (net_link s)). chan_peer_id c = p
          \<and> (length (in_q (net_world s) c) < slot_count (region_of c) \<longrightarrow>
              (\<forall>env f. wf_frame f \<longrightarrow> (\<exists>x. send_to_router env f (cl, net_world s) = Some (Inr (), x))))))"

lemma sends_quietly_inv:
  assumes "net_inv rules 1 evs s"
  shows "sends_quietly s"
  unfolding sends_quietly_def
proof (intro allI impI)
  fix p cl
  assume "net_clients s p = Some cl"
  then obtain c where c: "c \<in> set (peer_channels (net_link s))" "chan_peer_id c = p" "client_of c cl"
    using assms by (auto simp: net_inv_def joined_def)
  have ok: "chan_ok (net_world s) c" "in_pos (net_world s) c + 1 < 2 ^ 64"
    using assms c(1) by (auto simp: net_inv_def link_inv_def chans_ok_def)
  have "\<exists>x. send_to_router env f (cl, net_world s) = Some (Inr (), x)"
    if "length (in_q (net_world s) c) < slot_count (region_of c)" "wf_frame f" for env f
    by (rule client_send [OF c(3) ok(1) that(2,1) ok(2)]) blast
  then show "(\<forall>env f r x. send_to_router env f (cl, net_world s) = Some (r, x) \<longrightarrow> r = Inr ())
     \<and> (\<exists>c\<in>set (peer_channels (net_link s)). chan_peer_id c = p
          \<and> (length (in_q (net_world s) c) < slot_count (region_of c) \<longrightarrow>
              (\<forall>env f. wf_frame f \<longrightarrow> (\<exists>x. send_to_router env f (cl, net_world s) = Some (Inr (), x)))))"
    using c client_send_quiet [OF c(3)] by blast
qed

lemma apart_account:
  assumes "apart_inv rules 1 s tr (a, b)"
  shows "\<not> list_ex failed (old_events tr) \<and> \<not> list_ex failed (new_events tr) \<and> sends_quietly a
    \<and> list_all (\<lambda>c. as_frames (in_q (net_world a) c) = as_frames (in_q (net_world s) c) @ sent_by (chan_peer_id c) (old_events tr)
        \<and> as_frames (out_q (net_world s) c) = received_by (chan_peer_id c) (old_events tr) @ as_frames (out_q (net_world a) c))
        (peer_channels (net_link s))
    \<and> (\<exists>history. explains rules (new_events tr) b history)"
proof -
  have i: "\<exists>evs. net_inv rules 1 evs a" "net_inv rules 1 (new_events tr) b"
    "\<not> list_ex failed (old_events tr)" "\<not> list_ex failed (new_events tr)"
    "\<forall>c\<in>set (peer_channels (net_link s)).
      as_frames (in_q (net_world a) c) = as_frames (in_q (net_world s) c) @ sent_by (chan_peer_id c) (old_events tr)
    \<and> as_frames (out_q (net_world s) c) = received_by (chan_peer_id c) (old_events tr) @ as_frames (out_q (net_world a) c)"
    using assms unfolding apart_inv_def prod.case by blast+
  from i(1) obtain evs where "net_inv rules 1 evs a" by blast
  then have "sends_quietly a" by (rule sends_quietly_inv)
  then show ?thesis using i(3-5) net_inv_explained [OF i(2)] by (simp only: list_all_iff simp_thms)
qed

text \<open>
  C12: a clean stop cuts the clients off without telling them. Let a network brought up from a profile
  run in any way and the router be stopped, so that the destructors run. A new router for the same
  profile comes up, and a client that starts anew joins it. Let then the clients that were running
  go on sending and receiving, in any interleaving with the new router and clients of its own. No
  operation on either side raises: a send of an old client that returns has returned normally, and
  it returns whenever its old ring has room; its receives find frames or nothing. But the two
  sides never meet. What an old client sends stays in its old ring, behind what was there at the
  stop; what it receives was waiting for it at the stop already; and the history of the new router
  accounts for the frames of its own clients alone, as if the old clients did not exist.
\<close>

theorem stopped_router_orphans_clients:
  assumes "load_topology_from_toml_string parse text = Inr lt" "\<forall>e\<in>set (lt_peers lt). is_shm e"
    "distinct (map ring_name (lt_peers lt))" "kind (lt_listen lt) = ShmRing"
    "world_ok w" "\<And>n. shm_os_ok (os n)"
    "bind_shm_router_listen os (view lt) (make_shm_router_server (view lt), w) = (Inr (), (l, w1))"
    "\<And>p cl. cls p = Some cl \<Longrightarrow> make_shm_router_client (os []) (view lt) p w1 = (Inr cl, w1)"
    "net_run (lt_routes lt) \<lparr>net_link = l, net_clients = cls, net_world = w1\<rparr> evs s"
    "kMaxRouteDests * length evs < 2 ^ 64"
  shows "\<exists>l' w'. bind_shm_router_listen os (view lt)
        (make_shm_router_server (view lt), destroy_channels (peer_channels (net_link s)) (net_world s)) = (Inr (), (l', w'))
    \<and> (\<forall>p. net_clients s p \<noteq> None \<longrightarrow> (\<exists>cl. make_shm_router_client (os []) (view lt) p w' = (Inr cl, w') \<and> joined l' [p \<mapsto> cl]))
    \<and> (\<forall>cls' tr a b. (\<forall>p cl. cls' p = Some cl \<longrightarrow> make_shm_router_client (os []) (view lt) p w' = (Inr cl, w')) \<longrightarrow>
         split_run (lt_routes lt)
           (s\<lparr>net_world := w'\<rparr>, \<lparr>net_link = l', net_clients = cls', net_world = w'\<rparr>) tr (a, b) \<longrightarrow>
         kMaxRouteDests * (length evs + length tr) + 1 < 2 ^ 64 \<longrightarrow>
           \<not> list_ex failed (old_events tr) \<and> \<not> list_ex failed (new_events tr) \<and> sends_quietly a
         \<and> list_all (\<lambda>c. as_frames (in_q (net_world a) c) = as_frames (in_q (net_world s) c) @ sent_by (chan_peer_id c) (old_events tr)
             \<and> as_frames (out_q (net_world s) c) = received_by (chan_peer_id c) (old_events tr) @ as_frames (out_q (net_world a) c))
             (peer_channels (net_link s))
         \<and> (\<exists>history. explains (lt_routes lt) (new_events tr) b history))"
proof -
  have z: "kMaxRouteDests * length evs + 0 < 2 ^ 64" "(0 :: nat) < 2 ^ 64" using assms(10) by simp_all
  note old = run_leaves [OF assms(1-9) z(1)]
  let ?w = "destroy_channels (peer_channels (net_link s)) (net_world s)"
  have up: "\<exists>l' w'. bind_shm_router_listen os (view lt) (make_shm_router_server (view lt), ?w) = (Inr (), (l', w'))
      \<and> link_inv n (l', w') \<and> map chan_peer_id (peer_channels l') = map peer_id (lt_peers lt)
      \<and> list_all (fresh_chan w') (peer_channels l') \<and> list_all (joinable (view lt) w') (peer_channels l')
      \<and> metrics l' = ShmRouterMetrics_zero \<and> bound_to w' (lt_peers lt) (peer_channels l')" if n: "n < 2 ^ 64" for n
  proof -
    obtain l' w' where "bind_shm_router_listen os (view lt) (make_shm_router_server (view lt), ?w) = (Inr (), (l', w'))"
      "link_inv n (l', w')" "map chan_peer_id (peer_channels l') = map peer_id (lt_peers lt)"
      "list_all (fresh_chan w') (peer_channels l')" "list_all (joinable (view lt) w') (peer_channels l')"
      "metrics l' = ShmRouterMetrics_zero" "bound_to w' (lt_peers lt) (peer_channels l')"
      by (rule router_up [OF assms(1-4) world_ok_destroyed [OF old(1)] assms(6) n])
    then show ?thesis by blast
  qed
  obtain l' w' where new: "bind_shm_router_listen os (view lt) (make_shm_router_server (view lt), ?w) = (Inr (), (l', w'))"
    "map chan_peer_id (peer_channels l') = map peer_id (lt_peers lt)" "list_all (fresh_chan w') (peer_channels l')"
    "list_all (joinable (view lt) w') (peer_channels l')" "metrics l' = ShmRouterMetrics_zero" "bound_to w' (lt_peers lt) (peer_channels l')"
    using up [OF z(2)] by blast
  have roomy: "link_inv n (l', w')" if "n < 2 ^ 64" for n using up [OF that] new(1) by auto
  have eps: "list_all (\<lambda>c. chan_endpoint c \<noteq> None) (peer_channels (net_link s))"
    using old(4) by (auto simp: link_inv_def chans_ok_def chan_ok_def list_all_iff)
  note apart = fresh_objects [OF old(1,2) eps new(6) bind_router_grown [OF new(1)]]
  note ids = closed_ids [OF assms(1) new(2)]
  have here: "joined (net_link s) (net_clients s)" using old(5) by blast
  have "lt_peers lt = peers (view lt)" by (simp add: view_def)
  note untouched = binding_keeps_objects [OF old(1,2) eps this new(1)]
  have anew: "\<exists>cl. make_shm_router_client (os []) (view lt) p w' = (Inr cl, w') \<and> joined l' [p \<mapsto> cl]"
    if known: "net_clients s p \<noteq> None" for p
  proof -
    obtain c where c: "c \<in> set (peer_channels (net_link s))" "chan_peer_id c = p"
      using here known unfolding joined_def by blast
    have "map chan_peer_id (peer_channels l') = map chan_peer_id (peer_channels (net_link s))"
      using new(2) bound_to_ids [OF old(2)] by simp
    from arg_cong [OF this, of set] have "p \<in> chan_peer_id ` set (peer_channels l')"
      using c by (simp only: list.set_map) blast
    then obtain d where d: "d \<in> set (peer_channels l')" "chan_peer_id d = p" by blast
    then obtain cl where "make_shm_router_client (os []) (view lt) p w' = (Inr cl, w')" "client_of d cl"
      using new(4) assms(6) [of "[]"] by (auto simp: list_all_iff joinable_def)
    then show ?thesis using d by (auto simp: joined_def)
  qed
  have both: "apart_inv (lt_routes lt) 1 s tr (a, b)"
    if cls': "\<forall>p cl. cls' p = Some cl \<longrightarrow> make_shm_router_client (os []) (view lt) p w' = (Inr cl, w')"
      and run: "split_run (lt_routes lt) (s\<lparr>net_world := w'\<rparr>, \<lparr>net_link = l', net_clients = cls', net_world = w'\<rparr>) tr (a, b)"
      and n: "kMaxRouteDests * (length evs + length tr) + 1 < 2 ^ 64" for cls' tr a b
  proof (rule split_run_inv [OF run])
    let ?n = "kMaxRouteDests * length tr + 1"
    have bound: "kMaxRouteDests * length evs + ?n < 2 ^ 64" "?n < 2 ^ 64" using n by (simp_all add: add_mult_distrib2)
    have "joined l' cls'" by (rule joined_start [OF assms(6) ids(1) new(4)]) (use cls' in blast)
    then have "net_inv (lt_routes lt) ?n [] \<lparr>net_link = l', net_clients = cls', net_world = w'\<rparr>"
      using roomy [OF bound(2)] ids(2) accounted_fresh [OF new(3,5)] by (auto simp: net_inv_def)
    moreover have "net_inv (lt_routes lt) ?n evs s" using run_leaves(3) [OF assms(1-9) bound(1)] by blast
    then have "net_inv (lt_routes lt) ?n evs (s\<lparr>net_world := w'\<rparr>)" by (rule net_inv_moved [OF _ untouched])
    ultimately show "apart_inv (lt_routes lt) ?n s [] (s\<lparr>net_world := w'\<rparr>, \<lparr>net_link = l', net_clients = cls', net_world = w'\<rparr>)"
      using apart untouched by (auto simp: apart_inv_def in_q_def out_q_def)
  qed
  show ?thesis
    by (rule exI [of _ l'], rule exI [of _ w'])
      (use new(1) anew apart_account [OF both] in \<open>simp only: simp_thms\<close>, blast)
qed

section \<open>An example\<close>

text \<open>The small profile, with one message of its first peer waiting for the router.\<close>

lemma demo_sent:
  obtains l w1 cls s cl where
    "bind_shm_router_listen (\<lambda>_. os_all_ok) (view demo_loaded) (make_shm_router_server (view demo_loaded), empty_world)
      = (Inr (), (l, w1))"
    "\<And>p cl. cls p = Some cl \<Longrightarrow> make_shm_router_client os_all_ok (view demo_loaded) p w1 = (Inr cl, w1)"
    "net_run (lt_routes demo_loaded) \<lparr>net_link = l, net_clients = cls, net_world = w1\<rparr> [Sent 1 demo_message] s"
    "net_clients s 1 = Some cl"
proof -
  obtain l w1 a b s1 fr s where r:
    "bind_shm_router_listen (\<lambda>_. os_all_ok) (view demo_loaded) (make_shm_router_server (view demo_loaded), empty_world)
      = (Inr (), (l, w1))"
    "make_shm_router_client os_all_ok (view demo_loaded) 1 w1 = (Inr a, w1)"
    "make_shm_router_client os_all_ok (view demo_loaded) 2 w1 = (Inr b, w1)"
    "net_step (lt_routes demo_loaded) \<lparr>net_link = l, net_clients = [1 \<mapsto> a, 2 \<mapsto> b], net_world = w1\<rparr>
      (Sent 1 demo_message) s1"
    "net_run (lt_routes demo_loaded) \<lparr>net_link = l, net_clients = [1 \<mapsto> a, 2 \<mapsto> b], net_world = w1\<rparr>
      [Sent 1 demo_message, Forwarded (Inr fr), Received 2 (set_timestamp_ns 5 (set_source 1 demo_message))] s"
    by (rule demo_run)
  have cls: "make_shm_router_client os_all_ok (view demo_loaded) p w1 = (Inr cl, w1)"
    if "[1 \<mapsto> a, 2 \<mapsto> b] p = Some cl" for p :: u8 and cl
    using that r(2,3) by (auto split: if_splits)
  have "\<exists>cl. net_clients s1 1 = Some cl" by (rule net_stepE [OF r(4)]) simp_all
  moreover have "net_run (lt_routes demo_loaded) \<lparr>net_link = l, net_clients = [1 \<mapsto> a, 2 \<mapsto> b], net_world = w1\<rparr> [Sent 1 demo_message] s1"
    using run_snoc [OF run_nil r(4)] by simp
  ultimately show thesis using that [OF r(1) cls] by blast
qed

theorem restart_reuses_objects_witness:
  "\<exists>(s :: Net) cl l' w'. net_clients s 1 = Some cl
    \<and> bind_shm_router_listen (\<lambda>_. os_all_ok) (view demo_loaded) (make_shm_router_server (view demo_loaded), net_world s)
        = (Inr (), (l', w'))
    \<and> map chan_obj (peer_channels l') = map chan_obj (peer_channels (net_link s))
    \<and> list_all (\<lambda>c. in_q w' c = [] \<and> out_q w' c = []) (peer_channels l')"
proof -
  obtain l w1 cls s cl where r:
    "bind_shm_router_listen (\<lambda>_. os_all_ok) (view demo_loaded) (make_shm_router_server (view demo_loaded), empty_world)
      = (Inr (), (l, w1))"
    "\<And>p cl. cls p = Some cl \<Longrightarrow> make_shm_router_client os_all_ok (view demo_loaded) p w1 = (Inr cl, w1)"
    "net_run (lt_routes demo_loaded) \<lparr>net_link = l, net_clients = cls, net_world = w1\<rparr> [Sent 1 demo_message] s"
    "net_clients s 1 = Some cl"
    by (rule demo_sent) blast
  have os: "shm_os_ok os_all_ok" and n: "kMaxRouteDests * length [Sent 1 demo_message] < 2 ^ 64"
    by (simp_all add: kMaxRouteDests_def)
  from restart_reuses_objects [where os = "\<lambda>_. os_all_ok", OF demo_loads demo_loaded_facts(2,4,5) world_ok_empty os r(1-3) n]
  show ?thesis using r(4) by blast
qed

theorem stopped_router_orphans_clients_witness:
  "\<exists>(s :: Net) cl l' w' cl'. net_clients s 1 = Some cl
    \<and> bind_shm_router_listen (\<lambda>_. os_all_ok) (view demo_loaded)
        (make_shm_router_server (view demo_loaded), destroy_channels (peer_channels (net_link s)) (net_world s)) = (Inr (), (l', w'))
    \<and> make_shm_router_client os_all_ok (view demo_loaded) 1 w' = (Inr cl', w') \<and> joined l' [1 \<mapsto> cl']
    \<and> (\<forall>env f r x. send_to_router env f (cl, w') = Some (r, x) \<longrightarrow> r = Inr ())"
proof -
  obtain l w1 cls s cl where r:
    "bind_shm_router_listen (\<lambda>_. os_all_ok) (view demo_loaded) (make_shm_router_server (view demo_loaded), empty_world)
      = (Inr (), (l, w1))"
    "\<And>p cl. cls p = Some cl \<Longrightarrow> make_shm_router_client os_all_ok (view demo_loaded) p w1 = (Inr cl, w1)"
    "net_run (lt_routes demo_loaded) \<lparr>net_link = l, net_clients = cls, net_world = w1\<rparr> [Sent 1 demo_message] s"
    "net_clients s 1 = Some cl"
    by (rule demo_sent) blast
  have os: "shm_os_ok os_all_ok" and n: "kMaxRouteDests * length [Sent 1 demo_message] < 2 ^ 64"
    by (simp_all add: kMaxRouteDests_def)
  from stopped_router_orphans_clients [where os = "\<lambda>_. os_all_ok", OF demo_loads demo_loaded_facts(2,4,5) world_ok_empty os r(1-3) n]
  obtain l' w' where c: "bind_shm_router_listen (\<lambda>_. os_all_ok) (view demo_loaded)
        (make_shm_router_server (view demo_loaded), destroy_channels (peer_channels (net_link s)) (net_world s)) = (Inr (), (l', w'))"
    "net_clients s 1 \<noteq> None \<longrightarrow> (\<exists>cl'. make_shm_router_client os_all_ok (view demo_loaded) 1 w' = (Inr cl', w') \<and> joined l' [1 \<mapsto> cl'])"
    "\<And>tr a b. split_run (lt_routes demo_loaded) (s\<lparr>net_world := w'\<rparr>, \<lparr>net_link = l', net_clients = Map.empty, net_world = w'\<rparr>) tr (a, b) \<Longrightarrow>
       kMaxRouteDests * (length [Sent 1 demo_message] + length tr) + 1 < 2 ^ 64 \<Longrightarrow> sends_quietly a"
    by (auto simp: empty_iff)
  have "sends_quietly (s\<lparr>net_world := w'\<rparr>)" by (rule c(3) [OF split_nil]) (simp add: kMaxRouteDests_def)
  then have "\<forall>env f r x. send_to_router env f (cl, w') = Some (r, x) \<longrightarrow> r = Inr ()"
    using r(4) unfolding sends_quietly_def by simp
  then show ?thesis using r(4) c(1,2) by blast
qed

end
