(* ===== verification/RouterMain.thy ===== *)
theory RouterMain
  imports App Restart
begin

text \<open>
  The router program that is deployed, \<open>ipc/test/router_server.cpp\<close> with the demo profile of
  \<open>router_client_config.h\<close>: command line, environment variables, the four ways to bring a router
  up, readiness notification, logging, and the release of everything on the way out. An exception
  that leaves a function is \<open>Raised\<close>; \<open>Running\<close> stands for a loop that has not returned after the
  turns that the environment gives it. The parts that \<open>ipc/src\<close> provides are those of the other
  theories.
\<close>

section \<open>The process\<close>

record Sys =
  sy_proc :: Proc
  sy_shm :: ShmWorld
  sy_net :: Kernel
  sy_notes :: "(sockaddr \<times> bytes) list"

text \<open>
  What the program finds: environment variables, answers of the kernel, the TOML parser, and for the
  loop the clocks, the stop flag and the other processes, as in \<open>Node\<close>.
\<close>

record MainEnv =
  getenv :: "string \<Rightarrow> string option"
  mlockall_rc :: int
  sched_rc :: "nat set \<Rightarrow> int"
  net_os :: NetOs
  shm_os :: "string \<Rightarrow> ShmOs"
  parse_toml_file :: "string \<Rightarrow> string + toml_table"
  shm_turns :: "shm_link_state RunEnv"
  dg_turns :: "dg_state RunEnv"
  mx_turns :: "mx_state RunEnv"
  start_ms :: int
  turns :: nat

text \<open>
  \<open>strtol\<close>-style numbers: white space, a sign, digits; \<open>None\<close> without a digit. \<open>atoi\<close> is that of glibc,
  \<open>stoi\<close> raises when the number does not fit.
\<close>

definition signed_value :: "string \<Rightarrow> int option" where
  "signed_value s =
     (let s1 = dropWhile is_space s;
          neg = (s1 \<noteq> [] \<and> hd s1 = CHR ''-'');
          s2 = (if s1 \<noteq> [] \<and> (hd s1 = CHR ''-'' \<or> hd s1 = CHR ''+'') then tl s1 else s1);
          ds = takeWhile is_digit s2
      in if ds = [] then None else Some (if neg then - int (digits_value ds) else int (digits_value ds)))"

definition c_atoi :: "string \<Rightarrow> int" where
  "c_atoi s = (case signed_value s of None \<Rightarrow> 0
     | Some v \<Rightarrow> sint (word_of_int (max (- (2 ^ 63)) (min (2 ^ 63 - 1) v)) :: 32 word))"

definition c_stoi :: "string \<Rightarrow> int res" where
  "c_stoi s = (case signed_value s of
     Some v \<Rightarrow> if - (2 ^ 31) \<le> v \<and> v < 2 ^ 31 then Inr v else Inl (RuntimeError ''stoi'')
   | None \<Rightarrow> Inl (RuntimeError ''stoi''))"

section \<open>Output\<close>

definition newline :: char where "newline = CHR 0x0A"

definition demo_stderr_logger :: "int \<Rightarrow> string \<Rightarrow> Proc \<Rightarrow> Proc" where
  "demo_stderr_logger level msg p =
     (let tag = (if level = ROUTER_LOG_ERR then ''[err]  '' else if level = ROUTER_LOG_WARN then ''[warn] '' else ''[info] '')
      in p\<lparr>stderr_out := stderr_out p @ tag @ msg @ [newline]\<rparr>)"

text \<open>The registered function has number 0; a call of it is recorded and performed.\<close>

definition main_log :: "int \<Rightarrow> string \<Rightarrow> Sys \<Rightarrow> Sys" where
  "main_log level msg s =
     (let p = router_log level msg (sy_proc s)
      in s\<lparr>sy_proc := (if log_fn p = Some 0 then demo_stderr_logger level msg p else p)\<rparr>)"

definition usage_text :: "string \<Rightarrow> string" where
  "usage_text prog = ''usage: '' @ prog @ '' uds [router_path]'' @ [newline]
     @ ''       '' @ prog @ '' udp [port]'' @ [newline]
     @ ''       '' @ prog @ '' shm'' @ [newline]
     @ ''       '' @ prog @ '' --config <profile.toml>'' @ [newline]"

definition usage :: "string \<Rightarrow> Sys \<Rightarrow> Sys" where
  "usage prog s = s\<lparr>sy_proc := (sy_proc s)\<lparr>stderr_out := stderr_out (sy_proc s) @ usage_text prog\<rparr>\<rparr>"

text \<open>A notification, with the datagram that went out kept in \<open>sy_notes\<close>.\<close>

definition notify :: "bool \<times> (sockaddr \<times> bytes) option \<times> Kernel \<Rightarrow> Sys \<Rightarrow> bool \<times> Sys" where
  "notify r s = (case r of (ok, dgram, k) \<Rightarrow>
     (ok, s\<lparr>sy_net := k, sy_notes := sy_notes s @ (case dgram of None \<Rightarrow> [] | Some d \<Rightarrow> [d])\<rparr>))"

section \<open>Settings from the environment\<close>

definition run_options :: "MainEnv \<Rightarrow> RouterRunOptions" where
  "run_options E =
     (let opts = RouterRunOptions_default\<lparr>poll_timeout_ms := 200\<rparr>
      in if router_test_mode (getenv E) then opts\<lparr>idle_exit_ms := 1500\<rparr> else opts)"

definition apply_rt_hardening :: "MainEnv \<Rightarrow> Sys \<Rightarrow> Sys" where
  "apply_rt_hardening E s =
     (let s1 = (if getenv E ''RIM_MLOCK'' \<noteq> None
                then if router_lock_memory (mlockall_rc E)
                  then main_log ROUTER_LOG_INFO ''mlockall: locked current + future pages'' s
                  else main_log ROUTER_LOG_WARN ''mlockall failed (need CAP_IPC_LOCK / MemoryLock=infinity?)'' s
                else s)
      in case getenv E ''RIM_CPU'' of
           None \<Rightarrow> s1
         | Some cpu \<Rightarrow>
             let core = c_atoi cpu
             in if router_pin_to_core (sched_rc E) core
                then main_log ROUTER_LOG_INFO (''pinned to core '' @ to_string_int core) s1
                else main_log ROUTER_LOG_WARN (''pin to core '' @ cpu @ '' failed'') s1)"

definition priority_drop_floor_from_env :: "MainEnv \<Rightarrow> u8" where
  "priority_drop_floor_from_env E =
     (case getenv E ''RIM_PRIORITY_DROP_FLOOR'' of
        None \<Rightarrow> 0
      | Some v \<Rightarrow>
          let floor = c_atoi v
          in if floor \<le> 0 then 0 else if floor > 7 then 7 else word_of_int floor)"

section \<open>The loop and its frame\<close>

definition log_forward :: "RouterTopology \<Rightarrow> run_event \<Rightarrow> Sys \<Rightarrow> Sys" where
  "log_forward t ev s =
     (case ev of OnForward src dst f \<Rightarrow> main_log ROUTER_LOG_INFO (router_route_line t src dst f) s | _ \<Rightarrow> s)"

text \<open>The server \<open>'l\<close> is the caller's; \<open>run\<close> is its member function on the rest of the process.\<close>

definition run_forward_loop ::
    "MainEnv \<Rightarrow> RouterTopology \<Rightarrow> (Sys \<Rightarrow> run_end \<times> run_event list \<times> 'l \<times> Sys) \<Rightarrow> Sys \<Rightarrow> run_end \<times> 'l \<times> Sys" where
  "run_forward_loop E t run s =
     (let (ready, s1) = notify (router_notify_ready (getenv E) (net_os E) (sy_net s)) s;
          s2 = (if ready then main_log ROUTER_LOG_INFO ''sd_notify READY=1 (endpoints bound)'' s1 else s1);
          (fin, evs, l, s3) = run s2;
          s4 = fold (log_forward t) evs s3
      in case fin of
           Returned \<Rightarrow> (fin, l, snd (notify (router_notify_stopping (getenv E) (net_os E) (sy_net s4)) s4))
         | _ \<Rightarrow> (fin, l, s4))"

definition run_shm_server :: "MainEnv \<Rightarrow> RouteRule list \<Rightarrow> ShmRouterLink \<Rightarrow> Sys \<Rightarrow>
    run_end \<times> run_event list \<times> ShmRouterLink \<times> Sys" where
  "run_shm_server E rules l s =
     (case ShmRouterServer_run (shm_turns E) (run_options E) rules (turns E) (start_ms E) (l, sy_shm s) of
        (fin, evs, _, (l1, w)) \<Rightarrow> (if fin then Returned else Running, evs, l1, s\<lparr>sy_shm := w\<rparr>))"

definition run_datagram_server :: "MainEnv \<Rightarrow> DgTransport \<Rightarrow> RouteRule list \<Rightarrow> DatagramRouterLink \<Rightarrow> Sys \<Rightarrow>
    run_end \<times> run_event list \<times> DatagramRouterLink \<times> Sys" where
  "run_datagram_server E tr rules l s =
     (case DatagramRouterServer_run tr (net_os E) (dg_turns E) (run_options E) rules (turns E) (start_ms E) (l, sy_net s) of
        Inl e \<Rightarrow> (Raised e, [], l, s)
      | Inr (fin, evs, _, (l1, k)) \<Rightarrow> (if fin then Returned else Running, evs, l1, s\<lparr>sy_net := k\<rparr>))"

definition run_mixed_server :: "MainEnv \<Rightarrow> RouteRule list \<Rightarrow> MixedRouterServer \<Rightarrow> Sys \<Rightarrow>
    run_end \<times> run_event list \<times> MixedRouterServer \<times> Sys" where
  "run_mixed_server E rules m s =
     (case MixedRouterServer_run (net_os E) (mx_turns E) (run_options E) rules (turns E) (start_ms E) (m, sy_shm s, sy_net s) of
        (fin, evs, (m1, w, k)) \<Rightarrow> (fin, evs, m1, s\<lparr>sy_shm := w, sy_net := k\<rparr>))"

section \<open>Routers\<close>

text \<open>Destructors of the three servers, run when they go out of scope, however control leaves.\<close>

definition destroy_shm_server :: "ShmRouterLink \<Rightarrow> Sys \<Rightarrow> Sys" where
  "destroy_shm_server l s = s\<lparr>sy_shm := destroy_channels (peer_channels l) (sy_shm s)\<rparr>"

definition destroy_datagram_server :: "DatagramRouterLink \<Rightarrow> Sys \<Rightarrow> Sys" where
  "destroy_datagram_server l s = s\<lparr>sy_net := Socket_close (dl_endpoint l) (sy_net s)\<rparr>"

definition destroy_mixed_server :: "MixedRouterServer \<Rightarrow> Sys \<Rightarrow> Sys" where
  "destroy_mixed_server m s =
     (let s1 = (case udp_link m of None \<Rightarrow> s | Some l \<Rightarrow> destroy_datagram_server l s);
          s2 = (case uds_link m of None \<Rightarrow> s1 | Some l \<Rightarrow> destroy_datagram_server l s1)
      in case shm_link m of None \<Rightarrow> s2 | Some l \<Rightarrow> destroy_shm_server l s2)"

text \<open>The end of a scope that holds a server: an unfinished loop still holds it.\<close>

definition leave_scope :: "('l \<Rightarrow> Sys \<Rightarrow> Sys) \<Rightarrow> run_end \<times> 'l \<times> Sys \<Rightarrow> run_end \<times> Sys" where
  "leave_scope destroy r = (case r of (fin, l, s) \<Rightarrow> (fin, if fin = Running then s else destroy l s))"

definition run_datagram_router :: "MainEnv \<Rightarrow> DgTransport \<Rightarrow> RouterTopology \<Rightarrow> RouteRule list \<Rightarrow> Sys \<Rightarrow> run_end \<times> Sys" where
  "run_datagram_router E tr t rules s =
     (case make_datagram_router_server tr (net_os E) t (sy_net s) of
        (Inl e, k1) \<Rightarrow> (Raised e, s\<lparr>sy_net := k1\<rparr>)
      | (Inr l, k1) \<Rightarrow> leave_scope destroy_datagram_server
          (case bind_datagram_router_listen tr (net_os E) t (l, k1) of
             (Inl e, (l1, k2)) \<Rightarrow> (Raised e, l1, s\<lparr>sy_net := k2\<rparr>)
           | (Inr _, (l1, k2)) \<Rightarrow>
               run_forward_loop E t (run_datagram_server E tr rules l1)
                 (main_log ROUTER_LOG_INFO (''router listening ('' @ peer_display_name t kEndpointServer @ '')'')
                   (s\<lparr>sy_net := k2\<rparr>))))"

definition floor_line :: "u8 \<Rightarrow> string" where
  "floor_line fl = ''priority drop floor = '' @ to_string_nat (unat fl) @ '' (drop-lowest-first on backpressure)''"

definition run_shm_router :: "MainEnv \<Rightarrow> RouterTopology \<Rightarrow> RouteRule list \<Rightarrow> Sys \<Rightarrow> run_end \<times> Sys" where
  "run_shm_router E t rules s = leave_scope destroy_shm_server
     (case bind_shm_router_listen (shm_os E) t (make_shm_router_server t, sy_shm s) of
        (Inl e, (l, w)) \<Rightarrow> (Raised e, l, s\<lparr>sy_shm := w\<rparr>)
      | (Inr _, (l, w)) \<Rightarrow>
          let s1 = s\<lparr>sy_shm := w\<rparr>;
              fl = priority_drop_floor_from_env E;
              (l2, s2) = (if fl \<noteq> 0 then (set_priority_drop_floor fl l, main_log ROUTER_LOG_INFO (floor_line fl) s1) else (l, s1))
          in run_forward_loop E t (run_shm_server E rules l2) (main_log ROUTER_LOG_INFO ''SHM router on shared-memory rings'' s2))"

definition unlink_file :: "string \<Rightarrow> Sys \<Rightarrow> Sys" where
  "unlink_file path s = s\<lparr>sy_net := sys_unlink (c_str path) (sy_net s)\<rparr>"

definition run_mixed_router :: "MainEnv \<Rightarrow> RouterTopology \<Rightarrow> RouteRule list \<Rightarrow> Sys \<Rightarrow> run_end \<times> Sys" where
  "run_mixed_router E t rules s =
     (case make_mixed_router_server (net_os E) t (sy_net s) of
        (Inl e, k1) \<Rightarrow> (Raised e, s\<lparr>sy_net := k1\<rparr>)
      | (Inr m, k1) \<Rightarrow> leave_scope destroy_mixed_server
          (let s0 = s\<lparr>sy_net := k1\<rparr>;
               s1 = (case listen_uds t of None \<Rightarrow> s0 | Some a \<Rightarrow> unlink_file (uds_path a) s0)
           in case mx_bind_router (shm_os E) (net_os E) (m, sy_shm s1, sy_net s1) of
             (Inl e, (m1, w, k)) \<Rightarrow> (Raised e, m1, s1\<lparr>sy_shm := w, sy_net := k\<rparr>)
           | (Inr _, (m1, w, k)) \<Rightarrow>
               let s2 = s1\<lparr>sy_shm := w, sy_net := k\<rparr>;
                   fl = priority_drop_floor_from_env E;
                   (m3, s3) = (if fl \<noteq> 0 then (mx_set_priority_drop_floor fl m1, main_log ROUTER_LOG_INFO (floor_line fl) s2) else (m1, s2));
                   kinds = (if has_shm m3 then ''SHM '' else '''') @ (if has_uds m3 then ''UDS '' else '''')
                     @ (if has_udp m3 then ''UDP '' else '''')
               in run_forward_loop E t (run_mixed_server E rules m3)
                    (main_log ROUTER_LOG_INFO (''mixed-transport router serving: '' @ kinds) s3)))"

definition run_with_config :: "MainEnv \<Rightarrow> string \<Rightarrow> Sys \<Rightarrow> run_end \<times> Sys" where
  "run_with_config E path s =
     (case load_topology_from_toml_file (parse_toml_file E) path of
        Inl (TopologyLoadError m) \<Rightarrow> (Raised (RuntimeError m), s)
      | Inr lt \<Rightarrow>
          let t = view lt;
              rules = lt_routes lt;
              s1 = (if rules = [] then main_log ROUTER_LOG_WARN
                      (''config '' @ quoted path @ '' has no [[routes]]; router will receive but not forward'') s else s)
          in if topology_is_mixed t then run_mixed_router E t rules s1
             else case router_listen t of
               peer_uds p \<Rightarrow> run_datagram_router E UdsT t rules
                 (main_log ROUTER_LOG_INFO (''UDS router on '' @ p) (unlink_file p s1))
             | peer_udp h port \<Rightarrow> run_datagram_router E UdpT t rules
                 (main_log ROUTER_LOG_INFO (''UDP router on '' @ h @ '':'' @ to_string_nat (unat port)) s1)
             | peer_shm n \<Rightarrow> run_shm_router E t rules s1)"

section \<open>The demo profile\<close>

definition kRouterUdsPath :: string where "kRouterUdsPath = ''/tmp/rim_router.sock''"
definition kRouterUdpHost :: string where "kRouterUdpHost = ''127.0.0.1''"
definition kRouterUdpPort :: u16 where "kRouterUdpPort = 19100"

definition demo_peer :: "u8 \<Rightarrow> string \<Rightarrow> PeerAddress \<Rightarrow> PeerEntry" where
  "demo_peer i n a = \<lparr>peer_id = i, peer_name = n, local_addr = a, shm_slot_count = 0, shm_max_payload = 0\<rparr>"

definition demo_profile_of :: "PeerAddress \<Rightarrow> PeerAddress \<Rightarrow> PeerAddress \<Rightarrow> PeerAddress \<Rightarrow> RouterTopology" where
  "demo_profile_of a b c r =
     \<lparr>peers = [demo_peer 1 ''sensor'' a, demo_peer 2 ''controller'' b, demo_peer 3 ''recorder'' c],
      router_listen = r, topics = [], listen_uds = None, listen_udp = None\<rparr>"

fun demo_topology_of :: "TransportKind \<Rightarrow> RouterTopology" where
  "demo_topology_of KindUds = demo_profile_of (peer_uds ''/tmp/rim_router_a.sock'') (peer_uds ''/tmp/rim_router_b.sock'')
     (peer_uds ''/tmp/rim_router_c.sock'') (peer_uds kRouterUdsPath)"
| "demo_topology_of KindUdp = demo_profile_of (peer_udp kRouterUdpHost 19101) (peer_udp kRouterUdpHost 19102)
     (peer_udp kRouterUdpHost 19103) (peer_udp kRouterUdpHost kRouterUdpPort)"
| "demo_topology_of KindShm = demo_profile_of (peer_shm ''/rim_router_sensor'') (peer_shm ''/rim_router_controller'')
     (peer_shm ''/rim_router_recorder'') (peer_shm ''/rim_router'')"

definition kDemoRouteRules :: "RouteRule list" where
  "kDemoRouteRules = map the [make_route 1 [2, 3], make_route 2 [3]]"

text \<open>\<open>ServerRunner\<close>; \<open>args\<close> is the command line after the transport.\<close>

definition server_runner :: "MainEnv \<Rightarrow> string list \<Rightarrow> TransportKind \<Rightarrow> Sys \<Rightarrow> run_end \<times> Sys" where
  "server_runner E args k s =
     (case k of
        KindShm \<Rightarrow> run_shm_router E (demo_topology_of KindShm) kDemoRouteRules s
      | KindUds \<Rightarrow>
          let path = (case args of a # _ \<Rightarrow> a | [] \<Rightarrow> kRouterUdsPath);
              s1 = (if path \<noteq> kRouterUdsPath then unlink_file path s else s)
          in run_datagram_router E UdsT (demo_topology_of KindUds) kDemoRouteRules
               (main_log ROUTER_LOG_INFO (''UDS router on '' @ path) s1)
      | KindUdp \<Rightarrow>
          (case (case args of a # _ \<Rightarrow> c_stoi a | [] \<Rightarrow> Inr (uint kRouterUdpPort)) of
             Inl e \<Rightarrow> (Raised e, s)
           | Inr n \<Rightarrow>
               let port = (word_of_int n :: u16)
               in run_datagram_router E UdpT (demo_topology_of KindUdp) kDemoRouteRules
                    (main_log ROUTER_LOG_INFO (''UDP router on port '' @ to_string_nat (unat port)) s)))"

text \<open>The path given on the command line is unlinked and printed; the router listens at the built-in one.\<close>

lemma demo_path_ignored:
  "\<exists>q. server_runner E (path # rest) KindUds s = run_datagram_router E UdsT (demo_topology_of KindUds) kDemoRouteRules q"
  "router_listen_bind_params UdsT (demo_topology_of KindUds) = Inr (UdsBind kRouterUdsPath)"
  by (auto simp: server_runner_def Let_def router_listen_bind_params_def demo_profile_of_def)

section \<open>main\<close>

datatype main_end = Exited int | StillRunning

definition main_error :: "error \<Rightarrow> Sys \<Rightarrow> main_end \<times> Sys" where
  "main_error e s = (case e of RuntimeError m \<Rightarrow> (Exited 1, main_log ROUTER_LOG_ERR (''error: '' @ m) s))"

definition main_finish :: "string \<Rightarrow> int \<times> run_end \<times> Sys \<Rightarrow> main_end \<times> Sys" where
  "main_finish prog r = (case r of (rc, fin, s) \<Rightarrow>
     (case fin of
        Running \<Rightarrow> (StillRunning, s)
      | Raised e \<Rightarrow> main_error e s
      | Returned \<Rightarrow> if rc \<noteq> 0 then (Exited 1, usage prog s) else (Exited 0, s)))"

text \<open>The program is called as \<open>prog\<close> with the arguments \<open>args\<close>.\<close>

definition main_setup :: "MainEnv \<Rightarrow> Sys \<Rightarrow> Sys" where
  "main_setup E s = apply_rt_hardening E
     (s\<lparr>sy_proc := router_set_log_fn (Some 0) (install_router_stop_handlers (sy_proc s))\<rparr>)"

definition router_main :: "MainEnv \<Rightarrow> string \<Rightarrow> string list \<Rightarrow> Sys \<Rightarrow> main_end \<times> Sys" where
  "router_main E prog args s =
     (let s1 = main_setup E s
      in case args of
           [] \<Rightarrow> (Exited 1, usage prog s1)
         | a # rest \<Rightarrow>
             if strcmp_eq a ''--config''
             then (case rest of
                     [] \<Rightarrow> (Exited 1, usage prog s1)
                   | path # _ \<Rightarrow> main_finish prog (0, run_with_config E path s1))
             else main_finish prog
                    (dispatch_transport_kind a (\<lambda>k (_, q). (0, server_runner E rest k q)) (Returned, s1)))"

section \<open>Readiness\<close>

abbreviation registered :: "Sys \<Rightarrow> nat option" where
  "registered s \<equiv> log_fn (sy_proc s)"

lemma main_log_keeps [simp]:
  "sy_shm (main_log lv m s) = sy_shm s" "sy_net (main_log lv m s) = sy_net s" "sy_notes (main_log lv m s) = sy_notes s"
  "registered (main_log lv m s) = registered s"
  by (simp_all add: main_log_def router_log_def demo_stderr_logger_def Let_def split: option.split)

lemma usage_keeps [simp]:
  "sy_shm (usage p s) = sy_shm s" "sy_net (usage p s) = sy_net s" "sy_notes (usage p s) = sy_notes s"
  by (simp_all add: usage_def)

lemma log_forwards_keep [simp]:
  "sy_shm (fold (log_forward t) evs s) = sy_shm s" "sy_net (fold (log_forward t) evs s) = sy_net s"
  "sy_notes (fold (log_forward t) evs s) = sy_notes s" "registered (fold (log_forward t) evs s) = registered s"
proof -
  have "sy_shm (log_forward t ev s) = sy_shm s \<and> sy_net (log_forward t ev s) = sy_net s
      \<and> sy_notes (log_forward t ev s) = sy_notes s \<and> registered (log_forward t ev s) = registered s" for ev s
    by (simp add: log_forward_def split: run_event.split)
  then have "sy_shm (fold (log_forward t) evs s) = sy_shm s \<and> sy_net (fold (log_forward t) evs s) = sy_net s
      \<and> sy_notes (fold (log_forward t) evs s) = sy_notes s \<and> registered (fold (log_forward t) evs s) = registered s"
    by (induction evs arbitrary: s) simp_all
  then show "sy_shm (fold (log_forward t) evs s) = sy_shm s" "sy_net (fold (log_forward t) evs s) = sy_net s"
    "sy_notes (fold (log_forward t) evs s) = sy_notes s" "registered (fold (log_forward t) evs s) = registered s" by simp_all
qed

lemma unlink_keeps [simp]:
  "sy_shm (unlink_file p s) = sy_shm s" "sy_notes (unlink_file p s) = sy_notes s" "sy_proc (unlink_file p s) = sy_proc s"
  "sy_net (unlink_file p s) = sys_unlink (c_str p) (sy_net s)"
  by (simp_all add: unlink_file_def)

lemma destroy_keeps [simp]:
  "sy_notes (destroy_shm_server l s) = sy_notes s" "sy_proc (destroy_shm_server l s) = sy_proc s"
  "sy_notes (destroy_datagram_server d s) = sy_notes s" "sy_proc (destroy_datagram_server d s) = sy_proc s"
  "sy_notes (destroy_mixed_server m s) = sy_notes s" "sy_proc (destroy_mixed_server m s) = sy_proc s"
  by (simp_all add: destroy_shm_server_def destroy_datagram_server_def destroy_mixed_server_def Let_def split: option.split)

lemma setup_keeps [simp]:
  "sy_shm (main_setup E s) = sy_shm s" "sy_net (main_setup E s) = sy_net s" "sy_notes (main_setup E s) = sy_notes s"
  "registered (main_setup E s) = Some 0"
  by (simp_all add: main_setup_def router_set_log_fn_def apply_rt_hardening_def Let_def split: option.split)

text \<open>The status datagram that goes out for a message, if the environment asks for one and the kernel takes it.\<close>

definition status_note :: "MainEnv \<Rightarrow> string \<Rightarrow> (sockaddr \<times> bytes) list" where
  "status_note E msg = (case getenv E ''NOTIFY_SOCKET'' of None \<Rightarrow> [] | Some path \<Rightarrow>
     let dgram = (notify_address path, map byte_of_char msg)
     in if path \<noteq> [] \<and> length path < 108 \<and> socket_ok (net_os E) \<and> send_ok (net_os E) (fst dgram) (snd dgram)
        then [dgram] else [])"

lemma notify_effect:
  assumes "c_str msg = msg"
  shows "sy_notes (snd (notify (router_sd_notify (getenv E) (net_os E) (Some msg) k) s)) = sy_notes s @ status_note E msg"
    "sy_shm (snd (notify (router_sd_notify (getenv E) (net_os E) (Some msg) k) s)) = sy_shm s"
    "sy_proc (snd (notify (router_sd_notify (getenv E) (net_os E) (Some msg) k) s)) = sy_proc s"
  using assms
  by (auto simp: notify_def router_sd_notify_def status_note_def Socket_open_def sys_sendto_def Let_def
      split: option.splits prod.splits sum.splits if_splits)

text \<open>What neither notifies nor touches the logger.\<close>

abbreviation silent :: "Sys \<Rightarrow> Sys \<Rightarrow> bool" where
  "silent s s' \<equiv> sy_notes s' = sy_notes s \<and> registered s' = registered s"

lemma loop_notes:
  assumes "run_forward_loop E t run s = (fin, l, s')" "\<And>q. silent q (snd (snd (snd (run q))))"
  shows "sy_notes s' = sy_notes s @ status_note E ''READY=1'' @ (if fin = Returned then status_note E ''STOPPING=1'' else [])"
    "registered s' = registered s"
proof -
  have msgs: "c_str ''READY=1'' = ''READY=1''" "c_str ''STOPPING=1'' = ''STOPPING=1''" by (simp_all add: c_str_def)
  obtain ready s1 where n: "notify (router_notify_ready (getenv E) (net_os E) (sy_net s)) s = (ready, s1)" by fastforce
  then have n1: "sy_notes s1 = sy_notes s @ status_note E ''READY=1''" "registered s1 = registered s"
    using notify_effect(1,3) [OF msgs(1), of E "sy_net s" s] by (simp_all add: router_notify_ready_def)
  let ?s2 = "if ready then main_log ROUTER_LOG_INFO ''sd_notify READY=1 (endpoints bound)'' s1 else s1"
  obtain f evs l1 s3 where r: "run ?s2 = (f, evs, l1, s3)" by (metis prod_cases4)
  have "silent s1 s3" using assms(2) [of ?s2] by (simp add: r)
  then show "sy_notes s' = sy_notes s @ status_note E ''READY=1'' @ (if fin = Returned then status_note E ''STOPPING=1'' else [])"
    "registered s' = registered s"
    using assms(1) n n1 r notify_effect(1,3) [OF msgs(2)]
    by (cases f; auto simp: run_forward_loop_def Let_def router_notify_stopping_def)+
qed

lemma server_runs_silent:
  "silent q (snd (snd (snd (run_shm_server E rules sl q))))"
  "silent q (snd (snd (snd (run_datagram_server E tr rules dl q))))"
  "silent q (snd (snd (snd (run_mixed_server E rules m q))))"
  by (simp_all add: run_shm_server_def run_datagram_server_def run_mixed_server_def split: prod.split sum.split)

text \<open>Whether the endpoints of a router come up: construction and binding, without the rest of the program.\<close>

definition datagram_up :: "MainEnv \<Rightarrow> DgTransport \<Rightarrow> RouterTopology \<Rightarrow> Kernel \<Rightarrow> unit res" where
  "datagram_up E tr t k = (case make_datagram_router_server tr (net_os E) t k of
     (Inl e, _) \<Rightarrow> Inl e | (Inr l, k1) \<Rightarrow> fst (bind_datagram_router_listen tr (net_os E) t (l, k1)))"

definition shm_up :: "MainEnv \<Rightarrow> RouterTopology \<Rightarrow> ShmWorld \<Rightarrow> unit res" where
  "shm_up E t w = fst (bind_shm_router_listen (shm_os E) t (make_shm_router_server t, w))"

definition mixed_up :: "MainEnv \<Rightarrow> RouterTopology \<Rightarrow> ShmWorld \<Rightarrow> Kernel \<Rightarrow> unit res" where
  "mixed_up E t w k = (case make_mixed_router_server (net_os E) t k of
     (Inl e, _) \<Rightarrow> Inl e
   | (Inr m, k1) \<Rightarrow> fst (mx_bind_router (shm_os E) (net_os E)
       (m, w, case listen_uds t of None \<Rightarrow> k1 | Some a \<Rightarrow> sys_unlink (c_str (uds_path a)) k1)))"

text \<open>What follows a failed and a successful bind, whichever the router.\<close>

definition router_outcome :: "MainEnv \<Rightarrow> unit res \<Rightarrow> Sys \<Rightarrow> run_end \<times> Sys \<Rightarrow> bool" where
  "router_outcome E up s r \<longleftrightarrow> registered (snd r) = registered s \<and> (case up of
     Inl e \<Rightarrow> fst r = Raised e \<and> sy_notes (snd r) = sy_notes s
   | Inr _ \<Rightarrow> sy_notes (snd r) = sy_notes s @ status_note E ''READY=1''
       @ (if fst r = Returned then status_note E ''STOPPING=1'' else []))"

lemma leave_scope_silent:
  assumes "\<And>l q. silent q (destroy l q)"
  shows "fst (leave_scope destroy r) = fst r" "silent (snd (snd r)) (snd (leave_scope destroy r))"
  using assms by (cases r; simp add: leave_scope_def)+

lemma outcome_of_loop:
  assumes "\<And>q. silent q (snd (snd (snd (run q))))" "\<And>l q. silent q (destroy l q)" "silent s s1"
  shows "router_outcome E (Inr ()) s (leave_scope destroy (run_forward_loop E t run s1))"
proof -
  obtain fin l s2 where r: "run_forward_loop E t run s1 = (fin, l, s2)" by (metis prod_cases3)
  show ?thesis
    using loop_notes [OF r assms(1)] assms(3)
    by (simp add: router_outcome_def leave_scope_silent [OF assms(2)] r)
qed

lemma datagram_outcome: "router_outcome E (datagram_up E tr t (sy_net s)) s (run_datagram_router E tr t rules s)"
proof (cases "make_datagram_router_server tr (net_os E) t (sy_net s)")
  case (Pair r k1)
  show ?thesis
  proof (cases r)
    case (Inl e)
    then show ?thesis by (simp add: router_outcome_def datagram_up_def run_datagram_router_def Pair)
  next
    case (Inr l)
    obtain b l1 k2 where b: "bind_datagram_router_listen tr (net_os E) t (l, k1) = (b, (l1, k2))" by (metis prod_cases3)
    show ?thesis
    proof (cases b)
      case (Inl e)
      then show ?thesis
        by (simp add: router_outcome_def datagram_up_def run_datagram_router_def Pair Inr b leave_scope_silent)
    next
      case (Inr u)
      have up: "datagram_up E tr t (sy_net s) = Inr ()" by (simp add: datagram_up_def Pair \<open>r = Inr l\<close> b Inr)
      show ?thesis
        unfolding up run_datagram_router_def
        by (simp only: Pair \<open>r = Inr l\<close> b Inr prod.case sum.case)
          (rule outcome_of_loop [OF server_runs_silent(2)], simp_all)
    qed
  qed
qed

lemma shm_outcome: "router_outcome E (shm_up E t (sy_shm s)) s (run_shm_router E t rules s)"
proof -
  obtain b l w where b: "bind_shm_router_listen (shm_os E) t (make_shm_router_server t, sy_shm s) = (b, (l, w))" by (metis prod_cases3)
  show ?thesis
  proof (cases b)
    case (Inl e)
    then show ?thesis by (simp add: router_outcome_def shm_up_def run_shm_router_def b leave_scope_silent)
  next
    case (Inr u)
    have up: "shm_up E t (sy_shm s) = Inr ()" by (simp add: shm_up_def b Inr)
    show ?thesis
      unfolding up run_shm_router_def
      by (simp add: b Inr Let_def) (intro conjI impI outcome_of_loop server_runs_silent; simp)
  qed
qed

lemma mixed_outcome: "router_outcome E (mixed_up E t (sy_shm s) (sy_net s)) s (run_mixed_router E t rules s)"
proof (cases "make_mixed_router_server (net_os E) t (sy_net s)")
  case (Pair r k1)
  show ?thesis
  proof (cases r)
    case (Inl e)
    then show ?thesis by (simp add: router_outcome_def mixed_up_def run_mixed_router_def Pair)
  next
    case (Inr m)
    define s1 where "s1 = (case listen_uds t of None \<Rightarrow> s\<lparr>sy_net := k1\<rparr> | Some a \<Rightarrow> unlink_file (uds_path a) (s\<lparr>sy_net := k1\<rparr>))"
    have s1: "sy_shm s1 = sy_shm s" "sy_notes s1 = sy_notes s" "registered s1 = registered s"
      "sy_net s1 = (case listen_uds t of None \<Rightarrow> k1 | Some a \<Rightarrow> sys_unlink (c_str (uds_path a)) k1)"
      by (simp_all add: s1_def split: option.split)
    obtain b m1 w k where b: "mx_bind_router (shm_os E) (net_os E) (m, sy_shm s1, sy_net s1) = (b, (m1, w, k))" by (metis prod_cases4)
    have up: "mixed_up E t (sy_shm s) (sy_net s) = b"
      using b unfolding s1(4) by (simp add: mixed_up_def Pair Inr s1(1))
    note run = run_mixed_router_def [of E t rules s, unfolded Pair Inr prod.case sum.case Let_def, folded s1_def]
    show ?thesis
    proof (cases b)
      case (Inl e)
      then show ?thesis
        unfolding up run b by (simp add: router_outcome_def leave_scope_silent s1)
    next
      case (Inr u)
      show ?thesis
        unfolding up run b Inr prod.case sum.case unit_eq [of u]
        by (cases "priority_drop_floor_from_env E = 0"; simp only: simp_thms if_True if_False prod.case;
            rule outcome_of_loop [OF server_runs_silent(3)]; simp add: s1)
    qed
  qed
qed

section \<open>The program\<close>

definition config_up :: "MainEnv \<Rightarrow> string \<Rightarrow> Sys \<Rightarrow> unit res" where
  "config_up E path s =
     (case load_topology_from_toml_file (parse_toml_file E) path of
        Inl (TopologyLoadError m) \<Rightarrow> Inl (RuntimeError m)
      | Inr lt \<Rightarrow>
          let t = view lt
          in if topology_is_mixed t then mixed_up E t (sy_shm s) (sy_net s)
             else case router_listen t of
               peer_uds p \<Rightarrow> datagram_up E UdsT t (sys_unlink (c_str p) (sy_net s))
             | peer_udp _ _ \<Rightarrow> datagram_up E UdpT t (sy_net s)
             | peer_shm _ \<Rightarrow> shm_up E t (sy_shm s))"

definition demo_up :: "MainEnv \<Rightarrow> string list \<Rightarrow> TransportKind \<Rightarrow> Sys \<Rightarrow> unit res" where
  "demo_up E args k s =
     (case k of
        KindShm \<Rightarrow> shm_up E (demo_topology_of k) (sy_shm s)
      | KindUds \<Rightarrow> datagram_up E UdsT (demo_topology_of k) (case args of
            a # _ \<Rightarrow> if a \<noteq> kRouterUdsPath then sys_unlink (c_str a) (sy_net s) else sy_net s | [] \<Rightarrow> sy_net s)
      | KindUdp \<Rightarrow> (case args of
            a # _ \<Rightarrow> (case c_stoi a of Inl e \<Rightarrow> Inl e | Inr _ \<Rightarrow> datagram_up E UdpT (demo_topology_of k) (sy_net s))
          | [] \<Rightarrow> datagram_up E UdpT (demo_topology_of k) (sy_net s)))"

text \<open>\<open>None\<close> when the command line is refused.\<close>

definition startup :: "MainEnv \<Rightarrow> string list \<Rightarrow> Sys \<Rightarrow> unit res option" where
  "startup E args s =
     (case args of [] \<Rightarrow> None
      | a # rest \<Rightarrow>
          if strcmp_eq a ''--config'' then (case rest of [] \<Rightarrow> None | path # _ \<Rightarrow> Some (config_up E path s))
          else if transport_kind_valid a then Some (demo_up E rest (transport_kind_from_cli a) s) else None)"

lemma outcome_from: "router_outcome E up s1 r \<Longrightarrow> silent s s1 \<Longrightarrow> router_outcome E up s r"
  by (simp add: router_outcome_def split: sum.splits)

lemma datagram_outcome_from:
  "silent s q \<Longrightarrow> sy_net q = k \<Longrightarrow> router_outcome E (datagram_up E tr t k) s (run_datagram_router E tr t rules q)"
  using outcome_from [OF datagram_outcome] by blast

lemma config_outcome: "router_outcome E (config_up E path s) s (run_with_config E path s)"
proof (cases "load_topology_from_toml_file (parse_toml_file E) path")
  case (Inl e)
  then show ?thesis by (cases e) (simp add: router_outcome_def config_up_def run_with_config_def)
next
  case (Inr lt)
  let ?t = "view lt" and ?rules = "lt_routes lt"
  define s1 where "s1 = (if ?rules = [] then main_log ROUTER_LOG_WARN
      (''config '' @ quoted path @ '' has no [[routes]]; router will receive but not forward'') s else s)"
  have s1: "silent s s1" "sy_shm s1 = sy_shm s" "sy_net s1 = sy_net s" by (simp_all add: s1_def)
  have run: "run_with_config E path s = (if topology_is_mixed ?t then run_mixed_router E ?t ?rules s1
      else case router_listen ?t of
          peer_uds p \<Rightarrow> run_datagram_router E UdsT ?t ?rules (main_log ROUTER_LOG_INFO (''UDS router on '' @ p) (unlink_file p s1))
        | peer_udp h port \<Rightarrow> run_datagram_router E UdpT ?t ?rules
            (main_log ROUTER_LOG_INFO (''UDP router on '' @ h @ '':'' @ to_string_nat (unat port)) s1)
        | peer_shm n \<Rightarrow> run_shm_router E ?t ?rules s1)"
    unfolding s1_def by (simp add: run_with_config_def Inr Let_def)
  show ?thesis
  proof (cases "topology_is_mixed ?t")
    case True
    then show ?thesis
      using outcome_from [OF mixed_outcome s1(1), of E ?t ?rules] s1(2,3) run by (simp add: config_up_def Inr Let_def)
  next
    case False
    show ?thesis
    proof (cases "router_listen ?t")
      case (peer_uds p)
      show ?thesis
        unfolding run by (simp add: False peer_uds config_up_def Inr Let_def) (rule datagram_outcome_from; simp add: s1)
    next
      case (peer_udp h port)
      show ?thesis
        unfolding run by (simp add: False peer_udp config_up_def Inr Let_def) (rule datagram_outcome_from; simp add: s1)
    next
      case (peer_shm n)
      show ?thesis
        using outcome_from [OF shm_outcome s1(1), of E ?t ?rules] s1(2)
        unfolding run by (simp add: False peer_shm config_up_def Inr Let_def)
    qed
  qed
qed

lemma demo_outcome: "router_outcome E (demo_up E args k s) s (server_runner E args k s)"
proof (cases k)
  case KindShm
  then show ?thesis using shm_outcome [of E "demo_topology_of k" s] by (simp add: demo_up_def server_runner_def)
next
  case KindUds
  show ?thesis
    unfolding demo_up_def server_runner_def KindUds TransportKind.case Let_def
    by (rule datagram_outcome_from) (simp_all split: list.split)
next
  case KindUdp
  show ?thesis
  proof (cases "case args of a # _ \<Rightarrow> c_stoi a | [] \<Rightarrow> Inr (uint kRouterUdpPort)")
    case (Inl e)
    then show ?thesis by (cases args) (simp_all add: KindUdp demo_up_def server_runner_def router_outcome_def)
  next
    case (Inr n)
    then have "demo_up E args k s = datagram_up E UdpT (demo_topology_of k) (sy_net s)"
      by (cases args) (simp_all add: KindUdp demo_up_def)
    moreover have "server_runner E args k s = run_datagram_router E UdpT (demo_topology_of KindUdp) kDemoRouteRules
        (main_log ROUTER_LOG_INFO (''UDP router on port '' @ to_string_nat (unat (word_of_int n :: u16))) s)"
      by (simp add: KindUdp server_runner_def Inr)
    ultimately show ?thesis
      unfolding KindUdp by (simp only:) (rule datagram_outcome_from, simp_all)
  qed
qed

text \<open>How the program ends when it gives up.\<close>

definition reports :: "string \<Rightarrow> Sys \<Rightarrow> bool" where
  "reports msg s \<longleftrightarrow> (\<exists>out. stderr_out (sy_proc s) = out @ ''[err]  error: '' @ msg @ [newline])"

definition explains_usage :: "string \<Rightarrow> Sys \<Rightarrow> bool" where
  "explains_usage prog s \<longleftrightarrow> (\<exists>out. stderr_out (sy_proc s) = out @ usage_text prog)"

lemma main_error_reports:
  "registered s = Some 0 \<Longrightarrow> \<exists>q. main_error (RuntimeError m) s = (Exited 1, q) \<and> sy_notes q = sy_notes s \<and> reports m q"
  by (simp add: main_error_def main_log_def router_log_def demo_stderr_logger_def Let_def reports_def)

lemma usage_explains: "explains_usage prog (usage prog s)"
  by (simp add: explains_usage_def usage_def)

lemma finish_outcome:
  assumes "router_outcome E up s r" "registered s = Some 0" "main_finish prog (0, r) = (e, s')"
  shows "case up of
      Inl (RuntimeError m) \<Rightarrow> e = Exited 1 \<and> sy_notes s' = sy_notes s \<and> reports m s'
    | Inr _ \<Rightarrow> e = Exited 0 \<and> sy_notes s' = sy_notes s @ status_note E ''READY=1'' @ status_note E ''STOPPING=1''
        \<or> e = StillRunning \<and> sy_notes s' = sy_notes s @ status_note E ''READY=1''
        \<or> e = Exited 1 \<and> sy_notes s' = sy_notes s @ status_note E ''READY=1'' \<and> (\<exists>m. reports m s')"
proof -
  obtain fin q where r: "r = (fin, q)" by fastforce
  have reg: "registered q = Some 0" using assms(1,2) by (simp add: router_outcome_def r)
  have err: "e = Exited 1 \<and> sy_notes s' = sy_notes q \<and> reports m s'" if "fin = Raised (RuntimeError m)" for m
    using main_error_reports [OF reg, of m] assms(3) that by (auto simp: r main_finish_def)
  show ?thesis
  proof (cases up)
    case (Inl x)
    obtain m where "x = RuntimeError m" by (cases x)
    then show ?thesis using assms(1) err Inl by (simp add: router_outcome_def r)
  next
    case (Inr u)
    then have n: "sy_notes q = sy_notes s @ status_note E ''READY=1'' @ (if fin = Returned then status_note E ''STOPPING=1'' else [])"
      using assms(1) by (simp add: router_outcome_def r)
    show ?thesis
    proof (cases fin)
      case (Raised x)
      obtain m where "x = RuntimeError m" by (cases x)
      then show ?thesis using err [of m] n Raised Inr by auto
    qed (use n assms(3) Inr in \<open>simp_all add: r main_finish_def\<close>)
  qed
qed

text \<open>
  C13: the life of the router program. On every command line, environment and answer of the kernel:
  a command line that is refused ends with exit code 1 and the usage text. A profile that does not
  load, or endpoints that do not come up, end with exit code 1, the message of the exception as the
  last line on standard error and no notification. Otherwise \<open>READY=1\<close> is sent, once and only after
  the endpoints are bound; \<open>STOPPING=1\<close> follows exactly when the loop has returned, and then the
  program exits with 0; an exception out of the loop is reported with exit code 1 and without
  \<open>STOPPING=1\<close>, so the supervisor takes it for a crash.
\<close>

theorem router_main_life:
  assumes "router_main E prog args s = (e, s')"
  shows "case startup E args s of
      None \<Rightarrow> e = Exited 1 \<and> sy_notes s' = sy_notes s \<and> explains_usage prog s'
    | Some (Inl (RuntimeError m)) \<Rightarrow> e = Exited 1 \<and> sy_notes s' = sy_notes s \<and> reports m s'
    | Some (Inr _) \<Rightarrow> e = Exited 0 \<and> sy_notes s' = sy_notes s @ status_note E ''READY=1'' @ status_note E ''STOPPING=1''
        \<or> e = StillRunning \<and> sy_notes s' = sy_notes s @ status_note E ''READY=1''
        \<or> e = Exited 1 \<and> sy_notes s' = sy_notes s @ status_note E ''READY=1'' \<and> (\<exists>m. reports m s')"
proof -
  let ?s = "main_setup E s"
  have reg: "registered ?s = Some 0" by simp
  have same: "config_up E path ?s = config_up E path s" "demo_up E rest k ?s = demo_up E rest k s" for path rest k
    unfolding config_up_def demo_up_def setup_keeps by (rule refl)+
  consider (none) "startup E args s = None" "router_main E prog args s = (Exited 1, usage prog ?s)"
    | (run) up r where "startup E args s = Some up" "router_outcome E up ?s r" "router_main E prog args s = main_finish prog (0, r)"
  proof (cases args)
    case Nil
    then show thesis using none by (simp add: startup_def router_main_def Let_def)
  next
    case (Cons a rest)
    show thesis
    proof (cases "strcmp_eq a ''--config''")
      case True
      show thesis
      proof (cases rest)
        case Nil
        then show thesis using none True Cons by (simp add: startup_def router_main_def Let_def)
      next
        case (Cons path more)
        then show thesis
          using run [of "config_up E path s" "run_with_config E path ?s"] config_outcome [of E path ?s] True \<open>args = a # rest\<close>
          by (simp add: startup_def router_main_def Let_def same)
      qed
    next
      case False
      note d = dispatch_transport_kind_def
      show thesis
      proof (cases "transport_kind_valid a")
        case True
        then have "dispatch_transport_kind a (\<lambda>k (_, q). (0, server_runner E rest k q)) (Returned, ?s)
            = (0, server_runner E rest (transport_kind_from_cli a) ?s)"
          by (auto simp: d transport_kind_valid_def transport_kind_from_cli_def)
        then show thesis
          using run [of "demo_up E rest (transport_kind_from_cli a) s" "server_runner E rest (transport_kind_from_cli a) ?s"]
            demo_outcome [of E rest "transport_kind_from_cli a" ?s] True False Cons
          by (simp add: startup_def router_main_def Let_def same)
      next
        case invalid: False
        then have "dispatch_transport_kind a (\<lambda>k (_, q). (0, server_runner E rest k q)) (Returned, ?s) = (-1, (Returned, ?s))"
          by (simp add: d transport_kind_valid_def)
        then show thesis using none invalid False Cons by (simp add: startup_def router_main_def Let_def main_finish_def)
      qed
    qed
  qed
  then show ?thesis
  proof cases
    case none
    then show ?thesis using assms usage_explains by auto
  next
    case run
    have "main_finish prog (0, r) = (e, s')" using run(3) assms by simp
    from finish_outcome [OF run(2) reg this, unfolded setup_keeps] show ?thesis by (simp only: run(1) option.case)
  qed
qed

text \<open>A profile of two shared-memory peers under a supervisor, with the stop flag set at the first turn.\<close>

definition demo_turns :: "'s RunEnv" where
  "demo_turns = \<lparr>stop_flag = (\<lambda>_. True), now_ns = (\<lambda>_. 5), steady_ms = (\<lambda>_. 0), others = (\<lambda>_ s. s)\<rparr>"

definition demo_main_env :: MainEnv where
  "demo_main_env = \<lparr>getenv = [''NOTIFY_SOCKET'' \<mapsto> ''@n''], mlockall_rc = 0, sched_rc = (\<lambda>_. 0), net_os = demo_os,
     shm_os = (\<lambda>_. os_all_ok), parse_toml_file = (\<lambda>_. Inr demo_profile), shm_turns = demo_turns, dg_turns = demo_turns,
     mx_turns = demo_turns, start_ms = 0, turns = 1\<rparr>"

definition demo_sys :: Sys where
  "demo_sys = \<lparr>sy_proc = \<lparr>stop_var = 0, handlers = (\<lambda>_. SigDefault), log_fn = None, log_calls = [], stderr_out = []\<rparr>,
     sy_shm = empty_world, sy_net = demo_kernel, sy_notes = []\<rparr>"

lemma demo_env_facts:
  "parse_toml_file demo_main_env = (\<lambda>_. Inr demo_profile)" "shm_os demo_main_env = (\<lambda>_. os_all_ok)"
  "status_note demo_main_env ''READY=1'' = [(SockUn (NUL # ''n''), map byte_of_char ''READY=1'')]"
  "status_note demo_main_env ''STOPPING=1'' = [(SockUn (NUL # ''n''), map byte_of_char ''STOPPING=1'')]"
  "sy_notes demo_sys = []" "sy_shm demo_sys = empty_world"
  by (simp_all add: demo_main_env_def status_note_def demo_os_def notify_address_def demo_sys_def Let_def)

lemma demo_starts: "startup demo_main_env [''--config'', path] demo_sys = Some (Inr ())"
proof -
  have os: "shm_os_ok os_all_ok" and z: "(0 :: nat) < 2 ^ 64" by simp_all
  have t: "\<not> topology_is_mixed (view demo_loaded)" "\<exists>n. router_listen (view demo_loaded) = peer_shm n"
    by (simp_all add: demo_loaded_def topology_is_mixed_def view_def Let_def)
  obtain l w' where "bind_shm_router_listen (\<lambda>_. os_all_ok) (view demo_loaded) (make_shm_router_server (view demo_loaded), empty_world)
      = (Inr (), (l, w'))"
    by (rule stand_up [where os = "\<lambda>_. os_all_ok", OF from_file.load_ok [OF demo_loads_file] demo_loaded_facts(1,3,5) world_ok_empty os z]) blast
  then show ?thesis
    using t by (auto simp: startup_def strcmp_eq_def config_up_def shm_up_def demo_env_facts demo_loads_file Let_def)
qed

theorem router_main_life_witness:
  "\<exists>e s'. router_main demo_main_env ''rim'' [''--config'', ''/etc/rim/router.toml''] demo_sys = (e, s')
    \<and> hd (sy_notes s') = (SockUn (NUL # ''n''), map byte_of_char ''READY=1'')"
proof -
  obtain e s' where r: "router_main demo_main_env ''rim'' [''--config'', ''/etc/rim/router.toml''] demo_sys = (e, s')" by fastforce
  from router_main_life [OF r] have "hd (sy_notes s') = (SockUn (NUL # ''n''), map byte_of_char ''READY=1'')"
    unfolding demo_starts demo_env_facts by auto
  then show ?thesis using r by blast
qed

end
