(* ===== verification/Tame.thy ===== *)
theory Tame
  imports App Restart
begin

text \<open>
  What a call leaves behind in the tables of the system: the descriptors of the kernel
  (\<open>ipc/datagram.hpp\<close>) and the names of shared-memory objects (\<open>ipc/shm_spsc.hpp\<close>). A step that neither
  opens nor closes, nor binds a name, is \<open>tame\<close>; every operation of the links is tame between their
  construction and their destruction, and so are the loops over them.
\<close>

section \<open>Descriptors\<close>

definition same_table :: "Kernel \<Rightarrow> Kernel \<Rightarrow> bool" where
  "same_table k k' \<longleftrightarrow> dom (socks k') = dom (socks k) \<and> next_fd k' = next_fd k"

lemma same_table_refl [simp]: "same_table k k"
  by (simp add: same_table_def)

lemma same_table_trans [trans]: "same_table k1 k2 \<Longrightarrow> same_table k2 k3 \<Longrightarrow> same_table k1 k3"
  by (simp add: same_table_def)

definition dg_tame :: "dg_state \<Rightarrow> dg_state \<Rightarrow> bool" where
  "dg_tame s s' \<longleftrightarrow> dl_endpoint (fst s') = dl_endpoint (fst s) \<and> same_table (snd s) (snd s')"

lemma dg_tame_refl [simp]: "dg_tame s s"
  by (simp add: dg_tame_def)

lemma dg_tame_trans [trans]: "dg_tame s1 s2 \<Longrightarrow> dg_tame s2 s3 \<Longrightarrow> dg_tame s1 s3"
  by (auto simp: dg_tame_def intro: same_table_trans)

lemma put_sock_table [simp]: "socks k d = Some x \<Longrightarrow> same_table k (put_sock d y k)"
  by (simp add: same_table_def put_sock_def insert_absorb domI)

lemma table_updates [simp]:
  "same_table k (k'\<lparr>paths := ps\<rparr>) \<longleftrightarrow> same_table k k'" "same_table (sys_unlink p k) k' \<longleftrightarrow> same_table k k'"
  by (simp_all add: same_table_def sys_unlink_def)

lemma sys_bind_table: "sys_bind os d a k = (r, k') \<Longrightarrow> same_table k k'"
  by (auto simp: sys_bind_def split: option.splits if_splits sockaddr.splits)

lemma sys_sendto_table: "sys_sendto os d a x k = (r, k') \<Longrightarrow> same_table k k'"
  by (auto simp: sys_sendto_def split: option.splits if_splits)

lemma sys_recvfrom_table: "sys_recvfrom d n k = (r, k') \<Longrightarrow> same_table k k'"
  by (auto simp: sys_recvfrom_def split: option.splits list.splits recv_answer.splits)

lemma set_timeout_table: "ep_set_recv_timeout_ms tr os h ms k = (r, k') \<Longrightarrow> same_table k k'"
  by (cases tr) (auto simp: ep_set_recv_timeout_ms_def Uds_set_recv_timeout_def Udp_set_recv_timeout_def
      datagram_set_recv_timeout_def split: option.splits if_splits)

lemma ep_dg_bind_table: "ep_dg_bind os h p k = (r, k') \<Longrightarrow> same_table k k'"
  by (auto simp: ep_dg_bind_def Uds_bind_def Udp_bind_def datagram_set_reuseaddr_def split: DgBindParams.splits prod.splits if_splits
      dest: sys_bind_table)

lemma ep_recv_table: "ep_recv tr h b out k = (r, k') \<Longrightarrow> same_table k k'"
  by (cases tr) (auto simp: ep_recv_def Uds_recv_def Udp_recv_def dg_recv_def split: prod.splits sum.splits dest: sys_recvfrom_table)

lemma ep_try_recv_table: "ep_dg_try_recv tr h b out k = (r, k') \<Longrightarrow> same_table k k'"
  by (cases tr) (auto simp: ep_dg_try_recv_def Uds_try_recv_def Udp_try_recv_def dg_try_recv_def
      split: prod.splits sum.splits if_splits dest: sys_recvfrom_table)

lemma send_address_table: "send_datagram_to_address os d a pl k = (r, k') \<Longrightarrow> same_table k k'"
  by (auto simp: send_datagram_to_address_def Uds_send_to_def Udp_send_to_def Udp_send_to_addr_def
      split: PeerAddress.splits prod.splits if_splits option.splits dest: sys_sendto_table)

lemma dg_bind_router_tame: "dg_bind_router os p (l, k) = (r, (l', k')) \<Longrightarrow> l' = l \<and> same_table k k'"
  by (auto simp: dg_bind_router_def split: if_splits prod.splits dest: ep_dg_bind_table)

lemma dg_send_to_peer_tame: "dg_tame s (snd (dg_send_to_peer os pl d s))"
  by (cases s) (auto simp: dg_tame_def dg_send_to_peer_def send_buffer_to_def bump_forwarded_def
      split: option.splits prod.splits sum.splits dest: send_address_table)

lemma dg_try_receive_tame: "dg_try_receive tr f ts s = (r, f', s') \<Longrightarrow> dg_tame s s'"
  by (cases s) (auto simp: dg_tame_def dg_try_receive_def bump_truncated_def bump_unknown_def Let_def
      split: prod.splits sum.splits if_splits dest: ep_try_recv_table)

lemma dg_tame_bump [simp]:
  "dg_tame s (bump_truncated l, k) \<longleftrightarrow> dg_tame s (l, k)" "dg_tame s (bump_unknown l, k) \<longleftrightarrow> dg_tame s (l, k)"
  by (simp_all add: dg_tame_def bump_truncated_def bump_unknown_def)

lemma dg_forward_tame:
  assumes "dg_forward tr os f ts rules s = (r, f', s')"
  shows "dg_tame s s'"
proof -
  obtain l k where s: "s = (l, k)" by (cases s)
  obtain y k1 where rcv: "ep_recv tr (dl_endpoint l) (frame_writable f) (from_zero tr) k = (y, k1)" by fastforce
  have k1: "dg_tame s (l, k1)" using ep_recv_table [OF rcv] by (simp add: dg_tame_def s)
  have "dg_tame s (snd (fan_out (dg_send_to_peer os pl) ds (l, k1)))" for pl ds
    by (rule fan_out_invariant [where I = "dg_tame s"]) (rule dg_tame_trans [OF _ dg_send_to_peer_tame], assumption, rule k1)
  then have fan: "fan_out (dg_send_to_peer os pl) ds (l, k1) = (z, s2) \<Longrightarrow> dg_tame s s2" for pl ds z s2 by (metis snd_conv)
  show ?thesis
    using assms rcv k1 fan unfolding s
    by (auto simp: dg_forward_def Let_def split: if_splits sum.splits prod.splits)
qed

text \<open>The descriptors of the process: those it had, and those of its links.\<close>

definition fds_held :: "int set \<Rightarrow> int set \<Rightarrow> Kernel \<Rightarrow> bool" where
  "fds_held F hs k \<longleftrightarrow> dom (socks k) = F \<union> hs \<and> F \<inter> hs = {} \<and> (\<forall>d\<in>dom (socks k). 0 \<le> d \<and> d < int (next_fd k))"

lemma fds_held_same: "fds_held F hs k \<Longrightarrow> same_table k k' \<Longrightarrow> fds_held F hs k'"
  by (simp add: fds_held_def same_table_def)

lemma fds_held_unlink [simp]: "fds_held F hs (sys_unlink p k) \<longleftrightarrow> fds_held F hs k"
  by (simp add: fds_held_def sys_unlink_def)

lemma fds_held_open:
  assumes "fds_held F hs k" "Socket_open os k = (Inr h, k')"
  shows "fds_held F (insert (fd h) hs) k' \<and> fd h \<notin> hs"
proof -
  have h: "fd h = int (next_fd k)" "dom (socks k') = insert (int (next_fd k)) (dom (socks k))" "next_fd k' = Suc (next_fd k)"
    using assms(2) by (auto simp: Socket_open_def split: if_splits)
  have k: "dom (socks k) = F \<union> hs" "F \<inter> hs = {}" "\<forall>d\<in>F \<union> hs. 0 \<le> d \<and> d < int (next_fd k)"
    using assms(1) by (simp_all add: fds_held_def)
  have fresh: "int (next_fd k) \<notin> F \<union> hs" using k(3) by auto
  have "0 \<le> d \<and> d < int (next_fd k')" if "d \<in> F \<union> insert (fd h) hs" for d
  proof (cases "d = fd h")
    case False
    with that have "d \<in> F \<union> hs" by blast
    from bspec [OF k(3) this] show ?thesis by (simp add: h)
  qed (simp add: h)
  then have "\<forall>d\<in>F \<union> insert (fd h) hs. 0 \<le> d \<and> d < int (next_fd k')" by blast
  moreover have "dom (socks k') = F \<union> insert (fd h) hs" by (simp add: h k(1))
  moreover have "F \<inter> insert (fd h) hs = {}" "fd h \<notin> hs" using k(2) fresh by (simp_all add: h)
  ultimately show ?thesis unfolding fds_held_def by simp
qed

lemma fds_held_close:
  assumes "fds_held F (insert (fd h) hs) k" "fd h \<notin> hs"
  shows "fds_held F hs (Socket_close h k)"
proof -
  have k: "dom (socks k) = F \<union> insert (fd h) hs" "F \<inter> insert (fd h) hs = {}"
    "\<forall>d\<in>F \<union> insert (fd h) hs. 0 \<le> d \<and> d < int (next_fd k)"
    using assms(1) by (simp_all add: fds_held_def)
  have "0 \<le> fd h" using k(3) by simp
  then have k': "dom (socks (Socket_close h k)) = dom (socks k) - {fd h}" "next_fd (Socket_close h k) = next_fd k"
    by (simp_all add: Socket_close_def sys_close_def)
  have rest: "F \<union> hs - {fd h} = F \<union> hs" using k(2) assms(2) by blast
  show ?thesis using k(2,3) by (simp add: fds_held_def k' k(1) rest)
qed

text \<open>A notification opens a socket of its own and closes it.\<close>

lemma fds_held_notify:
  assumes "fds_held F hs k" "router_sd_notify env os st k = (ok, dgram, k')"
  shows "fds_held F hs k'"
proof -
  have "fds_held F hs (Socket_close h k2)" if "Socket_open os k = (Inr h, k1)" "sys_sendto os (fd h) a x k1 = (b, k2)" for h k1 a x b k2
  proof -
    have o1: "fds_held F (insert (fd h) hs) k1" "fd h \<notin> hs" using fds_held_open [OF assms(1) that(1)] by simp_all
    show ?thesis by (rule fds_held_close [OF fds_held_same [OF o1(1) sys_sendto_table [OF that(2)]] o1(2)])
  qed
  moreover have "Socket_close h k2 = sys_close (fd h) k2" if "Socket_open os k = (Inr h, k1)" for h k1 k2
    using that by (auto simp: Socket_open_def Socket_close_def split: if_splits)
  moreover have "k1 = k" if "Socket_open os k = (Inl e, k1)" for e k1 using that by (auto simp: Socket_open_def split: if_splits)
  ultimately show ?thesis
    using assms by (auto simp: router_sd_notify_def Let_def split: option.splits if_splits prod.splits sum.splits)
qed

section \<open>Names of shared-memory objects\<close>

text \<open>Names are only given up.\<close>

definition fewer_names :: "ShmWorld \<Rightarrow> ShmWorld \<Rightarrow> bool" where
  "fewer_names w w' \<longleftrightarrow> (\<forall>n. ns w' n \<noteq> None \<longrightarrow> ns w n \<noteq> None)"

definition shm_tame :: "shm_link_state \<Rightarrow> shm_link_state \<Rightarrow> bool" where
  "shm_tame s s' \<longleftrightarrow> chan_ends (fst s') = chan_ends (fst s) \<and> fewer_names (snd s) (snd s')"

lemma shm_tame_refl [simp]: "shm_tame s s"
  by (simp add: shm_tame_def fewer_names_def)

lemma shm_tame_trans [trans]: "shm_tame s1 s2 \<Longrightarrow> shm_tame s2 s3 \<Longrightarrow> shm_tame s1 s3"
  by (simp add: shm_tame_def fewer_names_def)

lemma writes_fewer: "writes_only K w w' \<Longrightarrow> fewer_names w w'"
  by (simp add: writes_only_def fewer_names_def)

lemma forward_tame:
  assumes "forward f ts rules s = (r, f', s')"
  shows "shm_tame s s'"
proof -
  obtain l w l' w' where s: "s = (l, w)" "s' = (l', w')" by (metis surj_pair)
  show ?thesis
    using forward_ends [of f ts rules s] writes_fewer [OF forward_writes [OF assms [unfolded s]]] assms
    by (simp add: shm_tame_def s)
qed

lemma send_to_peer_tame: "shm_tame s (snd (send_to_peer pl d s))"
  using send_to_peer_ends [of pl d s] writes_fewer [OF send_to_peer_writes [of s pl d]] by (simp add: shm_tame_def)

lemma try_receive_tame: "try_receive f ts s = (r, f', s') \<Longrightarrow> shm_tame s s'"
  using try_receive_ends [of f ts s]
  by (cases s; cases s') (auto simp: shm_tame_def chan_ends_def try_receive_def split: prod.splits dest!: receive_scan_writes writes_fewer)

text \<open>The names bound are those there were, and those that the channels of a link created.\<close>

definition created :: "PeerChannel list \<Rightarrow> string set" where
  "created cs = {name r | r c. c \<in> set cs \<and> chan_endpoint c = Some r \<and> is_creator r}"

definition names_held :: "string set \<Rightarrow> PeerChannel list \<Rightarrow> ShmWorld \<Rightarrow> bool" where
  "names_held N cs w \<longleftrightarrow> dom (ns w) \<subseteq> N \<union> created cs"

lemma created_simps [simp]:
  "created [] = {}"
  "created (c # cs) = (case chan_endpoint c of Some r \<Rightarrow> if is_creator r then {name r} else {} | None \<Rightarrow> {}) \<union> created cs"
  by (auto simp: created_def split: option.split)

lemma created_ends: "chan_ends l' = chan_ends l \<Longrightarrow> created (peer_channels l') = created (peer_channels l)"
proof -
  have "created (peer_channels k) = {name r | r p. (p, Some r) \<in> set (chan_ends k) \<and> is_creator r}" for k
    by (force simp: created_def chan_ends_def)
  then show "chan_ends l' = chan_ends l \<Longrightarrow> created (peer_channels l') = created (peer_channels l)" by simp
qed

lemma fewer_names_dom: "fewer_names w w' \<Longrightarrow> dom (ns w') \<subseteq> dom (ns w)"
  unfolding fewer_names_def by blast

lemma names_held_tame: "names_held N (peer_channels l) w \<Longrightarrow> shm_tame (l, w) (l', w') \<Longrightarrow> names_held N (peer_channels l') w'"
  using created_ends [of l' l] fewer_names_dom [of w w'] unfolding names_held_def shm_tame_def fst_conv snd_conv by simp

lemma names_held_destroyed:
  assumes "names_held N cs w"
  shows "names_held N [] (destroy_channels cs w)"
proof -
  have "n \<in> N" if "ns (destroy_channels cs w) n = Some k" for n k
  proof -
    have "ns w n \<noteq> None" using destroy_channels_effect(3) [of cs w n] that by (metis option.distinct(1))
    then have "n \<in> N \<union> created cs" using assms by (auto simp: names_held_def)
    moreover have "n \<notin> created cs" using destroy_channels_effect(4) [of _ cs _ w] that by (force simp: created_def)
    ultimately show ?thesis by blast
  qed
  then show ?thesis by (auto simp: names_held_def)
qed

lemma shm_bind_names:
  "shm_bind os p w = (r, w') \<Longrightarrow> dom (ns w') \<subseteq> insert (bp_name p) (dom (ns w))"
  "shm_bind os p w = (Inr r', w') \<Longrightarrow> name r' = bp_name p \<and> is_creator r' = bp_create p"
  by (auto simp: shm_bind_def shm_map_layout_def Let_def split: if_splits option.splits)

text \<open>A creating bind that raises gives up the name also when the object belonged to another router.\<close>

lemma failed_bind_unlinks: "bp_create p \<Longrightarrow> ep_bind os p w = (Inl e, w') \<Longrightarrow> ns w' (bp_name p) = None"
  by (auto simp: ep_bind_def split: prod.splits sum.splits)

lemma bind_channels_names:
  "names_held N [] w \<Longrightarrow> bind_channels os es w = (res, cs, w') \<Longrightarrow> names_held N cs w'"
proof (induction es arbitrary: N w res cs w')
  case (Cons e es)
  show ?case
  proof (cases "kind (local_addr e) = ShmRing")
    case True
    let ?p = "peer_bind_params e True" and ?nm = "shm_name (local_addr e)"
    have p: "bp_create ?p" "bp_name ?p = ?nm" by (simp_all add: peer_bind_params_def Let_def)
    obtain r w1 where b: "shm_bind (os ?nm) ?p w = (r, w1)" by fastforce
    have w1: "dom (ns w1) \<subseteq> insert ?nm N"
      using shm_bind_names(1) [OF b] Cons.prems(1) p by (auto simp: names_held_def)
    show ?thesis
    proof (cases r)
      case (Inl e')
      then have "cs = []" "w' = w1\<lparr>ns := (ns w1)(?nm := None)\<rparr>"
        using Cons.prems(2) b True p by (auto simp: bind_shm_endpoint_def ep_bind_def)
      then show ?thesis using w1 by (auto simp: names_held_def)
    next
      case (Inr rg)
      have rg: "name rg = ?nm" "is_creator rg" using shm_bind_names(2) [OF b [unfolded Inr]] p by simp_all
      obtain res' cs' w2 where more: "bind_channels os es w1 = (res', cs', w2)" by (metis prod_cases3)
      have "names_held (insert ?nm N) [] w1" using w1 by (simp add: names_held_def)
      from Cons.IH [OF this more] have "names_held (insert ?nm N) cs' w2" .
      moreover have "cs = \<lparr>chan_peer_id = peer_id e, chan_endpoint = Some rg, congested = False\<rparr> # cs'" "w' = w2"
        using Cons.prems(2) b True Inr more by (auto simp: bind_shm_endpoint_def ep_bind_def)
      ultimately show ?thesis using rg by (auto simp: names_held_def)
    qed
  qed (use Cons in \<open>auto\<close>)
qed simp

lemma bind_router_names:
  assumes "names_held N [] w" "peer_channels l = []" "bind_router os p (l, w) = (r, (l', w'))"
  shows "names_held N (peer_channels l') w'"
proof -
  obtain res cs w1 where b: "bind_channels os (peers (topo l)) w = (res, cs, w1)" by (metis prod_cases3)
  show ?thesis
    using assms bind_channels_names [OF assms(1) b] b
    by (auto simp: bind_router_def Let_def names_held_def split: if_splits sum.splits)
qed

section \<open>Loops\<close>

lemma server_loop_invariant:
  assumes "\<And>f ts s r f' s'. fwd f ts rules s = (r, f', s') \<Longrightarrow> I s \<Longrightarrow> I s'" "\<And>i s. I s \<Longrightarrow> I (others env i s)" "I s"
  shows "I (snd (snd (snd (server_loop hangs fwd env opts rules fuel i prev f s))))"
  using assms(3)
proof (induction fuel arbitrary: i prev f s)
  case (Suc fuel)
  obtain res f1 s1 where fw: "fwd f (now_ns env i) rules s = (res, f1, s1)" by (metis prod_cases3)
  have s1: "I s1" by (rule assms(1) [OF fw Suc.prems])
  then have "I (snd (snd (snd (server_loop hangs fwd env opts rules fuel (Suc i) p f1 (others env i s1)))))" for p
    by (intro Suc.IH assms(2))
  then show ?case using Suc.prems s1 fw by (simp split: prod.split option.split)
qed simp

text \<open>The mixed router: each link tame, and no name or descriptor bound anew.\<close>

definition mx_tame :: "mx_state \<Rightarrow> mx_state \<Rightarrow> bool" where
  "mx_tame s s' \<longleftrightarrow> map_option chan_ends (shm_link (fst s')) = map_option chan_ends (shm_link (fst s))
     \<and> map_option dl_endpoint (uds_link (fst s')) = map_option dl_endpoint (uds_link (fst s))
     \<and> map_option dl_endpoint (udp_link (fst s')) = map_option dl_endpoint (udp_link (fst s))
     \<and> fewer_names (fst (snd s)) (fst (snd s')) \<and> same_table (snd (snd s)) (snd (snd s'))"

lemma mx_tame_refl [simp]: "mx_tame s s"
  by (simp add: mx_tame_def fewer_names_def)

lemma mx_tame_trans [trans]: "mx_tame s1 s2 \<Longrightarrow> mx_tame s2 s3 \<Longrightarrow> mx_tame s1 s3"
  by (auto simp: mx_tame_def fewer_names_def intro: same_table_trans)

lemma on_link_tame:
  "shm_link m = Some sl \<Longrightarrow> shm_tame (sl, w) (snd (c (sl, w))) \<Longrightarrow> mx_tame (m, w, k) (snd (on_shm sl c (m, w, k)))"
  "uds_link m = Some dl \<Longrightarrow> dg_tame (dl, k) (snd (d (dl, k))) \<Longrightarrow> mx_tame (m, w, k) (snd (on_uds dl d (m, w, k)))"
  "udp_link m = Some dl \<Longrightarrow> dg_tame (dl, k) (snd (d (dl, k))) \<Longrightarrow> mx_tame (m, w, k) (snd (on_udp dl d (m, w, k)))"
  by (auto simp: mx_tame_def shm_tame_def dg_tame_def on_shm_def on_uds_def on_udp_def fewer_names_def split: prod.splits)

lemma mx_send_to_peer_tame: "mx_tame s (snd (mx_send_to_peer os pl d s))"
proof -
  obtain m w k where s: "s = (m, w, k)" by (metis prod_cases3)
  show ?thesis
    unfolding s mx_send_to_peer_def Let_def fst_conv
    by (simp add: on_link_tame send_to_peer_tame dg_send_to_peer_tame split: option.split PeerAddressKind.split)
qed

lemma mx_deliver_tame: "mx_tame s (snd (snd (mx_deliver os src f ds s)))"
proof (induction ds arbitrary: s)
  case (Cons d ds)
  obtain r s1 where snt: "mx_send_to_peer os (frame_read_only f) d s = (r, s1)" by (rule prod.exhaust)
  obtain r2 ev s2 where more: "mx_deliver os src f ds s1 = (r2, ev, s2)" by (rule prod_cases3)
  have s1: "mx_tame s s1" using mx_send_to_peer_tame [of s os "frame_read_only f" d] by (simp only: snt snd_conv)
  have s2: "mx_tame s s2" using mx_tame_trans [OF s1 Cons.IH [of s1]] by (simp only: more snd_conv)
  show ?case using s1 s2 by (cases r) (simp_all add: snt more)
qed simp

lemma mx_receive_tame: "mx_tame s (snd (mx_receive kd f ts s))"
proof -
  obtain m w k where s: "s = (m, w, k)" by (metis prod_cases3)
  define c where "c = (\<lambda>q. case try_receive f ts q of (r, f1, q1) \<Rightarrow> (Some (r, f1), q1))"
  define d where "d tr = (\<lambda>q. case dg_try_receive tr f ts q of (r, f1, q1) \<Rightarrow> (Some (r, f1), q1))" for tr
  have "shm_tame q (snd (c q))" for q
    by (auto simp: c_def split: prod.split intro: try_receive_tame)
  moreover have "dg_tame q (snd (d tr q))" for tr q
    by (auto simp: d_def split: prod.split intro: dg_try_receive_tame)
  ultimately show ?thesis
    unfolding s mx_receive_def fst_conv c_def [symmetric] d_def [symmetric]
    by (simp add: on_link_tame split: option.split PeerAddressKind.split)
qed

lemma poll_link_tame: "mx_tame s (snd (snd (snd (poll_link os kd f ts rules s))))"
proof -
  obtain y s1 where rcv: "mx_receive kd f ts s = (y, s1)" by (rule prod.exhaust)
  have s1: "mx_tame s s1" using mx_receive_tame [of s kd f ts] rcv by simp
  have "mx_tame s s2" if "mx_deliver os src g ds s1 = (r, ev, s2)" for src g ds r ev s2
    using mx_tame_trans [OF s1] mx_deliver_tame [of s1 os src g ds] that by simp
  then show ?thesis
    using s1 by (simp add: poll_link_def rcv split: option.split prod.split sum.split)
qed

lemma poll_all_tame: "mx_tame s (snd (snd (snd (poll_all os kds f ts rules s))))"
proof (induction kds arbitrary: f s)
  case (Cons kd kds)
  obtain r ev f1 s1 where p: "poll_link os kd f ts rules s = (r, ev, f1, s1)" by (rule prod_cases4)
  obtain r2 ev2 f2 s2 where q: "poll_all os kds f1 ts rules s1 = (r2, ev2, f2, s2)" by (rule prod_cases4)
  have s1: "mx_tame s s1" using poll_link_tame [of s os kd f ts rules] by (simp only: p snd_conv)
  have "mx_tame s s2" using mx_tame_trans [OF s1 Cons.IH [of s1 f1]] by (simp only: q snd_conv)
  then show ?case using s1 by (cases r; cases r2) (simp_all add: p q)
qed simp

lemma mixed_loop_invariant:
  assumes "\<And>s s'. mx_tame s s' \<Longrightarrow> I s \<Longrightarrow> I s'" "\<And>i s. I s \<Longrightarrow> I (others env i s)" "I s"
  shows "I (snd (snd (mixed_loop os env opts rules fuel i prev f s)))"
  using assms(3)
proof (induction fuel arbitrary: i prev f s)
  case (Suc fuel)
  obtain r ev f1 s1 where p: "poll_all os [ShmRing, UdsPath, UdpEndpoint] f (now_ns env i) rules s = (r, ev, f1, s1)"
    by (rule prod_cases4)
  have s1: "I s1"
    using assms(1) [OF poll_all_tame Suc.prems, of os "[ShmRing, UdsPath, UdpEndpoint]" f "now_ns env i" rules] by (simp only: p snd_conv)
  then have later: "I (snd (snd (mixed_loop os env opts rules fuel (Suc i) q f1 (others env i s1))))" for q
    by (intro Suc.IH assms(2))
  show ?case
    using Suc.prems s1 later by (simp only: mixed_loop.simps p prod.case) (auto split: sum.split)
qed simp

end
