(* ===== verification/RouterRelease.thy ===== *)
theory RouterRelease
  imports RouterMain Tame
begin

text \<open>
  What the router program leaves behind (\<open>ipc/test/router_server.cpp\<close>): sockets and names of
  shared-memory objects, on every way out, by exceptions in the middle of a bind too; and the run of
  a good profile from the command line to the exit code. The steps between the construction and the
  destruction of a server are those of \<open>Tame\<close>.
\<close>

section \<open>The process\<close>

text \<open>
  Apart from the descriptors \<open>F\<close> and names \<open>N\<close> that were there before, the process holds the distinct
  descriptors \<open>hs\<close> and the names that the channels \<open>cs\<close> created.
\<close>

definition sys_held :: "int set \<Rightarrow> string set \<Rightarrow> int list \<Rightarrow> PeerChannel list \<Rightarrow> Sys \<Rightarrow> bool" where
  "sys_held F N hs cs s \<longleftrightarrow> distinct hs \<and> fds_held F (set hs) (sy_net s) \<and> names_held N cs (sy_shm s)"

lemma sys_held_cong: "sy_net s' = sy_net s \<Longrightarrow> sy_shm s' = sy_shm s \<Longrightarrow> sys_held F N hs cs s' = sys_held F N hs cs s"
  by (simp add: sys_held_def)

lemma sys_held_log [simp]:
  "sys_held F N hs cs (main_log lv m s) = sys_held F N hs cs s" "sys_held F N hs cs (usage p s) = sys_held F N hs cs s"
  "sys_held F N hs cs (main_setup E s) = sys_held F N hs cs s"
  "sys_held F N hs cs (fold (log_forward t) evs s) = sys_held F N hs cs s"
  "sys_held F N hs cs (unlink_file p s) = sys_held F N hs cs s"
  by (simp_all add: sys_held_def)

lemma sys_held_notify:
  assumes "sys_held F N hs cs s" "k = sy_net s"
  shows "sys_held F N hs cs (snd (notify (router_sd_notify env os st k) s))"
proof -
  obtain ok dgram k' where n: "router_sd_notify env os st (sy_net s) = (ok, dgram, k')" by (rule prod_cases3)
  show ?thesis
    using assms fds_held_notify [OF _ n] by (simp add: sys_held_def notify_def n)
qed

lemma loop_held:
  assumes "run_forward_loop E t run s = (fin, l, s')" "sys_held F N hs cs s"
    "\<And>q fin evs l q'. run q = (fin, evs, l, q') \<Longrightarrow> sys_held F N hs cs q \<Longrightarrow> sys_held F N (hf l) (cf l) q'"
  shows "sys_held F N (hf l) (cf l) s'"
proof -
  obtain ready s1 where n: "notify (router_notify_ready (getenv E) (net_os E) (sy_net s)) s = (ready, s1)" by (rule prod.exhaust)
  have s1: "sys_held F N hs cs s1"
    using sys_held_notify [OF assms(2) refl, of "getenv E" "net_os E" "Some ''READY=1''"] n by (simp add: router_notify_ready_def)
  let ?s2 = "if ready then main_log ROUTER_LOG_INFO ''sd_notify READY=1 (endpoints bound)'' s1 else s1"
  obtain f evs l1 s3 where r: "run ?s2 = (f, evs, l1, s3)" by (rule prod_cases4)
  have s3: "sys_held F N (hf l1) (cf l1) s3" by (rule assms(3) [OF r]) (simp add: s1)
  then have s4: "sys_held F N (hf l1) (cf l1) (fold (log_forward t) evs s3)" by simp
  show ?thesis
    using assms(1) n r s4 sys_held_notify [OF s4 refl]
    by (cases f) (auto simp: run_forward_loop_def Let_def router_notify_stopping_def)
qed

text \<open>What goes out of scope is given back.\<close>

lemma destroy_shm_held: "sys_held F N hs (peer_channels l) s \<Longrightarrow> sys_held F N hs [] (destroy_shm_server l s)"
  by (simp add: sys_held_def destroy_shm_server_def names_held_destroyed)

lemma destroy_datagram_held:
  "sys_held F N (fd (dl_endpoint l) # hs) cs s \<Longrightarrow> sys_held F N hs cs (destroy_datagram_server l s)"
  by (simp add: sys_held_def destroy_datagram_server_def fds_held_close)

definition link_fd :: "DatagramRouterLink option \<Rightarrow> int list" where
  "link_fd x = (case x of None \<Rightarrow> [] | Some l \<Rightarrow> [fd (dl_endpoint l)])"

definition mx_fds :: "MixedRouterServer \<Rightarrow> int list" where
  "mx_fds m = link_fd (udp_link m) @ link_fd (uds_link m)"

definition mx_chans :: "MixedRouterServer \<Rightarrow> PeerChannel list" where
  "mx_chans m = (case shm_link m of None \<Rightarrow> [] | Some l \<Rightarrow> peer_channels l)"

lemma destroy_mixed_held:
  assumes "sys_held F N (mx_fds m) (mx_chans m) s"
  shows "sys_held F N [] [] (destroy_mixed_server m s)"
proof -
  let ?s1 = "case udp_link m of None \<Rightarrow> s | Some l \<Rightarrow> destroy_datagram_server l s"
  let ?s2 = "case uds_link m of None \<Rightarrow> ?s1 | Some l \<Rightarrow> destroy_datagram_server l ?s1"
  have "sys_held F N (link_fd (uds_link m)) (mx_chans m) ?s1"
    using assms destroy_datagram_held by (cases "udp_link m") (simp_all add: mx_fds_def link_fd_def)
  then have "sys_held F N [] (mx_chans m) ?s2"
    using destroy_datagram_held by (cases "uds_link m") (simp_all add: link_fd_def)
  then show ?thesis
    using destroy_shm_held by (cases "shm_link m") (simp_all add: mx_chans_def destroy_mixed_server_def Let_def)
qed

lemma leave_scope_held:
  assumes "leave_scope destroy (fin, l, s) = (fin', s')" "fin' \<noteq> Running"
    "sys_held F N (hf l) (cf l) s" "\<And>q. sys_held F N (hf l) (cf l) q \<Longrightarrow> sys_held F N [] [] (destroy l q)"
  shows "sys_held F N [] [] s'"
  using assms by (auto simp: leave_scope_def split: if_splits)

text \<open>Construction opens one descriptor per datagram link, or none when it raises.\<close>

lemma dg_server_held:
  assumes "dg_server tr os t k = (r, k')" "fds_held F (set hs) k" "distinct hs"
  shows "case r of Inl _ \<Rightarrow> fds_held F (set hs) k'
    | Inr l \<Rightarrow> fds_held F (set (fd (dl_endpoint l) # hs)) k' \<and> distinct (fd (dl_endpoint l) # hs)"
proof -
  obtain q k1 where o: "Socket_open os k = (q, k1)" by (rule prod.exhaust)
  have raised: "k1 = k" if "q = Inl e" for e using o that by (auto simp: Socket_open_def split: if_splits)
  have made: "fds_held F (set (fd h # hs)) k1" "distinct (fd h # hs)" if "q = Inr h" for h
    using fds_held_open [OF assms(2) o [unfolded that]] assms(3) by simp_all
  show ?thesis
    using assms(1) o raised made assms(2)
    by (cases tr; cases q) (auto simp: dg_server_def dg_new_def dg_open_def Uds_open_def Udp_open_def)
qed

definition quiet_env :: "MainEnv \<Rightarrow> bool" where
  "quiet_env E \<longleftrightarrow> (\<forall>i s. shm_tame s (others (shm_turns E) i s)) \<and> (\<forall>i s. dg_tame s (others (dg_turns E) i s))
     \<and> (\<forall>i s. mx_tame s (others (mx_turns E) i s))"

lemma quietD:
  assumes "quiet_env E"
  shows "shm_tame s (others (shm_turns E) i s)" "dg_tame d (others (dg_turns E) i d)" "mx_tame x (others (mx_turns E) i x)"
  using assms unfolding quiet_env_def by blast+

lemma run_shm_held:
  assumes "run_shm_server E rules l q = (fin, evs, l', q')" "quiet_env E" "sys_held F N [] (peer_channels l) q"
  shows "sys_held F N [] (peer_channels l') q'"
proof -
  let ?I = "\<lambda>(l, w). names_held N (peer_channels l) w"
  let ?r = "server_loop (\<lambda>_. False) forward (shm_turns E) (run_options E) rules (turns E) 0 (start_ms E) RouterFrame_default
      (set_recv_timeout_ms (poll_timeout_ms (run_options E)) l, sy_shm q)"
  have tame: "?I s'" if "shm_tame s s'" "?I s" for s s'
    using names_held_tame that by (cases s; cases s') (simp only: prod.case)
  have "?I (snd (snd (snd ?r)))"
  proof (rule server_loop_invariant)
    show "?I s'" if "forward f ts rules s = (r, f', s')" "?I s" for f ts s r f' s'
      by (rule tame [OF forward_tame [OF that(1)] that(2)])
    show "?I (others (shm_turns E) i s)" if "?I s" for i s
      by (rule tame [OF quietD(1) [OF assms(2)] that])
    show "?I (set_recv_timeout_ms (poll_timeout_ms (run_options E)) l, sy_shm q)"
      using assms(3) by (simp add: sys_held_def set_recv_timeout_ms_def)
  qed
  then show ?thesis
    using assms(1,3) by (auto simp: run_shm_server_def ShmRouterServer_run_def sys_held_def split: prod.splits)
qed

lemma run_datagram_held:
  assumes "run_datagram_server E tr rules l q = (fin, evs, l', q')" "quiet_env E" "sys_held F N [fd (dl_endpoint l)] [] q"
  shows "sys_held F N [fd (dl_endpoint l')] [] q'"
proof -
  let ?I = "dg_tame (l, sy_net q)"
  have loop: "?I (snd (snd (snd (server_loop dg_hangs (dg_forward tr (net_os E)) (dg_turns E) (run_options E) rules (turns E) 0 (start_ms E)
      RouterFrame_default s1))))" if "?I s1" for s1
    by (rule server_loop_invariant [where I = ?I, OF _ _ that])
      (rule dg_tame_trans [OF _ dg_forward_tame], assumption+, rule dg_tame_trans [OF _ quietD(2) [OF assms(2)]])
  let ?ms = "poll_timeout_ms (run_options E)"
  obtain r k1 where set: "ep_set_recv_timeout_ms tr (net_os E) (dl_endpoint l) ?ms (sy_net q) = (r, k1)" by (rule prod.exhaust)
  have start: "?I (l, k1)" using set_timeout_table [OF set] by (simp add: dg_tame_def)
  obtain fin' evs' f' l2 k2 where run: "server_loop dg_hangs (dg_forward tr (net_os E)) (dg_turns E) (run_options E) rules (turns E) 0
      (start_ms E) RouterFrame_default (l, k1) = (fin', evs', f', (l2, k2))" by (metis prod_cases5)
  have "?I (l2, k2)" using loop [OF start] by (simp only: run snd_conv)
  then have "dg_tame (l, sy_net q) (l', sy_net q') \<and> sy_shm q' = sy_shm q"
    using assms(1) by (cases r) (auto simp: run_datagram_server_def DatagramRouterServer_run_def dg_set_recv_timeout_ms_def set run)
  then show ?thesis
    using assms(3) fds_held_same by (auto simp: sys_held_def dg_tame_def)
qed

lemma mx_tame_held:
  assumes "mx_tame (m, w, k) (m', w', k')"
  shows "mx_fds m' = mx_fds m" "names_held N (mx_chans m) w \<Longrightarrow> names_held N (mx_chans m') w'" "same_table k k'"
proof -
  have eq: "link_fd x = link_fd y" if "map_option dl_endpoint x = map_option dl_endpoint y" for x y
    using that by (cases x; cases y) (simp_all add: link_fd_def)
  show "mx_fds m' = mx_fds m"
    using assms eq [of "uds_link m'" "uds_link m"] eq [of "udp_link m'" "udp_link m"] by (simp add: mx_fds_def mx_tame_def)
  show "same_table k k'" using assms by (simp add: mx_tame_def)
  show "names_held N (mx_chans m') w'" if h: "names_held N (mx_chans m) w"
  proof -
    have t: "map_option chan_ends (shm_link m') = map_option chan_ends (shm_link m)" "fewer_names w w'"
      using assms by (simp_all add: mx_tame_def)
    show ?thesis
    proof (cases "shm_link m")
      case None
      then show ?thesis using t h fewer_names_dom [OF t(2)] unfolding names_held_def by (simp add: mx_chans_def)
    next
      case (Some l)
      then obtain l' where l': "shm_link m' = Some l'" "chan_ends l' = chan_ends l" using t(1) by auto
      then have "shm_tame (l, w) (l', w')" using t(2) by (simp add: shm_tame_def)
      then show ?thesis using names_held_tame h by (simp add: mx_chans_def Some l')
    qed
  qed
qed

lemma run_mixed_held:
  assumes "run_mixed_server E rules m q = (fin, evs, m', q')" "quiet_env E" "sys_held F N (mx_fds m) (mx_chans m) q"
  shows "sys_held F N (mx_fds m') (mx_chans m') q'"
proof -
  let ?I = "mx_tame (m, sy_shm q, sy_net q)"
  have "?I (snd (snd (mixed_loop (net_os E) (mx_turns E) (run_options E) rules (turns E) 0 (start_ms E) RouterFrame_default
      (m, sy_shm q, sy_net q))))"
    by (rule mixed_loop_invariant [where I = ?I])
      (rule mx_tame_trans, assumption+, rule mx_tame_trans [OF _ quietD(3) [OF assms(2)]], assumption, rule mx_tame_refl)
  then have "mx_tame (m, sy_shm q, sy_net q) (m', sy_shm q', sy_net q')"
    using assms(1) by (auto simp: run_mixed_server_def MixedRouterServer_run_def split: prod.splits)
  from mx_tame_held [OF this] show ?thesis
    using assms(3) fds_held_same by (auto simp: sys_held_def)
qed

section \<open>Routers\<close>

lemma datagram_router_held:
  assumes "run_datagram_router E tr t rules s = (fin, s')" "fin \<noteq> Running" "quiet_env E" "sys_held F N [] [] s"
  shows "sys_held F N [] [] s'"
proof -
  let ?hf = "\<lambda>l. [fd (dl_endpoint l)]"
  obtain r k1 where new: "dg_server tr (net_os E) t (sy_net s) = (r, k1)" by (rule prod.exhaust)
  note made = dg_server_held [OF new, of F "[]"]
  have new': "make_datagram_router_server tr (net_os E) t (sy_net s) = (r, k1)"
    by (simp add: make_datagram_router_server_def DatagramRouterServer_new_def new)
  show ?thesis
  proof (cases r)
    case (Inl e)
    then show ?thesis using assms(1,4) made by (auto simp: run_datagram_router_def new' sys_held_def)
  next
    case (Inr l)
    obtain b l1 k2 where b: "bind_datagram_router_listen tr (net_os E) t (l, k1) = (b, (l1, k2))" by (rule prod_cases3)
    then have "l1 = l \<and> same_table k1 k2"
      using dg_bind_router_tame by (auto simp: bind_datagram_router_listen_def DatagramRouterServer_bind_router_def split: sum.splits)
    then have up: "sys_held F N (?hf l1) [] (s\<lparr>sy_net := k2\<rparr>)"
      using assms(4) made Inr fds_held_same by (simp add: sys_held_def)
    show ?thesis
    proof (cases b)
      case (Inl e)
      show ?thesis
        by (rule leave_scope_held [where hf = ?hf and cf = "\<lambda>_. []", OF _ assms(2) up destroy_datagram_held])
          (use assms(1) in \<open>simp_all add: run_datagram_router_def new' \<open>r = Inr l\<close> b Inl\<close>)
    next
      case (Inr u)
      define s1 where "s1 = main_log ROUTER_LOG_INFO (''router listening ('' @ peer_display_name t kEndpointServer @ '')'') (s\<lparr>sy_net := k2\<rparr>)"
      have up1: "sys_held F N (?hf l1) [] s1" using up by (simp only: s1_def sys_held_log)
      obtain f l2 s2 where loop: "run_forward_loop E t (run_datagram_server E tr rules l1) s1 = (f, l2, s2)" by (rule prod_cases3)
      have run: "run_datagram_router E tr t rules s = leave_scope destroy_datagram_server (f, l2, s2)"
        unfolding loop [symmetric] s1_def by (simp only: run_datagram_router_def new' \<open>r = Inr l\<close> b Inr prod.case sum.case)
      have "sys_held F N (?hf l2) [] s2"
        by (rule loop_held [where hf = ?hf and cf = "\<lambda>_. []", OF loop up1 run_datagram_held [OF _ assms(3)]])
      then show ?thesis
        by (rule leave_scope_held [where hf = ?hf and cf = "\<lambda>_. []", OF _ assms(2) _ destroy_datagram_held, rotated])
          (use assms(1) run in simp_all)
    qed
  qed
qed

lemma shm_router_held:
  assumes "run_shm_router E t rules s = (fin, s')" "fin \<noteq> Running" "quiet_env E" "sys_held F N [] [] s"
  shows "sys_held F N [] [] s'"
proof -
  let ?cf = "\<lambda>l. peer_channels l" and ?l0 = "make_shm_router_server t"
  have none: "peer_channels ?l0 = []"
    by (simp add: make_shm_router_server_def ShmRouterServer_new_def ShmRouterLink_server_def ShmRouterLink_new_def)
  obtain b l w where b: "bind_shm_router_listen (shm_os E) t (?l0, sy_shm s) = (b, (l, w))" by (rule prod_cases3)
  have n: "names_held N [] (sy_shm s)" using assms(4) by (simp add: sys_held_def)
  have "names_held N (?cf l) w"
    using b n none bind_router_names [OF n none]
    by (auto simp: bind_shm_router_listen_def ShmRouterServer_bind_router_def split: sum.splits)
  then have up: "sys_held F N [] (?cf l) (s\<lparr>sy_shm := w\<rparr>)" using assms(4) by (simp add: sys_held_def)
  show ?thesis
  proof (cases b)
    case (Inl e)
    show ?thesis
      by (rule leave_scope_held [where hf = "\<lambda>_. []" and cf = ?cf, OF _ assms(2) up destroy_shm_held])
        (use assms(1) in \<open>simp_all add: run_shm_router_def b Inl\<close>)
  next
    case (Inr u)
    define l2 where "l2 = (if priority_drop_floor_from_env E \<noteq> 0 then set_priority_drop_floor (priority_drop_floor_from_env E) l else l)"
    define s2 where "s2 = main_log ROUTER_LOG_INFO ''SHM router on shared-memory rings''
      (if priority_drop_floor_from_env E \<noteq> 0 then main_log ROUTER_LOG_INFO (floor_line (priority_drop_floor_from_env E)) (s\<lparr>sy_shm := w\<rparr>)
       else s\<lparr>sy_shm := w\<rparr>)"
    have up2: "sys_held F N [] (?cf l2) s2" using up by (simp add: l2_def s2_def set_priority_drop_floor_def)
    obtain f l3 s3 where loop: "run_forward_loop E t (run_shm_server E rules l2) s2 = (f, l3, s3)" by (rule prod_cases3)
    have run: "run_shm_router E t rules s = leave_scope destroy_shm_server (f, l3, s3)"
      unfolding loop [symmetric] l2_def s2_def by (simp add: run_shm_router_def b Inr Let_def)
    have "sys_held F N [] (?cf l3) s3"
      by (rule loop_held [where hf = "\<lambda>_. []" and cf = ?cf, OF loop up2 run_shm_held [OF _ assms(3)]])
    then show ?thesis
      by (rule leave_scope_held [where hf = "\<lambda>_. []" and cf = ?cf, OF _ assms(2) _ destroy_shm_held, rotated]) (use assms(1) run in simp_all)
  qed
qed

lemma mixed_new_held:
  assumes "make_mixed_router_server os t k = (r, k')" "fds_held F {} k"
  shows "case r of Inl _ \<Rightarrow> fds_held F {} k'
    | Inr m \<Rightarrow> fds_held F (set (mx_fds m)) k' \<and> distinct (mx_fds m) \<and> mx_chans m = []"
proof -
  define m0 where "m0 = register_peers (peers t)
     \<lparr>mx_topo = t, shm_link = None, uds_link = None, udp_link = None, has_shm = False, has_uds = False,
      has_udp = False, peer_known = replicate 256 False, peer_transport = replicate 256 ShmRing\<rparr>"
  define m1 where "m1 = (if has_shm m0 then m0\<lparr>shm_link := Some (ShmRouterLink_server t)\<rparr> else m0)"
  have m1: "uds_link m1 = None" "udp_link m1 = None" "mx_chans m1 = []"
    by (simp_all add: m1_def m0_def register_peers_fields mx_chans_def ShmRouterLink_server_def ShmRouterLink_new_def)
  define step where "step = (if has_uds m1
      then (case dg_server UdsT os t k of
              (Inl e, k1) \<Rightarrow> (Inl e, k1) | (Inr l, k1) \<Rightarrow> (Inr (m1\<lparr>uds_link := Some l\<rparr>), k1))
      else (Inr m1, k))"
  obtain q k1 where q: "step = (q, k1)" by (rule prod.exhaust)
  have new: "make_mixed_router_server os t k = (case (q, k1) of
           (Inl e, k1) \<Rightarrow> (Inl e, k1)
         | (Inr m2, k1) \<Rightarrow>
             if has_udp m2
             then (case dg_server UdpT os t k1 of
                     (Inl e, k2) \<Rightarrow>
                       (Inl e, case uds_link m2 of None \<Rightarrow> k2 | Some l \<Rightarrow> Socket_close (dl_endpoint l) k2)
                   | (Inr l, k2) \<Rightarrow> (Inr (m2\<lparr>udp_link := Some l\<rparr>), k2))
             else (Inr m2, k1))"
    unfolding make_mixed_router_server_def MixedRouterServer_new_def Let_def q [symmetric] step_def m1_def m0_def by (rule refl)
  have mid: "case q of Inl _ \<Rightarrow> fds_held F {} k1
    | Inr m \<Rightarrow> fds_held F (set (link_fd (uds_link m))) k1 \<and> udp_link m = None \<and> mx_chans m = []"
  proof (cases "has_uds m1")
    case True
    obtain y k2 where y: "dg_server UdsT os t k = (y, k2)" by (rule prod.exhaust)
    show ?thesis
      using q dg_server_held [OF y, of F "[]"] assms(2) m1 True
      by (cases y) (auto simp: step_def y link_fd_def mx_chans_def)
  next
    case False
    then show ?thesis using q assms(2) m1 by (auto simp: step_def link_fd_def)
  qed
  show ?thesis
  proof (cases q)
    case (Inl e)
    then show ?thesis using assms(1) new mid by (auto simp: q)
  next
    case (Inr m2)
    have m2: "fds_held F (set (link_fd (uds_link m2))) k1" "udp_link m2 = None" "mx_chans m2 = []"
      using mid by (simp_all add: Inr)
    show ?thesis
    proof (cases "has_udp m2")
      case False
      then show ?thesis
        using assms(1) new m2 Inr by (auto simp: mx_fds_def link_fd_def split: option.split)
    next
      case True
      obtain y k2 where y: "dg_server UdpT os t k1 = (y, k2)" by (rule prod.exhaust)
      note opened = dg_server_held [OF y m2(1)]
      have d: "distinct (link_fd (uds_link m2))" by (simp add: link_fd_def split: option.split)
      show ?thesis
      proof (cases y)
        case (Inl e)
        then have k2: "fds_held F (set (link_fd (uds_link m2))) k2" using opened d by simp
        have "fds_held F {} (case uds_link m2 of None \<Rightarrow> k2 | Some l \<Rightarrow> Socket_close (dl_endpoint l) k2)"
          using k2 fds_held_close [of F _ "{}"] by (cases "uds_link m2") (simp_all add: link_fd_def)
        then show ?thesis using assms(1) new True Inr y Inl by auto
      next
        case (Inr l)
        then have "fds_held F (set (fd (dl_endpoint l) # link_fd (uds_link m2))) k2 \<and> distinct (fd (dl_endpoint l) # link_fd (uds_link m2))"
          using opened d by simp
        then show ?thesis
          using assms(1) new True \<open>q = Inr m2\<close> y Inr m2(3) by (auto simp: mx_fds_def link_fd_def mx_chans_def)
      qed
    qed
  qed
qed

lemma mixed_bind_held:
  assumes "mx_bind_router sos os (m, w, k) = (r, (m', w', k'))" "fds_held F (set (mx_fds m)) k" "distinct (mx_fds m)"
    "names_held N [] w" "mx_chans m = []"
  shows "fds_held F (set (mx_fds m')) k' \<and> distinct (mx_fds m') \<and> names_held N (mx_chans m') w'"
proof -
  let ?I = "\<lambda>(m, w, k). fds_held F (set (mx_fds m)) k \<and> distinct (mx_fds m) \<and> names_held N (mx_chans m) w"
  have dg: "?I (snd (on_uds l (dg_bind_router os p) (m1, w1, k1)))" if "?I (m1, w1, k1)" "uds_link m1 = Some l" for l p m1 w1 k1
  proof -
    obtain y l' k2 where y: "dg_bind_router os p (l, k1) = (y, (l', k2))" by (rule prod_cases3)
    show ?thesis using that dg_bind_router_tame [OF y] fds_held_same
      by (auto simp: on_uds_def y mx_fds_def link_fd_def mx_chans_def)
  qed
  have udp: "?I (snd (on_udp l (dg_bind_router os p) (m1, w1, k1)))" if "?I (m1, w1, k1)" "udp_link m1 = Some l" for l p m1 w1 k1
  proof -
    obtain y l' k2 where y: "dg_bind_router os p (l, k1) = (y, (l', k2))" by (rule prod_cases3)
    show ?thesis using that dg_bind_router_tame [OF y] fds_held_same
      by (auto simp: on_udp_def y mx_fds_def link_fd_def mx_chans_def)
  qed
  have shm: "?I (snd (case shm_link m of None \<Rightarrow> (Inr (), (m, w, k)) | Some l \<Rightarrow> on_shm l (bind_router sos q) (m, w, k)))" for q
  proof (cases "shm_link m")
    case (Some l)
    obtain y l' w1 where y: "bind_router sos q (l, w) = (y, (l', w1))" by (rule prod_cases3)
    have "peer_channels l = []" using assms(5) Some by (simp add: mx_chans_def)
    from bind_router_names [OF assms(4) this y] show ?thesis
      using assms(2,3) Some by (simp add: on_shm_def y mx_fds_def mx_chans_def)
  qed (use assms in simp)
  obtain y1 m1 w1 k1 where s1: "(case shm_link m of None \<Rightarrow> (Inr (), (m, w, k))
      | Some l \<Rightarrow> on_shm l (bind_router sos ShmBindParams_default) (m, w, k)) = (y1, (m1, w1, k1))" by (rule prod_cases4)
  have i1: "?I (m1, w1, k1)" using shm [of ShmBindParams_default] by (simp only: s1 snd_conv)
  define b2 where "b2 = (case uds_link m1 of None \<Rightarrow> (Inr (), (m1, w1, k1))
                 | Some l \<Rightarrow> (case listen_uds (mx_topo m1) of
                     None \<Rightarrow> (Inl (RuntimeError ''mixed router: uds peers present but no uds router listen''), (m1, w1, k1))
                   | Some a \<Rightarrow> on_uds l (dg_bind_router os (UdsBind (uds_path a))) (m1, w1, k1)))"
  have "?I (snd b2)" using i1 dg [OF i1] by (simp only: b2_def split: option.split) (simp del: split_paired_All)
  moreover obtain y2 m2 w2 k2 where s2: "b2 = (y2, (m2, w2, k2))" by (rule prod_cases4)
  ultimately have i2: "?I (m2, w2, k2)" by (simp only: snd_conv)
  define b3 where "b3 = (case udp_link m2 of None \<Rightarrow> (Inr (), (m2, w2, k2))
                | Some l \<Rightarrow> (case listen_udp (mx_topo m2) of
                    None \<Rightarrow> (Inl (RuntimeError ''mixed router: udp peers present but no udp router listen''), (m2, w2, k2))
                  | Some a \<Rightarrow> on_udp l (dg_bind_router os (UdpBind (udp_port a))) (m2, w2, k2)))"
  have i3: "?I (snd b3)" using i2 udp [OF i2] by (simp only: b3_def split: option.split) (simp del: split_paired_All)
  have "mx_bind_router sos os (m, w, k) = (case y1 of Inl e \<Rightarrow> (Inl e, (m1, w1, k1)) | Inr _ \<Rightarrow>
      (case y2 of Inl e \<Rightarrow> (Inl e, (m2, w2, k2)) | Inr _ \<Rightarrow> b3))"
    unfolding mx_bind_router_def fst_conv s1 prod.case b2_def [symmetric] s2 b3_def [symmetric] by (rule refl)
  then have "?I (snd (mx_bind_router sos os (m, w, k)))" using i1 i2 i3 by (simp split: sum.split)
  then show ?thesis by (simp only: assms(1) snd_conv prod.case)
qed

lemma mixed_router_held:
  assumes "run_mixed_router E t rules s = (fin, s')" "fin \<noteq> Running" "quiet_env E" "sys_held F N [] [] s"
  shows "sys_held F N [] [] s'"
proof -
  obtain r k1 where new: "make_mixed_router_server (net_os E) t (sy_net s) = (r, k1)" by (rule prod.exhaust)
  have start: "fds_held F {} (sy_net s)" "names_held N [] (sy_shm s)" using assms(4) by (simp_all add: sys_held_def)
  note made = mixed_new_held [OF new start(1)]
  show ?thesis
  proof (cases r)
    case (Inl e)
    then show ?thesis using assms(1) made start(2) by (auto simp: run_mixed_router_def new sys_held_def)
  next
    case (Inr m)
    define s1 where "s1 = (case listen_uds t of None \<Rightarrow> s\<lparr>sy_net := k1\<rparr> | Some a \<Rightarrow> unlink_file (uds_path a) (s\<lparr>sy_net := k1\<rparr>))"
    have s1: "fds_held F (set (mx_fds m)) (sy_net s1)" "distinct (mx_fds m)" "names_held N [] (sy_shm s1)" "mx_chans m = []"
      using made start(2) Inr by (simp_all add: s1_def split: option.split)
    obtain b m1 w k where b: "mx_bind_router (shm_os E) (net_os E) (m, sy_shm s1, sy_net s1) = (b, (m1, w, k))" by (rule prod_cases4)
    have up: "sys_held F N (mx_fds m1) (mx_chans m1) (s1\<lparr>sy_shm := w, sy_net := k\<rparr>)"
      using mixed_bind_held [OF b s1] by (simp add: sys_held_def)
    note run = run_mixed_router_def [of E t rules s, unfolded new Inr prod.case sum.case Let_def, folded s1_def]
    show ?thesis
    proof (cases b)
      case (Inl e)
      show ?thesis
        by (rule leave_scope_held [where hf = mx_fds and cf = mx_chans, OF _ assms(2) up destroy_mixed_held])
          (use assms(1) run in \<open>simp_all add: b Inl\<close>)
    next
      case (Inr u)
      define fl where "fl = priority_drop_floor_from_env E"
      define ms where "ms = (if fl \<noteq> 0 then (mx_set_priority_drop_floor fl m1, main_log ROUTER_LOG_INFO (floor_line fl) (s1\<lparr>sy_shm := w, sy_net := k\<rparr>))
        else (m1, s1\<lparr>sy_shm := w, sy_net := k\<rparr>))"
      obtain m3 s3 where ms3: "ms = (m3, s3)" by (rule prod.exhaust)
      have same: "mx_fds (mx_set_priority_drop_floor fl m1) = mx_fds m1" "mx_chans (mx_set_priority_drop_floor fl m1) = mx_chans m1"
        by (simp_all add: mx_set_priority_drop_floor_def mx_fds_def mx_chans_def set_priority_drop_floor_def split: option.split)
      have up3: "sys_held F N (mx_fds m3) (mx_chans m3) s3"
        using ms3 up same by (auto simp: ms_def split: if_splits)
      define s4 where "s4 = main_log ROUTER_LOG_INFO (''mixed-transport router serving: ''
        @ (if has_shm m3 then ''SHM '' else '''') @ (if has_uds m3 then ''UDS '' else '''') @ (if has_udp m3 then ''UDP '' else '''')) s3"
      have up4: "sys_held F N (mx_fds m3) (mx_chans m3) s4" using up3 by (simp only: s4_def sys_held_log)
      obtain f l2 s5 where loop: "run_forward_loop E t (run_mixed_server E rules m3) s4 = (f, l2, s5)" by (rule prod_cases3)
      have "run_mixed_router E t rules s = leave_scope destroy_mixed_server (case ms of (m3, s3) \<Rightarrow>
          run_forward_loop E t (run_mixed_server E rules m3) (main_log ROUTER_LOG_INFO (''mixed-transport router serving: ''
            @ (if has_shm m3 then ''SHM '' else '''') @ (if has_uds m3 then ''UDS '' else '''') @ (if has_udp m3 then ''UDP '' else '''')) s3))"
        unfolding run b Inr prod.case sum.case fl_def ms_def append.assoc by (rule refl)
      then have "run_mixed_router E t rules s = leave_scope destroy_mixed_server (f, l2, s5)"
        unfolding loop [symmetric] s4_def by (simp only: ms3 prod.case)
      moreover have "sys_held F N (mx_fds l2) (mx_chans l2) s5"
        by (rule loop_held [where hf = mx_fds and cf = mx_chans, OF loop up4 run_mixed_held [OF _ assms(3)]])
      ultimately show ?thesis
        using leave_scope_held [where hf = mx_fds and cf = mx_chans, OF _ assms(2) _ destroy_mixed_held] assms(1) by simp
    qed
  qed
qed

lemmas router_held = datagram_router_held shm_router_held mixed_router_held

lemma config_held:
  assumes "run_with_config E path s = (fin, s')" "fin \<noteq> Running" "quiet_env E" "sys_held F N [] [] s"
  shows "sys_held F N [] [] s'"
proof (cases "load_topology_from_toml_file (parse_toml_file E) path")
  case (Inl e)
  then show ?thesis using assms(1,4) by (cases e) (simp add: run_with_config_def)
next
  case (Inr lt)
  define s1 where "s1 = (if lt_routes lt = [] then main_log ROUTER_LOG_WARN
      (''config '' @ quoted path @ '' has no [[routes]]; router will receive but not forward'') s else s)"
  have s1: "sys_held F N [] [] s1" using assms(4) by (simp only: s1_def sys_held_log split: if_split) simp
  note run = run_with_config_def [of E path s, unfolded Inr sum.case Let_def, folded s1_def]
  note held = router_held [OF _ assms(2,3)]
  show ?thesis
  proof (cases "topology_is_mixed (view lt)")
    case True
    then show ?thesis using held(3) [OF _ s1] assms(1) run by (simp only: if_True)
  next
    case False
    then show ?thesis
      using assms(1) run held(1,2) s1
      by (cases "router_listen (view lt)") (simp_all only: if_False PeerAddress.case sys_held_log)
  qed
qed

lemma demo_held:
  assumes "server_runner E args k s = (fin, s')" "fin \<noteq> Running" "quiet_env E" "sys_held F N [] [] s"
  shows "sys_held F N [] [] s'"
proof -
  note held = router_held [OF _ assms(2,3)]
  show ?thesis
  proof (cases k)
    case KindShm
    then show ?thesis using held(2) [OF _ assms(4)] assms(1) by (simp only: server_runner_def TransportKind.case)
  next
    case KindUds
    define path where "path = (case args of a # _ \<Rightarrow> a | [] \<Rightarrow> kRouterUdsPath)"
    have "sys_held F N [] [] (if path \<noteq> kRouterUdsPath then unlink_file path s else s)" using assms(4) by simp
    then show ?thesis
      using held(1) assms(1) by (simp only: server_runner_def KindUds TransportKind.case Let_def path_def [symmetric] sys_held_log)
  next
    case KindUdp
    then show ?thesis
      using held(1) assms(1,4)
      by (cases "case args of a # _ \<Rightarrow> c_stoi a | [] \<Rightarrow> Inr (uint kRouterUdpPort)")
        (simp_all only: server_runner_def TransportKind.case Let_def sum.case sys_held_log prod.inject)
  qed
qed

section \<open>The program\<close>

lemma main_finish_held:
  assumes "main_finish prog (rc, fin, q) = (Exited c, s')" "fin \<noteq> Running \<Longrightarrow> sys_held F N [] [] q"
  shows "sys_held F N [] [] s'"
  using assms by (cases fin) (auto simp: main_finish_def main_error_def split: if_splits error.splits)

text \<open>
  C14: no socket and no name is left behind. However the program ends (command line refused, profile
  rejected, an exception while sockets are opened or endpoints bound, an exception out of the loop, or
  a clean stop), it holds the sockets that it was started with and no other, and every name of a
  shared-memory object that is still bound was bound before: every socket that a link opened is closed
  and every name that it created is unlinked, also when a later step of the same bind raises. The other
  processes may send, receive, consume and unlink meanwhile (\<open>quiet_env\<close>), but not create
  objects. This is about sockets and names only: the descriptor and the mapping that a \<open>ShmRegion\<close>
  holds are not in the model (see \<open>ShmSpsc\<close>), so nothing is said about their \<open>close\<close> and \<open>munmap\<close>.
\<close>

theorem router_main_releases:
  assumes "router_main E prog args s = (Exited c, s')" "quiet_env E"
    "\<forall>d\<in>dom (socks (sy_net s)). 0 \<le> d \<and> d < int (next_fd (sy_net s))"
  shows "dom (socks (sy_net s')) = dom (socks (sy_net s)) \<and> dom (ns (sy_shm s')) \<subseteq> dom (ns (sy_shm s))"
proof -
  let ?H = "sys_held (dom (socks (sy_net s))) (dom (ns (sy_shm s))) [] []"
  have start: "?H (main_setup E s)" using assms(3) by (simp add: sys_held_def fds_held_def names_held_def)
  have finish: "?H s'" if "main_finish prog (rc, r) = (Exited c, s')" "\<And>fin q. r = (fin, q) \<Longrightarrow> fin \<noteq> Running \<Longrightarrow> ?H q" for rc r
    using main_finish_held that by (cases r) blast
  note d = dispatch_transport_kind_def
  have "?H s'"
  proof (cases args)
    case Nil
    then show ?thesis using assms(1) start by (auto simp: router_main_def Let_def)
  next
    case (Cons a rest)
    show ?thesis
    proof (cases "strcmp_eq a ''--config''")
      case True
      then show ?thesis
        using assms(1) Cons start finish [of 0 "run_with_config E (hd rest) (main_setup E s)"] config_held [OF _ _ assms(2) start]
        by (cases rest) (auto simp: router_main_def Let_def)
    next
      case False
      let ?r = "dispatch_transport_kind a (\<lambda>k (_, q). (0, server_runner E rest k q)) (Returned, main_setup E s)"
      have r: "?r = (-1, (Returned, main_setup E s)) \<or> (\<exists>k. ?r = (0, server_runner E rest k (main_setup E s)))"
        by (auto simp: d)
      have "main_finish prog ?r = (Exited c, s')" using assms(1) Cons False by (simp add: router_main_def Let_def)
      moreover have "?H s'" if "main_finish prog (0, server_runner E rest k (main_setup E s)) = (Exited c, s')" for k
        by (rule finish [OF that demo_held [OF _ _ assms(2) start]])
      moreover have "?H s'" if "main_finish prog (-1, (Returned, main_setup E s)) = (Exited c, s')"
        by (rule finish [OF that]) (use start in simp)
      ultimately show ?thesis using r by (elim disjE exE) simp_all
    qed
  qed
  then show ?thesis by (simp add: sys_held_def fds_held_def names_held_def)
qed

lemma shm_router_ends:
  assumes "stop_flag (shm_turns E) 0" "0 < turns E"
  shows "fst (run_shm_router E t rules s) \<noteq> Running"
proof -
  obtain n where "turns E = Suc n" using assms(2) by (cases "turns E") simp_all
  then have run: "run_shm_server E rules l q = (Returned, [], l, q)" for l q
    using assms(1) by (simp add: run_shm_server_def ShmRouterServer_run_def set_recv_timeout_ms_def)
  have "fst (run_forward_loop E t (run_shm_server E rules l) q) \<noteq> Running" for l q
    by (simp add: run_forward_loop_def Let_def run split: prod.split)
  then show ?thesis
    by (simp add: run_shm_router_def leave_scope_def Let_def split: prod.split sum.split) (metis fst_conv)
qed

theorem router_main_releases_witness:
  "\<exists>c s'. router_main demo_main_env ''rim'' [''--config'', ''/etc/rim/router.toml''] demo_sys = (Exited c, s')
    \<and> dom (socks (sy_net s')) = {3} \<and> ns (sy_shm s') = Map.empty"
proof -
  let ?p = "''/etc/rim/router.toml''"
  have t: "\<not> topology_is_mixed (view demo_loaded)" "\<exists>n. router_listen (view demo_loaded) = peer_shm n"
    by (simp_all add: demo_loaded_def topology_is_mixed_def view_def Let_def)
  have "fst (run_with_config demo_main_env ?p q) \<noteq> Running" for q
    using t shm_router_ends [of demo_main_env]
    by (auto simp: run_with_config_def demo_env_facts demo_loads_file Let_def demo_main_env_def demo_turns_def)
  moreover obtain fin q where q: "run_with_config demo_main_env ?p (main_setup demo_main_env demo_sys) = (fin, q)" by (rule prod.exhaust)
  ultimately have fin: "fin \<noteq> Running" by (metis fst_conv)
  have "router_main demo_main_env ''rim'' [''--config'', ?p] demo_sys = main_finish ''rim'' (0, (fin, q))"
    by (simp add: router_main_def strcmp_eq_def Let_def q)
  moreover have "\<exists>c s'. main_finish ''rim'' (0, (fin, q)) = (Exited c, s')"
    using fin by (cases fin) (simp_all add: main_finish_def main_error_def split: error.split)
  ultimately obtain c s' where r: "router_main demo_main_env ''rim'' [''--config'', ?p] demo_sys = (Exited c, s')" by metis
  have quiet: "quiet_env demo_main_env" by (simp add: quiet_env_def demo_main_env_def demo_turns_def)
  have kernel: "dom (socks (sy_net demo_sys)) = {3}" "next_fd (sy_net demo_sys) = 4" "dom (ns (sy_shm demo_sys)) = {}"
    by (simp_all add: demo_sys_def demo_kernel_def empty_world_def)
  have "dom (socks (sy_net s')) = {3} \<and> ns (sy_shm s') = Map.empty"
    using router_main_releases [OF r quiet] by (simp add: kernel)
  then show ?thesis using r by blast
qed

section \<open>A good profile\<close>

lemma run_shm_returns:
  assumes "run_shm_server E rules l q = (fin, evs, l', q')" "stop_flag (shm_turns E) n" "n < turns E"
    "\<And>i s. shm_tame s (others (shm_turns E) i s)"
  shows "fin = Returned \<and> chan_ends l' = chan_ends l"
proof -
  let ?l = "set_recv_timeout_ms (poll_timeout_ms (run_options E)) l"
  obtain f evs' f' l1 w1 where r: "server_loop (\<lambda>_. False) forward (shm_turns E) (run_options E) rules (turns E) 0 (start_ms E) RouterFrame_default
      (?l, sy_shm q) = (f, evs', f', (l1, w1))" by (metis prod_cases5)
  have "shm_tame (?l, sy_shm q) (snd (snd (snd (server_loop (\<lambda>_. False) forward (shm_turns E) (run_options E) rules (turns E) 0 (start_ms E)
      RouterFrame_default (?l, sy_shm q)))))"
    by (rule server_loop_invariant)
      (rule shm_tame_trans [OF _ forward_tame], assumption+, rule shm_tame_trans [OF _ assms(4)], assumption, rule shm_tame_refl)
  then have "shm_tame (?l, sy_shm q) (l1, w1)" by (simp only: r snd_conv)
  moreover have "fst (server_loop (\<lambda>_. False) forward (shm_turns E) (run_options E) rules (turns E) 0 (start_ms E) RouterFrame_default
      (?l, sy_shm q))"
    by (rule shm_node.stops [where I = "\<lambda>_. True" and n = n]) (use assms(2,3) in simp_all)
  then have f: "f" by (simp only: r fst_conv)
  ultimately show ?thesis
    using assms(1) r by (simp add: run_shm_server_def ShmRouterServer_run_def shm_tame_def chan_ends_def set_recv_timeout_ms_def)
qed

lemma shm_loop_returns:
  assumes "run_forward_loop E t (run_shm_server E rules l) s = (fin, l', s')" "stop_flag (shm_turns E) n" "n < turns E"
    "\<And>i s. shm_tame s (others (shm_turns E) i s)"
  shows "fin = Returned \<and> chan_ends l' = chan_ends l"
proof -
  obtain ready s1 where n: "notify (router_notify_ready (getenv E) (net_os E) (sy_net s)) s = (ready, s1)" by (rule prod.exhaust)
  let ?s2 = "if ready then main_log ROUTER_LOG_INFO ''sd_notify READY=1 (endpoints bound)'' s1 else s1"
  obtain f evs l1 s3 where r: "run_shm_server E rules l ?s2 = (f, evs, l1, s3)" by (rule prod_cases4)
  show ?thesis
    using run_shm_returns [OF r assms(2-4)] assms(1) n r by (auto simp: run_forward_loop_def Let_def)
qed

text \<open>The destructors unlink the ring of every peer that the bind made a channel for.\<close>

lemma rings_unlinked:
  assumes "bound_to w' es (peer_channels l)" "list_all (\<lambda>c. chan_endpoint c \<noteq> None) (peer_channels l)"
    "chan_ends l' = chan_ends l" "e \<in> set es"
  shows "ns (destroy_channels (peer_channels l') w) (ring_name e) = None"
proof -
  obtain i where i: "i < length es" "es ! i = e" using assms(4) by (metis in_set_conv_nth)
  let ?c = "peer_channels l ! i"
  have c: "?c \<in> set (peer_channels l)" using i(1) by (simp add: bound_to_nth(1) [OF assms(1)])
  then have ep: "chan_endpoint ?c = Some (region_of ?c)" using assms(2) by (auto simp: list_all_iff region_of_def)
  have made: "is_creator (region_of ?c)" "name (region_of ?c) = ring_name e"
    using bound_to_nth(4) [OF assms(1) i(1)] i(2) by (simp_all add: made_for_def)
  have "chan_endpoint ` set (peer_channels l') = chan_endpoint ` set (peer_channels l)"
    using assms(3) unfolding chan_ends_def
    by (metis (no_types, lifting) image_set list.map_comp comp_def snd_conv map_eq_conv)
  then obtain c' where "c' \<in> set (peer_channels l')" "chan_endpoint c' = Some (region_of ?c)" using c ep by (metis image_iff)
  from destroy_channels_effect(4) [OF this made(1)] show ?thesis by (simp only: made(2))
qed

text \<open>
  C15: a good profile runs. If the profile of \<open>--config\<close> loads, all its peers have shared-memory rings
  of their own, the system calls succeed and a stop signal arrives at some turn of the loop, then
  the program exits with 0 after \<open>READY=1\<close> and \<open>STOPPING=1\<close>, in this order, if a supervisor takes
  them, and the ring of every peer of the profile has been unlinked, whatever the clients did.
\<close>

theorem router_main_serves:
  assumes "load_topology_from_toml_file (parse_toml_file E) path = Inr lt" "lt_peers lt \<noteq> []"
    "\<forall>e\<in>set (lt_peers lt). is_shm e" "distinct (map ring_name (lt_peers lt))" "kind (lt_listen lt) = ShmRing"
    "world_ok (sy_shm s)" "\<And>n. shm_os_ok (shm_os E n)" "stop_flag (shm_turns E) n" "n < turns E"
    "\<And>i q. shm_tame q (others (shm_turns E) i q)"
  shows "\<exists>s'. router_main E prog (''--config'' # path # rest) s = (Exited 0, s')
    \<and> sy_notes s' = sy_notes s @ status_note E ''READY=1'' @ status_note E ''STOPPING=1''
    \<and> (\<forall>e\<in>set (lt_peers lt). ns (sy_shm s') (ring_name e) = None)"
proof -
  let ?t = "view lt" and ?s = "main_setup E s"
  have all: "filter is_shm (lt_peers lt) = lt_peers lt" using assms(3) by simp
  have shm: "\<exists>e\<in>set (lt_peers lt). is_shm e" using assms(2,3) by (meson last_in_set)
  have d: "distinct (map ring_name (filter is_shm (lt_peers lt)))" using assms(4) by (simp only: all)
  have z: "(0 :: nat) < 2 ^ 64" by simp
  obtain nm where t: "\<not> topology_is_mixed ?t" "router_listen ?t = peer_shm nm"
    using assms(3,5) by (cases "lt_listen lt") (auto simp: topology_is_mixed_def view_def Let_def)
  define s1 where "s1 = (if lt_routes lt = [] then main_log ROUTER_LOG_WARN
      (''config '' @ quoted path @ '' has no [[routes]]; router will receive but not forward'') ?s else ?s)"
  have s1: "sy_shm s1 = sy_shm s" "sy_notes s1 = sy_notes s" by (simp_all add: s1_def)
  have config: "run_with_config E path ?s = run_shm_router E ?t (lt_routes lt) s1"
    using t by (simp only: run_with_config_def assms(1) sum.case Let_def s1_def if_False PeerAddress.case)
  obtain l w where up: "bind_shm_router_listen (shm_os E) ?t (make_shm_router_server ?t, sy_shm s1) = (Inr (), (l, w))"
    and fresh: "list_all (fresh_chan w) (peer_channels l)" and bound: "bound_to w (filter is_shm (lt_peers lt)) (peer_channels l)"
    unfolding s1(1) by (rule stand_up [where os = "shm_os E", OF from_file.load_ok [OF assms(1)] shm d assms(5-7) z]) (rule that [unfolded s1(1)])
  have ends: "list_all (\<lambda>c. chan_endpoint c \<noteq> None) (peer_channels l)"
    using fresh by (auto simp: list_all_iff fresh_chan_def chan_ok_def)
  define fl where "fl = priority_drop_floor_from_env E"
  define l2 where "l2 = (if fl \<noteq> 0 then set_priority_drop_floor fl l else l)"
  obtain s2 where r: "run_shm_router E ?t (lt_routes lt) s1 = leave_scope destroy_shm_server
      (run_forward_loop E ?t (run_shm_server E (lt_routes lt) l2) s2)"
    by (cases "fl = 0") (simp_all add: run_shm_router_def up Let_def fl_def [symmetric] l2_def)
  obtain fin l3 s3 where loop: "run_forward_loop E ?t (run_shm_server E (lt_routes lt) l2) s2 = (fin, l3, s3)" by (rule prod_cases3)
  have stopped: "fin = Returned" "chan_ends l3 = chan_ends l"
    using shm_loop_returns [OF loop assms(8-10)] by (simp_all add: l2_def chan_ends_def set_priority_drop_floor_def)
  let ?s' = "destroy_shm_server l3 s3"
  have run: "run_shm_router E ?t (lt_routes lt) s1 = (Returned, ?s')" unfolding r loop by (simp add: leave_scope_def stopped)
  have "router_main E prog (''--config'' # path # rest) s = (Exited 0, ?s')"
    by (simp add: router_main_def strcmp_eq_def Let_def config run main_finish_def)
  moreover have "sy_notes ?s' = sy_notes s @ status_note E ''READY=1'' @ status_note E ''STOPPING=1''"
    using shm_outcome [of E ?t s1 "lt_routes lt"] run by (simp add: shm_up_def up [unfolded s1(1)] router_outcome_def s1)
  moreover have "\<forall>e\<in>set (lt_peers lt). ns (sy_shm ?s') (ring_name e) = None"
    using rings_unlinked [OF bound ends stopped(2)] by (simp add: all destroy_shm_server_def)
  ultimately show ?thesis by blast
qed

theorem router_main_serves_witness:
  "\<exists>s'. router_main demo_main_env ''rim'' [''--config'', ''/etc/rim/router.toml''] demo_sys = (Exited 0, s')
    \<and> map snd (sy_notes s') = [map byte_of_char ''READY=1'', map byte_of_char ''STOPPING=1'']"
proof -
  have env: "load_topology_from_toml_file (parse_toml_file demo_main_env) ''/etc/rim/router.toml'' = Inr demo_loaded"
    "lt_peers demo_loaded \<noteq> []" "world_ok (sy_shm demo_sys)" "shm_os_ok (shm_os demo_main_env m)"
    "stop_flag (shm_turns demo_main_env) 0" "0 < turns demo_main_env" "shm_tame q (others (shm_turns demo_main_env) i q)" for m q i
    using demo_loaded_facts(1) by (auto simp: demo_env_facts demo_loads_file world_ok_empty demo_main_env_def demo_turns_def)
  from router_main_serves [OF env(1,2) demo_loaded_facts(2,4,5) env(3-7), of "''rim''" "[]"]
  show ?thesis unfolding demo_env_facts by auto
qed

end
