(* ===== verification/MixedRefine.thy ===== *)
theory MixedRefine
  imports Deployment
begin

text \<open>
  The mixed router (\<open>ipc/src/router/mixed_router_server.hpp\<close>) against an abstract router over three
  transports: per shared-memory peer the two queues of \<open>link_view\<close>, per datagram socket what is
  waiting and what has been sent. One turn of the loop on the bytes of the rings and the
  descriptors of the kernel is one turn of the abstract router (\<open>mixed_turn_refines\<close>).
\<close>

section \<open>The abstract router\<close>

record DgView =
  v_inbox :: "recv_answer list"
  v_outbox :: "(sockaddr \<times> bytes) list"
  v_counts :: DatagramRouterMetrics

record MixedView =
  mv_shm :: "LinkView option"
  mv_uds :: "DgView option"
  mv_udp :: "DgView option"

definition dg_send_spec :: "NetOs \<Rightarrow> RouterTopology \<Rightarrow> bytes \<Rightarrow> u8 \<Rightarrow> (DgView, unit) call" where
  "dg_send_spec os t x d v =
     (case peer_by_id t d of
        None \<Rightarrow> (Inr (), v)
      | Some e \<Rightarrow> (case dest_addr (local_addr e) of
          None \<Rightarrow> (Inl (RuntimeError (if kind (local_addr e) = UdpEndpoint then ''invalid host''
                     else ''unsupported peer address kind for datagram send'')), v)
        | Some a \<Rightarrow>
            if send_ok os a x
            then (Inr (), v\<lparr>v_outbox := v_outbox v @ [(a, x)],
                            v_counts := (v_counts v)\<lparr>dg_forwarded := dg_forwarded (v_counts v) + 1\<rparr>\<rparr>)
            else (Inl (RuntimeError (case a of SockUn _ \<Rightarrow> ''uds sendto failed'' | SockIn _ _ \<Rightarrow> ''udp sendto failed'')), v)))"

text \<open>A call on one part of the view; a transport without a link does nothing.\<close>

definition at_shm :: "(LinkView, unit) call \<Rightarrow> (MixedView, unit) call" where
  "at_shm c V = (case mv_shm V of None \<Rightarrow> (Inr (), V) | Some L \<Rightarrow> (case c L of (r, L1) \<Rightarrow> (r, V\<lparr>mv_shm := Some L1\<rparr>)))"

definition at_uds :: "(DgView, unit) call \<Rightarrow> (MixedView, unit) call" where
  "at_uds c V = (case mv_uds V of None \<Rightarrow> (Inr (), V) | Some v \<Rightarrow> (case c v of (r, v1) \<Rightarrow> (r, V\<lparr>mv_uds := Some v1\<rparr>)))"

definition at_udp :: "(DgView, unit) call \<Rightarrow> (MixedView, unit) call" where
  "at_udp c V = (case mv_udp V of None \<Rightarrow> (Inr (), V) | Some v \<Rightarrow> (case c v of (r, v1) \<Rightarrow> (r, V\<lparr>mv_udp := Some v1\<rparr>)))"

text \<open>A copy goes to the transport of the peer that the topology lists under the id.\<close>

definition mx_send_spec :: "NetOs \<Rightarrow> RouterTopology \<Rightarrow> bytes \<Rightarrow> u8 \<Rightarrow> (MixedView, unit) call" where
  "mx_send_spec os t x d V =
     (case peer_by_id t d of
        None \<Rightarrow> (Inr (), V)
      | Some e \<Rightarrow> (case kind (local_addr e) of
          ShmRing \<Rightarrow> at_shm (send_spec x d) V
        | UdsPath \<Rightarrow> at_uds (dg_send_spec os t x d) V
        | UdpEndpoint \<Rightarrow> at_udp (dg_send_spec os t x d) V))"

fun mx_deliver_spec :: "NetOs \<Rightarrow> RouterTopology \<Rightarrow> u8 \<Rightarrow> RouterFrame \<Rightarrow> u8 list \<Rightarrow> MixedView \<Rightarrow>
    unit res \<times> run_event list \<times> MixedView" where
  "mx_deliver_spec os t src f [] V = (Inr (), [], V)"
| "mx_deliver_spec os t src f (d # ds) V =
     (case mx_send_spec os t (bytes f) d V of
        (Inl e, V1) \<Rightarrow> (Inl e, [], V1)
      | (Inr _, V1) \<Rightarrow> (case mx_deliver_spec os t src f ds V1 of (r, ev, V2) \<Rightarrow> (r, OnForward src d f # ev, V2)))"

definition dg_receive_spec :: "DgTransport \<Rightarrow> RouterTopology \<Rightarrow> DgView \<Rightarrow> (u8 \<times> bytes) option res \<times> DgView" where
  "dg_receive_spec tr t v =
     (case v_inbox v of
        [] \<Rightarrow> (Inr None, v)
      | Failure e # rest \<Rightarrow>
          (if e = EAGAIN then Inr None
           else Inl (RuntimeError ((case tr of UdsT \<Rightarrow> ''uds'' | UdpT \<Rightarrow> ''udp'') @ '' recvfrom failed'')), v\<lparr>v_inbox := rest\<rparr>)
      | Arrived sender x # rest \<Rightarrow>
          let mt = v_counts v;
              src = peer_id_from_recv tr t (case sender of None \<Rightarrow> from_zero tr | Some a \<Rightarrow> a)
          in if length x < kRouterFrameSize
             then (Inr None, v\<lparr>v_inbox := rest, v_counts := mt\<lparr>dg_recv_truncated := dg_recv_truncated mt + 1\<rparr>\<rparr>)
             else if src = kEndpointInvalid
             then (Inr None, v\<lparr>v_inbox := rest, v_counts := mt\<lparr>dg_recv_unknown_source := dg_recv_unknown_source mt + 1\<rparr>\<rparr>)
             else (Inr (Some (src, take kRouterFrameSize x)), v\<lparr>v_inbox := rest\<rparr>))"

definition mx_receive_spec :: "RouterTopology \<Rightarrow> PeerAddressKind \<Rightarrow> MixedView \<Rightarrow> (u8 \<times> bytes) option res \<times> MixedView" where
  "mx_receive_spec t kd V =
     (case kd of
        ShmRing \<Rightarrow> (case mv_shm V of None \<Rightarrow> (Inr None, V)
          | Some L \<Rightarrow> (case receive_spec (v_peers L) (v_metrics L) of
              (r, vs, mt) \<Rightarrow> (r, V\<lparr>mv_shm := Some (L\<lparr>v_peers := vs, v_metrics := mt\<rparr>)\<rparr>)))
      | UdsPath \<Rightarrow> (case mv_uds V of None \<Rightarrow> (Inr None, V)
          | Some v \<Rightarrow> (case dg_receive_spec UdsT t v of (r, v1) \<Rightarrow> (r, V\<lparr>mv_uds := Some v1\<rparr>)))
      | UdpEndpoint \<Rightarrow> (case mv_udp V of None \<Rightarrow> (Inr None, V)
          | Some v \<Rightarrow> (case dg_receive_spec UdpT t v of (r, v1) \<Rightarrow> (r, V\<lparr>mv_udp := Some v1\<rparr>))))"

definition mx_poll_spec :: "NetOs \<Rightarrow> RouterTopology \<Rightarrow> u64 \<Rightarrow> RouteRule list \<Rightarrow> PeerAddressKind \<Rightarrow> MixedView \<Rightarrow>
    bool res \<times> run_event list \<times> MixedView" where
  "mx_poll_spec os t ts rules kd V =
     (case mx_receive_spec t kd V of
        (Inl e, V1) \<Rightarrow> (Inl e, [], V1)
      | (Inr None, V1) \<Rightarrow> (Inr False, [], V1)
      | (Inr (Some (p, x)), V1) \<Rightarrow>
          let g = stamp p ts x
          in case mx_deliver_spec os t p g (targets_list (route_targets_for rules p (topic_id g))) V1 of
               (Inl e, ev, V2) \<Rightarrow> (Inl e, ev, V2)
             | (Inr _, ev, V2) \<Rightarrow> (Inr True, ev, V2))"

fun mx_polls_spec :: "NetOs \<Rightarrow> RouterTopology \<Rightarrow> u64 \<Rightarrow> RouteRule list \<Rightarrow> PeerAddressKind list \<Rightarrow> MixedView \<Rightarrow>
    bool res \<times> run_event list \<times> MixedView" where
  "mx_polls_spec os t ts rules [] V = (Inr False, [], V)"
| "mx_polls_spec os t ts rules (kd # kds) V =
     (case mx_poll_spec os t ts rules kd V of
        (Inl e, ev, V1) \<Rightarrow> (Inl e, ev, V1)
      | (Inr did, ev, V1) \<Rightarrow> (case mx_polls_spec os t ts rules kds V1 of
          (Inl e, ev2, V2) \<Rightarrow> (Inl e, ev @ ev2, V2)
        | (Inr did2, ev2, V2) \<Rightarrow> (Inr (did \<or> did2), ev @ ev2, V2)))"

text \<open>The abstraction, and the invariant with a budget of further sends.\<close>

definition dg_view :: "Kernel \<Rightarrow> DatagramRouterLink \<Rightarrow> DgView" where
  "dg_view k l = \<lparr>v_inbox = (case socks k (fd (dl_endpoint l)) of None \<Rightarrow> [] | Some sk \<Rightarrow> sk_inbox sk),
     v_outbox = (case socks k (fd (dl_endpoint l)) of None \<Rightarrow> [] | Some sk \<Rightarrow> sk_outbox sk), v_counts = dl_metrics l\<rparr>"

definition mixed_view :: "mx_state \<Rightarrow> MixedView" where
  "mixed_view = (\<lambda>(m, w, k). \<lparr>mv_shm = map_option (\<lambda>l. link_view (l, w)) (shm_link m),
     mv_uds = map_option (dg_view k) (uds_link m), mv_udp = map_option (dg_view k) (udp_link m)\<rparr>)"

definition serves :: "RouterTopology \<Rightarrow> Kernel \<Rightarrow> DatagramRouterLink option \<Rightarrow> bool" where
  "serves t k x \<longleftrightarrow> (\<forall>l. x = Some l \<longrightarrow> dl_topo l = t \<and> socks k (fd (dl_endpoint l)) \<noteq> None)"

definition mx_inv :: "nat \<Rightarrow> mx_state \<Rightarrow> bool" where
  "mx_inv n = (\<lambda>(m, w, k). dispatch_ok m \<and> (\<forall>l. shm_link m = Some l \<longrightarrow> link_inv n (l, w))
     \<and> serves (mx_topo m) k (uds_link m) \<and> serves (mx_topo m) k (udp_link m)
     \<and> (\<forall>u v. uds_link m = Some u \<longrightarrow> udp_link m = Some v \<longrightarrow> fd (dl_endpoint u) \<noteq> fd (dl_endpoint v)))"

section \<open>One datagram link\<close>

text \<open>A call that only touches its own socket.\<close>

definition own_sock :: "dg_state \<Rightarrow> dg_state \<Rightarrow> bool" where
  "own_sock s s' \<longleftrightarrow> dl_topo (fst s') = dl_topo (fst s) \<and> dl_endpoint (fst s') = dl_endpoint (fst s)
     \<and> (\<forall>d. d \<noteq> fd (dl_endpoint (fst s)) \<longrightarrow> socks (snd s') d = socks (snd s) d)
     \<and> (socks (snd s) (fd (dl_endpoint (fst s))) \<noteq> None \<longrightarrow> socks (snd s') (fd (dl_endpoint (fst s))) \<noteq> None)"

lemma dg_send_refines:
  assumes "socks k (fd (dl_endpoint l)) = Some sk" "dg_send_to_peer os (Buffer_read_only x) d (l, k) = (r, (l', k'))"
  shows "dg_send_spec os (dl_topo l) x d (dg_view k l) = (r, dg_view k' l')" "own_sock (l, k) (l', k')"
  using assms
  by (auto simp: dg_send_spec_def dg_view_def own_sock_def dg_send_to_peer_def send_buffer_to_def send_datagram_to_address_def
      Uds_send_to_def Udp_send_to_def Udp_send_to_addr_def sys_sendto_def bump_forwarded_def put_sock_def
      split: option.splits PeerAddress.splits if_splits)

lemma dg_receive_refines:
  assumes "socks k (fd (dl_endpoint l)) = Some sk" "wf_frame f" "dg_try_receive tr f ts (l, k) = (res, f', (l', k'))"
  shows "\<exists>sres. dg_receive_spec tr (dl_topo l) (dg_view k l) = (sres, dg_view k' l') \<and> received ts sres res f'"
    "own_sock (l, k) (l', k')"
proof -
  show "own_sock (l, k) (l', k')"
    using assms
    by (cases tr) (auto simp: own_sock_def dg_try_receive_def ep_dg_try_recv_def Uds_try_recv_def Udp_try_recv_def dg_try_recv_def
        sys_recvfrom_def put_sock_def bump_truncated_def bump_unknown_def Let_def
        split: option.splits list.splits recv_answer.splits prod.splits if_splits)
  let ?d = "fd (dl_endpoint l)" and ?b = "frame_writable f"
  have cap: "capacity ?b = kRouterFrameSize" using assms(2) by (simp add: frame_writable_def Buffer_writable_def wf_frame_def)
  have view: "v_inbox (dg_view k l) = sk_inbox sk" by (simp add: dg_view_def assms(1))
  note recv_defs = dg_try_receive_def ep_dg_try_recv_def Uds_try_recv_def Udp_try_recv_def dg_try_recv_def sys_recvfrom_def
  show "\<exists>sres. dg_receive_spec tr (dl_topo l) (dg_view k l) = (sres, dg_view k' l') \<and> received ts sres res f'"
  proof (cases "sk_inbox sk")
    case Nil
    then have "res = Inr kEndpointInvalid \<and> l' = l \<and> k' = k"
      using assms(1,3) by (cases tr) (simp_all add: recv_defs Let_def)
    then show ?thesis by (simp add: dg_receive_spec_def view Nil received_def)
  next
    case (Cons ans rest)
    let ?k = "put_sock ?d (sk\<lparr>sk_inbox := rest\<rparr>) k"
    have kv: "dg_view ?k l = (dg_view k l)\<lparr>v_inbox := rest\<rparr>" by (simp add: dg_view_def assms(1))
    show ?thesis
    proof (cases ans)
      case (Failure e)
      then have "res = (if e = EAGAIN then Inr kEndpointInvalid
          else Inl (RuntimeError ((case tr of UdsT \<Rightarrow> ''uds'' | UdpT \<Rightarrow> ''udp'') @ '' recvfrom failed''))) \<and> l' = l \<and> k' = ?k"
        using assms(1,3) Cons by (cases tr; cases e) (simp_all add: recv_defs Let_def)
      then show ?thesis by (simp add: dg_receive_spec_def view Cons Failure received_def kv)
    next
      case (Arrived sender x)
      let ?src = "peer_id_from_recv tr (dl_topo l) (case sender of None \<Rightarrow> from_zero tr | Some a \<Rightarrow> a)"
      note arrived = Cons [unfolded Arrived]
      have st: "buf_size (fst (store_recv sender (take kRouterFrameSize x) ?b (from_zero tr))) = min kRouterFrameSize (length x)"
        "snd (store_recv sender (take kRouterFrameSize x) ?b (from_zero tr)) = (case sender of None \<Rightarrow> from_zero tr | Some a \<Rightarrow> a)"
        by (simp_all add: store_recv_def min.commute)
      have rcv: "ep_dg_try_recv tr (dl_endpoint l) ?b (from_zero tr) k
          = (Inr (True, store_recv sender (take kRouterFrameSize x) ?b (from_zero tr)), ?k)"
        using assms(1) arrived cap by (cases tr) (simp_all add: recv_defs)
      obtain buf a where sr: "store_recv sender (take kRouterFrameSize x) ?b (from_zero tr) = (buf, a)" by (rule prod.exhaust)
      note got = rcv [unfolded sr] and size = st [unfolded sr fst_conv snd_conv]
      consider (short) "length x < kRouterFrameSize"
        | (unknown) "length x \<ge> kRouterFrameSize" "?src = kEndpointInvalid"
        | (known) "length x \<ge> kRouterFrameSize" "?src \<noteq> kEndpointInvalid" by (meson not_le)
      then show ?thesis
      proof cases
        case short
        then have "res = Inr kEndpointInvalid \<and> l' = bump_truncated l \<and> k' = ?k"
          using assms(3) size(1) by (simp add: dg_try_receive_def got Let_def)
        moreover have "dg_view ?k (bump_truncated l) = (dg_view ?k l)\<lparr>v_counts := (dl_metrics l)\<lparr>dg_recv_truncated := dg_recv_truncated (dl_metrics l) + 1\<rparr>\<rparr>"
          by (simp add: dg_view_def bump_truncated_def)
        ultimately show ?thesis
          using short by (simp add: dg_receive_spec_def view arrived received_def kv Let_def) (simp add: dg_view_def)
      next
        case unknown
        then have "res = Inr kEndpointInvalid \<and> l' = bump_unknown l \<and> k' = ?k"
          using assms(3) size by (simp add: dg_try_receive_def got Let_def)
        moreover have "dg_view ?k (bump_unknown l) = (dg_view ?k l)\<lparr>v_counts := (dl_metrics l)\<lparr>dg_recv_unknown_source := dg_recv_unknown_source (dl_metrics l) + 1\<rparr>\<rparr>"
          by (simp add: dg_view_def bump_unknown_def)
        ultimately show ?thesis
          using unknown by (simp add: dg_receive_spec_def view arrived received_def kv Let_def) (simp add: dg_view_def)
      next
        case known
        from dg_try_receive_arrived [OF assms(2,1) arrived known(1) refl known(2), of ts] assms(3)
        have "res = Inr ?src \<and> f' = stamp ?src ts (take kRouterFrameSize x) \<and> l' = l \<and> k' = ?k" by (simp add: stamp_def)
        then show ?thesis
          using known by (simp add: dg_receive_spec_def view arrived received_def kv Let_def not_less)
      qed
    qed
  qed
qed

section \<open>The mixed state\<close>

text \<open>Stepping one link keeps the invariant and the views of the other two.\<close>

lemma mixed_view_simps:
  "mv_shm (mixed_view (m, w, k)) = map_option (\<lambda>l. link_view (l, w)) (shm_link m)"
  "mv_uds (mixed_view (m, w, k)) = map_option (dg_view k) (uds_link m)"
  "mv_udp (mixed_view (m, w, k)) = map_option (dg_view k) (udp_link m)"
  by (simp_all add: mixed_view_def)

lemma dg_view_other: "own_sock (l, k) (l', k') \<Longrightarrow> fd (dl_endpoint v) \<noteq> fd (dl_endpoint l) \<Longrightarrow> dg_view k' v = dg_view k v"
  by (simp add: own_sock_def dg_view_def)

lemma step_shm:
  assumes "mx_inv n (m, w, k)" "shm_link m = Some l" "link_inv n' (l', w')" "n' \<le> n"
  shows "mx_inv n' (m\<lparr>shm_link := Some l'\<rparr>, w', k)"
    "mixed_view (m\<lparr>shm_link := Some l'\<rparr>, w', k) = (mixed_view (m, w, k))\<lparr>mv_shm := Some (link_view (l', w'))\<rparr>"
  using assms by (simp_all add: mx_inv_def mixed_view_def dispatch_ok_def serves_def)

lemma step_uds:
  assumes "mx_inv n (m, w, k)" "uds_link m = Some l" "own_sock (l, k) (l', k')"
  shows "mx_inv n (m\<lparr>uds_link := Some l'\<rparr>, w, k')"
    "mixed_view (m\<lparr>uds_link := Some l'\<rparr>, w, k') = (mixed_view (m, w, k))\<lparr>mv_uds := Some (dg_view k' l')\<rparr>"
proof -
  have far: "fd (dl_endpoint v) \<noteq> fd (dl_endpoint l)" if "udp_link m = Some v" for v
    using assms(1,2) that by (auto simp: mx_inv_def)
  have own: "dl_topo l' = dl_topo l" "dl_endpoint l' = dl_endpoint l" "d \<noteq> fd (dl_endpoint l) \<Longrightarrow> socks k' d = socks k d"
    "socks k (fd (dl_endpoint l)) \<noteq> None \<Longrightarrow> socks k' (fd (dl_endpoint l)) \<noteq> None" for d
    using assms(3) by (auto simp: own_sock_def)
  have "serves (mx_topo m) k' (udp_link m)" if "serves (mx_topo m) k (udp_link m)"
    using that far own(3) by (auto simp: serves_def)
  then show "mx_inv n (m\<lparr>uds_link := Some l'\<rparr>, w, k')"
    using assms(1,2) own by (simp add: mx_inv_def dispatch_ok_def) (simp add: serves_def)
  have "map_option (dg_view k') (udp_link m) = map_option (dg_view k) (udp_link m)"
    using dg_view_other [OF assms(3)] far by (cases "udp_link m") simp_all
  then show "mixed_view (m\<lparr>uds_link := Some l'\<rparr>, w, k') = (mixed_view (m, w, k))\<lparr>mv_uds := Some (dg_view k' l')\<rparr>"
    by (simp add: mixed_view_def)
qed

lemma step_udp:
  assumes "mx_inv n (m, w, k)" "udp_link m = Some l" "own_sock (l, k) (l', k')"
  shows "mx_inv n (m\<lparr>udp_link := Some l'\<rparr>, w, k')"
    "mixed_view (m\<lparr>udp_link := Some l'\<rparr>, w, k') = (mixed_view (m, w, k))\<lparr>mv_udp := Some (dg_view k' l')\<rparr>"
proof -
  have far: "fd (dl_endpoint v) \<noteq> fd (dl_endpoint l)" if "uds_link m = Some v" for v
    using assms(1,2) that by (simp add: mx_inv_def)
  have own: "dl_topo l' = dl_topo l" "dl_endpoint l' = dl_endpoint l" "d \<noteq> fd (dl_endpoint l) \<Longrightarrow> socks k' d = socks k d"
    "socks k (fd (dl_endpoint l)) \<noteq> None \<Longrightarrow> socks k' (fd (dl_endpoint l)) \<noteq> None" for d
    using assms(3) by (auto simp: own_sock_def)
  have "serves (mx_topo m) k' (uds_link m)" if "serves (mx_topo m) k (uds_link m)"
    using that far own(3) by (auto simp: serves_def)
  then show "mx_inv n (m\<lparr>udp_link := Some l'\<rparr>, w, k')"
    using assms(1,2) own by (simp add: mx_inv_def dispatch_ok_def) (simp add: serves_def)
  have "map_option (dg_view k') (uds_link m) = map_option (dg_view k) (uds_link m)"
    using dg_view_other [OF assms(3)] far by (cases "uds_link m") simp_all
  then show "mixed_view (m\<lparr>udp_link := Some l'\<rparr>, w, k') = (mixed_view (m, w, k))\<lparr>mv_udp := Some (dg_view k' l')\<rparr>"
    by (simp add: mixed_view_def)
qed

lemma mx_inv_weaken: "mx_inv (i + n) s \<Longrightarrow> mx_inv n s"
  using link_inv_weaken by (cases s) (auto simp: mx_inv_def)

text \<open>The tables of the server say of an id what the topology says.\<close>

lemma dispatch_lookup:
  assumes "dispatch_ok m"
  shows "(unat d \<ge> length (peer_known m) \<or> \<not> peer_known m ! unat d) \<longleftrightarrow> peer_by_id (mx_topo m) d = None"
    "peer_by_id (mx_topo m) d = Some e \<Longrightarrow> peer_transport m ! unat d = kind (local_addr e)"
proof -
  have "peer_by_id (mx_topo m) d = None \<longleftrightarrow> d \<notin> peer_id ` set (peers (mx_topo m))"
    by (auto simp: lookup_defs find_None_iff)
  then show "(unat d \<ge> length (peer_known m) \<or> \<not> peer_known m ! unat d) \<longleftrightarrow> peer_by_id (mx_topo m) d = None"
    using assms byte_index [of d] by (simp add: dispatch_ok_def)
  show "peer_transport m ! unat d = kind (local_addr e)" if "peer_by_id (mx_topo m) d = Some e"
    using assms that by (auto simp: dispatch_ok_def lookup_defs find_Some_iff)
qed

lemma mx_send_refines:
  assumes "mx_inv (Suc n) s" "length x = kRouterFrameSize" "mx_send_to_peer os (Buffer_read_only x) d s = (r, s')"
  shows "mx_send_spec os (mx_topo (fst s)) x d (mixed_view s) = (r, mixed_view s') \<and> mx_inv n s'
    \<and> mx_topo (fst s') = mx_topo (fst s)"
proof -
  obtain m w k where s: "s = (m, w, k)" by (rule prod_cases3)
  have ok: "dispatch_ok m" using assms(1) by (simp add: s mx_inv_def)
  have weak: "mx_inv n (m, w, k)" using mx_inv_weaken [of 1 n] assms(1) by (simp add: s)
  note send = assms(3) [unfolded s mx_send_to_peer_def Let_def fst_conv dispatch_lookup(1) [OF ok]]
  show ?thesis
  proof (cases "peer_by_id (mx_topo m) d")
    case None
    then show ?thesis using send weak by (auto simp: s mx_send_spec_def)
  next
    case (Some e)
    note kd = dispatch_lookup(2) [OF ok Some]
    show ?thesis
    proof (cases "kind (local_addr e)")
      case ShmRing
      show ?thesis
      proof (cases "shm_link m")
        case None
        then show ?thesis using send weak Some kd ShmRing by (auto simp: s mx_send_spec_def at_shm_def mixed_view_simps)
      next
        case l: (Some l)
        obtain q l' w' where c: "send_to_peer (Buffer_read_only x) d (l, w) = (q, (l', w'))" by (rule prod_cases3)
        have "length x = kRouterFrameSize \<and> link_inv (Suc n) (l, w)" using assms(1,2) l by (simp add: s mx_inv_def)
        note sim = shm_send.send_step [OF this c]
        have "r = q" "s' = (m\<lparr>shm_link := Some l'\<rparr>, w', k)" using send Some kd ShmRing l c by (simp_all add: on_shm_def)
        then show ?thesis
          using sim step_shm [OF weak l, of n l' w'] Some ShmRing l by (simp add: s mx_send_spec_def at_shm_def mixed_view_simps)
      qed
    next
      case UdsPath
      show ?thesis
      proof (cases "uds_link m")
        case None
        then show ?thesis using send weak Some kd UdsPath by (auto simp: s mx_send_spec_def at_uds_def mixed_view_simps)
      next
        case l: (Some l)
        obtain q l' k' where c: "dg_send_to_peer os (Buffer_read_only x) d (l, k) = (q, (l', k'))" by (rule prod_cases3)
        obtain sk where sk: "socks k (fd (dl_endpoint l)) = Some sk" "dl_topo l = mx_topo m"
          using weak l by (auto simp: mx_inv_def serves_def)
        note sim = dg_send_refines [OF sk(1) c]
        have "r = q" "s' = (m\<lparr>uds_link := Some l'\<rparr>, w, k')" using send Some kd UdsPath l c by (simp_all add: on_uds_def)
        then show ?thesis
          using sim step_uds [OF weak l sim(2)] Some UdsPath l sk(2) by (simp add: s mx_send_spec_def at_uds_def mixed_view_simps)
      qed
    next
      case UdpEndpoint
      show ?thesis
      proof (cases "udp_link m")
        case None
        then show ?thesis using send weak Some kd UdpEndpoint by (auto simp: s mx_send_spec_def at_udp_def mixed_view_simps)
      next
        case l: (Some l)
        obtain q l' k' where c: "dg_send_to_peer os (Buffer_read_only x) d (l, k) = (q, (l', k'))" by (rule prod_cases3)
        obtain sk where sk: "socks k (fd (dl_endpoint l)) = Some sk" "dl_topo l = mx_topo m"
          using weak l by (auto simp: mx_inv_def serves_def)
        note sim = dg_send_refines [OF sk(1) c]
        have "r = q" "s' = (m\<lparr>udp_link := Some l'\<rparr>, w, k')" using send Some kd UdpEndpoint l c by (simp_all add: on_udp_def)
        then show ?thesis
          using sim step_udp [OF weak l sim(2)] Some UdpEndpoint l sk(2) by (simp add: s mx_send_spec_def at_udp_def mixed_view_simps)
      qed
    qed
  qed
qed

lemma mx_deliver_refines:
  assumes "mx_inv (length ds + n) s" "wf_frame f" "mx_deliver os src f ds s = (r, ev, s')"
  shows "mx_deliver_spec os (mx_topo (fst s)) src f ds (mixed_view s) = (r, ev, mixed_view s') \<and> mx_inv n s'
    \<and> mx_topo (fst s') = mx_topo (fst s)"
  using assms(1,3)
proof (induction ds arbitrary: s r ev s')
  case (Cons d ds)
  have len: "length (bytes f) = kRouterFrameSize" using assms(2) by (simp add: wf_frame_def)
  obtain r1 s1 where snt: "mx_send_to_peer os (Buffer_read_only (bytes f)) d s = (r1, s1)" by (rule prod.exhaust)
  have "mx_inv (Suc (length ds + n)) s" using Cons.prems(1) by simp
  note sim = mx_send_refines [OF this len snt]
  show ?case
  proof (cases r1)
    case (Inl e)
    then show ?thesis
      using Cons.prems(2) snt sim mx_inv_weaken [of "length ds" n s1] by (auto simp: frame_read_only_def)
  next
    case (Inr u)
    obtain r2 ev2 s2 where more: "mx_deliver os src f ds s1 = (r2, ev2, s2)" by (rule prod_cases3)
    show ?thesis
      using Cons.prems(2) snt sim more Cons.IH [OF _ more] Inr by (simp add: frame_read_only_def)
  qed
qed simp

lemma mx_receive_refines:
  assumes "mx_inv n s" "wf_frame f" "mx_receive kd f ts s = (y, s')"
  shows "mx_inv n s' \<and> mx_topo (fst s') = mx_topo (fst s) \<and> (\<exists>sres. mx_receive_spec (mx_topo (fst s)) kd (mixed_view s) = (sres, mixed_view s')
    \<and> (case y of None \<Rightarrow> sres = Inr None | Some (res, f') \<Rightarrow> received ts sres res f' \<and> wf_frame f'))"
proof -
  obtain m w k where s: "s = (m, w, k)" by (rule prod_cases3)
  note inv = assms(1) [unfolded s]
  note recv = assms(3) [unfolded s mx_receive_def fst_conv]
  have wf: "wf_frame f'" if "y = Some (res, f')" for res f'
    using mx_receive_frame [OF assms(2) assms(3) [unfolded that]] by blast
  show ?thesis
  proof (cases kd)
    case ShmRing
    show ?thesis
    proof (cases "shm_link m")
      case None
      then show ?thesis using recv inv ShmRing by (auto simp: s mx_receive_spec_def mixed_view_simps)
    next
      case l: (Some l)
      obtain res f' l' w' where c: "try_receive f ts (l, w) = (res, f', (l', w'))" by (rule prod_cases4)
      have li: "link_inv n (l, w)" using inv l by (simp add: mx_inv_def)
      note sim = try_receive_refines [OF li assms(2) c]
      have "y = Some (res, f')" "s' = (m\<lparr>shm_link := Some l'\<rparr>, w', k)" using recv ShmRing l c by (simp_all add: on_shm_def)
      moreover obtain sres vs where "receive_spec (v_peers (link_view (l, w))) (metrics l) = (sres, vs, metrics l')"
        "received ts sres res f'" "link_view (l', w') = (link_view (l, w))\<lparr>v_peers := vs, v_metrics := metrics l'\<rparr>"
        using sim(1) by (elim exE conjE)
      moreover have "v_metrics (link_view (l, w)) = metrics l" by (simp add: link_view_def)
      ultimately show ?thesis
        using step_shm [OF inv l sim(2) order_refl] sim(3) ShmRing l
        by (intro conjI exI [of _ sres]) (simp_all add: s mx_receive_spec_def mixed_view_simps)
    qed
  next
    case UdsPath
    show ?thesis
    proof (cases "uds_link m")
      case None
      then show ?thesis using recv inv UdsPath by (auto simp: s mx_receive_spec_def mixed_view_simps)
    next
      case l: (Some l)
      obtain res f' l' k' where c: "dg_try_receive UdsT f ts (l, k) = (res, f', (l', k'))" by (rule prod_cases4)
      obtain sk where sk: "socks k (fd (dl_endpoint l)) = Some sk" "dl_topo l = mx_topo m"
        using inv l by (auto simp: mx_inv_def serves_def)
      obtain sres where sim: "dg_receive_spec UdsT (mx_topo m) (dg_view k l) = (sres, dg_view k' l')" "received ts sres res f'"
        using dg_receive_refines(1) [OF sk(1) assms(2) c] unfolding sk(2) by blast
      have "y = Some (res, f')" "s' = (m\<lparr>uds_link := Some l'\<rparr>, w, k')" using recv UdsPath l c by (simp_all add: on_uds_def)
      then show ?thesis
        using step_uds [OF inv l dg_receive_refines(2) [OF sk(1) assms(2) c]] sim wf UdsPath l
        by (intro conjI exI [of _ sres]) (simp_all add: s mx_receive_spec_def mixed_view_simps)
    qed
  next
    case UdpEndpoint
    show ?thesis
    proof (cases "udp_link m")
      case None
      then show ?thesis using recv inv UdpEndpoint by (auto simp: s mx_receive_spec_def mixed_view_simps)
    next
      case l: (Some l)
      obtain res f' l' k' where c: "dg_try_receive UdpT f ts (l, k) = (res, f', (l', k'))" by (rule prod_cases4)
      obtain sk where sk: "socks k (fd (dl_endpoint l)) = Some sk" "dl_topo l = mx_topo m"
        using inv l by (auto simp: mx_inv_def serves_def)
      obtain sres where sim: "dg_receive_spec UdpT (mx_topo m) (dg_view k l) = (sres, dg_view k' l')" "received ts sres res f'"
        using dg_receive_refines(1) [OF sk(1) assms(2) c] unfolding sk(2) by blast
      have "y = Some (res, f')" "s' = (m\<lparr>udp_link := Some l'\<rparr>, w, k')" using recv UdpEndpoint l c by (simp_all add: on_udp_def)
      then show ?thesis
        using step_udp [OF inv l dg_receive_refines(2) [OF sk(1) assms(2) c]] sim wf UdpEndpoint l
        by (intro conjI exI [of _ sres]) (simp_all add: s mx_receive_spec_def mixed_view_simps)
    qed
  qed
qed

section \<open>A turn of the loop\<close>

lemma poll_link_refines:
  assumes "mx_inv (kMaxRouteDests + n) s" "wf_frame f" "poll_link os kd f ts rules s = (r, ev, f', s')"
  shows "mx_poll_spec os (mx_topo (fst s)) ts rules kd (mixed_view s) = (r, ev, mixed_view s') \<and> mx_inv n s' \<and> wf_frame f'
    \<and> mx_topo (fst s') = mx_topo (fst s)"
proof -
  obtain y s1 where rcv: "mx_receive kd f ts s = (y, s1)" by (rule prod.exhaust)
  obtain sres where sim: "mx_inv (kMaxRouteDests + n) s1" "mx_topo (fst s1) = mx_topo (fst s)"
    "mx_receive_spec (mx_topo (fst s)) kd (mixed_view s) = (sres, mixed_view s1)"
    "case y of None \<Rightarrow> sres = Inr None | Some (res, f') \<Rightarrow> received ts sres res f' \<and> wf_frame f'"
    using mx_receive_refines [OF assms(1,2) rcv] by blast
  have weak: "mx_inv n s1" by (rule mx_inv_weaken [OF sim(1)])
  show ?thesis
  proof (cases y)
    case None
    then show ?thesis using assms(2,3) rcv sim weak by (auto simp: poll_link_def mx_poll_spec_def)
  next
    case (Some a)
    obtain res f1 where a: "a = (res, f1)" by (rule prod.exhaust)
    have got: "received ts sres res f1" "wf_frame f1" using sim(4) Some a by simp_all
    show ?thesis
    proof (cases "\<exists>p x. sres = Inr (Some (p, x))")
      case False
      then have "sres = Inr None \<or> (\<exists>e. sres = Inl e)" by (metis not_Some_eq obj_sumE surj_pair)
      then show ?thesis
        using assms(3) rcv sim(2,3) weak got Some a by (auto simp: poll_link_def mx_poll_spec_def received_def)
    next
      case True
      then obtain p x where px: "sres = Inr (Some (p, x))" by blast
      then have st: "res = Inr p" "p \<noteq> kEndpointInvalid" "f1 = stamp p ts x" using got(1) by (simp_all add: received_def)
      let ?ds = "targets_list (route_targets_for rules p (topic_id f1))"
      obtain r2 ev2 s2 where dl: "mx_deliver os p f1 ?ds s1 = (r2, ev2, s2)" by (rule prod_cases3)
      have "mx_inv (kMaxRouteDests - length ?ds + (length ?ds + n)) s1"
        using sim(1) targets_at_most [of rules p "topic_id f1"] by simp
      from mx_deliver_refines [OF mx_inv_weaken [OF this] got(2) dl, unfolded sim(2)]
      show ?thesis
        using assms(3) rcv sim(3) got(2) Some a px st dl
        by (cases r2) (auto simp: poll_link_def mx_poll_spec_def Let_def)
    qed
  qed
qed

lemma poll_all_refines:
  assumes "mx_inv (length kds * kMaxRouteDests + n) s" "wf_frame f" "poll_all os kds f ts rules s = (r, ev, f', s')"
  shows "mx_polls_spec os (mx_topo (fst s)) ts rules kds (mixed_view s) = (r, ev, mixed_view s') \<and> mx_inv n s' \<and> wf_frame f'
    \<and> mx_topo (fst s') = mx_topo (fst s)"
  using assms
proof (induction kds arbitrary: f s r ev f' s')
  case (Cons kd kds)
  obtain r1 ev1 f1 s1 where 1: "poll_link os kd f ts rules s = (r1, ev1, f1, s1)" by (rule prod_cases4)
  obtain r2 ev2 f2 s2 where 2: "poll_all os kds f1 ts rules s1 = (r2, ev2, f2, s2)" by (rule prod_cases4)
  have "mx_inv (kMaxRouteDests + (length kds * kMaxRouteDests + n)) s" using Cons.prems(1) by (simp add: add.assoc)
  note sim = poll_link_refines [OF this Cons.prems(2) 1]
  have "mx_inv n s1" using sim mx_inv_weaken by blast
  then show ?case
    using sim Cons.IH [OF _ _ 2] Cons.prems(3) 1 2 by (cases r1; cases r2) auto
qed simp

text \<open>
  C7: one turn of the mixed loop implements the abstract router over three transports. Polled in
  the order SHM, UDS, UDP, each transport takes its first waiting message (short, unattributable
  and refused ones are consumed and counted as the code counts them); the frame is stamped with its source and the
  time, and each destination gets its copy on the transport that the topology declares for it:
  appended to its ring if that admits it, or sent as one datagram to its address, in the order of
  the rule. The result, the exception that ends the turn included, the reported forwards, all
  queues, both kinds of counters and the sockets are those of the abstract turn, and the invariant
  is kept. The rings must be able to advance by three times eight.
\<close>

theorem mixed_turn_refines:
  assumes "mx_inv (3 * kMaxRouteDests + n) s" "wf_frame f"
    "poll_all os [ShmRing, UdsPath, UdpEndpoint] f ts rules s = (r, ev, f', s')"
  shows "mx_polls_spec os (mx_topo (fst s)) ts rules [ShmRing, UdsPath, UdpEndpoint] (mixed_view s) = (r, ev, mixed_view s')
    \<and> mx_inv n s' \<and> wf_frame f'"
proof -
  have "mx_inv (length [ShmRing, UdsPath, UdpEndpoint] * kMaxRouteDests + n) s"
    using assms(1) by (simp add: numeral_3_eq_3)
  from poll_all_refines [OF this assms(2,3)] show ?thesis by blast
qed

lemma demo_mixed_inv: "mx_inv n (demo_mixed, empty_world, demo_kernel\<lparr>socks := [3 \<mapsto> demo_sock]\<rparr>)"
proof -
  have "peer_known demo_mixed ! unat i \<longleftrightarrow> i \<in> {1, 4}" for i :: u8
  proof -
    have "i = 1 \<longleftrightarrow> unat i = 1" "i = 4 \<longleftrightarrow> unat i = 4" by (simp_all add: word_unat_eq_iff)
    then show ?thesis using byte_index [of i] by (auto simp: demo_mixed_def nth_list_update)
  qed
  then have "dispatch_ok demo_mixed" by (simp add: dispatch_ok_def) (simp add: demo_mixed_def demo_dg_topology_def)
  then show ?thesis by (simp add: mx_inv_def demo_mixed_def serves_def demo_dg_link_def)
qed

theorem mixed_turn_refines_witness:
  "\<exists>f' s'. poll_all demo_os [ShmRing, UdsPath, UdpEndpoint] RouterFrame_default 5 demo_rules
      (demo_mixed, empty_world, demo_kernel\<lparr>socks := [3 \<mapsto> demo_sock]\<rparr>)
    = (Inr True, [OnForward 1 4 demo_stamped], f', s')
    \<and> map_option v_outbox (mv_uds (mixed_view s')) = Some [(SockUn ''/tmp/d'', bytes demo_stamped)] \<and> mx_inv 0 s'"
proof -
  let ?s = "(demo_mixed, empty_world, demo_kernel\<lparr>socks := [3 \<mapsto> demo_sock]\<rparr>)"
  obtain r ev f' s' where run: "poll_all demo_os [ShmRing, UdsPath, UdpEndpoint] RouterFrame_default 5 demo_rules ?s = (r, ev, f', s')"
    by (rule prod_cases4)
  note sim = mixed_turn_refines [OF demo_mixed_inv [of "3 * kMaxRouteDests + 0"] demo_message_facts(3) run]
  have dests: "targets_list (route_targets_for demo_rules 1 (topic_id demo_stamped)) = [4]"
    by (simp only: demo_stamped_fields demo_route)
  have frame: "stamp 1 5 demo_frame = demo_stamped" by (simp add: stamp_def demo_stamped_def demo_frame_length)
  have view: "mixed_view ?s = \<lparr>mv_shm = None, mv_uds = Some \<lparr>v_inbox = [Arrived (Some (SockUn ''/tmp/a'')) demo_frame],
      v_outbox = [], v_counts = DatagramRouterMetrics_zero\<rparr>, mv_udp = None\<rparr>"
    by (simp add: mixed_view_def demo_mixed_def dg_view_def demo_dg_link_def demo_sock_def Sock_new_def)
  have topo: "mx_topo (fst ?s) = demo_dg_topology" by (simp add: demo_mixed_def)
  have peer: "peer_by_id demo_dg_topology 4 = Some \<lparr>peer_id = 4, peer_name = ''d'', local_addr = peer_uds ''/tmp/d'',
      shm_slot_count = 0, shm_max_payload = 0\<rparr>" by (simp add: demo_dg_topology_def lookup_defs)
  have "\<exists>V. mx_polls_spec demo_os demo_dg_topology 5 demo_rules [ShmRing, UdsPath, UdpEndpoint] (mixed_view ?s)
      = (Inr True, [OnForward 1 4 demo_stamped], V) \<and> map_option v_outbox (mv_uds V) = Some [(SockUn ''/tmp/d'', bytes demo_stamped)]"
    unfolding view
    by (simp add: mx_poll_spec_def mx_receive_spec_def dg_receive_spec_def demo_frame_length demo_route kEndpointInvalid_def
        frame dests mx_send_spec_def peer at_uds_def dg_send_spec_def demo_os_def sun_path_def c_str_def Let_def)
  then show ?thesis using run sim unfolding topo by auto
qed

end
