(* ===== verification/MixedDelivery.thy ===== *)
theory MixedDelivery
  imports MixedRefine Tame
begin

text \<open>
  The way of one frame through a mixed router brought up from a profile: from a client on shared
  memory or from a datagram socket to destinations on all three transports
  (\<open>ipc/src/router/mixed_router_server.hpp\<close>). The turn is computed on the abstract router of
  \<open>MixedRefine\<close> and carried over to the rings and sockets.
\<close>

section \<open>On the abstract router\<close>

definition transport_of :: "RouterTopology \<Rightarrow> u8 \<Rightarrow> PeerAddressKind option" where
  "transport_of t d = map_option (\<lambda>e. kind (local_addr e)) (peer_by_id t d)"

text \<open>What a turn adds to the queues of the destinations \<open>D\<close>, and to what a socket has sent.\<close>

definition shm_after :: "u8 set \<Rightarrow> bytes \<Rightarrow> LinkView option \<Rightarrow> LinkView option \<Rightarrow> bool" where
  "shm_after D x y z \<longleftrightarrow> (case y of None \<Rightarrow> z = None
     | Some L \<Rightarrow> \<exists>L'. z = Some L' \<and> v_floor L' = v_floor L
         \<and> v_peers L' = map (\<lambda>u. if v_id u \<in> D then deliver (v_floor L) x u else u) (v_peers L))"

definition dg_after :: "(sockaddr \<times> bytes) list \<Rightarrow> DgView option \<Rightarrow> DgView option \<Rightarrow> bool" where
  "dg_after c y z \<longleftrightarrow> (case y of None \<Rightarrow> z = None
     | Some v \<Rightarrow> \<exists>v'. z = Some v' \<and> v_inbox v' = v_inbox v \<and> v_outbox v' = v_outbox v @ c)"

lemma shm_after_refl: "shm_after {} x y y"
  by (simp add: shm_after_def split: option.split)

lemma dg_after_refl: "dg_after [] y y"
  by (simp add: dg_after_def split: option.split)

lemma dg_after_trans: "dg_after c y z \<Longrightarrow> dg_after c' z z' \<Longrightarrow> dg_after (c @ c') y z'"
  by (auto simp: dg_after_def split: option.splits)

lemma shm_after_trans:
  assumes "shm_after D x y z" "shm_after D' x z z'" "D \<inter> D' = {}"
  shows "shm_after (D \<union> D') x y z'"
proof (cases y)
  case None
  then show ?thesis using assms by (simp add: shm_after_def)
next
  case (Some L)
  then obtain L1 where 1: "z = Some L1" "v_floor L1 = v_floor L"
    "v_peers L1 = map (\<lambda>u. if v_id u \<in> D then deliver (v_floor L) x u else u) (v_peers L)"
    using assms(1) by (auto simp: shm_after_def)
  then obtain L2 where 2: "z' = Some L2" "v_floor L2 = v_floor L"
    "v_peers L2 = map (\<lambda>u. if v_id u \<in> D' then deliver (v_floor L) x u else u) (v_peers L1)"
    using assms(2) by (auto simp: shm_after_def)
  have "v_peers L2 = map (\<lambda>u. if v_id u \<in> D \<union> D' then deliver (v_floor L) x u else u) (v_peers L)"
    unfolding 2(3) 1(3) using assms(3) by auto
  then show ?thesis using Some 2(1,2) by (simp add: shm_after_def)
qed

text \<open>A destination that a copy can be sent to without an exception.\<close>

definition reachable :: "NetOs \<Rightarrow> RouterTopology \<Rightarrow> bytes \<Rightarrow> MixedView \<Rightarrow> u8 \<Rightarrow> bool" where
  "reachable os t x V d \<longleftrightarrow> (case transport_of t d of
     None \<Rightarrow> True
   | Some ShmRing \<Rightarrow> (\<exists>L. mv_shm V = Some L \<and> d \<in> v_id ` set (v_peers L))
   | Some UdsPath \<Rightarrow> mv_uds V \<noteq> None \<and> sendable os t x d
   | Some UdpEndpoint \<Rightarrow> mv_udp V \<noteq> None \<and> sendable os t x d)"

text \<open>The destinations on a transport.\<close>

definition on_transport :: "RouterTopology \<Rightarrow> PeerAddressKind \<Rightarrow> u8 list \<Rightarrow> u8 list" where
  "on_transport t kd ds = filter (\<lambda>d. transport_of t d = Some kd) ds"

definition mixed_after :: "RouterTopology \<Rightarrow> bytes \<Rightarrow> u8 list \<Rightarrow> MixedView \<Rightarrow> MixedView \<Rightarrow> bool" where
  "mixed_after t x ds V V' \<longleftrightarrow> shm_after (set (on_transport t ShmRing ds)) x (mv_shm V) (mv_shm V')
     \<and> dg_after (copies t x (on_transport t UdsPath ds)) (mv_uds V) (mv_uds V')
     \<and> dg_after (copies t x (on_transport t UdpEndpoint ds)) (mv_udp V) (mv_udp V')"

lemma dg_send_spec_sendable:
  assumes "sendable os t x d"
  shows "\<exists>v'. dg_send_spec os t x d v = (Inr (), v') \<and> v_inbox v' = v_inbox v \<and> v_outbox v' = v_outbox v @ copy_for t x d"
  using assms by (auto simp: sendable_def dg_send_spec_def copy_for_def split: option.splits)

lemma copies_one [simp]: "copies t x [] = []" "copies t x [d] = copy_for t x d" "copies t x (ds @ es) = copies t x ds @ copies t x es"
  by (simp_all add: copies_def)

lemma mx_send_one:
  assumes "reachable os t x V d"
  shows "\<exists>V'. mx_send_spec os t x d V = (Inr (), V') \<and> mixed_after t x [d] V V'"
proof (cases "peer_by_id t d")
  case None
  then show ?thesis
    by (simp add: mx_send_spec_def mixed_after_def on_transport_def transport_of_def shm_after_refl dg_after_refl)
next
  case (Some e)
  show ?thesis
  proof (cases "kind (local_addr e)")
    case ShmRing
    then obtain L where L: "mv_shm V = Some L" "d \<in> v_id ` set (v_peers L)"
      using assms Some by (auto simp: reachable_def transport_of_def)
    from L(2) obtain mt where "send_spec x d L = (Inr (), L\<lparr>v_peers := map (\<lambda>u. if v_id u = d then deliver (v_floor L) x u else u)
        (v_peers L), v_metrics := mt\<rparr>)" by (rule send_spec_known)
    then show ?thesis
      using Some ShmRing L(1)
      by (simp add: mx_send_spec_def at_shm_def mixed_after_def on_transport_def transport_of_def dg_after_refl shm_after_def)
  next
    case UdsPath
    then obtain v where v: "mv_uds V = Some v" "sendable os t x d"
      using assms Some by (auto simp: reachable_def transport_of_def)
    from dg_send_spec_sendable [OF v(2), of v] show ?thesis
      using Some UdsPath v(1)
      by (auto simp: mx_send_spec_def at_uds_def mixed_after_def on_transport_def transport_of_def shm_after_refl dg_after_refl)
        (simp add: dg_after_def)
  next
    case UdpEndpoint
    then obtain v where v: "mv_udp V = Some v" "sendable os t x d"
      using assms Some by (auto simp: reachable_def transport_of_def)
    from dg_send_spec_sendable [OF v(2), of v] show ?thesis
      using Some UdpEndpoint v(1)
      by (auto simp: mx_send_spec_def at_udp_def mixed_after_def on_transport_def transport_of_def shm_after_refl dg_after_refl)
        (simp add: dg_after_def)
  qed
qed

lemma reachable_after:
  assumes "mixed_after t y ds V V'" "reachable os t x V d"
  shows "reachable os t x V' d"
proof -
  have ids: "\<exists>L'. mv_shm V' = Some L' \<and> v_id ` set (v_peers L') = v_id ` set (v_peers L)" if L: "mv_shm V = Some L" for L
  proof -
    obtain L' where L': "mv_shm V' = Some L'" "v_peers L' = map (\<lambda>u. if v_id u \<in> set (on_transport t ShmRing ds)
        then deliver (v_floor L) y u else u) (v_peers L)"
      using assms(1) L by (auto simp: mixed_after_def shm_after_def)
    have "map v_id (v_peers L') = map v_id (v_peers L)" by (simp add: L'(2))
    then have "v_id ` set (v_peers L') = v_id ` set (v_peers L)" by (metis list.set_map)
    then show ?thesis using L'(1) by blast
  qed
  have "mv_uds V' \<noteq> None" if "mv_uds V \<noteq> None" using assms(1) that by (auto simp: mixed_after_def dg_after_def)
  moreover have "mv_udp V' \<noteq> None" if "mv_udp V \<noteq> None" using assms(1) that by (auto simp: mixed_after_def dg_after_def)
  ultimately show ?thesis
    using assms(2) ids unfolding reachable_def by (auto split: option.splits PeerAddressKind.splits)
qed

lemma mixed_after_trans:
  assumes "mixed_after t x ds V V1" "mixed_after t x es V1 V2" "distinct (ds @ es)"
  shows "mixed_after t x (ds @ es) V V2"
proof -
  have "set (on_transport t ShmRing ds) \<inter> set (on_transport t ShmRing es) = {}"
    using assms(3) by (auto simp: on_transport_def)
  then show ?thesis
    using assms(1,2) shm_after_trans dg_after_trans unfolding mixed_after_def on_transport_def filter_append set_append copies_one
    by blast
qed

text \<open>With every destination reachable, all copies go out.\<close>

lemma mx_deliver_all:
  assumes "distinct ds" "\<forall>d\<in>set ds. reachable os t (bytes f) V d"
  shows "\<exists>V'. mx_deliver_spec os t src f ds V = (Inr (), map (\<lambda>d. OnForward src d f) ds, V') \<and> mixed_after t (bytes f) ds V V'"
  using assms
proof (induction ds arbitrary: V)
  case Nil
  then show ?case by (simp add: mixed_after_def on_transport_def shm_after_refl dg_after_refl)
next
  case (Cons d ds)
  obtain V1 where 1: "mx_send_spec os t (bytes f) d V = (Inr (), V1)" "mixed_after t (bytes f) [d] V V1"
    using mx_send_one [of os t "bytes f" V d] Cons.prems(2) by auto
  have "\<forall>e\<in>set ds. reachable os t (bytes f) V1 e" using reachable_after [OF 1(2)] Cons.prems(2) by simp
  then obtain V2 where 2: "mx_deliver_spec os t src f ds V1 = (Inr (), map (\<lambda>d. OnForward src d f) ds, V2)"
    "mixed_after t (bytes f) ds V1 V2" using Cons.IH Cons.prems(1) by fastforce
  have "mixed_after t (bytes f) ([d] @ ds) V V2" by (rule mixed_after_trans [OF 1(2) 2(2)]) (use Cons.prems(1) in simp)
  then show ?case using 1(1) 2(1) by simp
qed

text \<open>A transport on which nothing waits.\<close>

definition idle :: "PeerAddressKind \<Rightarrow> MixedView \<Rightarrow> bool" where
  "idle kd V \<longleftrightarrow> (case kd of
     ShmRing \<Rightarrow> (\<forall>L. mv_shm V = Some L \<longrightarrow> (\<forall>u\<in>set (v_peers L). v_in u = []))
   | UdsPath \<Rightarrow> (\<forall>v. mv_uds V = Some v \<longrightarrow> v_inbox v = [])
   | UdpEndpoint \<Rightarrow> (\<forall>v. mv_udp V = Some v \<longrightarrow> v_inbox v = []))"

lemma receive_none: "\<forall>u\<in>set vs. v_in u = [] \<Longrightarrow> receive_spec vs mt = (Inr None, vs, mt)"
  by (induction vs) simp_all

lemma idle_receive: "idle kd V \<Longrightarrow> mx_receive_spec t kd V = (Inr None, V)"
  by (cases kd) (auto simp: idle_def mx_receive_spec_def dg_receive_spec_def receive_none split: option.split)

lemma idle_poll: "idle kd V \<Longrightarrow> mx_poll_spec os t ts rules kd V = (Inr False, [], V)"
  by (simp add: mx_poll_spec_def idle_receive)

lemma idle_polls: "\<forall>kd\<in>set kds. idle kd V \<Longrightarrow> mx_polls_spec os t ts rules kds V = (Inr False, [], V)"
  by (induction kds) (simp_all add: idle_poll)

lemma idle_after: "mixed_after t x ds V V' \<Longrightarrow> idle kd V \<Longrightarrow> idle kd V'"
proof (cases kd)
  case ShmRing
  assume a: "mixed_after t x ds V V'" "idle kd V"
  have keep: "v_in (deliver fl x u) = v_in u" for fl u by (simp add: deliver_def)
  show ?thesis
    using a ShmRing keep by (cases "mv_shm V") (auto simp: mixed_after_def shm_after_def idle_def)
next
  case UdsPath
  then show "mixed_after t x ds V V' \<Longrightarrow> idle kd V \<Longrightarrow> idle kd V'"
    by (cases "mv_uds V") (auto simp: mixed_after_def dg_after_def idle_def)
next
  case UdpEndpoint
  then show "mixed_after t x ds V V' \<Longrightarrow> idle kd V \<Longrightarrow> idle kd V'"
    by (cases "mv_udp V") (auto simp: mixed_after_def dg_after_def idle_def)
qed

text \<open>A turn in which one frame waits, on one transport: after it has been taken, nothing waits.\<close>

lemma turn_delivers:
  assumes "mx_receive_spec t kd V = (Inr (Some (p, x)), V1)" "\<And>kd'. kd' \<noteq> kd \<Longrightarrow> idle kd' V" "\<And>kd'. idle kd' V1"
    "g = stamp p ts x" "ds = targets_list (route_targets_for rules p (topic_id g))" "distinct ds"
    "\<forall>d\<in>set ds. reachable os t (bytes g) V1 d" "distinct kds" "kd \<in> set kds"
  shows "\<exists>V'. mx_polls_spec os t ts rules kds V = (Inr True, map (\<lambda>d. OnForward p d g) ds, V') \<and> mixed_after t (bytes g) ds V1 V'"
proof -
  obtain V' where dl: "mx_deliver_spec os t p g ds V1 = (Inr (), map (\<lambda>d. OnForward p d g) ds, V')" "mixed_after t (bytes g) ds V1 V'"
    using mx_deliver_all [OF assms(6,7)] by blast
  have poll: "mx_poll_spec os t ts rules kd V = (Inr True, map (\<lambda>d. OnForward p d g) ds, V')"
    using dl(1) by (simp add: mx_poll_spec_def assms(1) assms(4) [symmetric] assms(5) [symmetric] Let_def)
  have rest: "mx_polls_spec os t ts rules es V' = (Inr False, [], V')" for es
    by (rule idle_polls) (use idle_after [OF dl(2) assms(3)] in blast)
  have "mx_polls_spec os t ts rules kds V = (Inr True, map (\<lambda>d. OnForward p d g) ds, V')"
    using assms(8,9)
  proof (induction kds)
    case (Cons k kds)
    show ?case
    proof (cases "k = kd")
      case True
      then show ?thesis by (simp add: poll rest)
    next
      case False
      then show ?thesis using Cons idle_poll [OF assms(2) [OF False]] by simp
    qed
  qed simp
  then show ?thesis using dl(2) by blast
qed

section \<open>A destination that cannot be delivered to\<close>

lemma mx_deliver_spec_append:
  "mx_deliver_spec os t src f xs V = (Inr u, ev, V1) \<Longrightarrow>
   mx_deliver_spec os t src f (xs @ ys) V = (case mx_deliver_spec os t src f ys V1 of (r, ev2, V2) \<Rightarrow> (r, ev @ ev2, V2))"
  by (induction xs arbitrary: V ev) (auto split: sum.splits prod.splits)

lemma poll_all_append:
  "poll_all os xs f ts rules s = (Inr did, ev, f1, s1) \<Longrightarrow> poll_all os ys f1 ts rules s1 = (Inl e, ev2, f2, s2) \<Longrightarrow>
   poll_all os (xs @ ys) f ts rules s = (Inl e, ev @ ev2, f2, s2)"
  by (induction xs arbitrary: f s did ev) (auto split: sum.splits prod.splits)

text \<open>What a datagram link raises when the kernel, or the missing address, refuses a copy.\<close>

definition send_refusal :: "PeerEntry \<Rightarrow> error" where
  "send_refusal e = RuntimeError (case local_addr e of
     peer_uds _ \<Rightarrow> ''uds sendto failed''
   | peer_udp h _ \<Rightarrow> if inet_pton h = None then ''invalid host'' else ''udp sendto failed''
   | peer_shm _ \<Rightarrow> [])"

lemma mx_send_spec_refused:
  assumes "peer_by_id t d = Some e" "kind (local_addr e) \<noteq> ShmRing" "\<not> sendable os t x d"
    "kind (local_addr e) = UdsPath \<Longrightarrow> mv_uds V \<noteq> None" "kind (local_addr e) = UdpEndpoint \<Longrightarrow> mv_udp V \<noteq> None"
  shows "mx_send_spec os t x d V = (Inl (send_refusal e), V)"
proof (cases "local_addr e")
  case (peer_uds p)
  then obtain v where "mv_uds V = Some v" using assms(4) by auto
  then show ?thesis using assms(1,3) peer_uds
    by (simp add: mx_send_spec_def at_uds_def dg_send_spec_def send_refusal_def sendable_def)
next
  case (peer_udp h p)
  then obtain v where "mv_udp V = Some v" using assms(5) by auto
  then show ?thesis using assms(1,3) peer_udp
    by (auto simp: mx_send_spec_def at_udp_def dg_send_spec_def send_refusal_def sendable_def split: option.splits)
qed (use assms(2) in simp)

lemma mx_deliver_refused:
  assumes "mx_inv (length (ds1 @ d # ds2) + n) s" "wf_frame g" "distinct ds1"
    "\<forall>c\<in>set ds1. reachable os (mx_topo (fst s)) (bytes g) (mixed_view s) c"
    "peer_by_id (mx_topo (fst s)) d = Some e" "kind (local_addr e) \<noteq> ShmRing" "\<not> sendable os (mx_topo (fst s)) (bytes g) d"
  shows "\<exists>s'. mx_deliver os p g (ds1 @ d # ds2) s = (Inl (send_refusal e), map (\<lambda>c. OnForward p c g) ds1, s')
    \<and> mixed_after (mx_topo (fst s)) (bytes g) ds1 (mixed_view s) (mixed_view s')"
proof -
  obtain m w k where s: "s = (m, w, k)" by (rule prod_cases3)
  let ?t = "mx_topo (fst s)"
  obtain V1 where V1: "mx_deliver_spec os ?t p g ds1 (mixed_view s) = (Inr (), map (\<lambda>c. OnForward p c g) ds1, V1)"
    "mixed_after ?t (bytes g) ds1 (mixed_view s) V1"
    using mx_deliver_all [OF assms(3,4)] by blast
  have "e \<in> set (peers (mx_topo m))" using assms(5) by (auto simp: s lookup_defs dest: find_Some_in)
  moreover have "dispatch_ok m" using assms(1) by (simp add: s mx_inv_def)
  ultimately have "kind (local_addr e) = UdsPath \<Longrightarrow> uds_link m \<noteq> None" "kind (local_addr e) = UdpEndpoint \<Longrightarrow> udp_link m \<noteq> None"
    by (auto simp: dispatch_ok_def)
  then have "kind (local_addr e) = UdsPath \<Longrightarrow> mv_uds (mixed_view s) \<noteq> None"
    "kind (local_addr e) = UdpEndpoint \<Longrightarrow> mv_udp (mixed_view s) \<noteq> None"
    by (simp_all add: s mixed_view_def)
  then have "kind (local_addr e) = UdsPath \<Longrightarrow> mv_uds V1 \<noteq> None" "kind (local_addr e) = UdpEndpoint \<Longrightarrow> mv_udp V1 \<noteq> None"
    using V1(2) by (auto simp: mixed_after_def dg_after_def)
  from mx_send_spec_refused [OF assms(5-7) this]
  have spec: "mx_deliver_spec os ?t p g (ds1 @ d # ds2) (mixed_view s)
      = (Inl (send_refusal e), map (\<lambda>c. OnForward p c g) ds1, V1)"
    by (simp add: mx_deliver_spec_append [OF V1(1)])
  obtain r ev s' where dl: "mx_deliver os p g (ds1 @ d # ds2) s = (r, ev, s')" by (rule prod_cases3)
  from mx_deliver_refines [OF assms(1,2) dl] spec V1(2) dl show ?thesis by simp
qed

text \<open>
  C37: one destination that cannot be delivered to ends a mixed router. Take the loop in any state
  of a server that came up, in any turn in which the stop flag is not set: whatever the transports polled
  before did, when the poll of a transport of any kind receives a frame whose rule lists, after any
  number of destinations that can be reached, a datagram peer that the kernel does not accept the
  copy for (its process is not running, say) or whose host is no address, then the run ends there
  by raising the error of that send. The earlier destinations have got their copies and were
  reported; the later ones get nothing, and the transports after it are not polled.
\<close>

theorem mixed_unreachable_peer_ends_run:
  assumes "mx_inv (3 * kMaxRouteDests) s" "mx_topo (fst s) = t" "wf_frame h" "\<not> stop_flag env i"
    "earlier @ kd # later = [ShmRing, UdsPath, UdpEndpoint]"
    "poll_all os earlier h (now_ns env i) rules s = (Inr did, evs, f0, s0)"
    "mx_receive kd f0 (now_ns env i) s0 = (Some (Inr p, g), s1)" "p \<noteq> kEndpointInvalid"
    "targets_list (route_targets_for rules p (topic_id g)) = ds1 @ d # ds2" "distinct ds1"
    "\<forall>c\<in>set ds1. reachable os t (bytes g) (mixed_view s1) c"
    "peer_by_id t d = Some e" "kind (local_addr e) \<noteq> ShmRing" "\<not> sendable os t (bytes g) d"
  shows "\<exists>s'. mixed_loop os env opts rules (Suc fuel) i prev h s =
      (Raised (send_refusal e), evs @ map (\<lambda>c. OnForward p c g) ds1, s')
    \<and> mixed_after t (bytes g) ds1 (mixed_view s1) (mixed_view s')"
proof -
  let ?ts = "now_ns env i"
  have len: "length earlier \<le> 2" using arg_cong [OF assms(5), of length] by simp
  then have "length earlier = 0 \<or> length earlier = 1 \<or> length earlier = 2" by linarith
  then have "(2 - length earlier) * kMaxRouteDests + (length earlier * kMaxRouteDests + kMaxRouteDests) = 3 * kMaxRouteDests"
    by (elim disjE) simp_all
  then have "mx_inv ((2 - length earlier) * kMaxRouteDests + (length earlier * kMaxRouteDests + kMaxRouteDests)) s"
    using assms(1) by (simp only:)
  from poll_all_refines [OF mx_inv_weaken [OF this] assms(3,6)]
  have s0: "mx_inv (kMaxRouteDests + 0) s0" "wf_frame f0" "mx_topo (fst s0) = t" using assms(2) by simp_all
  from mx_receive_refines [OF s0(1,2) assms(7)]
  have s1: "mx_inv (kMaxRouteDests + 0) s1" "mx_topo (fst s1) = t" "wf_frame g" using s0(3) by auto
  have "length (ds1 @ d # ds2) \<le> kMaxRouteDests"
    unfolding assms(9) [symmetric] by (rule targets_at_most)
  then have "mx_inv ((kMaxRouteDests - length (ds1 @ d # ds2)) + (length (ds1 @ d # ds2) + 0)) s1"
    using s1(1) by simp
  then have "mx_inv (length (ds1 @ d # ds2) + 0) s1" by (rule mx_inv_weaken)
  from mx_deliver_refused [OF this s1(3) assms(10), unfolded s1(2), OF assms(11-14), of p]
  obtain s' where dl: "mx_deliver os p g (ds1 @ d # ds2) s1 = (Inl (send_refusal e), map (\<lambda>c. OnForward p c g) ds1, s')"
    "mixed_after t (bytes g) ds1 (mixed_view s1) (mixed_view s')" by blast
  have "poll_all os (kd # later) f0 ?ts rules s0 = (Inl (send_refusal e), map (\<lambda>c. OnForward p c g) ds1, g, s')"
    using assms(7,8) dl(1) by (simp add: poll_link_def assms(9))
  from poll_all_append [OF assms(6) this]
  have "poll_all os [ShmRing, UdsPath, UdpEndpoint] h ?ts rules s
      = (Inl (send_refusal e), evs @ map (\<lambda>c. OnForward p c g) ds1, g, s')"
    unfolding assms(5) .
  then show ?thesis using dl(2) assms(4) by (simp del: poll_all.simps)
qed

text \<open>The destination after one that nobody declares: the first is reported, the second ends the run.\<close>

definition lost_rules :: "RouteRule list" where
  "lost_rules = [\<lparr>rule_source = 1, dest_count = 2, rule_topic = 0xFFFF, dest = [7, 4, 0, 0, 0, 0, 0, 0]\<rparr>]"

theorem mixed_unreachable_peer_ends_run_witness:
  "\<exists>s'. mixed_loop (demo_os\<lparr>send_ok := \<lambda>_ _. False\<rparr>) demo_env RouterRunOptions_default lost_rules 1 0 0 RouterFrame_default
      (demo_mixed, empty_world, demo_kernel\<lparr>socks := [3 \<mapsto> demo_sock]\<rparr>)
    = (Raised (RuntimeError ''uds sendto failed''), [OnForward 1 7 demo_stamped], s')"
proof -
  let ?k = "demo_kernel\<lparr>socks := [3 \<mapsto> demo_sock]\<rparr>" and ?os = "demo_os\<lparr>send_ok := \<lambda>_ _. False\<rparr>"
  let ?s = "(demo_mixed, empty_world, ?k)" and ?m = "demo_mixed\<lparr>uds_link := Some demo_dg_link\<rparr>"
  let ?k1 = "put_sock 3 (demo_sock\<lparr>sk_inbox := []\<rparr>) ?k"
  have l: "fd (dl_endpoint demo_dg_link) = 3" by (simp add: demo_dg_link_def)
  have k: "socks ?k (fd (dl_endpoint demo_dg_link)) = Some demo_sock"
    "sk_inbox demo_sock = Arrived (Some (SockUn ''/tmp/a'')) demo_frame # []"
    "length demo_frame \<ge> kRouterFrameSize"
    by (simp_all add: l demo_sock_def demo_frame_length)
  have wf: "wf_frame RouterFrame_default" by (simp add: wf_frame_def RouterFrame_default_def)
  have now: "now_ns demo_env 0 = 5" "\<not> stop_flag demo_env 0" by (simp_all add: demo_env_def)
  have "dg_try_receive UdsT RouterFrame_default 5 (demo_dg_link, ?k) = (Inr 1, demo_stamped, (demo_dg_link, ?k1))"
    using dg_try_receive_arrived [OF wf k demo_source, of 5] by (simp add: demo_stamped_def l)
  then have rcv: "mx_receive UdsPath RouterFrame_default (now_ns demo_env 0) ?s = (Some (Inr 1, demo_stamped), (?m, empty_world, ?k1))"
    by (simp add: mx_receive_def on_uds_def demo_mixed_tables now)
  have idle: "poll_all ?os [ShmRing] RouterFrame_default (now_ns demo_env 0) lost_rules ?s = (Inr False, [], RouterFrame_default, ?s)"
    by (simp add: poll_link_def mx_receive_def demo_mixed_tables)
  have inv: "mx_inv (3 * kMaxRouteDests) ?s" by (rule demo_mixed_inv)
  have topo: "mx_topo (fst ?s) = demo_dg_topology" by (simp add: demo_mixed_def)
  have kds: "[ShmRing] @ UdsPath # [UdpEndpoint] = [ShmRing, UdsPath, UdpEndpoint]" by simp
  have tg: "targets_list (route_targets_for lost_rules 1 (topic_id demo_stamped)) = [7] @ 4 # []"
  proof -
    have "\<forall>r\<in>set lost_rules. wf_rule r" by (simp add: lost_rules_def wf_rule_def kMaxRouteDests_def)
    from route_targets_spec [OF this] show ?thesis
      by (simp add: lost_rules_def route_spec_def rule_matches_def rule_dests_def kRouteTopicAny_def)
  qed
  have one: "(1 :: u8) \<noteq> kEndpointInvalid" by (simp add: kEndpointInvalid_def)
  have first: "\<forall>c\<in>set [7]. reachable ?os demo_dg_topology (bytes demo_stamped) (mixed_view (?m, empty_world, ?k1)) c"
    by (simp add: reachable_def transport_of_def demo_dg_topology_def lookup_defs)
  obtain e where e: "peer_by_id demo_dg_topology 4 = Some e" "local_addr e = peer_uds ''/tmp/d''"
    by (simp add: demo_dg_topology_def lookup_defs)
  have nf: "kind (local_addr e) \<noteq> ShmRing" "\<not> sendable ?os demo_dg_topology (bytes demo_stamped) 4"
    using e by (simp_all add: sendable_def)
  have refusal: "send_refusal e = RuntimeError ''uds sendto failed''" using e(2) by (simp add: send_refusal_def)
  have ev: "[] @ map (\<lambda>c. OnForward 1 c demo_stamped) [7] = [OnForward 1 7 demo_stamped]" by simp
  have dist: "distinct [7 :: u8]" by simp
  from mixed_unreachable_peer_ends_run [OF inv topo wf now(2) kds idle rcv one tg dist first e(1) nf,
      of RouterRunOptions_default 0 0, unfolded refusal ev]
  obtain s' where "mixed_loop ?os demo_env RouterRunOptions_default lost_rules (Suc 0) 0 0 RouterFrame_default ?s
      = (Raised (RuntimeError ''uds sendto failed''), [OnForward 1 7 demo_stamped], s')" by blast
  then show ?thesis unfolding One_nat_def by blast
qed

section \<open>Coming up\<close>

lemma dg_server_topo: "dg_server tr os t k = (Inr u, k') \<Longrightarrow> dl_topo u = t"
  by (auto simp: dg_server_def dg_new_def split: prod.splits sum.splits)

lemma mixed_new_topo:
  "MixedRouterServer_new os t k = (Inr m, k') \<Longrightarrow> uds_link m = Some u \<or> udp_link m = Some u \<Longrightarrow> dl_topo u = t"
  by (auto simp: MixedRouterServer_new_def Let_def register_peers_fields split: if_splits prod.splits sum.splits
      dest: dg_server_topo)

text \<open>\<open>bind_router\<close> leaves the tables of the server alone.\<close>

definition same_tables :: "MixedRouterServer \<Rightarrow> mx_state \<Rightarrow> bool" where
  "same_tables m s \<longleftrightarrow> mx_topo (fst s) = mx_topo m \<and> peer_known (fst s) = peer_known m \<and> peer_transport (fst s) = peer_transport m
     \<and> (shm_link (fst s) = None \<longleftrightarrow> shm_link m = None)"

lemma on_link_tables:
  "same_tables m s \<Longrightarrow> shm_link (fst s) = Some l \<Longrightarrow> same_tables m (snd (on_shm l c s))"
  "same_tables m s \<Longrightarrow> same_tables m (snd (on_uds u d s))" "same_tables m s \<Longrightarrow> same_tables m (snd (on_udp u d s))"
  by (cases s; simp add: same_tables_def on_shm_def on_uds_def on_udp_def split: prod.split)+

lemma mx_bind_tables:
  assumes "mx_bind_router sos os (m, w, k) = (r, s')"
  shows "same_tables m s'"
proof -
  define b1 where "b1 = (case shm_link m of None \<Rightarrow> (Inr (), (m, w, k)) | Some l \<Rightarrow> on_shm l (bind_router sos ShmBindParams_default) (m, w, k))"
  have "same_tables m (m, w, k)" by (simp add: same_tables_def)
  then have P1: "same_tables m (snd b1)" by (simp add: b1_def on_link_tables(1) split: option.split)
  obtain y1 s1 where s1: "b1 = (y1, s1)" by (rule prod.exhaust)
  define b2 where "b2 = (case uds_link (fst s1) of None \<Rightarrow> (Inr (), s1)
                 | Some l \<Rightarrow> (case listen_uds (mx_topo (fst s1)) of
                     None \<Rightarrow> (Inl (RuntimeError ''mixed router: uds peers present but no uds router listen''), s1)
                   | Some a \<Rightarrow> on_uds l (dg_bind_router os (UdsBind (uds_path a))) s1))"
  have P2: "same_tables m (snd b2)"
    using P1 by (simp add: b2_def s1 on_link_tables(2) split: option.split)
  obtain y2 s2 where s2: "b2 = (y2, s2)" by (rule prod.exhaust)
  define b3 where "b3 = (case udp_link (fst s2) of None \<Rightarrow> (Inr (), s2)
                | Some l \<Rightarrow> (case listen_udp (mx_topo (fst s2)) of
                    None \<Rightarrow> (Inl (RuntimeError ''mixed router: udp peers present but no udp router listen''), s2)
                  | Some a \<Rightarrow> on_udp l (dg_bind_router os (UdpBind (udp_port a))) s2))"
  have P3: "same_tables m (snd b3)"
    using P2 by (simp add: b3_def s2 on_link_tables(3) split: option.split)
  have "mx_bind_router sos os (m, w, k) = (case y1 of Inl e \<Rightarrow> (Inl e, s1) | Inr _ \<Rightarrow> (case y2 of Inl e \<Rightarrow> (Inl e, s2) | Inr _ \<Rightarrow> b3))"
    unfolding mx_bind_router_def fst_conv b1_def [symmetric] s1 prod.case b2_def [symmetric] s2 b3_def [symmetric] by (rule refl)
  then have "same_tables m (snd (mx_bind_router sos os (m, w, k)))"
    using P1 P2 P3 by (simp add: s1 s2 split: sum.split)
  then show ?thesis by (simp only: assms snd_conv)
qed

text \<open>The state of a mixed router that has come up: served peers, nothing waiting, nothing sent.\<close>

definition fresh_dg :: "MixedView \<Rightarrow> bool" where
  "fresh_dg V \<longleftrightarrow> (\<forall>v. mv_uds V = Some v \<longrightarrow> v_inbox v = [] \<and> v_outbox v = [])
     \<and> (\<forall>v. mv_udp V = Some v \<longrightarrow> v_inbox v = [] \<and> v_outbox v = [])"

lemma mixed_comes_up:
  assumes "load_topology_from_toml_file parse_file path = Inr lt"
    "distinct (map ring_name (filter is_shm (lt_peers lt)))" "world_ok w" "\<And>n. shm_os_ok (sos n)"
    "socket_ok os" "setsockopt_ok os" "\<And>a. bind_allowed os a" "n < 2 ^ 64"
  obtains m k1 m' w1 k2 where "make_mixed_router_server os (view lt) k = (Inr m, k1)"
    "mx_bind_router sos os (m, w, k1) = (Inr (), (m', w1, k2))" "mx_inv n (m', w1, k2)" "mx_topo m' = view lt"
    "fresh_dg (mixed_view (m', w1, k2))" "\<exists>e\<in>set (lt_peers lt). is_shm e \<Longrightarrow> shm_served lt n m' w1"
proof -
  note ok = from_file.load_ok [OF assms(1)]
  have ids: "distinct (map peer_id (peers (view lt)))" using ok by (simp add: loaded_ok_def peers_ok_def view_def)
  obtain m k1 where m: "MixedRouterServer_new os (view lt) k = (Inr m, k1)"
    "\<And>l. shm_link m = Some l \<Longrightarrow> l = ShmRouterLink_server (view lt)"
    "\<And>u. uds_link m = Some u \<Longrightarrow> fresh_link k1 u" "\<And>u. udp_link m = Some u \<Longrightarrow> fresh_link k1 u"
    "\<And>u v. uds_link m = Some u \<Longrightarrow> udp_link m = Some v \<Longrightarrow> fd (dl_endpoint u) \<noteq> fd (dl_endpoint v)"
    using new_links [OF assms(5), of "view lt" k] by metis
  have t: "dispatch_ok m" "mx_topo m = view lt" using new_dispatch_ok [OF m(1) ids] by simp_all
  have links: "shm_link m \<noteq> None \<longleftrightarrow> (\<exists>e\<in>set (lt_peers lt). is_shm e)"
    "uds_link m \<noteq> None \<longleftrightarrow> (\<exists>e\<in>set (lt_peers lt). kind (local_addr e) = UdsPath)"
    "udp_link m \<noteq> None \<longleftrightarrow> (\<exists>e\<in>set (lt_peers lt). kind (local_addr e) = UdpEndpoint)"
    using t(1) unfolding dispatch_ok_def t(2) view_def by simp_all
  obtain m3 w1 k3 where b: "mx_bind_router sos os (m, w, k1) = (Inr (), (m3, w1, k3))"
    "uds_link m3 = uds_link m" "udp_link m3 = udp_link m"
    "\<And>u a. uds_link m = Some u \<Longrightarrow> lt_listen_uds lt = Some a \<Longrightarrow>
       socks k3 (fd (dl_endpoint u)) = Some (Sock_new\<lparr>sk_bound := Some (listen_sockaddr a)\<rparr>)"
    "\<And>u a. udp_link m = Some u \<Longrightarrow> lt_listen_udp lt = Some a \<Longrightarrow>
       socks k3 (fd (dl_endpoint u)) = Some (Sock_new\<lparr>sk_bound := Some (listen_sockaddr a)\<rparr>)"
    "\<exists>e\<in>set (lt_peers lt). is_shm e \<Longrightarrow> shm_served lt n m3 w1"
    by (rule mixed_binds [where w = w and sos = sos, OF ok assms(2-4,6,7) m(2-5) t(2) links assms(8)]) (assumption | rule that, (assumption | blast)+)+
  have tables: "mx_topo m3 = mx_topo m" "peer_known m3 = peer_known m" "peer_transport m3 = peer_transport m"
    "shm_link m3 = None \<longleftrightarrow> shm_link m = None"
    using mx_bind_tables [OF b(1)] by (simp_all add: same_tables_def)
  note listen = listens_declared [OF ok]
  have uds: "\<exists>a. socks k3 (fd (dl_endpoint u)) = Some (Sock_new\<lparr>sk_bound := a\<rparr>)" if "uds_link m = Some u" for u
    using listen(1) links(2) b(4) that by fastforce
  have udp: "\<exists>a. socks k3 (fd (dl_endpoint u)) = Some (Sock_new\<lparr>sk_bound := a\<rparr>)" if "udp_link m = Some u" for u
    using listen(2) links(3) b(5) that by fastforce
  have disp: "dispatch_ok m3" using t(1) unfolding dispatch_ok_def tables b(2,3) by simp
  have "link_inv n (l, w1)" if l: "shm_link m3 = Some l" for l
  proof -
    have "\<exists>e\<in>set (lt_peers lt). is_shm e" using links(1) tables(4) l by simp
    from b(6) [OF this] l show ?thesis by (auto simp: shm_served_def)
  qed
  moreover have sv: "serves (view lt) k3 (uds_link m3)" "serves (view lt) k3 (udp_link m3)"
  proof -
    have "serves (view lt) k3 y"
      if "\<And>u. y = Some u \<Longrightarrow> \<exists>a. socks k3 (fd (dl_endpoint u)) = Some (Sock_new\<lparr>sk_bound := a\<rparr>)" "\<And>u. y = Some u \<Longrightarrow> dl_topo u = view lt" for y
    proof (cases y)
      case (Some u)
      then show ?thesis using that(1) [OF Some] that(2) [OF Some] by (auto simp: serves_def)
    qed (simp add: serves_def)
    from this [of "uds_link m"] this [of "udp_link m"]
    show "serves (view lt) k3 (uds_link m3)" "serves (view lt) k3 (udp_link m3)"
      using uds udp mixed_new_topo [OF m(1)] by (simp_all add: b(2,3))
  qed
  ultimately have inv: "mx_inv n (m3, w1, k3)" using disp m(5) unfolding mx_inv_def prod.case b(2,3) tables(1) t(2) by blast
  have "v_inbox (dg_view k3 u) = [] \<and> v_outbox (dg_view k3 u) = []" if "uds_link m = Some u \<or> udp_link m = Some u" for u
    using uds [of u] udp [of u] that by (auto simp: dg_view_def Sock_new_def)
  then have "fresh_dg (mixed_view (m3, w1, k3))"
    by (auto simp: fresh_dg_def mixed_view_simps b(2,3))
  moreover have "make_mixed_router_server os (view lt) k = (Inr m, k1)" by (simp add: make_mixed_router_server_def m(1))
  moreover have "mx_topo m3 = view lt" by (simp only: tables(1) t(2))
  ultimately show thesis using that b(1,6) inv by blast
qed

text \<open>A client of a shared-memory peer joins the rings of its channel.\<close>

lemma served_client:
  assumes "loaded_ok lt" "shm_served lt n m w" "e \<in> set (lt_peers lt)" "is_shm e" "shm_os_ok os"
  obtains l c cl where "shm_link m = Some l" "link_inv n (l, w)" "c \<in> set (peer_channels l)" "chan_peer_id c = peer_id e"
    "make_shm_router_client os (view lt) (peer_id e) w = (Inr cl, w)" "client_of c cl" "fresh_chan w c"
    "list_all (fresh_chan w) (peer_channels l)" "priority_drop_floor l = 0"
proof -
  obtain l where l: "shm_link m = Some l" "link_inv n (l, w)" "priority_drop_floor l = 0"
    "map chan_peer_id (peer_channels l) = map peer_id (filter is_shm (lt_peers lt))"
    "bound_to w (filter is_shm (lt_peers lt)) (peer_channels l)" "list_all (fresh_chan w) (peer_channels l)"
    using assms(2) unfolding shm_served_def by blast
  have "peer_id e \<in> chan_peer_id ` set (peer_channels l)"
    using arg_cong [OF l(4), of set] assms(3,4) by (simp add: list.set_map)
  then obtain c where c: "c \<in> set (peer_channels l)" "chan_peer_id c = peer_id e" by auto
  have ids: "distinct (map peer_id (peers (view lt)))" using assms(1) by (simp add: loaded_ok_def peers_ok_def view_def)
  have "chans_ok n w (peer_channels l)" using l(2) by (simp add: link_inv_def)
  moreover have "bound_to w (filter is_shm (peers (view lt))) (peer_channels l)" using l(5) by (simp add: view_def)
  ultimately obtain cl where "ShmRouterLink_client os (view lt) (chan_peer_id c) w = (Inr cl, w)" "client_of c cl"
    using clients_join [OF assms(5) ids _ _ c(1)] by blast
  moreover have "fresh_chan w c" using l(6) c(1) by (simp add: list_all_iff)
  ultimately show thesis
    using that [OF l(1,2) c] l(3,6) by (simp add: make_shm_router_client_def ShmRouterClient_new_def c(2))
qed

section \<open>A turn on the rings and sockets\<close>

lemma mixed_turn:
  assumes "mx_inv (3 * kMaxRouteDests + n) (m, w2, k2)" "mx_topo m = t" "wf_frame h"
    "mx_receive_spec t kd (mixed_view (m, w2, k2)) = (Inr (Some (p, x)), V1)"
    "\<And>kd'. kd' \<noteq> kd \<Longrightarrow> idle kd' (mixed_view (m, w2, k2))" "\<And>kd'. idle kd' V1"
    "g = stamp p ts x" "ds = targets_list (route_targets_for rules p (topic_id g))" "distinct ds"
    "\<forall>d\<in>set ds. reachable os t (bytes g) V1 d"
  obtains f' m3 w3 k3 where
    "poll_all os [ShmRing, UdsPath, UdpEndpoint] h ts rules (m, w2, k2) = (Inr True, map (\<lambda>d. OnForward p d g) ds, f', (m3, w3, k3))"
    "mx_inv n (m3, w3, k3)" "mixed_after t (bytes g) ds V1 (mixed_view (m3, w3, k3))" "mx_tame (m, w2, k2) (m3, w3, k3)"
proof -
  let ?kds = "[ShmRing, UdsPath, UdpEndpoint]"
  obtain r ev f' s3 where run: "poll_all os ?kds h ts rules (m, w2, k2) = (r, ev, f', s3)" by (rule prod_cases4)
  obtain m3 w3 k3 where s3: "s3 = (m3, w3, k3)" by (rule prod_cases3)
  have "mx_inv (length ?kds * kMaxRouteDests + n) (m, w2, k2)" using assms(1) by (simp add: numeral_3_eq_3)
  note sim = poll_all_refines [OF this assms(3) run, unfolded fst_conv assms(2) s3]
  have "distinct ?kds" "kd \<in> set ?kds" by (cases kd; simp)+
  from turn_delivers [OF assms(4-10) this]
  have "r = Inr True" "ev = map (\<lambda>d. OnForward p d g) ds" "mixed_after t (bytes g) ds V1 (mixed_view (m3, w3, k3))"
    using sim by auto
  moreover have "mx_tame (m, w2, k2) (m3, w3, k3)" using poll_all_tame [of "(m, w2, k2)" os ?kds h ts rules]
    unfolding run s3 snd_conv .
  ultimately show thesis using that [of f' m3 w3 k3] run sim by (simp add: s3)
qed

text \<open>What a shared-memory destination receives, and what the sockets have sent.\<close>

lemma ring_outcome:
  assumes "mixed_after t (bytes g) ds (mixed_view (m, w1, k1)) (mixed_view (m3, w3, k3))" "mx_tame (m, w2, k2) (m3, w3, k3)"
    "mx_inv n (m3, w3, k3)" "shm_link m = Some l" "c \<in> set (peer_channels l)" "client_of c cl" "fresh_chan w1 c"
    "chan_peer_id c \<in> set (on_transport t ShmRing ds)" "wf_frame g" "wf_frame h"
  obtains w4 where "recv_message h (cl, w3) = (Inr True, g, (cl, w4))"
proof -
  have "map_option chan_ends (shm_link m3) = Some (chan_ends l)" using assms(2,4) by (simp add: mx_tame_def)
  then obtain l3 where l3: "shm_link m3 = Some l3" "chan_ends l3 = chan_ends l" by auto
  have inv: "link_inv n (l3, w3)" using assms(3) l3(1) by (simp add: mx_inv_def)
  let ?V = "\<lambda>c. if chan_peer_id c \<in> set (on_transport t ShmRing ds) then deliver (priority_drop_floor l) (bytes g) (view_of w1 c) else view_of w1 c"
  have "v_peers (link_view (l3, w3)) = map (\<lambda>u. if v_id u \<in> set (on_transport t ShmRing ds)
      then deliver (priority_drop_floor l) (bytes g) u else u) (map (view_of w1) (peer_channels l))"
    using assms(1,4) l3(1) by (simp add: mixed_after_def mixed_view_simps shm_after_def link_view_def)
  then have vs: "map (view_of w3) (peer_channels l3) = map ?V (peer_channels l)" by (simp add: link_view_def comp_def)
  have fresh: "out_q w1 c = []" "\<not> congested c" "0 < slot_count (region_of c)"
    using assms(7) slots_positive by (auto simp: fresh_chan_def)
  have hit: "?V c = deliver (priority_drop_floor l) (bytes g) (view_of w1 c)" using assms(8) by simp
  show thesis by (rule frame_received [OF inv l3(2) assms(5,6) vs hit fresh assms(9,10)]) (rule that)
qed

lemma sent_by:
  assumes "dg_after c (map_option (dg_view k1) y) (map_option (dg_view k3) z)" "y = Some u"
    "map_option dl_endpoint z = map_option dl_endpoint y" "v_outbox (dg_view k1 u) = []" "serves t k3 z"
  shows "map_option sk_outbox (socks k3 (fd (dl_endpoint u))) = Some c"
proof -
  obtain v where v: "z = Some v" "dl_endpoint v = dl_endpoint u" using assms(2,3) by auto
  have "v_outbox (dg_view k3 v) = c" using assms(1,2,4) v(1) by (simp add: dg_after_def)
  moreover obtain sk where "socks k3 (fd (dl_endpoint v)) = Some sk" using assms(5) v(1) by (auto simp: serves_def)
  ultimately show ?thesis using v(2) by (simp add: dg_view_def)
qed

lemma socket_outcome:
  assumes "mixed_after t x ds (mixed_view (m, w1, k1)) (mixed_view (m3, w3, k3))" "mx_tame (m, w2, k2) (m3, w3, k3)"
    "mx_inv n (m3, w3, k3)" "fresh_dg (mixed_view (m, w1, k1))"
  shows "uds_link m = Some u \<Longrightarrow> map_option sk_outbox (socks k3 (fd (dl_endpoint u))) = Some (copies t x (on_transport t UdsPath ds))"
    "udp_link m = Some u \<Longrightarrow> map_option sk_outbox (socks k3 (fd (dl_endpoint u))) = Some (copies t x (on_transport t UdpEndpoint ds))"
proof -
  have after: "dg_after (copies t x (on_transport t UdsPath ds)) (map_option (dg_view k1) (uds_link m)) (map_option (dg_view k3) (uds_link m3))"
    "dg_after (copies t x (on_transport t UdpEndpoint ds)) (map_option (dg_view k1) (udp_link m)) (map_option (dg_view k3) (udp_link m3))"
    using assms(1) unfolding mixed_after_def mixed_view_simps by simp_all
  have ends: "map_option dl_endpoint (uds_link m3) = map_option dl_endpoint (uds_link m)"
    "map_option dl_endpoint (udp_link m3) = map_option dl_endpoint (udp_link m)"
    using assms(2) unfolding mx_tame_def fst_conv by simp_all
  have sv: "serves (mx_topo m3) k3 (uds_link m3)" "serves (mx_topo m3) k3 (udp_link m3)"
    using assms(3) unfolding mx_inv_def prod.case by simp_all
  show "uds_link m = Some u \<Longrightarrow> map_option sk_outbox (socks k3 (fd (dl_endpoint u))) = Some (copies t x (on_transport t UdsPath ds))"
    by (rule sent_by [OF after(1) _ ends(1) _ sv(1)]) (use assms(4) in \<open>simp_all add: fresh_dg_def mixed_view_simps\<close>)
  show "udp_link m = Some u \<Longrightarrow> map_option sk_outbox (socks k3 (fd (dl_endpoint u))) = Some (copies t x (on_transport t UdpEndpoint ds))"
    by (rule sent_by [OF after(2) _ ends(2) _ sv(2)]) (use assms(4) in \<open>simp_all add: fresh_dg_def mixed_view_simps\<close>)
qed

section \<open>From a profile\<close>

lemma loaded_transport:
  assumes "load_topology_from_toml_file parse_file path = Inr lt" "e \<in> set (lt_peers lt)"
  shows "transport_of (view lt) (peer_id e) = Some (kind (local_addr e))"
  using from_file.peer_found [OF assms] by (simp add: transport_of_def)

lemma idle_fresh:
  assumes "fresh_dg (mixed_view (m, w, k))" "\<And>l. shm_link m = Some l \<Longrightarrow> list_all (fresh_chan w) (peer_channels l)"
  shows "idle kd (mixed_view (m, w, k))"
proof (cases kd)
  case ShmRing
  have "\<forall>u\<in>set (v_peers (link_view (l, w))). v_in u = []" if "shm_link m = Some l" for l
    using assms(2) [OF that] by (auto simp: link_view_def view_of_def list_all_iff fresh_chan_def)
  then show ?thesis using ShmRing by (auto simp: idle_def mixed_view_simps)
qed (use assms(1) in \<open>auto simp: idle_def fresh_dg_def\<close>)

text \<open>Whatever a rule of the profile names can be reached, if the kernel takes the datagrams.\<close>

lemma routes_reachable:
  assumes "load_topology_from_toml_file parse_file path = Inr lt" "mx_inv n (m, w, k)" "mx_topo m = view lt"
    "\<exists>e\<in>set (lt_peers lt). is_shm e \<Longrightarrow> shm_served lt n m w" "d \<in> set (route_spec (lt_routes lt) src topic)"
    "\<forall>e\<in>set (lt_peers lt). peer_id e = d \<longrightarrow> \<not> is_shm e \<longrightarrow> sendable os (view lt) x d"
  shows "reachable os (view lt) x (mixed_view (m, w, k)) d"
proof -
  obtain e where e: "e \<in> set (lt_peers lt)" "peer_id e = d" using from_file.routes_closed [OF assms(1,5)] by blast
  note kd = loaded_transport [OF assms(1) e(1), unfolded e(2)]
  have disp: "dispatch_ok m" using assms(2) by (simp add: mx_inv_def)
  have peers: "peers (mx_topo m) = lt_peers lt" by (simp add: assms(3) view_def)
  show ?thesis
  proof (cases "kind (local_addr e)")
    case ShmRing
    obtain l where l: "shm_link m = Some l" "map chan_peer_id (peer_channels l) = map peer_id (filter is_shm (lt_peers lt))"
      using assms(4) [OF bexI [where x = e and P = is_shm, OF ShmRing e(1)]] unfolding shm_served_def by blast
    have "d \<in> chan_peer_id ` set (peer_channels l)"
      using arg_cong [OF l(2), of set] e ShmRing by (auto simp: list.set_map)
    then have "d \<in> v_id ` set (v_peers (link_view (l, w)))" by (auto simp: link_view_def image_image)
    then show ?thesis using kd ShmRing l(1) by (simp add: reachable_def mixed_view_simps)
  next
    case UdsPath
    then have "uds_link m \<noteq> None" using disp e(1) peers by (auto simp: dispatch_ok_def)
    then show ?thesis using kd UdsPath assms(6) e by (auto simp: reachable_def mixed_view_simps)
  next
    case UdpEndpoint
    then have "udp_link m \<noteq> None" using disp e(1) peers by (auto simp: dispatch_ok_def)
    then show ?thesis using kd UdpEndpoint assms(6) e by (auto simp: reachable_def mixed_view_simps)
  qed
qed

text \<open>What the destinations \<open>ds\<close> of a frame have got after a turn of the router \<open>m\<close> that came up in \<open>w1\<close>.\<close>

definition all_delivered :: "LoadedTopology \<Rightarrow> ShmOs \<Rightarrow> RouterFrame \<Rightarrow> RouterFrame \<Rightarrow> u8 list \<Rightarrow> MixedRouterServer \<Rightarrow>
    ShmWorld \<Rightarrow> ShmWorld \<Rightarrow> Kernel \<Rightarrow> bool" where
  "all_delivered lt os h g ds m w1 w3 k3 \<longleftrightarrow>
     (\<forall>e\<in>set (lt_peers lt). is_shm e \<longrightarrow> peer_id e \<in> set ds \<longrightarrow>
        (\<exists>b w4. make_shm_router_client os (view lt) (peer_id e) w1 = (Inr b, w1)
           \<and> ShmRouterClient_recv_message h (b, w3) = (Inr True, g, (b, w4))))
     \<and> (\<forall>u. uds_link m = Some u \<longrightarrow> map_option sk_outbox (socks k3 (fd (dl_endpoint u)))
          = Some (copies (view lt) (bytes g) (on_transport (view lt) UdsPath ds)))
     \<and> (\<forall>u. udp_link m = Some u \<longrightarrow> map_option sk_outbox (socks k3 (fd (dl_endpoint u)))
          = Some (copies (view lt) (bytes g) (on_transport (view lt) UdpEndpoint ds)))"

lemma turn_outcome:
  assumes "load_topology_from_toml_file parse_file path = Inr lt" "shm_os_ok os"
    "\<exists>e\<in>set (lt_peers lt). is_shm e \<Longrightarrow> shm_served lt n m w1" "fresh_dg (mixed_view (m, w1, k1))"
    "mixed_after (view lt) (bytes g) ds (mixed_view (m, w1, k1)) (mixed_view (m3, w3, k3))" "mx_tame (m, w2, k2) (m3, w3, k3)"
    "mx_inv n' (m3, w3, k3)" "wf_frame g" "wf_frame h"
  shows "all_delivered lt os h g ds m w1 w3 k3"
proof -
  have "\<exists>b w4. make_shm_router_client os (view lt) (peer_id e) w1 = (Inr b, w1) \<and> ShmRouterClient_recv_message h (b, w3) = (Inr True, g, (b, w4))"
    if e: "e \<in> set (lt_peers lt)" "is_shm e" "peer_id e \<in> set ds" for e
  proof -
    obtain l c cl where c: "shm_link m = Some l" "c \<in> set (peer_channels l)" "chan_peer_id c = peer_id e"
      "make_shm_router_client os (view lt) (peer_id e) w1 = (Inr cl, w1)" "client_of c cl" "fresh_chan w1 c"
      by (rule served_client [OF from_file.load_ok [OF assms(1)] assms(3) [OF bexI [where x = e and P = is_shm, OF e(2,1)]] e(1,2) assms(2)]) (rule that)
    have "chan_peer_id c \<in> set (on_transport (view lt) ShmRing ds)"
      using e loaded_transport [OF assms(1) e(1)] by (simp add: on_transport_def c(3))
    from ring_outcome [OF assms(5-7) c(1,2,5,6) this assms(8,9)] c(4) show ?thesis
      unfolding ShmRouterClient_recv_message_def by metis
  qed
  then show ?thesis
    using socket_outcome [OF assms(5-7,4)] unfolding all_delivered_def by blast
qed

section \<open>From a client on shared memory\<close>

text \<open>What a client has put on its fresh ring is what the router receives next.\<close>

lemma client_waits:
  assumes "shm_link m = Some l" "link_inv (1 + n) (l, w)" "list_all (fresh_chan w) (peer_channels l)"
    "c \<in> set (peer_channels l)" "client_of c cl" "wf_frame f"
  obtains w2 where "send_to_router env f (cl, w) = Some (Inr (), (cl, w2))" "link_inv n (l, w2)"
    "mx_receive_spec t ShmRing (mixed_view (m, w2, k)) = (Inr (Some (chan_peer_id c, bytes f)), mixed_view (m, w, k))"
proof -
  have c: "fresh_chan w c" "chan_ok w c" "in_q w c = []" "in_pos w c + 1 < 2 ^ 64" "distinct (peer_channels l)"
    using assms(2-4) by (auto simp: list_all_iff fresh_chan_def link_inv_def chans_ok_def distinct_map)
  have room: "length (in_q w c) < slot_count (region_of c)" using c(2,3) slots_positive by simp
  obtain x where x: "send_to_router env f (cl, w) = Some (Inr (), (cl, put_mem (region_of c) x w))"
    "chan_ok (put_mem (region_of c) x w) c" "in_q (put_mem (region_of c) x w) c = in_q w c @ [bytes f]"
    "out_q (put_mem (region_of c) x w) c = out_q w c" "out_pos (put_mem (region_of c) x w) c = out_pos w c"
    "in_pos (put_mem (region_of c) x w) c = in_pos w c + 1"
    by (rule client_send [OF assms(5) c(2) assms(6) room c(4)])
  define w2 where "w2 = put_mem (region_of c) x w"
  note x = x [folded w2_def]
  have "in_pos w2 c \<le> in_pos w c + 1" "out_pos w2 c \<le> out_pos w c + 1" using x(5,6) by simp_all
  note put = link_inv_put [OF assms(2,4) x(2) [unfolded w2_def] this [unfolded w2_def], folded w2_def]
  obtain pre post where split: "peer_channels l = pre @ c # post" using assms(4) by (metis split_list)
  have vc: "view_of w2 c = (view_of w c)\<lparr>v_in := [bytes f]\<rparr>" using x(3,4) c(3) by (simp add: view_of_def)
  have others: "map (view_of w2) pre = map (view_of w) pre" "map (view_of w2) post = map (view_of w) post"
    using put(2) split c(5) by auto
  have quiet: "\<forall>u\<in>set (map (view_of w) pre). v_in u = []"
    using assms(3) split by (auto simp: list_all_iff fresh_chan_def view_of_def)
  have len: "length (bytes f) = kRouterFrameSize" using assms(6) by (simp add: wf_frame_def)
  have restored: "(view_of w2 c)\<lparr>v_in := []\<rparr> = view_of w c" "v_id (view_of w2 c) = chan_peer_id c"
    using c(3) x(4) by (simp_all add: vc view_of_def)
  have "v_in (view_of w2 c) = [bytes f]" by (simp add: vc)
  note got = receive_first [OF quiet this len, of "map (view_of w) post" "metrics l", unfolded restored]
  have all: "map (view_of w2) (peer_channels l) = map (view_of w) pre @ view_of w2 c # map (view_of w) post"
    "map (view_of w) (peer_channels l) = map (view_of w) pre @ view_of w c # map (view_of w) post"
    by (simp_all only: split map_append list.map others)
  have "mx_receive_spec t ShmRing (mixed_view (m, w2, k)) = (Inr (Some (chan_peer_id c, bytes f)), mixed_view (m, w, k))"
    by (simp add: mx_receive_spec_def mixed_view_def assms(1) link_view_def all got del: map_eq_conv)
  then show thesis using that x(1) put(1) by blast
qed

lemma stamp_frame: "stamp p ts (bytes f) = set_timestamp_ns ts (set_source p f)"
  by (cases f) (simp add: stamp_def)

text \<open>
  C8: on a router brought up from a mixed profile, what a client on shared memory sends reaches
  every destination of its rule, on whatever transport the profile gives it. The router, both ends
  of the rings and the sockets come from the factories and the loader; the next turn of the loop
  takes the frame, reports one forward per destination, in the order of the rule, stamped with
  source and time; each shared-memory destination's client then receives exactly the stamped
  frame, and the two sockets have sent exactly one datagram with these bytes to the declared
  address of each Unix-domain and each UDP destination. The kernel has to take the datagrams.
\<close>

theorem mixed_end_to_end:
  assumes "load_topology_from_toml_file parse_file path = Inr lt"
    "distinct (map ring_name (filter is_shm (lt_peers lt)))" "world_ok w" "\<And>n. shm_os_ok (sos n)"
    "socket_ok os" "setsockopt_ok os" "\<And>a. bind_allowed os a"
    "e \<in> set (lt_peers lt)" "is_shm e" "wf_frame f" "wf_frame h"
    "g = set_timestamp_ns ts (set_source (peer_id e) f)" "ds = route_spec (lt_routes lt) (peer_id e) (topic_id f)"
    "\<forall>u\<in>set (lt_peers lt). peer_id u \<in> set ds \<longrightarrow> \<not> is_shm u \<longrightarrow> sendable os (view lt) (bytes g) (peer_id u)"
  shows "\<exists>m k1 m' w1 k2 a w2 g' m3 w3 k3. make_mixed_router_server os (view lt) k = (Inr m, k1)
    \<and> mx_bind_router sos os (m, w, k1) = (Inr (), (m', w1, k2))
    \<and> make_shm_router_client (sos []) (view lt) (peer_id e) w1 = (Inr a, w1)
    \<and> send_to_router env f (a, w1) = Some (Inr (), (a, w2))
    \<and> poll_all os [ShmRing, UdsPath, UdpEndpoint] h ts (lt_routes lt) (m', w2, k2)
        = (Inr True, map (\<lambda>d. OnForward (peer_id e) d g) ds, g', (m3, w3, k3))
    \<and> all_delivered lt (sos []) h g ds m' w1 w3 k3"
proof -
  note ok = from_file.load_ok [OF assms(1)]
  have budget: "1 + (3 * kMaxRouteDests + 0) < 2 ^ 64" by (simp add: kMaxRouteDests_def)
  obtain m k1 m' w1 k2 where up: "make_mixed_router_server os (view lt) k = (Inr m, k1)"
    "mx_bind_router sos os (m, w, k1) = (Inr (), (m', w1, k2))" "mx_inv (1 + (3 * kMaxRouteDests + 0)) (m', w1, k2)" "mx_topo m' = view lt"
    "fresh_dg (mixed_view (m', w1, k2))" "\<exists>e\<in>set (lt_peers lt). is_shm e \<Longrightarrow> shm_served lt (1 + (3 * kMaxRouteDests + 0)) m' w1"
    by (rule mixed_comes_up [where w = w and sos = sos and k = k, OF assms(1-7) budget]) (rule that, assumption+)
  have served: "shm_served lt (1 + (3 * kMaxRouteDests + 0)) m' w1" using up(6) assms(8,9) by blast
  obtain l c a where c: "shm_link m' = Some l" "link_inv (1 + (3 * kMaxRouteDests + 0)) (l, w1)" "c \<in> set (peer_channels l)"
    "chan_peer_id c = peer_id e" "make_shm_router_client (sos []) (view lt) (peer_id e) w1 = (Inr a, w1)" "client_of c a"
    "list_all (fresh_chan w1) (peer_channels l)"
    by (rule served_client [OF ok served assms(8,9,4)]) (rule that)
  obtain w2 where w2: "send_to_router env f (a, w1) = Some (Inr (), (a, w2))" "link_inv (3 * kMaxRouteDests + 0) (l, w2)"
    "mx_receive_spec (view lt) ShmRing (mixed_view (m', w2, k2)) = (Inr (Some (peer_id e, bytes f)), mixed_view (m', w1, k2))"
    using client_waits [OF c(1,2,7,3,6) assms(10)] unfolding c(4) by metis
  have inv: "mx_inv (3 * kMaxRouteDests + 0) (m', w2, k2)"
    using mx_inv_weaken [OF up(3)] w2(2) c(1) unfolding mx_inv_def prod.case by (metis option.inject)
  have idle1: "idle kd (mixed_view (m', w1, k2))" for kd by (rule idle_fresh [OF up(5)]) (use c(1,7) in simp)
  have idle2: "idle kd (mixed_view (m', w2, k2))" if "kd \<noteq> ShmRing" for kd
  proof -
    have "mv_uds (mixed_view (m', w2, k2)) = mv_uds (mixed_view (m', w1, k2))" "mv_udp (mixed_view (m', w2, k2)) = mv_udp (mixed_view (m', w1, k2))"
      by (simp_all add: mixed_view_simps)
    with idle1 [of kd] that show ?thesis unfolding idle_def by (cases kd) (simp_all only: PeerAddressKind.case simp_thms)
  qed
  have g: "g = stamp (peer_id e) ts (bytes f)" "wf_frame g" using assms(10,12) by (simp_all add: stamp_frame)
  have tg: "ds = targets_list (route_targets_for (lt_routes lt) (peer_id e) (topic_id g))"
    using route_targets_spec [OF from_file.routes_wf [OF assms(1)]] assms(10,12,13) by simp
  have reach: "\<forall>d\<in>set ds. reachable os (view lt) (bytes g) (mixed_view (m', w1, k2)) d"
    using routes_reachable [OF assms(1) up(3,4,6)] assms(14) unfolding assms(13) by blast
  have dist: "distinct ds" unfolding assms(13) by (rule from_file.routes_distinct [OF assms(1)])
  obtain g' m3 w3 k3 where turn:
    "poll_all os [ShmRing, UdsPath, UdpEndpoint] h ts (lt_routes lt) (m', w2, k2)
       = (Inr True, map (\<lambda>d. OnForward (peer_id e) d g) ds, g', (m3, w3, k3))"
    "mx_inv 0 (m3, w3, k3)" "mixed_after (view lt) (bytes g) ds (mixed_view (m', w1, k2)) (mixed_view (m3, w3, k3))"
    "mx_tame (m', w2, k2) (m3, w3, k3)"
    by (rule mixed_turn [OF inv up(4) assms(11) w2(3) idle2 idle1 g(1) tg dist reach]) (assumption | rule that, assumption+)+
  have "all_delivered lt (sos []) h g ds m' w1 w3 k3"
    by (rule turn_outcome [OF assms(1,4) up(6,5) turn(3,4,2) g(2) assms(11)])
  then show ?thesis using up(1,2) c(5) w2(1) turn(1) by blast
qed

section \<open>From a datagram socket\<close>

abbreviation carrier :: "DgTransport \<Rightarrow> PeerAddressKind" where
  "carrier tr \<equiv> (case tr of UdsT \<Rightarrow> UdsPath | UdpT \<Rightarrow> UdpEndpoint)"

definition socket_link :: "DgTransport \<Rightarrow> MixedRouterServer \<Rightarrow> DatagramRouterLink option" where
  "socket_link tr m = (case tr of UdsT \<Rightarrow> uds_link m | UdpT \<Rightarrow> udp_link m)"

text \<open>A datagram put at the socket of one link is what the router receives next on that link.\<close>

definition post :: "DatagramRouterLink \<Rightarrow> sockaddr option \<Rightarrow> bytes \<Rightarrow> Kernel \<Rightarrow> Kernel" where
  "post u sender x k = (case socks k (fd (dl_endpoint u)) of
     None \<Rightarrow> k | Some sk \<Rightarrow> put_sock (fd (dl_endpoint u)) (sk\<lparr>sk_inbox := sk_inbox sk @ [Arrived sender x]\<rparr>) k)"

lemma socket_waits:
  assumes "socket_link tr m = Some u" "mx_inv n (m, w, k)" "fresh_dg (mixed_view (m, w, k))" "mx_topo m = t" "wf_frame f"
    "peer_id_from_recv tr t (case sender of None \<Rightarrow> from_zero tr | Some a \<Rightarrow> a) = p" "p \<noteq> kEndpointInvalid"
  shows "mx_inv n (m, w, post u sender (bytes f) k)"
    "mx_receive_spec t (carrier tr) (mixed_view (m, w, post u sender (bytes f) k)) = (Inr (Some (p, bytes f)), mixed_view (m, w, k))"
    "kd \<noteq> carrier tr \<Longrightarrow> idle kd (mixed_view (m, w, k)) \<Longrightarrow> idle kd (mixed_view (m, w, post u sender (bytes f) k))"
proof -
  obtain sk where sk: "socks k (fd (dl_endpoint u)) = Some sk"
    using assms(1,2) by (cases tr) (auto simp: socket_link_def mx_inv_def serves_def)
  define k' where "k' = put_sock (fd (dl_endpoint u)) (sk\<lparr>sk_inbox := [Arrived sender (bytes f)]\<rparr>) k"
  have empty: "sk_inbox sk = []"
    using assms(1,3) sk by (cases tr) (auto simp: socket_link_def fresh_dg_def mixed_view_simps dg_view_def)
  have post: "post u sender (bytes f) k = k'" by (simp add: post_def sk empty k'_def)
  have own: "own_sock (u, k) (u, k')" by (simp add: own_sock_def k'_def put_sock_def)
  have u: "dg_view k' u = (dg_view k u)\<lparr>v_inbox := [Arrived sender (bytes f)]\<rparr>" "v_inbox (dg_view k u) = []"
    "v_inbox (dg_view k' u) = [Arrived sender (bytes f)]"
    by (simp_all add: dg_view_def sk empty k'_def put_sock_def)
  have restored: "(dg_view k' u)\<lparr>v_inbox := []\<rparr> = dg_view k u" using u(1,2) by simp
  have len: "length (bytes f) = kRouterFrameSize" using assms(5) by (simp add: wf_frame_def)
  have got: "dg_receive_spec tr t (dg_view k' u) = (Inr (Some (p, bytes f)), dg_view k u)"
    using assms(6,7) len restored by (simp add: dg_receive_spec_def u(3) Let_def)
  show "mx_inv n (m, w, post u sender (bytes f) k)"
    "mx_receive_spec t (carrier tr) (mixed_view (m, w, post u sender (bytes f) k)) = (Inr (Some (p, bytes f)), mixed_view (m, w, k))"
    "kd \<noteq> carrier tr \<Longrightarrow> idle kd (mixed_view (m, w, k)) \<Longrightarrow> idle kd (mixed_view (m, w, post u sender (bytes f) k))"
    unfolding post
  proof -
    have m: "m\<lparr>uds_link := Some u\<rparr> = m" if "tr = UdsT" using assms(1) that by (simp add: socket_link_def)
    have m': "m\<lparr>udp_link := Some u\<rparr> = m" if "tr = UdpT" using assms(1) that by (simp add: socket_link_def)
    have step: "mx_inv n (m, w, k') \<and> mixed_view (m, w, k') =
        (case tr of UdsT \<Rightarrow> (mixed_view (m, w, k))\<lparr>mv_uds := Some (dg_view k' u)\<rparr>
          | UdpT \<Rightarrow> (mixed_view (m, w, k))\<lparr>mv_udp := Some (dg_view k' u)\<rparr>)"
      using assms(1) step_uds [OF assms(2) _ own] step_udp [OF assms(2) _ own] m m' by (cases tr) (simp_all add: socket_link_def)
    then show "mx_inv n (m, w, k')" by blast
    show "mx_receive_spec t (carrier tr) (mixed_view (m, w, k')) = (Inr (Some (p, bytes f)), mixed_view (m, w, k))"
      using step assms(1) got by (cases tr) (simp_all add: mx_receive_spec_def socket_link_def mixed_view_def)
    show "kd \<noteq> carrier tr \<Longrightarrow> idle kd (mixed_view (m, w, k)) \<Longrightarrow> idle kd (mixed_view (m, w, k'))"
      using step by (cases tr; cases kd) (simp_all add: idle_def)
  qed
qed

text \<open>
  C9: on a router brought up from a mixed profile, a frame that arrives in a datagram from the
  address of a declared Unix-domain or UDP peer reaches every destination of that peer's rule, on
  whatever transport the profile gives it: one forward per destination is reported, every
  shared-memory destination's client receives exactly the stamped frame, and the sockets have sent
  one datagram with these bytes per Unix-domain and per UDP destination.
\<close>

theorem mixed_datagram_end_to_end:
  assumes "load_topology_from_toml_file parse_file path = Inr lt"
    "distinct (map ring_name (filter is_shm (lt_peers lt)))" "world_ok w" "\<And>n. shm_os_ok (sos n)"
    "socket_ok os" "setsockopt_ok os" "\<And>a. bind_allowed os a"
    "e \<in> set (lt_peers lt)" "kind (local_addr e) = carrier tr" "peer_id_from_recv tr (view lt) a = peer_id e"
    "wf_frame f" "wf_frame h"
    "g = set_timestamp_ns ts (set_source (peer_id e) f)" "ds = route_spec (lt_routes lt) (peer_id e) (topic_id f)"
    "\<forall>u\<in>set (lt_peers lt). peer_id u \<in> set ds \<longrightarrow> \<not> is_shm u \<longrightarrow> sendable os (view lt) (bytes g) (peer_id u)"
  shows "\<exists>m k1 m' w1 k2 u g' m3 w3 k3. make_mixed_router_server os (view lt) k = (Inr m, k1)
    \<and> mx_bind_router sos os (m, w, k1) = (Inr (), (m', w1, k2)) \<and> socket_link tr m' = Some u
    \<and> poll_all os [ShmRing, UdsPath, UdpEndpoint] h ts (lt_routes lt) (m', w1, post u (Some a) (bytes f) k2)
        = (Inr True, map (\<lambda>d. OnForward (peer_id e) d g) ds, g', (m3, w3, k3))
    \<and> all_delivered lt (sos []) h g ds m' w1 w3 k3"
proof -
  note ok = from_file.load_ok [OF assms(1)]
  have budget: "3 * kMaxRouteDests + 0 < 2 ^ 64" by (simp add: kMaxRouteDests_def)
  obtain m k1 m' w1 k2 where up: "make_mixed_router_server os (view lt) k = (Inr m, k1)"
    "mx_bind_router sos os (m, w, k1) = (Inr (), (m', w1, k2))" "mx_inv (3 * kMaxRouteDests + 0) (m', w1, k2)" "mx_topo m' = view lt"
    "fresh_dg (mixed_view (m', w1, k2))" "\<exists>e\<in>set (lt_peers lt). is_shm e \<Longrightarrow> shm_served lt (3 * kMaxRouteDests + 0) m' w1"
    by (rule mixed_comes_up [where w = w and sos = sos and k = k, OF assms(1-7) budget]) (rule that, assumption+)
  have disp: "dispatch_ok m'" "peers (mx_topo m') = lt_peers lt" using up(3) by (simp_all add: mx_inv_def up(4) view_def)
  have "socket_link tr m' \<noteq> None"
    using disp assms(8,9) by (cases tr) (auto simp: dispatch_ok_def socket_link_def)
  then obtain u where u: "socket_link tr m' = Some u" by blast
  have valid: "peer_id e \<noteq> kEndpointInvalid"
    using ok assms(8) by (auto simp: loaded_ok_def peers_ok_def peer_ok_def kEndpointInvalid_def)
  have p: "peer_id_from_recv tr (view lt) (case Some a of None \<Rightarrow> from_zero tr | Some a \<Rightarrow> a) = peer_id e" using assms(10) by simp
  note waits = socket_waits [OF u up(3,5,4) assms(11) p valid]
  have quiet: "list_all (fresh_chan w1) (peer_channels l)" if l: "shm_link m' = Some l" for l
  proof -
    have "\<exists>e\<in>set (lt_peers lt). is_shm e" using disp l by (auto simp: dispatch_ok_def)
    from up(6) [OF this] l show ?thesis by (simp add: shm_served_def)
  qed
  have idle1: "idle kd (mixed_view (m', w1, k2))" for kd by (rule idle_fresh [OF up(5) quiet])
  note idle2 = waits(3) [OF _ idle1]
  have g: "g = stamp (peer_id e) ts (bytes f)" "wf_frame g" using assms(11,13) by (simp_all add: stamp_frame)
  have tg: "ds = targets_list (route_targets_for (lt_routes lt) (peer_id e) (topic_id g))"
    using route_targets_spec [OF from_file.routes_wf [OF assms(1)]] assms(11,13,14) by simp
  have reach: "\<forall>d\<in>set ds. reachable os (view lt) (bytes g) (mixed_view (m', w1, k2)) d"
    using routes_reachable [OF assms(1) up(3,4,6)] assms(15) unfolding assms(14) by blast
  have dist: "distinct ds" unfolding assms(14) by (rule from_file.routes_distinct [OF assms(1)])
  obtain g' m3 w3 k3 where turn:
    "poll_all os [ShmRing, UdsPath, UdpEndpoint] h ts (lt_routes lt) (m', w1, post u (Some a) (bytes f) k2)
       = (Inr True, map (\<lambda>d. OnForward (peer_id e) d g) ds, g', (m3, w3, k3))"
    "mx_inv 0 (m3, w3, k3)" "mixed_after (view lt) (bytes g) ds (mixed_view (m', w1, k2)) (mixed_view (m3, w3, k3))"
    "mx_tame (m', w1, post u (Some a) (bytes f) k2) (m3, w3, k3)"
    by (rule mixed_turn [OF waits(1) up(4) assms(12) waits(2) idle2 idle1 g(1) tg dist reach]) (assumption | rule that, assumption+)+
  have "all_delivered lt (sos []) h g ds m' w1 w3 k3"
    by (rule turn_outcome [OF assms(1,4) up(6,5) turn(3,4,2) g(2) assms(12)])
  then show ?thesis using up(1,2) u turn(1) by blast
qed

section \<open>A profile with all three transports\<close>

definition three_profile :: toml_table where
  "three_profile =
     [(''router'', TTable [(''listen'', TString ''uds:/r''), (''listen_udp'', TString ''udp:127.0.0.1:7000'')]),
      (''peers'', TArray [
         TTable [(''id'', TInteger 1), (''name'', TString ''a''), (''local'', TString ''shm:/a'')],
         TTable [(''id'', TInteger 2), (''name'', TString ''b''), (''local'', TString ''uds:/b'')],
         TTable [(''id'', TInteger 3), (''name'', TString ''c''), (''local'', TString ''udp:127.0.0.1:7003'')],
         TTable [(''id'', TInteger 4), (''name'', TString ''d''), (''local'', TString ''shm:/d'')]]),
      (''routes'', TArray [
         TTable [(''source'', TInteger 1), (''dest'', TArray [TInteger 2, TInteger 3, TInteger 4])],
         TTable [(''source'', TInteger 2), (''dest'', TArray [TInteger 1, TInteger 3])]])]"

definition three_loaded :: LoadedTopology where
  "three_loaded =
     \<lparr>lt_strings = [''/r'', ''127.0.0.1'', ''a'', ''/a'', ''b'', ''/b'', ''c'', ''127.0.0.1'', ''d'', ''/d''],
      lt_peers = [\<lparr>peer_id = 1, peer_name = ''a'', local_addr = peer_shm ''/a'', shm_slot_count = 0, shm_max_payload = 0\<rparr>,
                  \<lparr>peer_id = 2, peer_name = ''b'', local_addr = peer_uds ''/b'', shm_slot_count = 0, shm_max_payload = 0\<rparr>,
                  \<lparr>peer_id = 3, peer_name = ''c'', local_addr = peer_udp ''127.0.0.1'' 7003, shm_slot_count = 0, shm_max_payload = 0\<rparr>,
                  \<lparr>peer_id = 4, peer_name = ''d'', local_addr = peer_shm ''/d'', shm_slot_count = 0, shm_max_payload = 0\<rparr>],
      lt_routes = [\<lparr>rule_source = 1, dest_count = 3, rule_topic = 0xFFFF, dest = [2, 3, 4, 0, 0, 0, 0, 0]\<rparr>,
                   \<lparr>rule_source = 2, dest_count = 2, rule_topic = 0xFFFF, dest = [1, 3, 0, 0, 0, 0, 0, 0]\<rparr>], lt_topics = [], lt_sidebands = [], lt_ranges = [(0, 0), (0, 0), (0, 0), (0, 0)],
      lt_listen = peer_uds ''/r'', lt_listen_uds = Some (peer_uds ''/r''), lt_listen_udp = Some (peer_udp ''127.0.0.1'' 7000)\<rparr>"

lemma three_addresses:
  "rsplit_colon ''127.0.0.1:7000'' = Some (''127.0.0.1'', ''7000'')" "rsplit_colon ''127.0.0.1:7003'' = Some (''127.0.0.1'', ''7003'')"
  "stoul ''7000'' = Some 7000" "stoul ''7003'' = Some 7003" "inet_pton ''127.0.0.1'' = Some [127, 0, 0, 1]"
  by (simp_all add: rsplit_colon_def stoul_def is_space_def is_digit_def digits_value_def inet_pton_def c_str_def)

lemma three_loads: "load_topology_from_toml_file (\<lambda>_. Inr three_profile) path = Inr three_loaded"
  by (simp add: load_topology_from_toml_file_def loader_defs three_profile_def three_loaded_def
      LoadedTopology_new_def c_str_def kShmNameMaxLen_def kUdsPathMaxLen_def kPeerNameMaxLen_def kMaxRouteDests_def
      kTopicNameMaxLen_def peer_exists_def kRouteTopicAny_def three_addresses) (simp add: numeral_eq_Suc)

lemma three_loaded_facts:
  "distinct (map ring_name (filter is_shm (lt_peers three_loaded)))"
  "route_spec (lt_routes three_loaded) 1 7 = [2, 3, 4]" "route_spec (lt_routes three_loaded) 2 7 = [1, 3]"
  "peer_id_from_recv UdsT (view three_loaded) (SockUn ''/b'') = 2"
  "u \<in> set (lt_peers three_loaded) \<Longrightarrow> \<not> is_shm u \<Longrightarrow> sendable demo_os (view three_loaded) x (peer_id u)"
  by (auto simp: three_loaded_def route_spec_def rule_matches_def rule_dests_def kRouteTopicAny_def peer_id_from_recv_def
      view_def peer_find_def strcmp_eq_def c_str_def sendable_def lookup_defs demo_os_def three_addresses)

theorem mixed_end_to_end_witness:
  "\<exists>m k1 m' w1 k2 a w2 g' m3 w3 k3. make_mixed_router_server demo_os (view three_loaded) demo_kernel = (Inr m, k1)
    \<and> mx_bind_router (\<lambda>_. os_all_ok) demo_os (m, empty_world, k1) = (Inr (), (m', w1, k2))
    \<and> make_shm_router_client os_all_ok (view three_loaded) 1 w1 = (Inr a, w1)
    \<and> send_to_router (\<lambda>_ m. m) demo_message (a, w1) = Some (Inr (), (a, w2))
    \<and> poll_all demo_os [ShmRing, UdsPath, UdpEndpoint] RouterFrame_default 5 (lt_routes three_loaded) (m', w2, k2)
        = (Inr True, map (\<lambda>d. OnForward 1 d (set_timestamp_ns 5 (set_source 1 demo_message))) [2, 3, 4], g', (m3, w3, k3))
    \<and> all_delivered three_loaded os_all_ok RouterFrame_default (set_timestamp_ns 5 (set_source 1 demo_message)) [2, 3, 4] m' w1 w3 k3"
proof -
  have os: "shm_os_ok os_all_ok" "socket_ok demo_os" "setsockopt_ok demo_os" "\<And>a. bind_allowed demo_os a"
    by (simp_all add: demo_os_def)
  let ?e = "lt_peers three_loaded ! 0"
  have e: "?e \<in> set (lt_peers three_loaded)" "is_shm ?e" "peer_id ?e = 1" by (simp_all add: three_loaded_def)
  have ds: "[2, 3, 4] = route_spec (lt_routes three_loaded) (peer_id ?e) (topic_id demo_message)"
    by (simp only: e(3) demo_message_facts three_loaded_facts)
  have snd: "\<forall>u\<in>set (lt_peers three_loaded). peer_id u \<in> set [2, 3, 4] \<longrightarrow> \<not> is_shm u \<longrightarrow> sendable demo_os (view three_loaded) x (peer_id u)" for x
    using three_loaded_facts(5) by blast
  from mixed_end_to_end [where sos = "\<lambda>_. os_all_ok" and k = demo_kernel and ts = 5 and env = "\<lambda>_ m. m", OF three_loads three_loaded_facts(1)
      world_ok_empty os e(1,2) demo_message_facts(1,3) refl ds snd]
  show ?thesis unfolding e(3) .
qed

theorem mixed_datagram_end_to_end_witness:
  "\<exists>m k1 m' w1 k2 u g' m3 w3 k3. make_mixed_router_server demo_os (view three_loaded) demo_kernel = (Inr m, k1)
    \<and> mx_bind_router (\<lambda>_. os_all_ok) demo_os (m, empty_world, k1) = (Inr (), (m', w1, k2)) \<and> uds_link m' = Some u
    \<and> poll_all demo_os [ShmRing, UdsPath, UdpEndpoint] RouterFrame_default 5 (lt_routes three_loaded)
        (m', w1, post u (Some (SockUn ''/b'')) (bytes demo_message) k2)
        = (Inr True, map (\<lambda>d. OnForward 2 d (set_timestamp_ns 5 (set_source 2 demo_message))) [1, 3], g', (m3, w3, k3))
    \<and> all_delivered three_loaded os_all_ok RouterFrame_default (set_timestamp_ns 5 (set_source 2 demo_message)) [1, 3] m' w1 w3 k3"
proof -
  have os: "shm_os_ok os_all_ok" "socket_ok demo_os" "setsockopt_ok demo_os" "\<And>a. bind_allowed demo_os a"
    by (simp_all add: demo_os_def)
  let ?e = "lt_peers three_loaded ! 1"
  have e: "?e \<in> set (lt_peers three_loaded)" "kind (local_addr ?e) = carrier UdsT" "peer_id ?e = 2" by (simp_all add: three_loaded_def)
  have at: "peer_id_from_recv UdsT (view three_loaded) (SockUn ''/b'') = peer_id ?e" by (simp only: e(3) three_loaded_facts)
  have ds: "[1, 3] = route_spec (lt_routes three_loaded) (peer_id ?e) (topic_id demo_message)"
    by (simp only: e(3) demo_message_facts three_loaded_facts)
  have snd: "\<forall>u\<in>set (lt_peers three_loaded). peer_id u \<in> set [1, 3] \<longrightarrow> \<not> is_shm u \<longrightarrow> sendable demo_os (view three_loaded) x (peer_id u)" for x
    using three_loaded_facts(5) by blast
  have l: "socket_link UdsT m = uds_link m" for m by (simp add: socket_link_def)
  from mixed_datagram_end_to_end [where sos = "\<lambda>_. os_all_ok" and k = demo_kernel and ts = 5, OF three_loads three_loaded_facts(1)
      world_ok_empty os e(1,2) at demo_message_facts(1,3) refl ds snd]
  show ?thesis unfolding e(3) l .
qed

end
