(* ===== verification/Echo.thy ===== *)
theory Echo
  imports DatagramLink ShmLink
begin

text \<open>
  \<open>ipc/src/ipc/echo.hpp\<close>: the echo server and client over the transports. All three transports have
  \<open>try_recv\<close>, so \<open>run_until\<close> always takes its polling loop and the code after it is never
  instantiated. A loop takes the number of turns it is observed for; the result says whether it
  ended by raising. \<open>storage\<close> is what the 1024 bytes of the receive buffer contain at the start.
\<close>

definition dg_echo :: "DgTransport \<Rightarrow> NetOs \<Rightarrow> Socket \<Rightarrow> sockaddr \<Rightarrow> Buffer \<Rightarrow> Kernel \<Rightarrow> unit res \<times> Kernel" where
  "dg_echo tr os h from pl k = (case tr of UdsT \<Rightarrow> Uds_echo os h from pl k | UdpT \<Rightarrow> Udp_echo os h from pl k)"

text \<open>The constructor binds; if that raises the endpoint closes its socket.\<close>

definition EchoServer_new :: "DgTransport \<Rightarrow> NetOs \<Rightarrow> DgBindParams \<Rightarrow> Kernel \<Rightarrow> Socket res \<times> Kernel" where
  "EchoServer_new tr os p k =
     (case dg_open tr os k of
        (Inl e, k1) \<Rightarrow> (Inl e, k1)
      | (Inr h, k1) \<Rightarrow> (case ep_dg_bind os h p k1 of
          (Inl e, k2) \<Rightarrow> (Inl e, Socket_close h k2) | (Inr _, k2) \<Rightarrow> (Inr h, k2)))"

text \<open>
  The loop of \<open>run\<close>: the address of the last sender stays in \<open>from\<close> between turns. A receive that
  never returns leaves it running.
\<close>

fun dg_echo_loop :: "DgTransport \<Rightarrow> NetOs \<Rightarrow> nat \<Rightarrow> Socket \<Rightarrow> Buffer \<Rightarrow> sockaddr \<Rightarrow> Kernel \<Rightarrow> error option \<times> Kernel" where
  "dg_echo_loop tr os 0 h buf from k = (None, k)"
| "dg_echo_loop tr os (Suc n) h buf from k =
     (if recvfrom_hangs (fd h) k then (None, k)
      else case ep_recv tr h buf from k of
        (Inl e, k1) \<Rightarrow> (Some e, k1)
      | (Inr (buf1, from1), k1) \<Rightarrow> (case dg_echo tr os h from1 buf1 k1 of
          (Inl e, k2) \<Rightarrow> (Some e, k2)
        | (Inr _, k2) \<Rightarrow> dg_echo_loop tr os n h buf1 from1 k2))"

definition EchoServer_run :: "DgTransport \<Rightarrow> NetOs \<Rightarrow> nat \<Rightarrow> bytes \<Rightarrow> Socket \<Rightarrow> Kernel \<Rightarrow> error option \<times> Kernel" where
  "EchoServer_run tr os n storage h k = dg_echo_loop tr os n h (Buffer_writable storage) (from_zero tr) k"

text \<open>
  The loop of \<open>run_until\<close>: \<open>stop i\<close> is the flag at turn \<open>i\<close>, \<open>env i\<close> what other processes do while
  the loop yields.
\<close>

fun dg_echo_poll :: "DgTransport \<Rightarrow> NetOs \<Rightarrow> (nat \<Rightarrow> bool) \<Rightarrow> (nat \<Rightarrow> Kernel \<Rightarrow> Kernel) \<Rightarrow> nat \<Rightarrow> nat \<Rightarrow> Socket \<Rightarrow> Buffer \<Rightarrow>
    sockaddr \<Rightarrow> Kernel \<Rightarrow> (unit res \<times> Kernel) option" where
  "dg_echo_poll tr os stop env 0 i h buf from k = None"
| "dg_echo_poll tr os stop env (Suc fuel) i h buf from k =
     (if stop i then Some (Inr (), k)
      else case ep_dg_try_recv tr h buf from k of
        (Inl e, k1) \<Rightarrow> Some (Inl e, k1)
      | (Inr (got, buf1, from1), k1) \<Rightarrow>
          if got then (case dg_echo tr os h from1 buf1 k1 of
              (Inl e, k2) \<Rightarrow> Some (Inl e, k2)
            | (Inr _, k2) \<Rightarrow> dg_echo_poll tr os stop env fuel (Suc i) h buf1 from1 k2)
          else dg_echo_poll tr os stop env fuel (Suc i) h buf1 from1 (env i k1))"

definition EchoServer_run_until :: "DgTransport \<Rightarrow> NetOs \<Rightarrow> (nat \<Rightarrow> bool) \<Rightarrow> (nat \<Rightarrow> Kernel \<Rightarrow> Kernel) \<Rightarrow> nat \<Rightarrow> bytes \<Rightarrow>
    Socket \<Rightarrow> Kernel \<Rightarrow> (unit res \<times> Kernel) option" where
  "EchoServer_run_until tr os stop env fuel storage h k =
     dg_echo_poll tr os stop env fuel 0 h (Buffer_writable storage) (from_zero tr) k"

definition ShmEchoServer_new :: "ShmOs \<Rightarrow> ShmBindParams \<Rightarrow> ShmWorld \<Rightarrow> ShmRegion res \<times> ShmWorld" where
  "ShmEchoServer_new os p w = ep_bind os p w"

text \<open>Over shared memory, on the bytes of the mapping; the echo itself may block for ever.\<close>

fun shm_echo_poll :: "(nat \<Rightarrow> bool) \<Rightarrow> (nat \<Rightarrow> bytes \<Rightarrow> bytes) \<Rightarrow> nat \<Rightarrow> nat \<Rightarrow> ShmRegion option \<Rightarrow> Buffer \<Rightarrow> bytes \<Rightarrow>
    (unit res \<times> bytes) option" where
  "shm_echo_poll stop env 0 i h buf m = None"
| "shm_echo_poll stop env (Suc fuel) i h buf m =
     (if stop i then Some (Inr (), m)
      else case ShmSpsc_try_recv h buf m of
        Inl e \<Rightarrow> Some (Inl e, m)
      | Inr (got, buf1, m1) \<Rightarrow>
          if got then (case ShmSpsc_echo env h buf1 m1 of
              None \<Rightarrow> None
            | Some (Inl e) \<Rightarrow> Some (Inl e, m1)
            | Some (Inr m2) \<Rightarrow> shm_echo_poll stop env fuel (Suc i) h buf1 m2)
          else shm_echo_poll stop env fuel (Suc i) h buf1 (env i m1))"

definition ShmEchoServer_run_until :: "(nat \<Rightarrow> bool) \<Rightarrow> (nat \<Rightarrow> bytes \<Rightarrow> bytes) \<Rightarrow> nat \<Rightarrow> bytes \<Rightarrow> ShmRegion option \<Rightarrow> bytes \<Rightarrow>
    (unit res \<times> bytes) option" where
  "ShmEchoServer_run_until stop env fuel storage h m = shm_echo_poll stop env fuel 0 h (Buffer_writable storage) m"

section \<open>The client\<close>

datatype DgSendParams = UdsSend string string Buffer | UdpSend string u16 Buffer

definition dg_connect_or_send :: "NetOs \<Rightarrow> Socket \<Rightarrow> DgSendParams \<Rightarrow> Kernel \<Rightarrow> unit res \<times> Kernel" where
  "dg_connect_or_send os h p k =
     (case p of UdsSend srv cl pl \<Rightarrow> Uds_connect_or_send os h srv cl pl k
      | UdpSend host port pl \<Rightarrow> Udp_connect_or_send os h host port pl k)"

definition EchoClient_new :: "DgTransport \<Rightarrow> NetOs \<Rightarrow> Kernel \<Rightarrow> Socket res \<times> Kernel" where
  "EchoClient_new tr os k = dg_open tr os k"

definition EchoClient_bound :: "DgTransport \<Rightarrow> NetOs \<Rightarrow> DgBindParams \<Rightarrow> Kernel \<Rightarrow> Socket res \<times> Kernel" where
  "EchoClient_bound tr os p k =
     (case dg_open tr os k of
        (Inl e, k1) \<Rightarrow> (Inl e, k1)
      | (Inr h, k1) \<Rightarrow> (case ep_dg_bind os h p k1 of
          (Inl e, k2) \<Rightarrow> (Inl e, Socket_close h k2) | (Inr _, k2) \<Rightarrow> (Inr h, k2)))"

text \<open>Over shared memory an endpoint without a binding has no region.\<close>

definition ShmEchoClient_new :: "ShmRegion option" where
  "ShmEchoClient_new = None"

definition ShmEchoClient_bound :: "ShmOs \<Rightarrow> ShmBindParams \<Rightarrow> ShmWorld \<Rightarrow> ShmRegion res \<times> ShmWorld" where
  "ShmEchoClient_bound os p w = ep_bind os p w"

definition EchoClient_exchange :: "DgTransport \<Rightarrow> NetOs \<Rightarrow> Socket \<Rightarrow> DgSendParams \<Rightarrow> Buffer \<Rightarrow> Kernel \<Rightarrow> Buffer res \<times> Kernel" where
  "EchoClient_exchange tr os h p recv_buf k =
     (case dg_connect_or_send os h p k of
        (Inl e, k1) \<Rightarrow> (Inl e, k1)
      | (Inr _, k1) \<Rightarrow> (case ep_recv tr h recv_buf (from_zero tr) k1 of
          (Inl e, k2) \<Rightarrow> (Inl e, k2) | (Inr (b, _), k2) \<Rightarrow> (Inr b, k2)))"

definition ShmEchoClient_exchange :: "(nat \<Rightarrow> bytes \<Rightarrow> bytes) \<Rightarrow> ShmRegion option \<Rightarrow> Buffer \<Rightarrow> Buffer \<Rightarrow> bytes \<Rightarrow>
    (Buffer \<times> bytes) res option" where
  "ShmEchoClient_exchange env h pl recv_buf m =
     (case ShmSpsc_connect_or_send env h pl m of
        None \<Rightarrow> None
      | Some (Inl e) \<Rightarrow> Some (Inl e)
      | Some (Inr m1) \<Rightarrow> ShmSpsc_recv env h recv_buf m1)"

section \<open>What the server sends back\<close>

text \<open>The address an echo goes to, given the address in \<open>recv\<close>.\<close>

definition echo_dest :: "DgTransport \<Rightarrow> sockaddr \<Rightarrow> sockaddr" where
  "echo_dest tr a = (case tr of UdsT \<Rightarrow> SockUn (sun_path (path_of a)) | UdpT \<Rightarrow> a)"

text \<open>The last known sender after a datagram.\<close>

definition last_from :: "sockaddr \<Rightarrow> sockaddr option \<Rightarrow> sockaddr" where
  "last_from prev from = (case from of None \<Rightarrow> prev | Some a \<Rightarrow> a)"

fun echoes :: "DgTransport \<Rightarrow> nat \<Rightarrow> sockaddr \<Rightarrow> (sockaddr option \<times> bytes) list \<Rightarrow> (sockaddr \<times> bytes) list" where
  "echoes tr cap prev [] = []"
| "echoes tr cap prev ((from, x) # ms) =
     (echo_dest tr (last_from prev from), take cap x) # echoes tr cap (last_from prev from) ms"

lemma dg_echo_step:
  assumes "socks k (fd h) = Some s" "sk_inbox s = Arrived from x # rest" "length (data buf) = capacity buf"
    "send_ok os (echo_dest tr (last_from prev from)) (take (capacity buf) x)"
  shows "\<exists>buf1. ep_recv tr h buf prev k = (Inr (buf1, last_from prev from), put_sock (fd h) (s\<lparr>sk_inbox := rest\<rparr>) k)
    \<and> length (data buf1) = capacity buf1 \<and> capacity buf1 = capacity buf
    \<and> dg_echo tr os h (last_from prev from) buf1 (put_sock (fd h) (s\<lparr>sk_inbox := rest\<rparr>) k)
      = (Inr (), put_sock (fd h) (s\<lparr>sk_inbox := rest,
          sk_outbox := sk_outbox s @ [(echo_dest tr (last_from prev from), take (capacity buf) x)]\<rparr>) k)"
proof -
  let ?x = "take (capacity buf) x"
  let ?b = "fst (store_recv from ?x buf prev)"
  have len: "length (write_bytes 0 ?x (data buf)) = length (data buf)" using assms(3) by (intro length_write_bytes) simp
  have b: "data ?b = write_bytes 0 ?x (data buf)" "buf_size ?b = length ?x" "capacity ?b = capacity buf"
    by (simp_all add: store_recv_def)
  have bb: "buffer_bytes ?b = ?x"
    using assms(3) by (simp add: buffer_bytes_def b write_bytes_def take_add min_def)
  have "ep_recv tr h buf prev k = (Inr (?b, last_from prev from), put_sock (fd h) (s\<lparr>sk_inbox := rest\<rparr>) k)"
    using assms(1,2)
    by (cases tr) (simp_all add: ep_recv_def Uds_recv_def Udp_recv_def dg_recv_def sys_recvfrom_def store_recv_def last_from_def)
  moreover have "dg_echo tr os h (last_from prev from) ?b (put_sock (fd h) (s\<lparr>sk_inbox := rest\<rparr>) k)
      = (Inr (), put_sock (fd h) (s\<lparr>sk_inbox := rest,
          sk_outbox := sk_outbox s @ [(echo_dest tr (last_from prev from), ?x)]\<rparr>) k)"
    using assms(4) by (cases tr) (simp_all add: dg_echo_def Uds_echo_def Udp_echo_def Uds_send_to_def Udp_send_to_addr_def
        sys_sendto_def bb echo_dest_def put_sock_def)
  ultimately show ?thesis using len assms(3) b by (intro exI [of _ ?b]) simp
qed

lemma dg_echo_loop_echoes:
  "socks k (fd h) = Some s \<Longrightarrow> sk_inbox s = map (\<lambda>(a, x). Arrived a x) ms @ rest \<Longrightarrow> length (data buf) = capacity buf \<Longrightarrow>
   list_all (\<lambda>(a, x). send_ok os a x) (echoes tr (capacity buf) prev ms) \<Longrightarrow>
   dg_echo_loop tr os (length ms) h buf prev k
     = (None, put_sock (fd h) (s\<lparr>sk_inbox := rest, sk_outbox := sk_outbox s @ echoes tr (capacity buf) prev ms\<rparr>) k)"
proof (induction ms arbitrary: k s buf prev)
  case Nil
  have "k\<lparr>socks := (socks k)(fd h \<mapsto> s)\<rparr> = k" using Nil(1) by (simp add: fun_upd_idem)
  moreover have "s\<lparr>sk_inbox := rest\<rparr> = s" using Nil(2) by simp
  ultimately show ?case by (simp add: put_sock_def)
next
  case (Cons m ms)
  obtain fr x where m: "m = (fr, x)" by fastforce
  let ?prev = "last_from prev fr"
  let ?s = "s\<lparr>sk_inbox := map (\<lambda>(a, x). Arrived a x) ms @ rest,
    sk_outbox := sk_outbox s @ [(echo_dest tr ?prev, take (capacity buf) x)]\<rparr>"
  obtain buf1 where st: "ep_recv tr h buf prev k
      = (Inr (buf1, ?prev), put_sock (fd h) (s\<lparr>sk_inbox := map (\<lambda>(a, x). Arrived a x) ms @ rest\<rparr>) k)"
    "length (data buf1) = capacity buf1" "capacity buf1 = capacity buf"
    "dg_echo tr os h ?prev buf1 (put_sock (fd h) (s\<lparr>sk_inbox := map (\<lambda>(a, x). Arrived a x) ms @ rest\<rparr>) k)
      = (Inr (), put_sock (fd h) ?s k)"
    using dg_echo_step [OF Cons.prems(1) _ Cons.prems(3), of fr x "map (\<lambda>(a, x). Arrived a x) ms @ rest" os tr prev]
      Cons.prems(2,4) m by auto
  have "dg_echo_loop tr os (length ms) h buf1 ?prev (put_sock (fd h) ?s k)
      = (None, put_sock (fd h) (?s\<lparr>sk_inbox := rest, sk_outbox := sk_outbox ?s @ echoes tr (capacity buf1) ?prev ms\<rparr>)
          (put_sock (fd h) ?s k))"
    by (rule Cons.IH) (use st Cons.prems(4) m in simp_all)
  moreover have "\<not> recvfrom_hangs (fd h) k" using Cons.prems(1,2) by (simp add: recvfrom_hangs_def)
  ultimately show ?case using st m by (simp add: put_sock_def)
qed

text \<open>
  C39: the echo server returns every message to its sender. If the next datagrams on the socket come
  from addresses that the code can write back, and the kernel accepts the replies, then after as
  many turns the server has sent back to each sender exactly the first 1024 bytes of its message,
  in order, has raised nothing and left the rest of the queue alone.
\<close>

theorem echo_server_echoes:
  assumes "socks k (fd h) = Some s" "sk_inbox s = map (\<lambda>(a, x). Arrived (Some a) x) ms @ rest" "length storage = 1024"
    "\<forall>(a, x)\<in>set ms. echo_dest tr a = a \<and> send_ok os a (take 1024 x)"
  shows "\<exists>k'. EchoServer_run tr os (length ms) storage h k = (None, k')
    \<and> socks k' (fd h) = Some (s\<lparr>sk_inbox := rest, sk_outbox := sk_outbox s @ map (\<lambda>(a, x). (a, take 1024 x)) ms\<rparr>)
    \<and> paths k' = paths k"
proof -
  let ?ms = "map (\<lambda>(a, x). (Some a, x)) ms"
  have e: "echoes tr 1024 prev ?ms = map (\<lambda>(a, x). (a, take 1024 x)) ms" for prev
    using assms(4) by (induction ms arbitrary: prev) (auto simp: last_from_def)
  have b: "capacity (Buffer_writable storage) = 1024" "length (data (Buffer_writable storage)) = 1024"
    using assms(3) by (simp_all add: Buffer_writable_def)
  have "sk_inbox s = map (\<lambda>(a, x). Arrived a x) ?ms @ rest" using assms(2) by (simp add: comp_def case_prod_unfold)
  from dg_echo_loop_echoes [OF assms(1) this, of "Buffer_writable storage" os tr "from_zero tr"] assms(4)
  have "dg_echo_loop tr os (length ms) h (Buffer_writable storage) (from_zero tr) k
     = (None, put_sock (fd h) (s\<lparr>sk_inbox := rest, sk_outbox := sk_outbox s @ map (\<lambda>(a, x). (a, take 1024 x)) ms\<rparr>) k)"
    using e [unfolded case_prod_unfold] by (simp add: b list_all_iff case_prod_unfold)
  then show ?thesis by (simp add: EchoServer_run_def)
qed

text \<open>
  An anonymous datagram is echoed to somebody else. A message from a socket without address
  (a Unix client that never bound) leaves the previous sender's address in place, so the server sends
  it to the client before it.
\<close>

lemma echo_anonymous_misdirected:
  assumes "socks k (fd h) = Some s" "sk_inbox s = [Arrived (Some a) x, Arrived None y]" "length storage = 1024"
    "echo_dest tr a = a" "send_ok os a (take 1024 x)" "send_ok os a (take 1024 y)"
  shows "\<exists>k'. EchoServer_run tr os 2 storage h k = (None, k')
    \<and> map_option sk_outbox (socks k' (fd h)) = Some (sk_outbox s @ [(a, take 1024 x), (a, take 1024 y)])"
proof -
  have b: "capacity (Buffer_writable storage) = 1024" "length (data (Buffer_writable storage)) = 1024"
    using assms(3) by (simp_all add: Buffer_writable_def)
  have "sk_inbox s = map (\<lambda>(a, x). Arrived a x) [(Some a, x), (None, y)] @ []" using assms(2) by simp
  from dg_echo_loop_echoes [OF assms(1) this, of "Buffer_writable storage" os tr "from_zero tr"] assms(4-6)
  show ?thesis by (simp add: b last_from_def EchoServer_run_def numeral_2_eq_2)
qed

theorem echo_server_echoes_witness:
  "\<exists>k'. EchoServer_run UdpT demo_os 2 (replicate 1024 0) \<lparr>fd = 3\<rparr>
      (demo_kernel\<lparr>socks := [3 \<mapsto> Sock_new\<lparr>sk_inbox := [Arrived (Some (SockIn [127, 0, 0, 1] 9)) [1], Arrived (Some (SockIn [127, 0, 0, 1] 8)) [2]]\<rparr>]\<rparr>)
      = (None, k')
    \<and> map_option sk_outbox (socks k' 3) = Some [(SockIn [127, 0, 0, 1] 9, [1]), (SockIn [127, 0, 0, 1] 8, [2])]"
  using echo_server_echoes [of "demo_kernel\<lparr>socks := [3 \<mapsto> Sock_new\<lparr>sk_inbox :=
      [Arrived (Some (SockIn [127, 0, 0, 1] 9)) [1], Arrived (Some (SockIn [127, 0, 0, 1] 8)) [2]]\<rparr>]\<rparr>" "\<lparr>fd = 3\<rparr>"
    "Sock_new\<lparr>sk_inbox := [Arrived (Some (SockIn [127, 0, 0, 1] 9)) [1], Arrived (Some (SockIn [127, 0, 0, 1] 8)) [2]]\<rparr>"
    "[(SockIn [127, 0, 0, 1] 9, [1]), (SockIn [127, 0, 0, 1] 8, [2])]" "[]" "replicate 1024 0" UdpT demo_os]
  by (auto simp: echo_dest_def demo_os_def Sock_new_def numeral_2_eq_2)

lemma echo_anonymous_misdirected_witness:
  "\<exists>k'. EchoServer_run UdsT demo_os 2 (replicate 1024 0) \<lparr>fd = 3\<rparr>
      (demo_kernel\<lparr>socks := [3 \<mapsto> Sock_new\<lparr>sk_inbox := [Arrived (Some (SockUn ''/c'')) [1], Arrived None [2]]\<rparr>]\<rparr>)
      = (None, k')
    \<and> map_option sk_outbox (socks k' 3) = Some [(SockUn ''/c'', [1]), (SockUn ''/c'', [2])]"
proof -
  have "echo_dest UdsT (SockUn ''/c'') = SockUn ''/c''" by (simp add: echo_dest_def sun_path_def c_str_def)
  then show ?thesis
    using echo_anonymous_misdirected [of "demo_kernel\<lparr>socks := [3 \<mapsto> Sock_new\<lparr>sk_inbox :=
        [Arrived (Some (SockUn ''/c'')) [1], Arrived None [2]]\<rparr>]\<rparr>" "\<lparr>fd = 3\<rparr>"
      "Sock_new\<lparr>sk_inbox := [Arrived (Some (SockUn ''/c'')) [1], Arrived None [2]]\<rparr>" "SockUn ''/c''" "[1]" "[2]"
      "replicate 1024 0" UdsT demo_os]
    by (auto simp: demo_os_def Sock_new_def)
qed

end
